(* ===== verification/Prelude.thy ===== *)
theory Prelude
  imports Main "HOL-Library.Word"
begin

text \<open>
  Shared vocabulary of the development: the machine types of the 32-bit kernel, the ways
  in which kernel code stops instead of returning, and the generic lemmas on results,
  words and lists that the component theories rely on.

  A C function that may panic returns a value of type \<open>'a kres\<close>: \<open>Inl f\<close> says why it
  did not return, \<open>Inr x\<close> is its result. \<open>abortf\<close> (\<open>utils/stdio.c\<close>) kills the
  current task or halts the machine, so \<open>Abort\<close> ends the computation; the debug
  option that lets an operator resume after a panic from the serial line is not modelled.
  A read or write outside an array, which C leaves undefined, is \<open>OutOfBounds\<close>, and
  following a pointer to nothing is \<open>BadPointer\<close>. Division by zero is \<open>DivideError\<close>, and
  \<open>Exited c\<close> is a user program that called \<open>exit(c)\<close>. Log output (\<open>debugf\<close>, \<open>printf\<close>)
  changes no state of the model and is left out.
\<close>

unbundle bit_operations_syntax

type_synonym u8 = "8 word"
type_synonym u16 = "16 word"
type_synonym u32 = "32 word"
type_synonym u64 = "64 word"

datatype kfault =
    Abort string
  | AssertFailed string
  | OutOfBounds
  | BadPointer
  | DivideError
  | Exited u32

type_synonym 'a kres = "kfault + 'a"

named_theorems kres_simps \<open>evaluation of sequenced kernel results\<close>
named_theorems word_bridge \<open>from 32-bit words to natural numbers\<close>

section \<open>Sequencing of results\<close>

definition kbind :: "'a kres \<Rightarrow> ('a \<Rightarrow> 'b kres) \<Rightarrow> 'b kres" where
  "kbind m f = (case m of Inl e \<Rightarrow> Inl e | Inr x \<Rightarrow> f x)"

lemma kbind_Inl [simp, kres_simps]: "kbind (Inl e) f = Inl e"
  by (simp add: kbind_def)

lemma kbind_Inr [simp, kres_simps]: "kbind (Inr x) f = f x"
  by (simp add: kbind_def)

lemma kbind_eq_Inr_iff: "kbind m f = Inr y \<longleftrightarrow> (\<exists>x. m = Inr x \<and> f x = Inr y)"
  by (cases m) auto

lemma kbind_InrE [elim!]:
  assumes "kbind m f = Inr y"
  obtains x where "m = Inr x" and "f x = Inr y"
  using assms by (auto simp: kbind_eq_Inr_iff)

lemma kbind_assoc: "kbind (kbind m f) g = kbind m (\<lambda>x. kbind (f x) g)"
  by (cases m) auto

lemma kbind_cong [fundef_cong]:
  assumes "m = m'" and "\<And>x. m' = Inr x \<Longrightarrow> f x = f' x"
  shows "kbind m f = kbind m' f'"
  using assms by (cases m') auto

text \<open>A guard: stop with a fault unless the condition holds.\<close>

definition kassert :: "bool \<Rightarrow> kfault \<Rightarrow> unit kres" where
  "kassert b e = (if b then Inr () else Inl e)"

lemma kassert_True [simp, kres_simps]: "kassert True e = Inr ()"
  by (simp add: kassert_def)

lemma kassert_False [simp, kres_simps]: "kassert False e = Inl e"
  by (simp add: kassert_def)

lemma kassert_eq_Inr [simp]: "kassert b e = Inr u \<longleftrightarrow> b"
  by (simp add: kassert_def)

section \<open>Words as numbers\<close>

lemma unat_lt_32 [word_bridge]: "unat (x :: u32) < 4294967296"
proof -
  have "unat x < 2 ^ LENGTH(32)" by (rule unsigned_less)
  then show ?thesis by simp
qed

lemma unat_of_nat_32 [word_bridge]: "n < 4294967296 \<Longrightarrow> unat (of_nat n :: u32) = n"
  by (simp add: unat_of_nat)

lemma unat_add_32 [word_bridge]:
  "unat a + unat b < 4294967296 \<Longrightarrow> unat (a + b :: u32) = unat a + unat b"
  by (simp add: unat_word_ariths)

lemma unat_sub_32 [word_bridge]: "b \<le> a \<Longrightarrow> unat (a - b :: u32) = unat a - unat b"
  by (rule unat_sub)

lemma unat_eq_iff_32: "(a :: u32) = b \<longleftrightarrow> unat a = unat b"
  by (simp add: word_unat_eq_iff)

definition page_aligned :: "u32 \<Rightarrow> bool" where
  "page_aligned a \<longleftrightarrow> a AND 0xfff = 0"

lemma unat_and_fff: "unat (a AND 0xfff :: u32) = unat a mod 4096"
proof -
  have "a AND 0xfff = take_bit 12 a"
    by (simp add: take_bit_eq_mask mask_eq_exp_minus_1)
  then show ?thesis by (simp add: take_bit_eq_mod unat_mod)
qed

lemma page_aligned_unat: "page_aligned a \<longleftrightarrow> unat a mod 4096 = 0"
  unfolding page_aligned_def unat_eq_iff_32 unat_and_fff by simp

lemma page_aligned_add: "page_aligned a \<Longrightarrow> page_aligned (a + 0x1000)"
proof -
  assume "page_aligned a"
  moreover have "(unat a + 4096) mod 4294967296 mod 4096 = (unat a + 4096) mod 4096"
    by (rule mod_mod_cancel) simp
  ultimately show ?thesis by (simp add: page_aligned_unat unat_word_ariths)
qed

text \<open>Two words that are exactly swapped by two wrapping updates add up to the same total.\<close>

lemma add_transfer_32: "(a - x) + (b + x) = (a :: u32) + b"
  by simp

section \<open>32-bit arithmetic on numbers\<close>

text \<open>
  Components that mostly reason about sizes and addresses keep them as natural numbers and
  write the wrap-around of \<open>uint32_t\<close> and \<open>size_t\<close> out.
\<close>

definition wrap32 :: "nat \<Rightarrow> nat" where
  "wrap32 n = n mod 4294967296"

definition sub32 :: "nat \<Rightarrow> nat \<Rightarrow> nat" where
  "sub32 a b = (a + 4294967296 - b) mod 4294967296"

lemma wrap32_id [simp]: "n < 4294967296 \<Longrightarrow> wrap32 n = n"
  by (simp add: wrap32_def)

lemma wrap32_lt: "wrap32 n < 4294967296"
  by (simp add: wrap32_def)

lemma sub32_id [simp]: "b \<le> a \<Longrightarrow> a < 4294967296 \<Longrightarrow> sub32 a b = a - b"
  by (simp add: sub32_def mod_if)

section \<open>Results of loops that may not return\<close>

text \<open>\<open>None\<close>: the loop does not end. \<open>Some (Inl f)\<close>: it stops with a fault.\<close>

type_synonym 'a kloop = "'a kres option"

definition kseq :: "'a kloop \<Rightarrow> ('a \<Rightarrow> 'b kloop) \<Rightarrow> 'b kloop" where
  "kseq m f = (case m of None \<Rightarrow> None | Some (Inl e) \<Rightarrow> Some (Inl e) | Some (Inr x) \<Rightarrow> f x)"

lemma kseq_simps [simp, kres_simps]:
  "kseq None f = None"
  "kseq (Some (Inl e)) f = Some (Inl e)"
  "kseq (Some (Inr x)) f = f x"
  by (simp_all add: kseq_def)

lemma kseq_bind: "kseq m k = Option.bind m (\<lambda>r. case r of Inl e \<Rightarrow> Some (Inl e) | Inr x \<Rightarrow> k x)"
  by (simp add: kseq_def split: option.splits)

lemma kseq_mono [partial_function_mono]:
  assumes "mono_option B" and "\<And>x. mono_option (\<lambda>f. C x f)"
  shows "mono_option (\<lambda>f. kseq (B f) (\<lambda>x. C x f))"
proof -
  have "mono_option (\<lambda>f. case r of Inl e \<Rightarrow> Some (Inl e) | Inr x \<Rightarrow> C x f)" for r
    using assms(2) by (cases r) (simp_all add: option.const_mono)
  then show ?thesis
    unfolding kseq_bind by (rule bind_mono [OF assms(1)])
qed

lemma kseq_eq_Inr_iff: "kseq m f = Some (Inr y) \<longleftrightarrow> (\<exists>x. m = Some (Inr x) \<and> f x = Some (Inr y))"
  by (auto simp: kseq_def split: option.splits sum.splits)

lemma kseq_InrE [elim!]:
  assumes "kseq m f = Some (Inr y)"
  obtains x where "m = Some (Inr x)" and "f x = Some (Inr y)"
  using assms by (auto simp: kseq_eq_Inr_iff)

section \<open>The C type \<open>int\<close>\<close>

text \<open>The value an \<open>int\<close> of 32 bits holds when \<open>i\<close> is stored in it.\<close>

definition s32 :: "int \<Rightarrow> int" where
  "s32 i = (i + 0x80000000) mod 0x100000000 - 0x80000000"

lemma s32_id: "-0x80000000 \<le> i \<Longrightarrow> i < 0x80000000 \<Longrightarrow> s32 i = i"
  by (simp add: s32_def)

lemma s32_bounds: "-0x80000000 \<le> s32 i" "s32 i < 0x80000000"
  by (simp_all add: s32_def)

section \<open>Lists\<close>

lemma nth_list_update_if:
  "i < length xs \<Longrightarrow> xs[i := v] ! j = (if j = i then v else xs ! j)"
  by (auto simp: nth_list_update)

end
