(* ===== verification/Pmm.thy ===== *)
theory Pmm
  imports Prelude
begin

text \<open>
  The physical page allocator, \<open>mckrnl/core/memory/pmm.c\<close>. Two bitmaps of
  \<open>BITMAP_SIZE\<close> 32-bit words hold one bit for each of the \<open>2 ^ 20\<close> pages of the
  32-bit physical address space: \<open>bitmap\<close> says which pages are in use and
  \<open>bitmap_pagetable_mask\<close> which pages belong to the area reserved for paging
  structures. A cleared bit means "in use" (respectively "page-table page").

  The arrays are functions from word index to word. An index past the end of the array is
  \<open>OutOfBounds\<close> in the two functions that can produce one; for the others the index is
  a page number of a 32-bit address and lies inside (\<open>page_index_bound\<close>).
\<close>

section \<open>State and bitmap primitives\<close>

definition BITMAP_SIZE :: nat where
  "BITMAP_SIZE = 32768"

definition NPAGES :: nat where
  "NPAGES = BITMAP_SIZE * 32"

type_synonym bitmap = "nat \<Rightarrow> u32"

record pmm =
  bitmap :: bitmap
  bitmap_pagetable_mask :: bitmap
  free_memory :: u32
  used_memory :: u32

definition bitmap_set :: "bitmap \<Rightarrow> nat \<Rightarrow> bitmap" where
  "bitmap_set m b =
     m(b div 32 := m (b div 32) AND NOT (drop_bit (b mod 32) 0x80000000))"

definition bitmap_clear :: "bitmap \<Rightarrow> nat \<Rightarrow> bitmap" where
  "bitmap_clear m b =
     m(b div 32 := m (b div 32) OR drop_bit (b mod 32) 0x80000000)"

definition bitmap_test :: "bitmap \<Rightarrow> nat \<Rightarrow> bool" where
  "bitmap_test m b \<longleftrightarrow> m (b div 32) AND drop_bit (b mod 32) 0x80000000 = 0"

definition pmm_usage_use :: "u32 \<Rightarrow> pmm \<Rightarrow> pmm" where
  "pmm_usage_use ammount s =
     s\<lparr>free_memory := free_memory s - ammount * 0x1000,
       used_memory := used_memory s + ammount * 0x1000\<rparr>"

definition pmm_usage_unuse :: "u32 \<Rightarrow> pmm \<Rightarrow> pmm" where
  "pmm_usage_unuse ammount s =
     s\<lparr>free_memory := free_memory s + ammount * 0x1000,
       used_memory := used_memory s - ammount * 0x1000\<rparr>"

section \<open>Single pages\<close>

text \<open>The page number of an address, and the address \<open>i * 0x1000\<close> of page \<open>i\<close>.\<close>

definition page_index :: "u32 \<Rightarrow> nat" where
  "page_index page = unat (page div 4096)"

definition page_addr :: "nat \<Rightarrow> u32" where
  "page_addr i = of_nat (i * 0x1000)"

definition pmm_mark_used :: "u32 \<Rightarrow> pmm \<Rightarrow> pmm" where
  "pmm_mark_used page s =
     pmm_usage_use 1 (s\<lparr>bitmap := bitmap_set (bitmap s) (page_index page)\<rparr>)"

definition pmm_free :: "u32 \<Rightarrow> pmm \<Rightarrow> pmm" where
  "pmm_free page s =
     pmm_usage_unuse 1 (s\<lparr>bitmap := bitmap_clear (bitmap s) (page_index page)\<rparr>)"

definition pmm_is_used :: "u32 \<Rightarrow> pmm \<Rightarrow> bool" where
  "pmm_is_used page s = bitmap_test (bitmap s) (page_index page)"

text \<open>
  \<open>pmm_alloc\<close> and \<open>pmm_alloc_pagetable\<close> are the same scan; the first takes a free page
  outside the paging area, the second one inside it.
\<close>

function pmm_alloc_from :: "bool \<Rightarrow> nat \<Rightarrow> pmm \<Rightarrow> (u32 \<times> pmm) kres" where
  "pmm_alloc_from pt i s =
     (if i < NPAGES then
        if \<not> bitmap_test (bitmap s) i \<and> bitmap_test (bitmap_pagetable_mask s) i = pt
        then Inr (page_addr i, pmm_usage_use 1 (s\<lparr>bitmap := bitmap_set (bitmap s) i\<rparr>))
        else pmm_alloc_from pt (Suc i) s
      else Inl (Abort ''Allocation failed!''))"
  by pat_completeness auto
termination
  by (relation "measure (\<lambda>(pt, i, s). NPAGES - i)") auto

declare pmm_alloc_from.simps [simp del]

definition pmm_alloc :: "pmm \<Rightarrow> (u32 \<times> pmm) kres" where
  "pmm_alloc s = pmm_alloc_from False 0 s"

definition pmm_alloc_pagetable :: "pmm \<Rightarrow> (u32 \<times> pmm) kres" where
  "pmm_alloc_pagetable s = pmm_alloc_from True 0 s"

section \<open>Page ranges\<close>

text \<open>
  The inner loop of \<open>pmm_alloc_range\<close>: the first \<open>j < count\<close> at which page \<open>i + j\<close> is
  in use and outside the paging area, if there is one.
\<close>

function range_conflict :: "pmm \<Rightarrow> nat \<Rightarrow> nat \<Rightarrow> nat \<Rightarrow> nat option kres" where
  "range_conflict s i count j =
     (if j < count then
        if i + j < NPAGES then
          if bitmap_test (bitmap s) (i + j) \<and> \<not> bitmap_test (bitmap_pagetable_mask s) (i + j)
          then Inr (Some j)
          else range_conflict s i count (Suc j)
        else Inl OutOfBounds
      else Inr None)"
  by pat_completeness auto
termination
  by (relation "measure (\<lambda>(s, i, count, j). count - j)") auto

declare range_conflict.simps [simp del]

fun bitmap_set_range :: "bitmap \<Rightarrow> nat \<Rightarrow> nat \<Rightarrow> bitmap" where
  "bitmap_set_range m i 0 = m"
| "bitmap_set_range m i (Suc n) = bitmap_set (bitmap_set_range m i n) (i + n)"

fun bitmap_clear_range :: "bitmap \<Rightarrow> nat \<Rightarrow> nat \<Rightarrow> bitmap" where
  "bitmap_clear_range m i 0 = m"
| "bitmap_clear_range m i (Suc n) = bitmap_clear (bitmap_clear_range m i n) (i + n)"

lemma range_conflict_Some:
  "range_conflict s i count j = Inr (Some k) \<Longrightarrow>
     j \<le> k \<and> k < count \<and> i + k < NPAGES \<and> bitmap_test (bitmap s) (i + k) \<and>
     \<not> bitmap_test (bitmap_pagetable_mask s) (i + k)"
proof (induction s i count j rule: range_conflict.induct)
  case (1 s i count j)
  show ?case
    using 1 by (subst (asm) range_conflict.simps) (auto split: if_splits dest: Suc_leD)
qed

lemma range_conflict_pos:
  assumes "range_conflict s i count 0 = Inr (Some j)" and "\<not> bitmap_test (bitmap s) i"
  shows "0 < j"
  using range_conflict_Some [OF assms(1)] assms(2) by (cases j) auto

text \<open>
  The outer loop, entered at the label \<open>retry\<close> with \<open>i\<close> inside the bitmap. A conflict at
  \<open>j\<close> continues at \<open>i + j\<close>, without the loop's own bounds check, as the \<open>goto\<close> does.
  \<open>count\<close> is an \<open>int\<close>: a negative one makes both inner loops empty.
\<close>

function pmm_alloc_range_from :: "int \<Rightarrow> nat \<Rightarrow> pmm \<Rightarrow> (u32 \<times> pmm) kres" where
  "pmm_alloc_range_from count i s =
     (if \<not> i < NPAGES then Inr (0, s)
      else if \<not> bitmap_test (bitmap s) i \<and> \<not> bitmap_test (bitmap_pagetable_mask s) i then
        (case range_conflict s i (nat count) 0 of
           Inl e \<Rightarrow> Inl e
         | Inr (Some j) \<Rightarrow> pmm_alloc_range_from count (i + j) s
         | Inr None \<Rightarrow>
             Inr (page_addr i,
                  pmm_usage_use (of_int count)
                    (s\<lparr>bitmap := bitmap_set_range (bitmap s) i (nat count)\<rparr>)))
      else pmm_alloc_range_from count (Suc i) s)"
  by pat_completeness auto
termination
  by (relation "measure (\<lambda>(count, i, s). NPAGES - i)") (auto dest: range_conflict_pos)

declare pmm_alloc_range_from.simps [simp del]

definition pmm_alloc_range :: "int \<Rightarrow> pmm \<Rightarrow> (u32 \<times> pmm) kres" where
  "pmm_alloc_range count s = pmm_alloc_range_from count 0 s"

definition pmm_free_range :: "u32 \<Rightarrow> int \<Rightarrow> pmm \<Rightarrow> pmm kres" where
  "pmm_free_range page count s =
     (if page_index page + nat count \<le> NPAGES then
        Inr (pmm_usage_unuse (of_int count)
               (s\<lparr>bitmap := bitmap_clear_range (bitmap s) (page_index page) (nat count)\<rparr>))
      else Inl OutOfBounds)"

section \<open>Initialisation from the boot information\<close>

record multiboot_mmap =
  mmap_base :: u64
  mmap_length :: u64
  mmap_type :: u32

record multiboot_module =
  mod_start :: u32
  mod_end :: u32

text \<open>
  What \<open>pmm_init\<close> reads: the linker symbols, the address of the boot information, its
  memory map and its modules.
\<close>

record boot_info =
  kernel_start :: u32
  kernel_end :: u32
  paging_start :: u32
  paging_end :: u32
  multiboot_info :: u32
  mbs_mods_addr :: u32
  mbs_mmap :: "multiboot_mmap list"
  mbs_mods :: "multiboot_module list"

text \<open>
  \<open>while (addr < end) { op(addr); addr += 0x1000; }\<close> on 32-bit addresses. The addition
  wraps, so the loop need not end; \<open>None\<close> is "does not return".
\<close>

partial_function (option) page_loop :: "(u32 \<Rightarrow> pmm \<Rightarrow> pmm) \<Rightarrow> u32 \<Rightarrow> u32 \<Rightarrow> pmm \<Rightarrow> pmm option" where
  "page_loop f addr end_addr s =
     (if addr < end_addr then page_loop f (addr + 0x1000) end_addr (f addr s) else Some s)"

definition pmm_free_section :: "multiboot_mmap \<Rightarrow> pmm \<Rightarrow> pmm option" where
  "pmm_free_section m s =
     (if mmap_type m = 1 then
        let addr = ucast (mmap_base m) :: u32;
            end_addr = ucast (mmap_base m + mmap_length m) :: u32
        in if mmap_base m > 0xfffff000 then Some s
           else page_loop pmm_free addr
                  (if mmap_base m + mmap_length m > 0xffffffff then 0xfffff000 else end_addr) s
      else Some s)"

fun pmm_free_sections :: "multiboot_mmap list \<Rightarrow> pmm \<Rightarrow> pmm option" where
  "pmm_free_sections [] s = Some s"
| "pmm_free_sections (m # ms) s = Option.bind (pmm_free_section m s) (pmm_free_sections ms)"

definition mask_page :: "u32 \<Rightarrow> pmm \<Rightarrow> pmm" where
  "mask_page addr s =
     s\<lparr>bitmap_pagetable_mask := bitmap_set (bitmap_pagetable_mask s) (unat (addr div 0x1000))\<rparr>"

fun pmm_mark_modules :: "multiboot_module list \<Rightarrow> pmm \<Rightarrow> pmm option" where
  "pmm_mark_modules [] s = Some s"
| "pmm_mark_modules (m # ms) s =
     Option.bind (page_loop pmm_mark_used (mod_start m) (mod_end m) s) (pmm_mark_modules ms)"

definition pmm_init :: "boot_info \<Rightarrow> pmm \<Rightarrow> pmm option" where
  "pmm_init b s0 =
     Option.bind
       (pmm_free_sections (mbs_mmap b)
          (s0\<lparr>bitmap := (\<lambda>_. 0), bitmap_pagetable_mask := (\<lambda>_. 0xffffffff)\<rparr>))
       (\<lambda>s1. Option.bind
         (page_loop pmm_mark_used (kernel_start b) (kernel_end b) (s1\<lparr>used_memory := 0\<rparr>))
         (\<lambda>s2. Option.bind
           (page_loop mask_page (paging_start b) (paging_end b) s2)
           (\<lambda>s3. Option.bind
             (pmm_mark_modules (mbs_mods b)
                (pmm_mark_used (mbs_mods_addr b) (pmm_mark_used (multiboot_info b) s3)))
             (\<lambda>s4. Some (pmm_mark_used 0 s4)))))"

section \<open>The bitmap interface\<close>

text \<open>
  All the allocator relies on: setting and clearing a bit changes the answer of the test
  for that bit and for no other.
\<close>

locale page_bitmap =
  fixes set_bit :: "'m \<Rightarrow> nat \<Rightarrow> 'm"
    and clear_bit :: "'m \<Rightarrow> nat \<Rightarrow> 'm"
    and test_bit :: "'m \<Rightarrow> nat \<Rightarrow> bool"
  assumes test_set: "test_bit (set_bit m b) c \<longleftrightarrow> c = b \<or> test_bit m c"
    and test_clear: "test_bit (clear_bit m b) c \<longleftrightarrow> c \<noteq> b \<and> test_bit m c"
begin

lemma free_after_set:
  "{c. c < n \<and> \<not> test_bit (set_bit m b) c} = {c. c < n \<and> \<not> test_bit m c} - {b}"
  by (auto simp: test_set)

lemma free_after_clear:
  "b < n \<Longrightarrow> {c. c < n \<and> \<not> test_bit (clear_bit m b) c} = insert b {c. c < n \<and> \<not> test_bit m c}"
  by (auto simp: test_clear)

lemma card_free_set:
  assumes "b < n" and "\<not> test_bit m b"
  shows "Suc (card {c. c < n \<and> \<not> test_bit (set_bit m b) c}) = card {c. c < n \<and> \<not> test_bit m c}"
  unfolding free_after_set using assms by (subst card_Suc_Diff1) auto

lemma card_free_clear:
  assumes "b < n" and "test_bit m b"
  shows "card {c. c < n \<and> \<not> test_bit (clear_bit m b) c} = Suc (card {c. c < n \<and> \<not> test_bit m c})"
  unfolding free_after_clear [OF assms(1)] using assms by simp

end

lemma bit_top_32: "bit (0x80000000 :: u32) n \<longleftrightarrow> n = 31"
proof -
  have "(0x80000000 :: u32) = 2 ^ 31" by simp
  then show ?thesis by (simp only: bit_exp_iff) (auto simp: possible_bit_def)
qed

lemma drop_bit_top:
  assumes "k < 32"
  shows "drop_bit k (0x80000000 :: u32) = 2 ^ (31 - k)"
proof (rule bit_eqI)
  fix n
  have "bit (drop_bit k (0x80000000 :: u32)) n \<longleftrightarrow> k + n = 31"
    by (simp only: bit_drop_bit_eq o_def bit_top_32)
  then show "bit (drop_bit k (0x80000000 :: u32)) n = bit (2 ^ (31 - k) :: u32) n"
    using assms by (auto simp: bit_exp_iff possible_bit_def)
qed

lemma bitmap_test_bit: "bitmap_test m b \<longleftrightarrow> \<not> bit (m (b div 32)) (31 - b mod 32)"
  by (simp add: bitmap_test_def drop_bit_top and_exp_eq_0_iff_not_bit)

lemma bit_position_eq: "31 - b mod 32 = 31 - c mod 32 \<longleftrightarrow> b mod 32 = c mod (32 :: nat)"
  using mod_less_divisor [of 32 b] mod_less_divisor [of 32 c] by linarith

lemma bit_index_eq: "b div 32 = c div 32 \<Longrightarrow> b mod 32 = c mod (32 :: nat) \<Longrightarrow> b = c"
  by (metis div_mult_mod_eq)

lemma bitmap_test_set: "bitmap_test (bitmap_set m b) c \<longleftrightarrow> c = b \<or> bitmap_test m c"
  by (auto simp: bitmap_test_bit bitmap_set_def drop_bit_top bit_simps bit_position_eq
      dest: bit_index_eq)

lemma bitmap_test_clear: "bitmap_test (bitmap_clear m b) c \<longleftrightarrow> c \<noteq> b \<and> bitmap_test m c"
  by (auto simp: bitmap_test_bit bitmap_clear_def drop_bit_top bit_simps bit_position_eq
      dest: bit_index_eq)

interpretation bm: page_bitmap bitmap_set bitmap_clear bitmap_test
  by unfold_locales (rule bitmap_test_set, rule bitmap_test_clear)

section \<open>Addresses and page numbers\<close>

lemma page_index_unat: "page_index a = unat a div 4096"
  by (simp add: page_index_def unat_div)

lemma page_index_bound: "page_index a < NPAGES"
  using unat_lt_32 [of a] by (simp add: page_index_unat NPAGES_def BITMAP_SIZE_def)

lemma unat_page_addr [word_bridge]: "i < NPAGES \<Longrightarrow> unat (page_addr i) = i * 4096"
  unfolding page_addr_def by (subst unat_of_nat_32) (simp_all add: NPAGES_def BITMAP_SIZE_def)

lemma page_index_addr [simp]: "i < NPAGES \<Longrightarrow> page_index (page_addr i) = i"
  by (simp add: page_index_unat unat_page_addr)

lemma page_addr_eq_0 [simp]: "i < NPAGES \<Longrightarrow> page_addr i = 0 \<longleftrightarrow> i = 0"
  by (simp add: unat_eq_iff_32 unat_page_addr)

lemma bitmap_clear_set:
  assumes "\<not> bitmap_test m b"
  shows "bitmap_clear (bitmap_set m b) b = m"
proof
  fix w
  show "bitmap_clear (bitmap_set m b) b w = m w"
  proof (rule bit_word_eqI)
    fix n
    assume "n < LENGTH(32)"
    then show "bit (bitmap_clear (bitmap_set m b) b w) n = bit (m w) n"
      using assms by (auto simp: bitmap_test_bit bitmap_clear_def bitmap_set_def drop_bit_top bit_simps)
  qed
qed

lemma all_ones_test: "\<not> bitmap_test (\<lambda>_. 0xffffffff) i"
proof -
  have "(0xffffffff :: u32) = mask 32" by (simp add: mask_eq_exp_minus_1)
  then have "bit (0xffffffff :: u32) (31 - i mod 32)"
    by (simp only: bit_mask_iff) (simp add: possible_bit_def)
  then show ?thesis by (simp add: bitmap_test_bit)
qed

lemma usage_unuse_use: "pmm_usage_unuse n (pmm_usage_use n s) = s"
  by (simp add: pmm_usage_use_def pmm_usage_unuse_def)

lemma usage_simps [simp]:
  "bitmap (pmm_usage_use n s) = bitmap s"
  "bitmap_pagetable_mask (pmm_usage_use n s) = bitmap_pagetable_mask s"
  "bitmap (pmm_usage_unuse n s) = bitmap s"
  "bitmap_pagetable_mask (pmm_usage_unuse n s) = bitmap_pagetable_mask s"
  "free_memory (pmm_usage_use n s) = free_memory s - n * 0x1000"
  "free_memory (pmm_usage_unuse n s) = free_memory s + n * 0x1000"
  "used_memory (pmm_usage_use n s) = used_memory s + n * 0x1000"
  "used_memory (pmm_usage_unuse n s) = used_memory s - n * 0x1000"
  by (simp_all add: pmm_usage_use_def pmm_usage_unuse_def)

lemma pmm_is_used_mark [simp]:
  "pmm_is_used a (pmm_mark_used p s) \<longleftrightarrow> page_index a = page_index p \<or> pmm_is_used a s"
  by (simp add: pmm_is_used_def pmm_mark_used_def bitmap_test_set)

lemma pmm_is_used_free [simp]:
  "pmm_is_used a (pmm_free p s) \<longleftrightarrow> page_index a \<noteq> page_index p \<and> pmm_is_used a s"
  by (simp add: pmm_is_used_def pmm_free_def bitmap_test_clear)

lemma pmm_mark_used_mask [simp]:
  "bitmap_pagetable_mask (pmm_mark_used p s) = bitmap_pagetable_mask s"
  by (simp add: pmm_mark_used_def)

section \<open>Single-page allocation\<close>

text \<open>A page a scan may take: free, and on the right side of the paging area.\<close>

definition page_available :: "bool \<Rightarrow> pmm \<Rightarrow> nat \<Rightarrow> bool" where
  "page_available pt s i \<longleftrightarrow>
     i < NPAGES \<and> \<not> bitmap_test (bitmap s) i \<and> bitmap_test (bitmap_pagetable_mask s) i = pt"

definition take_page :: "nat \<Rightarrow> pmm \<Rightarrow> pmm" where
  "take_page i s = pmm_usage_use 1 (s\<lparr>bitmap := bitmap_set (bitmap s) i\<rparr>)"

lemma pmm_alloc_from_found:
  assumes "page_available pt s i" and "j \<le> i" and "\<forall>k. j \<le> k \<and> k < i \<longrightarrow> \<not> page_available pt s k"
  shows "pmm_alloc_from pt j s = Inr (page_addr i, take_page i s)"
  using assms(2,3)
proof (induction j rule: inc_induct)
  case base
  with assms(1) show ?case
    by (subst pmm_alloc_from.simps) (simp add: page_available_def take_page_def)
next
  case (step n)
  then have "\<not> page_available pt s n" and "n < NPAGES"
    using assms(1) by (auto simp: page_available_def)
  with step show ?case
    by (subst pmm_alloc_from.simps) (auto simp: page_available_def)
qed

lemma pmm_alloc_from_none:
  assumes "\<forall>k\<ge>j. \<not> page_available pt s k"
  shows "pmm_alloc_from pt j s = Inl (Abort ''Allocation failed!'')"
  using assms
proof (induction pt j s rule: pmm_alloc_from.induct)
  case (1 pt i s)
  then show ?case
    by (subst pmm_alloc_from.simps) (auto simp: page_available_def)
qed

lemma pmm_alloc_from_eq:
  "pmm_alloc_from pt 0 s =
     (if \<exists>i. page_available pt s i
      then let i = (LEAST i. page_available pt s i) in Inr (page_addr i, take_page i s)
      else Inl (Abort ''Allocation failed!''))"
proof (cases "\<exists>i. page_available pt s i")
  case True
  then have "page_available pt s (LEAST i. page_available pt s i)" by (rule LeastI_ex)
  then show ?thesis
    using True by (auto simp: Let_def intro!: pmm_alloc_from_found dest: not_less_Least)
next
  case False
  then show ?thesis by (auto intro: pmm_alloc_from_none)
qed

lemma pmm_alloc_from_InrE:
  assumes "pmm_alloc_from pt 0 s = Inr (p, s')"
  obtains i where "page_available pt s i" and "p = page_addr i" and "s' = take_page i s"
  using assms LeastI_ex [of "page_available pt s"]
  by (auto simp: pmm_alloc_from_eq Let_def split: if_splits)

text \<open>
  First fit. \<open>pmm_alloc\<close> returns the address of the lowest page that is free and
  outside the paging area, marks that page used, and books 4096 bytes from free to used;
  nothing else changes. It panics exactly when there is no such page.
\<close>

theorem pmm_alloc_first_fit:
  "pmm_alloc s =
     (if \<exists>i. page_available False s i
      then let i = (LEAST i. page_available False s i)
           in Inr (page_addr i,
                   s\<lparr>bitmap := bitmap_set (bitmap s) i,
                     free_memory := free_memory s - 0x1000,
                     used_memory := used_memory s + 0x1000\<rparr>)
      else Inl (Abort ''Allocation failed!''))"
  by (simp add: pmm_alloc_def pmm_alloc_from_eq take_page_def pmm_usage_use_def)

section \<open>The contract of a page allocator\<close>

text \<open>
  What clients of the allocator rely on, whatever pool it serves: a returned page was not in
  use, it is in use afterwards, no other page's status changes, and giving it back undoes
  the allocation.
\<close>

locale page_allocator =
  fixes alloc :: "'s \<Rightarrow> ('p \<times> 's) kres"
    and release :: "'p \<Rightarrow> 's \<Rightarrow> 's"
    and in_use :: "'s \<Rightarrow> 'p \<Rightarrow> bool"
    and page_of :: "'p \<Rightarrow> nat"
  assumes alloc_fresh: "alloc s = Inr (p, s') \<Longrightarrow> \<not> in_use s p"
    and alloc_in_use: "alloc s = Inr (p, s') \<Longrightarrow> in_use s' q \<longleftrightarrow> page_of q = page_of p \<or> in_use s q"
    and release_alloc: "alloc s = Inr (p, s') \<Longrightarrow> release p s' = s"
begin

lemma alloc_keeps: "alloc s = Inr (p, s') \<Longrightarrow> in_use s q \<Longrightarrow> in_use s' q"
  by (simp add: alloc_in_use)

lemma alloc_other_page: "alloc s = Inr (p, s') \<Longrightarrow> in_use s q \<Longrightarrow> q \<noteq> p"
  by (auto dest: alloc_fresh)

end

text \<open>Allocating \<open>n\<close> pages one after the other.\<close>

fun alloc_many :: "('s \<Rightarrow> ('p \<times> 's) kres) \<Rightarrow> nat \<Rightarrow> 's \<Rightarrow> ('p list \<times> 's) kres" where
  "alloc_many f 0 s = Inr ([], s)"
| "alloc_many f (Suc n) s =
     kbind (f s) (\<lambda>(p, s1). kbind (alloc_many f n s1) (\<lambda>(ps, s2). Inr (p # ps, s2)))"

context page_allocator
begin

lemma alloc_many_in_use:
  assumes "alloc_many alloc n s = Inr (ps, s')" and "in_use s q"
  shows "in_use s' q \<and> q \<notin> set ps"
  using assms
proof (induction n arbitrary: s ps)
  case 0
  then show ?case by simp
next
  case (Suc n)
  then obtain p s1 ps1 where "alloc s = Inr (p, s1)" and "alloc_many alloc n s1 = Inr (ps1, s')"
    and "ps = p # ps1"
    by auto
  with Suc show ?case by (auto dest: alloc_keeps alloc_other_page)
qed

lemma alloc_many_distinct:
  "alloc_many alloc n s = Inr (ps, s') \<Longrightarrow> distinct ps \<and> length ps = n"
proof (induction n arbitrary: s ps)
  case 0
  then show ?case by simp
next
  case (Suc n)
  then obtain p s1 ps1 where a: "alloc s = Inr (p, s1)" and m: "alloc_many alloc n s1 = Inr (ps1, s')"
    and "ps = p # ps1"
    by auto
  moreover have "in_use s1 p" using alloc_in_use [OF a] by simp
  ultimately show ?case using Suc.IH [OF m] alloc_many_in_use [OF m] by simp
qed

lemma release_many:
  "alloc_many alloc n s = Inr (ps, s') \<Longrightarrow> fold release (rev ps) s' = s"
proof (induction n arbitrary: s ps)
  case 0
  then show ?case by simp
next
  case (Suc n)
  then show ?case by (auto simp: release_alloc)
qed

end

lemma alloc_from_fresh: "pmm_alloc_from pt 0 s = Inr (p, s') \<Longrightarrow> \<not> pmm_is_used p s"
  by (erule pmm_alloc_from_InrE) (simp add: pmm_is_used_def page_available_def)

lemma alloc_from_in_use:
  "pmm_alloc_from pt 0 s = Inr (p, s') \<Longrightarrow>
     pmm_is_used q s' \<longleftrightarrow> page_index q = page_index p \<or> pmm_is_used q s"
  by (erule pmm_alloc_from_InrE)
    (simp add: pmm_is_used_def page_available_def take_page_def bitmap_test_set)

lemma pmm_free_take:
  assumes "page_available pt s i"
  shows "pmm_free (page_addr i) (take_page i s) = s"
proof -
  have "bitmap_clear (bitmap_set (bitmap s) i) i = bitmap s"
    using assms by (simp add: page_available_def bitmap_clear_set)
  with assms show ?thesis
    by (simp add: pmm_free_def take_page_def page_available_def pmm_usage_use_def pmm_usage_unuse_def)
qed

lemma alloc_from_release: "pmm_alloc_from pt 0 s = Inr (p, s') \<Longrightarrow> pmm_free p s' = s"
  by (erule pmm_alloc_from_InrE) (simp add: pmm_free_take)

interpretation general: page_allocator pmm_alloc pmm_free "\<lambda>s p. pmm_is_used p s" page_index
  unfolding pmm_alloc_def
  by unfold_locales (rule alloc_from_fresh alloc_from_in_use alloc_from_release; assumption)+

interpretation tables: page_allocator pmm_alloc_pagetable pmm_free "\<lambda>s p. pmm_is_used p s" page_index
  unfolding pmm_alloc_pagetable_def
  by unfold_locales (rule alloc_from_fresh alloc_from_in_use alloc_from_release; assumption)+

text \<open>
  Allocating any number of pages in a row yields pairwise different pages, none of which
  was in use before, and freeing them in reverse order restores the allocator exactly:
  bitmap, mask and both counters.
\<close>

theorem pmm_alloc_many_roundtrip:
  assumes "alloc_many pmm_alloc n s = Inr (ps, s')"
  shows "distinct ps \<and> length ps = n \<and> (\<forall>p\<in>set ps. \<not> pmm_is_used p s) \<and>
         fold pmm_free (rev ps) s' = s"
  using general.alloc_many_distinct [OF assms] general.release_many [OF assms]
    general.alloc_many_in_use [OF assms] by blast

section \<open>Ownership of pages across interleaved calls\<close>

text \<open>
  The allocator and its clients as a transition system: \<open>H\<close> is the set of pages handed out
  and not yet given back. Clients free only what they own.
\<close>

inductive pmm_step :: "pmm \<times> u32 set \<Rightarrow> pmm \<times> u32 set \<Rightarrow> bool" where
  step_alloc: "pmm_alloc s = Inr (p, s') \<Longrightarrow> pmm_step (s, H) (s', insert p H)"
| step_alloc_pagetable: "pmm_alloc_pagetable s = Inr (p, s') \<Longrightarrow> pmm_step (s, H) (s', insert p H)"
| step_free: "p \<in> H \<Longrightarrow> pmm_step (s, H) (pmm_free p s, H - {p})"

inductive_cases pmm_stepE: "pmm_step (s, H) t"

definition free_pages :: "pmm \<Rightarrow> nat" where
  "free_pages s = card {i. i < NPAGES \<and> \<not> bitmap_test (bitmap s) i}"

definition accounting_ok :: "pmm \<Rightarrow> bool" where
  "accounting_ok s \<longleftrightarrow> free_memory s = of_nat (free_pages s) * 0x1000"

definition pmm_inv :: "pmm \<times> u32 set \<Rightarrow> bool" where
  "pmm_inv st = (case st of (s, H) \<Rightarrow>
     accounting_ok s \<and>
     (\<forall>p\<in>H. pmm_is_used p s \<and> (\<exists>i<NPAGES. p = page_addr i)))"

lemma free_pages_take:
  "page_available pt s i \<Longrightarrow> Suc (free_pages (take_page i s)) = free_pages s"
  by (simp add: free_pages_def take_page_def page_available_def bm.card_free_set)

lemma free_pages_free:
  "pmm_is_used p s \<Longrightarrow> free_pages (pmm_free p s) = Suc (free_pages s)"
  by (simp add: free_pages_def pmm_free_def pmm_is_used_def bm.card_free_clear page_index_bound)

lemma accounting_take:
  assumes "page_available pt s i" and "accounting_ok s"
  shows "accounting_ok (take_page i s)"
proof -
  have "of_nat (free_pages s) = (1 :: u32) + of_nat (free_pages (take_page i s))"
    using free_pages_take [OF assms(1)] by (metis of_nat_Suc)
  with assms(2) show ?thesis
    by (simp add: accounting_ok_def take_page_def algebra_simps)
qed

lemma accounting_free:
  assumes "pmm_is_used p s" and "accounting_ok s"
  shows "accounting_ok (pmm_free p s)"
proof -
  have "of_nat (free_pages (pmm_free p s)) = (1 :: u32) + of_nat (free_pages s)"
    by (simp add: free_pages_free [OF assms(1)])
  with assms(2) show ?thesis
    by (simp add: accounting_ok_def pmm_free_def algebra_simps)
qed

lemma pmm_inv_alloc:
  assumes "pmm_alloc_from pt 0 s = Inr (p, s')" and "pmm_inv (s, H)"
  shows "pmm_inv (s', insert p H) \<and> p \<notin> H"
proof -
  from assms(1) obtain i where i: "page_available pt s i" "p = page_addr i" "s' = take_page i s"
    by (rule pmm_alloc_from_InrE)
  then have "accounting_ok s'" "i < NPAGES"
    using assms(2) by (simp_all add: pmm_inv_def accounting_take page_available_def)
  moreover have "pmm_is_used q s' \<longleftrightarrow> page_index q = page_index p \<or> pmm_is_used q s" for q
    by (rule alloc_from_in_use [OF assms(1)])
  moreover have "\<not> pmm_is_used p s"
    using assms(1) by (rule alloc_from_fresh)
  ultimately show ?thesis
    using assms(2) i(2) by (auto simp: pmm_inv_def)
qed

lemma pmm_inv_free:
  assumes "p \<in> H" and "pmm_inv (s, H)"
  shows "pmm_inv (pmm_free p s, H - {p})"
proof -
  have "page_index q \<noteq> page_index p" if "q \<in> H - {p}" for q
    using that assms by (auto simp: pmm_inv_def) (metis page_index_addr)
  with assms show ?thesis
    by (auto simp: pmm_inv_def accounting_free)
qed

lemma pmm_step_inv: "pmm_step st st' \<Longrightarrow> pmm_inv st \<Longrightarrow> pmm_inv st'"
  by (induction rule: pmm_step.induct)
    (auto simp: pmm_alloc_def pmm_alloc_pagetable_def dest: pmm_inv_alloc pmm_inv_free)

lemma pmm_run_inv: "pmm_step\<^sup>*\<^sup>* st st' \<Longrightarrow> pmm_inv st \<Longrightarrow> pmm_inv st'"
  by (induction rule: rtranclp_induct) (auto dest: pmm_step_inv)


section \<open>Page ranges\<close>

lemma bitmap_test_set_range:
  "bitmap_test (bitmap_set_range m i n) c \<longleftrightarrow> (i \<le> c \<and> c < i + n) \<or> bitmap_test m c"
  by (induction n) (auto simp: bitmap_test_set)

lemma bitmap_clear_other:
  assumes "b \<noteq> c"
  shows "bitmap_clear (bitmap_set m b) c = bitmap_set (bitmap_clear m c) b"
proof
  fix w
  show "bitmap_clear (bitmap_set m b) c w = bitmap_set (bitmap_clear m c) b w"
  proof (rule bit_word_eqI)
    fix n
    assume "n < LENGTH(32)"
    then show "bit (bitmap_clear (bitmap_set m b) c w) n = bit (bitmap_set (bitmap_clear m c) b w) n"
      using assms
      by (auto simp: bitmap_clear_def bitmap_set_def drop_bit_top bit_simps bit_position_eq
          dest: bit_index_eq)
  qed
qed

lemma bitmap_clear_range_set:
  "i + n \<le> b \<Longrightarrow> bitmap_clear_range (bitmap_set m b) i n = bitmap_set (bitmap_clear_range m i n) b"
  by (induction n) (simp_all add: bitmap_clear_other)

lemma bitmap_clear_set_range:
  assumes "\<forall>k. i \<le> k \<and> k < i + n \<longrightarrow> \<not> bitmap_test m k"
  shows "bitmap_clear_range (bitmap_set_range m i n) i n = m"
  using assms
proof (induction n)
  case 0
  then show ?case by simp
next
  case (Suc n)
  then have "bitmap_clear_range (bitmap_set_range m i n) i n = m" and "\<not> bitmap_test m (i + n)"
    by auto
  then show ?case by (simp add: bitmap_clear_range_set bitmap_clear_set)
qed

lemma range_conflict_None:
  "range_conflict s i count j = Inr None \<Longrightarrow> j \<le> count \<Longrightarrow> i + j \<le> NPAGES \<Longrightarrow>
     i + count \<le> NPAGES \<and>
     (\<forall>k. i + j \<le> k \<and> k < i + count \<longrightarrow>
        \<not> bitmap_test (bitmap s) k \<or> bitmap_test (bitmap_pagetable_mask s) k)"
proof (induction s i count j rule: range_conflict.induct)
  case (1 s i count j)
  show ?case
  proof (cases "j < count")
    case True
    then have here: "i + j < NPAGES"
        "\<not> bitmap_test (bitmap s) (i + j) \<or> bitmap_test (bitmap_pagetable_mask s) (i + j)"
        and rest: "range_conflict s i count (Suc j) = Inr None"
      using "1.prems"(1) by (auto simp: range_conflict.simps [of s i count j] split: if_splits)
    with True have "i + count \<le> NPAGES \<and> (\<forall>k. i + Suc j \<le> k \<and> k < i + count \<longrightarrow>
        \<not> bitmap_test (bitmap s) k \<or> bitmap_test (bitmap_pagetable_mask s) k)"
      using "1.IH" by auto
    with here show ?thesis by (metis Suc_leI add_Suc_right le_neq_implies_less)
  next
    case False
    with 1 show ?thesis by auto
  qed
qed

text \<open>The pages a range allocation took, starting at page \<open>i\<close>.\<close>

definition range_taken :: "int \<Rightarrow> nat \<Rightarrow> pmm \<Rightarrow> pmm \<Rightarrow> bool" where
  "range_taken count i s s' \<longleftrightarrow>
     i + nat count \<le> NPAGES \<and>
     (\<forall>k. i \<le> k \<and> k < i + nat count \<longrightarrow>
        \<not> bitmap_test (bitmap s) k \<or> bitmap_test (bitmap_pagetable_mask s) k) \<and>
     s' = pmm_usage_use (of_int count) (s\<lparr>bitmap := bitmap_set_range (bitmap s) i (nat count)\<rparr>)"

lemma pmm_alloc_range_from_spec:
  "pmm_alloc_range_from count j s = Inr (p, s') \<Longrightarrow>
     (p = 0 \<and> s' = s) \<or> (\<exists>i<NPAGES. p = page_addr i \<and> range_taken count i s s')"
proof (induction count j s rule: pmm_alloc_range_from.induct)
  case (1 count i s)
  show ?case
    using "1.prems" "1.IH" range_conflict_None [of s i "nat count" 0]
    by (subst (asm) pmm_alloc_range_from.simps)
      (auto split: if_splits sum.splits option.splits simp: range_taken_def)
qed

lemma pmm_alloc_rangeE:
  assumes "pmm_alloc_range count s = Inr (p, s')" and "p \<noteq> 0"
  obtains i where "i < NPAGES" and "p = page_addr i" and "range_taken count i s s'"
  using pmm_alloc_range_from_spec [of count 0 s p s'] assms by (auto simp: pmm_alloc_range_def)

text \<open>
  A range that \<open>pmm_alloc_range\<close> returns lies inside physical memory, and afterwards
  exactly its pages are used in addition to those used before. Every page of the range that
  lies outside the paging area was free. (Inside the paging area this is not so, see the
  next theorem.)
\<close>

theorem pmm_alloc_range_sound:
  assumes "pmm_alloc_range count s = Inr (p, s')" and "p \<noteq> 0"
  shows "page_index p + nat count \<le> NPAGES \<and>
         (\<forall>k. page_index p \<le> k \<and> k < page_index p + nat count \<and>
              \<not> bitmap_test (bitmap_pagetable_mask s) k \<longrightarrow> \<not> bitmap_test (bitmap s) k) \<and>
         (\<forall>k. bitmap_test (bitmap s') k \<longleftrightarrow>
              bitmap_test (bitmap s) k \<or> (page_index p \<le> k \<and> k < page_index p + nat count)) \<and>
         bitmap_pagetable_mask s' = bitmap_pagetable_mask s"
  using assms by (rule pmm_alloc_rangeE) (auto simp: range_taken_def bitmap_test_set_range)

text \<open>
  The range allocator can hand out memory that holds a live page table. With page 1 free
  and page 2 an allocated page-table page, \<open>pmm_alloc_range(2)\<close> returns pages 1 and 2: the
  inner loop rejects a used page only when it lies outside the paging area.
\<close>

theorem pmm_alloc_range_overlaps_pagetables:
  "\<exists>s p s'. pmm_alloc_range 2 s = Inr (p, s') \<and> p = page_addr 1 \<and>
      bitmap_test (bitmap s) 2 \<and> bitmap_test (bitmap_pagetable_mask s) 2 \<and>
      page_index p \<le> 2 \<and> 2 < page_index p + 2"
proof -
  define s where "s = \<lparr>bitmap = (\<lambda>_. 0x40000000), bitmap_pagetable_mask = (\<lambda>_. 0xDFFFFFFF),
    free_memory = 0x1000, used_memory = 0\<rparr>"
  have c: "range_conflict s 1 2 0 = Inr None"
    by (simp add: s_def range_conflict.simps bitmap_test_def NPAGES_def BITMAP_SIZE_def)
  have "pmm_alloc_range 2 s =
      Inr (page_addr 1, pmm_usage_use 2 (s\<lparr>bitmap := bitmap_set_range (bitmap s) 1 2\<rparr>))"
    using c
    by (simp add: pmm_alloc_range_def pmm_alloc_range_from.simps [of _ 0]
        pmm_alloc_range_from.simps [of _ "Suc 0"] NPAGES_def BITMAP_SIZE_def)
       (simp add: s_def bitmap_test_def)
  moreover have "bitmap_test (bitmap s) 2" and "bitmap_test (bitmap_pagetable_mask s) 2"
    by (simp_all add: s_def bitmap_test_def)
  moreover have "page_index (page_addr 1) = 1"
    by (simp add: NPAGES_def BITMAP_SIZE_def)
  ultimately show ?thesis by fastforce
qed

text \<open>
  A page range that contains no page-table page is given back completely: freeing the
  range that was just allocated restores the allocator, including the usage counters.
\<close>

theorem pmm_range_roundtrip:
  assumes "pmm_alloc_range count s = Inr (p, s')" and "p \<noteq> 0"
    and "\<forall>k. page_index p \<le> k \<and> k < page_index p + nat count \<longrightarrow>
           \<not> bitmap_test (bitmap_pagetable_mask s) k"
  shows "pmm_free_range p count s' = Inr s"
proof -
  from assms(1,2) obtain i where i: "i < NPAGES" "p = page_addr i" and t: "range_taken count i s s'"
    by (rule pmm_alloc_rangeE)
  then have "\<forall>k. i \<le> k \<and> k < i + nat count \<longrightarrow> \<not> bitmap_test (bitmap s) k"
    using assms(3) by (auto simp: range_taken_def)
  then have "bitmap_clear_range (bitmap_set_range (bitmap s) i (nat count)) i (nat count) = bitmap s"
    by (rule bitmap_clear_set_range)
  with i t show ?thesis
    by (simp add: range_taken_def pmm_free_range_def pmm_usage_use_def pmm_usage_unuse_def)
qed

section \<open>Initialisation\<close>

lemma page_loop_rule:
  assumes ret: "page_loop f addr end_addr s = Some s'"
    and base: "\<And>addr s. \<not> addr < end_addr \<Longrightarrow> P addr s s"
    and step: "\<And>addr s s'. addr < end_addr \<Longrightarrow> P (addr + 0x1000) (f addr s) s' \<Longrightarrow> P addr s s'"
  shows "P addr s s'"
proof -
  have "f = f \<longrightarrow> end_addr = end_addr \<longrightarrow> P addr s s'"
  proof (rule page_loop.raw_induct
      [where P = "\<lambda>g a e t t'. g = f \<longrightarrow> e = end_addr \<longrightarrow> P a t t'", OF _ ret])
    fix loop g a e t t'
    assume IH: "\<And>g a e t t'. loop g a e t = Some t' \<Longrightarrow> g = f \<longrightarrow> e = end_addr \<longrightarrow> P a t t'"
      and eq: "(if a < e then loop g (a + 0x1000) e (g a t) else Some t) = Some t'"
    show "g = f \<longrightarrow> e = end_addr \<longrightarrow> P a t t'"
      using eq IH [of g "a + 0x1000" e "g a t" t'] base step by (auto split: if_splits)
  qed
  then show ?thesis by simp
qed

lemma page_loop_returns: "end_addr \<le> 0xfffff000 \<Longrightarrow> \<exists>s'. page_loop f addr end_addr s = Some s'"
proof (induction "unat end_addr - unat addr" arbitrary: addr s rule: less_induct)
  case less
  show ?case
  proof (cases "addr < end_addr")
    case True
    then have "unat addr + 4096 < 4294967296" and lt: "unat addr < unat end_addr"
      using less.prems by (simp_all add: word_le_nat_alt word_less_nat_alt)
    then have "unat (addr + 0x1000) = unat addr + 4096"
      by (simp add: unat_add_32)
    then show ?thesis
      using less True lt by (subst page_loop.simps) auto
  next
    case False
    then show ?thesis by (subst page_loop.simps) simp
  qed
qed

lemma next_page:
  assumes "page_aligned addr" and "addr \<le> a" and "page_index a \<noteq> page_index addr"
  shows "addr + 0x1000 \<le> a"
proof -
  have "unat addr + 4096 \<le> unat a"
    using assms by (auto simp: page_aligned_unat page_index_unat word_le_nat_alt)
  then show ?thesis
    using unat_lt_32 [of a] by (simp add: word_le_nat_alt unat_add_32)
qed

lemma page_loop_mark:
  assumes "page_loop pmm_mark_used addr end_addr s = Some s'"
  shows "(\<forall>a. pmm_is_used a s \<longrightarrow> pmm_is_used a s') \<and>
         bitmap_pagetable_mask s' = bitmap_pagetable_mask s \<and>
         (\<forall>a. page_aligned addr \<and> addr \<le> a \<and> a < end_addr \<longrightarrow> pmm_is_used a s')"
  using assms
proof (rule page_loop_rule)
  fix addr s s'
  assume "addr < end_addr"
    and IH: "(\<forall>a. pmm_is_used a (pmm_mark_used addr s) \<longrightarrow> pmm_is_used a s') \<and>
         bitmap_pagetable_mask s' = bitmap_pagetable_mask (pmm_mark_used addr s) \<and>
         (\<forall>a. page_aligned (addr + 0x1000) \<and> addr + 0x1000 \<le> a \<and> a < end_addr \<longrightarrow>
            pmm_is_used a s')"
  then show "(\<forall>a. pmm_is_used a s \<longrightarrow> pmm_is_used a s') \<and>
         bitmap_pagetable_mask s' = bitmap_pagetable_mask s \<and>
         (\<forall>a. page_aligned addr \<and> addr \<le> a \<and> a < end_addr \<longrightarrow> pmm_is_used a s')"
    by (metis next_page page_aligned_add pmm_is_used_mark pmm_mark_used_mask)
qed auto

lemma page_loop_mask:
  assumes "page_loop mask_page addr end_addr s = Some s'"
  shows "\<forall>a. pmm_is_used a s' \<longleftrightarrow> pmm_is_used a s"
  using assms by (rule page_loop_rule) (auto simp: mask_page_def pmm_is_used_def)

lemma pmm_mark_modules_used:
  "pmm_mark_modules ms s = Some s' \<Longrightarrow>
     (\<forall>a. pmm_is_used a s \<longrightarrow> pmm_is_used a s') \<and>
     (\<forall>m\<in>set ms. \<forall>a. page_aligned (mod_start m) \<and> mod_start m \<le> a \<and> a < mod_end m \<longrightarrow>
        pmm_is_used a s')"
proof (induction ms arbitrary: s)
  case Nil
  then show ?case by simp
next
  case (Cons m ms)
  then obtain t where t: "page_loop pmm_mark_used (mod_start m) (mod_end m) s = Some t"
    and rest: "pmm_mark_modules ms t = Some s'"
    by (auto simp: bind_eq_Some_conv)
  show ?case using page_loop_mark [OF t] Cons.IH [OF rest] by auto
qed

lemma page_loop_mask_area:
  assumes "page_loop mask_page addr end_addr s = Some s'" and "end_addr \<le> 0xfffff000"
    and "page_aligned addr"
  shows "bitmap_test (bitmap_pagetable_mask s') i \<longrightarrow>
           bitmap_test (bitmap_pagetable_mask s) i \<or> (\<exists>a. addr \<le> a \<and> a < end_addr \<and> page_index a = i)"
proof -
  have "page_aligned addr \<longrightarrow> bitmap_test (bitmap_pagetable_mask s') i \<longrightarrow>
      bitmap_test (bitmap_pagetable_mask s) i \<or> (\<exists>a. addr \<le> a \<and> a < end_addr \<and> page_index a = i)"
    using assms(1)
  proof (rule page_loop_rule)
    fix addr s s'
    assume lt: "addr < end_addr"
      and IH: "page_aligned (addr + 0x1000) \<longrightarrow> bitmap_test (bitmap_pagetable_mask s') i \<longrightarrow>
        bitmap_test (bitmap_pagetable_mask (mask_page addr s)) i \<or>
        (\<exists>a. addr + 0x1000 \<le> a \<and> a < end_addr \<and> page_index a = i)"
    have "unat addr + 4096 < 2 ^ 32"
      using lt assms(2) by (simp add: word_le_nat_alt word_less_nat_alt)
    then have "addr \<le> addr + 0x1000"
      by (simp add: word_le_nat_alt unat_add_32)
    then show "page_aligned addr \<longrightarrow> bitmap_test (bitmap_pagetable_mask s') i \<longrightarrow>
        bitmap_test (bitmap_pagetable_mask s) i \<or> (\<exists>a. addr \<le> a \<and> a < end_addr \<and> page_index a = i)"
      using IH lt page_aligned_add [of addr]
      by (auto simp: mask_page_def bitmap_test_set simp flip: page_index_def intro: order_trans)
  qed auto
  then show ?thesis using assms(3) by blast
qed

text \<open>
  The memory that must stay out of circulation after \<open>pmm_init\<close>: the null page, the pages
  of the boot information and of the module list, the kernel image and the boot modules.
\<close>

definition boot_reserved :: "boot_info \<Rightarrow> u32 \<Rightarrow> bool" where
  "boot_reserved b a \<longleftrightarrow>
     page_index a = 0 \<or> page_index a = page_index (multiboot_info b) \<or>
     page_index a = page_index (mbs_mods_addr b) \<or>
     (kernel_start b \<le> a \<and> a < kernel_end b) \<or>
     (\<exists>m\<in>set (mbs_mods b). mod_start m \<le> a \<and> a < mod_end m)"

text \<open>
  The layout the kernel relies on. \<open>link.ld\<close> puts the kernel image at a page boundary and
  the paging area, page aligned, behind it; the boot loader puts each module at a page
  boundary (which \<open>start.S\<close> does not ask for: its header has no alignment flag) and, like
  its own structures, outside the memory of the kernel, paging area included.
\<close>

definition off_paging :: "boot_info \<Rightarrow> u32 \<Rightarrow> bool" where
  "off_paging b a \<longleftrightarrow> page_index a < page_index (paging_start b) \<or>
     (page_aligned (paging_end b) \<and> page_index (paging_end b) \<le> page_index a)"

definition boot_layout :: "boot_info \<Rightarrow> bool" where
  "boot_layout b \<longleftrightarrow>
     page_aligned (kernel_start b) \<and> page_aligned (paging_start b) \<and>
     kernel_end b \<le> paging_start b \<and> 0 < paging_start b \<and> paging_end b \<le> 0xfffff000 \<and>
     off_paging b (multiboot_info b) \<and> off_paging b (mbs_mods_addr b) \<and>
     (\<forall>m\<in>set (mbs_mods b). page_aligned (mod_start m) \<and>
        (mod_end m \<le> paging_start b \<or> paging_end b \<le> mod_start m))"

text \<open>The numbers of the pages that hold reserved memory.\<close>

definition reserved_pages :: "boot_info \<Rightarrow> nat set" where
  "reserved_pages b = page_index ` {a. boot_reserved b a}"

lemma page_index_aligned_less:
  "page_aligned b \<Longrightarrow> page_index a < page_index b \<longleftrightarrow> a < b"
  by (simp add: page_index_unat page_aligned_unat word_less_nat_alt)
    (metis div_mult_mod_eq add.right_neutral div_less_iff_less_mult zero_less_numeral)

lemma off_paging_area:
  assumes "off_paging b a" and "page_aligned (paging_start b)"
    and "paging_start b \<le> a'" and "a' < paging_end b"
  shows "page_index a \<noteq> page_index a'"
  using assms by (auto simp: off_paging_def) (metis page_index_aligned_less not_le)+

lemma boot_layout_paging:
  assumes "boot_layout b" and "boot_reserved b a"
    and "paging_start b \<le> a'" and "a' < paging_end b"
  shows "page_index a \<noteq> page_index a'"
proof -
  have al: "page_aligned (paging_start b)" and pos: "0 < paging_start b"
    using assms(1) by (simp_all add: boot_layout_def)
  have above: "page_index (paging_start b) \<le> page_index a'"
    using assms(3) page_index_aligned_less [OF al, of a'] by (simp add: not_less [symmetric])
  have below: "a < paging_start b \<Longrightarrow> ?thesis"
    using above page_index_aligned_less [OF al, of a] by simp
  have zero: "page_index a' \<noteq> 0"
    using above page_index_aligned_less [OF al, of 0] pos by (simp add: page_index_def)
  consider "page_index a = 0" | "page_index a = page_index (multiboot_info b)"
    | "page_index a = page_index (mbs_mods_addr b)" | "a < kernel_end b"
    | m where "m \<in> set (mbs_mods b)" "mod_start m \<le> a" "a < mod_end m"
    using assms(2) by (auto simp: boot_reserved_def)
  then show ?thesis
  proof cases
    case 5
    then consider "a < paging_start b" | "paging_end b \<le> mod_start m" "page_aligned (mod_start m)"
      using assms(1) by (auto simp: boot_layout_def)
    then show ?thesis
    proof cases
      case 2
      then have "page_index a' < page_index (mod_start m)"
        using assms(4) page_index_aligned_less by auto
      moreover have "page_index (mod_start m) \<le> page_index a"
        using 2 \<open>mod_start m \<le> a\<close> page_index_aligned_less [of "mod_start m" a]
        by (simp add: not_less [symmetric])
      ultimately show ?thesis by simp
    qed (rule below)
  next
    case 4
    then show ?thesis using assms(1) by (intro below) (auto simp: boot_layout_def)
  qed (use zero off_paging_area assms in \<open>auto simp: boot_layout_def\<close>)
qed

lemma pmm_mark_modules_mask:
  "pmm_mark_modules ms s = Some s' \<Longrightarrow> bitmap_pagetable_mask s' = bitmap_pagetable_mask s"
proof (induction ms arbitrary: s)
  case (Cons m ms)
  then obtain t where t: "page_loop pmm_mark_used (mod_start m) (mod_end m) s = Some t"
    and rest: "pmm_mark_modules ms t = Some s'"
    by (auto simp: bind_eq_Some_conv)
  show ?case using page_loop_mark [OF t] Cons.IH [OF rest] by simp
qed simp

lemma page_loop_free_mask:
  "page_loop pmm_free addr end_addr s = Some s' \<Longrightarrow>
     bitmap_pagetable_mask s' = bitmap_pagetable_mask s"
  by (erule page_loop_rule) (simp_all add: pmm_free_def)

lemma pmm_free_sections_mask:
  "pmm_free_sections ms s = Some s' \<Longrightarrow> bitmap_pagetable_mask s' = bitmap_pagetable_mask s"
proof (induction ms arbitrary: s)
  case (Cons m ms)
  then obtain t where "pmm_free_section m s = Some t" and "pmm_free_sections ms t = Some s'"
    by (auto simp: bind_eq_Some_conv)
  with Cons.IH show ?case
    by (auto simp: pmm_free_section_def Let_def split: if_splits dest: page_loop_free_mask)
qed simp

text \<open>Reserved memory is booked as used and lies outside the page-table pool.\<close>

definition kept :: "nat set \<Rightarrow> pmm \<Rightarrow> bool" where
  "kept R s \<longleftrightarrow> (\<forall>i\<in>R. bitmap_test (bitmap s) i \<and> \<not> bitmap_test (bitmap_pagetable_mask s) i)"

lemma pmm_init_kept:
  assumes "pmm_init b s0 = Some s" and "boot_layout b"
  shows "kept (reserved_pages b) s"
proof -
  from assms(1) obtain s1 s2 s3 s4 where
    f: "pmm_free_sections (mbs_mmap b)
        (s0\<lparr>bitmap := (\<lambda>_. 0), bitmap_pagetable_mask := (\<lambda>_. 0xffffffff)\<rparr>) = Some s1" and
    k: "page_loop pmm_mark_used (kernel_start b) (kernel_end b) (s1\<lparr>used_memory := 0\<rparr>) = Some s2"
    and m: "page_loop mask_page (paging_start b) (paging_end b) s2 = Some s3"
    and mods: "pmm_mark_modules (mbs_mods b)
        (pmm_mark_used (mbs_mods_addr b) (pmm_mark_used (multiboot_info b) s3)) = Some s4"
    and s: "s = pmm_mark_used 0 s4"
    by (auto simp: pmm_init_def bind_eq_Some_conv)
  have al: "page_aligned (kernel_start b)" "page_aligned (paging_start b)"
      "paging_end b \<le> 0xfffff000" "\<forall>m\<in>set (mbs_mods b). page_aligned (mod_start m)"
    using assms(2) by (simp_all add: boot_layout_def)
  have zero: "page_index 0 = 0" by (simp add: page_index_def)
  have used: "pmm_is_used a s" if "boot_reserved b a" for a
    using that al zero page_loop_mark [OF k] page_loop_mask [OF m] pmm_mark_modules_used [OF mods]
    unfolding s boot_reserved_def by auto
  have "bitmap_pagetable_mask s2 = (\<lambda>_. 0xffffffff)"
    using pmm_free_sections_mask [OF f] page_loop_mark [OF k] by simp
  moreover have "\<not> bitmap_test (\<lambda>_. 0xffffffff :: u32) i" for i
    by (rule all_ones_test)
  moreover have "bitmap_pagetable_mask s = bitmap_pagetable_mask s3"
    using pmm_mark_modules_mask [OF mods] by (simp add: s)
  ultimately have "\<not> bitmap_test (bitmap_pagetable_mask s) (page_index a)" if "boot_reserved b a" for a
    using page_loop_mask_area [OF m al(3,2)] boot_layout_paging [OF assms(2) that] by auto metis
  with used show ?thesis by (auto simp: kept_def reserved_pages_def pmm_is_used_def)
qed

text \<open>
  The whole interface after initialisation, as a transition system. \<open>H\<close> holds the numbers
  of the pages handed out and not yet given back; clients give back only what they hold, one
  page or any part of a range at a time, and may mark any page used (as \<open>init_vmm\<close> does with
  the frame buffer).
\<close>

inductive pmm_call :: "pmm \<times> nat set \<Rightarrow> pmm \<times> nat set \<Rightarrow> bool" where
  call_alloc: "pmm_alloc s = Inr (p, s') \<Longrightarrow> pmm_call (s, H) (s', insert (page_index p) H)"
| call_alloc_pagetable:
    "pmm_alloc_pagetable s = Inr (p, s') \<Longrightarrow> pmm_call (s, H) (s', insert (page_index p) H)"
| call_alloc_range:
    "pmm_alloc_range count s = Inr (p, s') \<Longrightarrow>
       pmm_call (s, H)
         (s', if p = 0 then H else H \<union> {page_index p ..< page_index p + nat count})"
| call_mark_used: "pmm_call (s, H) (pmm_mark_used a s, H)"
| call_free: "page_index p \<in> H \<Longrightarrow> pmm_call (s, H) (pmm_free p s, H - {page_index p})"
| call_free_range:
    "pmm_free_range p count s = Inr s' \<Longrightarrow>
     {page_index p ..< page_index p + nat count} \<subseteq> H \<Longrightarrow>
       pmm_call (s, H) (s', H - {page_index p ..< page_index p + nat count})"

inductive_cases pmm_callE: "pmm_call (s, H) (s', H')"

lemma bitmap_test_clear_range:
  "bitmap_test (bitmap_clear_range m i n) c \<longleftrightarrow> \<not> (i \<le> c \<and> c < i + n) \<and> bitmap_test m c"
  by (induction n) (auto simp: bitmap_test_clear)

lemma kept_take:
  "page_available pt s i \<Longrightarrow> kept R s \<Longrightarrow> i \<notin> R \<and> kept R (take_page i s)"
  by (auto simp: kept_def page_available_def take_page_def bitmap_test_set)

lemma kept_alloc:
  assumes "pmm_alloc_from pt 0 s = Inr (p, s')" and "kept R s"
  shows "page_index p \<notin> R \<and> kept R s'"
  using assms(1)
proof (rule pmm_alloc_from_InrE)
  fix i
  assume i: "page_available pt s i" "p = page_addr i" "s' = take_page i s"
  then have "page_index p = i" by (simp add: page_available_def)
  with i kept_take [OF i(1) assms(2)] show ?thesis by simp
qed

lemma kept_range:
  assumes "pmm_alloc_range count s = Inr (p, s')" and "kept R s"
  shows "kept R s' \<and>
         (p \<noteq> 0 \<longrightarrow> {page_index p ..< page_index p + nat count} \<inter> R = {})"
  using pmm_alloc_range_from_spec [of count 0 s p s'] assms
  by (auto simp: pmm_alloc_range_def kept_def range_taken_def bitmap_test_set_range)

lemma pmm_call_kept:
  "pmm_call st st' \<Longrightarrow> kept R (fst st) \<and> snd st \<inter> R = {} \<Longrightarrow>
     kept R (fst st') \<and> snd st' \<inter> R = {}"
proof (induction rule: pmm_call.induct)
  case (call_alloc s p s' H)
  then show ?case using kept_alloc [of False s p s' R] by (simp add: pmm_alloc_def)
next
  case (call_alloc_pagetable s p s' H)
  then show ?case using kept_alloc [of True s p s' R] by (simp add: pmm_alloc_pagetable_def)
next
  case (call_alloc_range count s p s' H)
  then show ?case using kept_range [of count s p s' R] by auto
next
  case (call_mark_used s H a)
  then show ?case by (auto simp: kept_def pmm_mark_used_def bitmap_test_set)
next
  case (call_free p H s)
  then show ?case by (auto simp: kept_def pmm_free_def bitmap_test_clear)
next
  case (call_free_range p count s s' H)
  then show ?case
    by (auto simp: kept_def pmm_free_range_def bitmap_test_clear_range split: if_splits)
qed

lemma pmm_calls_kept:
  "pmm_call\<^sup>*\<^sup>* st st' \<Longrightarrow> kept R (fst st) \<and> snd st \<inter> R = {} \<Longrightarrow>
     kept R (fst st') \<and> snd st' \<inter> R = {}"
  by (induction rule: rtranclp_induct) (blast dest: pmm_call_kept)+


text \<open>
  The 32-bit loop bounds under which initialisation cannot run past the top of the address
  space: no usable section, image, paging area or module reaches into the last page.
\<close>

definition boot_bounds :: "boot_info \<Rightarrow> bool" where
  "boot_bounds b \<longleftrightarrow>
     kernel_end b \<le> 0xfffff000 \<and> paging_end b \<le> 0xfffff000 \<and>
     (\<forall>m\<in>set (mbs_mods b). mod_end m \<le> 0xfffff000) \<and>
     (\<forall>m\<in>set (mbs_mmap b). mmap_base m + mmap_length m > 0xffffffff \<or>
        ucast (mmap_base m + mmap_length m) \<le> (0xfffff000 :: u32))"

lemma pmm_free_section_returns:
  "mmap_base m + mmap_length m > 0xffffffff \<or>
     ucast (mmap_base m + mmap_length m) \<le> (0xfffff000 :: u32) \<Longrightarrow>
   \<exists>s'. pmm_free_section m s = Some s'"
  by (auto simp: pmm_free_section_def Let_def intro: page_loop_returns)

lemma pmm_free_sections_returns:
  "\<forall>m\<in>set ms. mmap_base m + mmap_length m > 0xffffffff \<or>
     ucast (mmap_base m + mmap_length m) \<le> (0xfffff000 :: u32) \<Longrightarrow>
   \<exists>s'. pmm_free_sections ms s = Some s'"
proof (induction ms arbitrary: s)
  case (Cons m ms)
  then obtain t where "pmm_free_section m s = Some t"
    using pmm_free_section_returns [of m s] by auto
  with Cons show ?case by simp
qed simp

lemma pmm_mark_modules_returns:
  "\<forall>m\<in>set ms. mod_end m \<le> 0xfffff000 \<Longrightarrow> \<exists>s'. pmm_mark_modules ms s = Some s'"
proof (induction ms arbitrary: s)
  case (Cons m ms)
  then obtain t where "page_loop pmm_mark_used (mod_start m) (mod_end m) s = Some t"
    using page_loop_returns [of "mod_end m" pmm_mark_used "mod_start m" s] by auto
  with Cons show ?case by simp
qed simp

text \<open>
  \<open>pmm_init\<close> terminates when no region reaches into the last page of the address space
  (otherwise the wrapping loop counter never passes the end address).
\<close>

theorem pmm_init_terminates:
  assumes "boot_bounds b"
  shows "\<exists>s. pmm_init b s0 = Some s"
proof -
  obtain s1 where 1: "pmm_free_sections (mbs_mmap b)
      (s0\<lparr>bitmap := (\<lambda>_. 0), bitmap_pagetable_mask := (\<lambda>_. 0xffffffff)\<rparr>) = Some s1"
    using assms pmm_free_sections_returns unfolding boot_bounds_def by blast
  obtain s2 where 2: "page_loop pmm_mark_used (kernel_start b) (kernel_end b)
      (s1\<lparr>used_memory := 0\<rparr>) = Some s2"
    using assms page_loop_returns unfolding boot_bounds_def by blast
  obtain s3 where 3: "page_loop mask_page (paging_start b) (paging_end b) s2 = Some s3"
    using assms page_loop_returns unfolding boot_bounds_def by blast
  obtain s4 where "pmm_mark_modules (mbs_mods b)
      (pmm_mark_used (mbs_mods_addr b) (pmm_mark_used (multiboot_info b) s3)) = Some s4"
    using assms pmm_mark_modules_returns unfolding boot_bounds_def by blast
  with 1 2 3 show ?thesis by (simp add: pmm_init_def)
qed

section \<open>Concrete runs\<close>

text \<open>An allocator with exactly the pages 1 and 2 free and no paging area.\<close>

definition demo_pmm :: pmm where
  "demo_pmm = \<lparr>bitmap = (\<lambda>w. if w = 0 then 0x60000000 else 0),
     bitmap_pagetable_mask = (\<lambda>_. 0xffffffff), free_memory = 0x2000, used_memory = 0\<rparr>"

lemma demo_used: "bitmap_test (bitmap demo_pmm) i \<longleftrightarrow> i \<noteq> 1 \<and> i \<noteq> 2"
proof -
  have "(0x60000000 :: u32) = 2 ^ 30 OR 2 ^ 29" by simp
  then have b: "bit (0x60000000 :: u32) n \<longleftrightarrow> n = 30 \<or> n = 29" for n
    by (simp only: bit_or_iff bit_exp_iff) (auto simp: possible_bit_def)
  show ?thesis
  proof (cases "i < 32")
    case True
    then have "bitmap_test (bitmap demo_pmm) i \<longleftrightarrow> \<not> bit (0x60000000 :: u32) (31 - i)"
      by (simp only: bitmap_test_bit demo_pmm_def pmm.select_convs) simp
    also have "\<dots> \<longleftrightarrow> i \<noteq> 1 \<and> i \<noteq> 2" unfolding b using True by linarith
    finally show ?thesis .
  next
    case False
    then show ?thesis by (auto simp: bitmap_test_bit demo_pmm_def div_eq_0_iff)
  qed
qed

lemma demo_mask: "bitmap_test (bitmap_pagetable_mask demo_pmm) i \<longleftrightarrow> False"
  by (simp add: demo_pmm_def all_ones_test)

lemma demo_available: "page_available False demo_pmm i \<longleftrightarrow> i = 1 \<or> i = 2"
  by (auto simp: page_available_def demo_used demo_mask NPAGES_def BITMAP_SIZE_def)

lemma demo_available': "page_available False (take_page (Suc 0) demo_pmm) i \<longleftrightarrow> i = 2"
  by (auto simp: page_available_def take_page_def bitmap_test_set demo_used demo_mask
      NPAGES_def BITMAP_SIZE_def)

lemma demo_alloc:
  "pmm_alloc demo_pmm = Inr (page_addr 1, take_page 1 demo_pmm)"
  "pmm_alloc (take_page 1 demo_pmm) = Inr (page_addr 2, take_page 2 (take_page 1 demo_pmm))"
  unfolding pmm_alloc_def
  by (rule pmm_alloc_from_found; simp add: demo_available demo_available')+

lemma demo_alloc_many:
  "alloc_many pmm_alloc 2 demo_pmm =
     Inr ([page_addr 1, page_addr 2], take_page 2 (take_page 1 demo_pmm))"
  by (simp add: numeral_2_eq_2 demo_alloc [unfolded One_nat_def numeral_2_eq_2])

theorem pmm_alloc_many_roundtrip_witness:
  "fold pmm_free [page_addr 2, page_addr 1] (take_page 2 (take_page 1 demo_pmm)) = demo_pmm"
  using pmm_alloc_many_roundtrip [OF demo_alloc_many] by simp

lemma demo_accounting: "accounting_ok demo_pmm"
proof -
  have "{i. i < NPAGES \<and> \<not> bitmap_test (bitmap demo_pmm) i} = {1, 2}"
    by (auto simp: demo_used NPAGES_def BITMAP_SIZE_def)
  then have "free_pages demo_pmm = 2" by (simp add: free_pages_def)
  then show ?thesis by (simp add: accounting_ok_def demo_pmm_def)
qed

lemma demo_run: "pmm_step\<^sup>*\<^sup>* (demo_pmm, {}) (take_page 1 demo_pmm, {page_addr 1})"
  by (rule r_into_rtranclp) (rule step_alloc, rule demo_alloc)


lemma demo_range:
  "pmm_alloc_range 2 demo_pmm =
     Inr (page_addr 1, pmm_usage_use 2 (demo_pmm\<lparr>bitmap := bitmap_set_range (bitmap demo_pmm) 1 2\<rparr>))"
proof -
  have c: "range_conflict demo_pmm (Suc 0) 2 0 = Inr None"
    by (simp add: range_conflict.simps demo_used demo_mask NPAGES_def BITMAP_SIZE_def)
  then show ?thesis
    by (simp add: pmm_alloc_range_def pmm_alloc_range_from.simps [of _ 0]
        pmm_alloc_range_from.simps [of _ "Suc 0"] demo_used demo_mask NPAGES_def BITMAP_SIZE_def)
qed

lemma demo_addr: "page_addr 1 \<noteq> 0" "page_index (page_addr 1) = 1"
  by (simp_all add: NPAGES_def BITMAP_SIZE_def)

theorem pmm_alloc_range_sound_witness:
  "\<not> bitmap_test (bitmap demo_pmm) 2 \<and>
   bitmap_test (bitmap (pmm_usage_use 2
     (demo_pmm\<lparr>bitmap := bitmap_set_range (bitmap demo_pmm) 1 2\<rparr>))) 2"
  using pmm_alloc_range_sound [OF demo_range demo_addr(1)] unfolding demo_addr(2)
  by (auto simp: demo_mask)

theorem pmm_range_roundtrip_witness:
  "pmm_free_range (page_addr 1) 2
     (pmm_usage_use 2 (demo_pmm\<lparr>bitmap := bitmap_set_range (bitmap demo_pmm) 1 2\<rparr>)) = Inr demo_pmm"
  by (rule pmm_range_roundtrip [OF demo_range demo_addr(1)]) (simp add: demo_mask)

text \<open>A machine with 32 KB of memory, a kernel image of one page and one module.\<close>

definition demo_boot :: boot_info where
  "demo_boot = \<lparr>kernel_start = 0x1000, kernel_end = 0x1800, paging_start = 0x6000,
     paging_end = 0x7000, multiboot_info = 0x2000, mbs_mods_addr = 0x2100,
     mbs_mmap = [\<lparr>mmap_base = 0, mmap_length = 0x8000, mmap_type = 1\<rparr>],
     mbs_mods = [\<lparr>mod_start = 0x3000, mod_end = 0x4000\<rparr>]\<rparr>"

lemma demo_boot_bounds: "boot_bounds demo_boot"
  by (simp add: boot_bounds_def demo_boot_def)

theorem pmm_init_terminates_witness:
  "\<exists>s. pmm_init demo_boot demo_pmm = Some s"
  by (rule pmm_init_terminates [OF demo_boot_bounds])

lemma demo_bitmap_init: "bitmap_test (\<lambda>_. 0) i"
  by (simp add: bitmap_test_def)

lemma demo_mask_init: "bitmap_test (\<lambda>_. 0xffffffff) i \<longleftrightarrow> False"
  by (simp add: all_ones_test)

lemma demo_boot_layout: "boot_layout demo_boot"
  by (simp add: boot_layout_def off_paging_def demo_boot_def page_aligned_def page_index_def)

lemma demo_init:
  obtains s where "pmm_init demo_boot demo_pmm = Some s"
    and "\<forall>i<NPAGES. bitmap_test (bitmap s) i \<longleftrightarrow> i \<notin> {4, 5, 6, 7}"
    and "\<forall>i<NPAGES. bitmap_test (bitmap_pagetable_mask s) i \<longleftrightarrow> i = 6"
proof -
  have "\<exists>s. pmm_init demo_boot demo_pmm = Some s \<and>
      (\<forall>i<NPAGES. bitmap_test (bitmap s) i \<longleftrightarrow> i \<notin> {4, 5, 6, 7}) \<and>
      (\<forall>i<NPAGES. bitmap_test (bitmap_pagetable_mask s) i \<longleftrightarrow> i = 6)"
    by (simp add: pmm_init_def demo_boot_def pmm_free_section_def page_loop.simps pmm_free_def
        pmm_mark_used_def mask_page_def bitmap_test_set bitmap_test_clear demo_mask_init
        page_index_def pmm_usage_use_def pmm_usage_unuse_def demo_bitmap_init)
      auto
  then show ?thesis using that by blast
qed

text \<open>
  A run of the witness: page 4 is allocated and freed, page 6 goes to a page table, and the
  range allocator returns pages 4 and 5.
\<close>

lemma demo_calls:
  "\<exists>s s'. pmm_init demo_boot demo_pmm = Some s \<and> pmm_call\<^sup>*\<^sup>* (s, {}) (s', {4, 5, 6})"
proof -
  obtain s where s: "pmm_init demo_boot demo_pmm = Some s"
    and u: "\<And>i. i < NPAGES \<Longrightarrow> bitmap_test (bitmap s) i \<longleftrightarrow> i \<notin> {4, 5, 6, 7}"
    and m: "\<And>i. i < NPAGES \<Longrightarrow> bitmap_test (bitmap_pagetable_mask s) i \<longleftrightarrow> i = 6"
    using demo_init by blast
  have N: "NPAGES = 1048576" by (simp add: NPAGES_def BITMAP_SIZE_def)
  have a: "pmm_alloc s = Inr (page_addr 4, take_page 4 s)"
    unfolding pmm_alloc_def by (rule pmm_alloc_from_found) (auto simp: page_available_def u m N)
  have f: "pmm_free (page_addr 4) (take_page 4 s) = s"
    by (rule pmm_free_take [where pt = False]) (simp add: page_available_def u m N)
  have t: "pmm_alloc_pagetable s = Inr (page_addr 6, take_page 6 s)"
    unfolding pmm_alloc_pagetable_def
    by (rule pmm_alloc_from_found) (auto simp: page_available_def u m N)
  have c: "range_conflict (take_page 6 s) 4 2 0 = Inr None"
    by (simp add: range_conflict.simps take_page_def bitmap_test_set u N)
  have skip: "pmm_alloc_range_from 2 0 (take_page 6 s) = pmm_alloc_range_from 2 4 (take_page 6 s)"
    by (simp add: pmm_alloc_range_from.simps [of 2 0] pmm_alloc_range_from.simps [of 2 "Suc 0"]
        pmm_alloc_range_from.simps [of 2 2] pmm_alloc_range_from.simps [of 2 3]
        take_page_def bitmap_test_set u N flip: numeral_2_eq_2 numeral_3_eq_3)
  obtain s' where r: "pmm_alloc_range 2 (take_page 6 s) = Inr (page_addr 4, s')"
    using c unfolding pmm_alloc_range_def skip
    by (simp add: pmm_alloc_range_from.simps [of 2 4] take_page_def bitmap_test_set u m N)
  have p: "page_index (page_addr 4) = 4" "page_index (page_addr 6) = 6" "page_addr 4 \<noteq> 0"
    by (simp_all add: N)
  have "pmm_call (s, {}) (take_page 4 s, {4})" using call_alloc [OF a, of "{}"] p by simp
  moreover have "pmm_call (take_page 4 s, {4}) (s, {})"
    using call_free [of "page_addr 4" "{4}" "take_page 4 s"] p f by simp
  moreover have "pmm_call (s, {}) (take_page 6 s, {6})"
    using call_alloc_pagetable [OF t, of "{}"] p by simp
  moreover have "pmm_call (take_page 6 s, {6}) (s', {4, 5, 6})"
  proof -
    have "{6} \<union> {4 ..< 4 + nat 2} = {4, 5, 6 :: nat}" by auto
    then show ?thesis using call_alloc_range [OF r, of "{6}"] p by simp
  qed
  ultimately show ?thesis
    using s by (meson converse_rtranclp_into_rtranclp rtranclp.rtrancl_refl)
qed


text \<open>
  The layout condition on the modules is needed. A module that starts inside a page leaves its
  last page free: with one at \<open>0x3800\<close> to \<open>0x4800\<close>, page 4 is handed out first.
\<close>

definition demo_unaligned :: boot_info where
  "demo_unaligned = demo_boot\<lparr>mbs_mods := [\<lparr>mod_start = 0x3800, mod_end = 0x4800\<rparr>]\<rparr>"

lemma pmm_init_unaligned_module:
  "\<exists>s s'. pmm_init demo_unaligned demo_pmm = Some s \<and> pmm_alloc s = Inr (page_addr 4, s') \<and>
     boot_reserved demo_unaligned (page_addr 4)"
proof -
  have "\<exists>s. pmm_init demo_unaligned demo_pmm = Some s \<and>
      (\<forall>i\<le>4. bitmap_test (bitmap s) i \<longleftrightarrow> i \<noteq> 4) \<and> \<not> bitmap_test (bitmap_pagetable_mask s) 4"
    by (simp add: pmm_init_def demo_unaligned_def demo_boot_def pmm_free_section_def
        page_loop.simps pmm_free_def pmm_mark_used_def mask_page_def bitmap_test_set
        bitmap_test_clear demo_mask_init page_index_def pmm_usage_use_def pmm_usage_unuse_def
        demo_bitmap_init) auto
  then obtain s where s: "pmm_init demo_unaligned demo_pmm = Some s"
    and u: "\<forall>i\<le>4. bitmap_test (bitmap s) i \<longleftrightarrow> i \<noteq> 4"
      "\<not> bitmap_test (bitmap_pagetable_mask s) 4"
    by blast
  have "pmm_alloc s = Inr (page_addr 4, take_page 4 s)"
    unfolding pmm_alloc_def
    by (rule pmm_alloc_from_found) (use u in \<open>auto simp: page_available_def NPAGES_def BITMAP_SIZE_def\<close>)
  then show ?thesis
    using s by (auto simp: boot_reserved_def demo_unaligned_def demo_boot_def page_addr_def)
qed

end
