(* ===== verification/Heap.thy ===== *)
theory Heap
  imports Prelude
begin

text \<open>
  The kernel heap, \<open>mckrnl/core/memory/heap.c\<close>, in its configured form (\<open>HEAP_CANARY\<close> set,
  32-bit \<open>size_t\<close>). The heap is one block of memory tiled by segments. Each segment
  starts with a 16-byte header (length of the payload, addresses of the next and the
  previous header, a free flag), so the headers form a doubly linked list in address order.

  The model keeps headers and payload bytes apart: \<open>hdrs\<close> maps an address to the header
  stored there, \<open>bytes\<close> holds the payload. Addresses and sizes are numbers with the
  32-bit wrap-around written out. Following a pointer to an address without a header is
  \<open>BadPointer\<close>. The loops over the list need not end on a cyclic list, so they are partial.
\<close>

section \<open>State\<close>

record heap_segment_header =
  seg_length :: nat
  seg_next :: nat
  seg_last :: nat
  seg_free :: bool

record heap =
  hdrs :: "nat \<Rightarrow> heap_segment_header option"
  bytes :: "nat \<Rightarrow> u8"
  heap_start :: nat
  heap_end :: nat
  last_hdr :: nat

text \<open>\<open>sizeof(heap_segment_header_t)\<close> and \<open>sizeof(heap_canary_t)\<close> on the 32-bit target.\<close>

definition HDR :: nat where
  "HDR = 16"

definition CANARY_SIZE :: nat where
  "CANARY_SIZE = 4"

definition HEAP_CANARY_VALUE :: u32 where
  "HEAP_CANARY_VALUE = 0xDEADBEEF"

definition get_hdr :: "heap \<Rightarrow> nat \<Rightarrow> heap_segment_header kres" where
  "get_hdr h a = (case hdrs h a of None \<Rightarrow> Inl BadPointer | Some s \<Rightarrow> Inr s)"

definition put_hdr :: "nat \<Rightarrow> heap_segment_header \<Rightarrow> heap \<Rightarrow> heap" where
  "put_hdr a s h = h\<lparr>hdrs := (hdrs h)(a := Some s)\<rparr>"

text \<open>A field of the header at \<open>a\<close> is overwritten in place.\<close>

definition mod_hdr :: "nat \<Rightarrow> (heap_segment_header \<Rightarrow> heap_segment_header) \<Rightarrow> heap \<Rightarrow> heap kres" where
  "mod_hdr a f h = kbind (get_hdr h a) (\<lambda>s. Inr (put_hdr a (f s) h))"

text \<open>A little-endian 32-bit load and store on the payload bytes.\<close>

definition load32 :: "heap \<Rightarrow> nat \<Rightarrow> u32" where
  "load32 h a = ucast (bytes h a) OR push_bit 8 (ucast (bytes h (a + 1))) OR
     push_bit 16 (ucast (bytes h (a + 2))) OR push_bit 24 (ucast (bytes h (a + 3)))"

definition store32 :: "nat \<Rightarrow> u32 \<Rightarrow> heap \<Rightarrow> heap" where
  "store32 a v h = h\<lparr>bytes := (bytes h)
     (a := ucast v, a + 1 := ucast (drop_bit 8 v),
      a + 2 := ucast (drop_bit 16 v), a + 3 := ucast (drop_bit 24 v))\<rparr>"

section \<open>Segments\<close>

definition hsh_combine_forward :: "nat \<Rightarrow> heap \<Rightarrow> heap kres" where
  "hsh_combine_forward this h =
     kbind (get_hdr h this) (\<lambda>t.
     if seg_next t = 0 then Inr h
     else kbind (get_hdr h (seg_next t)) (\<lambda>n.
     if \<not> seg_free n then Inr h
     else
       let h1 = (if seg_next t = last_hdr h then h\<lparr>last_hdr := this\<rparr> else h)
       in kbind (if seg_next n \<noteq> 0 then mod_hdr (seg_next n) (\<lambda>s. s\<lparr>seg_last := this\<rparr>) h1 else Inr h1)
         (\<lambda>h2. mod_hdr this
            (\<lambda>s. s\<lparr>seg_length := wrap32 (seg_length s + seg_length n + HDR), seg_next := seg_next n\<rparr>) h2)))"

definition hsh_combine_backward :: "nat \<Rightarrow> heap \<Rightarrow> heap kres" where
  "hsh_combine_backward this h =
     kbind (get_hdr h this) (\<lambda>t.
     if seg_last t \<noteq> 0 then
       kbind (get_hdr h (seg_last t)) (\<lambda>l.
       if seg_free l then hsh_combine_forward (seg_last t) h else Inr h)
     else Inr h)"

text \<open>Returns the address of the new header, or 0 when the segment is not split.\<close>

definition hsh_split :: "nat \<Rightarrow> nat \<Rightarrow> heap \<Rightarrow> (nat \<times> heap) kres" where
  "hsh_split this split_length h =
     (if split_length < 0x10 then Inr (0, h)
      else kbind (get_hdr h this) (\<lambda>t.
        if seg_length t < wrap32 (split_length + HDR + 0x10) then Inr (0, h)
        else
          let split_seg_length = sub32 (sub32 (seg_length t) split_length) HDR;
              new_split_hdr = wrap32 (this + split_length + HDR)
          in kbind (if seg_next t \<noteq> 0 then mod_hdr (seg_next t) (\<lambda>s. s\<lparr>seg_last := new_split_hdr\<rparr>) h
                    else Inr h) (\<lambda>h1.
             let h2 = put_hdr new_split_hdr
                        \<lparr>seg_length = split_seg_length, seg_next = seg_next t, seg_last = this,
                         seg_free = seg_free t\<rparr> h1
             in kbind (mod_hdr this (\<lambda>s. s\<lparr>seg_next := new_split_hdr, seg_length := split_length\<rparr>) h2)
                (\<lambda>h3. Inr (new_split_hdr,
                   if last_hdr h3 = this then h3\<lparr>last_hdr := new_split_hdr\<rparr> else h3)))))"

text \<open>
  \<open>initialize_heap\<close> after \<open>vmm_alloc(page_count)\<close> returned \<open>start\<close>, on whatever the
  memory held.
\<close>

definition initialize_heap :: "nat \<Rightarrow> nat \<Rightarrow> (nat \<Rightarrow> u8) \<Rightarrow> heap" where
  "initialize_heap page_count start mem =
     (let heap_length = wrap32 (page_count * 0x1000)
      in \<lparr>hdrs = [start \<mapsto> \<lparr>seg_length = sub32 heap_length HDR, seg_next = 0, seg_last = 0,
                  seg_free = True\<rparr>],
          bytes = mem, heap_start = start, heap_end = wrap32 (start + heap_length),
          last_hdr = start\<rparr>)"

section \<open>Allocation and release\<close>

definition canary_addr :: "nat \<Rightarrow> heap_segment_header \<Rightarrow> nat" where
  "canary_addr a s = sub32 (wrap32 (wrap32 (a + HDR) + seg_length s)) CANARY_SIZE"

partial_function (option) check_heap_canaries_from :: "heap \<Rightarrow> nat \<Rightarrow> unit kloop" where
  "check_heap_canaries_from h current_seg =
     (case hdrs h current_seg of
        None \<Rightarrow> Some (Inl BadPointer)
      | Some s \<Rightarrow>
          if \<not> seg_free s \<and> load32 h (canary_addr current_seg s) \<noteq> HEAP_CANARY_VALUE
          then Some (Inl (Abort ''heap canary corrupted''))
          else if seg_next s = 0 then Some (Inr ())
          else check_heap_canaries_from h (seg_next s))"

definition check_heap_canaries :: "heap \<Rightarrow> unit kloop" where
  "check_heap_canaries h = check_heap_canaries_from h (heap_start h)"

definition prepare_segment :: "nat \<Rightarrow> heap \<Rightarrow> (nat \<times> heap) kres" where
  "prepare_segment segment h =
     kbind (mod_hdr segment (\<lambda>s. s\<lparr>seg_free := False\<rparr>) h) (\<lambda>h1.
     kbind (get_hdr h1 segment) (\<lambda>s.
       Inr (wrap32 (segment + HDR), store32 (canary_addr segment s) HEAP_CANARY_VALUE h1)))"

text \<open>The search of \<open>kmalloc\<close>: the first free segment that is long enough.\<close>

partial_function (option) kmalloc_find :: "heap \<Rightarrow> nat \<Rightarrow> nat \<Rightarrow> nat option kloop" where
  "kmalloc_find h sz current_seg =
     (case hdrs h current_seg of
        None \<Rightarrow> Some (Inl BadPointer)
      | Some s \<Rightarrow>
          if seg_free s \<and> (seg_length s > sz \<or> seg_length s = sz) then Some (Inr (Some current_seg))
          else if seg_next s = 0 then Some (Inr None)
          else kmalloc_find h sz (seg_next s))"

text \<open>The request with room for the canary, rounded up to a multiple of 16.\<close>

definition kmalloc_size :: "nat \<Rightarrow> nat" where
  "kmalloc_size sz =
     (let size1 = wrap32 (sz + CANARY_SIZE)
      in if size1 mod 0x10 > 0 then wrap32 (size1 - size1 mod 0x10 + 0x10) else size1)"

definition kmalloc :: "nat \<Rightarrow> heap \<Rightarrow> (nat \<times> heap) kloop" where
  "kmalloc sz h =
     (if sz = 0 then Some (Inr (0, h))
      else kseq (check_heap_canaries h) (\<lambda>_.
        kseq (kmalloc_find h (kmalloc_size sz) (heap_start h)) (\<lambda>found.
          case found of
            None \<Rightarrow> Some (Inl (Abort ''kernel heap full''))
          | Some current_seg \<Rightarrow> Some (
              kbind (get_hdr h current_seg) (\<lambda>s.
              if seg_length s > kmalloc_size sz
              then kbind (hsh_split current_seg (kmalloc_size sz) h) (\<lambda>(_, h1).
                     prepare_segment current_seg h1)
              else prepare_segment current_seg h)))))"

definition kfree :: "nat \<Rightarrow> heap \<Rightarrow> heap kloop" where
  "kfree address h =
     (if address = 0 then Some (Inr h)
      else kseq (check_heap_canaries h) (\<lambda>_.
        let segment = sub32 address HDR
        in Some (kbind (mod_hdr segment (\<lambda>s. s\<lparr>seg_free := True\<rparr>) h) (\<lambda>h1.
                 kbind (hsh_combine_forward segment h1) (\<lambda>h2.
                 hsh_combine_backward segment h2)))))"

definition memcpy_bytes :: "nat \<Rightarrow> nat \<Rightarrow> nat \<Rightarrow> heap \<Rightarrow> heap" where
  "memcpy_bytes dest src n h =
     h\<lparr>bytes := (\<lambda>a. if dest \<le> a \<and> a < dest + n then bytes h (src + (a - dest)) else bytes h a)\<rparr>"

definition memset_bytes :: "nat \<Rightarrow> u8 \<Rightarrow> nat \<Rightarrow> heap \<Rightarrow> heap" where
  "memset_bytes dest v n h =
     h\<lparr>bytes := (\<lambda>a. if dest \<le> a \<and> a < dest + n then v else bytes h a)\<rparr>"

definition krealloc :: "nat \<Rightarrow> nat \<Rightarrow> heap \<Rightarrow> (nat \<times> heap) kloop" where
  "krealloc ptr sz h =
     (let segment = sub32 ptr HDR
      in if sz = 0 then kseq (kfree ptr h) (\<lambda>h1. Some (Inr (0, h1)))
         else if ptr = 0 then kmalloc sz h
         else kseq (Some (get_hdr h segment)) (\<lambda>s.
           if wrap32 (sz + CANARY_SIZE) \<le> seg_length s then Some (Inr (ptr, h))
           else kseq (kmalloc sz h) (\<lambda>(new_ptr, h1).
             if new_ptr \<noteq> 0 then
               kseq (Some (get_hdr h1 segment)) (\<lambda>s1.
               kseq (kfree ptr (memcpy_bytes new_ptr ptr (seg_length s1) h1)) (\<lambda>h2.
                 Some (Inr (new_ptr, h2))))
             else Some (Inr (new_ptr, h1)))))"

definition kcalloc :: "nat \<Rightarrow> nat \<Rightarrow> heap \<Rightarrow> (nat \<times> heap) kloop" where
  "kcalloc count sz h =
     kseq (kmalloc (wrap32 (count * sz)) h) (\<lambda>(addr, h1).
       Some (Inr (addr, memset_bytes addr 0 (wrap32 (count * sz)) h1)))"

section \<open>Usage report\<close>

record heap_information =
  total_size_kb :: nat
  used_size_kb :: nat
  free_size_kb :: nat
  largest_free_segment_kb :: nat
  segment_count :: nat

text \<open>
  The running totals of \<open>heap_get_information\<close> in bytes: total, used, free, largest free
  segment, and the segment count. The C variables are \<open>int\<close>s that receive sums of
  \<open>size_t\<close>s, so they hold the sum modulo \<open>2 ^ 32\<close>.
\<close>

partial_function (option) heap_information_from ::
  "heap \<Rightarrow> nat \<Rightarrow> nat \<Rightarrow> nat \<Rightarrow> nat \<Rightarrow> nat \<Rightarrow> nat \<Rightarrow> (nat \<times> nat \<times> nat \<times> nat \<times> nat) kloop" where
  "heap_information_from h current_seg tot used free largest cnt =
     (case hdrs h current_seg of
        None \<Rightarrow> Some (Inl BadPointer)
      | Some s \<Rightarrow>
          let tot' = wrap32 (tot + seg_length s);
              used' = (if \<not> seg_free s then wrap32 (used + seg_length s) else used);
              free' = (if seg_free s then wrap32 (free + seg_length s) else free);
              largest' = (if seg_free s \<and> seg_length s > largest then seg_length s else largest)
          in if seg_next s = 0 then Some (Inr (tot', used', free', largest', wrap32 (cnt + 1)))
             else heap_information_from h (seg_next s) tot' used' free' largest' (wrap32 (cnt + 1)))"

text \<open>
  The report divides the totals, read back as signed \<open>int\<close>s, by 1024 and stores the result
  in a \<open>size_t\<close>.
\<close>

definition int_div_1024 :: "nat \<Rightarrow> nat" where
  "int_div_1024 n =
     (if n < 2147483648 then n div 1024 else wrap32 (4294967296 - (4294967296 - n) div 1024))"

definition heap_get_information :: "heap \<Rightarrow> heap_information kloop" where
  "heap_get_information h =
     kseq (heap_information_from h (heap_start h) 0 0 0 0 0) (\<lambda>(tot, used, free, largest, cnt).
       Some (Inr \<lparr>total_size_kb = int_div_1024 tot, used_size_kb = int_div_1024 used,
         free_size_kb = int_div_1024 free, largest_free_segment_kb = int_div_1024 largest,
         segment_count = cnt\<rparr>))"

end
