(* ===== verification/Heap_Refinement.thy ===== *)
theory Heap_Refinement
  imports Heap
begin

text \<open>
  The linked headers of the kernel heap represent a list of segments, each a payload length
  and a free flag. This theory relates the two (\<open>heap_rep\<close>), shows that every operation of
  \<open>Heap\<close> implements a simple operation on that list, and derives what callers of
  \<open>kmalloc\<close>, \<open>kfree\<close>, \<open>krealloc\<close> and \<open>kcalloc\<close> rely on.
\<close>

section \<open>Segment lists\<close>

type_synonym aseg = "nat \<times> bool"

fun span :: "aseg list \<Rightarrow> nat" where
  "span [] = 0"
| "span ((l, f) # r) = HDR + l + span r"

text \<open>
  \<open>chain st p a t segs\<close>: the headers for \<open>segs\<close> lie back to back from address \<open>a\<close>, the first
  points back to \<open>p\<close> and the last one's next pointer is \<open>t\<close>.
\<close>

fun chain :: "(nat \<Rightarrow> heap_segment_header option) \<Rightarrow> nat \<Rightarrow> nat \<Rightarrow> nat \<Rightarrow> aseg list \<Rightarrow> bool" where
  "chain st p a t [] = True"
| "chain st p a t ((l, f) # r) \<longleftrightarrow>
     st a = Some \<lparr>seg_length = l, seg_next = (if r = [] then t else a + HDR + l),
                  seg_last = p, seg_free = f\<rparr> \<and>
     16 \<le> l \<and> chain st a (a + HDR + l) t r"

definition heap_rep :: "heap \<Rightarrow> aseg list \<Rightarrow> bool" where
  "heap_rep h segs \<longleftrightarrow>
     segs \<noteq> [] \<and> 0 < heap_start h \<and> heap_end h = heap_start h + span segs \<and>
     heap_end h < 4294967296 \<and> last_hdr h = heap_start h + span (butlast segs) \<and>
     chain (hdrs h) 0 (heap_start h) 0 segs"

text \<open>The address of the header before the one at \<open>a + span xs\<close>.\<close>

definition prev_addr :: "nat \<Rightarrow> nat \<Rightarrow> aseg list \<Rightarrow> nat" where
  "prev_addr p a xs = (if xs = [] then p else a + span (butlast xs))"

lemma HDR_pos [simp]: "0 < HDR" "HDR \<noteq> 0"
  by (simp_all add: HDR_def)

lemma span_append [simp]: "span (xs @ ys) = span xs + span ys"
  by (induction xs rule: span.induct) simp_all

lemma prev_addr_Cons [simp]: "prev_addr p a ((l, f) # xs) = prev_addr a (a + HDR + l) xs"
  by (cases xs) (auto simp: prev_addr_def)

lemma prev_addr_Nil [simp]: "prev_addr p a [] = p"
  by (simp add: prev_addr_def)

lemma chain_append:
  "ys \<noteq> [] \<Longrightarrow> chain st p a t (xs @ ys) \<longleftrightarrow>
     chain st p a (a + span xs) xs \<and> chain st (prev_addr p a xs) (a + span xs) t ys"
proof (induction xs arbitrary: p a)
  case Nil
  then show ?case by simp
next
  case (Cons x xs)
  obtain l f where x: "x = (l, f)" by (cases x)
  have "chain st a (a + HDR + l) t (xs @ ys) \<longleftrightarrow>
      chain st a (a + HDR + l) (a + HDR + l + span xs) xs \<and>
      chain st (prev_addr a (a + HDR + l) xs) (a + HDR + l + span xs) t ys"
    using Cons by blast
  with Cons.prems show ?case by (auto simp: x add.assoc)
qed

lemma chain_cong:
  assumes "\<And>b. a \<le> b \<Longrightarrow> b < a + span segs \<Longrightarrow> st b = st' b"
  shows "chain st p a t segs = chain st' p a t segs"
  using assms
proof (induction segs arbitrary: p a rule: span.induct)
  case (2 l f r)
  have "chain st a (a + HDR + l) t r = chain st' a (a + HDR + l) t r"
    by (rule "2.IH") (use "2.prems" in simp)
  moreover have "st a = st' a" using "2.prems" by simp
  ultimately show ?case by simp
qed simp

lemma chain_upd_outside:
  "b < a \<or> a + span segs \<le> b \<Longrightarrow> chain (st(b := v)) p a t segs = chain st p a t segs"
  by (rule chain_cong) auto

lemma chain_new_prev:
  assumes "chain st p a t ((l, f) # r)"
  shows "chain (st(a := Some \<lparr>seg_length = l, seg_next = (if r = [] then t else a + HDR + l),
           seg_last = p', seg_free = f\<rparr>)) p' a t ((l, f) # r)"
  using assms by (simp add: chain_upd_outside)

section \<open>Reading the headers\<close>

lemma get_put_hdr [simp]: "get_hdr (put_hdr a s h) b = (if b = a then Inr s else get_hdr h b)"
  by (simp add: get_hdr_def put_hdr_def)

lemma put_hdr_simps [simp]:
  "hdrs (put_hdr a s h) = (hdrs h)(a := Some s)"
  "bytes (put_hdr a s h) = bytes h"
  "heap_start (put_hdr a s h) = heap_start h"
  "heap_end (put_hdr a s h) = heap_end h"
  "last_hdr (put_hdr a s h) = last_hdr h"
  by (simp_all add: put_hdr_def)

lemma get_hdr_last_upd [simp]: "get_hdr (h\<lparr>last_hdr := x\<rparr>) a = get_hdr h a"
  by (simp add: get_hdr_def)

lemma get_hdr_Some: "hdrs h a = Some s \<Longrightarrow> get_hdr h a = Inr s"
  by (simp add: get_hdr_def)

text \<open>The pieces of a representation around the segment that starts at \<open>heap_start h + span xs\<close>.\<close>

lemma heap_rep_split:
  "heap_rep h (xs @ (l, f) # ys) \<longleftrightarrow>
     0 < heap_start h \<and>
     heap_end h = heap_start h + span xs + HDR + l + span ys \<and> heap_end h < 4294967296 \<and>
     last_hdr h = (if ys = [] then heap_start h + span xs
                   else heap_start h + span xs + HDR + l + span (butlast ys)) \<and>
     chain (hdrs h) 0 (heap_start h) (heap_start h + span xs) xs \<and>
     chain (hdrs h) (prev_addr 0 (heap_start h) xs) (heap_start h + span xs) 0 ((l, f) # ys)"
  by (auto simp: heap_rep_def chain_append butlast_append add.assoc simp del: chain.simps)

definition same_frame :: "heap \<Rightarrow> heap \<Rightarrow> bool" where
  "same_frame h h' \<longleftrightarrow>
     heap_start h' = heap_start h \<and> heap_end h' = heap_end h \<and> bytes h' = bytes h"

lemma same_frame_refl [simp]: "same_frame h h"
  by (simp add: same_frame_def)

lemma same_frame_trans: "same_frame h h' \<Longrightarrow> same_frame h' h'' \<Longrightarrow> same_frame h h''"
  by (simp add: same_frame_def)

section \<open>Merging and splitting\<close>

lemma combine_forward_keeps:
  assumes "heap_rep h (xs @ (l, f) # ys)" and "ys = [] \<or> \<not> snd (hd ys)"
  shows "hsh_combine_forward (heap_start h + span xs) h = Inr h"
proof (cases ys)
  case Nil
  with assms show ?thesis
    by (simp add: heap_rep_split hsh_combine_forward_def get_hdr_Some)
next
  case (Cons y zs)
  with assms show ?thesis
    by (cases y) (simp add: heap_rep_split hsh_combine_forward_def get_hdr_Some)
qed

lemma combine_forward_merges:
  assumes rep: "heap_rep h (xs @ (l, f) # (l2, True) # ys)"
  shows "\<exists>h'. hsh_combine_forward (heap_start h + span xs) h = Inr h' \<and>
           heap_rep h' (xs @ (l + l2 + HDR, f) # ys) \<and> same_frame h h'"
proof -
  define a where "a = heap_start h + span xs"
  from rep have pos: "0 < heap_start h" and bnd: "heap_end h < 4294967296"
    and ends: "heap_end h = a + HDR + l + HDR + l2 + span ys"
    and lst: "last_hdr h = (if ys = [] then a + HDR + l else a + HDR + l + HDR + l2 + span (butlast ys))"
    and before: "chain (hdrs h) 0 (heap_start h) a xs"
    and here: "chain (hdrs h) (prev_addr 0 (heap_start h) xs) a 0 ((l, f) # (l2, True) # ys)"
    by (auto simp: heap_rep_split a_def add.assoc simp del: chain.simps)
  have len: "wrap32 (l + l2 + HDR) = l + l2 + HDR"
    using ends bnd by simp
  have before': "chain st' 0 (heap_start h) a xs"
    if "\<And>b. b < a \<Longrightarrow> st' b = hdrs h b" for st'
    using before by (rule iffD1 [OF chain_cong, rotated]) (simp add: that a_def)
  show ?thesis
  proof (cases ys)
    case Nil
    define h' where "h' = put_hdr a \<lparr>seg_length = l + l2 + HDR, seg_next = 0,
      seg_last = prev_addr 0 (heap_start h) xs, seg_free = f\<rparr> (h\<lparr>last_hdr := a\<rparr>)"
    have "hsh_combine_forward a h = Inr h'"
      using here lst pos len Nil
      by (simp add: hsh_combine_forward_def get_hdr_Some mod_hdr_def h'_def)
    moreover have "chain (hdrs h') 0 (heap_start h) a xs"
      by (rule before') (simp add: h'_def)
    then have "heap_rep h' (xs @ (l + l2 + HDR, f) # ys)"
      using here pos bnd ends Nil by (simp add: heap_rep_split h'_def a_def)
    ultimately show ?thesis
      by (auto simp: same_frame_def h'_def a_def)
  next
    case (Cons y zs)
    obtain l3 f3 where y: "y = (l3, f3)" by (cases y)
    define c where "c = a + HDR + l + HDR + l2"
    define h' where "h' = put_hdr a \<lparr>seg_length = l + l2 + HDR, seg_next = c,
      seg_last = prev_addr 0 (heap_start h) xs, seg_free = f\<rparr>
      (put_hdr c \<lparr>seg_length = l3, seg_next = (if zs = [] then 0 else c + HDR + l3),
        seg_last = a, seg_free = f3\<rparr> h)"
    have c: "c = a + (HDR + (l + (HDR + l2)))" "a < c" by (simp_all add: c_def)
    from here Cons y have tail: "chain (hdrs h) (a + HDR + l) c 0 ((l3, f3) # zs)"
      by (simp add: c_def)
    have "chain (hdrs h') a c 0 ((l3, f3) # zs)"
      using chain_new_prev [OF tail, of a] c(2)
      unfolding h'_def put_hdr_simps by (subst chain_upd_outside) simp_all
    moreover have "hsh_combine_forward a h = Inr h'"
      using here lst pos len Cons y c(2)
      by (simp add: hsh_combine_forward_def get_hdr_Some mod_hdr_def h'_def c_def)
    moreover have "chain (hdrs h') 0 (heap_start h) a xs"
      by (rule before') (simp add: h'_def c_def)
    ultimately show ?thesis
      using here pos bnd ends lst Cons y
      by (auto simp: heap_rep_split same_frame_def h'_def a_def c_def algebra_simps)
  qed
qed

lemma hsh_split_keeps:
  assumes "heap_rep h (xs @ (l, f) # ys)" and "n < 4294967264" and "n < 16 \<or> l < n + HDR + 16"
  shows "hsh_split (heap_start h + span xs) n h = Inr (0, h)"
  using assms by (auto simp: heap_rep_split hsh_split_def get_hdr_Some HDR_def)

lemma hsh_split_splits:
  assumes rep: "heap_rep h (xs @ (l, f) # ys)" and n: "16 \<le> n" "n + HDR + 16 \<le> l"
  shows "\<exists>h'. hsh_split (heap_start h + span xs) n h = Inr (heap_start h + span xs + n + HDR, h') \<and>
           heap_rep h' (xs @ (n, f) # (l - n - HDR, f) # ys) \<and> same_frame h h'"
proof -
  define a where "a = heap_start h + span xs"
  define b where "b = a + n + HDR"
  define p where "p = prev_addr 0 (heap_start h) xs"
  from rep have pos: "0 < heap_start h" and bnd: "heap_end h < 4294967296"
    and ends: "heap_end h = a + HDR + l + span ys"
    and lst: "last_hdr h = (if ys = [] then a else a + HDR + l + span (butlast ys))"
    and before: "chain (hdrs h) 0 (heap_start h) a xs"
    and here: "chain (hdrs h) p a 0 ((l, f) # ys)"
    by (auto simp: heap_rep_split a_def p_def add.assoc simp del: chain.simps)
  have before': "chain st' 0 (heap_start h) a xs"
    if "\<And>b. b < a \<Longrightarrow> st' b = hdrs h b" for st'
    using before by (rule iffD1 [OF chain_cong, rotated]) (simp add: that a_def)
  have b: "wrap32 (a + n + HDR) = b" "a < b" "b < a + HDR + l" "b + HDR + (l - n - HDR) = a + HDR + l"
    and len: "sub32 (sub32 l n) HDR = l - n - HDR" "\<not> l < wrap32 (n + HDR + 16)"
    using n ends bnd by (simp_all add: b_def)
  define new where "new = \<lparr>seg_length = l - n - HDR, seg_next = (if ys = [] then 0 else a + HDR + l),
    seg_last = a, seg_free = f\<rparr>"
  define this where "this = \<lparr>seg_length = n, seg_next = b, seg_last = p, seg_free = f\<rparr>"
  show ?thesis
  proof (cases ys)
    case Nil
    define h' where "h' = (put_hdr a this (put_hdr b new h))\<lparr>last_hdr := b\<rparr>"
    have "hsh_split a n h = Inr (b, h')"
      using here lst n b len Nil
      by (simp add: hsh_split_def get_hdr_Some mod_hdr_def h'_def new_def this_def)
    moreover have "chain (hdrs h') 0 (heap_start h) a xs"
      by (rule before') (use b in \<open>simp add: h'_def\<close>)
    then have "heap_rep h' (xs @ (n, f) # (l - n - HDR, f) # ys)"
      using pos bnd ends n b Nil
      by (simp add: heap_rep_split h'_def a_def b_def new_def this_def p_def)
    ultimately show ?thesis
      by (auto simp: same_frame_def h'_def a_def b_def)
  next
    case (Cons y zs)
    obtain l3 f3 where y: "y = (l3, f3)" by (cases y)
    define c where "c = a + HDR + l"
    define h1 where "h1 = put_hdr c \<lparr>seg_length = l3, seg_next = (if zs = [] then 0 else c + HDR + l3),
        seg_last = b, seg_free = f3\<rparr> h"
    define h' where "h' = put_hdr a this (put_hdr b new h1)"
    have ab: "a < b" "b < c" "a < c" "b + HDR + (l - n - HDR) = c"
      using b by (simp_all add: c_def)
    from here Cons y have tail: "chain (hdrs h) a c 0 ((l3, f3) # zs)"
      by (simp add: c_def)
    have "chain (hdrs h') b c 0 ((l3, f3) # zs)"
      unfolding h'_def h1_def put_hdr_simps
      using chain_new_prev [OF tail, of b] ab by (simp only: chain_upd_outside simp_thms)
    moreover have "hsh_split a n h = Inr (b, h')"
      using here lst n b len Cons y ab
      by (simp add: hsh_split_def get_hdr_Some mod_hdr_def h'_def h1_def new_def this_def c_def Let_def)
    moreover have "chain (hdrs h') 0 (heap_start h) a xs"
      by (rule before') (use ab in \<open>simp add: h'_def h1_def\<close>)
    moreover have "hdrs h' a = Some this" "hdrs h' b = Some new"
      using ab by (simp_all add: h'_def h1_def)
    moreover have "heap_start h' = heap_start h" "heap_end h' = heap_end h" "bytes h' = bytes h"
      "last_hdr h' = last_hdr h"
      by (simp_all add: h'_def h1_def)
    moreover have "a + HDR + n = b" by (simp add: b_def)
    moreover obtain m where "l = n + HDR + m" "16 \<le> m"
      using n that [of "l - n - HDR"] by simp
    moreover from this have "c = b + (HDR + m)" by (simp add: c_def b_def)
    ultimately have "heap_rep h' (xs @ (n, f) # (l - n - HDR, f) # ys)"
      using pos bnd ends lst n(1) Cons y p_def
      by (simp add: heap_rep_split new_def this_def a_def [symmetric] add.assoc)
    with \<open>hsh_split a n h = Inr (b, h')\<close> show ?thesis
      by (auto simp: same_frame_def h'_def h1_def a_def b_def)
  qed
qed

section \<open>Canaries\<close>

text \<open>The canary word of every block in use is intact.\<close>

fun canaries_ok :: "heap \<Rightarrow> nat \<Rightarrow> aseg list \<Rightarrow> bool" where
  "canaries_ok h a [] \<longleftrightarrow> True"
| "canaries_ok h a ((l, f) # r) \<longleftrightarrow>
     (f \<or> load32 h (a + HDR + l - CANARY_SIZE) = HEAP_CANARY_VALUE) \<and> canaries_ok h (a + HDR + l) r"

lemma canary_addr_eq:
  assumes "seg_length s = l" and "16 \<le> l" and "a + HDR + l < 4294967296"
  shows "canary_addr a s = a + HDR + l - CANARY_SIZE"
  using assms by (simp add: canary_addr_def CANARY_SIZE_def)

lemma check_canaries_chain:
  assumes "chain (hdrs h) p a 0 segs" and "segs \<noteq> []" and "0 < a" and "a + span segs < 4294967296"
  shows "check_heap_canaries_from h a =
           Some (if canaries_ok h a segs then Inr () else Inl (Abort ''heap canary corrupted''))"
  using assms
proof (induction segs arbitrary: p a)
  case Nil
  then show ?case by simp
next
  case (Cons x r)
  obtain l f where x: "x = (l, f)" by (cases x)
  have *: "canary_addr a \<lparr>seg_length = l, seg_next = nx, seg_last = p, seg_free = f\<rparr> =
      a + HDR + l - CANARY_SIZE" for nx
    using Cons.prems by (intro canary_addr_eq) (simp_all add: x)
  show ?case
    using Cons by (subst check_heap_canaries_from.simps) (auto simp: x * )
qed

lemma check_heap_canaries_eq:
  assumes "heap_rep h segs"
  shows "check_heap_canaries h =
    Some (if canaries_ok h (heap_start h) segs then Inr () else Inl (Abort ''heap canary corrupted''))"
  using assms unfolding check_heap_canaries_def heap_rep_def
  by (intro check_canaries_chain) auto

lemma canaries_ok_append [simp]:
  "canaries_ok h a (xs @ ys) \<longleftrightarrow> canaries_ok h a xs \<and> canaries_ok h (a + span xs) ys"
  by (induction xs arbitrary: a rule: span.induct) (auto simp: add.assoc)

lemma load32_cong: "(\<And>b. a \<le> b \<Longrightarrow> b < a + 4 \<Longrightarrow> bytes h b = bytes h' b) \<Longrightarrow> load32 h a = load32 h' a"
  by (simp add: load32_def)

lemma canaries_ok_cong:
  assumes "\<And>b. a \<le> b \<Longrightarrow> b < a + span segs \<Longrightarrow> bytes h b = bytes h' b"
    and "\<forall>(l, f)\<in>set segs. 16 \<le> l"
  shows "canaries_ok h a segs = canaries_ok h' a segs"
  using assms
proof (induction segs arbitrary: a rule: span.induct)
  case (2 l f r)
  have "canaries_ok h (a + HDR + l) r = canaries_ok h' (a + HDR + l) r"
    by (rule "2.IH") (use "2.prems" in auto)
  moreover have "load32 h (a + HDR + l - CANARY_SIZE) = load32 h' (a + HDR + l - CANARY_SIZE)"
    by (rule load32_cong) (use "2.prems" in \<open>auto simp: CANARY_SIZE_def\<close>)
  ultimately show ?case by simp
qed simp

lemma canaries_ok_same_bytes: "bytes h' = bytes h \<Longrightarrow> canaries_ok h' a segs = canaries_ok h a segs"
  by (induction segs arbitrary: a rule: span.induct) (simp_all add: load32_def)

lemma load32_store32: "load32 (store32 a v h) a = v"
proof -
  have "ucast (ucast v :: u8) OR push_bit 8 (ucast (ucast (drop_bit 8 v) :: u8)) OR
      push_bit 16 (ucast (ucast (drop_bit 16 v) :: u8)) OR
      push_bit 24 (ucast (ucast (drop_bit 24 v) :: u8)) = v"
  proof (rule bit_word_eqI, goal_cases)
    case (1 n)
    then show ?case
      by (cases "n < 8"; cases "n < 16"; cases "n < 24") (auto simp: bit_simps)
  qed
  then show ?thesis by (simp add: load32_def store32_def)
qed

section \<open>Allocation\<close>

text \<open>
  \<open>kmalloc\<close> on segment lists: the first free segment with room for \<open>n\<close> bytes is taken; when
  the rest can hold a header and at least 16 bytes it is split off. The result is the offset
  of the chosen header and the new list.
\<close>

fun a_malloc :: "nat \<Rightarrow> aseg list \<Rightarrow> (nat \<times> aseg list) option" where
  "a_malloc n [] = None"
| "a_malloc n ((l, f) # r) =
     (if f \<and> n \<le> l then
        Some (0, if 16 \<le> n \<and> n + HDR + 16 \<le> l then (n, False) # (l - n - HDR, True) # r
                 else (l, False) # r)
      else map_option (\<lambda>(off, r'). (HDR + l + off, (l, f) # r')) (a_malloc n r))"

lemma a_malloc_SomeE:
  assumes "a_malloc n segs = Some (off, segs')"
  obtains xs l ys where "segs = xs @ (l, True) # ys" and "n \<le> l" and "off = span xs"
    and "\<forall>(l, f)\<in>set xs. \<not> (f \<and> n \<le> l)"
    and "segs' = xs @ (if 16 \<le> n \<and> n + HDR + 16 \<le> l then (n, False) # (l - n - HDR, True) # ys
                       else (l, False) # ys)"
  using assms
proof (induction segs arbitrary: off segs' thesis)
  case Nil
  then show ?case by simp
next
  case (Cons x r)
  obtain l f where x: "x = (l, f)" by (cases x)
  show ?case
  proof (cases "f \<and> n \<le> l")
    case True
    with Cons.prems(2) x show ?thesis by (intro Cons.prems(1) [of "[]" l r]) auto
  next
    case False
    with Cons.prems(2) x obtain o2 r2 where r: "a_malloc n r = Some (o2, r2)"
      and "off = HDR + l + o2" "segs' = (l, f) # r2"
      by auto
    moreover from r obtain xs l2 ys where "r = xs @ (l2, True) # ys" and "n \<le> l2" and "o2 = span xs"
      and "\<forall>(l, f)\<in>set xs. \<not> (f \<and> n \<le> l)"
      and "r2 = xs @ (if 16 \<le> n \<and> n + HDR + 16 \<le> l2 then (n, False) # (l2 - n - HDR, True) # ys
                       else (l2, False) # ys)"
      by (rule Cons.IH [rotated])
    ultimately show ?thesis
      using False x by (intro Cons.prems(1) [of "(l, f) # xs" l2 ys]) auto
  qed
qed

lemma a_malloc_None: "a_malloc n segs = None \<longleftrightarrow> (\<forall>(l, f)\<in>set segs. \<not> (f \<and> n \<le> l))"
  by (induction n segs rule: a_malloc.induct) (auto split: if_splits)

lemma kmalloc_find_chain:
  assumes "chain (hdrs h) p a 0 segs" and "segs \<noteq> []" and "0 < a"
  shows "kmalloc_find h n a = Some (Inr (map_option (\<lambda>(off, _). a + off) (a_malloc n segs)))"
  using assms
proof (induction segs arbitrary: p a)
  case Nil
  then show ?case by simp
next
  case (Cons x r)
  obtain l f where x: "x = (l, f)" by (cases x)
  show ?case
  proof (cases "r = []")
    case True
    with Cons.prems show ?thesis
      by (subst kmalloc_find.simps) (auto simp: x)
  next
    case False
    with Cons.prems have "kmalloc_find h n (a + HDR + l) =
        Some (Inr (map_option (\<lambda>(off, _). a + HDR + l + off) (a_malloc n r)))"
      by (intro Cons.IH) (auto simp: x)
    with Cons.prems False show ?thesis
      by (subst kmalloc_find.simps) (auto simp: x option.map_comp comp_def case_prod_unfold add.assoc)
  qed
qed

lemma chain_lengths: "chain st p a t segs \<Longrightarrow> \<forall>(l, f)\<in>set segs. 16 \<le> l"
  by (induction segs arbitrary: p a rule: span.induct) fastforce+

lemma heap_rep_lengths: "heap_rep h segs \<Longrightarrow> \<forall>(l, f)\<in>set segs. 16 \<le> l"
  by (auto simp: heap_rep_def dest: chain_lengths)

lemma prepare_segment_rep:
  assumes rep: "heap_rep h (xs @ (l, f) # ys)"
  shows "\<exists>h'. prepare_segment (heap_start h + span xs) h = Inr (heap_start h + span xs + HDR, h') \<and>
           heap_rep h' (xs @ (l, False) # ys) \<and> heap_start h' = heap_start h \<and>
           heap_end h' = heap_end h \<and>
           bytes h' = bytes (store32 (heap_start h + span xs + HDR + l - CANARY_SIZE)
                               HEAP_CANARY_VALUE h)"
proof -
  define a where "a = heap_start h + span xs"
  define p where "p = prev_addr 0 (heap_start h) xs"
  define this where "this = \<lparr>seg_length = l, seg_next = (if ys = [] then 0 else a + HDR + l),
    seg_last = p, seg_free = False\<rparr>"
  define h1 where "h1 = put_hdr a this h"
  define h' where "h' = store32 (a + HDR + l - CANARY_SIZE) HEAP_CANARY_VALUE h1"
  from rep have bnd: "a + HDR + l < 4294967296" and l: "16 \<le> l"
    and before: "chain (hdrs h) 0 (heap_start h) a xs"
    and here: "chain (hdrs h) p a 0 ((l, f) # ys)"
    by (auto simp: heap_rep_split a_def p_def)
  have "canary_addr a this = a + HDR + l - CANARY_SIZE"
    using bnd l by (intro canary_addr_eq) (simp_all add: this_def)
  then have prep: "prepare_segment a h = Inr (a + HDR, h')"
    using here bnd
    by (simp add: prepare_segment_def mod_hdr_def get_hdr_Some h'_def h1_def this_def)
  have "chain (hdrs h') 0 (heap_start h) a xs" "chain (hdrs h') p a 0 ((l, False) # ys)"
    using before here by (auto simp: h'_def h1_def store32_def chain_upd_outside a_def this_def)
  moreover have frame: "heap_start h' = heap_start h" "heap_end h' = heap_end h" "last_hdr h' = last_hdr h"
    by (simp_all add: h'_def h1_def store32_def)
  ultimately have "heap_rep h' (xs @ (l, False) # ys)"
    using rep unfolding heap_rep_split a_def p_def by (simp del: chain.simps)
  with prep frame show ?thesis
    by (auto simp: h'_def h1_def store32_def a_def)
qed

lemma kmalloc_size_bound: "kmalloc_size n < 4294967296"
  by (simp add: kmalloc_size_def Let_def wrap32_lt)

lemma kmalloc_size_room:
  assumes "n \<le> 4294967276"
  shows "n + CANARY_SIZE \<le> kmalloc_size n \<and> kmalloc_size n < n + CANARY_SIZE + 16 \<and>
         16 \<le> kmalloc_size n + (if n = 0 then 16 else 0)"
proof -
  define m where "m = n + 4"
  have m: "m \<le> 4294967280" "m mod 16 \<le> m" using assms by (simp_all add: m_def)
  have "m - m mod 16 + 16 < 4294967296 \<or> m mod 16 = 0"
  proof (cases "m = 4294967280")
    case True
    then show ?thesis by simp
  next
    case False
    with m show ?thesis by linarith
  qed
  then show ?thesis
    using m by (auto simp: kmalloc_size_def CANARY_SIZE_def m_def [symmetric] Let_def mod_eq_0_iff_dvd)
      (presburger | simp add: m_def)+
qed

text \<open>
  The invariant of the kernel heap: the headers represent \<open>segs\<close>, lengths are multiples of
  16, no two neighbours are free, and every canary is intact.
\<close>

definition coalesced :: "aseg list \<Rightarrow> bool" where
  "coalesced segs \<longleftrightarrow> successively (\<lambda>x y. \<not> (snd x \<and> snd y)) segs"

definition heap_ok :: "heap \<Rightarrow> aseg list \<Rightarrow> bool" where
  "heap_ok h segs \<longleftrightarrow>
     heap_rep h segs \<and> 4096 \<le> heap_start h \<and> (\<forall>(l, f)\<in>set segs. 16 dvd l) \<and> coalesced segs \<and>
     canaries_ok h (heap_start h) segs"

lemma coalesced_split:
  "coalesced (xs @ x # ys) \<longleftrightarrow> coalesced xs \<and> coalesced ys \<and>
     (xs = [] \<or> \<not> (snd (last xs) \<and> snd x)) \<and> (ys = [] \<or> \<not> (snd x \<and> snd (hd ys)))"
  by (auto simp: coalesced_def successively_append_iff successively_Cons)

lemma coalesced_Cons:
  "coalesced (x # ys) \<longleftrightarrow> coalesced ys \<and> (ys = [] \<or> \<not> (snd x \<and> snd (hd ys)))"
  by (auto simp: coalesced_def successively_Cons)

lemma kmalloc_size_dvd: "16 dvd kmalloc_size n"
proof -
  have "16 dvd wrap32 m" if "16 dvd m" for m
    using that unfolding wrap32_def by (simp add: dvd_mod)
  moreover have "16 dvd (m - m mod 16 + 16)" for m :: nat
    by presburger
  ultimately show ?thesis
    unfolding kmalloc_size_def Let_def by (auto simp: mod_greater_zero_iff_not_dvd)
qed

text \<open>The chosen segment after the optional split, before it is marked used.\<close>

lemma kmalloc_split_step:
  assumes rep: "heap_rep h (xs @ (l, True) # ys)" and le: "n \<le> l" and "n < 4294967264"
  defines "zs \<equiv> if 16 \<le> n \<and> n + HDR + 16 \<le> l then (n, True) # (l - n - HDR, True) # ys else (l, True) # ys"
  shows "\<exists>h1. (if l > n then kbind (hsh_split (heap_start h + span xs) n h) (\<lambda>(_, h1). k h1) else k h) = k h1
           \<and> heap_rep h1 (xs @ zs) \<and> same_frame h h1"
proof (cases "16 \<le> n \<and> n + HDR + 16 \<le> l")
  case True
  with rep show ?thesis
    using hsh_split_splits [OF rep, of n] by (auto simp: zs_def)
next
  case False
  then have "hsh_split (heap_start h + span xs) n h = Inr (0, h)"
    using assms by (intro hsh_split_keeps [OF rep]) auto
  with False rep show ?thesis by (auto simp: zs_def)
qed

lemma canaries_ok_upd:
  assumes lens: "\<forall>(l, f)\<in>set (xs @ ys). 16 \<le> l" and l: "16 \<le> l"
    and ok: "canaries_ok h a (xs @ (l, True) # ys)"
    and "\<And>b. bytes h' b \<noteq> bytes h b \<Longrightarrow> a + span xs \<le> b \<and> b < a + span xs + HDR + l"
    and "load32 h' (a + span xs + HDR + l - CANARY_SIZE) = HEAP_CANARY_VALUE"
  shows "canaries_ok h' a (xs @ (l, False) # ys)"
proof -
  have "canaries_ok h' a xs = canaries_ok h a xs"
    by (rule canaries_ok_cong) (use assms in force)+
  moreover have "canaries_ok h' (a + span xs + HDR + l) ys = canaries_ok h (a + span xs + HDR + l) ys"
    by (rule canaries_ok_cong) (use assms in force)+
  ultimately show ?thesis using assms by simp
qed

lemma kmalloc_refines:
  assumes ok: "heap_ok h segs" and n: "0 < n" and m: "a_malloc (kmalloc_size n) segs = Some (off, segs')"
  obtains h' xs l0 zs l ys where "kmalloc n h = Some (Inr (heap_start h + off + HDR, h'))"
    and "heap_ok h' segs'" and "heap_start h' = heap_start h" and "off = span xs"
    and "segs = xs @ (l0, True) # zs" and "segs' = xs @ (l, False) # ys" and "kmalloc_size n \<le> l"
    and "l = l0 \<and> ys = zs \<or> l + HDR + 16 \<le> l0 \<and> ys = (l0 - l - HDR, True) # zs"
    and "\<forall>b. bytes h' b \<noteq> bytes h b \<longrightarrow>
           heap_start h + off + HDR + l - CANARY_SIZE \<le> b \<and> b < heap_start h + off + HDR + l"
proof -
  define z where "z = kmalloc_size n"
  from ok have rep: "heap_rep h segs" and start: "4096 \<le> heap_start h"
    and canaries: "canaries_ok h (heap_start h) segs" and lens: "\<forall>(l, f)\<in>set segs. 16 dvd l"
    and coal: "coalesced segs"
    by (auto simp: heap_ok_def)
  from m obtain xs l ys where segs: "segs = xs @ (l, True) # ys" and zl: "z \<le> l" and off: "off = span xs"
    and segs': "segs' = xs @ (if 16 \<le> z \<and> z + HDR + 16 \<le> l then (z, False) # (l - z - HDR, True) # ys
                       else (l, False) # ys)"
    unfolding z_def by (rule a_malloc_SomeE)
  have bound: "heap_start h + span xs + HDR + l < 4294967296"
    using rep by (simp add: segs heap_rep_split)
  obtain l2 ys2 where zs: "(if 16 \<le> z \<and> z + HDR + 16 \<le> l then (z, True) # (l - z - HDR, True) # ys
      else (l, True) # ys) = (l2, True) # ys2" and segs2: "segs' = xs @ (l2, False) # ys2"
    and ys2: "(l2, ys2) = (if 16 \<le> z \<and> z + HDR + 16 \<le> l then (z, (l - z - HDR, True) # ys) else (l, ys))"
    using segs' by (auto split: if_splits)
  obtain h1 where step: "(if l > z then kbind (hsh_split (heap_start h + span xs) z h)
        (\<lambda>(_, h1). prepare_segment (heap_start h + span xs) h1) else prepare_segment (heap_start h + span xs) h)
      = prepare_segment (heap_start h + span xs) h1" and rep1: "heap_rep h1 (xs @ (l2, True) # ys2)"
    and frame: "same_frame h h1"
    using kmalloc_split_step [OF rep [unfolded segs] zl, of "prepare_segment (heap_start h + span xs)"]
      zl bound start zs by auto
  obtain h' where prep: "prepare_segment (heap_start h + span xs) h1 = Inr (heap_start h + span xs + HDR, h')"
    and rep': "heap_rep h' segs'" and frame': "heap_start h' = heap_start h"
    and bytes': "bytes h' = bytes (store32 (heap_start h + span xs + HDR + l2 - CANARY_SIZE) HEAP_CANARY_VALUE h1)"
    using prepare_segment_rep [OF rep1] frame segs2 by (auto simp: same_frame_def)
  have find: "kmalloc_find h z (heap_start h) = Some (Inr (Some (heap_start h + span xs)))"
    using kmalloc_find_chain [of h 0 "heap_start h" segs z] rep m off start
    by (auto simp: heap_rep_def z_def)
  have hdr: "\<exists>s. get_hdr h (heap_start h + span xs) = Inr s \<and> seg_length s = l"
    using rep by (auto simp: segs heap_rep_split get_hdr_Some)
  have "kmalloc n h = Some (Inr (heap_start h + off + HDR, h'))"
    using n check_heap_canaries_eq [OF rep] canaries find hdr step prep off
    by (auto simp: kmalloc_def z_def [symmetric] split: if_splits)
  moreover have l2: "16 \<le> l2" "16 dvd l2" "l2 \<le> l"
    using rep1 ys2 lens kmalloc_size_dvd [of n] zl
    by (auto simp: segs z_def heap_rep_split split: if_splits)
  have diff: "heap_start h + off + HDR + l2 - CANARY_SIZE \<le> b \<and> b < heap_start h + off + HDR + l2"
    if "bytes h' b \<noteq> bytes h b" for b
    using that frame l2(1) off by (auto simp: bytes' store32_def same_frame_def CANARY_SIZE_def split: if_splits)
  have ok1: "canaries_ok h (heap_start h) (xs @ (l2, True) # ys2)"
    using canaries ys2 by (auto simp: segs add.assoc split: if_splits)
  have "canaries_ok h' (heap_start h) segs'"
    unfolding segs2
  proof (rule canaries_ok_upd [OF _ l2(1) ok1])
    show "\<forall>(l, f)\<in>set (xs @ ys2). 16 \<le> l" using heap_rep_lengths [OF rep1] by auto
    show "load32 h' (heap_start h + span xs + HDR + l2 - CANARY_SIZE) = HEAP_CANARY_VALUE"
      using load32_store32 [of "heap_start h + span xs + HDR + l2 - CANARY_SIZE" HEAP_CANARY_VALUE h1]
      by (simp add: load32_def bytes')
  qed (use diff off l2(1) in \<open>force simp: CANARY_SIZE_def\<close>)
  moreover have "coalesced segs'"
    using coal ys2 by (auto simp: segs segs2 coalesced_split coalesced_Cons split: if_splits)
  moreover have "\<forall>(l, f)\<in>set segs'. 16 dvd l"
    using lens l2 ys2 kmalloc_size_dvd [of n] by (auto simp: segs segs2 z_def HDR_def dvd_diff_nat split: if_splits)
  moreover have shape: "z \<le> l2" "l2 = l \<and> ys2 = ys \<or> l2 + HDR + 16 \<le> l \<and> ys2 = (l - l2 - HDR, True) # ys"
    using ys2 zl by (auto split: if_splits)
  ultimately show thesis
    using rep' frame' start diff off segs segs2 shape
    by (intro that [of h' xs l ys l2 ys2]) (auto simp: heap_ok_def z_def)
qed

section \<open>Release\<close>

text \<open>Adjacent free segments are merged into one.\<close>

fun coalesce :: "aseg list \<Rightarrow> aseg list" where
  "coalesce ((l, True) # (l2, True) # r) = coalesce ((l + l2 + HDR, True) # r)"
| "coalesce (x # r) = x # coalesce r"
| "coalesce [] = []"

lemmas coalesce_cases = coalesce.induct [case_names merge used single keep nil]

lemma coalesce_id: "coalesced segs \<Longrightarrow> coalesce segs = segs"
  by (induction segs rule: coalesce.induct) (auto simp: coalesced_Cons)

lemma coalesce_prefix:
  "coalesced (xs @ [x]) \<Longrightarrow> \<not> snd x \<Longrightarrow> coalesce (xs @ x # ys) = xs @ x # coalesce ys"
proof (induction xs rule: coalesce_cases)
  case (used l r)
  then show ?case by (cases r; cases x) (auto simp: coalesced_Cons)
qed (cases x; auto simp: coalesced_Cons)+

text \<open>What a release makes of the list: merge to the right, then into the left neighbour.\<close>

definition merge_right :: "nat \<Rightarrow> aseg list \<Rightarrow> nat \<times> aseg list" where
  "merge_right l ys = (case ys of (l2, True) # zs \<Rightarrow> (l + l2 + HDR, zs) | _ \<Rightarrow> (l, ys))"

end
