(* ===== verification/Heap_Contract.thy ===== *)
theory Heap_Contract
  imports Heap_Refinement
begin

text \<open>
  Release of kernel heap blocks, and what the callers of \<open>kmalloc\<close>, \<open>kfree\<close>, \<open>krealloc\<close>
  and \<open>kcalloc\<close> may rely on, stated once for any allocator of byte blocks and interpreted
  on the kernel heap.
\<close>

section \<open>Release\<close>

lemma coalesce_after_used:
  assumes "coalesced xs" and "xs = [] \<or> \<not> snd (last xs)"
  shows "coalesce (xs @ ys) = xs @ coalesce ys"
proof (cases xs rule: rev_cases)
  case (snoc zs z)
  with assms coalesce_prefix [of zs z ys] show ?thesis by simp
qed simp

lemma coalesce_free_used:
  "coalesced ys \<Longrightarrow> ys = [] \<or> \<not> snd (hd ys) \<Longrightarrow> coalesce ((l, True) # ys) = (l, True) # ys"
  by (intro coalesce_id) (auto simp: coalesced_Cons)

lemma merge_right_coalesce:
  assumes "coalesced ys" and "merge_right l ys = (l', ys')"
  shows "coalesce ((l, True) # ys) = (l', True) # ys'" and "coalesced ys'"
    and "ys' = [] \<or> \<not> snd (hd ys')"
  using assms
  by (auto simp: merge_right_def coalesced_Cons coalesce_free_used coalesce_id
      split: list.splits bool.splits)

text \<open>What marking a block free and merging it with both neighbours yields.\<close>

lemma coalesce_around:
  assumes "coalesced (xs @ (l, False) # ys)" and mr: "merge_right l ys = (l', ys')"
  shows "coalesce (xs @ (l, True) # ys) =
    (if xs \<noteq> [] \<and> snd (last xs) then butlast xs @ (fst (last xs) + l' + HDR, True) # ys'
     else xs @ (l', True) # ys')"
proof (cases "xs \<noteq> [] \<and> snd (last xs)")
  case False
  with assms show ?thesis
    by (auto simp: coalesced_split coalesce_after_used merge_right_coalesce)
next
  case True
  then obtain zs l0 where xs: "xs = zs @ [(l0, True)]"
    by (cases xs rule: rev_cases) auto
  have mr0: "merge_right (l0 + l + HDR) ys = (l0 + l' + HDR, ys')"
    using mr by (auto simp: merge_right_def split: list.splits bool.splits)
  have "coalesce ((l0, True) # (l, True) # ys) = (l0 + l' + HDR, True) # ys'"
    using merge_right_coalesce(1) [OF _ mr0] assms(1) by (simp add: coalesced_split)
  moreover have "coalesced zs" "zs = [] \<or> \<not> snd (last zs)"
    using assms(1) by (auto simp: xs coalesced_split)
  ultimately show ?thesis
    using True by (simp add: xs coalesce_after_used)
qed

lemma combine_forward_eq:
  assumes rep: "heap_rep h (xs @ (l, f) # ys)" and mr: "merge_right l ys = (l', ys')"
  shows "\<exists>h'. hsh_combine_forward (heap_start h + span xs) h = Inr h' \<and>
           heap_rep h' (xs @ (l', f) # ys') \<and> same_frame h h'"
proof (cases "\<exists>l2 zs. ys = (l2, True) # zs")
  case True
  with mr rep combine_forward_merges [of h xs l f] show ?thesis
    by (auto simp: merge_right_def)
next
  case False
  then have "(l', ys') = (l, ys)" "ys = [] \<or> \<not> snd (hd ys)"
    using mr by (auto simp: merge_right_def split: list.splits bool.splits)
  with rep combine_forward_keeps [OF rep] show ?thesis by auto
qed

lemma mark_free_rep:
  assumes "heap_rep h (xs @ (l, f) # ys)"
  shows "\<exists>h'. mod_hdr (heap_start h + span xs) (\<lambda>s. s\<lparr>seg_free := True\<rparr>) h = Inr h' \<and>
           heap_rep h' (xs @ (l, True) # ys) \<and> same_frame h h'"
proof -
  define a where "a = heap_start h + span xs"
  define this where "this = \<lparr>seg_length = l, seg_next = (if ys = [] then 0 else a + HDR + l),
    seg_last = prev_addr 0 (heap_start h) xs, seg_free = True\<rparr>"
  have "mod_hdr a (\<lambda>s. s\<lparr>seg_free := True\<rparr>) h = Inr (put_hdr a this h)"
    using assms by (simp add: heap_rep_split mod_hdr_def get_hdr_Some this_def a_def)
  moreover have "heap_rep (put_hdr a this h) (xs @ (l, True) # ys)"
    using assms by (auto simp: heap_rep_split chain_upd_outside a_def this_def)
  ultimately show ?thesis by (auto simp: same_frame_def a_def)
qed

lemma combine_backward_eq:
  assumes rep: "heap_rep h (xs @ (l, True) # ys)" and start: "0 < heap_start h"
  shows "\<exists>h'. hsh_combine_backward (heap_start h + span xs) h = Inr h' \<and> same_frame h h' \<and>
     heap_rep h' (if xs \<noteq> [] \<and> snd (last xs) then butlast xs @ (fst (last xs) + l + HDR, True) # ys
                  else xs @ (l, True) # ys)"
proof (cases xs rule: rev_cases)
  case Nil
  with rep show ?thesis
    by (auto simp: hsh_combine_backward_def heap_rep_def get_hdr_Some)
next
  case (snoc zs z)
  obtain l0 f0 where z: "z = (l0, f0)" by (cases z)
  define a where "a = heap_start h + span zs"
  have rep0: "heap_rep h (zs @ (l0, f0) # (l, True) # ys)"
    using rep by (simp add: snoc z)
  have link: "get_hdr h (heap_start h + span xs) = Inr t \<Longrightarrow> seg_last t = a" for t
    using rep by (auto simp: heap_rep_split get_hdr_def snoc z a_def prev_addr_def add.assoc)
  obtain t where t: "get_hdr h (heap_start h + span xs) = Inr t"
    using rep by (auto simp: heap_rep_split get_hdr_Some)
  obtain s where s: "get_hdr h a = Inr s" "seg_free s = f0"
    using rep0 by (auto simp: heap_rep_split get_hdr_Some a_def)
  have "hsh_combine_backward (heap_start h + span xs) h =
      (if f0 then hsh_combine_forward a h else Inr h)"
    using t s link [OF t] start by (simp add: hsh_combine_backward_def a_def)
  then show ?thesis
    using combine_forward_merges [of h zs l0 f0 l ys] rep0 rep by (auto simp: snoc z a_def)
qed

lemma canaries_ok_merge:
  "canaries_ok h a (xs @ (l, False) # ys) \<Longrightarrow> merge_right l ys = (l', ys') \<Longrightarrow>
   canaries_ok h a (if xs \<noteq> [] \<and> snd (last xs) then butlast xs @ (fst (last xs) + l' + HDR, True) # ys'
                    else xs @ (l', True) # ys')"
  by (cases xs rule: rev_cases)
    (auto simp: merge_right_def algebra_simps split: list.splits bool.splits)

lemma dvd_merge:
  "\<forall>(l, f)\<in>set (xs @ (l, False) # ys). 16 dvd l \<Longrightarrow> merge_right l ys = (l', ys') \<Longrightarrow>
   \<forall>(l, f)\<in>set (if xs \<noteq> [] \<and> snd (last xs) then butlast xs @ (fst (last xs) + l' + HDR, True) # ys'
                 else xs @ (l', True) # ys'). 16 dvd l"
  by (cases xs rule: rev_cases)
    (auto simp: merge_right_def HDR_def case_prod_unfold split: list.splits bool.splits)

lemma coalesced_merge:
  assumes "coalesced (xs @ (l, False) # ys)" and "merge_right l ys = (l', ys')"
  shows "coalesced (if xs \<noteq> [] \<and> snd (last xs) then butlast xs @ (fst (last xs) + l' + HDR, True) # ys'
                    else xs @ (l', True) # ys')"
  using assms merge_right_coalesce(2,3) [OF _ assms(2)]
  by (cases xs rule: rev_cases) (auto simp: coalesced_split coalesced_Cons)

lemma kfree_refines:
  assumes ok: "heap_ok h (xs @ (l, False) # ys)"
  obtains h' where "kfree (heap_start h + span xs + HDR) h = Some (Inr h')"
    and "heap_ok h' (coalesce (xs @ (l, True) # ys))" and "same_frame h h'"
proof -
  define a where "a = heap_start h + span xs"
  obtain l' ys' where mr: "merge_right l ys = (l', ys')" by (cases "merge_right l ys")
  from ok have rep: "heap_rep h (xs @ (l, False) # ys)" and start: "4096 \<le> heap_start h"
    and can: "canaries_ok h (heap_start h) (xs @ (l, False) # ys)"
    and coal: "coalesced (xs @ (l, False) # ys)"
    and lens: "\<forall>(l, f)\<in>set (xs @ (l, False) # ys). 16 dvd l"
    by (auto simp: heap_ok_def)
  define segs' where "segs' = coalesce (xs @ (l, True) # ys)"
  note segs' = segs'_def [unfolded coalesce_around [OF coal mr]]
  obtain h1 where h1: "mod_hdr a (\<lambda>s. s\<lparr>seg_free := True\<rparr>) h = Inr h1"
      "heap_rep h1 (xs @ (l, True) # ys)" "same_frame h h1"
    using mark_free_rep [OF rep] by (auto simp: a_def)
  obtain h2 where h2: "hsh_combine_forward a h1 = Inr h2" "heap_rep h2 (xs @ (l', True) # ys')" "same_frame h1 h2"
    using combine_forward_eq [OF h1(2) mr] h1(3) by (auto simp: a_def same_frame_def)
  obtain h3 where h3: "hsh_combine_backward a h2 = Inr h3" "heap_rep h3 segs'" "same_frame h2 h3"
    using combine_backward_eq [OF h2(2)] h1(3) h2(3) start
    unfolding segs' by (auto simp: a_def same_frame_def)
  have a: "sub32 (a + HDR) HDR = a" "a + HDR \<noteq> 0"
    using rep by (simp_all add: a_def heap_rep_split HDR_def)
  have "kfree (a + HDR) h = Some (Inr h3)"
    using check_heap_canaries_eq [OF rep] can h1(1) h2(1) h3(1) a
    by (simp add: kfree_def)
  moreover have "same_frame h h3" using h1(3) h2(3) h3(3) by (auto simp: same_frame_def)
  moreover note canaries_ok_merge [OF can mr, folded segs'] dvd_merge [OF lens mr, folded segs']
    coalesced_merge [OF coal mr, folded segs']
  with h3(2) \<open>same_frame h h3\<close> start have "heap_ok h3 segs'"
    by (auto simp: heap_ok_def same_frame_def canaries_ok_same_bytes [of h3 h])
  ultimately show thesis using that by (simp add: a_def segs'_def)
qed

section \<open>The contract of an allocator of byte blocks\<close>

text \<open>
  What a client does with an allocator, seen through the blocks \<open>B\<close> it holds (address and
  requested size): it asks for a block, returns one it holds, or writes a byte inside one.
\<close>

inductive alloc_client ::
  "(nat \<Rightarrow> 'h \<Rightarrow> (nat \<times> 'h) kloop) \<Rightarrow> (nat \<Rightarrow> 'h \<Rightarrow> 'h kloop) \<Rightarrow> (nat \<Rightarrow> u8 \<Rightarrow> 'h \<Rightarrow> 'h) \<Rightarrow> nat \<Rightarrow>
   'h \<Rightarrow> (nat \<times> nat) set \<Rightarrow> 'h \<Rightarrow> (nat \<times> nat) set \<Rightarrow> bool"
  for alloc release poke limit where
  client_alloc: "0 < n \<Longrightarrow> n \<le> limit \<Longrightarrow> alloc n h = Some (Inr (p, h')) \<Longrightarrow>
    alloc_client alloc release poke limit h B h' (insert (p, n) B)"
| client_release: "(p, n) \<in> B \<Longrightarrow> release p h = Some (Inr h') \<Longrightarrow>
    alloc_client alloc release poke limit h B h' (B - {(p, n)})"
| client_write: "(p, n) \<in> B \<Longrightarrow> i < n \<Longrightarrow>
    alloc_client alloc release poke limit h B (poke (p + i) v h) B"

inductive alloc_clients ::
  "(nat \<Rightarrow> 'h \<Rightarrow> (nat \<times> 'h) kloop) \<Rightarrow> (nat \<Rightarrow> 'h \<Rightarrow> 'h kloop) \<Rightarrow> (nat \<Rightarrow> u8 \<Rightarrow> 'h \<Rightarrow> 'h) \<Rightarrow> nat \<Rightarrow>
   'h \<Rightarrow> 'h \<Rightarrow> (nat \<times> nat) set \<Rightarrow> bool"
  for alloc release poke limit h0 where
  clients_start: "alloc_clients alloc release poke limit h0 h0 {}"
| clients_step: "alloc_clients alloc release poke limit h0 h B \<Longrightarrow>
    alloc_client alloc release poke limit h B h' B' \<Longrightarrow>
    alloc_clients alloc release poke limit h0 h' B'"

definition block_disjoint :: "nat \<times> nat \<Rightarrow> nat \<times> nat \<Rightarrow> bool" where
  "block_disjoint x y \<longleftrightarrow> fst x + snd x \<le> fst y \<or> fst y + snd y \<le> fst x"

definition pairwise_disjoint :: "(nat \<times> nat) set \<Rightarrow> bool" where
  "pairwise_disjoint B \<longleftrightarrow> (\<forall>x\<in>B. \<forall>y\<in>B. x \<noteq> y \<longrightarrow> block_disjoint x y)"

locale byte_allocator =
  fixes blocks :: "'h \<Rightarrow> (nat \<times> nat) set \<Rightarrow> bool"
    and alloc :: "nat \<Rightarrow> 'h \<Rightarrow> (nat \<times> 'h) kloop"
    and release :: "nat \<Rightarrow> 'h \<Rightarrow> 'h kloop"
    and content :: "'h \<Rightarrow> nat \<Rightarrow> u8"
    and poke :: "nat \<Rightarrow> u8 \<Rightarrow> 'h \<Rightarrow> 'h"
    and limit :: nat
    and full :: kfault
  assumes blocks_disjoint: "blocks h A \<Longrightarrow> pairwise_disjoint A"
    and alloc_law: "blocks h A \<Longrightarrow> 0 < n \<Longrightarrow> n \<le> limit \<Longrightarrow>
      alloc n h = Some (Inl full) \<or>
      (\<exists>p m h'. alloc n h = Some (Inr (p, h')) \<and> (p, m) \<notin> A \<and> n \<le> m \<and> 0 < p \<and>
         blocks h' (insert (p, m) A) \<and> (\<forall>(q, k)\<in>A. \<forall>i<k. content h' (q + i) = content h (q + i)))"
    and release_law: "blocks h A \<Longrightarrow> (p, m) \<in> A \<Longrightarrow>
      \<exists>h'. release p h = Some (Inr h') \<and> blocks h' (A - {(p, m)}) \<and> content h' = content h"
    and poke_law: "blocks h A \<Longrightarrow> (p, m) \<in> A \<Longrightarrow> i < m \<Longrightarrow>
      blocks (poke (p + i) v h) A \<and> content (poke (p + i) v h) = (content h)(p + i := v)"
begin

text \<open>The allocator's blocks \<open>A\<close> cover the blocks \<open>B\<close> the client holds.\<close>

definition covers :: "(nat \<times> nat) set \<Rightarrow> (nat \<times> nat) set \<Rightarrow> bool" where
  "covers A B \<longleftrightarrow> (\<forall>(p, n)\<in>B. 0 < n \<and> (\<exists>m. (p, m) \<in> A \<and> n \<le> m)) \<and> inj_on fst B"

lemma covers_obtain:
  assumes "covers A B" and "(p, n) \<in> B"
  obtains m where "(p, m) \<in> A" and "n \<le> m" and "0 < n"
  using assms unfolding covers_def by blast

lemma covers_disjoint:
  assumes "blocks h A" and "covers A B"
  shows "pairwise_disjoint B"
  unfolding pairwise_disjoint_def
proof (intro ballI impI)
  fix x y assume xy: "x \<in> B" "y \<in> B" "x \<noteq> y"
  obtain m where "(fst x, m) \<in> A" "snd x \<le> m"
    using covers_obtain [OF assms(2), of "fst x" "snd x"] xy by auto
  moreover obtain k where "(fst y, k) \<in> A" "snd y \<le> k"
    using covers_obtain [OF assms(2), of "fst y" "snd y"] xy by auto
  moreover have "fst x \<noteq> fst y" using assms(2) xy by (auto simp: covers_def inj_on_def)
  ultimately have "block_disjoint (fst x, m) (fst y, k)"
    using blocks_disjoint [OF assms(1)] by (simp add: pairwise_disjoint_def)
  with \<open>snd x \<le> m\<close> \<open>snd y \<le> k\<close> show "block_disjoint x y"
    by (auto simp: block_disjoint_def)
qed

lemma same_address:
  assumes "blocks h A" and "(p, m) \<in> A" and "(p, k) \<in> A" and "0 < m" and "0 < k"
  shows "m = k"
proof (rule ccontr)
  assume "m \<noteq> k"
  then have "block_disjoint (p, m) (p, k)"
    using blocks_disjoint [OF assms(1)] assms(2,3) by (simp add: pairwise_disjoint_def)
  with assms show False by (simp add: block_disjoint_def)
qed

lemma client_step:
  assumes "alloc_client alloc release poke limit h B h' B'" and "blocks h A" and "covers A B"
  obtains A' where "blocks h' A'" and "covers A' B'"
    and "\<And>q k i. (q, k) \<in> B \<inter> B' \<Longrightarrow> i < k \<Longrightarrow> (\<forall>v. h' \<noteq> poke (q + i) v h) \<Longrightarrow> content h' (q + i) = content h (q + i)"
  using assms(1)
proof cases
  case (client_alloc n p)
  then obtain m where m: "(p, m) \<notin> A" "n \<le> m" "blocks h' (insert (p, m) A)"
    and keep: "\<forall>(q, k)\<in>A. \<forall>i<k. content h' (q + i) = content h (q + i)"
    using alloc_law [OF assms(2), of n] by force
  have "(p, k) \<notin> A" if "0 < k" for k
    using same_address [OF m(3), of p m k] m client_alloc that by force
  then have "p \<notin> fst ` B" using assms(3) by (fastforce simp: covers_def)
  then have "covers (insert (p, m) A) B'"
    using assms(3) m client_alloc by (fastforce simp: covers_def inj_on_def image_iff)
  moreover have "content h' (q + i) = content h (q + i)" if "(q, k) \<in> B \<inter> B'" "i < k" for q k i
    using that assms(3) keep by (fastforce simp: covers_def)
  ultimately show ?thesis using m(3) that by blast
next
  case (client_release p n)
  obtain m where m: "(p, m) \<in> A" "n \<le> m" "0 < n"
    using covers_obtain [OF assms(3) client_release(2)] .
  have rel: "blocks h' (A - {(p, m)})" "content h' = content h"
    using release_law [OF assms(2) m(1)] client_release(3) by auto
  have "covers (A - {(p, m)}) B'"
    unfolding covers_def
  proof (intro conjI)
    show "inj_on fst B'"
      using assms(3) unfolding client_release(1) covers_def by (blast intro: inj_on_diff)
    show "\<forall>(q, k)\<in>B'. 0 < k \<and> (\<exists>m'. (q, m') \<in> A - {(p, m)} \<and> k \<le> m')"
    proof clarify
      fix q k assume qk: "(q, k) \<in> B'"
      then have "(q, k) \<in> B" "q \<noteq> p"
        using assms(3) client_release(1,2) inj_onD [of fst B "(q, k)" "(p, n)"]
        by (auto simp: covers_def)
      then show "0 < k \<and> (\<exists>m'. (q, m') \<in> A - {(p, m)} \<and> k \<le> m')"
        using covers_obtain [OF assms(3), of q k] by blast
    qed
  qed
  with rel that show ?thesis by simp
next
  case (client_write p n i v)
  obtain m where m: "(p, m) \<in> A" "n \<le> m"
    using covers_obtain [OF assms(3) client_write(3)] .
  then have "blocks h' A" "content h' = (content h)(p + i := v)"
    using poke_law [OF assms(2) m(1), of i v] client_write by auto
  moreover have "content h' (q + j) = content h (q + j)" if "\<forall>v. h' \<noteq> poke (q + j) v h" for q j
  proof -
    have "q + j \<noteq> p + i" using that client_write by auto
    with calculation show ?thesis by simp
  qed
  ultimately show ?thesis using that assms(3) client_write by blast
qed

lemma clients_covered:
  assumes "alloc_clients alloc release poke limit h0 h B" and "blocks h0 {}"
  obtains A where "blocks h A" and "covers A B"
  using assms
proof (induction arbitrary: thesis)
  case clients_start
  then show ?case by (force simp: covers_def)
next
  case (clients_step h B h' B')
  then obtain A where "blocks h A" "covers A B" by blast
  with clients_step show ?case by (metis client_step)
qed

text \<open>
  Whatever a client does, its blocks never overlap, and no call it may make next fails but
  for a request that finds no room.
\<close>

theorem clients_safe:
  assumes "alloc_clients alloc release poke limit h0 h B" and "blocks h0 {}"
  shows "pairwise_disjoint B"
    and "(p, n) \<in> B \<Longrightarrow> \<exists>h'. release p h = Some (Inr h')"
    and "0 < n \<Longrightarrow> n \<le> limit \<Longrightarrow> alloc n h = Some (Inl full) \<or> (\<exists>p h'. alloc n h = Some (Inr (p, h')))"
proof -
  obtain A where A: "blocks h A" "covers A B" using clients_covered [OF assms] .
  show "pairwise_disjoint B" by (rule covers_disjoint [OF A])
  show "\<exists>h'. release p h = Some (Inr h')" if "(p, n) \<in> B"
    using that A release_law [OF A(1)] by (fastforce simp: covers_def)
  show "alloc n h = Some (Inl full) \<or> (\<exists>p h'. alloc n h = Some (Inr (p, h')))" if "0 < n" "n \<le> limit"
    using alloc_law [OF A(1) that] by blast
qed

text \<open>One more call leaves the contents of every other block of the client alone.\<close>

theorem clients_isolated:
  assumes "alloc_clients alloc release poke limit h0 h B" and "blocks h0 {}"
    and "alloc_client alloc release poke limit h B h' B'"
    and "(q, k) \<in> B \<inter> B'" and "i < k" and "\<forall>v. h' \<noteq> poke (q + i) v h"
  shows "content h' (q + i) = content h (q + i)"
  using clients_covered [OF assms(1,2)] client_step [OF assms(3)] assms(4-6) by metis

end

section \<open>The kernel heap keeps the contract\<close>

text \<open>The blocks in use: their addresses and the bytes below the canary.\<close>

fun used_blocks :: "nat \<Rightarrow> aseg list \<Rightarrow> (nat \<times> nat) set" where
  "used_blocks a [] = {}"
| "used_blocks a ((l, f) # r) =
     (if f then {} else {(a + HDR, l - CANARY_SIZE)}) \<union> used_blocks (a + HDR + l) r"

definition heap_blocks :: "heap \<Rightarrow> (nat \<times> nat) set \<Rightarrow> bool" where
  "heap_blocks h A \<longleftrightarrow> (\<exists>segs. heap_ok h segs \<and> A = used_blocks (heap_start h) segs)"

definition heap_write :: "nat \<Rightarrow> u8 \<Rightarrow> heap \<Rightarrow> heap" where
  "heap_write a v h = h\<lparr>bytes := (bytes h)(a := v)\<rparr>"

lemma used_blocks_append [simp]:
  "used_blocks a (xs @ ys) = used_blocks a xs \<union> used_blocks (a + span xs) ys"
  by (induction xs arbitrary: a rule: span.induct) (auto simp: add.assoc)

lemma used_blocks_bounds:
  "(p, m) \<in> used_blocks a segs \<Longrightarrow> a + HDR \<le> p \<and> p + m \<le> a + span segs"
  by (induction segs arbitrary: a rule: span.induct) (fastforce split: if_splits)+

lemma used_blocksE:
  assumes "(p, m) \<in> used_blocks a segs"
  obtains xs l ys where "segs = xs @ (l, False) # ys" and "p = a + span xs + HDR" and "m = l - CANARY_SIZE"
  using assms
proof (induction segs arbitrary: a thesis rule: span.induct)
  case (2 l f r)
  show ?case
  proof (cases "(p, m) \<in> used_blocks (a + HDR + l) r")
    case True
    then obtain xs l' ys where "r = xs @ (l', False) # ys" "p = a + HDR + l + span xs + HDR" "m = l' - CANARY_SIZE"
      using "2.IH" by blast
    then show ?thesis using "2.prems"(1) [of "(l, f) # xs" l' ys] by simp
  next
    case False
    then have "\<not> f" "p = a + HDR" "m = l - CANARY_SIZE"
      using "2.prems"(2) by (auto split: if_splits)
    then show ?thesis using "2.prems"(1) [of "[]" l r] by simp
  qed
qed simp

lemma used_blocks_disjoint: "pairwise_disjoint (used_blocks a segs)"
proof (induction segs arbitrary: a rule: span.induct)
  case (2 l f r)
  have "block_disjoint (a + HDR, l - CANARY_SIZE) x \<and> block_disjoint x (a + HDR, l - CANARY_SIZE)"
    if "x \<in> used_blocks (a + HDR + l) r" for x
    using used_blocks_bounds [of "fst x" "snd x"] that by (fastforce simp: block_disjoint_def)
  with "2.IH" [of "a + HDR + l"] show ?case
    by (auto simp: pairwise_disjoint_def)
qed (simp add: pairwise_disjoint_def)

text \<open>An allocated block is apart from the segments before and behind it.\<close>

lemma used_blocks_fresh:
  assumes "\<forall>(l, f)\<in>set (xs @ ys). 16 \<le> l" and "16 \<le> l"
    and "x \<in> used_blocks a xs \<union> used_blocks (a + span xs + HDR + l) ys"
  shows "fst x + snd x \<le> a + span xs \<or> a + span xs + HDR + l \<le> fst x"
  using assms(3) used_blocks_bounds [of "fst x" "snd x" a xs]
    used_blocks_bounds [of "fst x" "snd x" "a + span xs + HDR + l" ys] by auto

lemma used_blocks_coalesce: "used_blocks a (coalesce segs) = used_blocks a segs"
proof (induction segs arbitrary: a rule: coalesce_cases)
  case (merge l l2 r)
  have "a + HDR + (l + l2 + HDR) = a + HDR + l + HDR + l2" by simp
  then have "used_blocks (a + HDR + (l + l2 + HDR)) r = used_blocks (a + HDR + l + HDR + l2) r"
    by (rule arg_cong)
  with merge show ?case by simp
next
  case (keep x l r)
  have "coalesce (x # (l, False) # r) = x # coalesce ((l, False) # r)" by simp
  with keep show ?case by (cases x) (simp del: coalesce.simps)
qed simp_all

lemma heap_blocks_alloc:
  assumes "heap_blocks h A" and n: "0 < n" "n \<le> 4294967276"
  shows "kmalloc n h = Some (Inl (Abort ''kernel heap full'')) \<or>
    (\<exists>p m h'. kmalloc n h = Some (Inr (p, h')) \<and> (p, m) \<notin> A \<and> n \<le> m \<and> 0 < p \<and>
       heap_blocks h' (insert (p, m) A) \<and> (\<forall>(q, k)\<in>A. \<forall>i<k. bytes h' (q + i) = bytes h (q + i)))"
proof -
  from assms obtain segs where ok: "heap_ok h segs" and A: "A = used_blocks (heap_start h) segs"
    by (auto simp: heap_blocks_def)
  then have rep: "heap_rep h segs" and can: "canaries_ok h (heap_start h) segs"
    by (auto simp: heap_ok_def)
  show ?thesis
  proof (cases "a_malloc (kmalloc_size n) segs")
    case None
    then have "kmalloc_find h (kmalloc_size n) (heap_start h) = Some (Inr None)"
      using kmalloc_find_chain [of h 0 "heap_start h" segs] rep by (auto simp: heap_rep_def)
    then show ?thesis
      using n check_heap_canaries_eq [OF rep] can by (simp add: kmalloc_def)
  next
    case (Some r)
    obtain off segs' where m: "a_malloc (kmalloc_size n) segs = Some (off, segs')"
      using Some by (cases r) auto
    obtain h' xs l0 zs l ys where k: "kmalloc n h = Some (Inr (heap_start h + off + HDR, h'))"
      and ok': "heap_ok h' segs'" and st: "heap_start h' = heap_start h" and off: "off = span xs"
      and segs: "segs = xs @ (l0, True) # zs" and segs': "segs' = xs @ (l, False) # ys"
      and le: "kmalloc_size n \<le> l"
      and ys: "l = l0 \<and> ys = zs \<or> l + HDR + 16 \<le> l0 \<and> ys = (l0 - l - HDR, True) # zs"
      and diff: "\<forall>b. bytes h' b \<noteq> bytes h b \<longrightarrow>
           heap_start h + off + HDR + l - CANARY_SIZE \<le> b \<and> b < heap_start h + off + HDR + l"
      using kmalloc_refines [OF ok n(1) m] .
    have l: "n + CANARY_SIZE \<le> l" "l \<le> l0"
      using kmalloc_size_room [OF n(2)] le ys by auto
    have new: "used_blocks (heap_start h) segs' = insert (heap_start h + off + HDR, l - CANARY_SIZE) A"
      using ys by (auto simp: A segs segs' off add.assoc)
    have apart: "q + k \<le> heap_start h + off \<or> heap_start h + off + HDR + l \<le> q" if "(q, k) \<in> A" for q k
      using that l used_blocks_bounds [of q k "heap_start h" xs]
        used_blocks_bounds [of q k "heap_start h + off + HDR + l0" zs]
      by (auto simp: A segs off add.assoc)
    have "(heap_start h + off + HDR, l - CANARY_SIZE) \<notin> A"
      using apart l n by (fastforce simp: CANARY_SIZE_def)
    moreover have "\<forall>(q, k)\<in>A. \<forall>i<k. bytes h' (q + i) = bytes h (q + i)"
      using apart diff l n by (fastforce simp: CANARY_SIZE_def)
    ultimately show ?thesis
      using k ok' st new l by (intro disjI2 exI conjI) (auto simp: heap_blocks_def)
  qed
qed

lemma heap_blocks_release:
  assumes "heap_blocks h A" and "(p, m) \<in> A"
  shows "\<exists>h'. kfree p h = Some (Inr h') \<and> heap_blocks h' (A - {(p, m)}) \<and> bytes h' = bytes h"
proof -
  from assms obtain segs where ok: "heap_ok h segs" and A: "A = used_blocks (heap_start h) segs"
    by (auto simp: heap_blocks_def)
  with assms(2) obtain xs l ys where segs: "segs = xs @ (l, False) # ys"
    and p: "p = heap_start h + span xs + HDR" and m: "m = l - CANARY_SIZE"
    by (blast elim: used_blocksE)
  obtain h' where free: "kfree p h = Some (Inr h')" and ok': "heap_ok h' (coalesce (xs @ (l, True) # ys))"
    and frame: "same_frame h h'"
    using kfree_refines [OF ok [unfolded segs]] unfolding p .
  have "(p, m) \<notin> used_blocks (heap_start h) xs \<union> used_blocks (heap_start h + span xs + HDR + l) ys"
    using used_blocks_bounds [of p m "heap_start h" xs]
      used_blocks_bounds [of p m "heap_start h + span xs + HDR + l" ys] heap_rep_lengths [of h segs] ok
    by (auto simp: p segs heap_ok_def)
  then have "A - {(p, m)} = used_blocks (heap_start h) (xs @ (l, True) # ys)"
    by (auto simp: A segs p m)
  with free ok' frame show ?thesis
    by (auto simp: heap_blocks_def same_frame_def used_blocks_coalesce)
qed

lemma heap_ok_write:
  assumes ok: "heap_ok h segs" and "(p, m) \<in> used_blocks (heap_start h) segs"
    and bytes': "\<And>b. bytes h' b \<noteq> bytes h b \<Longrightarrow> p \<le> b \<and> b < p + m"
    and same: "hdrs h' = hdrs h" "heap_start h' = heap_start h" "heap_end h' = heap_end h" "last_hdr h' = last_hdr h"
  shows "heap_ok h' segs"
proof -
  from assms(2) obtain xs l ys where segs: "segs = xs @ (l, False) # ys"
    and p: "p = heap_start h + span xs + HDR" and m: "m = l - CANARY_SIZE"
    by (blast elim: used_blocksE)
  have lens: "\<forall>(l, f)\<in>set segs. 16 \<le> l" using ok by (intro heap_rep_lengths [of h]) (simp add: heap_ok_def)
  have "canaries_ok h' (heap_start h) xs = canaries_ok h (heap_start h) xs"
    by (rule canaries_ok_cong) (use bytes' p lens segs in force)+
  moreover have "canaries_ok h' (heap_start h + span xs + HDR + l) ys =
      canaries_ok h (heap_start h + span xs + HDR + l) ys"
    by (rule canaries_ok_cong) (use bytes' p m lens segs in force)+
  moreover have "load32 h' (heap_start h + span xs + HDR + l - CANARY_SIZE) =
      load32 h (heap_start h + span xs + HDR + l - CANARY_SIZE)"
    by (rule load32_cong) (use bytes' p m lens segs in \<open>force simp: CANARY_SIZE_def\<close>)
  ultimately show ?thesis
    using ok same by (auto simp: heap_ok_def heap_rep_def segs)
qed

lemma heap_blocks_write:
  assumes "heap_blocks h A" and "(p, m) \<in> A" and "\<And>b. bytes h' b \<noteq> bytes h b \<Longrightarrow> p \<le> b \<and> b < p + m"
    and "hdrs h' = hdrs h" "heap_start h' = heap_start h" "heap_end h' = heap_end h" "last_hdr h' = last_hdr h"
  shows "heap_blocks h' A"
  using assms(1,2) heap_ok_write [OF _ _ assms(3-)] assms(5) by (auto simp: heap_blocks_def)

interpretation kheap: byte_allocator heap_blocks kmalloc kfree bytes heap_write 4294967276
  "Abort ''kernel heap full''"
proof (unfold_locales, goal_cases)
  case (1 h A)
  then show ?case by (auto simp: heap_blocks_def used_blocks_disjoint)
next
  case (2 h A n)
  then show ?case by (rule heap_blocks_alloc)
next
  case (3 h A p m)
  then show ?case by (rule heap_blocks_release)
next
  case (4 h A p m i v)
  have "b = p + i" if "bytes (heap_write (p + i) v h) b \<noteq> bytes h b" for b
    using that by (simp add: heap_write_def split: if_splits)
  with 4 have "heap_blocks (heap_write (p + i) v h) A"
    by (intro heap_blocks_write [OF 4(1,2)]) (force, simp_all add: heap_write_def)
  then show ?case by (simp add: heap_write_def)
qed

section \<open>Initialisation, canaries and the user-visible guarantees\<close>

lemma initialize_heap_ok:
  assumes "0 < page_count" and "4096 \<le> start" and "start + page_count * 4096 < 4294967296"
  shows "heap_ok (initialize_heap page_count start mem) [(page_count * 4096 - HDR, True)]"
proof -
  obtain k where "page_count = Suc k" using assms(1) by (cases page_count) auto
  then have "sub32 (page_count * 4096) HDR = page_count * 4096 - HDR" "16 \<le> page_count * 4096 - HDR"
    "16 dvd page_count * 4096 - HDR" "HDR \<le> page_count * 4096"
    using assms by (simp_all add: HDR_def)
  with assms show ?thesis
    by (simp add: heap_ok_def heap_rep_def initialize_heap_def coalesced_def Let_def)
qed

lemma initialize_heap_blocks:
  "0 < page_count \<Longrightarrow> 4096 \<le> start \<Longrightarrow> start + page_count * 4096 < 4294967296 \<Longrightarrow>
   heap_blocks (initialize_heap page_count start mem) {}"
  using initialize_heap_ok [of page_count start mem] unfolding heap_blocks_def by force

text \<open>
  C3. \<open>kmalloc\<close> is first fit on the list of segments. On a well-formed heap a request for \<open>n > 0\<close>
  bytes panics exactly when no free segment is long enough; otherwise it returns the payload of
  the first such segment, split when the rest can hold another segment, and the heap stays
  well formed.
\<close>

theorem kmalloc_first_fit:
  assumes "heap_ok h segs" and "0 < n"
  shows "case a_malloc (kmalloc_size n) segs of
           None \<Rightarrow> kmalloc n h = Some (Inl (Abort ''kernel heap full''))
         | Some (off, segs') \<Rightarrow> \<exists>h'. kmalloc n h = Some (Inr (heap_start h + off + HDR, h')) \<and> heap_ok h' segs'"
proof (cases "a_malloc (kmalloc_size n) segs")
  case None
  have "kmalloc_find h (kmalloc_size n) (heap_start h) = Some (Inr None)"
    using kmalloc_find_chain [of h 0 "heap_start h" segs] assms(1) None by (auto simp: heap_ok_def heap_rep_def)
  with None show ?thesis
    using assms check_heap_canaries_eq [of h segs] by (simp add: kmalloc_def heap_ok_def)
next
  case (Some r)
  then show ?thesis
    using assms by (cases r) (auto elim: kmalloc_refines [of h segs n])
qed

lemma kmalloc_first_fit_witness:
  "\<exists>h'. kmalloc 100 (initialize_heap 16 1048576 (\<lambda>_. 0)) = Some (Inr (1048592, h')) \<and>
        heap_ok h' [(112, False), (65392, True)]"
proof -
  have "heap_ok (initialize_heap 16 1048576 (\<lambda>_. 0)) [(65520, True)]"
    using initialize_heap_ok [of 16 1048576 "\<lambda>_. 0"] by (simp add: HDR_def)
  from kmalloc_first_fit [OF this, of 100] show ?thesis
    by (simp add: kmalloc_size_def CANARY_SIZE_def HDR_def initialize_heap_def)
qed

text \<open>
  C4. \<open>kfree\<close> of a block in use returns, marks the block free and merges it with free
  neighbours, so that no two free segments are adjacent; nothing else changes.
\<close>

theorem kfree_coalesces:
  assumes "heap_ok h (xs @ (l, False) # ys)"
  shows "\<exists>h'. kfree (heap_start h + span xs + HDR) h = Some (Inr h') \<and>
           heap_ok h' (coalesce (xs @ (l, True) # ys)) \<and> bytes h' = bytes h"
  using kfree_refines [OF assms] by (auto simp: same_frame_def)

lemma kfree_coalesces_witness:
  "\<exists>h h'. heap_ok h [(112, False), (65392, True)] \<and>
     kfree (heap_start h + HDR) h = Some (Inr h') \<and> heap_ok h' [(65520, True)]"
proof -
  have "heap_ok (initialize_heap 16 1048576 (\<lambda>_. 0)) [(65520, True)]"
    using initialize_heap_ok [of 16 1048576 "\<lambda>_. 0"] by (simp add: HDR_def)
  then obtain h where h: "heap_ok h [(112, False), (65392, True)]"
    by (rule kmalloc_refines [of _ _ 100 0 "[(112, False), (65392, True)]"])
      (simp_all add: kmalloc_size_def CANARY_SIZE_def HDR_def)
  with kfree_coalesces [of h "[]" 112 "[(65392, True)]"] show ?thesis
    by (auto simp: HDR_def)
qed

text \<open>
  The canaries catch every overrun of a block: on a heap whose list is intact but where
  the canary word of some block in use has been overwritten, the next \<open>kmalloc\<close> of a positive
  size and the next \<open>kfree\<close> of a non-null pointer stop with the canary panic.
\<close>

theorem canary_corruption_detected:
  assumes "heap_rep h segs" and "\<not> canaries_ok h (heap_start h) segs" and "0 < n" and "p \<noteq> 0"
  shows "kmalloc n h = Some (Inl (Abort ''heap canary corrupted'')) \<and>
         kfree p h = Some (Inl (Abort ''heap canary corrupted''))"
  using assms check_heap_canaries_eq [OF assms(1)] by (simp_all add: kmalloc_def kfree_def)

lemma canary_corruption_detected_witness:
  "\<exists>h. kmalloc 8 h = Some (Inl (Abort ''heap canary corrupted'')) \<and>
       kfree 1048592 h = Some (Inl (Abort ''heap canary corrupted''))"
proof -
  define h where "h = \<lparr>hdrs = [1048576 \<mapsto> \<lparr>seg_length = 16, seg_next = 0, seg_last = 0, seg_free = False\<rparr>],
    bytes = (\<lambda>_. 0), heap_start = 1048576, heap_end = 1048608, last_hdr = 1048576\<rparr>"
  have "heap_rep h [(16, False)]" "\<not> canaries_ok h (heap_start h) [(16, False)]"
    by (simp_all add: h_def heap_rep_def HDR_def load32_def HEAP_CANARY_VALUE_def)
  from canary_corruption_detected [OF this, of 8 1048592] show ?thesis by auto
qed

text \<open>
  C1. Safety of the kernel heap for every client. Starting from \<open>initialize_heap\<close>, after any
  sequence of \<open>kmalloc\<close> (sizes up to 0xFFFFFFEC), \<open>kfree\<close> of held blocks and writes inside held
  blocks, the blocks held never overlap, every held block can be freed without a panic, and a
  further request returns or panics with the heap-full message.
\<close>

theorem heap_clients_safe:
  assumes "0 < page_count" and "4096 \<le> start" and "start + page_count * 4096 < 4294967296"
    and run: "alloc_clients kmalloc kfree heap_write 4294967276 (initialize_heap page_count start mem) h B"
  shows "pairwise_disjoint B \<and> (\<forall>(p, n)\<in>B. \<exists>h'. kfree p h = Some (Inr h')) \<and>
    (\<forall>n. 0 < n \<and> n \<le> 4294967276 \<longrightarrow>
       kmalloc n h = Some (Inl (Abort ''kernel heap full'')) \<or> (\<exists>p h'. kmalloc n h = Some (Inr (p, h'))))"
proof -
  note init = initialize_heap_blocks [OF assms(1-3)]
  show ?thesis
    using kheap.clients_safe [OF run init] by blast
qed

lemma heap_clients_safe_witness:
  "\<exists>h p. alloc_clients kmalloc kfree heap_write 4294967276 (initialize_heap 16 1048576 (\<lambda>_. 0)) h {(p, 100)} \<and>
     (\<exists>h'. kfree p h = Some (Inr h'))"
proof -
  define h0 where "h0 = initialize_heap 16 1048576 (\<lambda>_. 0)"
  have "heap_ok h0 [(65520, True)]"
    using initialize_heap_ok [of 16 1048576 "\<lambda>_. 0"] by (simp add: HDR_def h0_def)
  then obtain h where "kmalloc 100 h0 = Some (Inr (heap_start h0 + 0 + HDR, h))"
    by (rule kmalloc_refines [of _ _ 100 0 "[(112, False), (65392, True)]"])
      (simp_all add: kmalloc_size_def CANARY_SIZE_def HDR_def)
  then have "alloc_clients kmalloc kfree heap_write 4294967276 h0 h {(heap_start h0 + 0 + HDR, 100)}"
    by (intro clients_step [OF clients_start client_alloc]) simp_all
  with heap_clients_safe [of 16 1048576 "\<lambda>_. 0" h] show ?thesis
    unfolding h0_def by fastforce
qed

text \<open>
  Isolation of kernel heap blocks. In any such run, one further call, whichever it is, leaves
  every byte of a block that is held before and after it as it was, unless the call is a write
  to that very byte.
\<close>

theorem heap_clients_isolated:
  assumes "0 < page_count" and "4096 \<le> start" and "start + page_count * 4096 < 4294967296"
    and "alloc_clients kmalloc kfree heap_write 4294967276 (initialize_heap page_count start mem) h B"
    and "alloc_client kmalloc kfree heap_write 4294967276 h B h' B'"
    and "(q, k) \<in> B \<inter> B'" and "i < k" and "\<forall>v. h' \<noteq> heap_write (q + i) v h"
  shows "bytes h' (q + i) = bytes h (q + i)"
  using kheap.clients_isolated [OF assms(4) initialize_heap_blocks [OF assms(1-3)] assms(5-8)] .

text \<open>A heap after one allocation, for the concrete instances below.\<close>

lemma heap_after_malloc:
  obtains h where "alloc_clients kmalloc kfree heap_write 4294967276 (initialize_heap 16 1048576 (\<lambda>_. 0)) h
      {(1048592, 100)}"
    and "heap_ok h [(112, False), (65392, True)]" and "heap_start h = 1048576"
proof -
  define h0 where "h0 = initialize_heap 16 1048576 (\<lambda>_. 0)"
  have "heap_ok h0 [(65520, True)]"
    using initialize_heap_ok [of 16 1048576 "\<lambda>_. 0"] by (simp add: HDR_def h0_def)
  then obtain h where h: "kmalloc 100 h0 = Some (Inr (heap_start h0 + 0 + HDR, h))"
      "heap_ok h [(112, False), (65392, True)]" "heap_start h = heap_start h0"
    by (rule kmalloc_refines [of _ _ 100 0 "[(112, False), (65392, True)]"])
      (simp_all add: kmalloc_size_def CANARY_SIZE_def HDR_def)
  moreover have "heap_start h0 = 1048576" by (simp add: h0_def initialize_heap_def)
  moreover from h(1) have "alloc_clients kmalloc kfree heap_write 4294967276 h0 h {(heap_start h0 + 0 + HDR, 100)}"
    by (intro clients_step [OF clients_start client_alloc]) simp_all
  ultimately show thesis
    using that [of h] by (simp add: h0_def HDR_def)
qed

lemma heap_clients_isolated_witness:
  "\<exists>h v. bytes (heap_write 1048593 v h) (1048592 + 5) = bytes h (1048592 + 5) \<and>
       heap_ok h [(112, False), (65392, True)] \<and> heap_write 1048593 v h \<noteq> h"
proof -
  obtain h where run: "alloc_clients kmalloc kfree heap_write 4294967276 (initialize_heap 16 1048576 (\<lambda>_. 0)) h
      {(1048592, 100)}" and ok: "heap_ok h [(112, False), (65392, True)]"
    by (rule heap_after_malloc)
  define v where "v = bytes h 1048593 + 1"
  have step: "alloc_client kmalloc kfree heap_write 4294967276 h {(1048592, 100)}
      (heap_write (1048592 + 1) v h) {(1048592, 100)}"
    by (rule client_write [of _ 100]) simp_all
  have "bytes (heap_write 1048593 v h) 1048593 \<noteq> bytes (heap_write 1048597 w h) 1048593" for w
    by (simp add: heap_write_def v_def)
  then have "\<forall>w. heap_write 1048593 v h \<noteq> heap_write (1048592 + 5) w h" by force
  then have "bytes (heap_write 1048593 v h) (1048592 + 5) = bytes h (1048592 + 5)"
    using heap_clients_isolated [OF _ _ _ run step, of 1048592 100 5] by simp
  moreover have "bytes (heap_write 1048593 v h) 1048593 \<noteq> bytes h 1048593"
    by (simp add: heap_write_def v_def)
  then have "heap_write 1048593 v h \<noteq> h" by force
  ultimately show ?thesis using ok by blast
qed

text \<open>The header in front of a block in use.\<close>

lemma heap_blocks_header:
  assumes "heap_blocks h A" and "(p, m) \<in> A"
  obtains s where "get_hdr h (sub32 p HDR) = Inr s" and "seg_length s = m + CANARY_SIZE"
    and "16 dvd m + CANARY_SIZE" and "0 < p" and "m + CANARY_SIZE < 4294967296"
proof -
  from assms obtain segs where ok: "heap_ok h segs" and A: "A = used_blocks (heap_start h) segs"
    by (auto simp: heap_blocks_def)
  with assms(2) obtain xs l ys where segs: "segs = xs @ (l, False) # ys"
    and p: "p = heap_start h + span xs + HDR" and m: "m = l - CANARY_SIZE"
    by (blast elim: used_blocksE)
  have "sub32 p HDR = heap_start h + span xs" "16 \<le> l" "16 dvd l" "l < 4294967296"
    using ok by (auto simp: p heap_ok_def segs heap_rep_split HDR_def)
  with ok that show thesis
    by (auto simp: heap_ok_def segs heap_rep_split get_hdr_Some m p CANARY_SIZE_def)
qed

lemma memcpy_bytes_sel [simp]:
  "hdrs (memcpy_bytes d s n h) = hdrs h" "heap_start (memcpy_bytes d s n h) = heap_start h"
  "heap_end (memcpy_bytes d s n h) = heap_end h" "last_hdr (memcpy_bytes d s n h) = last_hdr h"
  "bytes (memcpy_bytes d s n h) b = (if d \<le> b \<and> b < d + n then bytes h (s + (b - d)) else bytes h b)"
  by (simp_all add: memcpy_bytes_def)

text \<open>
  C5. \<open>krealloc\<close> keeps the data. Growing or shrinking a block in use to a size between 1 and
  0xFFFFFFEC either panics because the heap is full or returns a block of at least the new size
  that starts with the old block's bytes (as many as fit), and every other block stays as it is.
\<close>

theorem krealloc_keeps_data:
  assumes blocks: "heap_blocks h A" and live: "(p, m) \<in> A" and n: "0 < n" "n \<le> 4294967276"
  shows "krealloc p n h = Some (Inl (Abort ''kernel heap full'')) \<or>
    (\<exists>q k h'. krealloc p n h = Some (Inr (q, h')) \<and> n \<le> k \<and>
       heap_blocks h' (insert (q, k) (A - {(p, m)})) \<and> (\<forall>i < min m n. bytes h' (q + i) = bytes h (p + i)) \<and>
       (\<forall>(r, j)\<in>A - {(p, m)}. \<forall>i<j. bytes h' (r + i) = bytes h (r + i)))"
proof -
  obtain s where s: "get_hdr h (sub32 p HDR) = Inr s" "seg_length s = m + CANARY_SIZE" and p: "0 < p"
    and m16: "16 dvd m + CANARY_SIZE"
    using heap_blocks_header [OF blocks live] .
  have n32: "wrap32 (n + CANARY_SIZE) = n + CANARY_SIZE" using n by (simp add: CANARY_SIZE_def)
  consider (fits) "n \<le> m" | (full) "m < n" "kmalloc n h = Some (Inl (Abort ''kernel heap full''))"
    | (moves) q k h1 where "m < n" "kmalloc n h = Some (Inr (q, h1))" "(q, k) \<notin> A" "n \<le> k" "0 < q"
        "heap_blocks h1 (insert (q, k) A)" "\<forall>(r, j)\<in>A. \<forall>i<j. bytes h1 (r + i) = bytes h (r + i)"
    using heap_blocks_alloc [OF blocks n] by force
  then show ?thesis
  proof cases
    case fits
    then have "krealloc p n h = Some (Inr (p, h))"
      using s p n n32 by (simp add: krealloc_def Let_def)
    moreover have "insert (p, m) (A - {(p, m)}) = A" using live by blast
    ultimately show ?thesis using fits blocks by (intro disjI2 exI [of _ p] exI [of _ m] exI [of _ h]) auto
  next
    case full
    then show ?thesis using s p n n32 by (simp add: krealloc_def Let_def)
  next
    case moves
    obtain s1 where s1: "get_hdr h1 (sub32 p HDR) = Inr s1" "seg_length s1 = m + CANARY_SIZE"
      using heap_blocks_header [OF moves(6), of p m] live by auto
    have "16 dvd k + CANARY_SIZE" using heap_blocks_header [OF moves(6), of q k] by auto
    with m16 moves(1,4) have room: "m + CANARY_SIZE \<le> k" unfolding CANARY_SIZE_def by presburger
    define h2 where "h2 = memcpy_bytes q p (m + CANARY_SIZE) h1"
    have apart: "r + j \<le> q \<or> q + k \<le> r" if "(r, j) \<in> A" for r j
      using kheap.blocks_disjoint [OF moves(6)] that moves(3)
      by (fastforce simp: pairwise_disjoint_def block_disjoint_def)
    have "heap_blocks h2 (insert (q, k) A)"
      using room by (intro heap_blocks_write [OF moves(6), of q k]) (auto simp: h2_def split: if_splits)
    then obtain h3 where h3: "kfree p h2 = Some (Inr h3)" "heap_blocks h3 (insert (q, k) A - {(p, m)})"
        "bytes h3 = bytes h2"
      using heap_blocks_release [of h2 _ p m] live by auto
    have "krealloc p n h = Some (Inr (q, h3))"
      using s s1 h3 p n n32 moves by (simp add: krealloc_def Let_def h2_def)
    moreover have "insert (q, k) A - {(p, m)} = insert (q, k) (A - {(p, m)})" using moves(3) live by auto
    moreover have "\<forall>i < min m n. bytes h3 (q + i) = bytes h (p + i)"
      using moves(7) live by (auto simp: h3(3) h2_def)
    moreover have "\<forall>(r, j)\<in>A - {(p, m)}. \<forall>i<j. bytes h3 (r + i) = bytes h (r + i)"
      using moves(7) apart room by (fastforce simp: h3(3) h2_def)
    ultimately show ?thesis using h3(2) moves(4) by (intro disjI2 exI conjI) auto
  qed
qed

lemma krealloc_keeps_data_witness:
  "\<exists>h. heap_blocks h {(1048592, 108)} \<and>
     (krealloc 1048592 500 h = Some (Inl (Abort ''kernel heap full'')) \<or>
      (\<exists>q h'. krealloc 1048592 500 h = Some (Inr (q, h')) \<and>
              (\<forall>i<108. bytes h' (q + i) = bytes h (1048592 + i))))"
proof -
  obtain h where "heap_ok h [(112, False), (65392, True)]" "heap_start h = 1048576"
    by (rule heap_after_malloc)
  then have "heap_blocks h {(1048592, 108)}"
    unfolding heap_blocks_def by (intro exI conjI) (auto simp: HDR_def CANARY_SIZE_def)
  with krealloc_keeps_data [OF this, of 1048592 108 500] show ?thesis
    by (intro exI [of _ h]) auto
qed

text \<open>
  \<open>kcalloc\<close> returns zeroed memory. When \<open>count * size\<close> is positive and at most 0xFFFFFFEC,
  the call panics because the heap is full or returns a fresh block whose first
  \<open>count * size\<close> bytes are 0, and leaves every other block as it is.
\<close>

theorem kcalloc_zeroed:
  assumes blocks: "heap_blocks h A" and n: "0 < count * sz" "count * sz \<le> 4294967276"
  shows "kcalloc count sz h = Some (Inl (Abort ''kernel heap full'')) \<or>
    (\<exists>q k h'. kcalloc count sz h = Some (Inr (q, h')) \<and> count * sz \<le> k \<and> (q, k) \<notin> A \<and>
       heap_blocks h' (insert (q, k) A) \<and> (\<forall>i < count * sz. bytes h' (q + i) = 0) \<and>
       (\<forall>(r, j)\<in>A. \<forall>i<j. bytes h' (r + i) = bytes h (r + i)))"
proof -
  define n where "n = count * sz"
  have n32: "wrap32 (count * sz) = n" and n': "0 < n" "n \<le> 4294967276" using n by (simp_all add: n_def)
  consider (full) "kmalloc n h = Some (Inl (Abort ''kernel heap full''))"
    | (fresh) q k h1 where "kmalloc n h = Some (Inr (q, h1))" "(q, k) \<notin> A" "n \<le> k"
        "heap_blocks h1 (insert (q, k) A)" "\<forall>(r, j)\<in>A. \<forall>i<j. bytes h1 (r + i) = bytes h (r + i)"
    using heap_blocks_alloc [OF blocks n'] by force
  then show ?thesis
  proof cases
    case full
    then show ?thesis by (simp add: kcalloc_def n32)
  next
    case fresh
    define h' where "h' = memset_bytes q 0 n h1"
    have apart: "r + j \<le> q \<or> q + k \<le> r" if "(r, j) \<in> A" for r j
      using kheap.blocks_disjoint [OF fresh(4)] that fresh(2)
      by (fastforce simp: pairwise_disjoint_def block_disjoint_def)
    have "heap_blocks h' (insert (q, k) A)"
      using fresh(3) by (intro heap_blocks_write [OF fresh(4), of q k]) (auto simp: h'_def memset_bytes_def split: if_splits)
    moreover have "\<forall>(r, j)\<in>A. \<forall>i<j. bytes h' (r + i) = bytes h (r + i)"
      using fresh(3,5) apart by (fastforce simp: h'_def memset_bytes_def)
    moreover have "\<forall>i<n. bytes h' (q + i) = 0" by (simp add: h'_def memset_bytes_def)
    moreover have "kcalloc count sz h = Some (Inr (q, h'))"
      using fresh(1) by (simp add: kcalloc_def n32 h'_def)
    ultimately show ?thesis
      using fresh(2,3) unfolding n_def by (intro disjI2 exI conjI) auto
  qed
qed

lemma kcalloc_zeroed_witness:
  "kcalloc 10 8 (initialize_heap 16 1048576 (\<lambda>_. 0xff)) = Some (Inl (Abort ''kernel heap full'')) \<or>
   (\<exists>q h'. kcalloc 10 8 (initialize_heap 16 1048576 (\<lambda>_. 0xff)) = Some (Inr (q, h')) \<and>
           (\<forall>i<80. bytes h' (q + i) = 0))"
  using kcalloc_zeroed [OF initialize_heap_blocks [of 16 1048576 "\<lambda>_. 0xff"], of 10 8] by auto

text \<open>
  The size computation of \<open>kmalloc\<close> wraps. A request for 0xFFFFFFFD bytes is rounded to a
  16-byte segment, so on a fresh heap the call succeeds with a block of 12 usable bytes.
\<close>

theorem kmalloc_wraps_huge_request:
  "\<exists>h'. kmalloc 0xFFFFFFFD (initialize_heap 16 1048576 mem) = Some (Inr (1048592, h')) \<and>
        heap_blocks h' {(1048592, 12)}"
proof -
  have init: "heap_ok (initialize_heap 16 1048576 mem) [(65520, True)]"
    using initialize_heap_ok [of 16 1048576 mem] by (simp add: HDR_def)
  have z: "kmalloc_size 0xFFFFFFFD = 16" by (simp add: kmalloc_size_def CANARY_SIZE_def wrap32_def)
  obtain h' where h': "kmalloc 0xFFFFFFFD (initialize_heap 16 1048576 mem) = Some (Inr (1048592, h'))"
      "heap_ok h' [(16, False), (65488, True)]" "heap_start h' = 1048576"
    using init
    by (rule kmalloc_refines [of _ _ 4294967293 0 "[(16, False), (65488, True)]"])
      (simp_all add: z HDR_def initialize_heap_def Let_def)
  then have "heap_blocks h' {(1048592, 12)}"
    unfolding heap_blocks_def by (intro exI conjI) (auto simp: HDR_def CANARY_SIZE_def)
  with h'(1) show ?thesis by blast
qed

text \<open>Payload bytes of the segments with the given flag, and of the largest free one.\<close>

definition seg_bytes :: "bool \<Rightarrow> aseg list \<Rightarrow> nat" where
  "seg_bytes f segs = sum_list (map fst (filter (\<lambda>x. snd x = f) segs))"

fun largest_free :: "nat \<Rightarrow> aseg list \<Rightarrow> nat" where
  "largest_free m [] = m"
| "largest_free m ((l, f) # r) = largest_free (if f \<and> m < l then l else m) r"

lemma seg_bytes_Cons [simp]: "seg_bytes f ((l, g) # r) = (if g = f then l else 0) + seg_bytes f r"
  by (simp add: seg_bytes_def)

lemma seg_bytes_span: "seg_bytes True segs + seg_bytes False segs \<le> span segs"
  by (induction segs rule: span.induct) (auto simp: seg_bytes_def)

lemma largest_free_le: "largest_free m segs \<le> m + seg_bytes True segs"
  by (induction m segs rule: largest_free.induct) (auto simp: seg_bytes_def)

lemma heap_information_chain:
  assumes "chain (hdrs h) p a 0 segs" and "segs \<noteq> []" and "0 < a"
    and "used + free + span segs < 4294967296" and "cnt + length segs < 4294967296"
  shows "heap_information_from h a (used + free) used free largest cnt =
    Some (Inr (used + free + seg_bytes True segs + seg_bytes False segs, used + seg_bytes False segs,
               free + seg_bytes True segs, largest_free largest segs, cnt + length segs))"
  using assms
proof (induction segs arbitrary: p a used free largest cnt)
  case Nil
  then show ?case by simp
next
  case (Cons x r)
  obtain l f where x: "x = (l, f)" by (cases x)
  have bnd: "used + free + l < 4294967296" "cnt + 1 < 4294967296"
    using Cons.prems by (simp_all add: x)
  show ?case
  proof (cases "r = []")
    case True
    then show ?thesis using Cons.prems bnd
      by (subst heap_information_from.simps) (auto simp: x Let_def seg_bytes_def)
  next
    case False
    define u fr la where "u = (if f then used else used + l)" and "fr = (if f then free + l else free)"
      and "la = (if f \<and> largest < l then l else largest)"
    have "heap_information_from h (a + HDR + l) (u + fr) u fr la (cnt + 1) =
      Some (Inr (u + fr + seg_bytes True r + seg_bytes False r, u + seg_bytes False r,
               fr + seg_bytes True r, largest_free la r, cnt + 1 + length r))"
      using Cons.prems False by (intro Cons.IH) (auto simp: x u_def fr_def)
    then show ?thesis using Cons.prems bnd False
      by (subst heap_information_from.simps) (auto simp: x Let_def u_def fr_def la_def add_ac)
  qed
qed

lemma span_length: "16 * length segs \<le> span segs"
  by (induction segs rule: span.induct) (auto simp: HDR_def)

text \<open>
  The usage report adds up. On a well-formed heap of less than 2 GB,
  \<open>heap_get_information\<close> returns the used, free and total payload in KiB, the largest free
  segment and the number of segments.
\<close>

theorem heap_information_correct:
  assumes rep: "heap_rep h segs" and small: "span segs < 2147483648"
  shows "heap_get_information h = Some (Inr
    \<lparr>total_size_kb = (seg_bytes True segs + seg_bytes False segs) div 1024,
     used_size_kb = seg_bytes False segs div 1024, free_size_kb = seg_bytes True segs div 1024,
     largest_free_segment_kb = largest_free 0 segs div 1024, segment_count = length segs\<rparr>)"
proof -
  have "heap_information_from h (heap_start h) (0 + 0) 0 0 0 0 =
    Some (Inr (0 + 0 + seg_bytes True segs + seg_bytes False segs, 0 + seg_bytes False segs,
               0 + seg_bytes True segs, largest_free 0 segs, 0 + length segs))"
    using rep small span_length [of segs]
    by (intro heap_information_chain [of _ 0]) (auto simp: heap_rep_def)
  moreover have "seg_bytes True segs + seg_bytes False segs < 2147483648" "largest_free 0 segs < 2147483648"
    using small seg_bytes_span [of segs] largest_free_le [of 0 segs] by linarith+
  ultimately show ?thesis
    by (simp add: heap_get_information_def int_div_1024_def)
qed

lemma heap_information_correct_witness:
  "heap_get_information (initialize_heap 16 1048576 (\<lambda>_. 0)) = Some (Inr
    \<lparr>total_size_kb = 63, used_size_kb = 0, free_size_kb = 63, largest_free_segment_kb = 63, segment_count = 1\<rparr>)"
proof -
  have "heap_rep (initialize_heap 16 1048576 (\<lambda>_. 0)) [(65520, True)]"
    using initialize_heap_ok [of 16 1048576 "\<lambda>_. 0"] by (simp add: HDR_def heap_ok_def)
  from heap_information_correct [OF this] show ?thesis by (simp add: HDR_def seg_bytes_def)
qed

end
