(* ===== verification/Vmm.thy ===== *)
theory Vmm
  imports Pmm "HOL-Library.Signed_Division"
begin

text \<open>
  The virtual memory manager, \<open>mckrnl/core/memory/vmm.c\<close>: two-level x86 page tables.

  A context is a page whose first word is the address of its page directory. Contexts, page
  directories and page tables live in pages of the paging area and are only accessed through
  page-aligned pointers with an index below 1024, so the model keeps their words as
  \<open>page_words p i\<close>, the word \<open>p[i]\<close> of the page at address \<open>p\<close>. The data bytes of physical
  memory are \<open>ram\<close>. \<open>cr3\<close> holds the page directory in use. Of the task table the memory
  manager reads which tasks are active and their contexts: \<open>active_contexts\<close>, in slot order.
  The spin lock around the allocator and the TLB have no counterpart: one core runs the kernel.
\<close>

section \<open>State\<close>

record vmm =
  books :: pmm
  page_words :: "u32 \<Rightarrow> nat \<Rightarrow> u32"
  ram :: "u32 \<Rightarrow> u8"
  kernel_context :: u32
  active_contexts :: "u32 list"
  cr3 :: u32

definition PTE_PRESENT :: u32 where
  "PTE_PRESENT = 1"

definition PTE_WRITE :: u32 where
  "PTE_WRITE = 2"

definition PTE_USER :: u32 where
  "PTE_USER = 4"

definition present :: "u32 \<Rightarrow> bool" where
  "present e \<longleftrightarrow> e AND PTE_PRESENT \<noteq> 0"

text \<open>The page an entry points to, \<open>entry & ~0xFFF\<close>, which is also \<open>ALIGN_PAGE_DOWN\<close>.\<close>

definition entry_page :: "u32 \<Rightarrow> u32" where
  "entry_page e = e AND NOT 0xfff"

definition pd_index :: "u32 \<Rightarrow> nat" where
  "pd_index virt = unat (virt div 0x1000 div 1024)"

definition pt_index :: "u32 \<Rightarrow> nat" where
  "pt_index virt = unat ((virt div 0x1000) mod 1024)"

definition put_word :: "u32 \<Rightarrow> nat \<Rightarrow> u32 \<Rightarrow> vmm \<Rightarrow> vmm" where
  "put_word p i v s = s\<lparr>page_words := (page_words s)(p := (page_words s p)(i := v))\<rparr>"

definition pagedir :: "vmm \<Rightarrow> u32 \<Rightarrow> u32" where
  "pagedir s context = page_words s context 0"

text \<open>\<open>for (i = 0; i < 1024; i++) p[i] = 0\<close>\<close>

definition zero_page :: "u32 \<Rightarrow> vmm \<Rightarrow> vmm" where
  "zero_page p s = s\<lparr>page_words := (page_words s)(p := (\<lambda>i. if i < 1024 then 0 else page_words s p i))\<rparr>"

section \<open>Contexts\<close>

definition vmm_create_context :: "vmm \<Rightarrow> (u32 \<times> vmm) kres" where
  "vmm_create_context s =
     kbind (pmm_alloc_pagetable (books s)) (\<lambda>(context, b1).
     kbind (pmm_alloc_pagetable b1) (\<lambda>(dir, b2).
       Inr (context, zero_page dir (put_word context 0 dir (s\<lparr>books := b2\<rparr>)))))"

definition vmm_activate_context :: "u32 \<Rightarrow> vmm \<Rightarrow> vmm" where
  "vmm_activate_context context s = s\<lparr>cr3 := pagedir s context\<rparr>"

text \<open>A new page-directory entry of the kernel is copied into the active tasks' directories.\<close>

definition share_entry :: "u32 \<Rightarrow> nat \<Rightarrow> vmm \<Rightarrow> vmm" where
  "share_entry dir i s =
     fold (\<lambda>c s. put_word (pagedir s c) i (page_words s dir i) s) (active_contexts s) s"

text \<open>
  \<open>vmm_map_page_unsafe\<close> on the page directory \<open>dir\<close>; \<open>is_kernel\<close> says whether the context
  passed is the kernel's own context structure.
\<close>

definition vmm_map_page_unsafe :: "bool \<Rightarrow> u32 \<Rightarrow> u32 \<Rightarrow> u32 \<Rightarrow> u32 \<Rightarrow> vmm \<Rightarrow> vmm kres" where
  "vmm_map_page_unsafe is_kernel dir virt phys flags s =
     kbind
       (if present (page_words s dir (pd_index virt))
        then Inr (entry_page (page_words s dir (pd_index virt)), s)
        else kbind (pmm_alloc_pagetable (books s)) (\<lambda>(page_table, b).
          let s1 = put_word dir (pd_index virt) (page_table OR PTE_PRESENT OR flags)
                     (zero_page page_table (s\<lparr>books := b\<rparr>))
          in Inr (page_table, if is_kernel then share_entry dir (pd_index virt) s1 else s1)))
       (\<lambda>(page_table, s1). Inr (put_word page_table (pt_index virt) (phys OR flags) s1))"

definition vmm_map_page :: "u32 \<Rightarrow> u32 \<Rightarrow> u32 \<Rightarrow> u32 \<Rightarrow> vmm \<Rightarrow> (int \<times> vmm) kres" where
  "vmm_map_page context virt phys flags s =
     (if virt AND 0xfff \<noteq> 0 \<or> phys AND 0xfff \<noteq> 0 then Inr (-1, s)
      else if context \<noteq> kernel_context s then
        if present (page_words s (pagedir s (kernel_context s)) (pd_index virt))
        then Inl (Abort ''overlapping with the kernel'')
        else kbind (vmm_map_page_unsafe False (pagedir s context) virt phys flags s) (\<lambda>s1. Inr (0, s1))
      else
        kbind (if cr3 s \<noteq> pagedir s context then vmm_map_page_unsafe False (cr3 s) virt phys flags s
               else Inr s) (\<lambda>s1.
        kbind (vmm_map_page_unsafe True (pagedir s1 context) virt phys flags s1) (\<lambda>s2. Inr (0, s2))))"

definition vmm_clone_kernel_context :: "u32 \<Rightarrow> vmm \<Rightarrow> vmm" where
  "vmm_clone_kernel_context context s =
     fold (\<lambda>i s. if present (page_words s (pagedir s (kernel_context s)) i)
                 then put_word (pagedir s context) i (page_words s (pagedir s (kernel_context s)) i) s
                 else s) [0..<1024] s"

text \<open>
  Destroying a context returns to the physical memory manager every mapped page that the
  kernel does not map at the same place, every page table outside the kernel's part of the
  directory, the directory and the context. The tables themselves are not changed.
\<close>

definition free_entry :: "vmm \<Rightarrow> u32 \<Rightarrow> nat \<Rightarrow> nat \<Rightarrow> pmm \<Rightarrow> pmm" where
  "free_entry s dir i j b =
     (let e = page_words s (entry_page (page_words s dir i)) j;
          k = page_words s (pagedir s (kernel_context s)) i
      in if present e \<and> \<not> (present k \<and> present (page_words s (entry_page k) j))
         then pmm_free (entry_page e) b else b)"

definition free_table :: "vmm \<Rightarrow> u32 \<Rightarrow> nat \<Rightarrow> pmm \<Rightarrow> pmm" where
  "free_table s dir i b =
     (if present (page_words s dir i) then
        let b1 = fold (free_entry s dir i) [0..<1024] b
        in if \<not> present (page_words s (pagedir s (kernel_context s)) i)
           then pmm_free (entry_page (page_words s dir i)) b1 else b1
      else b)"

definition vmm_destroy_context :: "u32 \<Rightarrow> vmm \<Rightarrow> vmm" where
  "vmm_destroy_context context s =
     s\<lparr>books := pmm_free context (pmm_free (pagedir s context)
         (fold (free_table s (pagedir s context)) [0..<1024] (books s)))\<rparr>"

definition vmm_lookup :: "u32 \<Rightarrow> u32 \<Rightarrow> vmm \<Rightarrow> u32" where
  "vmm_lookup ptr context s =
     (if present (page_words s (pagedir s context) (pd_index ptr)) then
        let e = page_words s (entry_page (page_words s (pagedir s context) (pd_index ptr))) (pt_index ptr)
        in if present e then entry_page e + ptr mod 0x1000 else 0
      else 0)"

section \<open>Kernel memory\<close>

fun map_range :: "u32 \<Rightarrow> nat \<Rightarrow> nat \<Rightarrow> vmm \<Rightarrow> vmm kres" where
  "map_range ptr i 0 s = Inr s"
| "map_range ptr i (Suc n) s =
     kbind (vmm_map_page (kernel_context s) (ptr + of_nat i * 0x1000) (ptr + of_nat i * 0x1000)
              (PTE_PRESENT OR PTE_WRITE) s) (\<lambda>(_, s1). map_range ptr (Suc i) n s1)"

definition vmm_alloc :: "u32 \<Rightarrow> vmm \<Rightarrow> (u32 \<times> vmm) kres" where
  "vmm_alloc num_pages s =
     kbind (pmm_alloc_range (sint num_pages) (books s)) (\<lambda>(ptr, b).
     kbind (map_range ptr 0 (unat num_pages) (s\<lparr>books := b\<rparr>)) (\<lambda>s1. Inr (ptr, s1)))"

definition ram_fill :: "u32 \<Rightarrow> nat \<Rightarrow> (nat \<Rightarrow> u8) \<Rightarrow> vmm \<Rightarrow> vmm" where
  "ram_fill dest n f s =
     s\<lparr>ram := (\<lambda>a. if unat (a - dest) < n then f (unat (a - dest)) else ram s a)\<rparr>"

definition vmm_calloc :: "u32 \<Rightarrow> vmm \<Rightarrow> (u32 \<times> vmm) kres" where
  "vmm_calloc num_pages s =
     kbind (vmm_alloc num_pages s) (\<lambda>(ptr, s1).
       Inr (ptr, ram_fill ptr (unat (num_pages * 0x1000)) (\<lambda>_. 0) s1))"

definition vmm_free :: "u32 \<Rightarrow> u32 \<Rightarrow> vmm \<Rightarrow> vmm kres" where
  "vmm_free ptr num_pages s =
     kbind (pmm_free_range ptr (sint num_pages) (books s)) (\<lambda>b. Inr (s\<lparr>books := b\<rparr>))"

text \<open>
  \<open>vmm_resize\<close> moves an array of \<open>old_size\<close> elements when the number of pages changes. Its
  \<open>int\<close> products are taken without overflow, which C leaves undefined.
\<close>

definition vmm_resize :: "int \<Rightarrow> int \<Rightarrow> int \<Rightarrow> u32 \<Rightarrow> vmm \<Rightarrow> (u32 \<times> vmm) kres" where
  "vmm_resize data_size old_size new_size ptr s =
     (let new_size_p = (data_size * new_size) sdiv 0x1000 + 1;
          old_size_p = (data_size * old_size) sdiv 0x1000 + 1
      in if ptr = 0 then vmm_alloc (of_int new_size_p) s
         else if new_size = 0 then
           kbind (vmm_free ptr (of_int old_size_p) s) (\<lambda>s1. Inr (0, s1))
         else if new_size_p \<noteq> old_size_p then
           kbind (vmm_alloc (of_int new_size_p) s) (\<lambda>(new_ptr, s1).
             let n = (if new_size_p < old_size_p then data_size * new_size else data_size * old_size);
                 s2 = ram_fill new_ptr (unat (of_int n :: u32)) (\<lambda>i. ram s1 (ptr + of_nat i)) s1
             in kbind (vmm_free ptr (of_int old_size_p) s2) (\<lambda>s3. Inr (new_ptr, s3)))
         else Inr (ptr, s))"

section \<open>Access to another address space\<close>

text \<open>
  While a context is active the processor translates every access through its directory; an
  access to a page that is not present ends in \<open>page_fault_handler\<close>, which halts.
\<close>

definition mmu :: "vmm \<Rightarrow> u32 \<Rightarrow> u32 kres" where
  "mmu s v =
     (let d = page_words s (cr3 s) (pd_index v); e = page_words s (entry_page d) (pt_index v)
      in if present d \<and> present e then Inr (entry_page e + v mod 0x1000)
         else Inl (Abort ''Page fault!''))"

fun mmu_read :: "vmm \<Rightarrow> u32 \<Rightarrow> nat \<Rightarrow> u8 list kres" where
  "mmu_read s ptr 0 = Inr []"
| "mmu_read s ptr (Suc n) =
     kbind (mmu s ptr) (\<lambda>a. kbind (mmu_read s (ptr + 1) n) (\<lambda>bs. Inr (ram s a # bs)))"

fun mmu_write :: "vmm \<Rightarrow> u32 \<Rightarrow> u8 list \<Rightarrow> vmm kres" where
  "mmu_write s ptr [] = Inr s"
| "mmu_write s ptr (b # bs) =
     kbind (mmu s ptr) (\<lambda>a. mmu_write (s\<lparr>ram := (ram s)(a := b)\<rparr>) (ptr + 1) bs)"

text \<open>
  \<open>vmm_read_context\<close> returns the bytes it copies to \<open>out\<close>; the copy goes through a page-sized
  buffer, hence the assertion. A negative \<open>sz\<close>, converted to the unsigned type of the
  comparison, fails it too.
\<close>

definition vmm_read_context :: "u32 \<Rightarrow> int \<Rightarrow> u32 \<Rightarrow> vmm \<Rightarrow> (u8 list \<times> vmm) kres" where
  "vmm_read_context ptr sz context s =
     kbind (kassert (0 \<le> sz \<and> sz \<le> 0x1000) (AssertFailed ''sz <= sizeof(buffer)'')) (\<lambda>_.
     let s1 = vmm_activate_context context s
     in kbind (mmu_read s1 ptr (nat sz)) (\<lambda>bs. Inr (bs, s1\<lparr>cr3 := cr3 s\<rparr>)))"

definition vmm_write_context :: "u32 \<Rightarrow> u8 list \<Rightarrow> u32 \<Rightarrow> vmm \<Rightarrow> vmm kres" where
  "vmm_write_context ptr bs context s =
     kbind (kassert (length bs \<le> 0x1000) (AssertFailed ''sz <= sizeof(buffer)'')) (\<lambda>_.
     kbind (mmu_write (vmm_activate_context context s) ptr bs) (\<lambda>s1. Inr (s1\<lparr>cr3 := cr3 s\<rparr>)))"

section \<open>Initialisation\<close>

text \<open>
  The loops of \<open>vmm_init\<close> that map the kernel's memory one to one from \<open>addr\<close> up to
  \<open>end_addr\<close>; \<open>mark\<close> says whether the page is also marked used (the text-mode screen). As the
  address may wrap, the loop need not end.
\<close>

partial_function (option) map_until :: "u32 \<Rightarrow> bool \<Rightarrow> u32 \<Rightarrow> u32 \<Rightarrow> vmm \<Rightarrow> vmm kloop" where
  "map_until flags mark addr end_addr s =
     (if addr < end_addr then
        kseq (Some (vmm_map_page (kernel_context s) addr addr flags s)) (\<lambda>(_, s1).
          map_until flags mark (addr + 0x1000) end_addr
            (if mark then s1\<lparr>books := pmm_mark_used addr (books s1)\<rparr> else s1))
      else Some (Inr s))"

definition vmm_identity_map :: "u32 \<Rightarrow> u32 \<Rightarrow> vmm \<Rightarrow> vmm kloop" where
  "vmm_identity_map start end_addr s = map_until (PTE_PRESENT OR PTE_WRITE) False start end_addr s"

fun vmm_map_modules :: "multiboot_module list \<Rightarrow> vmm \<Rightarrow> vmm kloop" where
  "vmm_map_modules [] s = Some (Inr s)"
| "vmm_map_modules (m # ms) s =
     kseq (map_until PTE_PRESENT False (mod_start m) (mod_end m) s) (vmm_map_modules ms)"

definition map_kernel_page :: "u32 \<Rightarrow> u32 \<Rightarrow> vmm \<Rightarrow> vmm kloop" where
  "map_kernel_page a flags s =
     kseq (Some (vmm_map_page (kernel_context s) a a flags s)) (\<lambda>(_, s1). Some (Inr s1))"

definition vmm_init :: "boot_info \<Rightarrow> vmm \<Rightarrow> vmm kloop" where
  "vmm_init b s0 =
     kseq (Some (vmm_create_context s0)) (\<lambda>(c, s1).
     kseq (vmm_identity_map (kernel_start b) (kernel_end b) (s1\<lparr>kernel_context := c\<rparr>)) (\<lambda>s2.
     kseq (vmm_identity_map (paging_start b) (paging_end b) s2) (\<lambda>s3.
     kseq (map_until (PTE_PRESENT OR PTE_WRITE) True 0xb8000 (0xb8000 + 80 * 25 * 2) s3) (\<lambda>s4.
     kseq (map_kernel_page (entry_page (multiboot_info b)) PTE_PRESENT s4) (\<lambda>s5.
     kseq (map_kernel_page (entry_page (mbs_mods_addr b)) PTE_PRESENT s5) (\<lambda>s6.
     kseq (vmm_map_modules (mbs_mods b) s6) (\<lambda>s7.
     kseq (map_kernel_page 0 0 s7) (\<lambda>s8.
       Some (Inr (vmm_activate_context (kernel_context s8) s8))))))))))"

end
