(* ===== verification/Vmm_Spaces.thy ===== *)
theory Vmm_Spaces
  imports Vmm
begin

text \<open>
  The page tables of the memory manager as address spaces. \<open>view s c v\<close> is the page-table
  entry a context holds for an address, 0 where it has no table. The invariant \<open>vmm_wf\<close> says that contexts,
  directories and tables are pages in use that do not overlap, that tables of different
  contexts are shared only where the kernel is mapped, and that every context maps the kernel
  like the kernel context does.
\<close>

section \<open>Entries and indices\<close>

lemma pd_index_eq: "pd_index v = unat v div 4096 div 1024"
  by (simp add: pd_index_def unat_div)

lemma pt_index_eq: "pt_index v = unat v div 4096 mod 1024"
  by (simp add: pt_index_def unat_div unat_mod)

lemma index_bounds [simp]: "pd_index v < 1024" "pt_index v < 1024"
  using unat_lt_32 [of v] by (auto simp: pd_index_eq pt_index_eq)

lemma index_eq_iff:
  "pd_index v = pd_index w \<and> pt_index v = pt_index w \<longleftrightarrow> v div 0x1000 = w div 0x1000"
proof -
  have "v div 0x1000 = w div 0x1000 \<longleftrightarrow> unat v div 4096 = unat w div 4096"
    by (simp add: word_unat_eq_iff unat_div)
  also have "\<dots> \<longleftrightarrow> unat v div 4096 div 1024 = unat w div 4096 div 1024 \<and>
      unat v div 4096 mod 1024 = unat w div 4096 mod 1024"
    by (metis div_mult_mod_eq)
  finally show ?thesis by (simp add: pd_index_eq pt_index_eq)
qed

lemma bit_fff: "bit (0xfff :: u32) n \<longleftrightarrow> n < 12"
proof -
  have "(0xfff :: u32) = mask 12" by (simp add: mask_eq_exp_minus_1)
  then show ?thesis by (simp only: bit_mask_iff) (auto simp: possible_bit_def)
qed

lemma bit_low: "bit (a AND 0xfff :: u32) n \<longleftrightarrow> n < 12 \<and> bit a n"
  unfolding bit_and_iff bit_fff by blast

lemma bit_high: "bit (entry_page e) n \<longleftrightarrow> 12 \<le> n \<and> bit e n"
  unfolding entry_page_def bit_and_iff bit_not_iff bit_fff
  using bit_imp_le_length [of e n] by (auto simp: possible_bit_def)

lemma page_aligned_bits: "page_aligned a \<longleftrightarrow> (\<forall>n<12. \<not> bit a n)"
proof -
  have "page_aligned a \<longleftrightarrow> (\<forall>n. \<not> bit (a AND 0xfff) n)"
    unfolding page_aligned_def by (metis bit_0_eq bit_eq_iff bot_fun_def bot_bool_def)
  then show ?thesis by (simp only: bit_low) blast
qed

lemma flags_bits: "f AND 0xfff = f \<longleftrightarrow> (\<forall>n\<ge>12. \<not> bit (f :: u32) n)"
proof -
  have "f AND 0xfff = f \<longleftrightarrow> (\<forall>n. bit (f AND 0xfff) n \<longleftrightarrow> bit f n)"
    by (metis bit_word_eqI)
  then show ?thesis by (simp only: bit_low) (meson leI not_less)
qed

lemma bit_1_u32: "bit (1 :: u32) n \<longleftrightarrow> n = 0"
  by (simp add: bit_1_iff)

lemma present_bit: "present e \<longleftrightarrow> bit e 0"
  by (simp add: present_def PTE_PRESENT_def and_one_eq odd_iff_mod_2_eq_one bit_0)

lemma entry_page_aligned [simp]: "page_aligned (entry_page e)"
  by (simp add: page_aligned_bits bit_high)

lemma entry_page_or:
  assumes "page_aligned p" and "f AND 0xfff = f"
  shows "entry_page (p OR f) = p"
proof (rule bit_word_eqI)
  fix n
  from assms show "bit (entry_page (p OR f)) n = bit p n"
    unfolding page_aligned_bits flags_bits bit_high bit_or_iff by (meson leI)
qed

lemma entry_page_id: "page_aligned p \<Longrightarrow> entry_page p = p"
  using entry_page_or [of p 0] by simp

lemma present_or:
  "page_aligned p \<Longrightarrow> present (p OR f) \<longleftrightarrow> present f"
  by (simp add: present_bit page_aligned_bits bit_or_iff)

lemma present_table [simp]: "present (p OR PTE_PRESENT OR f)"
  by (simp add: present_bit bit_or_iff PTE_PRESENT_def bit_1_iff)

lemma entry_page_table:
  assumes "page_aligned p" and "f AND 0xfff = f"
  shows "entry_page (p OR PTE_PRESENT OR f) = p"
proof -
  have "(PTE_PRESENT OR f) AND 0xfff = PTE_PRESENT OR f"
    using assms(2) by (auto simp: flags_bits bit_or_iff PTE_PRESENT_def bit_1_iff)
  then show ?thesis using assms(1) by (simp add: entry_page_or or.assoc)
qed

lemma not_present_0 [simp]: "\<not> present 0"
  by (simp add: present_def)

lemma page_index_aligned: "page_aligned a \<Longrightarrow> page_aligned b \<Longrightarrow> page_index a = page_index b \<longleftrightarrow> a = b"
  by (auto simp: page_aligned_unat page_index_unat word_unat_eq_iff)

section \<open>Fresh page-table pages\<close>

lemma page_addr_aligned: "i < NPAGES \<Longrightarrow> page_aligned (page_addr i)"
  by (simp add: page_aligned_unat unat_page_addr)

lemma alloc_pagetableE:
  assumes "pmm_alloc_pagetable b = Inr (p, b')"
  shows "page_aligned p" and "\<not> pmm_is_used p b"
    and "page_aligned q \<Longrightarrow> pmm_is_used q b' \<longleftrightarrow> q = p \<or> pmm_is_used q b"
proof -
  from assms obtain i where i: "page_available True b i" "p = page_addr i" "b' = take_page i b"
    unfolding pmm_alloc_pagetable_def by (rule pmm_alloc_from_InrE)
  then have "i < NPAGES" "\<not> bitmap_test (bitmap b) i" by (auto simp: page_available_def)
  with i show "page_aligned p" "\<not> pmm_is_used p b"
    by (auto simp: page_addr_aligned pmm_is_used_def)
  then show "page_aligned q \<Longrightarrow> pmm_is_used q b' \<longleftrightarrow> q = p \<or> pmm_is_used q b"
    using i \<open>i < NPAGES\<close> page_index_aligned [of q p]
    by (auto simp: take_page_def pmm_is_used_def bitmap_test_set)
qed

lemma alloc_pagetable_cases:
  "pmm_alloc_pagetable b = Inl (Abort ''Allocation failed!'') \<or> (\<exists>p b'. pmm_alloc_pagetable b = Inr (p, b'))"
  by (simp add: pmm_alloc_pagetable_def pmm_alloc_from_eq Let_def)

section \<open>Address spaces\<close>

definition contexts :: "vmm \<Rightarrow> u32 set" where
  "contexts s = insert (kernel_context s) (set (active_contexts s))"

definition pde :: "vmm \<Rightarrow> u32 \<Rightarrow> nat \<Rightarrow> u32" where
  "pde s c i = page_words s (pagedir s c) i"

definition tbl :: "vmm \<Rightarrow> u32 \<Rightarrow> nat \<Rightarrow> u32" where
  "tbl s c i = entry_page (pde s c i)"

definition view :: "vmm \<Rightarrow> u32 \<Rightarrow> u32 \<Rightarrow> u32" where
  "view s c v = (if present (pde s c (pd_index v)) then page_words s (tbl s c (pd_index v)) (pt_index v) else 0)"

definition wf_pages :: "vmm \<Rightarrow> bool" where
  "wf_pages s \<longleftrightarrow> (\<forall>c\<in>contexts s. page_aligned c \<and> pmm_is_used c (books s) \<and>
     page_aligned (pagedir s c) \<and> pmm_is_used (pagedir s c) (books s))"

definition wf_dirs :: "vmm \<Rightarrow> bool" where
  "wf_dirs s \<longleftrightarrow> (\<forall>c\<in>contexts s. \<forall>c'\<in>contexts s.
     c \<noteq> pagedir s c' \<and> (pagedir s c = pagedir s c' \<longrightarrow> c = c'))"

definition wf_tables :: "vmm \<Rightarrow> bool" where
  "wf_tables s \<longleftrightarrow> (\<forall>c\<in>contexts s. \<forall>i<1024. present (pde s c i) \<longrightarrow>
     pmm_is_used (tbl s c i) (books s) \<and>
     (\<forall>c'\<in>contexts s. tbl s c i \<noteq> c' \<and> tbl s c i \<noteq> pagedir s c'))"

definition wf_private :: "vmm \<Rightarrow> bool" where
  "wf_private s \<longleftrightarrow> (\<forall>c\<in>contexts s. \<forall>c'\<in>contexts s. \<forall>i<1024. \<forall>j<1024.
     present (pde s c i) \<and> present (pde s c' j) \<and> tbl s c i = tbl s c' j \<longrightarrow>
     i = j \<and> (c = c' \<or> present (pde s (kernel_context s) i)))"

definition wf_shared :: "vmm \<Rightarrow> bool" where
  "wf_shared s \<longleftrightarrow> (\<forall>c\<in>contexts s. \<forall>i<1024. present (pde s (kernel_context s) i) \<longrightarrow>
     pde s c i = pde s (kernel_context s) i)"

definition wf_cr3 :: "vmm \<Rightarrow> bool" where
  "wf_cr3 s \<longleftrightarrow> cr3 s \<in> pagedir s ` contexts s"

definition vmm_wf :: "vmm \<Rightarrow> bool" where
  "vmm_wf s \<longleftrightarrow> wf_pages s \<and> wf_dirs s \<and> wf_tables s \<and> wf_private s \<and> wf_shared s \<and> wf_cr3 s"

lemmas wf_defs = vmm_wf_def wf_pages_def wf_dirs_def wf_tables_def wf_private_def wf_shared_def wf_cr3_def

lemma vmm_lookup_view:
  "vmm_lookup v c s = (if present (view s c v) then entry_page (view s c v) + v mod 0x1000 else 0)"
  by (simp add: vmm_lookup_def view_def tbl_def pde_def Let_def)

lemma put_word_simps [simp]:
  "books (put_word p i v s) = books s" "kernel_context (put_word p i v s) = kernel_context s"
  "active_contexts (put_word p i v s) = active_contexts s" "cr3 (put_word p i v s) = cr3 s"
  "contexts (put_word p i v s) = contexts s"
  "page_words (put_word p i v s) q j = (if q = p \<and> j = i then v else page_words s q j)"
  by (simp_all add: put_word_def contexts_def)

lemma zero_page_simps [simp]:
  "books (zero_page p s) = books s" "kernel_context (zero_page p s) = kernel_context s"
  "active_contexts (zero_page p s) = active_contexts s" "cr3 (zero_page p s) = cr3 s"
  "contexts (zero_page p s) = contexts s"
  "page_words (zero_page p s) q j = (if q = p \<and> j < 1024 then 0 else page_words s q j)"
  by (simp_all add: zero_page_def contexts_def)

lemma kernel_in_contexts [simp]: "kernel_context s \<in> contexts s"
  by (simp add: contexts_def)

lemma wf_sharedD:
  "vmm_wf s \<Longrightarrow> c \<in> contexts s \<Longrightarrow> i < 1024 \<Longrightarrow> present (pde s (kernel_context s) i) \<Longrightarrow>
   pde s c i = pde s (kernel_context s) i"
  unfolding vmm_wf_def wf_shared_def by blast

lemma vmm_wf_cong:
  assumes wf: "vmm_wf s" and same: "contexts s' = contexts s" "kernel_context s' = kernel_context s"
      "books s' = books s" "cr3 s' = cr3 s"
    and dir: "\<And>c. c \<in> contexts s \<Longrightarrow> pagedir s' c = pagedir s c"
    and pde: "\<And>c i. c \<in> contexts s \<Longrightarrow> i < 1024 \<Longrightarrow> pde s' c i = pde s c i"
  shows "vmm_wf s'"
proof -
  have tbl: "tbl s' c i = tbl s c i" if "c \<in> contexts s" "i < 1024" for c i
    using pde [OF that] by (simp add: tbl_def)
  have "wf_pages s'" using wf unfolding vmm_wf_def wf_pages_def same by (simp add: dir)
  moreover have "wf_dirs s'" using wf unfolding vmm_wf_def wf_dirs_def same by (simp add: dir)
  moreover have "wf_tables s'" using wf unfolding vmm_wf_def wf_tables_def same by (simp add: dir pde tbl)
  moreover have "wf_private s'" using wf unfolding vmm_wf_def wf_private_def same by (simp add: pde tbl)
  moreover have "wf_shared s'" unfolding wf_shared_def same
  proof (intro ballI allI impI)
    fix c i assume "c \<in> contexts s" "i < 1024" "present (pde s' (kernel_context s) i)"
    moreover from calculation have "pde s c i = pde s (kernel_context s) i"
      using pde [of "kernel_context s" i] by (intro wf_sharedD [OF wf]) simp_all
    ultimately show "pde s' c i = pde s' (kernel_context s) i" using pde by simp
  qed
  moreover have "wf_cr3 s'" using wf unfolding vmm_wf_def wf_cr3_def same by (auto simp: dir)
  ultimately show ?thesis by (simp add: vmm_wf_def)
qed

subsection \<open>Writing an entry of a page table\<close>

lemma write_entry:
  fixes s :: vmm and e :: u32 and j :: nat
  assumes wf: "vmm_wf s" and c: "c \<in> contexts s" and "present (pde s c i)" and i: "i < 1024"
  defines "s' \<equiv> put_word (tbl s c i) j e s"
  shows "c' \<in> contexts s \<Longrightarrow> pagedir s' c' = pagedir s c'"
    and "c' \<in> contexts s \<Longrightarrow> pde s' c' k = pde s c' k"
    and "vmm_wf s'"
    and "c' \<in> contexts s \<Longrightarrow> view s' c' v =
      (if pd_index v = i \<and> pt_index v = j \<and> pde s c' i = pde s c i then e else view s c' v)"
proof -
  have apart: "tbl s c i \<noteq> d \<and> tbl s c i \<noteq> pagedir s d" if "d \<in> contexts s" for d
    using wf c i assms(3) that by (auto simp: vmm_wf_def wf_tables_def)
  show dir: "pagedir s' d = pagedir s d" if "d \<in> contexts s" for d
    using apart [OF that] by (auto simp: s'_def pagedir_def)
  show pde': "pde s' d k = pde s d k" if "d \<in> contexts s" for d k
    using apart [OF that] dir [OF that] by (auto simp: pde_def s'_def)
  have tbl': "tbl s' d k = tbl s d k" if "d \<in> contexts s" for d k
    using pde' [OF that] by (simp add: tbl_def)
  have con: "contexts s' = contexts s" "kernel_context s' = kernel_context s" "books s' = books s" "cr3 s' = cr3 s"
    by (simp_all add: s'_def)
  have k: "kernel_context s \<in> contexts s" by (simp add: contexts_def)
  show "vmm_wf s'"
    using wf by (rule vmm_wf_cong) (simp_all add: con dir pde')
  have same: "pde s d k = pde s c i" "k = i" if "d \<in> contexts s" "present (pde s d k)" "k < 1024" "tbl s d k = tbl s c i" for d k
    using wf c i assms(3) that unfolding vmm_wf_def wf_private_def wf_shared_def by metis+
  show "view s' d v = (if pd_index v = i \<and> pt_index v = j \<and> pde s d i = pde s c i then e else view s d v)"
    if d: "d \<in> contexts s" for d
    using same [OF d, of "pd_index v"] assms(3)
    by (auto simp: view_def pde' tbl' d) (auto simp: s'_def tbl_def)
qed

subsection \<open>Installing a fresh page table\<close>

text \<open>
  Every page that belongs to a context stays clear of a page that was not in use.
\<close>

lemma fresh_page:
  assumes "vmm_wf s" and "\<not> pmm_is_used p (books s)" and "c \<in> contexts s"
  shows "c \<noteq> p" and "pagedir s c \<noteq> p" and "i < 1024 \<Longrightarrow> present (pde s c i) \<Longrightarrow> tbl s c i \<noteq> p"
  using assms by (auto simp: wf_defs)

text \<open>
  The state after a table from the paging area has been cleared and entered at index \<open>i\<close> into
  the directories of the contexts \<open>D\<close>: every other word is as before.
\<close>

definition table_installed :: "vmm \<Rightarrow> u32 \<Rightarrow> u32 \<Rightarrow> u32 set \<Rightarrow> nat \<Rightarrow> vmm \<Rightarrow> bool" where
  "table_installed s p e D i s' \<longleftrightarrow>
     kernel_context s' = kernel_context s \<and> active_contexts s' = active_contexts s \<and> cr3 s' = cr3 s \<and>
     (\<forall>q. page_aligned q \<longrightarrow> pmm_is_used q (books s') \<longleftrightarrow> q = p \<or> pmm_is_used q (books s)) \<and>
     (\<forall>q j. page_words s' q j =
        (if q = p \<and> j < 1024 then 0 else if q \<in> pagedir s ` D \<and> j = i then e else page_words s q j))"

lemma install_table:
  assumes wf: "vmm_wf s" and inst: "table_installed s p e D i s'" and D: "D \<subseteq> contexts s"
    and p: "page_aligned p" "\<not> pmm_is_used p (books s)" "present e" "entry_page e = p" and i: "i < 1024"
    and kernel: "\<not> present (pde s (kernel_context s) i)"
    and all: "kernel_context s \<in> D \<longrightarrow> D = contexts s" and one: "kernel_context s \<notin> D \<longrightarrow> (\<exists>c. D = {c})"
  shows "c \<in> contexts s \<Longrightarrow> pagedir s' c = pagedir s c"
    and "c \<in> contexts s \<Longrightarrow> k < 1024 \<Longrightarrow> pde s' c k = (if c \<in> D \<and> k = i then e else pde s c k)"
    and "c \<in> contexts s \<Longrightarrow> view s' c v = (if c \<in> D \<and> pd_index v = i then 0 else view s c v)"
    and "vmm_wf s'"
proof -
  note frame = inst [unfolded table_installed_def]
  have con: "contexts s' = contexts s" "kernel_context s' = kernel_context s"
    using frame by (auto simp: contexts_def)
  have k: "kernel_context s \<in> contexts s" by (simp add: contexts_def)
  have dirs: "pagedir s c \<noteq> c'" "pagedir s c = pagedir s c' \<longleftrightarrow> c = c'"
    if "c \<in> contexts s" "c' \<in> contexts s" for c c'
    using wf that by (auto simp: wf_defs)
  note fresh = fresh_page [OF wf p(2)]
  have mem: "page_words s' q j =
      (if q = p \<and> j < 1024 then 0 else if q \<in> pagedir s ` D \<and> j = i then e else page_words s q j)" for q j
    using frame by simp
  show dir: "pagedir s' c = pagedir s c" if "c \<in> contexts s" for c
  proof -
    have "c \<notin> pagedir s ` D" using dirs(1) [OF _ that] D by auto
    then show ?thesis using fresh(1) [OF that] by (simp add: pagedir_def [of s'] mem) (simp add: pagedir_def)
  qed
  show pde': "pde s' c k = (if c \<in> D \<and> k = i then e else pde s c k)" if "c \<in> contexts s" "k < 1024" for c k
  proof -
    have "pagedir s c \<in> pagedir s ` D \<longleftrightarrow> c \<in> D" using dirs(2) [OF that(1)] D by auto
    then show ?thesis using fresh(2) [OF that(1)] by (simp add: pde_def dir that(1) mem)
  qed
  have tbl': "tbl s' c k = (if c \<in> D \<and> k = i then p else tbl s c k)" if "c \<in> contexts s" "k < 1024" for c k
    using pde' [OF that] p(4) by (simp add: tbl_def)
  have old: "tbl s c k \<noteq> p" "tbl s c k \<notin> pagedir s ` D" if "c \<in> contexts s" "k < 1024" "present (pde s c k)" for c k
    using fresh(3) [OF that(1,2,3)] wf that D by (auto simp: wf_defs)
  show "view s' c v = (if c \<in> D \<and> pd_index v = i then 0 else view s c v)" if "c \<in> contexts s" for c v
    using old [OF that, of "pd_index v"] p(3) by (auto simp: view_def pde' tbl' that mem)
  have used: "pmm_is_used q (books s') \<longleftrightarrow> q = p \<or> pmm_is_used q (books s)" if "page_aligned q" for q
    using frame that by blast
  have "wf_pages s'"
    using wf unfolding vmm_wf_def wf_pages_def con by (simp add: dir used)
  moreover have "wf_dirs s'"
    using wf unfolding vmm_wf_def wf_dirs_def con by (simp add: dir)
  moreover have "wf_tables s'" unfolding wf_tables_def con
  proof (intro ballI allI impI)
    fix c k assume c: "c \<in> contexts s" "k < 1024" "present (pde s' c k)"
    show "pmm_is_used (tbl s' c k) (books s') \<and> (\<forall>c'\<in>contexts s. tbl s' c k \<noteq> c' \<and> tbl s' c k \<noteq> pagedir s' c')"
    proof (cases "c \<in> D \<and> k = i")
      case True
      then show ?thesis using c fresh(1,2) p(1) by (auto simp: tbl' used dir)
    next
      case False
      then have "present (pde s c k)" using c by (auto simp: pde' split: if_splits)
      moreover have "tbl s' c k = tbl s c k" "page_aligned (tbl s c k)"
        using c False tbl' [of c k] by (auto simp: tbl_def)
      ultimately show ?thesis
        using c wf unfolding vmm_wf_def wf_tables_def by (simp add: used dir)
    qed
  qed
  moreover have "wf_private s'" unfolding wf_private_def con
  proof (intro ballI allI impI)
    fix c c' j k
    assume c: "c \<in> contexts s" "c' \<in> contexts s" "j < 1024" "k < 1024"
      and same: "present (pde s' c j) \<and> present (pde s' c' k) \<and> tbl s' c j = tbl s' c' k"
    show "j = k \<and> (c = c' \<or> present (pde s' (kernel_context s) j))"
    proof (cases "c \<in> D \<and> j = i \<or> c' \<in> D \<and> k = i")
      case True
      then have "c \<in> D \<and> j = i \<and> c' \<in> D \<and> k = i"
        using c same old [OF c(1,3)] old [OF c(2,4)] by (auto simp: pde' tbl' split: if_splits)
      then show ?thesis using all one p(3) i by (auto simp: pde')
    next
      case False
      then have "present (pde s c j) \<and> present (pde s c' k) \<and> tbl s c j = tbl s c' k"
        using c same by (auto simp: pde' tbl' split: if_splits)
      then have "j = k \<and> (c = c' \<or> present (pde s (kernel_context s) j))"
        using wf c by (simp add: vmm_wf_def wf_private_def)
      then show ?thesis using p(3) c by (auto simp: pde')
    qed
  qed
  moreover have "wf_shared s'" unfolding wf_shared_def con
  proof (intro ballI allI impI)
    fix c j assume c: "c \<in> contexts s" "j < 1024" "present (pde s' (kernel_context s) j)"
    show "pde s' c j = pde s' (kernel_context s) j"
    proof (cases "j = i")
      case True
      then have "kernel_context s \<in> D" using c kernel by (simp add: pde' split: if_splits)
      then show ?thesis using True all c by (auto simp: pde')
    next
      case False
      then have "pde s c j = pde s (kernel_context s) j"
        using c by (intro wf_sharedD [OF wf]) (simp_all add: pde')
      with False c show ?thesis by (simp add: pde')
    qed
  qed
  moreover have "wf_cr3 s'"
    using wf frame unfolding vmm_wf_def wf_cr3_def con by (auto simp: dir)
  ultimately show "vmm_wf s'" by (simp add: vmm_wf_def)
qed

section \<open>Mapping a page\<close>

lemma share_entry_fold:
  assumes "\<And>c c'. c \<in> set cs \<Longrightarrow> c' \<in> set cs \<Longrightarrow> c \<noteq> pagedir s c'"
  shows "fold (\<lambda>c s. put_word (pagedir s c) i (page_words s dir i) s) cs s =
    s\<lparr>page_words := (\<lambda>q j. if q \<in> pagedir s ` set cs \<and> j = i then page_words s dir i else page_words s q j)\<rparr>"
  using assms
proof (induction cs arbitrary: s)
  case Nil
  then show ?case by simp
next
  case (Cons c cs)
  define s1 where "s1 = put_word (pagedir s c) i (page_words s dir i) s"
  have dirs: "pagedir s1 d = pagedir s d" if "d \<in> set (c # cs)" for d
    using Cons.prems [OF that, of c] by (auto simp: s1_def pagedir_def)
  have "fold (\<lambda>c s. put_word (pagedir s c) i (page_words s dir i) s) cs s1 =
    s1\<lparr>page_words := (\<lambda>q j. if q \<in> pagedir s1 ` set cs \<and> j = i then page_words s1 dir i else page_words s1 q j)\<rparr>"
    using Cons.prems dirs by (intro Cons.IH) simp
  moreover have "pagedir s1 ` set cs = pagedir s ` set cs" using dirs by auto
  moreover have "page_words s1 dir i = page_words s dir i" by (simp add: s1_def)
  ultimately show ?case
    by (auto simp: s1_def put_word_def fun_eq_iff intro!: vmm.equality)
qed

text \<open>What a mapping leaves as it was.\<close>

definition same_spaces :: "vmm \<Rightarrow> vmm \<Rightarrow> bool" where
  "same_spaces s s' \<longleftrightarrow> contexts s' = contexts s \<and> kernel_context s' = kernel_context s \<and>
     active_contexts s' = active_contexts s \<and> cr3 s' = cr3 s \<and>
     (\<forall>c\<in>contexts s. pagedir s' c = pagedir s c)"

lemma same_spacesD:
  assumes "same_spaces s s'"
  shows "contexts s' = contexts s" "kernel_context s' = kernel_context s" "cr3 s' = cr3 s"
    "active_contexts s' = active_contexts s" "c \<in> contexts s \<Longrightarrow> pagedir s' c = pagedir s c"
  using assms by (auto simp: same_spaces_def)

text \<open>An entry of a table that is present: the directory is left alone.\<close>

lemma map_unsafe_present:
  assumes wf: "vmm_wf s" and c: "c \<in> contexts s" and "present (pde s c (pd_index virt))"
  obtains s' where "vmm_map_page_unsafe k (pagedir s c) virt phys flags s = Inr s'" and "vmm_wf s'"
    and "same_spaces s s'" and "\<forall>d\<in>contexts s. \<forall>i. pde s' d i = pde s d i"
    and "\<forall>d\<in>contexts s. \<forall>v. view s' d v =
      (if v div 0x1000 = virt div 0x1000 \<and> pde s d (pd_index virt) = pde s c (pd_index virt)
       then phys OR flags else view s d v)"
proof -
  define s' where "s' = put_word (tbl s c (pd_index virt)) (pt_index virt) (phys OR flags) s"
  note w = write_entry [OF wf c assms(3) index_bounds(1), where j = "pt_index virt" and e = "phys OR flags", folded s'_def]
  have "vmm_map_page_unsafe k (pagedir s c) virt phys flags s = Inr s'"
    using assms(3) by (simp add: vmm_map_page_unsafe_def s'_def tbl_def pde_def)
  moreover have "same_spaces s s'"
    using w(1) by (auto simp: same_spaces_def s'_def)
  ultimately show thesis
    using w(2,3,4) by (intro that [of s']) (simp_all add: index_eq_iff [symmetric] conj_assoc)
qed

text \<open>
  A missing table is allocated, cleared and installed, either in one context or, for the
  kernel, in all of them; then the entry is written as before.
\<close>

definition install_in :: "bool \<Rightarrow> u32 \<Rightarrow> vmm \<Rightarrow> u32 set" where
  "install_in k c s = (if k then contexts s else {c})"

lemma table_installed_map:
  fixes s :: vmm and flags :: u32 and i :: nat
  assumes wf: "vmm_wf s" and c: "c \<in> contexts s" and k: "k \<longrightarrow> c = kernel_context s"
    and alloc: "pmm_alloc_pagetable (books s) = Inr (p, b)"
  defines "e \<equiv> p OR PTE_PRESENT OR flags"
  defines "s1 \<equiv> put_word (pagedir s c) i e (zero_page p (s\<lparr>books := b\<rparr>))"
  shows "table_installed s p e (install_in k c s) i (if k then share_entry (pagedir s c) i s1 else s1)"
proof -
  note fresh = fresh_page [OF wf alloc_pagetableE(2) [OF alloc]]
  have dirs: "d \<noteq> pagedir s d'" if "d \<in> contexts s" "d' \<in> contexts s" for d d'
    using wf that by (auto simp: wf_defs)
  have dir1: "pagedir s1 d = pagedir s d" if "d \<in> contexts s" for d
    using fresh(1) [OF that] dirs [OF that c] by (auto simp: s1_def pagedir_def zero_page_def)
  have act: "set (active_contexts s1) \<subseteq> contexts s" "active_contexts s1 = active_contexts s"
    by (auto simp: s1_def contexts_def)
  have words: "page_words s1 q j =
      (if q = p \<and> j < 1024 then 0 else if q = pagedir s c \<and> j = i then e else page_words s q j)" for q j
    using fresh(2) [OF c] by (auto simp: s1_def)
  have used: "\<forall>q. page_aligned q \<longrightarrow> pmm_is_used q (books s1) \<longleftrightarrow> q = p \<or> pmm_is_used q (books s)"
    using alloc_pagetableE(3) [OF alloc] by (simp add: s1_def)
  show ?thesis
  proof (cases k)
    case False
    then show ?thesis
      using words used by (auto simp: table_installed_def install_in_def s1_def)
  next
    case True
    have "share_entry (pagedir s c) i s1 = s1\<lparr>page_words := (\<lambda>q j.
        if q \<in> pagedir s ` set (active_contexts s) \<and> j = i then e else page_words s1 q j)\<rparr>"
    proof -
      have "pagedir s1 ` set (active_contexts s1) = pagedir s ` set (active_contexts s)"
        using dir1 act by (auto intro!: image_eqI)
      moreover have "page_words s1 (pagedir s c) i = e" using fresh(2) [OF c] by (simp add: words)
      ultimately show ?thesis
        unfolding share_entry_def using act dir1 dirs by (subst share_entry_fold) (auto simp: subset_iff)
    qed
    moreover have "pagedir s ` contexts s = insert (pagedir s c) (pagedir s ` set (active_contexts s))"
      using k True by (simp add: contexts_def)
    moreover have "p \<notin> pagedir s ` contexts s" using fresh(2) by auto
    ultimately show ?thesis
      using True words used by (auto simp: table_installed_def install_in_def s1_def)
  qed
qed

lemma map_unsafe_absent:
  assumes wf: "vmm_wf s" and c: "c \<in> contexts s" and k: "k \<longleftrightarrow> c = kernel_context s"
    and absent: "\<not> present (pde s c (pd_index virt))" "\<not> present (pde s (kernel_context s) (pd_index virt))"
    and f: "flags AND 0xfff = flags" and alloc: "pmm_alloc_pagetable (books s) = Inr (p, b)"
  obtains s' where "vmm_map_page_unsafe k (pagedir s c) virt phys flags s = Inr s'" and "vmm_wf s'"
    and "same_spaces s s'"
    and "k \<or> (\<forall>i<1024. pde s' (kernel_context s) i = pde s (kernel_context s) i)"
    and "\<forall>d\<in>contexts s. \<forall>v. view s' d v =
      (if v div 0x1000 = virt div 0x1000 \<and> d \<in> install_in k c s then phys OR flags
       else if pd_index v = pd_index virt \<and> d \<in> install_in k c s then 0 else view s d v)"
proof -
  define e where "e = p OR PTE_PRESENT OR flags"
  define s0 where "s0 = put_word (pagedir s c) (pd_index virt) e (zero_page p (s\<lparr>books := b\<rparr>))"
  define s1 where "s1 = (if k then share_entry (pagedir s c) (pd_index virt) s0 else s0)"
  have inst: "table_installed s p e (install_in k c s) (pd_index virt) s1"
    unfolding s1_def s0_def e_def using k by (intro table_installed_map [OF wf c _ alloc]) simp
  have e: "present e" "entry_page e = p"
    using alloc_pagetableE(1) [OF alloc] f by (simp_all add: e_def entry_page_table)
  have D: "install_in k c s \<subseteq> contexts s" "c \<in> install_in k c s" using c by (auto simp: install_in_def)
  note i = install_table [OF wf inst D(1) alloc_pagetableE(1,2) [OF alloc] e index_bounds(1) absent(2)]
  note inst' = i
  have side: "kernel_context s \<in> install_in k c s \<longrightarrow> install_in k c s = contexts s"
    "kernel_context s \<notin> install_in k c s \<longrightarrow> (\<exists>c'. install_in k c s = {c'})"
    using k by (auto simp: install_in_def)
  note i = inst' [OF side]
  have spaces: "contexts s1 = contexts s" "kernel_context s1 = kernel_context s"
    "active_contexts s1 = active_contexts s" "cr3 s1 = cr3 s"
    using inst by (auto simp: table_installed_def contexts_def)
  have pde1: "pde s1 d (pd_index virt) = e \<longleftrightarrow> d \<in> install_in k c s" if d: "d \<in> contexts s" for d
  proof -
    have "pde s d (pd_index virt) \<noteq> e"
      using fresh_page(3) [OF wf alloc_pagetableE(2) [OF alloc] d, of "pd_index virt"] e
      by (auto simp: tbl_def)
    then show ?thesis using i(2) [OF d] by simp
  qed
  have c1: "c \<in> contexts s1" "present (pde s1 c (pd_index virt))"
    using c spaces pde1 [OF c] D e by auto
  obtain s' where s': "vmm_map_page_unsafe k (pagedir s1 c) virt phys flags s1 = Inr s'" "vmm_wf s'" "same_spaces s1 s'"
      "\<forall>d\<in>contexts s1. \<forall>i. pde s' d i = pde s1 d i"
      "\<forall>d\<in>contexts s1. \<forall>v. view s' d v =
        (if v div 0x1000 = virt div 0x1000 \<and> pde s1 d (pd_index virt) = pde s1 c (pd_index virt)
         then phys OR flags else view s1 d v)"
    using map_unsafe_present [OF i(4) c1] .
  have "tbl s1 c (pd_index virt) = p" using pde1 [OF c] D e by (simp add: tbl_def)
  then have "s' = put_word p (pt_index virt) (phys OR flags) s1"
    using s'(1) c1(2) by (simp add: vmm_map_page_unsafe_def tbl_def pde_def)
  then have "vmm_map_page_unsafe k (pagedir s c) virt phys flags s = Inr s'"
    using absent(1) alloc by (simp add: vmm_map_page_unsafe_def pde_def Let_def s1_def s0_def e_def)
  moreover have "same_spaces s s'"
    using s'(3) spaces i(1) by (auto simp: same_spaces_def)
  moreover have "k \<or> (\<forall>i<1024. pde s' (kernel_context s) i = pde s (kernel_context s) i)"
    using s'(4) spaces i(2) k by (auto simp: install_in_def)
  moreover have "\<forall>d\<in>contexts s. \<forall>v. view s' d v =
      (if v div 0x1000 = virt div 0x1000 \<and> d \<in> install_in k c s then phys OR flags
       else if pd_index v = pd_index virt \<and> d \<in> install_in k c s then 0 else view s d v)"
  proof (intro ballI allI)
    fix d v assume d: "d \<in> contexts s"
    have "pde s1 d (pd_index virt) = pde s1 c (pd_index virt) \<longleftrightarrow> d \<in> install_in k c s"
      using pde1 [OF d] pde1 [OF c] D(2) by simp
    with s'(5) i(3) [OF d, of v] d spaces show "view s' d v =
      (if v div 0x1000 = virt div 0x1000 \<and> d \<in> install_in k c s then phys OR flags
       else if pd_index v = pd_index virt \<and> d \<in> install_in k c s then 0 else view s d v)"
      by auto
  qed
  ultimately show thesis using that s'(2) by blast
qed

text \<open>Where the kernel has a table every context shares it.\<close>

lemma map_unsafe_shared:
  assumes wf: "vmm_wf s" and c: "c \<in> contexts s" and p: "present (pde s (kernel_context s) (pd_index virt))"
  obtains s' where "vmm_map_page_unsafe k (pagedir s c) virt phys flags s = Inr s'" and "vmm_wf s'"
    and "same_spaces s s'" and "present (pde s' (kernel_context s) (pd_index virt))"
    and "\<forall>d\<in>contexts s. \<forall>v. view s' d v = (if v div 0x1000 = virt div 0x1000 then phys OR flags else view s d v)"
proof -
  have same: "pde s d (pd_index virt) = pde s (kernel_context s) (pd_index virt)" if "d \<in> contexts s" for d
    by (rule wf_sharedD [OF wf that index_bounds(1) p])
  have "present (pde s c (pd_index virt))" using same [OF c] p by simp
  then obtain s' where s': "vmm_map_page_unsafe k (pagedir s c) virt phys flags s = Inr s'" "vmm_wf s'"
      "same_spaces s s'" "\<forall>d\<in>contexts s. \<forall>i. pde s' d i = pde s d i"
      "\<forall>d\<in>contexts s. \<forall>v. view s' d v =
        (if v div 0x1000 = virt div 0x1000 \<and> pde s d (pd_index virt) = pde s c (pd_index virt)
         then phys OR flags else view s d v)"
    by (rule map_unsafe_present [OF wf c])
  show thesis
  proof (rule that [OF s'(1-3)])
    show "present (pde s' (kernel_context s) (pd_index virt))" using s'(4) p by simp
    have "pde s d (pd_index virt) = pde s c (pd_index virt)" if "d \<in> contexts s" for d
      using same [OF that] same [OF c] by simp
    with s'(5) show "\<forall>d\<in>contexts s. \<forall>v. view s' d v =
        (if v div 0x1000 = virt div 0x1000 then phys OR flags else view s d v)" by simp
  qed
qed

lemma map_unsafe_cases:
  assumes wf: "vmm_wf s" and c: "c \<in> contexts s" and k: "k \<longleftrightarrow> c = kernel_context s"
    and absent: "\<not> present (pde s (kernel_context s) (pd_index virt))" and f: "flags AND 0xfff = flags"
  shows "vmm_map_page_unsafe k (pagedir s c) virt phys flags s = Inl (Abort ''Allocation failed!'') \<or>
    (\<exists>s'. vmm_map_page_unsafe k (pagedir s c) virt phys flags s = Inr s' \<and> vmm_wf s' \<and> same_spaces s s' \<and>
       (k \<or> (\<forall>i<1024. pde s' (kernel_context s) i = pde s (kernel_context s) i)) \<and>
       (\<forall>d\<in>contexts s. \<forall>v. view s' d v =
         (if v div 0x1000 = virt div 0x1000 \<and> d \<in> install_in k c s then phys OR flags
          else if k \<and> pd_index v = pd_index virt then 0 else view s d v)))"
proof (cases "present (pde s c (pd_index virt))")
  case True
  with absent k have nk: "\<not> k" "c \<noteq> kernel_context s" by auto
  have only: "pde s d (pd_index virt) = pde s c (pd_index virt) \<longleftrightarrow> d = c" if "d \<in> contexts s" for d
  proof
    assume eq: "pde s d (pd_index virt) = pde s c (pd_index virt)"
    then have "tbl s d (pd_index virt) = tbl s c (pd_index virt)" by (simp add: tbl_def)
    then show "d = c"
      using wf that c eq True absent index_bounds(1) [of virt] unfolding vmm_wf_def wf_private_def by metis
  qed simp
  obtain s' where s': "vmm_map_page_unsafe k (pagedir s c) virt phys flags s = Inr s'" "vmm_wf s'" "same_spaces s s'"
      "\<forall>d\<in>contexts s. \<forall>i. pde s' d i = pde s d i"
      "\<forall>d\<in>contexts s. \<forall>v. view s' d v =
        (if v div 0x1000 = virt div 0x1000 \<and> pde s d (pd_index virt) = pde s c (pd_index virt)
         then phys OR flags else view s d v)"
    by (rule map_unsafe_present [OF wf c True])
  then show ?thesis using nk only absent by (auto simp: install_in_def)
next
  case False
  consider "pmm_alloc_pagetable (books s) = Inl (Abort ''Allocation failed!'')"
    | p b where "pmm_alloc_pagetable (books s) = Inr (p, b)"
    using alloc_pagetable_cases by blast
  then show ?thesis
  proof cases
    case 1
    then show ?thesis using False by (simp add: vmm_map_page_unsafe_def pde_def)
  next
    case (2 p b)
    obtain s' where s': "vmm_map_page_unsafe k (pagedir s c) virt phys flags s = Inr s'" "vmm_wf s'" "same_spaces s s'"
        "k \<or> (\<forall>i<1024. pde s' (kernel_context s) i = pde s (kernel_context s) i)"
        "\<forall>d\<in>contexts s. \<forall>v. view s' d v =
          (if v div 0x1000 = virt div 0x1000 \<and> d \<in> install_in k c s then phys OR flags
           else if pd_index v = pd_index virt \<and> d \<in> install_in k c s then 0 else view s d v)"
      by (rule map_unsafe_absent [OF wf c k False absent f 2])
    moreover have "view s c v = 0" if "pd_index v = pd_index virt" for v
      using False that by (simp add: view_def)
    ultimately show ?thesis by (intro disjI2 exI [of _ s']) (auto simp: install_in_def)
  qed
qed

lemma map_unsafe_fails:
  assumes "vmm_map_page_unsafe k dir virt phys flags s = Inl e"
  shows "\<forall>i. \<not> page_available True (books s) i"
proof (rule ccontr)
  assume "\<not> ?thesis"
  then have "\<exists>p b. pmm_alloc_pagetable (books s) = Inr (p, b)"
    by (auto simp: pmm_alloc_pagetable_def pmm_alloc_from_eq Let_def)
  with assms show False by (auto simp: vmm_map_page_unsafe_def Let_def split: if_splits)
qed

text \<open>The address a present or cleared entry leads to.\<close>

lemma lookup_entry:
  "page_aligned phys \<Longrightarrow> flags AND 0xfff = flags \<Longrightarrow> view s c v = phys OR flags \<Longrightarrow>
   vmm_lookup v c s = (if present flags then phys + v mod 0x1000 else 0)"
  by (simp add: vmm_lookup_view present_or entry_page_or)

lemma lookup_same: "view s' c v = view s c v \<Longrightarrow> vmm_lookup v c s' = vmm_lookup v c s"
  by (simp add: vmm_lookup_view)

lemma vmm_map_user:
  assumes wf: "vmm_wf s" and c: "c \<in> contexts s" "c \<noteq> kernel_context s"
    and al: "page_aligned virt" "page_aligned phys" and f: "flags AND 0xfff = flags"
    and free: "\<not> present (page_words s (pagedir s (kernel_context s)) (pd_index virt))"
  shows "vmm_map_page c virt phys flags s = Inl (Abort ''Allocation failed!'') \<and>
      (\<forall>i. \<not> page_available True (books s) i) \<or>
    (\<exists>s'. vmm_map_page c virt phys flags s = Inr (0, s') \<and> vmm_wf s' \<and> contexts s' = contexts s \<and>
       (\<forall>v. vmm_lookup v c s' =
          (if v div 0x1000 = virt div 0x1000 then if present flags then phys + v mod 0x1000 else 0
           else vmm_lookup v c s)) \<and>
       (\<forall>d\<in>contexts s - {c}. \<forall>v. vmm_lookup v d s' = vmm_lookup v d s) \<and> same_spaces s s' \<and>
       (\<forall>i<1024. page_words s' (pagedir s' (kernel_context s')) i = page_words s (pagedir s (kernel_context s)) i))"
proof -
  have free': "\<not> present (pde s (kernel_context s) (pd_index virt))" using free by (simp add: pde_def)
  have map: "vmm_map_page c virt phys flags s =
      kbind (vmm_map_page_unsafe False (pagedir s c) virt phys flags s) (\<lambda>s1. Inr (0, s1))"
    using al c(2) free by (simp add: vmm_map_page_def page_aligned_def)
  from map_unsafe_cases [OF wf c(1) _ free' f, of False phys] c(2)
  consider "vmm_map_page_unsafe False (pagedir s c) virt phys flags s = Inl (Abort ''Allocation failed!'')"
    | s' where "vmm_map_page_unsafe False (pagedir s c) virt phys flags s = Inr s'" "vmm_wf s'" "same_spaces s s'"
      "\<forall>i<1024. pde s' (kernel_context s) i = pde s (kernel_context s) i"
      "\<forall>d\<in>contexts s. \<forall>v. view s' d v =
         (if v div 0x1000 = virt div 0x1000 \<and> d = c then phys OR flags else view s d v)"
    by (auto simp: install_in_def)
  then show ?thesis
  proof cases
    case 1
    then show ?thesis using map_unsafe_fails [OF 1] by (simp add: map)
  next
    case (2 s')
    have "vmm_lookup v c s' =
        (if v div 0x1000 = virt div 0x1000 then if present flags then phys + v mod 0x1000 else 0
         else vmm_lookup v c s)" for v
      using 2(5) c(1) lookup_entry [OF al(2) f, of s' c v] lookup_same [of s' c v s] by auto
    moreover have "vmm_lookup v d s' = vmm_lookup v d s" if "d \<in> contexts s - {c}" for d v
      using 2(5) that by (intro lookup_same) auto
    ultimately show ?thesis
      using 2(1-4) same_spacesD(1,2) [OF 2(3)] by (simp add: map pde_def)
  qed
qed

text \<open>
  Mapping a page into a task's address space. For page-aligned addresses outside the
  kernel's part of the directory, \<open>vmm_map_page\<close> either panics because the paging area is
  exhausted or succeeds: afterwards exactly the page asked for is translated to \<open>phys\<close> in this
  context (or to nothing when the present flag is missing), every other address of this context
  and every address of every other context translates as before, and the page tables stay well
  formed.
\<close>

theorem vmm_map_page_user:
  assumes wf: "vmm_wf s" and c: "c \<in> contexts s" "c \<noteq> kernel_context s"
    and al: "page_aligned virt" "page_aligned phys" and f: "flags AND 0xfff = flags"
    and free: "\<not> present (page_words s (pagedir s (kernel_context s)) (pd_index virt))"
  shows "vmm_map_page c virt phys flags s = Inl (Abort ''Allocation failed!'') \<and>
      (\<forall>i. \<not> page_available True (books s) i) \<or>
    (\<exists>s'. vmm_map_page c virt phys flags s = Inr (0, s') \<and> vmm_wf s' \<and> contexts s' = contexts s \<and>
       (\<forall>v. vmm_lookup v c s' =
          (if v div 0x1000 = virt div 0x1000 then if present flags then phys + v mod 0x1000 else 0
           else vmm_lookup v c s)) \<and>
       (\<forall>d\<in>contexts s - {c}. \<forall>v. vmm_lookup v d s' = vmm_lookup v d s))"
  using vmm_map_user [OF assms] by blast

lemma kernel_map_eq:
  assumes "vmm_wf s" and "page_aligned virt" and "page_aligned phys"
  obtains c where "c \<in> contexts s" and "cr3 s = pagedir s c"
    and "vmm_map_page (kernel_context s) virt phys flags s =
      kbind (if c \<noteq> kernel_context s then vmm_map_page_unsafe False (pagedir s c) virt phys flags s else Inr s) (\<lambda>s1.
      kbind (vmm_map_page_unsafe True (pagedir s1 (kernel_context s)) virt phys flags s1) (\<lambda>s2. Inr (0, s2)))"
proof -
  obtain c where c: "c \<in> contexts s" "cr3 s = pagedir s c"
    using assms(1) by (auto simp: wf_defs)
  moreover have "pagedir s c = pagedir s (kernel_context s) \<longleftrightarrow> c = kernel_context s"
    using assms(1) c(1) kernel_in_contexts [of s] unfolding vmm_wf_def wf_dirs_def by blast
  ultimately show thesis
    using that [of c] assms(2,3) by (simp add: vmm_map_page_def page_aligned_def)
qed

lemma vmm_map_page_kernel_view:
  assumes wf: "vmm_wf s" and al: "page_aligned virt" "page_aligned phys" and f: "flags AND 0xfff = flags"
  shows "vmm_map_page (kernel_context s) virt phys flags s = Inl (Abort ''Allocation failed!'') \<or>
    (\<exists>s'. vmm_map_page (kernel_context s) virt phys flags s = Inr (0, s') \<and> vmm_wf s' \<and> same_spaces s s' \<and>
       (\<forall>d\<in>contexts s. \<forall>v. v div 0x1000 = virt div 0x1000 \<longrightarrow> view s' d v = phys OR flags) \<and>
       (\<forall>v. v div 0x1000 \<noteq> virt div 0x1000 \<longrightarrow> view s' (kernel_context s) v = view s (kernel_context s) v))"
proof -
  obtain c where c: "c \<in> contexts s" and map: "vmm_map_page (kernel_context s) virt phys flags s =
      kbind (if c \<noteq> kernel_context s then vmm_map_page_unsafe False (pagedir s c) virt phys flags s else Inr s) (\<lambda>s1.
      kbind (vmm_map_page_unsafe True (pagedir s1 (kernel_context s)) virt phys flags s1) (\<lambda>s2. Inr (0, s2)))"
    by (rule kernel_map_eq [OF wf al])
  show ?thesis
  proof (cases "present (pde s (kernel_context s) (pd_index virt))")
    case True
    obtain s1 where s1: "(if c \<noteq> kernel_context s then vmm_map_page_unsafe False (pagedir s c) virt phys flags s else Inr s) = Inr s1"
        "vmm_wf s1" "same_spaces s s1" "present (pde s1 (kernel_context s) (pd_index virt))"
        "\<forall>d\<in>contexts s. \<forall>v. v div 0x1000 \<noteq> virt div 0x1000 \<longrightarrow> view s1 d v = view s d v"
    proof (cases "c = kernel_context s")
      case k: True
      with wf True that [of s] show thesis by (simp add: same_spaces_def)
    next
      case False
      show thesis
        by (rule map_unsafe_shared [OF wf c True, of False phys flags]) (use that False in simp)
    qed
    note sp = same_spacesD [OF s1(3)]
    have k1: "kernel_context s \<in> contexts s1" using sp by simp
    obtain s2 where s2: "vmm_map_page_unsafe True (pagedir s1 (kernel_context s)) virt phys flags s1 = Inr s2" "vmm_wf s2"
        "same_spaces s1 s2"
        "\<forall>d\<in>contexts s1. \<forall>v. view s2 d v = (if v div 0x1000 = virt div 0x1000 then phys OR flags else view s1 d v)"
      using map_unsafe_shared [OF s1(2) k1, of virt True phys flags] s1(4) sp(2) by metis
    then show ?thesis
      using s1 sp by (intro disjI2 exI [of _ s2]) (auto simp: map same_spaces_def)
  next
    case False
    consider (fail) "c \<noteq> kernel_context s" "vmm_map_page_unsafe False (pagedir s c) virt phys flags s = Inl (Abort ''Allocation failed!'')"
      | (ok) s1 where "(if c \<noteq> kernel_context s then vmm_map_page_unsafe False (pagedir s c) virt phys flags s else Inr s) = Inr s1"
        "vmm_wf s1" "same_spaces s s1" "\<forall>i<1024. pde s1 (kernel_context s) i = pde s (kernel_context s) i"
        "\<forall>v. view s1 (kernel_context s) v = view s (kernel_context s) v"
    proof (cases "c = kernel_context s")
      case True
      with False wf that(2) [of s] show thesis by (simp add: same_spaces_def)
    next
      case nk: False
      with map_unsafe_cases [OF wf c _ False f, of False phys] that show thesis
        by (auto simp: install_in_def)
    qed
    then show ?thesis
    proof cases
      case fail
      then show ?thesis by (simp add: map)
    next
      case (ok s1)
      note sp = same_spacesD [OF ok(3)]
      have k1: "kernel_context s \<in> contexts s1" and abs1: "\<not> present (pde s1 (kernel_context s1) (pd_index virt))"
        using sp ok(4) False by simp_all
      have zero: "view s (kernel_context s) v = 0" if "pd_index v = pd_index virt" for v
        using False that by (simp add: view_def)
      from map_unsafe_cases [OF ok(2) k1 _ abs1 f, of True phys] sp(2)
      consider "vmm_map_page_unsafe True (pagedir s1 (kernel_context s)) virt phys flags s1 = Inl (Abort ''Allocation failed!'')"
        | s2 where "vmm_map_page_unsafe True (pagedir s1 (kernel_context s)) virt phys flags s1 = Inr s2" "vmm_wf s2"
          "same_spaces s1 s2" "\<forall>d\<in>contexts s1. \<forall>v. view s2 d v =
             (if v div 0x1000 = virt div 0x1000 then phys OR flags
              else if pd_index v = pd_index virt then 0 else view s1 d v)"
        by (auto simp: install_in_def)
      then show ?thesis
      proof cases
        case 1
        then show ?thesis using ok(1) by (simp add: map)
      next
        case (2 s2)
        then show ?thesis
          using ok sp zero by (intro disjI2 exI [of _ s2]) (auto simp: map same_spaces_def)
      qed
    qed
  qed
qed

text \<open>
  Kernel mappings reach every task. For page-aligned addresses, \<open>vmm_map_page\<close> on the kernel
  context panics because the paging area is exhausted or succeeds: afterwards the kernel context
  and every active task's context translate the page alike, all other kernel addresses
  translate as before, and the page tables are well formed, so all contexts still agree on the
  kernel's part of the directory. This holds whichever context the processor is using.
\<close>

theorem vmm_map_page_kernel:
  assumes wf: "vmm_wf s" and al: "page_aligned virt" "page_aligned phys" and f: "flags AND 0xfff = flags"
  shows "vmm_map_page (kernel_context s) virt phys flags s = Inl (Abort ''Allocation failed!'') \<or>
    (\<exists>s'. vmm_map_page (kernel_context s) virt phys flags s = Inr (0, s') \<and> vmm_wf s' \<and> contexts s' = contexts s \<and>
       (\<forall>d\<in>contexts s. \<forall>v. v div 0x1000 = virt div 0x1000 \<longrightarrow>
          vmm_lookup v d s' = (if present flags then phys + v mod 0x1000 else 0)) \<and>
       (\<forall>v. v div 0x1000 \<noteq> virt div 0x1000 \<longrightarrow>
          vmm_lookup v (kernel_context s) s' = vmm_lookup v (kernel_context s) s))"
  using vmm_map_page_kernel_view [OF assms]
proof (elim disjE exE conjE, goal_cases)
  case (2 s')
  have "vmm_lookup v d s' = (if present flags then phys + v mod 0x1000 else 0)"
    if "d \<in> contexts s" "v div 0x1000 = virt div 0x1000" for d v
    using 2 that by (intro lookup_entry [OF al(2) f]) simp
  moreover have "vmm_lookup v (kernel_context s) s' = vmm_lookup v (kernel_context s) s"
    if "v div 0x1000 \<noteq> virt div 0x1000" for v
    using 2 that by (intro lookup_same) simp
  ultimately show ?case using 2 by (auto simp: same_spaces_def)
qed simp

text \<open>
  The refusals of \<open>vmm_map_page\<close>: an address that is not page aligned gives -1 and changes
  nothing; a mapping in a task's context where the kernel has a page table panics.
\<close>

theorem vmm_map_page_refused:
  "(\<not> page_aligned virt \<or> \<not> page_aligned phys \<longrightarrow> vmm_map_page c virt phys flags s = Inr (-1, s)) \<and>
   (page_aligned virt \<and> page_aligned phys \<and> c \<noteq> kernel_context s \<and>
      present (page_words s (pagedir s (kernel_context s)) (pd_index virt)) \<longrightarrow>
    vmm_map_page c virt phys flags s = Inl (Abort ''overlapping with the kernel''))"
  by (simp add: vmm_map_page_def page_aligned_def)

section \<open>A small instance\<close>

text \<open>
  A kernel context and one task, both with empty directories, and two free pages in the paging
  area.
\<close>

definition demo_vmm :: vmm where
  "demo_vmm = \<lparr>books = \<lparr>bitmap = bitmap_clear (bitmap_clear (\<lambda>_. 0) 5) 6, bitmap_pagetable_mask = (\<lambda>_. 0),
       free_memory = 0x2000, used_memory = 0\<rparr>,
     page_words = (\<lambda>p i. if i = 0 then if p = 0x1000 then 0x2000 else if p = 0x3000 then 0x4000 else 0 else 0),
     ram = (\<lambda>_. 0), kernel_context = 0x1000, active_contexts = [0x3000], cr3 = 0x2000\<rparr>"

lemma bitmap_test_zero: "bitmap_test (\<lambda>_. 0) i"
  by (simp add: bitmap_test_def)

lemma demo_used_vmm: "pmm_is_used q (books demo_vmm) \<longleftrightarrow> page_index q \<noteq> 5 \<and> page_index q \<noteq> 6"
  by (auto simp: demo_vmm_def pmm_is_used_def bitmap_test_clear bitmap_test_zero)

lemma demo_available_vmm: "page_available True (books demo_vmm) i \<longleftrightarrow> i = 5 \<or> i = 6"
  by (auto simp: page_available_def demo_vmm_def bitmap_test_clear bitmap_test_zero NPAGES_def BITMAP_SIZE_def)

lemma demo_vmm_sel [simp]:
  "contexts demo_vmm = {0x1000, 0x3000}" "kernel_context demo_vmm = 0x1000" "cr3 demo_vmm = 0x2000"
  "pagedir demo_vmm 0x1000 = 0x2000" "pagedir demo_vmm 0x3000 = 0x4000"
  "pde demo_vmm 0x1000 i = 0" "pde demo_vmm 0x3000 i = 0"
  "page_words demo_vmm 0x2000 i = 0" "page_words demo_vmm 0x4000 i = 0"
  by (simp_all add: demo_vmm_def contexts_def pagedir_def pde_def)

lemma demo_vmm_wf: "vmm_wf demo_vmm"
  by (auto simp: wf_defs demo_used_vmm page_aligned_def page_index_def)

lemma vmm_map_page_user_witness:
  "\<exists>s'. vmm_map_page 0x3000 0xB0000000 0x7000 7 demo_vmm = Inr (0, s') \<and> vmm_wf s' \<and>
        vmm_lookup 0xB0000123 0x3000 s' = 0x7123 \<and> vmm_lookup 0xB0001000 0x3000 s' = 0"
proof -
  have *: "\<not> (\<forall>i. \<not> page_available True (books demo_vmm) i)" by (auto simp: demo_available_vmm)
  have old: "vmm_lookup 0xB0001000 0x3000 demo_vmm = 0" by (simp add: vmm_lookup_def)
  from vmm_map_page_user [OF demo_vmm_wf, of "0x3000" "0xB0000000" "0x7000" 7] * obtain s' where
    s': "vmm_map_page 0x3000 0xB0000000 0x7000 7 demo_vmm = Inr (0, s')" "vmm_wf s'"
    "\<forall>v. vmm_lookup v 0x3000 s' = (if v div 0x1000 = 0xB0000000 div 0x1000
       then if present 7 then 0x7000 + v mod 0x1000 else 0 else vmm_lookup v 0x3000 demo_vmm)"
    by (auto simp: page_aligned_def)
  have "vmm_lookup 0xB0000123 0x3000 s' = 0x7123" "vmm_lookup 0xB0001000 0x3000 s' = 0"
    using s'(3) [rule_format, of "0xB0000123"] s'(3) [rule_format, of "0xB0001000"] old
    by (simp_all add: present_def PTE_PRESENT_def)
  with s'(1,2) show ?thesis by blast
qed

lemma vmm_map_page_kernel_witness:
  "vmm_map_page 0x1000 0x400000 0x400000 3 demo_vmm = Inl (Abort ''Allocation failed!'') \<or>
   (\<exists>s'. vmm_map_page 0x1000 0x400000 0x400000 3 demo_vmm = Inr (0, s') \<and>
         vmm_lookup 0x400010 0x3000 s' = 0x400010 \<and> vmm_lookup 0x400010 0x1000 s' = 0x400010)"
  using vmm_map_page_kernel [OF demo_vmm_wf, of "0x400000" "0x400000" 3]
  by (force simp: page_aligned_def present_def PTE_PRESENT_def)

lemma vmm_map_page_refused_witness:
  "vmm_map_page 0x3000 0xB0000001 0x7000 7 demo_vmm = Inr (-1, demo_vmm)"
  using vmm_map_page_refused [of "0xB0000001" "0x7000" "0x3000" 7 demo_vmm] by (simp add: page_aligned_def)

end
