(* ===== verification/Vmm_Life.thy ===== *)
theory Vmm_Life
  imports Vmm_Spaces
begin

text \<open>
  The life of an address space: creation with the kernel mapped in, mapping of regions, access
  from another context, and destruction.
\<close>

section \<open>Creation\<close>

lemma clone_fold:
  assumes "c \<noteq> pagedir s c" and "kernel_context s \<noteq> pagedir s c"
    and "pagedir s (kernel_context s) \<noteq> pagedir s c" and "n \<le> 1024"
  shows "fold (\<lambda>i s. if present (page_words s (pagedir s (kernel_context s)) i)
                 then put_word (pagedir s c) i (page_words s (pagedir s (kernel_context s)) i) s
                 else s) [0..<n] s =
    s\<lparr>page_words := (\<lambda>q j. if q = pagedir s c \<and> j < n \<and> present (page_words s (pagedir s (kernel_context s)) j)
                          then page_words s (pagedir s (kernel_context s)) j else page_words s q j)\<rparr>"
  using assms(4)
proof (induction n)
  case 0
  then show ?case by simp
next
  case (Suc n)
  define s1 where "s1 = s\<lparr>page_words := (\<lambda>q j. if q = pagedir s c \<and> j < n \<and> present (page_words s (pagedir s (kernel_context s)) j)
                          then page_words s (pagedir s (kernel_context s)) j else page_words s q j)\<rparr>"
  have dirs: "pagedir s1 c = pagedir s c" "pagedir s1 (kernel_context s1) = pagedir s (kernel_context s)"
    using assms by (auto simp: s1_def pagedir_def)
  have words: "page_words s1 (pagedir s (kernel_context s)) n = page_words s (pagedir s (kernel_context s)) n"
    using assms by (simp add: s1_def)
  have "fold (\<lambda>i s. if present (page_words s (pagedir s (kernel_context s)) i)
                 then put_word (pagedir s c) i (page_words s (pagedir s (kernel_context s)) i) s
                 else s) [0..<n] s = s1"
    using Suc by (simp add: s1_def)
  then show ?case
    using dirs words by (auto simp: s1_def put_word_def fun_eq_iff less_Suc_eq intro!: vmm.equality)
qed

lemma vmm_create_contextE:
  assumes "vmm_wf s" and "vmm_create_context s = Inr (c, s1)"
  obtains d b1 b2 where "pmm_alloc_pagetable (books s) = Inr (c, b1)" and "pmm_alloc_pagetable b1 = Inr (d, b2)"
    and "s1 = zero_page d (put_word c 0 d (s\<lparr>books := b2\<rparr>))"
    and "c \<noteq> d" and "c \<notin> contexts s" and "d \<notin> contexts s"
proof -
  from assms(2) obtain d b1 b2 where a: "pmm_alloc_pagetable (books s) = Inr (c, b1)" "pmm_alloc_pagetable b1 = Inr (d, b2)"
      "s1 = zero_page d (put_word c 0 d (s\<lparr>books := b2\<rparr>))"
    by (auto simp: vmm_create_context_def)
  note c = alloc_pagetableE [OF a(1)] and d = alloc_pagetableE [OF a(2)]
  have "c \<noteq> d" using c(1,3) d(1,2) by auto
  moreover have "e \<noteq> c \<and> e \<noteq> d" if "e \<in> contexts s" for e
    using that assms(1) c d by (auto simp: wf_defs)
  ultimately show thesis using that a by blast
qed

lemma created_context:
  assumes wf: "vmm_wf s" and create: "vmm_create_context s = Inr (c, s1)"
  defines "s2 \<equiv> vmm_clone_kernel_context c s1"
  shows "c \<notin> contexts s" and "kernel_context s2 = kernel_context s" and "active_contexts s2 = active_contexts s"
    and "cr3 s2 = cr3 s"
    and "page_aligned q \<Longrightarrow> pmm_is_used q (books s2) \<longleftrightarrow> q = c \<or> q = pagedir s2 c \<or> pmm_is_used q (books s)"
    and "page_aligned c" and "page_aligned (pagedir s2 c)" and "c \<noteq> pagedir s2 c"
    and "\<not> pmm_is_used c (books s)" and "\<not> pmm_is_used (pagedir s2 c) (books s)"
    and "i < 1024 \<Longrightarrow> pde s2 c i = (if present (pde s (kernel_context s) i) then pde s (kernel_context s) i else 0)"
    and "q \<noteq> c \<Longrightarrow> q \<noteq> pagedir s2 c \<Longrightarrow> page_words s2 q j = page_words s q j"
    and "pagedir s2 c = pagedir s1 c" and "books s2 = books s1"
proof -
  obtain d b1 b2 where a: "pmm_alloc_pagetable (books s) = Inr (c, b1)" "pmm_alloc_pagetable b1 = Inr (d, b2)"
      and s1: "s1 = zero_page d (put_word c 0 d (s\<lparr>books := b2\<rparr>))"
      and cd: "c \<noteq> d" "c \<notin> contexts s" "d \<notin> contexts s"
    by (rule vmm_create_contextE [OF wf create])
  note pc = alloc_pagetableE [OF a(1)] and pd = alloc_pagetableE [OF a(2)]
  have unused: "\<not> pmm_is_used d (books s)" using pc(3) [OF pd(1)] pd(2) by simp
  have k: "kernel_context s \<noteq> c" "kernel_context s \<noteq> d" using cd kernel_in_contexts [of s] by auto
  have kd: "pagedir s (kernel_context s) \<noteq> c" "pagedir s (kernel_context s) \<noteq> d"
    using wf pc(2) unused kernel_in_contexts [of s] by (auto simp: wf_defs)
  have dir1: "pagedir s1 c = d" "pagedir s1 (kernel_context s) = pagedir s (kernel_context s)"
      "kernel_context s1 = kernel_context s"
    using cd k by (simp_all add: s1 pagedir_def)
  have s2: "s2 = s1\<lparr>page_words := (\<lambda>q j. if q = d \<and> j < 1024 \<and> present (page_words s1 (pagedir s (kernel_context s)) j)
                          then page_words s1 (pagedir s (kernel_context s)) j else page_words s1 q j)\<rparr>"
    unfolding s2_def vmm_clone_kernel_context_def
    using clone_fold [of c s1 1024] cd k kd dir1 by (simp cong: if_cong)
  have books2: "books s2 = b2" by (simp add: s2 s1)
  have dir2: "pagedir s2 c = d" using cd dir1 by (simp add: s2 pagedir_def)
  show "pagedir s2 c = pagedir s1 c" by (simp add: dir1 dir2)
  show "books s2 = books s1" by (simp add: s2)
  show "c \<notin> contexts s" "page_aligned c" "page_aligned (pagedir s2 c)" "c \<noteq> pagedir s2 c"
    "\<not> pmm_is_used c (books s)" "\<not> pmm_is_used (pagedir s2 c) (books s)"
    using cd pc pd unused dir2 by simp_all
  show "kernel_context s2 = kernel_context s" "active_contexts s2 = active_contexts s" "cr3 s2 = cr3 s"
    by (simp_all add: s2 s1)
  show "page_aligned q \<Longrightarrow> pmm_is_used q (books s2) \<longleftrightarrow> q = c \<or> q = pagedir s2 c \<or> pmm_is_used q (books s)"
    using pc(3) pd(3) by (auto simp: dir2 books2)
  show "i < 1024 \<Longrightarrow> pde s2 c i = (if present (pde s (kernel_context s) i) then pde s (kernel_context s) i else 0)"
    using kd by (simp add: pde_def dir2) (simp add: s2 s1 cd)
  show "q \<noteq> c \<Longrightarrow> q \<noteq> pagedir s2 c \<Longrightarrow> page_words s2 q j = page_words s q j"
    by (simp add: dir2) (simp add: s2 s1)
qed

text \<open>A context that was created and given the part of the kernel.\<close>

definition created :: "vmm \<Rightarrow> u32 \<Rightarrow> vmm \<Rightarrow> bool" where
  "created s c s2 \<longleftrightarrow> vmm_wf s \<and> (\<exists>s1. vmm_create_context s = Inr (c, s1) \<and> s2 = vmm_clone_kernel_context c s1)"

lemma created_wf: "created s c s2 \<Longrightarrow> vmm_wf s"
  by (simp add: created_def)

lemma created_fresh:
  assumes "created s c s2" and "e \<in> contexts s"
  shows "e \<noteq> c" and "e \<noteq> pagedir s2 c" and "pagedir s e \<noteq> c" and "pagedir s e \<noteq> pagedir s2 c"
    and "i < 1024 \<Longrightarrow> present (pde s e i) \<Longrightarrow> tbl s e i \<noteq> c" and "i < 1024 \<Longrightarrow> present (pde s e i) \<Longrightarrow> tbl s e i \<noteq> pagedir s2 c"
proof -
  obtain s1 where "vmm_wf s" "vmm_create_context s = Inr (c, s1)" "s2 = vmm_clone_kernel_context c s1" using assms(1) by (auto simp: created_def)
  note n = created_context [OF this(1,2), folded this(3)] and wf = this(1)
  show "e \<noteq> c" "e \<noteq> pagedir s2 c" "pagedir s e \<noteq> c" "pagedir s e \<noteq> pagedir s2 c"
    "i < 1024 \<Longrightarrow> present (pde s e i) \<Longrightarrow> tbl s e i \<noteq> c" "i < 1024 \<Longrightarrow> present (pde s e i) \<Longrightarrow> tbl s e i \<noteq> pagedir s2 c"
    using fresh_page(1-3) [OF wf n(9) assms(2)] fresh_page(1-3) [OF wf n(10) assms(2)] by auto
qed

text \<open>The directories and tables of the old contexts stay, and the new one has those of the kernel.\<close>

lemma created_old:
  assumes "created s c s2" and "e \<in> contexts s"
  shows "pagedir s2 e = pagedir s e" and "pde s2 e i = pde s e i" and "tbl s2 e i = tbl s e i"
    and "view s2 e v = view s e v"
proof -
  obtain s1 where "vmm_wf s" "vmm_create_context s = Inr (c, s1)" "s2 = vmm_clone_kernel_context c s1" using assms(1) by (auto simp: created_def)
  note words = created_context(12) [OF this(1,2), folded this(3)]
  note d = created_fresh [OF assms]
  show dir: "pagedir s2 e = pagedir s e" using words [of e] d(1,2) by (simp add: pagedir_def)
  show pde2: "pde s2 e i = pde s e i" for i using words [of "pagedir s e"] d(3,4) by (simp add: pde_def dir)
  then show "tbl s2 e i = tbl s e i" by (simp add: tbl_def)
  show "view s2 e v = view s e v" using d(5,6) [OF index_bounds(1), of v] words by (simp add: view_def pde2 tbl_def)
qed

lemma created_new:
  assumes "created s c s2" and "i < 1024"
  shows "present (pde s2 c i) \<longleftrightarrow> present (pde s (kernel_context s) i)"
    and "present (pde s (kernel_context s) i) \<Longrightarrow> pde s2 c i = pde s (kernel_context s) i"
    and "present (pde s (kernel_context s) i) \<Longrightarrow> tbl s2 c i = tbl s (kernel_context s) i"
proof -
  obtain s1 where "vmm_wf s" "vmm_create_context s = Inr (c, s1)" "s2 = vmm_clone_kernel_context c s1" using assms(1) by (auto simp: created_def)
  note n = created_context(11) [OF this(1,2) assms(2), folded this(3)]
  then show "present (pde s2 c i) \<longleftrightarrow> present (pde s (kernel_context s) i)"
    "present (pde s (kernel_context s) i) \<Longrightarrow> pde s2 c i = pde s (kernel_context s) i"
    "present (pde s (kernel_context s) i) \<Longrightarrow> tbl s2 c i = tbl s (kernel_context s) i" by (auto simp: tbl_def)
qed

lemma created_view:
  assumes "created s c s2"
  shows "view s2 c v = view s (kernel_context s) v"
proof -
  obtain s1 where "vmm_wf s" "vmm_create_context s = Inr (c, s1)" "s2 = vmm_clone_kernel_context c s1" using assms by (auto simp: created_def)
  note words = created_context(12) [OF this(1,2), folded this(3)]
  show ?thesis using created_fresh(5,6) [OF assms kernel_in_contexts index_bounds(1), of v] words created_new(1,2) [OF assms index_bounds(1), of v]
    by (simp add: view_def tbl_def)
qed

text \<open>Each table in use is one that an old context uses.\<close>

lemma created_tables:
  assumes C: "created s c s2" and e: "e \<in> insert c (contexts s)" and i: "i < 1024" "present (pde s2 e i)"
  defines "e' \<equiv> (if e = c then kernel_context s else e)"
  shows "e' \<in> contexts s" and "present (pde s e' i)" and "tbl s2 e i = tbl s e' i"
  using created_new [OF C i(1)] created_old(2,3) [OF C, of e i] e i by (auto simp: e'_def)

lemma created_wf_tables:
  assumes C: "created s c s2" and used: "\<And>q. page_aligned q \<Longrightarrow> pmm_is_used q (books s2) \<longleftrightarrow> q = c \<or> q = pagedir s2 c \<or> pmm_is_used q (books s)"
    and e: "e \<in> insert c (contexts s)" and i: "i < 1024" "present (pde s2 e i)"
  shows "pmm_is_used (tbl s2 e i) (books s2) \<and> (\<forall>c'\<in>insert c (contexts s). tbl s2 e i \<noteq> c' \<and> tbl s2 e i \<noteq> pagedir s2 c')"
proof -
  note e' = created_tables [OF C e i]
  let ?t = "tbl s (if e = c then kernel_context s else e) i"
  have "page_aligned ?t" by (simp add: tbl_def)
  moreover have "pmm_is_used ?t (books s)" "\<forall>c'\<in>contexts s. ?t \<noteq> c' \<and> ?t \<noteq> pagedir s c'"
    using created_wf [OF C] e'(1,2) i(1) unfolding vmm_wf_def wf_tables_def by blast+
  ultimately show ?thesis using created_fresh(5,6) [OF C e'(1) i(1) e'(2)] used [of ?t] unfolding e'(3)
    by (auto simp: created_old(1) [OF C])
qed

lemma created_wf_private:
  assumes C: "created s c s2" and e: "e \<in> insert c (contexts s)" "f \<in> insert c (contexts s)" and i: "i < 1024" "j < 1024"
    and same: "present (pde s2 e i)" "present (pde s2 f j)" "tbl s2 e i = tbl s2 f j"
  shows "i = j \<and> (e = f \<or> present (pde s2 (kernel_context s) i))"
proof -
  note e' = created_tables [OF C e(1) i(1) same(1)] and f' = created_tables [OF C e(2) i(2) same(2)]
  have W: "i = j \<and> (e1 = f1 \<or> present (pde s (kernel_context s) i))"
    if "e1 \<in> contexts s" "f1 \<in> contexts s" "present (pde s e1 i)" "present (pde s f1 j)" "tbl s e1 i = tbl s f1 j" for e1 f1
    using created_wf [OF C] that i unfolding vmm_wf_def wf_private_def by blast
  note W = W [OF e'(1) f'(1) e'(2) f'(2) same(3) [unfolded e'(3) f'(3)]]
  then show ?thesis using e'(2) f'(2) by (auto simp: created_old(2) [OF C kernel_in_contexts] split: if_splits)
qed

lemma created_wf_shared:
  assumes C: "created s c s2" and "e \<in> insert c (contexts s)" and i: "i < 1024" "present (pde s2 (kernel_context s) i)"
  shows "pde s2 e i = pde s2 (kernel_context s) i"
proof -
  have k: "pde s2 (kernel_context s) i = pde s (kernel_context s) i" by (rule created_old(2) [OF C kernel_in_contexts])
  show ?thesis
  proof (cases "e = c")
    case True
    then show ?thesis using created_new(2) [OF C i(1)] i(2) k by simp
  next
    case False
    then have e: "e \<in> contexts s" using assms(2) by simp
    then show ?thesis using wf_sharedD [OF created_wf [OF C] e i(1)] i(2) created_old(2) [OF C e, of i] k by simp
  qed
qed

text \<open>
  C8. A new address space shows exactly the kernel. When \<open>vmm_create_context\<close> succeeds and
  \<open>vmm_clone_kernel_context\<close> is run on the result, as \<open>init_task\<close> does, every address translates in
  the new context as it does in the kernel context, all other contexts translate as before, and
  the page tables stay well formed when the context is entered in the task table.
\<close>

theorem vmm_new_context:
  assumes wf: "vmm_wf s" and create: "vmm_create_context s = Inr (c, s1)"
  defines "s2 \<equiv> vmm_clone_kernel_context c s1"
  shows "c \<notin> contexts s \<and> (\<forall>v. vmm_lookup v c s2 = vmm_lookup v (kernel_context s) s) \<and>
         (\<forall>d\<in>contexts s. \<forall>v. vmm_lookup v d s2 = vmm_lookup v d s) \<and>
         vmm_wf (s2\<lparr>active_contexts := c # active_contexts s2\<rparr>)"
proof -
  note n = created_context [OF wf create, folded s2_def]
  have C: "created s c s2" unfolding created_def s2_def using wf create by blast
  define s3 where "s3 = s2\<lparr>active_contexts := c # active_contexts s2\<rparr>"
  have sel: "pagedir s3 e = pagedir s2 e" "pde s3 e i = pde s2 e i" "tbl s3 e i = tbl s2 e i"
    "kernel_context s3 = kernel_context s" "books s3 = books s2" "contexts s3 = insert c (contexts s)" "cr3 s3 = cr3 s" for e i
    using n(2,3,4) by (auto simp: s3_def pagedir_def pde_def tbl_def contexts_def)
  note dir = created_old(1) [OF C]
  have "wf_pages s3"
    using wf n(6,7) n(5) unfolding vmm_wf_def wf_pages_def by (auto simp: sel dir)
  moreover have "wf_dirs s3"
    using wf n(8) created_fresh [OF C] unfolding vmm_wf_def wf_dirs_def sel by (simp add: dir) metis
  moreover have "wf_tables s3" unfolding wf_tables_def sel using created_wf_tables [OF C n(5)] by blast
  moreover have "wf_private s3" unfolding wf_private_def sel using created_wf_private [OF C] by blast
  moreover have "wf_shared s3" unfolding wf_shared_def sel using created_wf_shared [OF C] by blast
  moreover have "wf_cr3 s3" using wf unfolding vmm_wf_def wf_cr3_def sel by (auto simp: dir)
  ultimately have "vmm_wf s3" by (simp add: vmm_wf_def)
  then show ?thesis
    using n(1) created_old(4) [OF C] created_view [OF C] by (auto simp: s3_def vmm_lookup_view)
qed

section \<open>Destruction\<close>

text \<open>The pages \<open>vmm_destroy_context\<close> returns for the directory index \<open>i\<close>.\<close>

definition entry_pages :: "vmm \<Rightarrow> u32 \<Rightarrow> nat \<Rightarrow> u32 set" where
  "entry_pages s c i =
     {entry_page (page_words s (tbl s c i) j) | j. j < 1024 \<and> present (page_words s (tbl s c i) j) \<and>
        \<not> (present (pde s (kernel_context s) i) \<and> present (page_words s (tbl s (kernel_context s) i) j))}"

definition owned_pages :: "vmm \<Rightarrow> u32 \<Rightarrow> u32 set" where
  "owned_pages s c = {c, pagedir s c} \<union>
     (\<Union>i\<in>{i. i < 1024 \<and> present (pde s c i)}. entry_pages s c i \<union>
        (if present (pde s (kernel_context s) i) then {} else {tbl s c i}))"

lemma fold_free:
  assumes "\<And>x b. x \<in> set xs \<Longrightarrow> page_aligned q \<Longrightarrow> pmm_is_used q (f x b) \<longleftrightarrow> q \<notin> F x \<and> pmm_is_used q b"
    and "page_aligned q"
  shows "pmm_is_used q (fold f xs b) \<longleftrightarrow> (\<forall>x\<in>set xs. q \<notin> F x) \<and> pmm_is_used q b"
  using assms by (induction xs arbitrary: b) auto

lemma used_free_table:
  assumes q: "page_aligned q" and i: "i < 1024"
  shows "pmm_is_used q (free_table s (pagedir s c) i b) \<longleftrightarrow>
    q \<notin> (if present (pde s c i) then entry_pages s c i \<union> (if present (pde s (kernel_context s) i) then {} else {tbl s c i})
          else {}) \<and> pmm_is_used q b"
proof -
  define F where "F j = (if present (page_words s (tbl s c i) j) \<and>
        \<not> (present (pde s (kernel_context s) i) \<and> present (page_words s (tbl s (kernel_context s) i) j))
      then {entry_page (page_words s (tbl s c i) j)} else {})" for j
  have "pmm_is_used q (free_entry s (pagedir s c) i j b) \<longleftrightarrow> q \<notin> F j \<and> pmm_is_used q b" for j b
    using q by (auto simp: free_entry_def Let_def F_def tbl_def pde_def page_index_aligned)
  then have "pmm_is_used q (fold (free_entry s (pagedir s c) i) [0..<1024] b) \<longleftrightarrow>
      (\<forall>j<1024. q \<notin> F j) \<and> pmm_is_used q b"
    using fold_free [of "[0..<1024]" q "free_entry s (pagedir s c) i" F] q by auto
  moreover have "(\<forall>j<1024. q \<notin> F j) \<longleftrightarrow> q \<notin> entry_pages s c i"
    unfolding F_def entry_pages_def by auto
  moreover have "page_aligned (tbl s c i)" by (simp add: tbl_def)
  ultimately show ?thesis
    using q by (auto simp: free_table_def Let_def page_index_aligned pde_def [symmetric] tbl_def [symmetric])
qed

text \<open>
  Destroying an address space returns exactly its own pages: the context, its directory, its
  page tables outside the kernel's part of the directory, and every page it maps where the kernel
  maps none. Every other page keeps its state.
\<close>

theorem vmm_destroy_frees:
  assumes wf: "vmm_wf s" and c: "c \<in> contexts s" and q: "page_aligned q"
  shows "pmm_is_used q (books (vmm_destroy_context c s)) \<longleftrightarrow> q \<notin> owned_pages s c \<and> pmm_is_used q (books s)"
proof -
  have al: "page_aligned c" "page_aligned (pagedir s c)" using wf c by (auto simp: wf_defs)
  have "pmm_is_used q (fold (free_table s (pagedir s c)) [0..<1024] (books s)) \<longleftrightarrow>
      (\<forall>i\<in>set [0..<1024]. q \<notin> (if present (pde s c i) then entry_pages s c i \<union>
        (if present (pde s (kernel_context s) i) then {} else {tbl s c i}) else {})) \<and> pmm_is_used q (books s)"
    using q by (intro fold_free) (auto simp del: One_nat_def simp add: used_free_table)
  then show ?thesis
    using al q by (auto simp: vmm_destroy_context_def owned_pages_def page_index_aligned)
qed

lemma free_entry_kernel:
  "page_words s dir i = pde s (kernel_context s) i \<Longrightarrow> present (page_words s dir i) \<Longrightarrow> free_entry s dir i j b = b"
  by (simp add: free_entry_def Let_def pde_def)

lemma free_table_kernel:
  assumes "present (pde s c i) \<Longrightarrow> pde s c i = pde s (kernel_context s) i"
  shows "free_table s (pagedir s c) i b = b"
proof (cases "present (pde s c i)")
  case True
  have "fold (free_entry s (pagedir s c) i) xs b = b" for xs
    using assms [OF True] True by (induction xs) (simp_all add: free_entry_kernel pde_def)
  with True assms [OF True] show ?thesis
    by (simp add: free_table_def Let_def pde_def)
qed (simp add: free_table_def pde_def)

text \<open>
  C7. Creating an address space, mapping the kernel into it and destroying it again gives the
  physical memory manager back exactly the state it had: nothing leaks and no kernel page is
  released.
\<close>

theorem vmm_create_destroy:
  assumes wf: "vmm_wf s" and create: "vmm_create_context s = Inr (c, s1)"
  shows "books (vmm_destroy_context c (vmm_clone_kernel_context c s1)) = books s"
proof -
  define s2 where "s2 = vmm_clone_kernel_context c s1"
  note n = created_context [OF wf create, folded s2_def]
  obtain d b1 b2 where a: "pmm_alloc_pagetable (books s) = Inr (c, b1)" "pmm_alloc_pagetable b1 = Inr (d, b2)"
      and s1: "s1 = zero_page d (put_word c 0 d (s\<lparr>books := b2\<rparr>))" and cd: "c \<noteq> d"
    by (rule vmm_create_contextE [OF wf create])
  have "pde s2 (kernel_context s2) i = pde s (kernel_context s) i" for i
  proof -
    have "pagedir s2 (kernel_context s) = pagedir s (kernel_context s)"
      using n(12) [of "kernel_context s"] fresh_page(1) [OF wf n(9) kernel_in_contexts]
        fresh_page(1) [OF wf n(10) kernel_in_contexts] by (simp add: pagedir_def)
    then show ?thesis
      using n(12) [of "pagedir s (kernel_context s)"] fresh_page(2) [OF wf n(9) kernel_in_contexts]
        fresh_page(2) [OF wf n(10) kernel_in_contexts] by (simp add: pde_def n(2))
  qed
  then have "free_table s2 (pagedir s2 c) i b = b" if "i < 1024" for i b
    using n(11) [OF that] by (intro free_table_kernel) (auto split: if_splits)
  then have "fold (free_table s2 (pagedir s2 c)) [0..<n] b = b" if "n \<le> 1024" for n b
    using that by (induction n) simp_all
  then have "books (vmm_destroy_context c s2) = pmm_free c (pmm_free (pagedir s2 c) (books s2))"
    by (simp add: vmm_destroy_context_def)
  moreover have "books s2 = b2" "pagedir s2 c = d"
    using n(13,14) cd by (simp_all add: s1 pagedir_def)
  moreover have "pmm_free d b2 = b1" "pmm_free c b1 = books s"
    using a by (auto simp: pmm_alloc_pagetable_def dest: alloc_from_release)
  ultimately show ?thesis by (simp add: s2_def)
qed

section \<open>Instances\<close>

lemma demo_create:
  obtains s1 where "vmm_create_context demo_vmm = Inr (0x5000, s1)"
proof -
  have "page_available True (take_page 5 (books demo_vmm)) i \<longleftrightarrow> i = 6" for i
    using demo_available_vmm [of i]
    by (auto simp: page_available_def take_page_def bitmap_test_set)
  then have "pmm_alloc_pagetable (take_page 5 (books demo_vmm)) =
      Inr (page_addr 6, take_page 6 (take_page 5 (books demo_vmm)))"
    unfolding pmm_alloc_pagetable_def by (intro pmm_alloc_from_found) auto
  moreover have "pmm_alloc_pagetable (books demo_vmm) = Inr (page_addr 5, take_page 5 (books demo_vmm))"
    unfolding pmm_alloc_pagetable_def by (intro pmm_alloc_from_found) (auto simp: demo_available_vmm)
  moreover have "page_addr 5 = 0x5000" by (simp add: page_addr_def)
  ultimately show thesis using that by (simp add: vmm_create_context_def)
qed

lemma vmm_new_context_witness:
  "\<exists>c s1. vmm_create_context demo_vmm = Inr (c, s1) \<and>
     vmm_wf ((vmm_clone_kernel_context c s1)\<lparr>active_contexts := c # active_contexts (vmm_clone_kernel_context c s1)\<rparr>)"
proof -
  obtain s1 where "vmm_create_context demo_vmm = Inr (0x5000, s1)" by (rule demo_create)
  with vmm_new_context [OF demo_vmm_wf this] show ?thesis by blast
qed

lemma vmm_create_destroy_witness:
  "\<exists>c s1. vmm_create_context demo_vmm = Inr (c, s1) \<and>
     books (vmm_destroy_context c (vmm_clone_kernel_context c s1)) = books demo_vmm"
proof -
  obtain s1 where "vmm_create_context demo_vmm = Inr (0x5000, s1)" by (rule demo_create)
  with vmm_create_destroy [OF demo_vmm_wf this] show ?thesis by blast
qed

lemma vmm_destroy_frees_witness:
  "\<not> pmm_is_used 0x4000 (books (vmm_destroy_context 0x3000 demo_vmm)) \<and>
   pmm_is_used 0x2000 (books (vmm_destroy_context 0x3000 demo_vmm))"
  using vmm_destroy_frees [OF demo_vmm_wf, of "0x3000" "0x4000"]
    vmm_destroy_frees [OF demo_vmm_wf, of "0x3000" "0x2000"]
  by (simp add: page_aligned_def owned_pages_def demo_used_vmm page_index_def)

end
