(* ===== verification/Vmm_Regions.thy ===== *)
theory Vmm_Regions
  imports Vmm_Life
begin

text \<open>
  Mapping of regions page by page, as \<open>vmm_alloc\<close> and \<open>init_task\<close> do it, proved once for any
  address space and interpreted on task contexts and on the kernel context; and copies to and
  from another address space.
\<close>

section \<open>Pages and offsets\<close>

lemma same_page_iff:
  assumes "page_aligned u"
  shows "w div 0x1000 = u div 0x1000 \<longleftrightarrow> unat (w - u) < 4096"
proof -
  define a where "a = unat u div 4096"
  have u: "unat u = 4096 * a" and a: "a < 1048576"
    using assms unat_lt_32 [of u] by (auto simp: page_aligned_unat a_def)
  have eq: "w div 0x1000 = u div 0x1000 \<longleftrightarrow> unat w div 4096 = a"
    by (simp add: word_unat_eq_iff unat_div a_def)
  show ?thesis unfolding eq
  proof
    assume "unat w div 4096 = a"
    then have le: "unat u \<le> unat w" "unat w < unat u + 4096" using u by auto
    then have "unat (w - u) = unat w - unat u" by (intro unat_sub) (simp add: word_le_nat_alt)
    with le show "unat (w - u) < 4096" by simp
  next
    assume r: "unat (w - u) < 4096"
    have "unat w = unat (u + (w - u))" by simp
    also have "\<dots> = unat u + unat (w - u)" using u a r by (intro unat_add_32) simp
    finally show "unat w div 4096 = a" using u r by simp
  qed
qed

lemma page_offset:
  assumes "page_aligned u" and "unat (w - u) < 4096"
  shows "w mod 0x1000 = w - u"
proof -
  define a where "a = unat u div 4096"
  have u: "unat u = 4096 * a" and a: "a < 1048576"
    using assms(1) unat_lt_32 [of u] by (auto simp: page_aligned_unat a_def)
  have "unat w = unat (u + (w - u))" by simp
  also have "\<dots> = unat u + unat (w - u)" using u a assms(2) by (intro unat_add_32) simp
  finally have "unat w mod 4096 = unat (w - u)" using u assms(2) by simp
  then show ?thesis by (simp add: word_unat_eq_iff unat_mod)
qed

lemma unat_sub_wrap:
  "unat (x - y :: u32) = (if unat y \<le> unat x then unat x - unat y else 4294967296 + unat x - unat y)"
proof -
  define d where "d = unat (x - y)"
  have "unat x = unat ((x - y) + y)" by simp
  also have "\<dots> = (d + unat y) mod 4294967296" by (simp only: unat_word_ariths d_def) simp
  finally have "unat x = (d + unat y) mod 4294967296" .
  moreover have "d < 4294967296" "unat y < 4294967296" by (simp_all add: d_def unat_lt_32)
  ultimately show ?thesis
    unfolding d_def [symmetric] by (cases "d + unat y < 4294967296") (auto simp: mod_if)
qed

lemma page_aligned_plus: "page_aligned a \<Longrightarrow> page_aligned b \<Longrightarrow> page_aligned (a + b)"
proof -
  have "4096 dvd (x + y) mod 4294967296" if "4096 dvd x" "4096 dvd y" for x y :: nat
    using that by (simp add: dvd_mod)
  then show "page_aligned a \<Longrightarrow> page_aligned b \<Longrightarrow> page_aligned (a + b)"
    unfolding page_aligned_unat unat_word_ariths mod_eq_0_iff_dvd by simp
qed

lemma region_aligned: "page_aligned v \<Longrightarrow> page_aligned (v + of_nat i * 0x1000)"
proof -
  have "(of_nat i * 0x1000 :: u32) = push_bit 12 (of_nat i)" by (simp add: push_bit_eq_mult)
  then have "page_aligned (of_nat i * 0x1000 :: u32)"
    by (simp add: page_aligned_bits bit_push_bit_iff)
  then show "page_aligned v \<Longrightarrow> page_aligned (v + of_nat i * 0x1000)"
    by (simp add: page_aligned_plus)
qed

lemma region_page_iff:
  assumes "page_aligned v" and "i < 1048576"
  shows "w div 0x1000 = (v + of_nat i * 0x1000) div 0x1000 \<longleftrightarrow>
         i * 4096 \<le> unat (w - v) \<and> unat (w - v) < Suc i * 4096"
proof -
  have i: "unat (of_nat i * 0x1000 :: u32) = i * 4096"
  proof -
    have "(of_nat i * 0x1000 :: u32) = of_nat (i * 4096)" by simp
    then show ?thesis using assms(2) by (simp only: unat_of_nat_32)
  qed
  note al = region_aligned [OF assms(1), of i]
  have "w - (v + of_nat i * 0x1000) = (w - v) - of_nat i * 0x1000" by simp
  then have "unat (w - (v + of_nat i * 0x1000)) =
      (if i * 4096 \<le> unat (w - v) then unat (w - v) - i * 4096 else 4294967296 + unat (w - v) - i * 4096)"
    by (simp only: unat_sub_wrap [of "w - v"] i)
  then show ?thesis
    unfolding same_page_iff [OF al] using assms(2) by auto
qed

lemma region_offset:
  assumes "page_aligned v" and "i < 1048576" and "w div 0x1000 = (v + of_nat i * 0x1000) div 0x1000"
  shows "p + of_nat i * 0x1000 + w mod 0x1000 = p + (w - v)"
  using page_offset [OF region_aligned [OF assms(1)], of w i] assms(3)
    same_page_iff [OF region_aligned [OF assms(1)], of w i] by simp

section \<open>Regions of an address space\<close>

text \<open>Pages \<open>i\<close> to \<open>i + n - 1\<close> of a region are mapped one after the other.\<close>

fun map_region :: "(u32 \<Rightarrow> u32 \<Rightarrow> 's \<Rightarrow> (int \<times> 's) kres) \<Rightarrow> u32 \<Rightarrow> u32 \<Rightarrow> nat \<Rightarrow> nat \<Rightarrow> 's \<Rightarrow> 's kres" where
  "map_region map_page v p i 0 s = Inr s"
| "map_region map_page v p i (Suc n) s =
     kbind (map_page (v + of_nat i * 0x1000) (p + of_nat i * 0x1000) s)
       (\<lambda>(_, s1). map_region map_page v p (Suc i) n s1)"

locale address_space =
  fixes ok :: "'s \<Rightarrow> bool"
    and free_at :: "u32 \<Rightarrow> 's \<Rightarrow> bool"
    and map_page :: "u32 \<Rightarrow> u32 \<Rightarrow> 's \<Rightarrow> (int \<times> 's) kres"
    and translate :: "u32 \<Rightarrow> 's \<Rightarrow> u32"
    and full :: kfault
  assumes map_law: "ok s \<Longrightarrow> free_at v s \<Longrightarrow> page_aligned v \<Longrightarrow> page_aligned p \<Longrightarrow>
      map_page v p s = Inl full \<or>
      (\<exists>r s'. map_page v p s = Inr (r, s') \<and> ok s' \<and> (\<forall>w. free_at w s' = free_at w s) \<and>
         (\<forall>w. translate w s' = (if w div 0x1000 = v div 0x1000 then p + w mod 0x1000 else translate w s)))"
begin

theorem map_region_translates:
  assumes "ok s" and "page_aligned v" and "page_aligned p" and "i + n \<le> 1048576"
    and "\<And>j. i \<le> j \<Longrightarrow> j < i + n \<Longrightarrow> free_at (v + of_nat j * 0x1000) s"
  shows "map_region map_page v p i n s = Inl full \<or>
    (\<exists>s'. map_region map_page v p i n s = Inr s' \<and> ok s' \<and>
       (\<forall>w. translate w s' =
          (if i * 4096 \<le> unat (w - v) \<and> unat (w - v) < (i + n) * 4096 then p + (w - v) else translate w s)))"
  using assms
proof (induction n arbitrary: i s)
  case 0
  then show ?case by auto
next
  case (Suc n)
  have "free_at (v + of_nat i * 0x1000) s" using Suc.prems(5) by simp
  from map_law [OF Suc.prems(1) this region_aligned [OF Suc.prems(2)] region_aligned [OF Suc.prems(3)], of i]
  consider "map_page (v + of_nat i * 0x1000) (p + of_nat i * 0x1000) s = Inl full"
    | r s1 where "map_page (v + of_nat i * 0x1000) (p + of_nat i * 0x1000) s = Inr (r, s1)" "ok s1"
      "\<forall>w. free_at w s1 = free_at w s"
      "\<forall>w. translate w s1 = (if w div 0x1000 = (v + of_nat i * 0x1000) div 0x1000
         then p + of_nat i * 0x1000 + w mod 0x1000 else translate w s)"
    by blast
  then show ?case
  proof cases
    case 1
    then show ?thesis by simp
  next
    case (2 r s1)
    have tr: "translate w s1 = (if i * 4096 \<le> unat (w - v) \<and> unat (w - v) < Suc i * 4096 then p + (w - v)
        else translate w s)" for w
      using 2(4) region_page_iff [OF Suc.prems(2), of i w] region_offset [OF Suc.prems(2), of i w p] Suc.prems(4)
      by auto
    have "map_region map_page v p (Suc i) n s1 = Inl full \<or>
      (\<exists>s'. map_region map_page v p (Suc i) n s1 = Inr s' \<and> ok s' \<and>
       (\<forall>w. translate w s' =
          (if Suc i * 4096 \<le> unat (w - v) \<and> unat (w - v) < (Suc i + n) * 4096 then p + (w - v) else translate w s1)))"
      using Suc.prems 2(2,3) by (intro Suc.IH) simp_all
    then show ?thesis using 2(1) tr by (auto simp: not_less)
  qed
qed

end

section \<open>Task and kernel address spaces\<close>

lemma flags_small [simp]: "(PTE_PRESENT OR PTE_WRITE) AND 0xfff = PTE_PRESENT OR PTE_WRITE"
  "(PTE_PRESENT OR PTE_WRITE OR PTE_USER) AND 0xfff = PTE_PRESENT OR PTE_WRITE OR PTE_USER"
  by (simp_all add: PTE_PRESENT_def PTE_WRITE_def PTE_USER_def)

lemma flags_present [simp]: "present (PTE_PRESENT OR PTE_WRITE)" "present (PTE_PRESENT OR PTE_WRITE OR PTE_USER)"
  by (simp_all add: present_def PTE_PRESENT_def PTE_WRITE_def PTE_USER_def)

interpretation task_space: address_space
  "\<lambda>s. vmm_wf s \<and> c \<in> contexts s \<and> c \<noteq> kernel_context s"
  "\<lambda>v s. \<not> present (page_words s (pagedir s (kernel_context s)) (pd_index v))"
  "\<lambda>v p s. vmm_map_page c v p (PTE_PRESENT OR PTE_WRITE OR PTE_USER) s"
  "\<lambda>v s. vmm_lookup v c s" "Abort ''Allocation failed!''" for c
proof (unfold_locales, goal_cases)
  case (1 s v p)
  then have pre: "vmm_wf s" "c \<in> contexts s" "c \<noteq> kernel_context s" by blast+
  from vmm_map_user [OF pre 1(3,4) flags_small(2) 1(2)] show ?case
  proof (elim disjE exE conjE, goal_cases)
    case (2 s')
    with pre same_spacesD(1,2) [of s s'] show ?case
      by (intro disjI2 exI [of _ 0] exI [of _ s']) simp
  qed simp
qed

lemma vmm_map_kernel:
  assumes wf: "vmm_wf s" and al: "page_aligned virt" "page_aligned phys" and f: "flags AND 0xfff = flags" "present flags"
  shows "vmm_map_page (kernel_context s) virt phys flags s = Inl (Abort ''Allocation failed!'') \<or>
    (\<exists>r s'. vmm_map_page (kernel_context s) virt phys flags s = Inr (r, s') \<and> vmm_wf s' \<and>
       (\<forall>v. vmm_lookup v (kernel_context s') s' =
          (if v div 0x1000 = virt div 0x1000 then phys + v mod 0x1000 else vmm_lookup v (kernel_context s) s)))"
  using vmm_map_page_kernel_view [OF wf al f(1)]
proof (elim disjE exE conjE, goal_cases)
  case (2 s')
  have "vmm_lookup v (kernel_context s) s' =
      (if v div 0x1000 = virt div 0x1000 then phys + v mod 0x1000 else vmm_lookup v (kernel_context s) s)" for v
    using 2 lookup_entry [OF al(2) f(1), of s' "kernel_context s" v] f(2) lookup_same [of s' "kernel_context s" v s]
    by auto
  with 2 same_spacesD(2) [OF 2(3)] show ?case
    by (intro disjI2 exI [of _ 0] exI [of _ s']) simp
qed simp

interpretation kernel_space: address_space vmm_wf "\<lambda>_ _. True"
  "\<lambda>v p s. vmm_map_page (kernel_context s) v p (PTE_PRESENT OR PTE_WRITE) s"
  "\<lambda>v s. vmm_lookup v (kernel_context s) s" "Abort ''Allocation failed!''"
proof (unfold_locales, goal_cases)
  case (1 s v p)
  from vmm_map_kernel [OF 1(1,3,4) flags_small(1) flags_present(1)] show ?case by blast
qed

text \<open>
  A region mapped page by page into a task's address space is contiguous there: after the
  loop of \<open>init_task\<close> over the pages of the user stack (and every loop of that shape) each address
  of the region translates to the same offset of the physical region, and every other address
  of the task translates as before.
\<close>

theorem task_region_contiguous:
  assumes "vmm_wf s" and "c \<in> contexts s" and "c \<noteq> kernel_context s"
    and "page_aligned v" and "page_aligned p" and "n \<le> 1048576"
    and "\<forall>j<n. \<not> present (page_words s (pagedir s (kernel_context s)) (pd_index (v + of_nat j * 0x1000)))"
  shows "map_region (\<lambda>v p s. vmm_map_page c v p (PTE_PRESENT OR PTE_WRITE OR PTE_USER) s) v p 0 n s =
      Inl (Abort ''Allocation failed!'') \<or>
    (\<exists>s'. map_region (\<lambda>v p s. vmm_map_page c v p (PTE_PRESENT OR PTE_WRITE OR PTE_USER) s) v p 0 n s = Inr s' \<and>
       vmm_wf s' \<and> (\<forall>w. vmm_lookup w c s' = (if unat (w - v) < n * 4096 then p + (w - v) else vmm_lookup w c s)))"
  using task_space.map_region_translates [of s c v p 0 n] assms by auto

section \<open>Kernel allocations\<close>

lemma map_range_region:
  "map_range ptr i n s =
   map_region (\<lambda>v p s. vmm_map_page (kernel_context s) v p (PTE_PRESENT OR PTE_WRITE) s) ptr ptr i n s"
  by (induction n arbitrary: i s) (simp_all add: case_prod_unfold)

lemma vmm_wf_more_used:
  assumes "vmm_wf s" and "\<And>q. page_aligned q \<Longrightarrow> pmm_is_used q (books s) \<Longrightarrow> pmm_is_used q b"
  shows "vmm_wf (s\<lparr>books := b\<rparr>)"
proof -
  define s' where "s' = s\<lparr>books := b\<rparr>"
  have sel: "contexts s' = contexts s" "kernel_context s' = kernel_context s" "cr3 s' = cr3 s" "books s' = b"
    "pagedir s' = pagedir s" "pde s' = pde s" "tbl s' = tbl s"
    by (auto simp: s'_def contexts_def pagedir_def pde_def tbl_def fun_eq_iff)
  have "page_aligned (tbl s c i)" for c i by (simp add: tbl_def)
  then have "vmm_wf s'"
    using assms unfolding wf_defs sel by blast
  then show ?thesis by (simp add: s'_def)
qed

lemma pmm_alloc_range_keeps:
  assumes "pmm_alloc_range n b = Inr (p, b')"
  shows "page_aligned p" and "pmm_is_used q b \<Longrightarrow> pmm_is_used q b'"
proof -
  have "p = 0 \<and> b' = b \<or> (\<exists>i<NPAGES. p = page_addr i \<and> range_taken n i b b')"
    using pmm_alloc_range_from_spec assms by (auto simp: pmm_alloc_range_def)
  moreover have "page_aligned 0" by (simp add: page_aligned_def)
  ultimately show "page_aligned p" "pmm_is_used q b \<Longrightarrow> pmm_is_used q b'"
    by (auto simp: page_addr_aligned range_taken_def pmm_is_used_def bitmap_test_set_range)
qed

lemma lookup_everywhere:
  assumes "vmm_wf s" and "d \<in> contexts s" and "vmm_lookup v (kernel_context s) s \<noteq> 0"
  shows "vmm_lookup v d s = vmm_lookup v (kernel_context s) s"
proof -
  have "present (pde s (kernel_context s) (pd_index v))"
    using assms(3) by (auto simp: vmm_lookup_view view_def split: if_splits)
  from wf_sharedD [OF assms(1,2) index_bounds(1) this]
  have "view s d v = view s (kernel_context s) v" by (simp add: view_def tbl_def)
  then show ?thesis by (simp add: vmm_lookup_view)
qed

lemma vmm_alloc_mapped:
  assumes wf: "vmm_wf s" and alloc: "pmm_alloc_range (sint n) (books s) = Inr (ptr, b)" and n: "unat n \<le> 1048576"
  shows "vmm_alloc n s = Inl (Abort ''Allocation failed!'') \<or>
    (\<exists>s'. vmm_alloc n s = Inr (ptr, s') \<and> vmm_wf s' \<and>
       (\<forall>w. unat (w - ptr) < unat n * 4096 \<longrightarrow> vmm_lookup w (kernel_context s') s' = w))"
proof -
  have "vmm_wf (s\<lparr>books := b\<rparr>)"
    using wf pmm_alloc_range_keeps(2) [OF alloc] by (rule vmm_wf_more_used)
  from kernel_space.map_region_translates [OF this _ _ , of ptr ptr 0 "unat n"]
    pmm_alloc_range_keeps(1) [OF alloc] n
  show ?thesis by (auto simp: vmm_alloc_def alloc map_range_region)
qed

text \<open>
  Memory from \<open>vmm_alloc\<close> is mapped one to one everywhere. On well-formed page tables, for at
  most \<open>2 ^ 20\<close> pages, the call runs past the page bitmap, panics for want of a page table, or
  returns a pointer such that each of the \<open>num_pages * 4096\<close> addresses from it on translates to
  itself in the kernel context and in the context of every active task.
\<close>

theorem vmm_alloc_identity:
  assumes wf: "vmm_wf s" and n: "unat num_pages \<le> 1048576"
  shows "(\<exists>e. vmm_alloc num_pages s = Inl e) \<and> \<not> (\<exists>p b. pmm_alloc_range (sint num_pages) (books s) = Inr (p, b)) \<or>
    vmm_alloc num_pages s = Inl (Abort ''Allocation failed!'') \<or>
    (\<exists>ptr s'. vmm_alloc num_pages s = Inr (ptr, s') \<and> vmm_wf s' \<and>
       (\<forall>w. unat (w - ptr) < unat num_pages * 4096 \<longrightarrow> vmm_lookup w (kernel_context s') s' = w \<and>
          (w \<noteq> 0 \<longrightarrow> (\<forall>d\<in>contexts s'. vmm_lookup w d s' = w))))"
proof (cases "pmm_alloc_range (sint num_pages) (books s)")
  case (Inl e)
  then show ?thesis by (simp add: vmm_alloc_def)
next
  case (Inr r)
  obtain ptr b where alloc: "pmm_alloc_range (sint num_pages) (books s) = Inr (ptr, b)"
    using Inr by (cases r) simp
  from vmm_alloc_mapped [OF wf alloc n] show ?thesis
    using lookup_everywhere by (metis (no_types, lifting))
qed

text \<open>When no page outside the paging area is free, the range allocator returns NULL.\<close>

lemma pmm_alloc_range_exhausted:
  assumes "\<forall>i<NPAGES. bitmap_test (bitmap b) i \<or> bitmap_test (bitmap_pagetable_mask b) i"
  shows "pmm_alloc_range n b = Inr (0, b)"
proof -
  have "pmm_alloc_range_from n i b = Inr (0, b)" for i
    using assms
  proof (induction n i b rule: pmm_alloc_range_from.induct)
    case (1 count i s)
    then show ?case by (subst pmm_alloc_range_from.simps) auto
  qed
  then show ?thesis by (simp add: pmm_alloc_range_def)
qed

text \<open>
  Running out of memory is not noticed. When no page is free outside the paging area,
  \<open>vmm_alloc\<close> of one or more pages does not fail: unless the paging area is exhausted too, it
  returns NULL after mapping the null page, which \<open>vmm_init\<close> had made inaccessible, and the pages
  after it, in the kernel context.
\<close>

theorem vmm_alloc_exhausted_maps_null:
  assumes wf: "vmm_wf s" and n: "unat num_pages \<le> 1048576"
    and out: "\<forall>i<NPAGES. bitmap_test (bitmap (books s)) i \<or> bitmap_test (bitmap_pagetable_mask (books s)) i"
  shows "vmm_alloc num_pages s = Inl (Abort ''Allocation failed!'') \<or>
    (\<exists>s'. vmm_alloc num_pages s = Inr (0, s') \<and>
       (\<forall>w. unat w < unat num_pages * 4096 \<longrightarrow> vmm_lookup w (kernel_context s') s' = w))"
  using vmm_alloc_mapped [OF wf pmm_alloc_range_exhausted [OF out] n] by auto

section \<open>Copies to and from another address space\<close>

text \<open>The physical address behind \<open>v\<close> in the active context, where it is mapped.\<close>

definition mmu_addr :: "vmm \<Rightarrow> u32 \<Rightarrow> u32" where
  "mmu_addr s v = entry_page (page_words s (entry_page (page_words s (cr3 s) (pd_index v))) (pt_index v)) + v mod 0x1000"

lemma mmu_InrD: "mmu s v = Inr a \<Longrightarrow> a = mmu_addr s v"
  by (auto simp: mmu_def mmu_addr_def Let_def split: if_splits)

lemma mmu_ram [simp]: "mmu (s\<lparr>ram := r\<rparr>) v = mmu s v" "mmu_addr (s\<lparr>ram := r\<rparr>) v = mmu_addr s v"
  by (simp_all add: mmu_def mmu_addr_def)

lemma mmu_write_spec:
  assumes "mmu_write s ptr bs = Inr s'"
  shows "(\<forall>i<length bs. mmu s (ptr + of_nat i) = Inr (mmu_addr s (ptr + of_nat i))) \<and> s' = s\<lparr>ram := ram s'\<rparr> \<and>
    (\<forall>a. a \<notin> (\<lambda>i. mmu_addr s (ptr + of_nat i)) ` {..<length bs} \<longrightarrow> ram s' a = ram s a) \<and>
    (inj_on (\<lambda>i. mmu_addr s (ptr + of_nat i)) {..<length bs} \<longrightarrow>
       (\<forall>i<length bs. ram s' (mmu_addr s (ptr + of_nat i)) = bs ! i))"
  using assms
proof (induction bs arbitrary: s ptr)
  case Nil
  then show ?case by simp
next
  case (Cons b bs)
  define A where "A i = mmu_addr s (ptr + of_nat i)" for i :: nat
  have a0: "mmu s ptr = Inr (A 0)" using Cons.prems mmu_InrD by (fastforce simp: A_def)
  define s1 where "s1 = s\<lparr>ram := (ram s)(A 0 := b)\<rparr>"
  have "mmu_write s1 (ptr + 1) bs = Inr s'" using Cons.prems a0 by (simp add: s1_def)
  moreover have A1: "mmu_addr s1 (ptr + 1 + of_nat i) = A (Suc i)" for i
    by (simp add: A_def s1_def add.assoc)
  ultimately have IH: "\<forall>i<length bs. mmu s (ptr + of_nat (Suc i)) = Inr (A (Suc i))" "s' = s1\<lparr>ram := ram s'\<rparr>"
      "\<forall>a. a \<notin> (\<lambda>i. A (Suc i)) ` {..<length bs} \<longrightarrow> ram s' a = ram s1 a"
      "inj_on (\<lambda>i. A (Suc i)) {..<length bs} \<longrightarrow> (\<forall>i<length bs. ram s' (A (Suc i)) = bs ! i)"
    using Cons.IH [of s1 "ptr + 1"] by (simp_all add: A_def s1_def add.assoc)
  have img: "A ` {..<Suc (length bs)} = insert (A 0) ((\<lambda>i. A (Suc i)) ` {..<length bs})"
    by (auto simp: lessThan_Suc_eq_insert_0)
  have all: "\<forall>i<Suc (length bs). mmu s (ptr + of_nat i) = Inr (A i)"
    using IH(1) a0 by (auto simp: less_Suc_eq_0_disj A_def)
  have inj: "\<forall>i<Suc (length bs). ram s' (A i) = (b # bs) ! i" if "inj_on A {..<Suc (length bs)}"
  proof -
    from that have "inj_on (\<lambda>i. A (Suc i)) {..<length bs}" "A 0 \<notin> (\<lambda>i. A (Suc i)) ` {..<length bs}"
      by (auto simp: inj_on_def)
    with IH(3,4) show ?thesis by (auto simp: less_Suc_eq_0_disj s1_def)
  qed
  have "s' = s\<lparr>ram := ram s'\<rparr>" using IH(2) by (simp add: s1_def)
  moreover have "ram s' a = ram s a" if "a \<notin> A ` {..<Suc (length bs)}" for a
    using IH(3) that unfolding img by (simp add: s1_def)
  ultimately show ?case
    using all inj unfolding A_def [symmetric] by simp
qed

lemma mmu_write_total:
  assumes "\<forall>i<length bs. mmu v (p + of_nat i) = Inr (mmu_addr v (p + of_nat i))"
  shows "\<exists>r. mmu_write v p bs = Inr (v\<lparr>ram := r\<rparr>)"
  using assms
proof (induction bs arbitrary: v p)
  case Nil
  show ?case by (intro exI [of _ "ram v"]) simp
next
  case (Cons b bs)
  have m: "mmu v (p + of_nat i) = Inr (mmu_addr v (p + of_nat i))" if "i < Suc (length bs)" for i using Cons.prems that by simp
  define v1 where "v1 = v\<lparr>ram := (ram v)(mmu_addr v p := b)\<rparr>"
  have "\<forall>i<length bs. mmu v1 (p + 1 + of_nat i) = Inr (mmu_addr v1 (p + 1 + of_nat i))"
    using m [of "Suc i" for i] by (auto simp: v1_def add.assoc)
  from Cons.IH [OF this] obtain r where "mmu_write v1 (p + 1) bs = Inr (v1\<lparr>ram := r\<rparr>)" by blast
  then have "mmu_write v p (b # bs) = Inr (v\<lparr>ram := r\<rparr>)" using m [of 0] by (simp add: v1_def)
  then show ?case by blast
qed

lemma mmu_read_eq:
  assumes "\<forall>i<n. mmu s (ptr + of_nat i) = Inr (A i)"
  shows "mmu_read s ptr n = Inr (map (\<lambda>i. ram s (A i)) [0..<n])"
  using assms
proof (induction n arbitrary: ptr A)
  case 0
  then show ?case by simp
next
  case (Suc n)
  have "mmu_read s (ptr + 1) n = Inr (map (\<lambda>i. ram s (A (Suc i))) [0..<n])"
    using Suc.prems by (intro Suc.IH) (auto simp: add.assoc dest: spec [where x = "Suc _"])
  moreover have "mmu s ptr = Inr (A 0)" using Suc.prems by (auto dest: spec [where x = 0])
  ultimately show ?case by (simp add: map_upt_Suc del: upt_Suc)
qed

text \<open>
  What is written into another address space can be read back. When \<open>vmm_write_context\<close>
  returns and the target bytes are mapped to different physical addresses there,
  \<open>vmm_read_context\<close> of the same range returns the bytes written; both leave the processor in the
  address space it was in, and memory outside the target is unchanged.
\<close>

theorem vmm_write_read_context:
  assumes w: "vmm_write_context ptr bs context s = Inr s'"
    and inj: "inj_on (\<lambda>i. vmm_lookup (ptr + of_nat i) context s) {..<length bs}"
  shows "vmm_read_context ptr (int (length bs)) context s' = Inr (bs, s') \<and> cr3 s' = cr3 s \<and>
    (\<forall>a. a \<notin> (\<lambda>i. vmm_lookup (ptr + of_nat i) context s) ` {..<length bs} \<longrightarrow> ram s' a = ram s a)"
proof -
  define sc where "sc = vmm_activate_context context s"
  from w obtain s1 where len: "length bs \<le> 0x1000" and w1: "mmu_write sc ptr bs = Inr s1" and s': "s' = s1\<lparr>cr3 := cr3 s\<rparr>"
    by (auto simp: vmm_write_context_def sc_def)
  note spec = mmu_write_spec [OF w1]
  have addr: "mmu_addr sc (ptr + of_nat i) = vmm_lookup (ptr + of_nat i) context s" if "i < length bs" for i
  proof -
    have "mmu sc (ptr + of_nat i) = Inr (mmu_addr sc (ptr + of_nat i))" using spec that by blast
    then show ?thesis
      by (auto simp: mmu_def mmu_addr_def vmm_lookup_def sc_def vmm_activate_context_def pagedir_def Let_def split: if_splits)
  qed
  then have inj': "inj_on (\<lambda>i. mmu_addr sc (ptr + of_nat i)) {..<length bs}"
    and img: "(\<lambda>i. mmu_addr sc (ptr + of_nat i)) ` {..<length bs} = (\<lambda>i. vmm_lookup (ptr + of_nat i) context s) ` {..<length bs}"
    using inj by (auto simp: inj_on_def)
  have s1: "s1 = sc\<lparr>ram := ram s1\<rparr>" using spec by blast
  define r where "r = ram s1"
  have s1r: "s1 = s\<lparr>cr3 := pagedir s context, ram := r\<rparr>"
    using s1 by (simp add: r_def sc_def vmm_activate_context_def)
  have "vmm_activate_context context s' = s1"
    by (simp add: s' s1r vmm_activate_context_def pagedir_def)
  moreover have "mmu_read s1 ptr (length bs) = Inr bs"
  proof -
    have "\<forall>i<length bs. mmu s1 (ptr + of_nat i) = Inr (mmu_addr sc (ptr + of_nat i))"
    proof (intro allI impI)
      fix i assume "i < length bs"
      then have "mmu sc (ptr + of_nat i) = Inr (mmu_addr sc (ptr + of_nat i))" using spec by blast
      then show "mmu s1 (ptr + of_nat i) = Inr (mmu_addr sc (ptr + of_nat i))"
        by (simp add: s1r sc_def vmm_activate_context_def)
    qed
    then have "mmu_read s1 ptr (length bs) = Inr (map (\<lambda>i. ram s1 (mmu_addr sc (ptr + of_nat i))) [0..<length bs])"
      by (rule mmu_read_eq)
    moreover have "\<forall>i<length bs. ram s1 (mmu_addr sc (ptr + of_nat i)) = bs ! i" using spec inj' by blast
    then have "map (\<lambda>i. ram s1 (mmu_addr sc (ptr + of_nat i))) [0..<length bs] = bs"
      by (intro nth_equalityI) simp_all
    ultimately show ?thesis by simp
  qed
  moreover have "s1\<lparr>cr3 := cr3 s'\<rparr> = s'" by (simp add: s' s1r)
  moreover have "ram s' = ram s1" "cr3 s' = cr3 s" "ram sc = ram s"
    by (simp_all add: s' sc_def vmm_activate_context_def)
  moreover have "\<forall>a. a \<notin> (\<lambda>i. vmm_lookup (ptr + of_nat i) context s) ` {..<length bs} \<longrightarrow> ram s1 a = ram sc a"
    using spec unfolding img by blast
  ultimately show ?thesis
    using len by (simp add: vmm_read_context_def Let_def)
qed

section \<open>Instances\<close>

lemma task_region_contiguous_witness:
  "map_region (\<lambda>v p s. vmm_map_page 0x3000 v p (PTE_PRESENT OR PTE_WRITE OR PTE_USER) s) 0xC0000000 0x7000 0 2 demo_vmm =
     Inl (Abort ''Allocation failed!'') \<or>
   (\<exists>s'. map_region (\<lambda>v p s. vmm_map_page 0x3000 v p (PTE_PRESENT OR PTE_WRITE OR PTE_USER) s) 0xC0000000 0x7000 0 2 demo_vmm =
       Inr s' \<and> vmm_lookup 0xC0001234 0x3000 s' = 0x8234)"
  using task_region_contiguous [OF demo_vmm_wf, of "0x3000" "0xC0000000" "0x7000" 2]
  by (force simp: page_aligned_def)

lemma demo_exhausted: "\<forall>i<NPAGES. bitmap_test (bitmap (books demo_vmm)) i \<or> bitmap_test (bitmap_pagetable_mask (books demo_vmm)) i"
  by (simp add: demo_vmm_def bitmap_test_zero)

lemma vmm_alloc_identity_witness:
  "vmm_alloc 1 demo_vmm = Inl (Abort ''Allocation failed!'') \<or>
   (\<exists>ptr s'. vmm_alloc 1 demo_vmm = Inr (ptr, s') \<and> vmm_wf s' \<and>
      vmm_lookup (ptr + 20) (kernel_context s') s' = ptr + 20)"
  using vmm_alloc_identity [OF demo_vmm_wf, of 1] pmm_alloc_range_exhausted [OF demo_exhausted, of 1] by force

lemma vmm_alloc_exhausted_maps_null_witness:
  "vmm_alloc 1 demo_vmm = Inl (Abort ''Allocation failed!'') \<or>
   (\<exists>s'. vmm_alloc 1 demo_vmm = Inr (0, s') \<and> vmm_lookup 8 (kernel_context s') s' = 8)"
  using vmm_alloc_exhausted_maps_null [OF demo_vmm_wf _ demo_exhausted, of 1] by force

definition demo_mapped :: vmm where
  "demo_mapped = demo_vmm\<lparr>page_words := (\<lambda>p i. if p = 0x3000 \<and> i = 0 then 0x4000 else if p = 0x4000 \<and> i = 704 then 0x5007
     else if p = 0x5000 \<and> i = 0 then 0x7007 else 0)\<rparr>"

lemma vmm_write_read_context_witness:
  "\<exists>s'. vmm_write_context 0xB0000010 [1, 2] 0x3000 demo_mapped = Inr s' \<and>
        vmm_read_context 0xB0000010 2 0x3000 s' = Inr ([1, 2], s')"
proof -
  have l: "vmm_lookup 0xB0000010 0x3000 demo_mapped = 0x7010" "vmm_lookup 0xB0000011 0x3000 demo_mapped = 0x7011"
    by (simp_all add: vmm_lookup_def demo_mapped_def pagedir_def pd_index_def pt_index_def present_def
        PTE_PRESENT_def entry_page_def)
  have "\<exists>s'. vmm_write_context 0xB0000010 [1, 2] 0x3000 demo_mapped = Inr s'"
    by (simp add: vmm_write_context_def vmm_activate_context_def mmu_def demo_mapped_def pagedir_def pd_index_def
        pt_index_def present_def PTE_PRESENT_def entry_page_def)
  then obtain s' where s': "vmm_write_context 0xB0000010 [1, 2] 0x3000 demo_mapped = Inr s'" by blast
  have "inj_on (\<lambda>i. vmm_lookup (0xB0000010 + of_nat i) 0x3000 demo_mapped) {..<length [1 :: u8, 2]}"
    using l by (auto simp: inj_on_def less_Suc_eq numeral_2_eq_2)
  from vmm_write_read_context [OF s' this] s' show ?thesis by auto
qed

end
