(* ===== verification/Scheduler.thy ===== *)
theory Scheduler
  imports Vmm_Regions
begin

text \<open>
  The task table and the scheduler, \<open>mckrnl/core/scheduler/scheduler.c\<close> and \<open>resource.c\<close>, for the
  configured single-core kernel (\<open>SMP\<close> unset, \<open>SYMBOLS_FILE\<close> set).

  A pointer to a task is its slot in the table. The saved registers of a task live at the top of
  its kernel stack; \<open>reg_frames\<close> maps the address of such a frame to its contents. The memory
  manager state \<open>vm\<close> sees the contexts of the active tasks. Resources of a task are an array of
  destructor and argument; \<open>None\<close> is the null pointer. A destructor is called through its address, so
  the functions that run destructors take \<open>call\<close>, the effect of calling the function at an
  address with one argument. Kernel heap blocks for the arrays are not tracked here.

  Process identifiers, terminals, exit codes and times are \<open>int\<close> in the code: here they are
  integers, and every addition and subtraction on them is reduced to 32 bits by \<open>s32\<close>.
\<close>

section \<open>State\<close>

record cpu_registers =
  gs :: u32
  fs :: u32
  es :: u32
  ds :: u32
  eax :: u32
  ebx :: u32
  ecx :: u32
  edx :: u32
  esi :: u32
  edi :: u32
  ebp :: u32
  intr :: u32
  error :: u32
  eip :: u32
  cs :: u32
  eflags :: u32
  esp :: u32
  ss :: u32

record resource =
  res_dealloc :: u32
  res_resource :: u32

record task =
  registers :: u32
  active :: bool
  taken :: bool
  task_context :: u32
  stack :: u32
  user_stack :: u32
  pid :: int
  argv :: u32
  envp :: u32
  pwd :: "u8 list"
  resources :: "resource list option"
  num_resources :: nat
  wait_time :: int
  pin :: bool
  parent :: int
  task_term :: int
  pipe :: "u32 list"
  pipe_source :: "int list"
  symbols :: "(u8 list \<times> u32) list option"

record sched =
  tasks :: "task list"
  current_pid :: int
  current_task :: nat
  last_time_ms :: int
  exit_codes :: "(int \<times> int) list"
  exit_codes_idx :: nat
  is_scheduler_running :: bool
  reg_frames :: "u32 \<Rightarrow> cpu_registers"
  vm :: vmm

definition MAX_TASKS :: nat where
  "MAX_TASKS = 32"

definition KERNEL_STACK_SIZE_PAGES :: nat where
  "KERNEL_STACK_SIZE_PAGES = 16"

definition USER_STACK_SIZE_PAGES :: nat where
  "USER_STACK_SIZE_PAGES = 16"

definition USER_SPACE_OFFSET :: u32 where
  "USER_SPACE_OFFSET = 0xC0000000"

text \<open>What \<open>memset(task, 0, sizeof(task_t))\<close> leaves.\<close>

definition zero_task :: task where
  "zero_task = \<lparr>registers = 0, active = False, taken = False, task_context = 0, stack = 0, user_stack = 0,
     pid = 0, argv = 0, envp = 0, pwd = replicate 128 0, resources = None, num_resources = 0, wait_time = 0,
     pin = False, parent = 0, task_term = 0, pipe = [0, 0, 0], pipe_source = [0, 0, 0], symbols = None\<rparr>"

definition init_sched :: "vmm \<Rightarrow> (u32 \<Rightarrow> cpu_registers) \<Rightarrow> sched" where
  "init_sched v f = \<lparr>tasks = replicate MAX_TASKS zero_task, current_pid = 0, current_task = 0, last_time_ms = 0,
     exit_codes = replicate MAX_TASKS (0, 0), exit_codes_idx = 0, is_scheduler_running = False,
     reg_frames = f, vm = v\<rparr>"

definition upd_task :: "nat \<Rightarrow> (task \<Rightarrow> task) \<Rightarrow> 'z sched_scheme \<Rightarrow> 'z sched_scheme" where
  "upd_task i f s = s\<lparr>tasks := (tasks s)[i := f (tasks s ! i)]\<rparr>"

text \<open>The memory manager runs with the contexts of the tasks that are active at that moment.\<close>

definition active_of :: "task list \<Rightarrow> u32 list" where
  "active_of ts = map task_context (filter active ts)"

definition run_vm :: "(vmm \<Rightarrow> ('a \<times> vmm) kres) \<Rightarrow> 'z sched_scheme \<Rightarrow> ('a \<times> 'z sched_scheme) kres" where
  "run_vm f s =
     kbind (f ((vm s)\<lparr>active_contexts := active_of (tasks s)\<rparr>)) (\<lambda>(x, v). Inr (x, s\<lparr>vm := v\<rparr>))"

definition exec_vm :: "(vmm \<Rightarrow> vmm kres) \<Rightarrow> 'z sched_scheme \<Rightarrow> 'z sched_scheme kres" where
  "exec_vm f s =
     kbind (f ((vm s)\<lparr>active_contexts := active_of (tasks s)\<rparr>)) (\<lambda>v. Inr (s\<lparr>vm := v\<rparr>))"

section \<open>Lookup\<close>

fun find_index :: "('a \<Rightarrow> bool) \<Rightarrow> 'a list \<Rightarrow> nat option" where
  "find_index P [] = None"
| "find_index P (x # xs) = (if P x then Some 0 else map_option Suc (find_index P xs))"

definition find_empty_task_slot :: "'z sched_scheme \<Rightarrow> nat kres" where
  "find_empty_task_slot s =
     (case find_index (\<lambda>t. \<not> taken t) (tasks s) of
        Some i \<Rightarrow> Inr i
      | None \<Rightarrow> Inl (Abort ''Failed to find empty task slot''))"

definition get_task_by_pid :: "int \<Rightarrow> 'z sched_scheme \<Rightarrow> nat option" where
  "get_task_by_pid p s = find_index (\<lambda>t. active t \<and> pid t = p) (tasks s)"

definition get_self :: "'z sched_scheme \<Rightarrow> nat" where
  "get_self s = current_task s"

definition get_amount_running_tasks :: "'z sched_scheme \<Rightarrow> nat" where
  "get_amount_running_tasks s = length (filter active (tasks s))"

section \<open>Exit codes\<close>

definition add_exit_code :: "int \<Rightarrow> int \<Rightarrow> 'z sched_scheme \<Rightarrow> 'z sched_scheme" where
  "add_exit_code p code s =
     s\<lparr>exit_codes := (exit_codes s)[exit_codes_idx s := (p, code)],
       exit_codes_idx := (exit_codes_idx s + 1) mod MAX_TASKS\<rparr>"

definition get_exit_code :: "int \<Rightarrow> 'z sched_scheme \<Rightarrow> int" where
  "get_exit_code p s =
     (case find_index (\<lambda>e. fst e = p) (exit_codes s) of
        Some i \<Rightarrow> snd (exit_codes s ! i)
      | None \<Rightarrow> -1)"

section \<open>Resources\<close>

definition resource_register_self :: "resource \<Rightarrow> 'z sched_scheme \<Rightarrow> 'z sched_scheme kres" where
  "resource_register_self r s =
     (let t = tasks s ! get_self s
      in case resources t of
           None \<Rightarrow>
             if num_resources t = 0
             then Inr (upd_task (get_self s) (\<lambda>t. t\<lparr>resources := Some [r], num_resources := 1\<rparr>) s)
             else Inl BadPointer
         | Some rs \<Rightarrow>
             (case find_index (\<lambda>x. res_resource x = 0) rs of
                Some i \<Rightarrow> Inr (upd_task (get_self s) (\<lambda>t. t\<lparr>resources := Some (rs[i := r])\<rparr>) s)
              | None \<Rightarrow> Inr (upd_task (get_self s)
                          (\<lambda>t. t\<lparr>resources := Some (rs @ [r]), num_resources := num_resources t + 1\<rparr>) s)))"

definition resource_unregister_self :: "u32 \<Rightarrow> 'z sched_scheme \<Rightarrow> 'z sched_scheme kres" where
  "resource_unregister_self r s =
     (let t = tasks s ! get_self s
      in case resources t of
           None \<Rightarrow> if num_resources t = 0 then Inr s else Inl BadPointer
         | Some rs \<Rightarrow> Inr (upd_task (get_self s) (\<lambda>t. t\<lparr>resources := Some
             (map (\<lambda>x. if res_resource x = r then x\<lparr>res_resource := 0\<rparr> else x) rs)\<rparr>) s))"

text \<open>
  The destructors run in order. Each is called with the array as it is at that moment, since a
  destructor may itself change the task table.
\<close>

fun dealloc_from :: "(u32 \<Rightarrow> u32 \<Rightarrow> 'z sched_scheme \<Rightarrow> 'z sched_scheme kres) \<Rightarrow> nat \<Rightarrow> nat \<Rightarrow> nat \<Rightarrow> 'z sched_scheme \<Rightarrow> 'z sched_scheme kres" where
  "dealloc_from call i k 0 s = Inr s"
| "dealloc_from call i k (Suc n) s =
     (case resources (tasks s ! i) of
        None \<Rightarrow> Inl BadPointer
      | Some rs \<Rightarrow>
          if k < length rs then
            kbind (if res_resource (rs ! k) \<noteq> 0 then call (res_dealloc (rs ! k)) (res_resource (rs ! k)) s else Inr s)
              (dealloc_from call i (Suc k) n)
          else Inl OutOfBounds)"

definition resource_dealloc :: "(u32 \<Rightarrow> u32 \<Rightarrow> 'z sched_scheme \<Rightarrow> 'z sched_scheme kres) \<Rightarrow> nat \<Rightarrow> 'z sched_scheme \<Rightarrow> 'z sched_scheme kres" where
  "resource_dealloc call i s =
     kbind (dealloc_from call i 0 (num_resources (tasks s ! i)) s)
       (\<lambda>s1. Inr (upd_task i (\<lambda>t. t\<lparr>resources := None\<rparr>) s1))"

definition resource_dealloc_self :: "(u32 \<Rightarrow> u32 \<Rightarrow> 'z sched_scheme \<Rightarrow> 'z sched_scheme kres) \<Rightarrow> 'z sched_scheme \<Rightarrow> 'z sched_scheme kres" where
  "resource_dealloc_self call s = resource_dealloc call (get_self s) s"

section \<open>Creation and exit\<close>

definition new_state :: "u32 \<Rightarrow> u32 \<Rightarrow> cpu_registers" where
  "new_state entry ustack = \<lparr>gs = 0, fs = 0, es = 0x20 OR 0x03, ds = 0x20 OR 0x03, eax = 0, ebx = 0, ecx = 0,
     edx = 0, esi = 0, edi = 0, ebp = 0, intr = 0, error = 0, eip = entry, cs = 0x18 OR 0x03, eflags = 0x202,
     esp = ustack + of_nat USER_STACK_SIZE_PAGES * 4096 + USER_SPACE_OFFSET, ss = 0x20 OR 0x03\<rparr>"

text \<open>\<open>sizeof(cpu_registers_t)\<close>: eighteen words.\<close>

definition REGS_SIZE :: u32 where
  "REGS_SIZE = 72"

definition map_user_stack :: "u32 \<Rightarrow> u32 \<Rightarrow> vmm \<Rightarrow> vmm kres" where
  "map_user_stack ctx ustack =
     map_region (\<lambda>v p s. vmm_map_page ctx v p (PTE_PRESENT OR PTE_WRITE OR PTE_USER) s)
       (ustack + USER_SPACE_OFFSET) ustack 0 USER_STACK_SIZE_PAGES"

text \<open>The frame of saved registers at the top of the kernel stack.\<close>

definition stack_frame :: "u32 \<Rightarrow> u32" where
  "stack_frame kstack = kstack + of_nat KERNEL_STACK_SIZE_PAGES * 4096 - REGS_SIZE"

definition fill_task :: "nat \<Rightarrow> int \<Rightarrow> u32 \<Rightarrow> u32 \<Rightarrow> u32 \<Rightarrow> 'z sched_scheme \<Rightarrow> 'z sched_scheme" where
  "fill_task i trm entry kstack ustack s =
     upd_task i (\<lambda>t. t\<lparr>registers := stack_frame kstack, taken := True, stack := kstack, user_stack := ustack,
       pid := current_pid s, wait_time := 0, task_term := trm, pipe := [0, 0, 0], pipe_source := [-1, -1, -1]\<rparr>)
       (s\<lparr>reg_frames := (reg_frames s)(stack_frame kstack := new_state entry ustack),
          current_pid := s32 (current_pid s + 1)\<rparr>)"

text \<open>A process gets an address space of its own, a thread that of its parent.\<close>

definition attach_context :: "nat \<Rightarrow> nat option \<Rightarrow> 'z sched_scheme \<Rightarrow> 'z sched_scheme kres" where
  "attach_context i thread_of s =
     (case thread_of of
        None \<Rightarrow> kbind (run_vm vmm_create_context s) (\<lambda>(ctx, s1).
          kbind (exec_vm (\<lambda>v. Inr (vmm_clone_kernel_context ctx v)) s1) (\<lambda>s2.
            Inr (upd_task i (\<lambda>t. t\<lparr>task_context := ctx, parent := -1\<rparr>) s2)))
      | Some p \<Rightarrow> Inr (upd_task i (\<lambda>t. t\<lparr>task_context := task_context (tasks s ! p), parent := pid (tasks s ! p)\<rparr>) s))"

definition init_task :: "int \<Rightarrow> u32 \<Rightarrow> nat option \<Rightarrow> 'z sched_scheme \<Rightarrow> (nat \<times> 'z sched_scheme) kres" where
  "init_task trm entry thread_of s0 =
     kbind (find_empty_task_slot s0) (\<lambda>i.
     kbind (run_vm (vmm_alloc (of_nat KERNEL_STACK_SIZE_PAGES))
              (upd_task i (\<lambda>_. zero_task) (s0\<lparr>is_scheduler_running := False\<rparr>))) (\<lambda>(kstack, s1).
     kbind (run_vm (vmm_alloc (of_nat USER_STACK_SIZE_PAGES)) s1) (\<lambda>(ustack, s2).
     kbind (attach_context i thread_of (fill_task i trm entry kstack ustack s2)) (\<lambda>s3.
     kbind (exec_vm (map_user_stack (task_context (tasks s3 ! i)) ustack) s3) (\<lambda>s4.
       Inr (i, s4\<lparr>is_scheduler_running := is_scheduler_running s0\<rparr>))))))"

definition exit_task :: "(u32 \<Rightarrow> u32 \<Rightarrow> 'z sched_scheme \<Rightarrow> 'z sched_scheme kres) \<Rightarrow> nat \<Rightarrow> int \<Rightarrow> 'z sched_scheme \<Rightarrow> 'z sched_scheme kres" where
  "exit_task call i code s =
     (let self = get_self s;
          s1 = add_exit_code (pid (tasks s ! i)) code (upd_task i (\<lambda>t. t\<lparr>active := False, pin := False\<rparr>) s)
      in kbind (resource_dealloc call i s1) (\<lambda>s2.
         kbind (if parent (tasks s2 ! i) = -1 then
                  exec_vm (\<lambda>v. Inr (vmm_destroy_context (task_context (tasks s2 ! i))
                    (vmm_activate_context (kernel_context v) v))) s2
                else Inr s2) (\<lambda>s3.
         kbind (exec_vm (vmm_free (stack (tasks s3 ! i)) (of_nat KERNEL_STACK_SIZE_PAGES)) s3) (\<lambda>s4.
         let s5 = upd_task i (\<lambda>t. t\<lparr>taken := False\<rparr>) s4
         in if i = self then Inr s5
            else exec_vm (\<lambda>v. Inr (vmm_activate_context (task_context (tasks s5 ! self)) v)) s5))))"

section \<open>Scheduling\<close>

text \<open>The registers of the task switched to, or 0 when no task from \<open>i\<close> on is ready.\<close>

definition pick :: "nat \<Rightarrow> 'z sched_scheme \<Rightarrow> u32 \<times> 'z sched_scheme" where
  "pick i s = (registers (tasks s ! i),
     s\<lparr>current_task := i, vm := vmm_activate_context (task_context (tasks s ! i)) (vm s)\<rparr>)"

function switch_to_next_task :: "nat \<Rightarrow> int \<Rightarrow> bool \<Rightarrow> 'z sched_scheme \<Rightarrow> u32 \<times> 'z sched_scheme" where
  "switch_to_next_task i diff_ms ignore_wait_time s =
     (if i < MAX_TASKS then
        let t = tasks s ! i
        in if \<not> ignore_wait_time \<and> active t \<and> wait_time t > 0 then
             let s1 = upd_task i (\<lambda>t. t\<lparr>wait_time := s32 (wait_time t - diff_ms)\<rparr>) s
             in if wait_time (tasks s1 ! i) > 0 then switch_to_next_task (Suc i) diff_ms ignore_wait_time s1
                else pick i s1
           else if active t then pick i s
           else switch_to_next_task (Suc i) diff_ms ignore_wait_time s
      else (0, s))"
  by pat_completeness auto
termination
  by (relation "measure (\<lambda>(i, _). MAX_TASKS - i)") auto

declare switch_to_next_task.simps [simp del]

definition try_switch :: "nat \<Rightarrow> int \<Rightarrow> bool \<Rightarrow> ('z sched_scheme \<Rightarrow> (u32 \<times> 'z sched_scheme) kres) \<Rightarrow> 'z sched_scheme \<Rightarrow> (u32 \<times> 'z sched_scheme) kres" where
  "try_switch from diff_ms ignore otherwise s =
     (let (r, s1) = switch_to_next_task from diff_ms ignore s in if r \<noteq> 0 then Inr (r, s1) else otherwise s1)"

text \<open>
  \<open>schedule\<close> with what it asks of the drivers: whether it runs on the boot processor, the
  terminal shown, and the time, a \<open>long long\<close> that the code stores in an \<open>int\<close>.
\<close>

definition schedule :: "bool \<Rightarrow> int \<Rightarrow> int \<Rightarrow> u32 \<Rightarrow> 'z sched_scheme \<Rightarrow> (u32 \<times> 'z sched_scheme) kres" where
  "schedule on_bsp current_term time_ms regs s =
     (if \<not> is_scheduler_running s then Inr (regs, s)
      else if \<not> on_bsp then Inr (regs, s)
      else if pin (tasks s ! current_task s) \<and> task_term (tasks s ! current_task s) = current_term
      then Inr (registers (tasks s ! current_task s), s)
      else
        let curr_time_ms = s32 time_ms;
            diff_ms = s32 (curr_time_ms - last_time_ms s);
            s1 = s\<lparr>last_time_ms := curr_time_ms\<rparr>
        in try_switch (current_task s + 1) diff_ms False
             (try_switch 0 diff_ms False
               (try_switch 0 diff_ms True (\<lambda>_. Inl (Abort ''All tasks are dead lol'')))) s1)"

definition init_scheduler :: "sched \<Rightarrow> sched" where
  "init_scheduler s = s\<lparr>is_scheduler_running := True\<rparr>"

section \<open>Searching a table\<close>

lemma find_index_Some:
  "find_index P xs = Some i \<longleftrightarrow> i < length xs \<and> P (xs ! i) \<and> (\<forall>j<i. \<not> P (xs ! j))"
proof (induction xs arbitrary: i)
  case Nil
  then show ?case by simp
next
  case (Cons x xs)
  show ?case
    by (cases i) (auto simp: Cons.IH less_Suc_eq_0_disj)
qed

lemma find_index_None: "find_index P xs = None \<longleftrightarrow> (\<forall>x\<in>set xs. \<not> P x)"
  by (induction xs) auto

end
