(* ===== verification/Scheduler_Fair.thy ===== *)
theory Scheduler_Fair
  imports Scheduler
begin

text \<open>
  What \<open>schedule\<close> chooses: round robin among the tasks that are due, and no starvation.
\<close>

section \<open>One pass over the task table\<close>

text \<open>A pass subtracts the elapsed time from every waiting task it looks at.\<close>

definition dec :: "int \<Rightarrow> task \<Rightarrow> task" where
  "dec d t = (if active t \<and> wait_time t > 0 then t\<lparr>wait_time := s32 (wait_time t - d)\<rparr> else t)"

definition due :: "int \<Rightarrow> task \<Rightarrow> bool" where
  "due d t \<longleftrightarrow> active t \<and> (wait_time t \<le> 0 \<or> s32 (wait_time t - d) \<le> 0)"

definition dec_range :: "int \<Rightarrow> nat \<Rightarrow> nat \<Rightarrow> task list \<Rightarrow> task list" where
  "dec_range d a b ts = map (\<lambda>k. if a \<le> k \<and> k < b then dec d (ts ! k) else ts ! k) [0..<length ts]"

lemma length_dec_range [simp]: "length (dec_range d a b ts) = length ts"
  by (simp add: dec_range_def)

lemma nth_dec_range [simp]:
  "k < length ts \<Longrightarrow> dec_range d a b ts ! k = (if a \<le> k \<and> k < b then dec d (ts ! k) else ts ! k)"
  by (simp add: dec_range_def)

lemma dec_range_step:
  "i < length ts \<Longrightarrow> i < b \<Longrightarrow> dec_range d (Suc i) b (ts[i := dec d (ts ! i)]) = dec_range d i b ts"
  by (rule nth_equalityI) (auto simp: nth_list_update)

lemma dec_range_empty [simp]: "b \<le> a \<Longrightarrow> dec_range d a b ts = ts"
  by (rule nth_equalityI) auto

lemma dec_sel [simp]:
  "active (dec d t) = active t" "registers (dec d t) = registers t" "task_context (dec d t) = task_context t"
  "pin (dec d t) = pin t" "taken (dec d t) = taken t" "pid (dec d t) = pid t" "task_term (dec d t) = task_term t"
  by (simp_all add: dec_def)

lemma find_cong_on: "(\<And>x. x \<in> set xs \<Longrightarrow> P x = Q x) \<Longrightarrow> find P xs = find Q xs"
  by (induction xs) auto

lemma switch_waiting:
  assumes "length (tasks s) = MAX_TASKS" and "i \<le> MAX_TASKS"
  shows "switch_to_next_task i d False s =
    (case find (\<lambda>k. due d (tasks s ! k)) [i..<MAX_TASKS] of
       Some j \<Rightarrow> pick j (s\<lparr>tasks := dec_range d i (Suc j) (tasks s)\<rparr>)
     | None \<Rightarrow> (0, s\<lparr>tasks := dec_range d i MAX_TASKS (tasks s)\<rparr>))"
  using assms(2,1)
proof (induction i arbitrary: s rule: inc_induct)
  case base
  then show ?case by (simp add: switch_to_next_task.simps)
next
  case (step i)
  define t where "t = tasks s ! i"
  define s1 where "s1 = s\<lparr>tasks := (tasks s)[i := dec d t]\<rparr>"
  have upt: "[i..<MAX_TASKS] = i # [Suc i..<MAX_TASKS]" using step.hyps by (simp add: upt_conv_Cons)
  have len: "i < length (tasks s)" "length (tasks s1) = MAX_TASKS" using step by (simp_all add: s1_def)
  have dec_one: "dec_range d i (Suc i) (tasks s) = (tasks s)[i := dec d t]"
    using len by (intro nth_equalityI) (auto simp: nth_list_update t_def)
  have upd: "(if \<not> False \<and> active t \<and> wait_time t > 0
      then upd_task i (\<lambda>t. t\<lparr>wait_time := s32 (wait_time t - d)\<rparr>) s else s) = s1"
    using len by (auto simp: s1_def upd_task_def dec_def t_def)
  show ?case
  proof (cases "due d t")
    case True
    then have "switch_to_next_task i d False s = pick i s1"
      using upd step.hyps len by (subst switch_to_next_task.simps)
        (auto simp: Let_def t_def [symmetric] due_def upd_task_def nth_list_update split: if_splits)
    with True show ?thesis by (simp add: upt t_def [symmetric] dec_one s1_def)
  next
    case False
    then have "switch_to_next_task i d False s = switch_to_next_task (Suc i) d False s1"
      using upd step.hyps len by (subst switch_to_next_task.simps)
        (auto simp: Let_def t_def [symmetric] due_def upd_task_def nth_list_update split: if_splits)
    moreover have "find (\<lambda>k. due d (tasks s1 ! k)) [Suc i..<MAX_TASKS] = find (\<lambda>k. due d (tasks s ! k)) [Suc i..<MAX_TASKS]"
      by (rule find_cong_on) (auto simp: s1_def)
    moreover have "dec_range d (Suc i) b (tasks s1) = dec_range d i b (tasks s)" if "i < b" for b
      using dec_range_step [OF len(1) that, of d] by (simp add: s1_def t_def)
    moreover have "k > i" if "find (\<lambda>k. due d (tasks s ! k)) [Suc i..<MAX_TASKS] = Some k" for k
      using that by (auto simp: find_Some_iff nth_append)
    ultimately show ?thesis
      using step.IH [OF len(2)] step.hyps False
      by (auto simp: upt t_def [symmetric] s1_def split: option.splits)
  qed
qed

lemma switch_ignoring:
  assumes "length (tasks s) = MAX_TASKS" and "i \<le> MAX_TASKS"
  shows "switch_to_next_task i d True s =
    (case find (\<lambda>k. active (tasks s ! k)) [i..<MAX_TASKS] of Some j \<Rightarrow> pick j s | None \<Rightarrow> (0, s))"
  using assms(2)
proof (induction i rule: inc_induct)
  case base
  then show ?case by (simp add: switch_to_next_task.simps)
next
  case (step i)
  then show ?case
    by (subst switch_to_next_task.simps) (simp add: upt_conv_Cons Let_def)
qed

section \<open>The choice of \<open>schedule\<close>\<close>

text \<open>
  The slot \<open>schedule\<close> is to switch to: the first due task behind the current one, else the first
  one due from the start of the table, else any active task. A task behind the current one is
  passed twice in the second case, so that the elapsed time is subtracted twice.
\<close>

definition next_task :: "nat \<Rightarrow> int \<Rightarrow> task list \<Rightarrow> nat option" where
  "next_task cur d ts =
     (case find (\<lambda>k. due d (ts ! k)) [Suc cur..<MAX_TASKS] of
        Some k \<Rightarrow> Some k
      | None \<Rightarrow>
          (case find (\<lambda>k. due d (if cur < k then dec d (ts ! k) else ts ! k)) [0..<MAX_TASKS] of
             Some k \<Rightarrow> Some k
           | None \<Rightarrow> find (\<lambda>k. active (ts ! k)) [0..<MAX_TASKS]))"

text \<open>Task tables that differ in waiting times only.\<close>

definition same_tasks :: "task list \<Rightarrow> task list \<Rightarrow> bool" where
  "same_tasks ts ts' \<longleftrightarrow> length ts' = length ts \<and>
     (\<forall>k<length ts. ts' ! k = (ts ! k)\<lparr>wait_time := wait_time (ts' ! k)\<rparr> \<and>
        (wait_time (ts ! k) \<le> 0 \<longrightarrow> wait_time (ts' ! k) = wait_time (ts ! k)))"

definition sched_wf :: "'z sched_scheme \<Rightarrow> bool" where
  "sched_wf s \<longleftrightarrow> length (tasks s) = MAX_TASKS \<and> current_task s < MAX_TASKS \<and>
     (\<forall>t\<in>set (tasks s). active t \<longrightarrow> registers t \<noteq> 0)"

lemma same_tasks_refl [simp]: "same_tasks ts ts"
  by (simp add: same_tasks_def)

lemma same_tasks_dec_range: "same_tasks ts (dec_range d a b ts)"
  by (auto simp: same_tasks_def dec_def)

lemma same_tasks_trans: "same_tasks ts us \<Longrightarrow> same_tasks us vs \<Longrightarrow> same_tasks ts vs"
  unfolding same_tasks_def by (metis (no_types, lifting) task.surjective task.update_convs(13))

lemma due_active: "due d (if c then dec d t else t) \<Longrightarrow> active t"
  by (auto simp: due_def split: if_splits)

lemma find_in_range: "find P [a..<b] = Some k \<Longrightarrow> a \<le> k \<and> k < b \<and> P k \<and> (\<forall>j. a \<le> j \<and> j < k \<longrightarrow> \<not> P j)"
  by (fastforce simp: find_Some_iff nth_upt le_iff_add)

lemma find_range_None: "find P [a..<b] = None \<longleftrightarrow> (\<forall>k. a \<le> k \<and> k < b \<longrightarrow> \<not> P k)"
  by (auto simp: find_None_iff)

lemma try_switch_simps:
  "switch_to_next_task i d ign s = pick j s' \<Longrightarrow> registers (tasks s' ! j) \<noteq> 0 \<Longrightarrow>
   try_switch i d ign otherwise s = Inr (pick j s')"
  "switch_to_next_task i d ign s = (0, s') \<Longrightarrow> try_switch i d ign otherwise s = otherwise s'"
  by (simp_all add: try_switch_def pick_def)

lemma same_tasks_active: "same_tasks ts ts' \<Longrightarrow> k < length ts \<Longrightarrow>
    active (ts' ! k) = active (ts ! k) \<and> registers (ts' ! k) = registers (ts ! k) \<and>
    task_context (ts' ! k) = task_context (ts ! k) \<and> pin (ts' ! k) = pin (ts ! k) \<and> pid (ts' ! k) = pid (ts ! k)"
  unfolding same_tasks_def by (metis (no_types, lifting) task.select_convs task.surjective task.update_convs(13))

text \<open>The switch that \<open>schedule\<close> makes, with the task table it leaves.\<close>

lemma schedule_eq:
  assumes wf: "sched_wf s" and run: "is_scheduler_running s"
    and nopin: "\<not> (pin (tasks s ! current_task s) \<and> task_term (tasks s ! current_task s) = trm)"
  shows "(case next_task (current_task s) (s32 (s32 now - last_time_ms s)) (tasks s) of
      None \<Rightarrow> schedule True trm now regs s = Inl (Abort ''All tasks are dead lol'')
    | Some j \<Rightarrow> \<exists>ts'. same_tasks (tasks s) ts' \<and>
        schedule True trm now regs s = Inr (pick j (s\<lparr>last_time_ms := s32 now, tasks := ts'\<rparr>)))"
proof -
  define d where "d = s32 (s32 now - last_time_ms s)"
  define cur where "cur = current_task s"
  define s1 where "s1 = s\<lparr>last_time_ms := s32 now\<rparr>"
  have len: "length (tasks s1) = MAX_TASKS" "cur < MAX_TASKS" and regs: "\<And>k. k < MAX_TASKS \<Longrightarrow> active (tasks s ! k) \<Longrightarrow> registers (tasks s ! k) \<noteq> 0"
    using wf by (auto simp: sched_wf_def s1_def cur_def)
  have ts1: "tasks s1 = tasks s" by (simp add: s1_def)
  have sched: "schedule True trm now regs s = try_switch (Suc cur) d False
      (try_switch 0 d False (try_switch 0 d True (\<lambda>_. Inl (Abort ''All tasks are dead lol'')))) s1"
    using run nopin by (auto simp: schedule_def Let_def d_def s1_def cur_def)
  show ?thesis
  proof (cases "find (\<lambda>k. due d (tasks s ! k)) [Suc cur..<MAX_TASKS]")
    case (Some j)
    note j = find_in_range [OF Some]
    have "switch_to_next_task (Suc cur) d False s1 = pick j (s1\<lparr>tasks := dec_range d (Suc cur) (Suc j) (tasks s)\<rparr>)"
      using switch_waiting [OF len(1), of "Suc cur" d] len(2) Some ts1 by simp
    then have "schedule True trm now regs s = Inr (pick j (s1\<lparr>tasks := dec_range d (Suc cur) (Suc j) (tasks s)\<rparr>))"
      unfolding sched using j regs [of j] len ts1 by (intro try_switch_simps(1)) (auto simp: due_def)
    then have "schedule True trm now regs s =
        Inr (pick j (s\<lparr>last_time_ms := s32 now, tasks := dec_range d (Suc cur) (Suc j) (tasks s)\<rparr>))"
      by (simp add: s1_def)
    moreover have "next_task (current_task s) (s32 (s32 now - last_time_ms s)) (tasks s) = Some j"
      using Some by (simp add: next_task_def d_def [symmetric] cur_def [symmetric])
    ultimately show ?thesis using same_tasks_dec_range by (simp only: option.case) blast
  next
    case None
    define us where "us = dec_range d (Suc cur) MAX_TASKS (tasks s)"
    define s2 where "s2 = s1\<lparr>tasks := us\<rparr>"
    have len2: "length (tasks s2) = MAX_TASKS" using len ts1 by (simp add: s2_def us_def)
    have sw: "switch_to_next_task (Suc cur) d False s1 = (0, s2)"
      using switch_waiting [OF len(1), of "Suc cur" d] len(2) None ts1 by (simp add: s2_def us_def)
    have due2: "due d (us ! k) \<longleftrightarrow> due d (if cur < k then dec d (tasks s ! k) else tasks s ! k)" if "k < MAX_TASKS" for k
      using None that len by (auto simp: us_def ts1)
    have find2: "find (\<lambda>k. due d (tasks s2 ! k)) [0..<MAX_TASKS] =
        find (\<lambda>k. due d (if cur < k then dec d (tasks s ! k) else tasks s ! k)) [0..<MAX_TASKS]"
      by (rule find_cong_on) (simp add: s2_def due2)
    have same2: "same_tasks (tasks s) (dec_range d 0 b us)" for b
      unfolding us_def by (rule same_tasks_trans [OF same_tasks_dec_range same_tasks_dec_range])
    show ?thesis
    proof (cases "find (\<lambda>k. due d (if cur < k then dec d (tasks s ! k) else tasks s ! k)) [0..<MAX_TASKS]")
      case (Some j)
      note j = find_in_range [OF Some]
      have "switch_to_next_task 0 d False s2 = pick j (s2\<lparr>tasks := dec_range d 0 (Suc j) us\<rparr>)"
        using switch_waiting [OF len2, of 0 d] find2 Some by (simp add: s2_def)
      moreover have "registers (dec_range d 0 (Suc j) us ! j) \<noteq> 0"
        using same_tasks_active [OF same2, of j "Suc j"] j due_active [of d] regs [of j] len ts1 by auto
      ultimately have "schedule True trm now regs s = Inr (pick j (s2\<lparr>tasks := dec_range d 0 (Suc j) us\<rparr>))"
        unfolding sched try_switch_simps(2) [OF sw] by (intro try_switch_simps(1)) auto
      then have "schedule True trm now regs s = Inr (pick j (s\<lparr>last_time_ms := s32 now, tasks := dec_range d 0 (Suc j) us\<rparr>))"
        by (simp add: s2_def s1_def)
      moreover have "next_task (current_task s) (s32 (s32 now - last_time_ms s)) (tasks s) = Some j"
        using None Some by (simp add: next_task_def d_def [symmetric] cur_def [symmetric])
      ultimately show ?thesis using same2 by (simp only: option.case) blast
    next
      case none2: None
      define s3 where "s3 = s2\<lparr>tasks := dec_range d 0 MAX_TASKS us\<rparr>"
      have sw2: "switch_to_next_task 0 d False s2 = (0, s3)"
        using switch_waiting [OF len2, of 0 d] find2 none2 by (simp add: s3_def s2_def)
      have len3: "length (tasks s3) = MAX_TASKS" using len2 by (simp add: s3_def s2_def)
      have act: "active (tasks s3 ! k) = active (tasks s ! k)" "registers (tasks s3 ! k) = registers (tasks s ! k)"
        if "k < MAX_TASKS" for k
        using same_tasks_active [OF same2, of k MAX_TASKS] that len ts1 by (auto simp: s3_def)
      have find3: "find (\<lambda>k. active (tasks s3 ! k)) [0..<MAX_TASKS] = find (\<lambda>k. active (tasks s ! k)) [0..<MAX_TASKS]"
        by (rule find_cong_on) (simp add: act)
      have step: "schedule True trm now regs s = try_switch 0 d True (\<lambda>_. Inl (Abort ''All tasks are dead lol'')) s3"
        unfolding sched try_switch_simps(2) [OF sw] try_switch_simps(2) [OF sw2] ..
      show ?thesis
      proof (cases "find (\<lambda>k. active (tasks s ! k)) [0..<MAX_TASKS]")
        case (Some j)
        note j = find_in_range [OF Some]
        have "switch_to_next_task 0 d True s3 = pick j s3"
          using switch_ignoring [OF len3, of 0 d] find3 Some by simp
        then have "schedule True trm now regs s = Inr (pick j s3)"
          unfolding step using act [of j] j regs [of j] by (intro try_switch_simps(1)) auto
        then have "schedule True trm now regs s = Inr (pick j (s\<lparr>last_time_ms := s32 now, tasks := dec_range d 0 MAX_TASKS us\<rparr>))"
          by (simp add: s3_def s2_def s1_def)
        moreover have "next_task (current_task s) (s32 (s32 now - last_time_ms s)) (tasks s) = Some j"
          using None none2 Some by (simp add: next_task_def d_def [symmetric] cur_def [symmetric])
        ultimately show ?thesis using same2 by (simp only: option.case) blast
      next
        case none3: None
        have "switch_to_next_task 0 d True s3 = (0, s3)"
          using switch_ignoring [OF len3, of 0 d] find3 none3 by simp
        then show ?thesis
          unfolding step using None none2 none3
          by (simp add: next_task_def d_def [symmetric] cur_def [symmetric] try_switch_simps(2))
      qed
    qed
  qed
qed

lemma next_task_active: "next_task cur d ts = Some j \<Longrightarrow> j < MAX_TASKS \<and> active (ts ! j)"
  by (auto simp: next_task_def due_def dest!: find_in_range split: option.splits if_splits)

text \<open>
  Round robin. While the scheduler runs and the current task is not pinned to the visible
  terminal, \<open>schedule\<close> switches to the task that \<open>next_task\<close> names, or panics when no task is active.
  The task chosen is active, its saved registers are returned and its address space is
  loaded; apart from waiting times the task table is unchanged, and a task that was not
  waiting still is not.
\<close>

theorem schedule_round_robin:
  assumes "sched_wf s" and "is_scheduler_running s"
    and "\<not> (pin (tasks s ! current_task s) \<and> task_term (tasks s ! current_task s) = trm)"
  shows "case next_task (current_task s) (s32 (s32 now - last_time_ms s)) (tasks s) of
      None \<Rightarrow> schedule True trm now regs s = Inl (Abort ''All tasks are dead lol'')
    | Some j \<Rightarrow> active (tasks s ! j) \<and> (\<exists>s'. schedule True trm now regs s = Inr (registers (tasks s ! j), s') \<and>
        current_task s' = j \<and> last_time_ms s' = s32 now \<and> same_tasks (tasks s) (tasks s') \<and>
        cr3 (vm s') = pagedir (vm s) (task_context (tasks s ! j)))"
proof (cases "next_task (current_task s) (s32 (s32 now - last_time_ms s)) (tasks s)")
  case None
  with schedule_eq [OF assms, of now regs] show ?thesis by simp
next
  case (Some j)
  then obtain ts' where ts': "same_tasks (tasks s) ts'"
      "schedule True trm now regs s = Inr (pick j (s\<lparr>last_time_ms := s32 now, tasks := ts'\<rparr>))"
    using schedule_eq [OF assms, of now regs] by auto
  have "j < length (tasks s)" using next_task_active [OF Some] assms(1) by (simp add: sched_wf_def)
  from same_tasks_active [OF ts'(1) this] ts' Some next_task_active [OF Some] show ?thesis
    by (auto simp: pick_def vmm_activate_context_def pagedir_def)
qed

section \<open>No starvation\<close>

text \<open>The timer calls \<open>schedule\<close> at the given times.\<close>

fun schedule_many :: "int \<Rightarrow> int list \<Rightarrow> 'z sched_scheme \<Rightarrow> 'z sched_scheme kres" where
  "schedule_many trm [] s = Inr s"
| "schedule_many trm (now # ns) s =
     kbind (schedule True trm now (registers (tasks s ! current_task s)) s) (\<lambda>(_, s1). schedule_many trm ns s1)"

text \<open>How far the task \<open>j\<close> is behind the current one, going round the table.\<close>

definition turns :: "nat \<Rightarrow> nat \<Rightarrow> nat" where
  "turns cur j = (if cur < j then j - cur else MAX_TASKS + j - cur)"

lemma next_task_closer:
  assumes "j < MAX_TASKS" and "cur < MAX_TASKS" and "active (ts ! j)" and "wait_time (ts ! j) \<le> 0"
  obtains k where "next_task cur d ts = Some k" and "k < MAX_TASKS" and "k = j \<or> turns k j < turns cur j"
proof (cases "find (\<lambda>k. due d (ts ! k)) [Suc cur..<MAX_TASKS]")
  case (Some k)
  note k = find_in_range [OF Some]
  have "j < Suc cur \<or> k \<le> j" using k assms by (auto simp: due_def not_less)
  then have "k = j \<or> turns k j < turns cur j" using k assms by (auto simp: turns_def)
  with k Some that [of k] show thesis by (simp add: next_task_def)
next
  case None
  then have "j \<le> cur" using assms by (auto simp: find_range_None due_def not_less_eq_eq)
  have due: "due d (if cur < j then dec d (ts ! j) else ts ! j)" using assms by (simp add: due_def dec_def)
  then obtain k where k: "find (\<lambda>k. due d (if cur < k then dec d (ts ! k) else ts ! k)) [0..<MAX_TASKS] = Some k"
    using assms(1) by (cases "find (\<lambda>k. due d (if cur < k then dec d (ts ! k) else ts ! k)) [0..<MAX_TASKS]")
      (auto simp: find_range_None)
  have "k \<le> j" using find_in_range [OF k] due by (metis le0 not_less)
  then have "k = j \<or> turns k j < turns cur j" "k < MAX_TASKS"
    using \<open>j \<le> cur\<close> assms by (auto simp: turns_def)
  with k None that [of k] show thesis by (simp add: next_task_def)
qed

text \<open>What the timer ticks keep: the table is sane, the scheduler runs, nothing is pinned, and
  the task \<open>j\<close> is ready.\<close>

definition ready_run :: "nat \<Rightarrow> 'z sched_scheme \<Rightarrow> bool" where
  "ready_run j s \<longleftrightarrow> sched_wf s \<and> is_scheduler_running s \<and> (\<forall>t\<in>set (tasks s). \<not> pin t) \<and>
     j < MAX_TASKS \<and> active (tasks s ! j) \<and> wait_time (tasks s ! j) \<le> 0"

lemma same_tasks_wf:
  assumes "sched_wf s" and "same_tasks (tasks s) ts'" and "k < MAX_TASKS"
  shows "sched_wf (s\<lparr>tasks := ts', current_task := k\<rparr>)"
  unfolding sched_wf_def
proof (intro conjI ballI impI)
  fix t assume t: "t \<in> set (tasks (s\<lparr>tasks := ts', current_task := k\<rparr>))" "active t"
  then obtain i where i: "i < length (tasks s)" "t = ts' ! i"
    using assms(2) by (auto simp: in_set_conv_nth same_tasks_def)
  then show "registers t \<noteq> 0"
    using same_tasks_active [OF assms(2) i(1)] t(2) assms(1) by (simp add: sched_wf_def)
qed (use assms in \<open>simp_all add: sched_wf_def same_tasks_def\<close>)

lemma schedule_tick:
  assumes r: "ready_run j s"
  obtains s' where "schedule True trm now regs s = Inr (registers (tasks s ! current_task s'), s')" and "ready_run j s'"
    and "current_task s' = j \<or> turns (current_task s') j < turns (current_task s) j"
proof -
  have wf: "sched_wf s" and run: "is_scheduler_running s" and cur: "current_task s < MAX_TASKS"
    and j: "j < MAX_TASKS" "active (tasks s ! j)" "wait_time (tasks s ! j) \<le> 0"
    and pins: "\<And>k. k < MAX_TASKS \<Longrightarrow> \<not> pin (tasks s ! k)"
    using r by (auto simp: ready_run_def sched_wf_def)
  obtain k where k: "next_task (current_task s) (s32 (s32 now - last_time_ms s)) (tasks s) = Some k" "k < MAX_TASKS"
      "k = j \<or> turns k j < turns (current_task s) j"
    using next_task_closer [OF j(1) cur j(2,3)] .
  obtain ts' where ts': "same_tasks (tasks s) ts'"
      "schedule True trm now regs s = Inr (pick k (s\<lparr>last_time_ms := s32 now, tasks := ts'\<rparr>))"
    using schedule_eq [OF wf run, of trm now regs] pins [OF cur] k(1) by auto
  define s' where "s' = snd (pick k (s\<lparr>last_time_ms := s32 now, tasks := ts'\<rparr>))"
  have len: "length (tasks s) = MAX_TASKS" using wf by (simp add: sched_wf_def)
  have "sched_wf s'" using same_tasks_wf [OF wf ts'(1) k(2)] by (simp add: s'_def pick_def sched_wf_def)
  moreover have "\<forall>t\<in>set ts'. \<not> pin t"
    using same_tasks_active [OF ts'(1)] pins ts'(1) len by (auto simp: in_set_conv_nth same_tasks_def)
  ultimately have "ready_run j s'"
    using same_tasks_active [OF ts'(1), of j] ts'(1) run j len
    by (auto simp: ready_run_def s'_def pick_def same_tasks_def)
  moreover have "schedule True trm now regs s = Inr (registers (tasks s ! k), s')" "current_task s' = k"
    using ts'(2) same_tasks_active [OF ts'(1), of k] k(2) len by (simp_all add: s'_def pick_def)
  ultimately show thesis using that k(3) by simp
qed

text \<open>
  C12. No task starves. While no task is pinned, a task that is active and not waiting is switched
  to within 32 timer ticks, whatever the clock shows at each tick and however the other tasks
  wait.
\<close>

theorem schedule_no_starvation:
  fixes s :: "'z sched_scheme"
  assumes "ready_run j s" and "length ticks = MAX_TASKS"
  shows "\<exists>k s'. 0 < k \<and> k \<le> MAX_TASKS \<and> schedule_many trm (take k ticks) s = Inr s' \<and> current_task s' = j"
proof -
  have "\<exists>k s'. 0 < k \<and> k \<le> n \<and> schedule_many trm (take k ticks) s = Inr s' \<and> current_task s' = j"
    if "ready_run j s" "turns (current_task s) j \<le> n" "n \<le> length ticks" for n and s :: "'z sched_scheme" and ticks
    using that
  proof (induction n arbitrary: s ticks)
    case 0
    then show ?case by (auto simp: turns_def ready_run_def sched_wf_def split: if_splits)
  next
    case (Suc n)
    then obtain t ts where ticks: "ticks = t # ts" by (cases ticks) auto
    obtain s1 where s1: "schedule True trm t (registers (tasks s ! current_task s)) s = Inr (registers (tasks s ! current_task s1), s1)"
        "ready_run j s1" "current_task s1 = j \<or> turns (current_task s1) j < turns (current_task s) j"
      using schedule_tick [OF Suc.prems(1)] .
    show ?case
    proof (cases "current_task s1 = j")
      case True
      then show ?thesis using s1(1) by (intro exI [of _ 1] exI [of _ s1]) (simp add: ticks)
    next
      case False
      then obtain k s' where "0 < k" "k \<le> n" "schedule_many trm (take k ts) s1 = Inr s'" "current_task s' = j"
        using Suc.IH [OF s1(2), of ts] Suc.prems s1(3) ticks by auto
      then show ?thesis using s1(1) by (intro exI [of _ "Suc k"] exI [of _ s']) (simp add: ticks)
    qed
  qed
  moreover have "turns (current_task s) j \<le> MAX_TASKS"
    using assms(1) by (auto simp: turns_def ready_run_def)
  ultimately show ?thesis using assms by auto
qed

section \<open>Witnesses\<close>

text \<open>Two tasks in the slots 0 and 3 share the processor; the first of them runs.\<close>

definition demo_task :: "u32 \<Rightarrow> task" where
  "demo_task r = zero_task\<lparr>registers := r, active := True, taken := True\<rparr>"

definition demo_running :: sched where
  "demo_running = (init_sched \<lparr>books = \<lparr>bitmap = \<lambda>_. 0, bitmap_pagetable_mask = \<lambda>_. 0, free_memory = 0, used_memory = 0\<rparr>,
     page_words = \<lambda>_ _. 0, ram = \<lambda>_. 0, kernel_context = 0x1000, active_contexts = [], cr3 = 0\<rparr> (\<lambda>_. new_state 0 0))
     \<lparr>tasks := (replicate MAX_TASKS zero_task)[0 := demo_task 0x7000, 3 := demo_task 0x9000], is_scheduler_running := True\<rparr>"

lemma demo_tasks: "tasks demo_running ! k = (if k = 0 then demo_task 0x7000 else if k = 3 then demo_task 0x9000 else zero_task)"
  if "k < MAX_TASKS"
  using that by (auto simp: demo_running_def nth_list_update MAX_TASKS_def)

lemma demo_len: "length (tasks demo_running) = MAX_TASKS"
  by (simp add: demo_running_def)

lemma demo_ready: "ready_run 3 demo_running"
  using demo_len demo_tasks unfolding ready_run_def sched_wf_def
  by (auto simp: in_set_conv_nth demo_task_def zero_task_def MAX_TASKS_def split: if_splits)
    (simp_all add: demo_running_def init_sched_def MAX_TASKS_def)

lemma demo_next: "next_task (current_task demo_running) (s32 (s32 10 - last_time_ms demo_running)) (tasks demo_running) = Some 3"
proof -
  have "current_task demo_running = 0" by (simp add: demo_running_def init_sched_def)
  moreover have "[Suc 0..<MAX_TASKS] = [1, 2, 3] @ [4..<32]" by (simp add: MAX_TASKS_def upt_rec)
  ultimately show ?thesis
    by (simp add: next_task_def due_def demo_tasks MAX_TASKS_def demo_task_def zero_task_def)
qed

theorem schedule_round_robin_witness:
  "\<exists>s'. schedule True 0 10 0x7000 demo_running = Inr (0x9000, s') \<and> current_task s' = 3"
proof -
  have "sched_wf demo_running" "is_scheduler_running demo_running" "\<not> pin (tasks demo_running ! current_task demo_running)"
    using demo_ready by (auto simp: ready_run_def sched_wf_def)
  with schedule_round_robin [of demo_running 0 10 "0x7000"] demo_next show ?thesis
    by (auto simp: demo_tasks MAX_TASKS_def demo_task_def)
qed

theorem schedule_no_starvation_witness:
  "\<exists>k s'. 0 < k \<and> k \<le> MAX_TASKS \<and>
     schedule_many 0 (take k (map int [0..<MAX_TASKS])) demo_running = Inr s' \<and> current_task s' = 3"
  using schedule_no_starvation [OF demo_ready, of "map int [0..<MAX_TASKS]" 0] by simp

end
