(* ===== verification/Demo_Machine.thy ===== *)
theory Demo_Machine
  imports Scheduler
begin

text \<open>
  A small machine on which tasks can really be created, for the instances of properties about tasks and programs.

  The free memory is pages 32 to 127 for data and pages 16 to 23, in the paging area, for page tables. The
  kernel's context is at \<open>0x1000\<close> and its directory at \<open>0x2000\<close>; the table at \<open>0x5000\<close> maps its first 4 MB. The lemmas
  say what the operations of the memory manager do while data pages \<open>a\<close> and table pages \<open>t\<close> are the next to go.
\<close>

section \<open>The machine\<close>

definition lab_mask :: bitmap where
  "lab_mask = bitmap_set_range (\<lambda>_. 0xffffffff) 16 8"

lemma lab_mask_test [simp]: "bitmap_test lab_mask k \<longleftrightarrow> 16 \<le> k \<and> k < 24"
  by (simp add: lab_mask_def bitmap_test_set_range all_ones_test)

definition lab_books :: "nat \<Rightarrow> nat \<Rightarrow> pmm \<Rightarrow> bool" where
  "lab_books a t b \<longleftrightarrow> 32 \<le> a \<and> 16 \<le> t \<and> bitmap_pagetable_mask b = lab_mask \<and>
     (\<forall>k. bitmap_test (bitmap b) k \<longleftrightarrow> \<not> (a \<le> k \<and> k < 128 \<or> t \<le> k \<and> k < 24))"

definition lab_tables :: "vmm \<Rightarrow> bool" where
  "lab_tables s \<longleftrightarrow> kernel_context s = 0x1000 \<and> cr3 s = 0x2000 \<and> page_words s 0x1000 0 = 0x2000 \<and>
     page_words s 0x2000 0 = 0x5003 \<and> (\<forall>i. i \<noteq> 0 \<longrightarrow> page_words s 0x2000 i = 0)"

definition lab :: "nat \<Rightarrow> nat \<Rightarrow> vmm \<Rightarrow> bool" where
  "lab a t s \<longleftrightarrow> lab_books a t (books s) \<and> lab_tables s"

definition lab_machine :: vmm where
  "lab_machine = \<lparr>books = \<lparr>bitmap = bitmap_clear_range (bitmap_clear_range (\<lambda>_. 0) 32 96) 16 8,
       bitmap_pagetable_mask = lab_mask, free_memory = 0x68000, used_memory = 0\<rparr>,
     page_words = (\<lambda>p i. if p = 0x1000 \<and> i = 0 then 0x2000 else if p = 0x2000 \<and> i = 0 then 0x5003 else 0),
     ram = (\<lambda>_. 0), kernel_context = 0x1000, active_contexts = [], cr3 = 0x2000\<rparr>"

lemma lab_start: "lab 32 16 lab_machine"
proof -
  have "bitmap_test (\<lambda>_. 0) k" for k by (simp add: bitmap_test_def)
  then show ?thesis
    by (auto simp: lab_def lab_books_def lab_tables_def lab_machine_def bitmap_test_clear_range)
qed

lemma lab_same [simp]:
  "lab a t (s\<lparr>active_contexts := acs\<rparr>) = lab a t s" "lab a t (s\<lparr>ram := r\<rparr>) = lab a t s"
  "lab_tables (s\<lparr>books := b\<rparr>) = lab_tables s"
  by (simp_all add: lab_def lab_tables_def)

section \<open>Addresses\<close>

lemma lab_pages [simp]: "k < 128 \<Longrightarrow> k < NPAGES"
  by (simp add: NPAGES_def BITMAP_SIZE_def)

lemma kernel_page:
  assumes "k < 1024"
  shows "page_addr k AND 0xfff = 0" "page_aligned (page_addr k)" "pd_index (page_addr k) = 0" "pt_index (page_addr k) = k"
proof -
  have k: "k < NPAGES" using assms by (simp add: NPAGES_def BITMAP_SIZE_def)
  then show al: "page_aligned (page_addr k)" by (rule page_addr_aligned)
  then show "page_addr k AND 0xfff = 0" by (simp add: page_aligned_def)
  show "pd_index (page_addr k) = 0" "pt_index (page_addr k) = k"
    using assms unat_page_addr [OF k] by (simp_all add: pd_index_def pt_index_def unat_div unat_mod)
qed

lemma user_page_index:
  assumes "k < 1024"
  shows "(page_addr k + USER_SPACE_OFFSET) AND 0xfff = 0" "pd_index (page_addr k + USER_SPACE_OFFSET) = 768"
    "pt_index (page_addr k + USER_SPACE_OFFSET) = k"
proof -
  have k: "k < NPAGES" using assms by (simp add: NPAGES_def BITMAP_SIZE_def)
  have "page_aligned (USER_SPACE_OFFSET)" by (simp add: USER_SPACE_OFFSET_def page_aligned_def)
  then have "page_aligned (page_addr k + USER_SPACE_OFFSET)"
    using kernel_page(2) [OF assms] by (intro page_aligned_plus)
  then show "(page_addr k + USER_SPACE_OFFSET) AND 0xfff = 0" by (simp add: page_aligned_def)
  have u: "unat (page_addr k + USER_SPACE_OFFSET) = k * 4096 + 0xC0000000"
    using assms unat_page_addr [OF k] by (simp add: USER_SPACE_OFFSET_def unat_word_ariths)
  have "(k * 4096 + 0xC0000000) div 4096 = k + 786432" by simp
  moreover have "(k + 786432) mod 1024 = k" using mod_mult_self1 [of k 768 1024] assms by simp
  ultimately show "pd_index (page_addr k + USER_SPACE_OFFSET) = 768" "pt_index (page_addr k + USER_SPACE_OFFSET) = k"
    using assms by (simp_all add: pd_index_def pt_index_def unat_div unat_mod u)
qed

lemma page_addr_next: "page_addr a + of_nat i * 0x1000 = page_addr (a + i)"
  by (simp add: page_addr_def algebra_simps)

section \<open>Kernel memory\<close>

lemma lab_frames:
  assumes "lab_books a t b" and "0 < n" and "a + n \<le> 128"
  shows "\<exists>b'. pmm_alloc_range (int n) b = Inr (page_addr a, b') \<and> lab_books (a + n) t b'"
proof -
  define b' where "b' = pmm_usage_use (of_nat n) (b\<lparr>bitmap := bitmap_set_range (bitmap b) a n\<rparr>)"
  have used: "bitmap_test (bitmap b) k \<longleftrightarrow> \<not> (a \<le> k \<and> k < 128 \<or> t \<le> k \<and> k < 24)"
    and msk: "bitmap_test (bitmap_pagetable_mask b) k \<longleftrightarrow> 16 \<le> k \<and> k < 24" and bounds: "32 \<le> a" "16 \<le> t" for k
    using assms(1) by (simp_all add: lab_books_def)
  have conf: "range_conflict b a n j = Inr None" if "j \<le> n" for j
    using that
  proof (induction j rule: inc_induct)
    case base
    then show ?case by (simp add: range_conflict.simps)
  next
    case (step j)
    then show ?case using assms(2,3) used by (subst range_conflict.simps) simp
  qed
  have "pmm_alloc_range_from (int n) i b = Inr (page_addr a, b')" if "i \<le> a" for i
    using that
  proof (induction i rule: inc_induct)
    case base
    then show ?case using assms(2,3) conf [of 0] bounds used msk
      by (subst pmm_alloc_range_from.simps) (simp add: b'_def)
  next
    case (step i)
    then have "bitmap_test (bitmap b) i \<or> bitmap_test (bitmap_pagetable_mask b) i"
      using bounds by (simp add: used msk)
    moreover have "i < NPAGES" using step assms(2,3) by (intro lab_pages) linarith
    ultimately show ?case using step by (subst pmm_alloc_range_from.simps) auto
  qed
  moreover have "lab_books (a + n) t b'"
    unfolding lab_books_def
  proof (intro conjI allI)
    show "bitmap_test (bitmap b') k \<longleftrightarrow> \<not> (a + n \<le> k \<and> k < 128 \<or> t \<le> k \<and> k < 24)" for k
    proof -
      have "bitmap_test (bitmap b') k \<longleftrightarrow> a \<le> k \<and> k < a + n \<or> \<not> (a \<le> k \<and> k < 128 \<or> t \<le> k \<and> k < 24)"
        by (simp add: b'_def bitmap_test_set_range used)
      then show ?thesis using assms(3) bounds by (cases "a \<le> k"; cases "k < a + n") simp_all
    qed
  qed (use assms(1) bounds in \<open>simp_all add: lab_books_def b'_def\<close>)
  ultimately show ?thesis by (auto simp: pmm_alloc_range_def)
qed

lemma lab_map_kernel:
  assumes "lab_tables s" and "k < 128"
  shows "vmm_map_page (kernel_context s) (page_addr k) (page_addr k) (PTE_PRESENT OR PTE_WRITE) s =
      Inr (0, put_word 0x5000 k (page_addr k OR 3) s)"
    and "lab_tables (put_word 0x5000 k (page_addr k OR 3) s)"
proof -
  have k: "k < 1024" using assms by simp
  show "vmm_map_page (kernel_context s) (page_addr k) (page_addr k) (PTE_PRESENT OR PTE_WRITE) s =
      Inr (0, put_word 0x5000 k (page_addr k OR 3) s)"
    using assms kernel_page [OF k]
    by (simp add: vmm_map_page_def vmm_map_page_unsafe_def lab_tables_def pagedir_def present_def PTE_PRESENT_def
        PTE_WRITE_def entry_page_def)
  show "lab_tables (put_word 0x5000 k (page_addr k OR 3) s)"
    using assms by (simp add: lab_tables_def put_word_def)
qed

definition outside :: "u32 \<Rightarrow> vmm \<Rightarrow> vmm \<Rightarrow> bool" where
  "outside p s s' \<longleftrightarrow> (\<forall>q. q \<noteq> p \<longrightarrow> page_words s' q = page_words s q) \<and> active_contexts s' = active_contexts s"

lemma outside_refl [simp]: "outside p s s"
  by (simp add: outside_def)

text \<open>Pages \<open>a\<close> to \<open>b - 1\<close> are mapped one to one in the kernel in addition to what was mapped.\<close>

definition now_mapped :: "nat \<Rightarrow> nat \<Rightarrow> vmm \<Rightarrow> vmm \<Rightarrow> bool" where
  "now_mapped a b s s' \<longleftrightarrow> outside 0x5000 s s' \<and>
     (\<forall>k. page_words s' 0x5000 k = (if a \<le> k \<and> k < b then page_addr k OR 3 else page_words s 0x5000 k))"

lemma lab_map_range:
  assumes "lab_tables s" and "a + i + n \<le> 128"
  shows "\<exists>s'. map_range (page_addr a) i n s = Inr s' \<and> lab_tables s' \<and> books s' = books s \<and> now_mapped (a + i) (a + i + n) s s'"
  using assms
proof (induction n arbitrary: i s)
  case 0
  then show ?case by (auto simp: now_mapped_def)
next
  case (Suc n)
  define s1 where "s1 = put_word 0x5000 (a + i) (page_addr (a + i) OR 3) s"
  have k: "a + i < 128" using Suc.prems by simp
  note m = lab_map_kernel [OF Suc.prems(1) k]
  have t1: "lab_tables s1" using m(2) by (simp add: s1_def)
  then obtain s' where "map_range (page_addr a) (Suc i) n s1 = Inr s'" "lab_tables s'"
      "books s' = books s1" "now_mapped (a + Suc i) (a + Suc i + n) s1 s'"
    using Suc.IH [OF t1, of "Suc i"] Suc.prems by auto
  then show ?case
    using m(1) by (auto simp: page_addr_next s1_def now_mapped_def outside_def put_word_def)
qed

lemma lab_alloc:
  assumes "lab a t s" and "0 < n" and "a + n \<le> 128"
  obtains s' where "vmm_alloc (of_nat n) s = Inr (page_addr a, s')" and "lab (a + n) t s'" and "now_mapped a (a + n) s s'"
proof -
  obtain b where b: "pmm_alloc_range (int n) (books s) = Inr (page_addr a, b)" "lab_books (a + n) t b"
    using lab_frames [of a t "books s" n] assms by (auto simp: lab_def)
  have n: "sint (of_nat n :: u32) = int n" "unat (of_nat n :: u32) = n"
    using assms(3) by (simp_all add: signed_of_nat signed_take_bit_int_eq_self unsigned_of_nat take_bit_nat_eq_self)
  obtain s' where s': "map_range (page_addr a) 0 n (s\<lparr>books := b\<rparr>) = Inr s'" "lab_tables s'"
      "books s' = b" "now_mapped a (a + n) (s\<lparr>books := b\<rparr>) s'"
    using lab_map_range [of "s\<lparr>books := b\<rparr>" a 0 n] assms by (auto simp: lab_def)
  show thesis
    using b s' by (intro that [of s']) (simp_all add: vmm_alloc_def n lab_def now_mapped_def outside_def)
qed

section \<open>Page tables\<close>

lemma lab_table:
  assumes "lab_books a t b" and "t < 24"
  shows "\<exists>b'. pmm_alloc_pagetable b = Inr (page_addr t, b') \<and> lab_books a (Suc t) b'"
proof -
  have used: "bitmap_test (bitmap b) k \<longleftrightarrow> \<not> (a \<le> k \<and> k < 128 \<or> t \<le> k \<and> k < 24)" for k
    using assms(1) by (simp add: lab_books_def)
  have av: "page_available True b k \<longleftrightarrow> t \<le> k \<and> k < 24" for k
  proof -
    have msk: "bitmap_test (bitmap_pagetable_mask b) k \<longleftrightarrow> 16 \<le> k \<and> k < 24" and "32 \<le> a" "16 \<le> t"
      using assms(1) by (simp_all add: lab_books_def)
    then show ?thesis unfolding page_available_def used msk by (cases "k < 24") auto
  qed
  then have "pmm_alloc_pagetable b = Inr (page_addr t, take_page t b)"
    unfolding pmm_alloc_pagetable_def using assms(2) by (intro pmm_alloc_from_found) auto
  moreover have "lab_books a (Suc t) (take_page t b)"
    unfolding lab_books_def
  proof (intro conjI allI)
    have bm: "bitmap (take_page t b) = bitmap_set (bitmap b) t" by (simp add: take_page_def)
    show "bitmap_test (bitmap (take_page t b)) k \<longleftrightarrow> \<not> (a \<le> k \<and> k < 128 \<or> Suc t \<le> k \<and> k < 24)" for k
    proof -
      have "bitmap_test (bitmap (take_page t b)) k \<longleftrightarrow> k = t \<or> \<not> (a \<le> k \<and> k < 128 \<or> t \<le> k \<and> k < 24)"
        unfolding bm bitmap_test_set used ..
      moreover have "\<not> (a \<le> t \<and> t < 128)" using assms by (simp add: lab_books_def)
      moreover have "Suc t \<le> k \<longleftrightarrow> t \<le> k" if "k \<noteq> t" using that by linarith
      ultimately show ?thesis by (cases "k = t") (simp, metis)
    qed
  qed (use assms(1) in \<open>simp_all add: lab_books_def take_page_def\<close>)
  ultimately show ?thesis by blast
qed

text \<open>The first new task gets the context at page 16 with its directory at page 17.\<close>

definition lab_task :: "vmm \<Rightarrow> bool" where
  "lab_task s \<longleftrightarrow> page_words s 0x10000 0 = 0x11000 \<and> page_words s 0x11000 0 = 0x5003"

lemma lab_new_context:
  assumes "lab a 16 s"
  obtains s' where "vmm_create_context s = Inr (0x10000, s')" and "lab a 18 (vmm_clone_kernel_context 0x10000 s')"
    and "lab_task (vmm_clone_kernel_context 0x10000 s')"
    and "\<And>i. 0 < i \<Longrightarrow> i < 1024 \<Longrightarrow> page_words (vmm_clone_kernel_context 0x10000 s') 0x11000 i = 0"
proof -
  have B: "lab_books a 16 (books s)" and T: "lab_tables s" using assms by (simp_all add: lab_def)
  obtain b1 where b1: "pmm_alloc_pagetable (books s) = Inr (page_addr 16, b1)" "lab_books a 17 b1"
    using lab_table [OF B] by auto
  obtain b2 where b2: "pmm_alloc_pagetable b1 = Inr (page_addr 17, b2)" "lab_books a 18 b2"
    using lab_table [OF b1(2)] by auto
  have p: "page_addr 16 = 0x10000" "page_addr 17 = 0x11000" by (simp_all add: page_addr_def)
  define s1 where "s1 = zero_page 0x11000 (put_word 0x10000 0 0x11000 (s\<lparr>books := b2\<rparr>))"
  have run: "vmm_create_context s = Inr (0x10000, s1)"
    using b1(1) b2(1) by (simp add: vmm_create_context_def p s1_def)
  have w: "page_words s1 0x10000 0 = 0x11000" "\<And>i. i < 1024 \<Longrightarrow> page_words s1 0x11000 i = 0"
      "\<And>q. q \<noteq> 0x10000 \<Longrightarrow> q \<noteq> 0x11000 \<Longrightarrow> page_words s1 q = page_words s q" "kernel_context s1 = 0x1000" "cr3 s1 = 0x2000"
    using T by (simp_all add: s1_def zero_page_def put_word_def lab_tables_def)
  then have dirs: "pagedir s1 0x10000 = 0x11000" "pagedir s1 (kernel_context s1) = 0x2000"
    using T by (simp_all add: pagedir_def lab_tables_def)
  have k: "page_words s1 0x2000 0 = 0x5003" "\<And>i. i \<noteq> 0 \<Longrightarrow> page_words s1 0x2000 i = 0"
    using T w(3) by (simp_all add: lab_tables_def)
  define s2 where "s2 = s1\<lparr>page_words := (\<lambda>q j. if q = 0x11000 \<and> j < 1024 \<and> present (page_words s1 0x2000 j)
      then page_words s1 0x2000 j else page_words s1 q j)\<rparr>"
  have clone: "vmm_clone_kernel_context 0x10000 s1 = s2"
    using clone_fold [of "0x10000" s1 1024] dirs w(4) by (simp add: vmm_clone_kernel_context_def s2_def cong: if_cong)
  have s2: "page_words s2 q = page_words s1 q" if "q \<noteq> 0x11000" for q using that by (simp add: s2_def)
  have d2: "page_words s2 0x11000 0 = 0x5003" "\<And>i. 0 < i \<Longrightarrow> i < 1024 \<Longrightarrow> page_words s2 0x11000 i = 0"
    using k w(2) by (simp_all add: s2_def present_def PTE_PRESENT_def)
  have "lab a 18 s2"
    using b2(2) T w(3-5) s2 by (simp add: lab_def lab_tables_def) (simp add: s2_def s1_def)
  with run clone d2 s2 w(1) show thesis by (intro that [of s1]) (simp_all add: lab_task_def)
qed

section \<open>The stack of the new task\<close>

definition lab_user :: "vmm \<Rightarrow> bool" where
  "lab_user s \<longleftrightarrow> lab_task s \<and> page_words s 0x11000 768 = 0x12007"

lemma lab_user_keeps:
  "lab_user s \<Longrightarrow> outside 0x5000 s s' \<Longrightarrow> lab_user s'"
  "lab_user s \<Longrightarrow> lab_user (put_word 0x12000 k w s)" "lab_user s \<Longrightarrow> lab_user (put_word 0x13000 k w s)"
  "lab_user (s\<lparr>active_contexts := acs\<rparr>) = lab_user s" "lab_user (s\<lparr>ram := r\<rparr>) = lab_user s"
  by (simp_all add: lab_user_def lab_task_def outside_def put_word_def)

lemma lab_keeps:
  "lab a t s \<Longrightarrow> lab a t (put_word 0x12000 k w s)" "lab a t s \<Longrightarrow> lab a t (put_word 0x13000 k w s)"
  by (simp_all add: lab_def lab_tables_def put_word_def)

lemma lab_map_user:
  assumes "lab a t s" and "lab_user s" and "k < 1024"
  shows "vmm_map_page 0x10000 (page_addr k + USER_SPACE_OFFSET) (page_addr k) (PTE_PRESENT OR PTE_WRITE OR PTE_USER) s =
    Inr (0, put_word 0x12000 k (page_addr k OR 7) s)"
  using assms kernel_page [OF assms(3)] user_page_index [OF assms(3)]
  by (simp add: vmm_map_page_def vmm_map_page_unsafe_def lab_def lab_tables_def lab_user_def lab_task_def pagedir_def
      present_def PTE_PRESENT_def PTE_WRITE_def PTE_USER_def entry_page_def)

lemma lab_map_user_first:
  assumes L: "lab a 18 s" and u: "lab_task s" "page_words s 0x11000 768 = 0" and k: "k < 1024"
  obtains s' where "vmm_map_page 0x10000 (page_addr k + USER_SPACE_OFFSET) (page_addr k) (PTE_PRESENT OR PTE_WRITE OR PTE_USER) s =
      Inr (0, s')" and "lab a 19 s'" and "lab_user s'" and "page_words s' 0x11000 32 = page_words s 0x11000 32"
proof -
  obtain b where "pmm_alloc_pagetable (books s) = Inr (page_addr 18, b)" "lab_books a 19 b"
    using lab_table [of a 18 "books s"] L by (auto simp: lab_def)
  moreover have "page_addr 18 = 0x12000" by (simp add: page_addr_def)
  ultimately have b: "pmm_alloc_pagetable (books s) = Inr (0x12000, b)" "lab_books a 19 b" by simp_all
  define s' where "s' = put_word 0x12000 k (page_addr k OR 7) (put_word 0x11000 768 0x12007 (zero_page 0x12000 (s\<lparr>books := b\<rparr>)))"
  have "vmm_map_page 0x10000 (page_addr k + USER_SPACE_OFFSET) (page_addr k) (PTE_PRESENT OR PTE_WRITE OR PTE_USER) s = Inr (0, s')"
    using L u b(1) kernel_page [OF k] user_page_index [OF k]
    by (simp add: vmm_map_page_def vmm_map_page_unsafe_def lab_def lab_tables_def lab_task_def pagedir_def
        present_def PTE_PRESENT_def PTE_WRITE_def PTE_USER_def entry_page_def s'_def)
  then show thesis
    using L u b(2) by (intro that [of s'])
      (simp_all add: s'_def lab_def lab_tables_def lab_user_def lab_task_def put_word_def zero_page_def)
qed

lemma lab_map_stack_rest:
  assumes "lab a t s" and "lab_user s" and "u + i + n \<le> 1024"
  shows "\<exists>s'. map_region (\<lambda>v p s. vmm_map_page 0x10000 v p (PTE_PRESENT OR PTE_WRITE OR PTE_USER) s)
      (page_addr u + USER_SPACE_OFFSET) (page_addr u) i n s = Inr s' \<and> lab a t s' \<and> lab_user s' \<and>
      page_words s' 0x11000 = page_words s 0x11000"
  using assms
proof (induction n arbitrary: i s)
  case (Suc n)
  have e: "page_addr u + USER_SPACE_OFFSET + of_nat i * 0x1000 = page_addr (u + i) + USER_SPACE_OFFSET"
    by (simp add: page_addr_next [symmetric])
  have m: "vmm_map_page 0x10000 (page_addr (u + i) + USER_SPACE_OFFSET) (page_addr (u + i)) (PTE_PRESENT OR PTE_WRITE OR PTE_USER) s =
      Inr (0, put_word 0x12000 (u + i) (page_addr (u + i) OR 7) s)"
    using Suc.prems by (intro lab_map_user) simp_all
  define s1 where "s1 = put_word 0x12000 (u + i) (page_addr (u + i) OR 7) s"
  have "lab a t s1" "lab_user s1" "page_words s1 0x11000 = page_words s 0x11000"
    using Suc.prems(1,2) by (simp_all add: s1_def lab_keeps lab_user_keeps) (simp add: put_word_def)
  moreover have "u + Suc i + n \<le> 1024" using Suc.prems(3) by simp
  ultimately show ?case
    using Suc.IH [of s1 "Suc i"] m by (simp add: e page_addr_next s1_def)
qed simp

lemma lab_map_stack:
  assumes L: "lab a 18 s" and u: "lab_task s" "page_words s 0x11000 768 = 0" and k: "k + 16 \<le> 1024"
  obtains s' where "map_user_stack 0x10000 (page_addr k) s = Inr s'" and "lab a 19 s'" and "lab_user s'"
    and "page_words s' 0x11000 32 = page_words s 0x11000 32"
proof -
  obtain s1 where s1: "vmm_map_page 0x10000 (page_addr k + USER_SPACE_OFFSET) (page_addr k) (PTE_PRESENT OR PTE_WRITE OR PTE_USER) s =
      Inr (0, s1)" "lab a 19 s1" "lab_user s1" "page_words s1 0x11000 32 = page_words s 0x11000 32"
    using lab_map_user_first [OF L u, of k] k by auto
  obtain s' where "map_region (\<lambda>v p s. vmm_map_page 0x10000 v p (PTE_PRESENT OR PTE_WRITE OR PTE_USER) s)
      (page_addr k + USER_SPACE_OFFSET) (page_addr k) 1 15 s1 = Inr s'" "lab a 19 s'" "lab_user s'"
      "page_words s' 0x11000 = page_words s1 0x11000"
    using lab_map_stack_rest [OF s1(2,3), of k 1 15] k by auto
  moreover have n: "USER_STACK_SIZE_PAGES = Suc 15" by (simp add: USER_STACK_SIZE_PAGES_def)
  have "map_user_stack 0x10000 (page_addr k) s = kbind (Inr (0 :: int, s1)) (\<lambda>(_, s1).
      map_region (\<lambda>v p s. vmm_map_page 0x10000 v p (PTE_PRESENT OR PTE_WRITE OR PTE_USER) s)
        (page_addr k + USER_SPACE_OFFSET) (page_addr k) 1 15 s1)"
    unfolding map_user_stack_def n map_region.simps using s1(1) by simp
  ultimately show thesis
    using s1 by (intro that [of s']) simp_all
qed

text \<open>A process can be created as the first task of the machine.\<close>

lemma lab_init_task:
  fixes s :: "'z sched_scheme"
  assumes L: "lab 32 16 (vm s)" and slot: "find_empty_task_slot s = Inr i" and i: "i < length (tasks s)"
  obtains s' where "init_task trm entry None s = Inr (i, s')" and "lab 64 19 (vm s')" and "lab_user (vm s')"
    and "page_words (vm s') 0x11000 32 = 0" and "task_context (tasks s' ! i) = 0x10000"
proof -
  define s0 where "s0 = upd_task i (\<lambda>_. zero_task) (s\<lparr>is_scheduler_running := False\<rparr>)"
  have "lab 32 16 ((vm s0)\<lparr>active_contexts := active_of (tasks s0)\<rparr>)" using L by (simp add: s0_def upd_task_def)
  from lab_alloc [OF this, of 16] obtain v1 where v1: "vmm_alloc (of_nat KERNEL_STACK_SIZE_PAGES) ((vm s0)\<lparr>active_contexts := active_of (tasks s0)\<rparr>) =
      Inr (page_addr 32, v1)" "lab 48 16 v1"
    unfolding KERNEL_STACK_SIZE_PAGES_def by auto
  define s1 where "s1 = s0\<lparr>vm := v1\<rparr>"
  have "lab 48 16 ((vm s1)\<lparr>active_contexts := active_of (tasks s1)\<rparr>)" using v1(2) by (simp add: s1_def)
  from lab_alloc [OF this, of 16] obtain v2 where v2: "vmm_alloc (of_nat USER_STACK_SIZE_PAGES) ((vm s1)\<lparr>active_contexts := active_of (tasks s1)\<rparr>) =
      Inr (page_addr 48, v2)" "lab 64 16 v2"
    unfolding USER_STACK_SIZE_PAGES_def by auto
  define s2 where "s2 = fill_task i trm entry (page_addr 32) (page_addr 48) (s1\<lparr>vm := v2\<rparr>)"
  have "lab 64 16 ((vm s2)\<lparr>active_contexts := active_of (tasks s2)\<rparr>)"
    using v2(2) by (simp add: s2_def fill_task_def upd_task_def)
  then obtain v3 where v3: "vmm_create_context ((vm s2)\<lparr>active_contexts := active_of (tasks s2)\<rparr>) = Inr (0x10000, v3)"
      "lab 64 18 (vmm_clone_kernel_context 0x10000 v3)" "lab_task (vmm_clone_kernel_context 0x10000 v3)"
      "\<And>j. 0 < j \<Longrightarrow> j < 1024 \<Longrightarrow> page_words (vmm_clone_kernel_context 0x10000 v3) 0x11000 j = 0"
    using lab_new_context by blast
  have act: "v3\<lparr>active_contexts := active_of (tasks s2)\<rparr> = v3"
    using v3(1) by (auto simp: vmm_create_context_def zero_page_def put_word_def)
  define v4 where "v4 = vmm_clone_kernel_context 0x10000 v3"
  define s4 where "s4 = upd_task i (\<lambda>t. t\<lparr>task_context := 0x10000, parent := -1\<rparr>) (s2\<lparr>vm := v4\<rparr>)"
  have c: "attach_context i None s2 = Inr s4"
    using v3(1) act by (simp add: attach_context_def run_vm_def exec_vm_def s4_def v4_def)
  have len: "length (tasks s2) = length (tasks s)" by (simp add: s2_def fill_task_def s1_def s0_def upd_task_def)
  have ctx: "task_context (tasks s4 ! i) = 0x10000" using i len by (simp add: s4_def upd_task_def)
  have "lab 64 18 ((vm s4)\<lparr>active_contexts := active_of (tasks s4)\<rparr>)" "lab_task ((vm s4)\<lparr>active_contexts := active_of (tasks s4)\<rparr>)"
      "page_words ((vm s4)\<lparr>active_contexts := active_of (tasks s4)\<rparr>) 0x11000 768 = 0"
      "page_words ((vm s4)\<lparr>active_contexts := active_of (tasks s4)\<rparr>) 0x11000 32 = 0"
    using v3(2-4) by (simp_all add: s4_def upd_task_def v4_def lab_task_def)
  note ready = this
  obtain v5 where v5: "map_user_stack 0x10000 (page_addr 48) ((vm s4)\<lparr>active_contexts := active_of (tasks s4)\<rparr>) = Inr v5"
      "lab 64 19 v5" "lab_user v5" "page_words v5 0x11000 32 = 0"
    using lab_map_stack [OF ready(1-3), of 48] ready(4) by auto
  define s' where "s' = s4\<lparr>vm := v5, is_scheduler_running := is_scheduler_running s\<rparr>"
  have "init_task trm entry None s = Inr (i, s')"
    using slot v1(1) v2(1) c v5(1) ctx
    by (simp add: init_task_def run_vm_def exec_vm_def s0_def [symmetric] s1_def [symmetric] s2_def [symmetric] s'_def)
  then show thesis using v5 ctx by (intro that [of s']) (simp_all add: s'_def)
qed

section \<open>Access to mapped pages\<close>

definition mapped :: "nat \<Rightarrow> vmm \<Rightarrow> bool" where
  "mapped k s \<longleftrightarrow> page_words s 0x5000 k = page_addr k OR 3"

lemma lab_mmu:
  assumes "lab_tables s" and "mapped k s" and k: "k < 128" and off: "off < 4096"
  shows "mmu s (page_addr k + of_nat off) = Inr (page_addr k + of_nat off)"
proof -
  define w where "w = page_addr k + (of_nat off :: u32)"
  have u: "unat w = k * 4096 + off"
    using k off unat_page_addr [of k] by (simp add: w_def unat_word_ariths unat_of_nat)
  have d: "(k * 4096 + off) div 4096 = k" "(k * 4096 + off) mod 4096 = off" using off by simp_all
  have "pd_index w = 0" "pt_index w = k"
    using k d by (simp_all add: pd_index_def pt_index_def unat_div unat_mod u)
  moreover have "entry_page (page_addr k OR 3) = page_addr k" "present (page_addr k OR 3)"
    using kernel_page(2) [of k] k by (simp_all add: entry_page_or present_or) (simp add: present_def PTE_PRESENT_def)
  moreover have "w mod 0x1000 = of_nat off"
    using d(2) off by (simp add: word_unat_eq_iff unat_mod u unat_of_nat)
  ultimately show ?thesis
    using assms(1,2) unfolding w_def [symmetric]
    by (simp add: mmu_def lab_tables_def mapped_def present_def PTE_PRESENT_def entry_page_def [of "0x5003"]) (simp add: w_def)
qed

lemma lab_write:
  assumes "lab_tables s" and "mapped k s" and "k < 128" and "off + length bs \<le> 4096"
  shows "\<exists>r. mmu_write s (page_addr k + of_nat off) bs = Inr (s\<lparr>ram := r\<rparr>)"
proof -
  have "\<forall>i<length bs. mmu s (page_addr k + of_nat off + of_nat i) = Inr (mmu_addr s (page_addr k + of_nat off + of_nat i))"
  proof (intro allI impI)
    fix i assume "i < length bs"
    then have "mmu s (page_addr k + of_nat (off + i)) = Inr (page_addr k + of_nat (off + i))"
      using assms by (intro lab_mmu) simp_all
    then have "mmu s (page_addr k + of_nat off + of_nat i) = Inr (page_addr k + of_nat off + of_nat i)"
      by (simp add: add.assoc)
    then show "mmu s (page_addr k + of_nat off + of_nat i) = Inr (mmu_addr s (page_addr k + of_nat off + of_nat i))"
      using mmu_InrD by simp
  qed
  from mmu_write_total [OF this] show ?thesis by blast
qed

lemma lab_read:
  assumes "lab_tables s" and "mapped k s" and "k < 128" and "off + n \<le> 4096"
  shows "\<exists>bs. mmu_read s (page_addr k + of_nat off) n = Inr bs"
proof -
  have "\<forall>i<n. mmu s (page_addr k + of_nat off + of_nat i) = Inr (page_addr k + of_nat off + of_nat i)"
  proof (intro allI impI)
    fix i assume "i < n"
    then have "mmu s (page_addr k + of_nat (off + i)) = Inr (page_addr k + of_nat (off + i))"
      using assms by (intro lab_mmu) simp_all
    then show "mmu s (page_addr k + of_nat off + of_nat i) = Inr (page_addr k + of_nat off + of_nat i)"
      by (simp add: add.assoc)
  qed
  from mmu_read_eq [OF this] show ?thesis by blast
qed

end
