(* ===== verification/Scheduler_Tasks.thy ===== *)
theory Scheduler_Tasks
  imports Scheduler_Fair Demo_Machine
begin

text \<open>
  The task table over time: exit codes, process identifiers, creation and exit of tasks.
\<close>

section \<open>Exit codes\<close>

text \<open>
  The table of exit codes after the exits in \<open>hist\<close>: the last 32 of them are found at their
  position modulo 32, and what was not written yet is zero.
\<close>

definition exit_table :: "(int \<times> int) list \<Rightarrow> (int \<times> int) list \<Rightarrow> nat \<Rightarrow> bool" where
  "exit_table hist tab idx \<longleftrightarrow> length tab = MAX_TASKS \<and> idx = length hist mod MAX_TASKS \<and>
     (\<forall>m<length hist. length hist \<le> m + MAX_TASKS \<longrightarrow> tab ! (m mod MAX_TASKS) = hist ! m) \<and>
     (\<forall>k<MAX_TASKS. length hist \<le> k \<longrightarrow> tab ! k = (0, 0))"

definition add_exit_codes :: "(int \<times> int) list \<Rightarrow> 'z sched_scheme \<Rightarrow> 'z sched_scheme" where
  "add_exit_codes hist s = fold (\<lambda>(p, c). add_exit_code p c) hist s"

lemma mod_window:
  fixes m n :: nat
  assumes "m < n" and "n < m + 32"
  shows "m mod 32 \<noteq> n mod 32"
proof
  assume "m mod 32 = n mod 32"
  then have "32 dvd n - m" using assms(1) by (metis mod_eq_dvd_iff_nat less_imp_le)
  then have "32 \<le> n - m" using assms(1) by (intro dvd_imp_le) simp_all
  with assms show False by simp
qed

lemma exit_table_snoc:
  assumes "exit_table hist tab idx"
  shows "exit_table (hist @ [x]) (tab[idx := x]) ((idx + 1) mod MAX_TASKS)"
proof -
  define n where "n = length hist"
  have idx: "idx = n mod 32" "idx < 32" and len: "length tab = 32"
    using assms by (auto simp: exit_table_def n_def MAX_TASKS_def)
  have neq: "m mod 32 \<noteq> idx" if "m < n" "Suc n \<le> m + 32" for m
    using mod_window [of m n] that unfolding idx(1) by simp
  have "(tab[idx := x]) ! (m mod 32) = (hist @ [x]) ! m" if "m < Suc n" "Suc n \<le> m + 32" for m
    using assms that idx len neq [of m]
    by (cases "m = n") (auto simp: exit_table_def MAX_TASKS_def n_def [symmetric] nth_append)
  moreover have "(tab[idx := x]) ! k = (0, 0)" if "k < 32" "Suc n \<le> k" for k
    using assms that idx by (auto simp: exit_table_def MAX_TASKS_def n_def [symmetric] nth_list_update)
  ultimately show ?thesis
    using len idx by (simp add: exit_table_def MAX_TASKS_def n_def [symmetric] mod_Suc_eq)
qed

lemma exit_table_run:
  assumes "exit_table h0 (exit_codes s) (exit_codes_idx s)"
  shows "exit_table (h0 @ hist) (exit_codes (add_exit_codes hist s)) (exit_codes_idx (add_exit_codes hist s))"
  using assms
proof (induction hist arbitrary: s h0)
  case Nil
  then show ?case by (simp add: add_exit_codes_def)
next
  case (Cons x hist)
  define s1 where "s1 = add_exit_code (fst x) (snd x) s"
  have "exit_table (h0 @ [x]) (exit_codes s1) (exit_codes_idx s1)"
    using exit_table_snoc [OF Cons.prems, of x] by (simp add: s1_def add_exit_code_def)
  from Cons.IH [OF this] show ?case
    by (simp add: add_exit_codes_def s1_def case_prod_unfold)
qed

text \<open>
  The exit code of a task can be fetched until 32 more tasks have exited. From an empty table,
  after any sequence of exits with different process identifiers, \<open>get_exit_code\<close> returns the code
  of each of the last 32 exits, and -1 for an identifier other than 0 that did not exit.
\<close>

theorem exit_codes_kept:
  assumes start: "exit_codes s = replicate MAX_TASKS (0, 0)" "exit_codes_idx s = 0"
    and dist: "distinct (map fst hist)"
  shows "(\<forall>m<length hist. length hist \<le> m + MAX_TASKS \<longrightarrow>
           get_exit_code (fst (hist ! m)) (add_exit_codes hist s) = snd (hist ! m)) \<and>
         (\<forall>p. p \<noteq> 0 \<and> p \<notin> fst ` set hist \<longrightarrow> get_exit_code p (add_exit_codes hist s) = -1)"
proof -
  define tab where "tab = exit_codes (add_exit_codes hist s)"
  define n where "n = length hist"
  have "exit_table ([] @ hist) tab (exit_codes_idx (add_exit_codes hist s))"
    unfolding tab_def by (rule exit_table_run) (simp add: exit_table_def start)
  then have len: "length tab = 32" and real: "\<And>m. m < n \<Longrightarrow> n \<le> m + 32 \<Longrightarrow> tab ! (m mod 32) = hist ! m"
    and zero: "\<And>k. k < 32 \<Longrightarrow> n \<le> k \<Longrightarrow> tab ! k = (0, 0)"
    by (auto simp: exit_table_def MAX_TASKS_def n_def)
  have at: "\<exists>m<n. n \<le> m + 32 \<and> m mod 32 = k \<and> tab ! k = hist ! m" if "k < 32" "k < n" for k
  proof -
    define m where "m = k + 32 * ((n - 1 - k) div 32)"
    have "n - 1 = m + (n - 1 - k) mod 32"
      using that mult_div_mod_eq [of 32 "n - 1 - k"] unfolding m_def by linarith
    then have "m < n" "n \<le> m + 32" using that mod_less_divisor [of 32 "n - 1 - k"] by linarith+
    moreover have "m mod 32 = k" using that by (simp add: m_def)
    ultimately show ?thesis using real by metis
  qed
  have "get_exit_code (fst (hist ! m)) (add_exit_codes hist s) = snd (hist ! m)" if m: "m < n" "n \<le> m + 32" for m
  proof -
    have "fst (tab ! j) \<noteq> fst (hist ! m)" if j: "j < m mod 32" for j
    proof -
      have "j < 32" "j < n" using j m by (meson le_less_trans mod_less_divisor mod_less_eq_dividend less_trans zero_less_numeral, linarith)
      then obtain m' where "m' < n" "m' mod 32 = j" "tab ! j = hist ! m'" using at by blast
      moreover have "m' \<noteq> m" using \<open>m' mod 32 = j\<close> j by auto
      ultimately show ?thesis using dist m by (simp add: distinct_conv_nth n_def)
    qed
    then have "find_index (\<lambda>e. fst e = fst (hist ! m)) tab = Some (m mod 32)"
      using len real [OF m] by (simp add: find_index_Some)
    then show ?thesis using real [OF m] by (simp add: get_exit_code_def tab_def)
  qed
  moreover have "get_exit_code p (add_exit_codes hist s) = -1" if "p \<noteq> 0" "p \<notin> fst ` set hist" for p
  proof -
    have "fst (tab ! k) \<noteq> p" if "k < 32" for k
      using at [OF that] zero [OF that] \<open>p \<noteq> 0\<close> \<open>p \<notin> fst ` set hist\<close> by (cases "k < n") (force simp: n_def)+
    then have "find_index (\<lambda>e. fst e = p) tab = None" using len by (fastforce simp: find_index_None in_set_conv_nth)
    then show ?thesis by (simp add: get_exit_code_def tab_def)
  qed
  ultimately show ?thesis by (simp add: n_def MAX_TASKS_def)
qed

lemma exit_codes_kept_witness:
  "get_exit_code 7 (add_exit_codes [(7, 42), (9, 1)] (init_sched demo_vmm (\<lambda>_. new_state 0 0))) = 42 \<and>
   get_exit_code 8 (add_exit_codes [(7, 42), (9, 1)] (init_sched demo_vmm (\<lambda>_. new_state 0 0))) = -1"
  using exit_codes_kept [of "init_sched demo_vmm (\<lambda>_. new_state 0 0)" "[(7, 42), (9, 1)]"]
  by (force simp: init_sched_def MAX_TASKS_def)

text \<open>
  Process identifier 0 is never reported as unknown: the table starts out filled with zeros,
  so before any task has exited \<open>get_exit_code(0)\<close> answers 0, the code of a clean exit, although
  the first task created has this identifier.
\<close>

theorem exit_code_of_pid_0: "get_exit_code 0 (init_sched v f) = 0"
proof -
  have "find_index (\<lambda>e. fst e = (0 :: int)) (replicate MAX_TASKS (0, 0)) = Some 0"
    by (simp add: find_index_Some MAX_TASKS_def)
  then have "find_index (\<lambda>e. fst e = 0) (exit_codes (init_sched v f)) = Some 0" by (simp add: init_sched_def)
  moreover have "exit_codes (init_sched v f) ! 0 = (0, 0)" by (simp add: init_sched_def MAX_TASKS_def)
  ultimately show ?thesis by (simp add: get_exit_code_def)
qed

section \<open>Creation\<close>

lemma run_vmE: "run_vm f s = Inr (x, s') \<Longrightarrow> (\<And>v. s' = s\<lparr>vm := v\<rparr> \<Longrightarrow> P) \<Longrightarrow> P"
  by (auto simp: run_vm_def)

lemma exec_vmE: "exec_vm f s = Inr s' \<Longrightarrow> (\<And>v. s' = s\<lparr>vm := v\<rparr> \<Longrightarrow> P) \<Longrightarrow> P"
  by (auto simp: exec_vm_def)

lemma upd_task_simps [simp]:
  "length (tasks (upd_task i f s)) = length (tasks s)"
  "k < length (tasks s) \<Longrightarrow> tasks (upd_task i f s) ! k = (if k = i then f (tasks s ! k) else tasks s ! k)"
  "current_pid (upd_task i f s) = current_pid s" "current_task (upd_task i f s) = current_task s"
  "is_scheduler_running (upd_task i f s) = is_scheduler_running s" "reg_frames (upd_task i f s) = reg_frames s"
  "exit_codes (upd_task i f s) = exit_codes s" "exit_codes_idx (upd_task i f s) = exit_codes_idx s"
  by (auto simp: upd_task_def nth_list_update)

lemma attach_contextE:
  assumes "attach_context i thr s = Inr s'"
  obtains ctx par v where "s' = upd_task i (\<lambda>t. t\<lparr>task_context := ctx, parent := par\<rparr>) (s\<lparr>vm := v\<rparr>)"
    and "thr = None \<longrightarrow> par = -1"
    and "\<forall>p. thr = Some p \<longrightarrow> ctx = task_context (tasks s ! p) \<and> par = pid (tasks s ! p) \<and> v = vm s"
proof (cases thr)
  case None
  with assms obtain ctx s1 s2 where "run_vm vmm_create_context s = Inr (ctx, s1)"
      "exec_vm (\<lambda>v. Inr (vmm_clone_kernel_context ctx v)) s1 = Inr s2"
      and s': "s' = upd_task i (\<lambda>t. t\<lparr>task_context := ctx, parent := -1\<rparr>) s2"
    by (auto simp: attach_context_def)
  then obtain v where "s2 = s\<lparr>vm := v\<rparr>" by (auto elim!: run_vmE exec_vmE)
  with None s' show thesis by (intro that [where ctx = ctx and par = "-1" and v = v]) simp_all
next
  case (Some p)
  then have "s' = upd_task i (\<lambda>t. t\<lparr>task_context := task_context (tasks s ! p), parent := pid (tasks s ! p)\<rparr>) (s\<lparr>vm := vm s\<rparr>)"
    using assms by (simp add: attach_context_def)
  then show thesis by (rule that) (simp_all add: Some)
qed

lemma init_taskE:
  assumes "init_task trm entry thr s = Inr (i, s')"
  obtains kstack ustack ctx par v where "i < length (tasks s)" and "\<not> taken (tasks s ! i)"
    and "\<forall>j<i. taken (tasks s ! j)"
    and "s' = s\<lparr>tasks := (tasks s)[i := zero_task\<lparr>registers := stack_frame kstack, taken := True, stack := kstack,
         user_stack := ustack, pid := current_pid s, task_term := trm, pipe_source := [-1, -1, -1],
         task_context := ctx, parent := par\<rparr>],
       current_pid := s32 (current_pid s + 1),
       reg_frames := (reg_frames s)(stack_frame kstack := new_state entry ustack), vm := v\<rparr>"
    and "thr = None \<longrightarrow> par = -1"
    and "\<forall>p. thr = Some p \<and> p \<noteq> i \<longrightarrow> ctx = task_context (tasks s ! p) \<and> par = pid (tasks s ! p)"
proof -
  from assms obtain kstack s1 ustack s2 s3 s4 where slot: "find_empty_task_slot s = Inr i"
      and a: "run_vm (vmm_alloc (of_nat KERNEL_STACK_SIZE_PAGES))
              (upd_task i (\<lambda>_. zero_task) (s\<lparr>is_scheduler_running := False\<rparr>)) = Inr (kstack, s1)"
        "run_vm (vmm_alloc (of_nat USER_STACK_SIZE_PAGES)) s1 = Inr (ustack, s2)"
      and c: "attach_context i thr (fill_task i trm entry kstack ustack s2) = Inr s3"
      and m: "exec_vm (map_user_stack (task_context (tasks s3 ! i)) ustack) s3 = Inr s4"
      and s': "s' = s4\<lparr>is_scheduler_running := is_scheduler_running s\<rparr>"
    by (auto simp: init_task_def)
  have i: "i < length (tasks s)" "\<not> taken (tasks s ! i)" "\<forall>j<i. taken (tasks s ! j)"
    using slot by (auto simp: find_empty_task_slot_def find_index_Some split: option.splits)
  obtain v1 where "s1 = (upd_task i (\<lambda>_. zero_task) (s\<lparr>is_scheduler_running := False\<rparr>))\<lparr>vm := v1\<rparr>"
    using a(1) by (rule run_vmE)
  moreover obtain v2 where "s2 = s1\<lparr>vm := v2\<rparr>" using a(2) by (rule run_vmE)
  ultimately have s2: "s2 = s\<lparr>tasks := (tasks s)[i := zero_task], is_scheduler_running := False, vm := v2\<rparr>"
    by (simp add: upd_task_def)
  obtain ctx par v3 where s3: "s3 = upd_task i (\<lambda>t. t\<lparr>task_context := ctx, parent := par\<rparr>)
        ((fill_task i trm entry kstack ustack s2)\<lparr>vm := v3\<rparr>)" and par: "thr = None \<longrightarrow> par = -1"
      and thread: "\<forall>p. thr = Some p \<longrightarrow> ctx = task_context (tasks (fill_task i trm entry kstack ustack s2) ! p) \<and>
         par = pid (tasks (fill_task i trm entry kstack ustack s2) ! p) \<and> v3 = vm (fill_task i trm entry kstack ustack s2)"
    using c by (rule attach_contextE)
  obtain v4 where s4: "s4 = s3\<lparr>vm := v4\<rparr>" using m by (rule exec_vmE)
  have "\<forall>p. thr = Some p \<and> p \<noteq> i \<longrightarrow> ctx = task_context (tasks s ! p) \<and> par = pid (tasks s ! p)"
    using thread by (simp add: fill_task_def upd_task_def s2)
  then show thesis
    using i par by (intro that [where kstack = kstack and ustack = ustack and ctx = ctx and par = par and v = v4])
      (simp_all add: s' s4 s3 s2 fill_task_def upd_task_def zero_task_def)
qed

text \<open>
  C14. Creating a task. When \<open>init_task\<close> succeeds it uses the first slot that is not taken and leaves
  every other task alone. The new task is taken but not yet active, has the next process
  identifier, and its saved registers make it start at \<open>entry\<close> with interrupts enabled, in ring 3,
  on its own user stack; a thread shares the address space of its parent.
\<close>

theorem init_task_prepares:
  assumes "init_task trm entry thr s = Inr (i, s')"
  shows "i < length (tasks s) \<and> \<not> taken (tasks s ! i) \<and> (\<forall>j<i. taken (tasks s ! j)) \<and>
    taken (tasks s' ! i) \<and> \<not> active (tasks s' ! i) \<and> pid (tasks s' ! i) = current_pid s \<and>
    current_pid s' = s32 (current_pid s + 1) \<and> task_term (tasks s' ! i) = trm \<and>
    (\<forall>j<length (tasks s). j \<noteq> i \<longrightarrow> tasks s' ! j = tasks s ! j) \<and>
    (let r = reg_frames s' (registers (tasks s' ! i)) in
       eip r = entry \<and> cs r AND 3 = 3 \<and> ss r AND 3 = 3 \<and> ds r AND 3 = 3 \<and> eflags r AND 0x200 \<noteq> 0 \<and>
       esp r = user_stack (tasks s' ! i) + 0x10000 + USER_SPACE_OFFSET) \<and>
    (case thr of None \<Rightarrow> parent (tasks s' ! i) = -1
     | Some p \<Rightarrow> p \<noteq> i \<longrightarrow> task_context (tasks s' ! i) = task_context (tasks s ! p) \<and>
         parent (tasks s' ! i) = pid (tasks s ! p)) \<and>
    is_scheduler_running s' = is_scheduler_running s \<and> current_task s' = current_task s"
  using assms
proof (rule init_taskE, goal_cases)
  case (1 kstack ustack ctx par v)
  have "new_state entry ustack = reg_frames s' (registers (tasks s' ! i))"
    using 1 by (simp add: zero_task_def)
  with 1 show ?case
    by (cases thr) (simp_all add: zero_task_def new_state_def USER_STACK_SIZE_PAGES_def)
qed

section \<open>Process identifiers\<close>

definition pids_ok :: "'z sched_scheme \<Rightarrow> bool" where
  "pids_ok s \<longleftrightarrow> length (tasks s) = MAX_TASKS \<and> current_task s < MAX_TASKS \<and> 0 \<le> current_pid s \<and>
     (\<forall>i<MAX_TASKS. active (tasks s ! i) \<longrightarrow> taken (tasks s ! i)) \<and>
     (\<forall>i<MAX_TASKS. taken (tasks s ! i) \<longrightarrow> 0 \<le> pid (tasks s ! i) \<and> pid (tasks s ! i) < current_pid s) \<and>
     (\<forall>i<MAX_TASKS. \<forall>j<MAX_TASKS. taken (tasks s ! i) \<and> taken (tasks s ! j) \<and> pid (tasks s ! i) = pid (tasks s ! j) \<longrightarrow> i = j)"

text \<open>
  The task table over time: tasks and threads are created and made active, tasks exit, and the
  timer switches between tasks. \<open>n\<close> is the number of tasks created.
\<close>

inductive task_run :: "(u32 \<Rightarrow> u32 \<Rightarrow> 'z sched_scheme \<Rightarrow> 'z sched_scheme kres) \<Rightarrow> 'z sched_scheme \<Rightarrow> nat \<Rightarrow> 'z sched_scheme \<Rightarrow> bool"
  for call s where
  start: "task_run call s 0 s"
| create: "task_run call s n t \<Longrightarrow> init_task trm entry thr t = Inr (i, s') \<Longrightarrow>
    task_run call s (Suc n) (upd_task i (\<lambda>t. t\<lparr>active := True\<rparr>) s')"
| exit: "task_run call s n t \<Longrightarrow> i < MAX_TASKS \<Longrightarrow> taken (tasks t ! i) \<Longrightarrow> exit_task call i code t = Inr s' \<Longrightarrow>
    task_run call s n s'"
| tick: "task_run call s n t \<Longrightarrow> schedule on_bsp trm now regs t = Inr (r, s') \<Longrightarrow> task_run call s n s'"

inductive_cases task_runE: "task_run call s n s'"

lemma pids_ok_cong:
  assumes "pids_ok s" and "length (tasks s') = length (tasks s)" and "current_task s' < MAX_TASKS"
    and "current_pid s' = current_pid s"
    and "\<And>i. i < MAX_TASKS \<Longrightarrow> pid (tasks s' ! i) = pid (tasks s ! i) \<and>
      (active (tasks s' ! i) \<longrightarrow> taken (tasks s' ! i)) \<and> (taken (tasks s' ! i) \<longrightarrow> taken (tasks s ! i))"
  shows "pids_ok s'"
  using assms unfolding pids_ok_def by (smt (verit, best))

lemma pids_ok_vm [simp]: "pids_ok (s\<lparr>vm := v\<rparr>) = pids_ok s"
  by (simp add: pids_ok_def)

lemma pids_ok_moved [simp]:
  "pids_ok (s\<lparr>last_time_ms := now\<rparr>) = pids_ok s"
  "pids_ok s \<Longrightarrow> i < MAX_TASKS \<Longrightarrow> pids_ok (s\<lparr>current_task := i\<rparr>)"
  by (simp_all add: pids_ok_def)

lemma pids_ok_init: "pids_ok (init_sched v f)"
  by (simp add: pids_ok_def init_sched_def zero_task_def MAX_TASKS_def)

lemma pids_ok_create:
  assumes ok: "pids_ok s" and small: "current_pid s < 0x7FFFFFFF" and init: "init_task trm entry thr s = Inr (i, s')"
  shows "pids_ok (upd_task i (\<lambda>t. t\<lparr>active := True\<rparr>) s') \<and> current_pid s' = current_pid s + 1"
  using init
proof (rule init_taskE, goal_cases)
  case (1 kstack ustack ctx par v)
  define u where "u = upd_task i (\<lambda>t. t\<lparr>active := True\<rparr>) s'"
  have len: "length (tasks s) = MAX_TASKS" "length (tasks u) = MAX_TASKS" using ok 1(4) by (auto simp: pids_ok_def u_def)
  have old: "tasks u ! j = tasks s ! j" if "j \<noteq> i" "j < MAX_TASKS" for j
    using that 1(4) len by (simp add: u_def)
  have new: "active (tasks u ! i)" "taken (tasks u ! i)" "pid (tasks u ! i) = current_pid s"
    using 1(1,4) by (simp_all add: u_def zero_task_def)
  have "s32 (current_pid s + 1) = current_pid s + 1" using ok small by (intro s32_id) (auto simp: pids_ok_def)
  then have cur: "current_pid u = current_pid s + 1" "current_task u = current_task s" "current_pid s' = current_pid s + 1"
    using 1(4) by (simp_all add: u_def)
  have bound: "\<And>j. j < MAX_TASKS \<Longrightarrow> taken (tasks s ! j) \<Longrightarrow> 0 \<le> pid (tasks s ! j) \<and> pid (tasks s ! j) < current_pid s"
    and inj: "\<And>j k. j < MAX_TASKS \<Longrightarrow> k < MAX_TASKS \<Longrightarrow> taken (tasks s ! j) \<Longrightarrow> taken (tasks s ! k) \<Longrightarrow>
      pid (tasks s ! j) = pid (tasks s ! k) \<Longrightarrow> j = k" and pos: "0 \<le> current_pid s"
    using ok by (auto simp: pids_ok_def)
  show ?case
    unfolding u_def [symmetric] pids_ok_def
  proof (intro conjI allI impI)
    fix j k assume jk: "j < MAX_TASKS" "k < MAX_TASKS" "taken (tasks u ! j) \<and> taken (tasks u ! k) \<and> pid (tasks u ! j) = pid (tasks u ! k)"
    then show "j = k"
      using inj [of j k] bound [of j] bound [of k] old [of j] old [of k] new(3) by (cases "j = i"; cases "k = i") auto
  next
    fix j assume "j < MAX_TASKS" "taken (tasks u ! j)"
    then show "0 \<le> pid (tasks u ! j)" "pid (tasks u ! j) < current_pid u"
      using bound [of j] old [of j] new(3) cur pos by (cases "j = i"; auto)+
  next
    fix j assume "j < MAX_TASKS" "active (tasks u ! j)"
    then show "taken (tasks u ! j)" using ok old new by (cases "j = i") (auto simp: pids_ok_def)
  qed (use len cur ok in \<open>auto simp: pids_ok_def\<close>)
qed

text \<open>
  What the destructors of resources must keep for the table to stay sane: they start no task.
  \<open>Syscalls_Tasks.run_dealloc_keeps\<close> shows it for the one the kernel registers for open files.
\<close>

definition call_keeps :: "(u32 \<Rightarrow> u32 \<Rightarrow> 'z sched_scheme \<Rightarrow> 'z sched_scheme kres) \<Rightarrow> bool" where
  "call_keeps call \<longleftrightarrow> (\<forall>f r s s'. pids_ok s \<longrightarrow> call f r s = Inr s' \<longrightarrow>
     pids_ok s' \<and> current_pid s' = current_pid s \<and> (\<forall>j<MAX_TASKS. active (tasks s' ! j) \<longrightarrow> active (tasks s ! j)))"

lemma pids_ok_dealloc_from:
  assumes call: "call_keeps call"
  shows "pids_ok s \<Longrightarrow> dealloc_from call i k n s = Inr s' \<Longrightarrow>
    pids_ok s' \<and> current_pid s' = current_pid s \<and> (\<forall>j<MAX_TASKS. active (tasks s' ! j) \<longrightarrow> active (tasks s ! j))"
proof (induction n arbitrary: k s)
  case 0
  then show ?case by simp
next
  case (Suc n)
  from Suc.prems(2) obtain f r s1 where s1: "s1 = s \<or> call f r s = Inr s1"
      and rest: "dealloc_from call i (Suc k) n s1 = Inr s'"
    by (auto split: option.splits if_splits)
  have "pids_ok s1 \<and> current_pid s1 = current_pid s \<and> (\<forall>j<MAX_TASKS. active (tasks s1 ! j) \<longrightarrow> active (tasks s ! j))"
    using s1 call Suc.prems(1) unfolding call_keeps_def by blast
  with Suc.IH [OF _ rest] show ?case by auto
qed

lemma pids_okD:
  assumes "pids_ok s"
  shows "length (tasks s) = MAX_TASKS" and "current_task s < MAX_TASKS"
    and "i < MAX_TASKS \<Longrightarrow> active (tasks s ! i) \<Longrightarrow> taken (tasks s ! i)"
  using assms unfolding pids_ok_def by blast+

lemma pids_ok_upd:
  assumes ok: "pids_ok s" and "i < MAX_TASKS"
    and "pid (f (tasks s ! i)) = pid (tasks s ! i)" and "active (f (tasks s ! i)) \<longrightarrow> taken (f (tasks s ! i))"
    and "taken (f (tasks s ! i)) \<longrightarrow> taken (tasks s ! i)"
  shows "pids_ok (upd_task i f s)"
  using ok
proof (rule pids_ok_cong)
  fix j assume "j < MAX_TASKS"
  then show "pid (tasks (upd_task i f s) ! j) = pid (tasks s ! j) \<and>
      (active (tasks (upd_task i f s) ! j) \<longrightarrow> taken (tasks (upd_task i f s) ! j)) \<and>
      (taken (tasks (upd_task i f s) ! j) \<longrightarrow> taken (tasks s ! j))"
    using assms pids_okD(1,3) [OF ok] by (cases "j = i") simp_all
qed (use pids_okD [OF ok] in simp_all)

lemma pids_ok_exit_code [simp]: "pids_ok (add_exit_code p c s) = pids_ok s"
  by (simp add: pids_ok_def add_exit_code_def)

lemma pids_ok_exit:
  assumes ok: "pids_ok s" and i: "i < MAX_TASKS" and call: "call_keeps call"
    and exit: "exit_task call i code s = Inr s'"
  shows "pids_ok s' \<and> current_pid s' = current_pid s"
proof -
  define s1 where "s1 = add_exit_code (pid (tasks s ! i)) code (upd_task i (\<lambda>t. t\<lparr>active := False, pin := False\<rparr>) s)"
  from exit obtain s2 s3 s4 where s2: "resource_dealloc call i s1 = Inr s2"
      and s3: "(if parent (tasks s2 ! i) = -1 then
                  exec_vm (\<lambda>v. Inr (vmm_destroy_context (task_context (tasks s2 ! i))
                    (vmm_activate_context (kernel_context v) v))) s2 else Inr s2) = Inr s3"
      and s4: "exec_vm (vmm_free (stack (tasks s3 ! i)) (of_nat KERNEL_STACK_SIZE_PAGES)) s3 = Inr s4"
      and s5: "(if i = get_self s then Inr (upd_task i (\<lambda>t. t\<lparr>taken := False\<rparr>) s4)
            else exec_vm (\<lambda>v. Inr (vmm_activate_context (task_context (tasks (upd_task i (\<lambda>t. t\<lparr>taken := False\<rparr>) s4) ! get_self s)) v))
                   (upd_task i (\<lambda>t. t\<lparr>taken := False\<rparr>) s4)) = Inr s'"
    by (auto simp: exit_task_def Let_def s1_def)
  have ok1: "pids_ok s1" unfolding s1_def pids_ok_exit_code by (rule pids_ok_upd [OF ok i]) simp_all
  have in1: "\<not> active (tasks s1 ! i)" using i pids_okD(1) [OF ok] by (simp add: s1_def add_exit_code_def)
  from s2 obtain u where u: "dealloc_from call i 0 (num_resources (tasks s1 ! i)) s1 = Inr u"
      and s2_eq: "s2 = upd_task i (\<lambda>t. t\<lparr>resources := None\<rparr>) u"
    by (auto simp: resource_dealloc_def)
  have oku: "pids_ok u" "\<not> active (tasks u ! i)" and pu: "current_pid u = current_pid s"
    using pids_ok_dealloc_from [OF call ok1 u] in1 i by (auto simp: s1_def add_exit_code_def)
  have "pids_ok s2"
    unfolding s2_eq using pids_okD(3) [OF oku(1) i] by (intro pids_ok_upd [OF oku(1) i]) simp_all
  moreover have "\<not> active (tasks s2 ! i)" using oku i pids_okD(1) [OF oku(1)] by (simp add: s2_eq)
  moreover have "current_pid s2 = current_pid s" using pu by (simp add: s2_eq)
  ultimately have "pids_ok s3 \<and> \<not> active (tasks s3 ! i) \<and> current_pid s3 = current_pid s"
    using s3 by (auto split: if_splits elim!: exec_vmE)
  then have ok4: "pids_ok s4" "\<not> active (tasks s4 ! i)" "current_pid s4 = current_pid s" using s4 by (auto elim!: exec_vmE)
  have "pids_ok (upd_task i (\<lambda>t. t\<lparr>taken := False\<rparr>) s4)"
    using ok4(2) by (intro pids_ok_upd [OF ok4(1) i]) simp_all
  then show ?thesis using s5 ok4(3) by (auto split: if_splits elim!: exec_vmE)
qed

text \<open>Scheduling keeps the table sane and hands out no identifier.\<close>

definition pids_kept :: "int \<Rightarrow> 'z sched_scheme \<Rightarrow> bool" where
  "pids_kept p s \<longleftrightarrow> pids_ok s \<and> current_pid s = p"

lemma pids_kept_pick: "pids_kept p s \<Longrightarrow> i < MAX_TASKS \<Longrightarrow> pids_kept p (snd (pick i s))"
  by (simp add: pick_def pids_kept_def)

lemma pids_kept_switch: "pids_kept p s \<Longrightarrow> pids_kept p (snd (switch_to_next_task i d ign s))"
proof (induction i d ign s rule: switch_to_next_task.induct)
  case (1 i d ign s)
  define s1 where "s1 = upd_task i (\<lambda>t. t\<lparr>wait_time := s32 (wait_time t - d)\<rparr>) s"
  have ok: "pids_ok s" using 1(3) by (simp add: pids_kept_def)
  have "pids_kept p s1" if "i < MAX_TASKS"
    using 1(3) pids_okD(3) [OF ok that] unfolding s1_def pids_kept_def by (simp add: pids_ok_upd [OF ok that])
  then show ?case
    using 1 pids_kept_pick by (subst switch_to_next_task.simps) (auto simp: Let_def s1_def [symmetric])
qed

lemma pids_kept_try:
  assumes "pids_kept p s" and "\<And>s1 r s'. pids_kept p s1 \<Longrightarrow> oth s1 = Inr (r, s') \<Longrightarrow> pids_kept p s'"
    and "try_switch i d ign oth s = Inr (r, s')"
  shows "pids_kept p s'"
  using assms(2,3) pids_kept_switch [OF assms(1), of i d ign]
  by (auto simp: try_switch_def split: prod.splits if_splits)

lemma pids_kept_schedule:
  fixes s :: "'z sched_scheme"
  assumes "pids_kept p s" and "schedule on_bsp trm now regs s = Inr (r, s')"
  shows "pids_kept p s'"
proof -
  define d0 where "d0 = s32 (s32 now - last_time_ms s)"
  have ok: "pids_kept p (s\<lparr>last_time_ms := s32 now\<rparr>)" using assms(1) by (simp add: pids_kept_def)
  have last: "pids_kept p s1 \<Longrightarrow> try_switch 0 d True (\<lambda>_. Inl e) s1 = Inr (r, s') \<Longrightarrow> pids_kept p s'"
    for d e r and s1 s' :: "'z sched_scheme"
    by (erule pids_kept_try) auto
  have wrapped: "pids_kept p s1 \<Longrightarrow> try_switch 0 d False (try_switch 0 d True (\<lambda>_. Inl e)) s1 = Inr (r, s') \<Longrightarrow> pids_kept p s'"
    for d e r and s1 s' :: "'z sched_scheme"
    by (erule pids_kept_try) (erule last, assumption, assumption)
  show ?thesis
  proof (cases "is_scheduler_running s \<and> on_bsp \<and> \<not> (pin (tasks s ! current_task s) \<and> task_term (tasks s ! current_task s) = trm)")
    case True
    then have "try_switch (current_task s + 1) d0 False (try_switch 0 d0 False
        (try_switch 0 d0 True (\<lambda>_. Inl (Abort ''All tasks are dead lol'')))) (s\<lparr>last_time_ms := s32 now\<rparr>) = Inr (r, s')"
      using assms(2) by (auto simp: schedule_def Let_def d0_def)
    then show ?thesis by (rule pids_kept_try [OF ok, rotated]) (rule wrapped)
  next
    case False
    then have "s' = s" using assms(2) by (auto simp: schedule_def split: if_splits)
    then show ?thesis using assms(1) by simp
  qed
qed

lemma pids_kept_run:
  assumes "call_keeps call" and "task_run call s n s'" and "pids_kept 0 s" and "n < 0x80000000"
  shows "pids_kept (int n) s'"
  using assms(2,4)
proof (induction rule: task_run.induct)
  case start
  then show ?case using assms(3) by simp
next
  case (create n t trm entry thr i s')
  then show ?case using pids_ok_create [of t trm entry thr i s'] by (auto simp: pids_kept_def)
next
  case (exit n t i code s')
  then show ?case using pids_ok_exit [of t i call code s'] assms(1) by (auto simp: pids_kept_def)
next
  case (tick n t on_bsp trm now regs r s')
  then show ?case using pids_kept_schedule [of "int n" t] by auto
qed

text \<open>
  C13. Process identifiers. The counter is a 32-bit \<open>int\<close> that is never reset. As long as fewer than \<open>2 ^ 31\<close> tasks
  have been created, however tasks and threads are created, exit and are scheduled, every active task is the one its
  process identifier names: \<open>get_task_by_pid\<close> of the identifier of an active task returns the slot of that task, the
  identifiers handed out are the numbers below that of the tasks created, and all others, negative ones included, name no
  task. Destructors of resources are only required to keep the task table sane and to start no task.
\<close>

theorem pid_names_task:
  assumes "call_keeps call" and "task_run call (init_sched v f) n s" and "n < 0x80000000"
  shows "(\<forall>i<MAX_TASKS. active (tasks s ! i) \<longrightarrow> get_task_by_pid (pid (tasks s ! i)) s = Some i) \<and>
    (\<forall>p. p < 0 \<or> int n \<le> p \<longrightarrow> get_task_by_pid p s = None) \<and> current_pid s = int n"
proof -
  have "pids_kept 0 (init_sched v f)" by (simp add: pids_kept_def pids_ok_init) (simp add: init_sched_def)
  then have "pids_kept (int n) s" by (rule pids_kept_run [OF assms(1,2) _ assms(3)])
  then have ok: "pids_ok s" and cur: "current_pid s = int n" by (simp_all add: pids_kept_def)
  note len = pids_okD(1) [OF ok]
  show ?thesis
  proof (intro conjI allI impI)
    fix i assume i: "i < MAX_TASKS" "active (tasks s ! i)"
    have "k = i" if "k < MAX_TASKS" "active (tasks s ! k)" "pid (tasks s ! k) = pid (tasks s ! i)" for k
      using that i ok unfolding pids_ok_def by blast
    then show "get_task_by_pid (pid (tasks s ! i)) s = Some i"
      unfolding get_task_by_pid_def find_index_Some using i len by (metis less_trans nat_neq_iff)
  next
    fix p assume p: "p < 0 \<or> int n \<le> p"
    have "\<not> (active (tasks s ! k) \<and> pid (tasks s ! k) = p)" if "k < MAX_TASKS" for k
      using that p ok unfolding pids_ok_def cur by (metis leD)
    then show "get_task_by_pid p s = None"
      unfolding get_task_by_pid_def find_index_None using len by (fastforce simp: in_set_conv_nth)
  qed (rule cur)
qed

text \<open>The first process of the machine in \<open>Demo_Machine\<close> is created and made active.\<close>

theorem pid_names_task_witness:
  "\<exists>s. task_run (\<lambda>_ _ s. Inr s) (init_sched lab_machine (\<lambda>_. new_state 0 0)) 1 s \<and> active (tasks s ! 0) \<and>
     get_task_by_pid 0 s = Some 0 \<and> get_task_by_pid 1 s = None \<and> current_pid s = 1"
proof -
  define s0 :: sched where "s0 = init_sched lab_machine (\<lambda>_. new_state 0 0)"
  have s0: "lab 32 16 (vm s0)" "find_empty_task_slot s0 = Inr 0" "length (tasks s0) = 32" "current_pid s0 = 0"
    using lab_start by (simp_all add: s0_def init_sched_def find_empty_task_slot_def MAX_TASKS_def numeral_eq_Suc zero_task_def)
  then obtain t where t: "init_task 1 0x8048000 None s0 = Inr (0, t)"
    using lab_init_task [of s0 0 1 "0x8048000"] by auto
  define s where "s = upd_task 0 (\<lambda>t. t\<lparr>active := True\<rparr>) t"
  have run: "task_run (\<lambda>_ _ s. Inr s) s0 1 s"
    using create [OF start t] by (simp add: s_def)
  have act: "active (tasks s ! 0)" "pid (tasks s ! 0) = 0"
    using t s0(3,4) by (auto simp: s_def elim!: init_taskE)
  have keeps: "call_keeps (\<lambda>_ _ s. Inr s)" by (simp add: call_keeps_def)
  have "get_task_by_pid 0 s = Some 0" "get_task_by_pid 1 s = None" "current_pid s = 1"
    using pid_names_task [OF keeps run [unfolded s0_def]] act by (auto simp: MAX_TASKS_def dest!: spec [of _ "0 :: nat"])
  with run act show ?thesis unfolding s0_def by blast
qed

section \<open>A thread is created\<close>

text \<open>
  A machine whose page tables for the first 4 MB and for the user stacks exist: pages 32 to 63
  are free, the kernel's directory maps its first area by the table at 0x5000, and the directory of
  the context 0x3000 maps the area of the user stacks by the table at 0x6000.
\<close>

definition demo_machine :: vmm where
  "demo_machine = \<lparr>books = \<lparr>bitmap = bitmap_clear_range (\<lambda>_. 0) 32 32, bitmap_pagetable_mask = (\<lambda>_. 0xffffffff),
       free_memory = 0x20000, used_memory = 0\<rparr>,
     page_words = (\<lambda>p i. if p = 0x1000 \<and> i = 0 then 0x2000 else if p = 0x2000 \<and> i = 0 then 0x5003
       else if p = 0x3000 \<and> i = 0 then 0x4000 else if p = 0x4000 \<and> i = 768 then 0x6007 else 0),
     ram = (\<lambda>_. 0), kernel_context = 0x1000, active_contexts = [0x3000], cr3 = 0x2000\<rparr>"

definition demo_tables :: "vmm \<Rightarrow> bool" where
  "demo_tables s \<longleftrightarrow> page_words s 0x1000 0 = 0x2000 \<and> page_words s 0x2000 0 = 0x5003 \<and> page_words s 0x2000 768 = 0 \<and>
     page_words s 0x3000 0 = 0x4000 \<and> page_words s 0x4000 768 = 0x6007 \<and> kernel_context s = 0x1000 \<and> cr3 s = 0x2000"

definition demo_parent :: sched where
  "demo_parent = (init_sched demo_machine (\<lambda>_. new_state 0 0))
     \<lparr>tasks := (replicate MAX_TASKS zero_task)[0 := zero_task\<lparr>taken := True, active := True, task_context := 0x3000\<rparr>],
      current_pid := 1\<rparr>"

lemma demo_tables_upd [simp]:
  "demo_tables s \<Longrightarrow> demo_tables (s\<lparr>books := b\<rparr>)"
  "demo_tables s \<Longrightarrow> demo_tables (s\<lparr>active_contexts := acs\<rparr>)"
  "demo_tables s \<Longrightarrow> demo_tables (put_word 0x5000 i w s)"
  "demo_tables s \<Longrightarrow> demo_tables (put_word 0x6000 i w s)"
  by (simp_all add: demo_tables_def put_word_def)

lemma demo_map_range:
  assumes "demo_tables s" and "ptr AND 0xfff = 0" and "unat ptr + (i + n) * 4096 \<le> 0x400000"
  shows "\<exists>s'. map_range ptr i n s = Inr s' \<and> demo_tables s' \<and> books s' = books s"
  using assms
proof (induction n arbitrary: i s)
  case (Suc n)
  let ?a = "ptr + of_nat i * 0x1000"
  have "page_aligned ptr" using Suc.prems(2) by (simp add: page_aligned_def)
  then have al: "?a AND 0xfff = 0" using region_aligned [of ptr i] by (simp add: page_aligned_def)
  have "unat ?a = unat ptr + i * 4096"
    using Suc.prems(3) by (simp add: unat_word_ariths unat_of_nat)
  then have pd: "pd_index ?a = 0" using Suc.prems(3) by (simp add: pd_index_def unat_div)
  have step: "vmm_map_page (kernel_context s) ?a ?a (PTE_PRESENT OR PTE_WRITE) s =
      Inr (0, put_word 0x5000 (pt_index ?a) (?a OR (PTE_PRESENT OR PTE_WRITE)) s)"
    using Suc.prems(1) al pd by (simp add: vmm_map_page_def vmm_map_page_unsafe_def demo_tables_def pagedir_def
        present_def PTE_PRESENT_def entry_page_def)
  have "\<exists>s'. map_range ptr (Suc i) n (put_word 0x5000 (pt_index ?a) (?a OR (PTE_PRESENT OR PTE_WRITE)) s) = Inr s' \<and>
      demo_tables s' \<and> books s' = books (put_word 0x5000 (pt_index ?a) (?a OR (PTE_PRESENT OR PTE_WRITE)) s)"
    using Suc.prems by (intro Suc.IH) simp_all
  then show ?case using step by (auto simp: put_word_def)
qed simp

lemma demo_map_stack:
  assumes "demo_tables s" and "v AND 0xfff = 0" and "p AND 0xfff = 0" and "pd_index v = 768"
    and "unat v mod 0x400000 + (i + n) * 4096 \<le> 0x400000"
  shows "\<exists>s'. map_region (\<lambda>v p s. vmm_map_page 0x3000 v p (PTE_PRESENT OR PTE_WRITE OR PTE_USER) s) v p i n s = Inr s'"
  using assms
proof (induction n arbitrary: i s)
  case (Suc n)
  let ?a = "v + of_nat i * 0x1000" and ?p = "p + of_nat i * 0x1000"
  have al: "?a AND 0xfff = 0" "?p AND 0xfff = 0"
    using region_aligned [of v i] region_aligned [of p i] Suc.prems(2,3) by (simp_all add: page_aligned_def)
  have v: "unat v div 0x400000 = 768" using Suc.prems(4) by (simp add: pd_index_def unat_div div_mult2_eq [symmetric])
  then obtain r where r: "unat v = 768 * 0x400000 + r" "r = unat v mod 0x400000"
    using mult_div_mod_eq [of "0x400000" "unat v"] by auto
  then have "r + (i * 4096 + Suc n * 4096) \<le> 0x400000" using Suc.prems(5) by (simp add: add_mult_distrib)
  then have le: "unat v + i * 4096 < 769 * 0x400000" unfolding r(1) by simp
  then have "unat ?a = unat v + i * 4096" by (simp add: unat_word_ariths unat_of_nat)
  moreover have "(unat v + i * 4096) div 0x400000 = 768" using le by (intro div_nat_eqI) (simp_all add: r(1))
  ultimately have pd: "pd_index ?a = 768" by (simp add: pd_index_def unat_div div_mult2_eq [symmetric])
  have step: "vmm_map_page 0x3000 ?a ?p (PTE_PRESENT OR PTE_WRITE OR PTE_USER) s =
      Inr (0, put_word 0x6000 (pt_index ?a) (?p OR (PTE_PRESENT OR PTE_WRITE OR PTE_USER)) s)"
    using Suc.prems(1) al pd by (simp add: vmm_map_page_def vmm_map_page_unsafe_def demo_tables_def pagedir_def
        present_def PTE_PRESENT_def entry_page_def)
  have "\<exists>s'. map_region (\<lambda>v p s. vmm_map_page 0x3000 v p (PTE_PRESENT OR PTE_WRITE OR PTE_USER) s) v p (Suc i) n
      (put_word 0x6000 (pt_index ?a) (?p OR (PTE_PRESENT OR PTE_WRITE OR PTE_USER)) s) = Inr s'"
    using Suc.prems by (intro Suc.IH) simp_all
  then show ?case using step by auto
qed simp

lemma demo_bitmap: "bitmap_test (bitmap (books demo_machine)) k \<longleftrightarrow> \<not> (32 \<le> k \<and> k < 64)"
proof -
  have "bitmap_test (bitmap_clear_range (\<lambda>_. 0) i n) k \<longleftrightarrow> \<not> (i \<le> k \<and> k < i + n)" for i n
    by (induction n) (auto simp: bitmap_test_clear bitmap_test_zero)
  from this [of 32 32] show ?thesis by (simp add: demo_machine_def)
qed

lemma demo_alloc_frames:
  assumes "\<And>k. bitmap_test (bitmap b) k \<longleftrightarrow> \<not> (a \<le> k \<and> k < 64)" and "\<not> bitmap_test (bitmap_pagetable_mask b) a"
    and "a + n \<le> 64" "0 < n"
  shows "pmm_alloc_range (int n) b = Inr (page_addr a, pmm_usage_use (of_nat n) (b\<lparr>bitmap := bitmap_set_range (bitmap b) a n\<rparr>))"
proof -
  have conf: "range_conflict b a n j = Inr None" if "j \<le> n" for j
    using that
  proof (induction j rule: inc_induct)
    case base
    then show ?case by (simp add: range_conflict.simps)
  next
    case (step j)
    then show ?case using assms(1,3,4) by (subst range_conflict.simps) (simp add: NPAGES_def BITMAP_SIZE_def)
  qed
  have "pmm_alloc_range_from (int n) i b = Inr (page_addr a, pmm_usage_use (of_nat n) (b\<lparr>bitmap := bitmap_set_range (bitmap b) a n\<rparr>))"
    if "i \<le> a" for i
    using that
  proof (induction i rule: inc_induct)
    case base
    then show ?case using assms conf [of 0]
      by (subst pmm_alloc_range_from.simps) (simp add: NPAGES_def BITMAP_SIZE_def)
  next
    case (step i)
    then show ?case using assms(1,3,4) by (subst pmm_alloc_range_from.simps) (simp add: NPAGES_def BITMAP_SIZE_def)
  qed
  then show ?thesis by (simp add: pmm_alloc_range_def)
qed

lemma demo_alloc_range:
  assumes "\<And>k. bitmap_test (bitmap b) k \<longleftrightarrow> \<not> (a \<le> k \<and> k < 64)" and "bitmap_pagetable_mask b = (\<lambda>_. 0xffffffff)"
    and "a + 16 \<le> 64"
  shows "pmm_alloc_range 16 b = Inr (page_addr a, pmm_usage_use 16 (b\<lparr>bitmap := bitmap_set_range (bitmap b) a 16\<rparr>))"
  using demo_alloc_frames [OF assms(1), of 16] assms(2,3) demo_mask_init by simp

lemma demo_vmm_alloc:
  assumes t: "demo_tables s" and b: "\<And>k. bitmap_test (bitmap (books s)) k \<longleftrightarrow> \<not> (a \<le> k \<and> k < 64)"
    and m: "bitmap_pagetable_mask (books s) = (\<lambda>_. 0xffffffff)" and a: "a = 32 \<or> a = 48"
  obtains s' where "vmm_alloc 16 s = Inr (page_addr a, s')" and "demo_tables s'"
    and "bitmap_pagetable_mask (books s') = (\<lambda>_. 0xffffffff)"
    and "\<And>k. bitmap_test (bitmap (books s')) k \<longleftrightarrow> \<not> (a + 16 \<le> k \<and> k < 64)"
proof -
  define b' where "b' = pmm_usage_use 16 ((books s)\<lparr>bitmap := bitmap_set_range (bitmap (books s)) a 16\<rparr>)"
  have alloc: "pmm_alloc_range 16 (books s) = Inr (page_addr a, b')"
    unfolding b'_def using a by (intro demo_alloc_range b m) auto
  have "page_addr a AND 0xfff = 0" "unat (page_addr a) + (0 + 16) * 4096 \<le> 0x400000"
    using a by (auto simp: page_addr_def)
  with t obtain s' where s': "map_range (page_addr a) 0 16 (s\<lparr>books := b'\<rparr>) = Inr s'" "demo_tables s'" "books s' = b'"
    using demo_map_range [of "s\<lparr>books := b'\<rparr>" "page_addr a" 0 16] by auto
  show thesis
  proof (rule that)
    show "vmm_alloc 16 s = Inr (page_addr a, s')" using alloc s' by (simp add: vmm_alloc_def)
    show "bitmap_pagetable_mask (books s') = (\<lambda>_. 0xffffffff)" using s'(3) m by (simp add: b'_def pmm_usage_use_def)
    show "bitmap_test (bitmap (books s')) k \<longleftrightarrow> \<not> (a + 16 \<le> k \<and> k < 64)" for k
      using s'(3) b [of k] a by (auto simp: b'_def pmm_usage_use_def bitmap_test_set_range)
  qed (rule s'(2))
qed

lemma demo_init_task: "\<exists>s'. init_task 2 0x8048000 (Some 0) demo_parent = Inr (1, s')"
proof -
  define s0 where "s0 = upd_task 1 (\<lambda>_. zero_task) (demo_parent\<lparr>is_scheduler_running := False\<rparr>)"
  have slot: "find_empty_task_slot demo_parent = Inr 1"
    by (simp add: find_empty_task_slot_def demo_parent_def MAX_TASKS_def numeral_eq_Suc zero_task_def)
  have t0: "demo_tables ((vm s0)\<lparr>active_contexts := active_of (tasks s0)\<rparr>)"
    by (simp add: s0_def upd_task_def demo_parent_def init_sched_def demo_tables_def demo_machine_def)
  obtain v1 where v1: "vmm_alloc 16 ((vm s0)\<lparr>active_contexts := active_of (tasks s0)\<rparr>) = Inr (page_addr 32, v1)" "demo_tables v1"
      "bitmap_pagetable_mask (books v1) = (\<lambda>_. 0xffffffff)" "\<And>k. bitmap_test (bitmap (books v1)) k \<longleftrightarrow> \<not> (32 + 16 \<le> k \<and> k < 64)"
    by (rule demo_vmm_alloc [OF t0, of 32])
      (simp_all add: s0_def upd_task_def demo_parent_def init_sched_def demo_bitmap, simp add: demo_machine_def)
  define s1 where "s1 = s0\<lparr>vm := v1\<rparr>"
  have "demo_tables ((vm s1)\<lparr>active_contexts := active_of (tasks s1)\<rparr>)" using v1(2) by (simp add: s1_def)
  then obtain v2 where
    v2: "vmm_alloc 16 ((vm s1)\<lparr>active_contexts := active_of (tasks s1)\<rparr>) = Inr (page_addr 48, v2)" "demo_tables v2"
    by (rule demo_vmm_alloc [of _ 48]) (simp_all add: s1_def v1(3,4))
  define s2 where "s2 = fill_task 1 2 0x8048000 (page_addr 32) (page_addr 48) (s1\<lparr>vm := v2\<rparr>)"
  define s3 where "s3 = upd_task 1 (\<lambda>t. t\<lparr>task_context := task_context (tasks s2 ! 0), parent := pid (tasks s2 ! 0)\<rparr>) s2"
  have c: "task_context (tasks s3 ! 1) = 0x3000"
    by (simp add: s3_def s2_def fill_task_def s1_def s0_def upd_task_def demo_parent_def MAX_TASKS_def)
  have "demo_tables ((vm s3)\<lparr>active_contexts := active_of (tasks s3)\<rparr>)"
    using v2(2) by (simp add: s3_def s2_def fill_task_def upd_task_def)
  from demo_map_stack [OF this, of "page_addr 48 + USER_SPACE_OFFSET" "page_addr 48" 0 16]
  obtain v3 where v3: "map_user_stack 0x3000 (page_addr 48) ((vm s3)\<lparr>active_contexts := active_of (tasks s3)\<rparr>) = Inr v3"
    by (auto simp: map_user_stack_def page_addr_def USER_SPACE_OFFSET_def pd_index_def USER_STACK_SIZE_PAGES_def)
  show ?thesis
    using slot v1(1) v2(1) v3 c
    by (simp del: One_nat_def add: init_task_def run_vm_def exec_vm_def attach_context_def KERNEL_STACK_SIZE_PAGES_def
        USER_STACK_SIZE_PAGES_def s0_def [symmetric] s1_def [symmetric] s2_def [symmetric] s3_def [symmetric])
qed

theorem init_task_prepares_witness:
  "\<exists>s'. init_task 2 0x8048000 (Some 0) demo_parent = Inr (1, s') \<and> pid (tasks s' ! 1) = 1 \<and>
     task_context (tasks s' ! 1) = 0x3000 \<and> eip (reg_frames s' (registers (tasks s' ! 1))) = 0x8048000"
proof -
  obtain s' where s': "init_task 2 0x8048000 (Some 0) demo_parent = Inr (1, s')" using demo_init_task by blast
  from init_task_prepares [OF s'] s' show ?thesis
    by (auto simp: Let_def demo_parent_def MAX_TASKS_def)
qed

end
