(* ===== verification/Flvm.thy ===== *)
theory Flvm
  imports Prelude "HOL-Library.Signed_Division"
begin

text \<open>
  The byte-code machine of \<open>user/libraries/libflvm/flvm.c\<close>: a stack machine with 64-bit cells,
  256 local variables per call frame, a call stack of 256 frames and growing global variables.

  Byte code, strings and arrays are reached through pointers. They live in \<open>mem\<close>, the memory of
  the process, addressed by 32-bit pointers: the 64-bit sum \<open>(int64_t) ptr + offset\<close> of the access macros
  is cut to 32 bits. The structures of the machine itself are kept apart from \<open>mem\<close>. The C code checks
  neither the operand stack (\<open>stack_push\<close>, \<open>stack_pop\<close>) nor the call stack (\<open>INVOKE\<close>, \<open>RETURN\<close>): byte code that leaves
  these arrays makes it access the memory behind or before them, which is undefined. The tests in the model are not tests of the code:
  their fault \<open>OutOfBounds\<close> marks such a run, and no property says that it cannot happen. Signed
  64-bit arithmetic wraps as the processor's does; a shift by a distance outside its range is undefined in C and is
  \<open>Abort ''shift''\<close>. Allocations of the machine's own tables succeed, and \<open>junk\<close> is what new
  cells of the global variables hold.

  The library functions the native calls use (\<open>stdio\<close>, \<open>malloc\<close>) are the parameter \<open>lib\<close>: their result and
  effect on memory may depend on all library calls made before.
\<close>

section \<open>State\<close>

record call_frame =
  return_address :: u64
  variables :: "u64 list"
  variable_types :: "u8 list"
  noreturn :: bool

datatype libcall =
    Putchar u8
  | Puts u32
  | Malloc u32
  | Free u32
  | Fopen u32 u32
  | Fclose u32
  | Fseek u32 u32 u32
  | Fread u32 u32 u32 u32
  | Fwrite u32 u32 u32 u32
  | Ftell u32

record vm_instance =
  code :: u32
  vm_stack :: "u64 list"
  stack_ptr :: nat
  max_stack :: nat
  global_variables :: "u64 list"
  global_variable_types :: "u8 list"
  counter :: u64
  call_stack :: "call_frame list"
  call_depth :: nat
  running :: bool
  globals :: u64
  spark :: u64
  code_size :: u64
  mem :: "u32 \<Rightarrow> u8"
  trace :: "libcall list"

record vm_env =
  lib :: "libcall \<Rightarrow> libcall list \<Rightarrow> (u32 \<Rightarrow> u8) \<Rightarrow> u32 \<times> (u32 \<Rightarrow> u8)"
  natives :: "(u32 \<times> u32) list"
  native_call :: "u32 \<Rightarrow> vm_instance \<Rightarrow> vm_instance kres"
  junk :: "nat \<Rightarrow> u64"

definition MAX_CALL_DEPTH :: nat where
  "MAX_CALL_DEPTH = 256"

datatype instruction =
    GLOBAL_RESERVE | ASSIGN | ASSIGN_INDEXED | LOAD | LOAD_INDEXED | NUMBER | STRING | GOTO | GOTO_TRUE | GOTO_FALSE
  | INVOKE | INVOKE_NATIVE | RETURN | VARIABLE | INCREASE | DECREASE | ADD | SUB | MUL | DIV | MOD | LESS | LESS_EQUALS
  | MORE | MORE_EQUALS | EQUALS | NOT_EQUALS | INVERT | SHIFT_LEFT | SHIFT_RIGHT | OR_I | AND_I | XOR_I | NOT_I
  | NORETURN | DELETE | CHANGE_SIGN

definition instructions :: "instruction list" where
  "instructions = [GLOBAL_RESERVE, ASSIGN, ASSIGN_INDEXED, LOAD, LOAD_INDEXED, NUMBER, STRING, GOTO, GOTO_TRUE, GOTO_FALSE,
     INVOKE, INVOKE_NATIVE, RETURN, VARIABLE, INCREASE, DECREASE, ADD, SUB, MUL, DIV, MOD, LESS, LESS_EQUALS,
     MORE, MORE_EQUALS, EQUALS, NOT_EQUALS, INVERT, SHIFT_LEFT, SHIFT_RIGHT, OR_I, AND_I, XOR_I, NOT_I,
     NORETURN, DELETE, CHANGE_SIGN]"

section \<open>Memory access\<close>

definition mem_addr :: "u64 \<Rightarrow> u64 \<Rightarrow> u32" where
  "mem_addr ptr offset = ucast (ptr + offset)"

text \<open>Little-endian access to \<open>n\<close> bytes, zero extended.\<close>

fun read_le :: "(u32 \<Rightarrow> u8) \<Rightarrow> u32 \<Rightarrow> nat \<Rightarrow> u64" where
  "read_le m a 0 = 0"
| "read_le m a (Suc n) = ucast (m a) + 256 * read_le m (a + 1) n"

fun write_le :: "(u32 \<Rightarrow> u8) \<Rightarrow> u32 \<Rightarrow> nat \<Rightarrow> u64 \<Rightarrow> u32 \<Rightarrow> u8" where
  "write_le m a 0 v = m"
| "write_le m a (Suc n) v = (write_le m (a + 1) n (v div 256))(a := ucast v)"

definition read_u64 :: "vm_instance \<Rightarrow> u64 \<Rightarrow> u64 \<Rightarrow> u64" where
  "read_u64 vm ptr offset = read_le (mem vm) (mem_addr ptr offset) 8"

definition read_u8 :: "vm_instance \<Rightarrow> u64 \<Rightarrow> u64 \<Rightarrow> u8" where
  "read_u8 vm ptr offset = mem vm (mem_addr ptr offset)"

definition code_ptr :: "vm_instance \<Rightarrow> u64" where
  "code_ptr vm = scast (code vm)"

section \<open>Operand stack\<close>

definition stack_push :: "u64 \<Rightarrow> vm_instance \<Rightarrow> vm_instance kres" where
  "stack_push v vm =
     (if stack_ptr vm < length (vm_stack vm)
      then Inr (vm\<lparr>vm_stack := (vm_stack vm)[stack_ptr vm := v], stack_ptr := stack_ptr vm + 1\<rparr>)
      else Inl OutOfBounds)"

definition stack_pop :: "vm_instance \<Rightarrow> (u64 \<times> vm_instance) kres" where
  "stack_pop vm =
     (if 0 < stack_ptr vm \<and> stack_ptr vm \<le> length (vm_stack vm)
      then Inr (vm_stack vm ! (stack_ptr vm - 1), vm\<lparr>stack_ptr := stack_ptr vm - 1\<rparr>)
      else Inl OutOfBounds)"

section \<open>Native functions\<close>

definition call_lib :: "vm_env \<Rightarrow> libcall \<Rightarrow> vm_instance \<Rightarrow> u32 \<times> vm_instance" where
  "call_lib e c vm =
     (let (r, m) = lib e c (trace vm) (mem vm) in (r, vm\<lparr>mem := m, trace := trace vm @ [c]\<rparr>))"

definition nativeExit :: "vm_instance \<Rightarrow> vm_instance kres" where
  "nativeExit vm = kbind (stack_pop vm) (\<lambda>(c, _). Inl (Exited (ucast c)))"

definition nativePutchar :: "vm_env \<Rightarrow> vm_instance \<Rightarrow> vm_instance kres" where
  "nativePutchar e vm = kbind (stack_pop vm) (\<lambda>(c, vm). stack_push 0 (snd (call_lib e (Putchar (ucast c)) vm)))"

definition nativePuts :: "vm_env \<Rightarrow> vm_instance \<Rightarrow> vm_instance kres" where
  "nativePuts e vm = kbind (stack_pop vm) (\<lambda>(s, vm). stack_push 0 (snd (call_lib e (Puts (ucast s)) vm)))"

definition nativeMalloc :: "vm_env \<Rightarrow> vm_instance \<Rightarrow> vm_instance kres" where
  "nativeMalloc e vm =
     kbind (stack_pop vm) (\<lambda>(n, vm). let (p, vm) = call_lib e (Malloc (ucast n)) vm in stack_push (scast p) vm)"

definition nativeFree :: "vm_env \<Rightarrow> vm_instance \<Rightarrow> vm_instance kres" where
  "nativeFree e vm = kbind (stack_pop vm) (\<lambda>(p, vm). stack_push 0 (snd (call_lib e (Free (ucast p)) vm)))"

definition nativeFopen :: "vm_env \<Rightarrow> vm_instance \<Rightarrow> vm_instance kres" where
  "nativeFopen e vm =
     kbind (stack_pop vm) (\<lambda>(mode, vm). kbind (stack_pop vm) (\<lambda>(file, vm).
       let (f, vm) = call_lib e (Fopen (ucast file) (ucast mode)) vm in stack_push (scast f) vm))"

definition nativeFclose :: "vm_env \<Rightarrow> vm_instance \<Rightarrow> vm_instance kres" where
  "nativeFclose e vm = kbind (stack_pop vm) (\<lambda>(f, vm). stack_push 0 (snd (call_lib e (Fclose (ucast f)) vm)))"

definition nativeFseek :: "vm_env \<Rightarrow> vm_instance \<Rightarrow> vm_instance kres" where
  "nativeFseek e vm =
     kbind (stack_pop vm) (\<lambda>(whence, vm). kbind (stack_pop vm) (\<lambda>(off, vm). kbind (stack_pop vm) (\<lambda>(f, vm).
       stack_push 0 (snd (call_lib e (Fseek (ucast f) (ucast off) (ucast whence)) vm)))))"

text \<open>Reading and writing take their four arguments in the same order.\<close>

definition file_args :: "vm_instance \<Rightarrow> (u32 \<times> u32 \<times> u32 \<times> u32 \<times> vm_instance) kres" where
  "file_args vm =
     kbind (stack_pop vm) (\<lambda>(f, vm). kbind (stack_pop vm) (\<lambda>(n, vm). kbind (stack_pop vm) (\<lambda>(sz, vm).
     kbind (stack_pop vm) (\<lambda>(buffer, vm). Inr (ucast buffer, ucast sz, ucast n, ucast f, vm)))))"

definition nativeFread :: "vm_env \<Rightarrow> vm_instance \<Rightarrow> vm_instance kres" where
  "nativeFread e vm =
     kbind (file_args vm) (\<lambda>(buffer, sz, n, f, vm). let (r, vm) = call_lib e (Fread buffer sz n f) vm in stack_push (ucast r) vm)"

definition nativeFwrite :: "vm_env \<Rightarrow> vm_instance \<Rightarrow> vm_instance kres" where
  "nativeFwrite e vm =
     kbind (file_args vm) (\<lambda>(buffer, sz, n, f, vm). let (r, vm) = call_lib e (Fwrite buffer sz n f) vm in stack_push (ucast r) vm)"

definition nativeFtell :: "vm_env \<Rightarrow> vm_instance \<Rightarrow> vm_instance kres" where
  "nativeFtell e vm =
     kbind (stack_pop vm) (\<lambda>(f, vm). let (r, vm) = call_lib e (Ftell (ucast f)) vm in stack_push (ucast r) vm)"

definition nativeFunctions :: "vm_env \<Rightarrow> (vm_instance \<Rightarrow> vm_instance kres) list" where
  "nativeFunctions e = [nativeExit, nativePutchar e, nativePuts e, nativeMalloc e, nativeFree e, nativeFopen e, nativeFclose e,
     nativeFseek e, nativeFread e, nativeFwrite e, nativeFtell e]"

section \<open>Variables\<close>

definition resizeGlobalsIfNecessary :: "vm_env \<Rightarrow> u64 \<Rightarrow> vm_instance \<Rightarrow> vm_instance kres" where
  "resizeGlobalsIfNecessary e idx vm =
     (let n = sint (ucast idx :: u32) + 1; old = length (global_variables vm)
      in if n > int old then
           if 8 * n < 2 ^ 32 then
             Inr (vm\<lparr>global_variables := global_variables vm @ map (junk e) [old..<nat n],
                     global_variable_types := global_variable_types vm @ map (\<lambda>i. ucast (junk e i)) [old..<nat n]\<rparr>)
           else Inl OutOfBounds
         else Inr vm)"

definition datatypeToSize :: "u8 \<Rightarrow> nat kres" where
  "datatypeToSize dt =
     (if dt = 0 then Inr 8 else if dt = 1 then Inr 1 else if dt = 2 then Inr 8 else if dt = 3 then Inr 8
      else if dt = 4 then Inr 2 else if dt = 5 then Inr 4 else Inl (Abort ''Invalid datatype''))"

text \<open>The variable an index names: the globals start at 256.\<close>

datatype variable_ref = Local nat | Global nat

definition selectVariable :: "u64 \<Rightarrow> variable_ref" where
  "selectVariable idx = (if idx \<ge> 256 then Global (unat (idx - 256)) else Local (unat idx))"

definition frame :: "vm_instance \<Rightarrow> call_frame" where
  "frame vm = call_stack vm ! call_depth vm"

definition upd_frame :: "(call_frame \<Rightarrow> call_frame) \<Rightarrow> vm_instance \<Rightarrow> vm_instance" where
  "upd_frame f vm = vm\<lparr>call_stack := (call_stack vm)[call_depth vm := f (frame vm)]\<rparr>"

definition get_var :: "u64 \<Rightarrow> vm_instance \<Rightarrow> u64 kres" where
  "get_var idx vm =
     (case selectVariable idx of
        Local i \<Rightarrow> Inr (variables (frame vm) ! i)
      | Global i \<Rightarrow> if i < length (global_variables vm) then Inr (global_variables vm ! i) else Inl OutOfBounds)"

definition set_var :: "u64 \<Rightarrow> u64 \<Rightarrow> vm_instance \<Rightarrow> vm_instance kres" where
  "set_var idx v vm =
     (case selectVariable idx of
        Local i \<Rightarrow> Inr (upd_frame (\<lambda>f. f\<lparr>variables := (variables f)[i := v]\<rparr>) vm)
      | Global i \<Rightarrow> if i < length (global_variables vm)
                    then Inr (vm\<lparr>global_variables := (global_variables vm)[i := v]\<rparr>) else Inl OutOfBounds)"

definition variable_type :: "u64 \<Rightarrow> vm_instance \<Rightarrow> u8 kres" where
  "variable_type idx vm =
     (case selectVariable idx of
        Local i \<Rightarrow> Inr (variable_types (frame vm) ! i)
      | Global i \<Rightarrow> if i < length (global_variable_types vm) then Inr (global_variable_types vm ! i) else Inl OutOfBounds)"

definition getVariableType :: "u64 \<Rightarrow> vm_instance \<Rightarrow> u8 kres" where
  "getVariableType idx vm = kbind (variable_type idx vm) (\<lambda>t. Inr (t AND 0x7F))"

definition getVariableArray :: "u64 \<Rightarrow> vm_instance \<Rightarrow> bool kres" where
  "getVariableArray idx vm = kbind (variable_type idx vm) (\<lambda>t. Inr (t AND 0x80 = 0))"

section \<open>Instructions\<close>

definition operand :: "vm_instance \<Rightarrow> u64 \<times> vm_instance" where
  "operand vm = (read_u64 vm (code_ptr vm) (counter vm), vm\<lparr>counter := counter vm + 8\<rparr>)"

definition fetch_u8 :: "vm_instance \<Rightarrow> u8 \<times> vm_instance" where
  "fetch_u8 vm = (read_u8 vm (code_ptr vm) (counter vm), vm\<lparr>counter := counter vm + 1\<rparr>)"

definition exec_declare :: "vm_env \<Rightarrow> instruction \<Rightarrow> vm_instance \<Rightarrow> vm_instance kres" where
  "exec_declare e i vm =
     (let (idx, vm) = operand vm; (dt, vm) = fetch_u8 vm; (arr, vm) = fetch_u8 vm;
          dt = (if arr = 0 then dt OR 0x80 else dt)
      in if i = GLOBAL_RESERVE then
           let idx = idx - 256
           in kbind (resizeGlobalsIfNecessary e idx vm) (\<lambda>vm.
                if unat idx < length (global_variables vm) then
                  Inr (vm\<lparr>global_variables := (global_variables vm)[unat idx := 0],
                          global_variable_types := (global_variable_types vm)[unat idx := dt]\<rparr>)
                else Inl OutOfBounds)
         else if unat idx < 256 then
           Inr (upd_frame (\<lambda>f. f\<lparr>variables := (variables f)[unat idx := 0],
                                variable_types := (variable_types f)[unat idx := dt]\<rparr>) vm)
         else Inl OutOfBounds)"

definition exec_assign :: "vm_instance \<Rightarrow> vm_instance kres" where
  "exec_assign vm = (let (idx, vm) = operand vm in kbind (stack_pop vm) (\<lambda>(v, vm). set_var idx v vm))"

definition exec_assign_indexed :: "vm_instance \<Rightarrow> vm_instance kres" where
  "exec_assign_indexed vm =
     (let (idx, vm) = operand vm
      in kbind (stack_pop vm) (\<lambda>(b, vm). kbind (stack_pop vm) (\<lambda>(a, vm).
         kbind (getVariableType idx vm) (\<lambda>dt. kbind (datatypeToSize dt) (\<lambda>sz.
         kbind (get_var idx vm) (\<lambda>p.
           Inr (vm\<lparr>mem := write_le (mem vm) (mem_addr p (a * of_nat sz)) sz b\<rparr>)))))))"

definition exec_load :: "vm_instance \<Rightarrow> vm_instance kres" where
  "exec_load vm = (let (idx, vm) = operand vm in kbind (get_var idx vm) (\<lambda>v. stack_push v vm))"

text \<open>Indexing a variable that is not an array reads one of its bits; \<open>1 << n\<close> is an \<open>int\<close>.\<close>

definition int_bit :: "u64 \<Rightarrow> u64 kres" where
  "int_bit n = (if unat n < 32 then Inr (scast (push_bit (unat n) 1 :: u32)) else Inl (Abort ''shift''))"

definition exec_load_indexed :: "vm_instance \<Rightarrow> vm_instance kres" where
  "exec_load_indexed vm =
     (let (idx, vm) = operand vm
      in kbind (getVariableArray idx vm) (\<lambda>arr.
         if arr then
           kbind (getVariableType idx vm) (\<lambda>dt. kbind (datatypeToSize dt) (\<lambda>sz.
           kbind (get_var idx vm) (\<lambda>p. kbind (stack_pop vm) (\<lambda>(a, vm).
             stack_push (read_le (mem vm) (mem_addr p (a * of_nat sz)) sz) vm))))
         else
           kbind (get_var idx vm) (\<lambda>v. kbind (stack_pop vm) (\<lambda>(n, vm). kbind (int_bit n) (\<lambda>m.
             stack_push (if v AND m \<noteq> 0 then 1 else 0) vm)))))"

definition exec_string :: "vm_instance \<Rightarrow> vm_instance kres" where
  "exec_string vm =
     (let (len, vm) = operand vm
      in kbind (stack_push (code_ptr vm + counter vm) vm) (\<lambda>vm. Inr (vm\<lparr>counter := counter vm + len + 1\<rparr>)))"

definition exec_number :: "vm_instance \<Rightarrow> vm_instance kres" where
  "exec_number vm = (let (n, vm) = operand vm in stack_push n vm)"

definition exec_goto :: "vm_instance \<Rightarrow> vm_instance" where
  "exec_goto vm = vm\<lparr>counter := read_u64 vm (code_ptr vm) (counter vm)\<rparr>"

definition exec_goto_if :: "instruction \<Rightarrow> vm_instance \<Rightarrow> vm_instance kres" where
  "exec_goto_if i vm =
     (let (nextCounter, vm) = operand vm
      in kbind (stack_pop vm) (\<lambda>(v, vm).
           if (if i = GOTO_TRUE then v \<noteq> 0 else v = 0) then Inr (vm\<lparr>counter := nextCounter\<rparr>) else Inr vm))"

definition zero_frame :: call_frame where
  "zero_frame = \<lparr>return_address = 0, variables = replicate 256 0, variable_types = replicate 256 0, noreturn = False\<rparr>"

definition exec_invoke :: "vm_instance \<Rightarrow> vm_instance kres" where
  "exec_invoke vm =
     (let (loc, vm) = operand vm; d = call_depth vm + 1
      in if d < MAX_CALL_DEPTH then
           Inr (vm\<lparr>call_depth := d, call_stack := (call_stack vm)[d := zero_frame\<lparr>return_address := counter vm\<rparr>],
                  counter := loc\<rparr>)
         else Inl OutOfBounds)"

definition exec_invoke_native :: "vm_env \<Rightarrow> vm_instance \<Rightarrow> vm_instance kres" where
  "exec_invoke_native e vm =
     (let (nativeID, vm) = operand vm
      in if unat nativeID \<ge> length (nativeFunctions e) then
           (case find (\<lambda>(i, _). scast i = nativeID) (natives e) of
              Some (_, f) \<Rightarrow> native_call e f vm
            | None \<Rightarrow> Inl (Abort ''Native with id not found!''))
         else (nativeFunctions e ! unat nativeID) vm)"

definition exec_return :: "vm_instance \<Rightarrow> vm_instance kres" where
  "exec_return vm =
     (if noreturn (frame vm) then
        let d = call_depth vm + 1
        in if d < MAX_CALL_DEPTH then
             let vm = vm\<lparr>call_depth := d, call_stack := (call_stack vm)[d := (call_stack vm ! d)\<lparr>return_address := counter vm\<rparr>]\<rparr>
             in Inr (vm\<lparr>counter := read_u64 vm (code_ptr vm) 16\<rparr>)
           else Inl OutOfBounds
      else if call_depth vm > 0 then
        Inr (vm\<lparr>call_depth := call_depth vm - 1, counter := return_address (frame vm)\<rparr>)
      else Inr (vm\<lparr>running := False\<rparr>))"

definition exec_step_var :: "instruction \<Rightarrow> vm_instance \<Rightarrow> vm_instance kres" where
  "exec_step_var i vm =
     (let (idx, vm) = operand vm
      in kbind (get_var idx vm) (\<lambda>v. set_var idx (if i = INCREASE then v + 1 else v - 1) vm))"

definition bool64 :: "bool \<Rightarrow> u64" where
  "bool64 b = (if b then 1 else 0)"

definition shift_dist :: "u64 \<Rightarrow> nat kres" where
  "shift_dist b = (if unat b < 64 then Inr (unat b) else Inl (Abort ''shift''))"

definition binop :: "instruction \<Rightarrow> u64 \<Rightarrow> u64 \<Rightarrow> u64 kres" where
  "binop i a b =
     (case i of
        ADD \<Rightarrow> Inr (a + b)
      | SUB \<Rightarrow> Inr (a - b)
      | MUL \<Rightarrow> Inr (a * b)
      | DIV \<Rightarrow> if b = 0 then Inl DivideError else Inr (word_of_int (sint a sdiv sint b))
      | MOD \<Rightarrow> if b = 0 then Inl DivideError else Inr (word_of_int (sint a smod sint b))
      | LESS \<Rightarrow> Inr (bool64 (sint a < sint b))
      | LESS_EQUALS \<Rightarrow> Inr (bool64 (sint a \<le> sint b))
      | MORE \<Rightarrow> Inr (bool64 (sint a > sint b))
      | MORE_EQUALS \<Rightarrow> Inr (bool64 (sint a \<ge> sint b))
      | EQUALS \<Rightarrow> Inr (bool64 (a = b))
      | NOT_EQUALS \<Rightarrow> Inr (bool64 (a \<noteq> b))
      | SHIFT_LEFT \<Rightarrow> kbind (shift_dist b) (\<lambda>n. Inr (push_bit n a))
      | SHIFT_RIGHT \<Rightarrow> kbind (shift_dist b) (\<lambda>n. Inr (signed_drop_bit n a))
      | OR_I \<Rightarrow> Inr (a OR b)
      | AND_I \<Rightarrow> Inr (a AND b)
      | XOR_I \<Rightarrow> Inr (a XOR b)
      | _ \<Rightarrow> Inl (Abort ''Invalid instruction''))"

definition exec_binop :: "instruction \<Rightarrow> vm_instance \<Rightarrow> vm_instance kres" where
  "exec_binop i vm =
     kbind (stack_pop vm) (\<lambda>(b, vm). kbind (stack_pop vm) (\<lambda>(a, vm). kbind (binop i a b) (\<lambda>v. stack_push v vm)))"

definition exec_unop :: "(u64 \<Rightarrow> u64) \<Rightarrow> vm_instance \<Rightarrow> vm_instance kres" where
  "exec_unop f vm = kbind (stack_pop vm) (\<lambda>(a, vm). stack_push (f a) vm)"

definition exec :: "vm_env \<Rightarrow> instruction \<Rightarrow> vm_instance \<Rightarrow> vm_instance kres" where
  "exec e i vm =
     (case i of
        GLOBAL_RESERVE \<Rightarrow> exec_declare e i vm
      | VARIABLE \<Rightarrow> exec_declare e i vm
      | ASSIGN \<Rightarrow> exec_assign vm
      | ASSIGN_INDEXED \<Rightarrow> exec_assign_indexed vm
      | LOAD \<Rightarrow> exec_load vm
      | LOAD_INDEXED \<Rightarrow> exec_load_indexed vm
      | STRING \<Rightarrow> exec_string vm
      | NUMBER \<Rightarrow> exec_number vm
      | GOTO \<Rightarrow> Inr (exec_goto vm)
      | GOTO_TRUE \<Rightarrow> exec_goto_if i vm
      | GOTO_FALSE \<Rightarrow> exec_goto_if i vm
      | INVOKE \<Rightarrow> exec_invoke vm
      | INVOKE_NATIVE \<Rightarrow> exec_invoke_native e vm
      | RETURN \<Rightarrow> exec_return vm
      | INCREASE \<Rightarrow> exec_step_var i vm
      | DECREASE \<Rightarrow> exec_step_var i vm
      | INVERT \<Rightarrow> exec_unop (\<lambda>a. bool64 (a = 0)) vm
      | NOT_I \<Rightarrow> exec_unop (\<lambda>a. NOT a) vm
      | NORETURN \<Rightarrow> Inr (upd_frame (\<lambda>f. f\<lparr>noreturn := True\<rparr>) vm)
      | DELETE \<Rightarrow> kbind (stack_pop vm) (\<lambda>(_, vm). Inr vm)
      | CHANGE_SIGN \<Rightarrow> exec_unop (\<lambda>a. - a) vm
      | _ \<Rightarrow> exec_binop i vm)"

definition vm_step :: "vm_env \<Rightarrow> vm_instance \<Rightarrow> vm_instance kres" where
  "vm_step e vm =
     (let (op, vm) = fetch_u8 vm
      in if unat op < length instructions then exec e (instructions ! unat op) vm
         else Inl (Abort ''Invalid instruction''))"

text \<open>The program may run forever: then \<open>invoke\<close> is \<open>None\<close>.\<close>

partial_function (option) run_loop :: "vm_env \<Rightarrow> vm_instance \<Rightarrow> vm_instance kloop" where
  "run_loop e vm = (if running vm then kseq (Some (vm_step e vm)) (run_loop e) else Some (Inr vm))"

definition invoke :: "vm_env \<Rightarrow> u64 \<Rightarrow> vm_instance \<Rightarrow> vm_instance kloop" where
  "invoke e location vm = run_loop e (upd_frame (\<lambda>_. zero_frame) vm\<lparr>counter := location, running := True\<rparr>)"

section \<open>Creation\<close>

definition STACK :: nat where
  "STACK = 256"

definition vm_create :: "(nat \<Rightarrow> u64) \<Rightarrow> (u32 \<Rightarrow> u8) \<Rightarrow> u32 \<Rightarrow> u64 \<Rightarrow> vm_instance" where
  "vm_create fresh m c sz =
     (let vm = \<lparr>code = c, vm_stack = map fresh [0..<STACK], stack_ptr = 0, max_stack = STACK, global_variables = [],
            global_variable_types = [], counter = 0, call_stack = replicate MAX_CALL_DEPTH zero_frame, call_depth = 0,
            running = False, globals = 0, spark = 0, code_size = sz, mem = m, trace = []\<rparr>
      in vm\<lparr>globals := read_u64 vm (code_ptr vm) 8, spark := read_u64 vm (code_ptr vm) 0\<rparr>)"

definition vm_native_register :: "u32 \<Rightarrow> u32 \<Rightarrow> vm_env \<Rightarrow> vm_env" where
  "vm_native_register nid function e = e\<lparr>natives := natives e @ [(nid, function)]\<rparr>"

end
