(* ===== verification/Bytes.thy ===== *)
theory Bytes
  imports Prelude
begin

text \<open>
  Little-endian bytes of numbers, as the processor stores the fields of packed structures, and
  their round trip.
\<close>

fun le_bytes :: "nat \<Rightarrow> u64 \<Rightarrow> u8 list" where
  "le_bytes 0 v = []"
| "le_bytes (Suc n) v = ucast v # le_bytes n (v div 256)"

lemma length_le_bytes [simp]: "length (le_bytes n v) = n"
  by (induction n arbitrary: v) simp_all

lemma low_byte: "ucast (ucast v :: u8) = take_bit 8 (v :: u64)"
  by (simp add: unsigned_ucast_eq)

lemma le_step: "ucast (ucast v :: u8) + 256 * take_bit (8 * n) (v div 256) = take_bit (8 * Suc n) (v :: u64)"
proof -
  define w where "w = take_bit (8 * Suc n) v"
  have "v div 256 = drop_bit 8 v" by (simp add: drop_bit_eq_div)
  then have "take_bit (8 * n) (v div 256) = drop_bit 8 w" by (simp add: w_def drop_bit_take_bit)
  moreover have "take_bit 8 v = take_bit 8 w" by (simp add: w_def)
  ultimately have "ucast (ucast v :: u8) + 256 * take_bit (8 * n) (v div 256) = take_bit 8 w + 256 * drop_bit 8 w"
    by (simp only: low_byte)
  also have "\<dots> = push_bit 8 (drop_bit 8 w) + take_bit 8 w" by (simp add: push_bit_eq_mult mult.commute)
  also have "\<dots> = w" by (rule bits_ident)
  finally show ?thesis by (simp add: w_def)
qed

fun le_val :: "u8 list \<Rightarrow> u64" where
  "le_val [] = 0"
| "le_val (b # bs) = ucast b + 256 * le_val bs"

lemma le_val_bytes: "le_val (le_bytes n v) = take_bit (8 * n) v"
proof (induction n arbitrary: v)
  case (Suc n)
  then show ?case using le_step [of v n] by simp
qed simp

text \<open>The \<open>n\<close> bytes at offset \<open>i\<close> of a buffer.\<close>

definition field :: "nat \<Rightarrow> nat \<Rightarrow> u8 list \<Rightarrow> u64" where
  "field i n bs = le_val (take n (drop i bs))"

lemma field_here: "i = length xs \<Longrightarrow> field i n (xs @ le_bytes n v @ ys) = take_bit (8 * n) v"
  by (simp add: field_def le_val_bytes)

lemma field_skip: "length xs \<le> i \<Longrightarrow> field i n (xs @ ys) = field (i - length xs) n ys"
  by (simp add: field_def)

lemma field_first: "n \<le> length xs \<Longrightarrow> i + n \<le> length xs \<Longrightarrow> field i n (xs @ ys) = field i n xs"
  by (simp add: field_def)

end
