(* ===== verification/Flvm_Exec.thy ===== *)
theory Flvm_Exec
  imports Flvm Bytes
begin

text \<open>
  The byte-code machine computes what expressions mean. The meaning is given here over the integers and without
  the machine: signed 64-bit arithmetic, truth values, division that rounds towards zero, shifts as products and quotients.
  The byte codes are those of the enumeration in \<open>flvm.h\<close>, written out.
\<close>

section \<open>Encoded numbers\<close>

lemma read_le_bytes:
  "(\<And>k. k < n \<Longrightarrow> m (a + of_nat k) = le_bytes n v ! k) \<Longrightarrow> read_le m a n = take_bit (8 * n) v"
proof (induction n arbitrary: a v)
  case (Suc n)
  have "m a = ucast v" using Suc.prems [of 0] by simp
  moreover have "read_le m (a + 1) n = take_bit (8 * n) (v div 256)"
  proof (rule Suc.IH)
    fix k assume "k < n"
    then show "m (a + 1 + of_nat k) = le_bytes n (v div 256) ! k" using Suc.prems [of "Suc k"] by (simp add: ac_simps)
  qed
  ultimately show ?case using le_step [of v n] by simp
qed simp

lemma ucast_plus_nat: "ucast (x + of_nat k :: u64) = (ucast x + of_nat k :: u32)"
proof -
  have *: "(of_nat (n mod 2 ^ 64) :: u32) = of_nat n" for n
    by (simp add: word_of_nat_eq_iff take_bit_eq_mod mod_mod_cancel)
  have u: "(ucast y :: u32) = of_nat (unat y)" for y :: u64 by simp
  have "unat (x + of_nat k) = (unat x + k) mod 2 ^ 64"
    by (simp add: unat_word_ariths unat_of_nat mod_simps)
  then have "(ucast (x + of_nat k) :: u32) = of_nat (unat x + k)" by (simp only: u *)
  then show ?thesis by (simp only: u of_nat_add)
qed

lemma mem_addr_add: "mem_addr p (a + of_nat k) = mem_addr p a + of_nat k"
  using ucast_plus_nat [of "p + a" k] by (simp add: mem_addr_def add.assoc)

section \<open>Expressions\<close>

datatype binary = Plus | Minus | Times | Quotient | Remainder | Below | AtMost | Above | AtLeast | Same | Differs
  | ShiftUp | ShiftDown | BitOr | BitAnd | BitXor

datatype unary = Negation | Complement | Opposite

datatype expr = Num int | Var u64 | Op2 binary expr expr | Op1 unary expr

text \<open>The integer from \<open>-2 ^ 63\<close> on that is the same modulo \<open>2 ^ 64\<close>.\<close>

definition wrap64 :: "int \<Rightarrow> int" where
  "wrap64 x = (x + 2 ^ 63) mod 2 ^ 64 - 2 ^ 63"

definition truth :: "bool \<Rightarrow> int" where
  "truth p = (if p then 1 else 0)"

definition shifting :: "int \<Rightarrow> 'a \<Rightarrow> 'a kres" where
  "shifting b x = (if 0 \<le> b \<and> b < 64 then Inr x else Inl (Abort ''shift''))"

fun operate :: "binary \<Rightarrow> int \<Rightarrow> int \<Rightarrow> int kres" where
  "operate Plus a b = Inr (wrap64 (a + b))"
| "operate Minus a b = Inr (wrap64 (a - b))"
| "operate Times a b = Inr (wrap64 (a * b))"
| "operate Quotient a b = (if b = 0 then Inl DivideError else Inr (wrap64 (sgn a * sgn b * (\<bar>a\<bar> div \<bar>b\<bar>))))"
| "operate Remainder a b = (if b = 0 then Inl DivideError else Inr (sgn a * (\<bar>a\<bar> mod \<bar>b\<bar>)))"
| "operate Below a b = Inr (truth (a < b))"
| "operate AtMost a b = Inr (truth (a \<le> b))"
| "operate Above a b = Inr (truth (b < a))"
| "operate AtLeast a b = Inr (truth (b \<le> a))"
| "operate Same a b = Inr (truth (a = b))"
| "operate Differs a b = Inr (truth (a \<noteq> b))"
| "operate ShiftUp a b = shifting b (wrap64 (a * 2 ^ nat b))"
| "operate ShiftDown a b = shifting b (a div 2 ^ nat b)"
| "operate BitOr a b = Inr (a OR b)"
| "operate BitAnd a b = Inr (a AND b)"
| "operate BitXor a b = Inr (a XOR b)"

fun modify :: "unary \<Rightarrow> int \<Rightarrow> int" where
  "modify Negation a = truth (a = 0)"
| "modify Complement a = - a - 1"
| "modify Opposite a = wrap64 (- a)"

text \<open>The variables: 256 of the frame, then the globals.\<close>

definition variable_value :: "vm_instance \<Rightarrow> nat \<Rightarrow> int kres" where
  "variable_value vm k =
     (if k < 256 then Inr (sint (variables (call_stack vm ! call_depth vm) ! k))
      else if k - 256 < length (global_variables vm) then Inr (sint (global_variables vm ! (k - 256))) else Inl OutOfBounds)"

text \<open>The value of an expression over the variables of a machine, or the fault it ends in.\<close>

fun eval :: "vm_instance \<Rightarrow> expr \<Rightarrow> int kres" where
  "eval vm (Num n) = Inr (wrap64 n)"
| "eval vm (Var i) = variable_value vm (unat i)"
| "eval vm (Op2 f a b) = kbind (eval vm a) (\<lambda>x. kbind (eval vm b) (operate f x))"
| "eval vm (Op1 f a) = kbind (eval vm a) (\<lambda>x. Inr (modify f x))"

section \<open>Code\<close>

fun binary_code :: "binary \<Rightarrow> u8" where
  "binary_code Plus = 16" | "binary_code Minus = 17" | "binary_code Times = 18" | "binary_code Quotient = 19"
| "binary_code Remainder = 20" | "binary_code Below = 21" | "binary_code AtMost = 22" | "binary_code Above = 23"
| "binary_code AtLeast = 24" | "binary_code Same = 25" | "binary_code Differs = 26" | "binary_code ShiftUp = 28"
| "binary_code ShiftDown = 29" | "binary_code BitOr = 30" | "binary_code BitAnd = 31" | "binary_code BitXor = 32"

fun unary_code :: "unary \<Rightarrow> u8" where
  "unary_code Negation = 27" | "unary_code Complement = 33" | "unary_code Opposite = 36"

definition LOAD_CODE :: u8 where
  "LOAD_CODE = 3"

definition NUMBER_CODE :: u8 where
  "NUMBER_CODE = 5"

definition RETURN_CODE :: u8 where
  "RETURN_CODE = 12"

fun assemble :: "expr \<Rightarrow> u8 list" where
  "assemble (Num n) = NUMBER_CODE # le_bytes 8 (word_of_int n :: u64)"
| "assemble (Var i) = LOAD_CODE # le_bytes 8 i"
| "assemble (Op2 f a b) = assemble a @ assemble b @ [binary_code f]"
| "assemble (Op1 f a) = assemble a @ [unary_code f]"

text \<open>The stack cells the code needs.\<close>

fun cells :: "expr \<Rightarrow> nat" where
  "cells (Num n) = 1"
| "cells (Var i) = 1"
| "cells (Op2 f a b) = max (cells a) (Suc (cells b))"
| "cells (Op1 f a) = cells a"

section \<open>Integers and cells\<close>

lemma sint_wrap64: "sint (word_of_int k :: u64) = wrap64 k"
  by (simp add: wrap64_def int_word_sint)

lemma wrap64_cell [simp]: "(word_of_int (wrap64 k) :: u64) = word_of_int k"
  by (simp add: sint_wrap64 [symmetric])

text \<open>An integer that is the value of a cell.\<close>

definition fits_cell :: "int \<Rightarrow> bool" where
  "fits_cell k \<longleftrightarrow> sint (word_of_int k :: u64) = k"

lemma fits_cell [simp]: "fits_cell (wrap64 k)" "fits_cell (sint (w :: u64))" "fits_cell (truth p)"
  by (simp_all add: fits_cell_def sint_wrap64 [symmetric] truth_def)

fun binary_instruction :: "binary \<Rightarrow> instruction" where
  "binary_instruction Plus = ADD" | "binary_instruction Minus = SUB" | "binary_instruction Times = MUL"
| "binary_instruction Quotient = DIV" | "binary_instruction Remainder = MOD" | "binary_instruction Below = LESS"
| "binary_instruction AtMost = LESS_EQUALS" | "binary_instruction Above = MORE" | "binary_instruction AtLeast = MORE_EQUALS"
| "binary_instruction Same = EQUALS" | "binary_instruction Differs = NOT_EQUALS" | "binary_instruction ShiftUp = SHIFT_LEFT"
| "binary_instruction ShiftDown = SHIFT_RIGHT" | "binary_instruction BitOr = OR_I" | "binary_instruction BitAnd = AND_I"
| "binary_instruction BitXor = XOR_I"

fun unary_instruction :: "unary \<Rightarrow> instruction" where
  "unary_instruction Negation = INVERT" | "unary_instruction Complement = NOT_I" | "unary_instruction Opposite = CHANGE_SIGN"

lemma fits_cell_bounds: "- (2 ^ 63) \<le> k \<Longrightarrow> k < 2 ^ 63 \<Longrightarrow> fits_cell k"
  unfolding fits_cell_def sint_wrap64 wrap64_def by (subst mod_pos_pos_trivial) simp_all

lemma sint_range: "- (2 ^ 63) \<le> sint (x :: u64)" "sint (x :: u64) < 2 ^ 63"
  using sint_greater_eq [of x] sint_less [of x] by simp_all

lemma fits_cell_remainder: "fits_cell (sgn (sint (x :: u64)) * (\<bar>sint x\<bar> mod b))" if "0 < b"
proof (rule fits_cell_bounds)
  have m: "0 \<le> \<bar>sint x\<bar> mod b" "\<bar>sint x\<bar> mod b \<le> \<bar>sint x\<bar>" using that by (simp_all add: zmod_le_nonneg_dividend)
  then show "- (2 ^ 63) \<le> sgn (sint x) * (\<bar>sint x\<bar> mod b)" "sgn (sint x) * (\<bar>sint x\<bar> mod b) < 2 ^ 63"
    using sint_range [of x] by (cases "0 \<le> sint x"; auto simp: sgn_if)+
qed

lemma fits_cell_bits:
  "fits_cell (sint (x :: u64) OR sint (y :: u64))" "fits_cell (sint x AND sint y)" "fits_cell (sint x XOR sint y)"
  "fits_cell (sint x div 2 ^ n)"
  using fits_cell(2) [of "x OR y"] fits_cell(2) [of "x AND y"] fits_cell(2) [of "x XOR y"] fits_cell(2) [of "signed_drop_bit n x"]
  by (simp_all add: signed_or_eq signed_and_eq signed_xor_eq sint_signed_drop_bit_eq drop_bit_eq_div)

lemma operate_fits: "operate f (sint (x :: u64)) (sint (y :: u64)) = Inr v \<Longrightarrow> fits_cell v"
  by (cases f) (auto simp: fits_cell_remainder fits_cell_bits shifting_def split: if_splits)

lemma modify_fits: "fits_cell (modify f (sint (x :: u64)))"
proof (cases f)
  case Complement
  have "fits_cell (- sint x - 1)" using sint_range [of x] by (intro fits_cell_bounds) linarith+
  then show ?thesis by (simp add: Complement)
qed simp_all

lemma shift_dist_sint: "shift_dist y = shifting (sint y) (nat (sint y))"
proof -
  have u: "int (unat y) = sint y mod 2 ^ 64" using uint_sint [of y] by (simp add: take_bit_eq_mod)
  have "sint y mod 2 ^ 64 = (if 0 \<le> sint y then sint y else sint y + 2 ^ 64)"
    using sint_range [of y] mod_pos_pos_trivial [of "sint y + 2 ^ 64" "2 ^ 64"] mod_pos_pos_trivial [of "sint y" "2 ^ 64"] by auto
  with u have i: "int (unat y) = (if 0 \<le> sint y then sint y else sint y + 2 ^ 64)" by simp
  have "unat y = nat (sint y) \<and> 0 \<le> sint y \<or> 64 \<le> unat y \<and> sint y < 0"
  proof (cases "0 \<le> sint y")
    case True
    then have "int (unat y) = sint y" using i by simp
    with True show ?thesis by linarith
  next
    case False
    then have "64 \<le> int (unat y)" using i sint_range(1) [of y] by simp
    with False show ?thesis by linarith
  qed
  then show ?thesis by (auto simp: shift_dist_def shifting_def)
qed

lemma cell_bits:
  "word_of_int (sint (x :: u64) OR sint y) = x OR y" "word_of_int (sint (x :: u64) AND sint y) = x AND y"
  "word_of_int (sint (x :: u64) XOR sint y) = x XOR y" "word_of_int (sint (x :: u64) div 2 ^ n) = signed_drop_bit n x"
  "word_of_int (sint (x :: u64) * 2 ^ n) = push_bit n x"
proof -
  show "word_of_int (sint (x :: u64) OR sint y) = x OR y" "word_of_int (sint (x :: u64) AND sint y) = x AND y"
    "word_of_int (sint (x :: u64) XOR sint y) = x XOR y"
    by (simp_all add: signed_or_eq [symmetric] signed_and_eq [symmetric] signed_xor_eq [symmetric])
  show "word_of_int (sint (x :: u64) div 2 ^ n) = signed_drop_bit n x"
    by (simp add: drop_bit_eq_div [symmetric] sint_signed_drop_bit_eq [symmetric])
  show "word_of_int (sint (x :: u64) * 2 ^ n) = push_bit n x" by (simp add: push_bit_eq_mult)
qed

lemma binop_meaning: "binop (binary_instruction f) x y = kbind (operate f (sint x) (sint y)) (\<lambda>v. Inr (word_of_int v))"
proof -
  have eq: "x = y \<longleftrightarrow> sint x = sint y" by (rule word_eq_iff_signed)
  have z: "y = 0 \<longleftrightarrow> sint y = 0" using word_eq_iff_signed [of y 0] by simp
  show ?thesis
    by (cases f) (simp_all add: z push_bit_eq_mult binop_def truth_def bool64_def shift_dist_sint shifting_def cell_bits
      signed_divide_int_def signed_modulo_int_def eq)
qed

lemma cells_pos: "0 < cells ex"
  by (induction ex) auto

definition code_at :: "vm_instance \<Rightarrow> u64 \<Rightarrow> u8 list \<Rightarrow> bool" where
  "code_at vm a bs \<longleftrightarrow> (\<forall>k<length bs. read_u8 vm (code_ptr vm) (a + of_nat k) = bs ! k)"

lemma code_at_append: "code_at vm a (xs @ ys) \<longleftrightarrow> code_at vm a xs \<and> code_at vm (a + of_nat (length xs)) ys"
proof -
  have "(\<forall>k<length xs + length ys. P k) \<longleftrightarrow> (\<forall>k<length xs. P k) \<and> (\<forall>k<length ys. P (length xs + k))" for P
  proof (intro iffI allI conjI impI)
    fix k assume *: "(\<forall>k<length xs. P k) \<and> (\<forall>k<length ys. P (length xs + k))" "k < length xs + length ys"
    then show "P k" by (cases "k < length xs") (auto dest: spec [of _ "k - length xs"])
  qed auto
  from this [of "\<lambda>k. read_u8 vm (code_ptr vm) (a + of_nat k) = (xs @ ys) ! k"] show ?thesis
    by (simp add: code_at_def nth_append add.assoc)
qed

lemma code_at_Cons: "code_at vm a (b # bs) \<longleftrightarrow> read_u8 vm (code_ptr vm) a = b \<and> code_at vm (a + 1) bs"
  using code_at_append [of vm a "[b]" bs] by (simp add: code_at_def)

lemma code_at_u64: "code_at vm a (le_bytes 8 v) \<Longrightarrow> read_u64 vm (code_ptr vm) a = v"
  unfolding read_u64_def
  by (subst read_le_bytes [where v = v]) (simp_all add: code_at_def read_u8_def mem_addr_add take_bit_length_eq [where 'a = 64, simplified])

text \<open>The byte codes are those of the table of the machine.\<close>

definition decodes :: "u8 \<Rightarrow> instruction \<Rightarrow> bool" where
  "decodes b i \<longleftrightarrow> unat b < length instructions \<and> instructions ! unat b = i"

lemma codes: "decodes (binary_code f) (binary_instruction f)" "decodes (unary_code g) (unary_instruction g)"
    "decodes LOAD_CODE LOAD" "decodes NUMBER_CODE NUMBER" "decodes RETURN_CODE RETURN"
proof -
  show "decodes (binary_code f) (binary_instruction f)" by (cases f; simp only:; code_simp)
  show "decodes (unary_code g) (unary_instruction g)" by (cases g; simp only:; code_simp)
qed code_simp+

section \<open>Execution of expressions\<close>

text \<open>One instruction of a running machine.\<close>

lemma run_instr:
  assumes "running vm" and "code_at vm (counter vm) (b # bs)" and "decodes b i"
  shows "run_loop e vm = kseq (Some (exec e i (vm\<lparr>counter := counter vm + 1\<rparr>))) (run_loop e)"
proof -
  have "vm_step e vm = exec e i (vm\<lparr>counter := counter vm + 1\<rparr>)"
    using assms(2,3) by (simp add: vm_step_def fetch_u8_def code_at_Cons decodes_def)
  then show ?thesis using assms(1) by (subst run_loop.simps) simp
qed

lemma code_at_same [simp]:
  "code_at (vm\<lparr>counter := c\<rparr>) a bs = code_at vm a bs"
  "code_at (vm\<lparr>vm_stack := st\<rparr>) a bs = code_at vm a bs"
  "code_at (vm\<lparr>stack_ptr := p\<rparr>) a bs = code_at vm a bs"
  "code_at (vm\<lparr>running := r\<rparr>) a bs = code_at vm a bs"
  "code_at (upd_frame f vm) a bs = code_at vm a bs"
  by (simp_all add: code_at_def read_u8_def code_ptr_def upd_frame_def)

lemma operand_at:
  "code_at vm (counter vm) (le_bytes 8 n) \<Longrightarrow> operand vm = (n, vm\<lparr>counter := counter vm + 8\<rparr>)"
  by (simp add: operand_def code_at_u64)

lemma eval_same [simp]:
  "eval (vm\<lparr>counter := c\<rparr>) ex = eval vm ex"
  "eval (vm\<lparr>vm_stack := st\<rparr>) ex = eval vm ex"
  "eval (vm\<lparr>stack_ptr := p\<rparr>) ex = eval vm ex"
  by (induction ex) (simp_all add: variable_value_def)

lemma get_var_value:
  "get_var i vm = kbind (variable_value vm (unat i)) (\<lambda>v. Inr (word_of_int v))" "variable_value vm k = Inr v \<Longrightarrow> fits_cell v"
  by (auto simp: get_var_def variable_value_def selectVariable_def frame_def word_le_nat_alt not_le unat_sub split: if_splits)

lemma eval_fits: "eval vm ex = Inr v \<Longrightarrow> fits_cell v"
proof (induction ex arbitrary: v)
  case (Op2 f a b)
  then obtain x y where "eval vm a = Inr x" "eval vm b = Inr y" "operate f x y = Inr v" by (auto elim!: kbind_InrE)
  with Op2.IH operate_fits [of f "word_of_int x" "word_of_int y" v] show ?case by (auto simp: fits_cell_def)
next
  case (Op1 f a)
  then obtain x where "eval vm a = Inr x" "v = modify f x" by (auto elim!: kbind_InrE)
  with Op1.IH modify_fits [of f "word_of_int x"] show ?case by (auto simp: fits_cell_def)
qed (auto simp: get_var_value(2))

text \<open>The machine after an expression left its value on the stack \<open>st\<close>.\<close>

definition pushed :: "u64 \<Rightarrow> u64 list \<Rightarrow> u64 \<Rightarrow> vm_instance \<Rightarrow> vm_instance \<Rightarrow> bool" where
  "pushed n st v vm vm' \<longleftrightarrow>
     vm' = vm\<lparr>counter := counter vm + n, vm_stack := st, stack_ptr := stack_ptr vm + 1\<rparr> \<and>
     length st = length (vm_stack vm) \<and> take (stack_ptr vm + 1) st = take (stack_ptr vm) (vm_stack vm) @ [v]"

lemma pushed_top: "pushed n st v vm vm' \<Longrightarrow> stack_ptr vm < length (vm_stack vm) \<Longrightarrow> st ! stack_ptr vm = v"
proof -
  assume p: "pushed n st v vm vm'" and l: "stack_ptr vm < length (vm_stack vm)"
  have "st ! stack_ptr vm = take (stack_ptr vm + 1) st ! stack_ptr vm" by simp
  also have "\<dots> = v" using p l by (simp add: pushed_def nth_append del: take_Suc_conv_app_nth)
  finally show ?thesis .
qed

lemma pushed_exec:
  assumes "stack_ptr vm < length (vm_stack vm)"
  shows "\<exists>st vm'. stack_push v (vm\<lparr>counter := counter vm + n\<rparr>) = Inr vm' \<and> pushed n st v vm vm'"
  using assms
  by (intro exI [of _ "(vm_stack vm)[stack_ptr vm := v]"]) (simp add: stack_push_def pushed_def take_Suc_conv_app_nth)

lemma exec_op1:
  assumes "stack_ptr vm < length (vm_stack vm)" and "pushed n st v vm vm1"
  shows "\<exists>st' vm2. exec e (unary_instruction f) (vm1\<lparr>counter := counter vm1 + 1\<rparr>) = Inr vm2 \<and>
    pushed (n + 1) st' (word_of_int (modify f (sint v))) vm vm2"
proof (intro exI conjI)
  define r where "r = (word_of_int (modify f (sint v)) :: u64)"
  define st' where "st' = st[stack_ptr vm := r]"
  have vm1: "vm1 = vm\<lparr>counter := counter vm + n, vm_stack := st, stack_ptr := stack_ptr vm + 1\<rparr>"
      and len: "length st = length (vm_stack vm)" using assms(2) by (simp_all add: pushed_def)
  have eq: "take (stack_ptr vm + 1) st = take (stack_ptr vm) (vm_stack vm) @ [v]" using assms(2) by (simp add: pushed_def)
  have "take (stack_ptr vm) st = take (stack_ptr vm) (take (stack_ptr vm + 1) st)" by simp
  also have "\<dots> = take (stack_ptr vm) (vm_stack vm)" unfolding eq using assms(1) by simp
  finally have "take (stack_ptr vm) st = take (stack_ptr vm) (vm_stack vm)" .
  then have "take (stack_ptr vm + 1) st' = take (stack_ptr vm) (vm_stack vm) @ [r]"
    using assms(1) len by (simp add: st'_def take_Suc_conv_app_nth)
  then show "pushed (n + 1) st' (word_of_int (modify f (sint v))) vm (vm\<lparr>counter := counter vm + (n + 1), vm_stack := st', stack_ptr := stack_ptr vm + 1\<rparr>)"
    using len by (simp add: pushed_def st'_def r_def)
  have not0: "v = 0 \<longleftrightarrow> sint v = 0" using word_eq_iff_signed [of v 0] by simp
  have neg: "NOT v = word_of_int (- sint v - 1)" by (simp add: not_eq_complement)
  show "exec e (unary_instruction f) (vm1\<lparr>counter := counter vm1 + 1\<rparr>) =
      Inr (vm\<lparr>counter := counter vm + (n + 1), vm_stack := st', stack_ptr := stack_ptr vm + 1\<rparr>)"
    using assms(1) len pushed_top [OF assms(2,1)]
    by (cases f) (simp_all add: exec_def exec_unop_def stack_pop_def stack_push_def vm1 st'_def r_def truth_def bool64_def not0 neg add.assoc)
qed

lemma exec_op2:
  assumes room: "stack_ptr vm + 1 < length (vm_stack vm)"
    and p1: "pushed n st x vm vm1" and p2: "pushed k st2 y vm1 vm2"
  shows "case operate g (sint x) (sint y) of Inl f \<Rightarrow> exec e (binary_instruction g) (vm2\<lparr>counter := counter vm2 + 1\<rparr>) = Inl f
    | Inr v \<Rightarrow> \<exists>st' vm3. exec e (binary_instruction g) (vm2\<lparr>counter := counter vm2 + 1\<rparr>) = Inr vm3 \<and>
        pushed (n + k + 1) st' (word_of_int v) vm vm3"
proof -
  have vm1: "vm1 = vm\<lparr>counter := counter vm + n, vm_stack := st, stack_ptr := stack_ptr vm + 1\<rparr>"
      and len: "length st = length (vm_stack vm)" using p1 by (simp_all add: pushed_def)
  then have vm2: "vm2 = vm\<lparr>counter := counter vm + n + k, vm_stack := st2, stack_ptr := stack_ptr vm + 2\<rparr>"
      and len2: "length st2 = length (vm_stack vm)"
      and t2: "take (stack_ptr vm + 2) st2 = take (stack_ptr vm + 1) st @ [y]" using p2 by (simp_all add: pushed_def)
  have t1: "take (stack_ptr vm + 1) st = take (stack_ptr vm) (vm_stack vm) @ [x]" using p1 by (simp add: pushed_def)
  have eq: "take (stack_ptr vm + 2) st2 = take (stack_ptr vm) (vm_stack vm) @ [x, y]" using t1 t2 by simp
  have "st2 ! stack_ptr vm = take (stack_ptr vm + 2) st2 ! stack_ptr vm" by simp
  also have "\<dots> = x" unfolding eq using room by (simp add: nth_append)
  finally have x: "st2 ! stack_ptr vm = x" .
  have "st2 ! (stack_ptr vm + 1) = take (stack_ptr vm + 2) st2 ! (stack_ptr vm + 1)" by simp
  also have "\<dots> = y" unfolding eq using room by (simp add: nth_append)
  finally have y: "st2 ! (stack_ptr vm + 1) = y" .
  have "take (stack_ptr vm) st2 = take (stack_ptr vm) (take (stack_ptr vm + 2) st2)" by simp
  also have "\<dots> = take (stack_ptr vm) (vm_stack vm)" unfolding eq using room by simp
  finally have low: "take (stack_ptr vm) st2 = take (stack_ptr vm) (vm_stack vm)" .
  have "exec e (binary_instruction g) (vm2\<lparr>counter := counter vm2 + 1\<rparr>) = kbind (binop (binary_instruction g) x y) (\<lambda>v.
      Inr (vm\<lparr>counter := counter vm + (n + k + 1), vm_stack := st2[stack_ptr vm := v], stack_ptr := stack_ptr vm + 1\<rparr>))"
    using room len2 x y
    by (cases g) (simp_all add: exec_def exec_binop_def stack_pop_def stack_push_def vm2 add.assoc)
  note ex = this [unfolded binop_meaning kbind_assoc kbind_Inr]
  show ?thesis
  proof (cases "operate g (sint x) (sint y)")
    case (Inr v)
    have "take (stack_ptr vm + 1) (st2[stack_ptr vm := word_of_int v]) = take (stack_ptr vm) (vm_stack vm) @ [word_of_int v]"
      using room len2 low by (simp add: take_Suc_conv_app_nth)
    then show ?thesis using Inr ex len2 by (auto simp: pushed_def)
  qed (simp add: ex)
qed

lemma pushed_same:
  assumes "pushed n st v vm vm'"
  shows "running vm' = running vm" "counter vm' = counter vm + n" "stack_ptr vm' = stack_ptr vm + 1"
    "length (vm_stack vm') = length (vm_stack vm)" "code_at vm' a bs = code_at vm a bs" "eval vm' ex = eval vm ex"
  using assms by (simp_all add: pushed_def)

lemma run_expr:
  assumes "running vm" and "code_at vm (counter vm) (assemble ex)"
    and "stack_ptr vm + cells ex \<le> length (vm_stack vm)"
  shows "case eval vm ex of Inl f \<Rightarrow> run_loop e vm = Some (Inl f)
    | Inr v \<Rightarrow> \<exists>st vm'. pushed (of_nat (length (assemble ex))) st (word_of_int v) vm vm' \<and> run_loop e vm = run_loop e vm'"
  using assms
proof (induction ex arbitrary: vm)
  case (Num n)
  then have ops: "code_at vm (counter vm + 1) (le_bytes 8 (word_of_int n :: u64))" and room: "stack_ptr vm < length (vm_stack vm)"
    by (simp_all add: code_at_Cons)
  obtain st vm' where p: "stack_push (word_of_int n) (vm\<lparr>counter := counter vm + 9\<rparr>) = Inr vm'" "pushed 9 st (word_of_int n) vm vm'"
    using pushed_exec [OF room] by blast
  have "exec e NUMBER (vm\<lparr>counter := counter vm + 1\<rparr>) = Inr vm'"
    using p(1) ops by (simp add: exec_def exec_number_def operand_at add.assoc)
  then have "run_loop e vm = run_loop e vm'" using Num by (simp add: run_instr [OF _ _ codes(4)])
  with p(2) show ?case by auto
next
  case (Var x)
  then have ops: "code_at vm (counter vm + 1) (le_bytes 8 x)" and room: "stack_ptr vm < length (vm_stack vm)"
    by (simp_all add: code_at_Cons)
  have get: "get_var x (vm\<lparr>counter := c\<rparr>) = get_var x vm" for c using eval_same(1) [of c vm "Var x"] by (simp add: get_var_value(1))
  have ex: "exec e LOAD (vm\<lparr>counter := counter vm + 1\<rparr>) = kbind (get_var x vm) (\<lambda>v. stack_push v (vm\<lparr>counter := counter vm + 9\<rparr>))"
    using ops by (simp add: exec_def exec_load_def operand_at add.assoc get)
  have step: "run_loop e vm = kseq (Some (exec e LOAD (vm\<lparr>counter := counter vm + 1\<rparr>))) (run_loop e)"
    using Var by (simp add: run_instr [OF _ _ codes(3)])
  show ?case
  proof (cases "variable_value vm (unat x)")
    case (Inl f)
    then show ?thesis using step ex by (simp add: get_var_value(1))
  next
    case (Inr v)
    obtain st vm' where p: "stack_push (word_of_int v) (vm\<lparr>counter := counter vm + 9\<rparr>) = Inr vm'" "pushed 9 st (word_of_int v) vm vm'"
      using pushed_exec [OF room] by blast
    with Inr show ?thesis using step ex by (auto simp: get_var_value(1))
  qed
next
  case (Op1 i a)
  then have at: "code_at vm (counter vm) (assemble a)" "code_at vm (counter vm + of_nat (length (assemble a))) [unary_code i]"
      and room: "stack_ptr vm + cells a \<le> length (vm_stack vm)"
    by (simp_all add: code_at_append)
  note IH = Op1.IH [OF Op1.prems(1) at(1) room]
  show ?case
  proof (cases "eval vm a")
    case (Inl f)
    then show ?thesis using IH by simp
  next
    case (Inr v)
    then obtain st vm1 where p: "pushed (of_nat (length (assemble a))) st (word_of_int v) vm vm1" "run_loop e vm = run_loop e vm1"
      using IH by auto
    have "stack_ptr vm < length (vm_stack vm)" using room cells_pos [of a] by linarith
    from exec_op1 [OF this p(1)] eval_fits [OF Inr] obtain st' vm2 where
      2: "exec e (unary_instruction i) (vm1\<lparr>counter := counter vm1 + 1\<rparr>) = Inr vm2"
        "pushed (of_nat (length (assemble a)) + 1) st' (word_of_int (modify i v)) vm vm2"
      unfolding fits_cell_def by metis
    have "run_loop e vm1 = run_loop e vm2"
      using run_instr [OF _ _ codes(2), of vm1 i "[]" e] at(2) Op1.prems(1) 2(1) pushed_same [OF p(1)] by simp
    with p(2) 2(2) Inr show ?thesis by (auto simp: add.commute)
  qed
next
  case (Op2 i a b)
  define na nb where "na = (of_nat (length (assemble a)) :: u64)" and "nb = (of_nat (length (assemble b)) :: u64)"
  have at: "code_at vm (counter vm) (assemble a)" "code_at vm (counter vm + na) (assemble b)"
      "code_at vm (counter vm + na + nb) [binary_code i]"
    using Op2.prems(2) by (simp_all add: code_at_append na_def nb_def)
  have room: "stack_ptr vm + cells a \<le> length (vm_stack vm)" "stack_ptr vm + 1 + cells b \<le> length (vm_stack vm)"
    using Op2.prems(3) by auto
  note IHa = Op2.IH(1) [OF Op2.prems(1) at(1) room(1), folded na_def]
  show ?case
  proof (cases "eval vm a")
    case (Inl f)
    then show ?thesis using IHa by simp
  next
    case (Inr x)
    then obtain st vm1 where p: "pushed na st (word_of_int x) vm vm1" "run_loop e vm = run_loop e vm1" using IHa by auto
    note s1 = pushed_same [OF p(1)]
    have IHb: "case eval vm b of Inl f \<Rightarrow> run_loop e vm1 = Some (Inl f)
      | Inr v \<Rightarrow> \<exists>st vm'. pushed nb st (word_of_int v) vm1 vm' \<and> run_loop e vm1 = run_loop e vm'"
      using Op2.IH(2) [of vm1, folded nb_def] Op2.prems(1) at(2) room(2) s1 by simp
    show ?thesis
    proof (cases "eval vm b")
      case (Inl f)
      then show ?thesis using IHb Inr p(2) by simp
    next
      case y: (Inr y)
      then obtain st2 vm2 where p2: "pushed nb st2 (word_of_int y) vm1 vm2" "run_loop e vm1 = run_loop e vm2" using IHb by auto
      have r: "stack_ptr vm + 1 < length (vm_stack vm)" using room(2) cells_pos [of b] by linarith
      have xy: "sint (word_of_int x :: u64) = x" "sint (word_of_int y :: u64) = y"
        using eval_fits [OF Inr] eval_fits [OF y] by (simp_all add: fits_cell_def)
      note step = exec_op2 [OF r p(1) p2(1), of e i, unfolded xy]
      have run: "run_loop e vm2 = kseq (Some (exec e (binary_instruction i) (vm2\<lparr>counter := counter vm2 + 1\<rparr>))) (run_loop e)"
        using run_instr [OF _ _ codes(1), of vm2 i "[]" e] at(3) Op2.prems(1) s1 pushed_same [OF p2(1)] by simp
      have len: "of_nat (length (assemble (Op2 i a b))) = na + nb + 1" by (simp add: na_def nb_def)
      show ?thesis
        unfolding len using step run Inr y p(2) p2(2) by (cases "operate i x y") fastforce+
    qed
  qed
qed

section \<open>Properties\<close>

text \<open>The machine as \<open>invoke\<close> starts it.\<close>

definition entered :: "u64 \<Rightarrow> vm_instance \<Rightarrow> vm_instance" where
  "entered location vm = upd_frame (\<lambda>_. zero_frame) vm\<lparr>counter := location, running := True\<rparr>"

text \<open>
  C15. Compiled expressions. A machine that invokes the byte code of an expression, followed by \<open>RETURN\<close>,
  with enough room on its stack always stops. It stops with the value of the expression, as signed integers of 64 bits give it, on top
  of its stack and the cells below unchanged, or, when the expression divides by zero, shifts too
  far or reads a global that does not exist, with exactly that fault.
\<close>

theorem flvm_expression_correct:
  assumes "code_at vm loc (assemble ex @ [RETURN_CODE])"
    and "stack_ptr vm + cells ex \<le> length (vm_stack vm)" and "call_depth vm = 0" and "call_stack vm \<noteq> []"
  shows "case eval (entered loc vm) ex of
      Inl f \<Rightarrow> invoke e loc vm = Some (Inl f)
    | Inr v \<Rightarrow> \<exists>vm' c. invoke e loc vm = Some (Inr vm') \<and> \<not> running vm' \<and> stack_ptr vm' = stack_ptr vm + 1 \<and>
        take (stack_ptr vm') (vm_stack vm') = take (stack_ptr vm) (vm_stack vm) @ [c] \<and> sint c = v \<and>
        mem vm' = mem vm \<and> global_variables vm' = global_variables vm"
proof -
  define u where "u = entered loc vm"
  have u: "running u" "counter u = loc" "stack_ptr u = stack_ptr vm" "vm_stack u = vm_stack vm" "mem u = mem vm"
      "global_variables u = global_variables vm" "call_depth u = 0" "\<not> noreturn (frame u)"
    using assms(3,4) by (simp_all add: u_def entered_def upd_frame_def frame_def zero_frame_def)
  have at: "code_at u a bs = code_at vm a bs" for a bs by (simp add: u_def entered_def)
  have run: "case eval u ex of Inl f \<Rightarrow> run_loop e u = Some (Inl f)
    | Inr v \<Rightarrow> \<exists>st vm'. pushed (of_nat (length (assemble ex))) st (word_of_int v) u vm' \<and> run_loop e u = run_loop e vm'"
    using run_expr [OF u(1), of ex e] u at assms(1,2) by (simp add: code_at_append)
  have inv: "invoke e loc vm = run_loop e u" by (simp add: invoke_def u_def entered_def)
  show ?thesis
    unfolding u_def [symmetric]
  proof (cases "eval u ex")
    case (Inl f)
    then show "case eval u ex of Inl f \<Rightarrow> invoke e loc vm = Some (Inl f)
      | Inr v \<Rightarrow> \<exists>vm' c. invoke e loc vm = Some (Inr vm') \<and> \<not> running vm' \<and> stack_ptr vm' = stack_ptr vm + 1 \<and>
          take (stack_ptr vm') (vm_stack vm') = take (stack_ptr vm) (vm_stack vm) @ [c] \<and> sint c = v \<and>
          mem vm' = mem vm \<and> global_variables vm' = global_variables vm"
      using run inv by simp
  next
    case (Inr v)
    then obtain st w where w: "pushed (of_nat (length (assemble ex))) st (word_of_int v) u w" "run_loop e u = run_loop e w"
      using run by auto
    define z where "z = w\<lparr>counter := counter w + 1, running := False\<rparr>"
    have "exec e RETURN (w\<lparr>counter := counter w + 1\<rparr>) = Inr z"
      using w(1) u by (simp add: exec_def exec_return_def z_def pushed_def frame_def)
    then have "run_loop e w = run_loop e z"
      using run_instr [OF _ _ codes(5), of w "[]" e] pushed_same [OF w(1)] u assms(1) at by (simp add: code_at_append)
    also have "\<dots> = Some (Inr z)" by (subst run_loop.simps) (simp add: z_def)
    finally have "invoke e loc vm = Some (Inr z)" using inv w(2) by simp
    moreover have "\<not> running z \<and> stack_ptr z = stack_ptr vm + 1 \<and>
        take (stack_ptr z) (vm_stack z) = take (stack_ptr vm) (vm_stack vm) @ [word_of_int v] \<and> sint (word_of_int v :: u64) = v \<and>
        mem z = mem vm \<and> global_variables z = global_variables vm"
      using w(1) u eval_fits [OF Inr] by (simp add: z_def pushed_def fits_cell_def)
    ultimately show "case eval u ex of Inl f \<Rightarrow> invoke e loc vm = Some (Inl f)
      | Inr v \<Rightarrow> \<exists>vm' c. invoke e loc vm = Some (Inr vm') \<and> \<not> running vm' \<and> stack_ptr vm' = stack_ptr vm + 1 \<and>
          take (stack_ptr vm') (vm_stack vm') = take (stack_ptr vm) (vm_stack vm) @ [c] \<and> sint c = v \<and>
          mem vm' = mem vm \<and> global_variables vm' = global_variables vm"
      using Inr by auto
  qed
qed

text \<open>A machine whose code at address 24 computes \<open>(0 - 7) / 2 * 6\<close>.\<close>

definition demo_expr :: expr where
  "demo_expr = Op2 Times (Op2 Quotient (Op2 Minus (Num 0) (Num 7)) (Num 2)) (Num 6)"

definition demo_mem :: "u32 \<Rightarrow> u8" where
  "demo_mem a = (let k = unat a in if 24 \<le> k \<and> k < 64 then (assemble demo_expr @ [RETURN_CODE]) ! (k - 24) else 0)"

definition demo_vm :: vm_instance where
  "demo_vm = vm_create (\<lambda>_. 0) demo_mem 0 64"

definition demo_env :: vm_env where
  "demo_env = \<lparr>lib = \<lambda>_ _ m. (0, m), natives = [], native_call = \<lambda>_ _. Inl BadPointer, junk = \<lambda>_. 0\<rparr>"

lemma demo_code: "code_at demo_vm 24 (assemble demo_expr @ [RETURN_CODE])"
proof -
  have "length (assemble demo_expr @ [RETURN_CODE]) = 40" by (simp add: demo_expr_def)
  moreover have "read_u8 demo_vm (code_ptr demo_vm) (24 + of_nat k) = (assemble demo_expr @ [RETURN_CODE]) ! k" if "k < 40" for k
  proof -
    have "unat (mem_addr 0 (24 + of_nat k)) = 24 + k"
      using that ucast_plus_nat [of 24 k] by (simp add: mem_addr_def unat_word_ariths unat_of_nat)
    then show ?thesis using that
      by (simp add: read_u8_def code_ptr_def demo_vm_def vm_create_def Let_def demo_mem_def)
  qed
  ultimately show ?thesis by (simp only: code_at_def) simp
qed

theorem flvm_expression_correct_witness:
  "\<exists>vm' c. invoke demo_env 24 demo_vm = Some (Inr vm') \<and> stack_ptr vm' = 1 \<and> take 1 (vm_stack vm') = [c] \<and> sint c = - 18"
proof -
  have "eval (entered 24 demo_vm) demo_expr = Inr (- 18)" by (simp add: demo_expr_def wrap64_def)
  with flvm_expression_correct [OF demo_code, of demo_env] show ?thesis
    by (auto simp: demo_expr_def demo_vm_def vm_create_def Let_def MAX_CALL_DEPTH_def STACK_def)
qed

end
