(* ===== verification/Json.thy ===== *)
theory Json
  imports Prelude
begin

text \<open>
  The pull reader for JSON of \<open>user/libraries/libjson/reader.c\<close> and \<open>value.c\<close>.

  Pointers into the text are offsets into the buffer \<open>data\<close>; the null pointers of a new value are
  the offset 0 of the model and are overwritten before a value is returned. Reading a character
  behind the buffer is \<open>OutOfBounds\<close>. Allocations succeed.
\<close>

section \<open>State\<close>

record json_reader =
  data :: string
  current :: nat
  end_pos :: nat
  depth :: int
  json_error :: "string option"

datatype value_type =
    VALUE_ERROR | VALUE_END | VALUE_ARRAY | VALUE_OBJECT | VALUE_NUMBER | VALUE_STRING | VALUE_BOOL | VALUE_NULL

record json_value =
  vtype :: value_type
  vstart :: nat
  vend :: nat
  vdepth :: int

definition json_new_value :: "value_type \<Rightarrow> json_value" where
  "json_new_value t = \<lparr>vtype = t, vstart = 0, vend = 0, vdepth = 0\<rparr>"

definition json_new_reader :: "string \<Rightarrow> nat \<Rightarrow> json_reader" where
  "json_new_reader d len = \<lparr>data = d, current = 0, end_pos = len, depth = 0, json_error = None\<rparr>"

section \<open>Characters\<close>

definition is_digit_chr :: "char \<Rightarrow> bool" where
  "is_digit_chr c \<longleftrightarrow> 48 \<le> (of_char c :: nat) \<and> (of_char c :: nat) \<le> 57"

definition json_is_number_cont :: "char \<Rightarrow> bool" where
  "json_is_number_cont c \<longleftrightarrow> is_digit_chr c \<or> c = CHR ''e'' \<or> c = CHR ''E'' \<or> c = CHR ''.'' \<or> c = CHR ''-'' \<or> c = CHR ''+''"

definition is_separator :: "char \<Rightarrow> bool" where
  "is_separator c \<longleftrightarrow> c = CHR '' '' \<or> c = CHR 0x0A \<or> c = CHR 0x0D \<or> c = CHR 0x09 \<or> c = CHR '':'' \<or> c = CHR '',''"

text \<open>\<open>*r->current\<close>\<close>

definition peek :: "json_reader \<Rightarrow> char kres" where
  "peek r = (if current r < length (data r) then Inr (data r ! current r) else Inl OutOfBounds)"

fun json_is_string :: "json_reader \<Rightarrow> nat \<Rightarrow> string \<Rightarrow> bool kres" where
  "json_is_string r pos [] = Inr True"
| "json_is_string r pos (x # expect) =
     (if pos = end_pos r then Inr False
      else if pos < length (data r) then
        if data r ! pos \<noteq> x then Inr False else json_is_string r (Suc pos) expect
      else Inl OutOfBounds)"

definition json_is_key :: "json_reader \<Rightarrow> json_value \<Rightarrow> string \<Rightarrow> bool" where
  "json_is_key r v s \<longleftrightarrow> length s = vend v - vstart v \<and> take (vend v - vstart v) (drop (vstart v) (data r)) = s"

section \<open>Reading a value\<close>

definition skip :: "nat \<Rightarrow> json_reader \<Rightarrow> json_reader" where
  "skip n r = r\<lparr>current := current r + n\<rparr>"

lemma skip_sel [simp]:
  "data (skip n r) = data r" "current (skip n r) = current r + n" "end_pos (skip n r) = end_pos r"
  "depth (skip n r) = depth r" "json_error (skip n r) = json_error r"
  by (simp_all add: skip_def)

function read_number :: "json_reader \<Rightarrow> json_reader kres" where
  "read_number r =
     (if current r = end_pos r then Inr r
      else if current r < length (data r) then
        if json_is_number_cont (data r ! current r) then read_number (skip 1 r) else Inr r
      else Inl OutOfBounds)"
  by pat_completeness auto
termination
  by (relation "measure (\<lambda>r. length (data r) - current r)") auto

text \<open>The characters of a string up to its closing quote; \<open>None\<close> when the text ends first.\<close>

function read_string :: "json_reader \<Rightarrow> (nat option \<times> json_reader) kres" where
  "read_string r =
     (if current r = end_pos r then Inr (None, r\<lparr>json_error := Some ''unclosed string''\<rparr>)
      else if current r < length (data r) then
        if data r ! current r = CHR 0x22 then Inr (Some (current r), skip 1 r)
        else if data r ! current r = CHR 0x5C then read_string (skip 2 r)
        else read_string (skip 1 r)
      else Inl OutOfBounds)"
  by pat_completeness auto
termination
  by (relation "measure (\<lambda>r. length (data r) - current r)") auto

declare read_number.simps [simp del] read_string.simps [simp del]

definition error_value :: "json_reader \<Rightarrow> json_value" where
  "error_value r = (json_new_value VALUE_ERROR)\<lparr>vstart := current r, vend := current r\<rparr>"

definition unknown_token :: "json_reader \<Rightarrow> json_value \<times> json_reader" where
  "unknown_token r = (error_value r, r\<lparr>json_error := Some ''unknown token''\<rparr>)"

definition read_literal :: "json_reader \<Rightarrow> (json_value \<times> json_reader) kres" where
  "read_literal r =
     (let res = (json_new_value VALUE_ERROR)\<lparr>vstart := current r\<rparr>
      in kbind (json_is_string r (current r) ''null'') (\<lambda>b.
         if b then Inr (res\<lparr>vtype := VALUE_NULL, vend := current r + 4\<rparr>, skip 4 r) else
         kbind (json_is_string r (current r) ''true'') (\<lambda>b.
         if b then Inr (res\<lparr>vtype := VALUE_BOOL, vend := current r + 4\<rparr>, skip 4 r) else
         kbind (json_is_string r (current r) ''false'') (\<lambda>b.
         if b then Inr (res\<lparr>vtype := VALUE_BOOL, vend := current r + 5\<rparr>, skip 5 r)
         else Inr (unknown_token r)))))"

text \<open>A value that starts with the character \<open>c\<close>, which is no separator.\<close>

definition read_value :: "char \<Rightarrow> json_reader \<Rightarrow> (json_value \<times> json_reader) kres" where
  "read_value c r =
     (let res = (json_new_value VALUE_ERROR)\<lparr>vstart := current r\<rparr>
      in if is_digit_chr c \<or> c = CHR ''-'' then
           kbind (read_number r) (\<lambda>r1. Inr (res\<lparr>vtype := VALUE_NUMBER, vend := current r1\<rparr>, r1))
         else if c = CHR 0x22 then
           kbind (read_string (skip 1 r)) (\<lambda>(e, r1).
             case e of
               Some p \<Rightarrow> Inr (res\<lparr>vtype := VALUE_STRING, vstart := current r + 1, vend := p\<rparr>, r1)
             | None \<Rightarrow> Inr (error_value r1, r1))
         else if c = CHR ''{'' \<or> c = CHR ''['' then
           let res = res\<lparr>vtype := (if c = CHR ''{'' then VALUE_OBJECT else VALUE_ARRAY), vdepth := depth r + 1,
                         vend := current r + 1\<rparr>
           in Inr (res, (skip 1 r)\<lparr>depth := vdepth res\<rparr>)
         else if c = CHR ''}'' \<or> c = CHR '']'' then
           Inr (res\<lparr>vtype := VALUE_END, vend := current r + 1\<rparr>, (skip 1 r)\<lparr>depth := depth r - 1\<rparr>)
         else if c = CHR ''n'' \<or> c = CHR ''t'' \<or> c = CHR ''f'' then read_literal r
         else Inr (unknown_token r))"

function json_read :: "json_reader \<Rightarrow> (json_value \<times> json_reader) kres" where
  "json_read r =
     (if json_error r \<noteq> None then Inr (error_value r, r)
      else if current r = end_pos r then
        let r1 = r\<lparr>json_error := Some ''unexpected eof''\<rparr> in Inr (error_value r1, r1)
      else if current r < length (data r) then
        if is_separator (data r ! current r) then json_read (skip 1 r)
        else read_value (data r ! current r) r
      else Inl OutOfBounds)"
  by pat_completeness auto
termination
  by (relation "measure (\<lambda>r. length (data r) - current r)") auto

declare json_read.simps [simp del]

section \<open>Progress\<close>

lemma read_number_progress:
  "read_number r = Inr r' \<Longrightarrow>
     current r \<le> current r' \<and> data r' = data r \<and> end_pos r' = end_pos r \<and> json_error r' = json_error r \<and> depth r' = depth r"
proof (induction r rule: read_number.induct)
  case (1 r)
  show ?case using 1 by (subst (asm) (2) read_number.simps) (auto split: if_splits)
qed

lemma read_string_progress:
  "read_string r = Inr (e, r') \<Longrightarrow> current r \<le> current r' \<and> data r' = data r \<and> end_pos r' = end_pos r"
proof (induction r rule: read_string.induct)
  case (1 r)
  show ?case using 1 by (subst (asm) (3) read_string.simps) (auto split: if_splits)
qed

lemma read_literal_progress:
  assumes "read_literal r = Inr (v, r')"
  shows "data r' = data r \<and> (vtype v = VALUE_ERROR \<or> current r < current r')"
  using assms by (auto simp: read_literal_def unknown_token_def error_value_def Let_def json_new_value_def split: if_splits)

lemma read_value_progress:
  assumes "read_value (data r ! current r) r = Inr (v, r')" and "current r < length (data r)" and "current r \<noteq> end_pos r"
  shows "data r' = data r \<and> (vtype v = VALUE_ERROR \<or> current r < current r')"
proof -
  have adv: "current r < current r1" if "read_number r = Inr r1" "is_digit_chr (data r ! current r) \<or> data r ! current r = CHR ''-''" for r1
  proof -
    have "read_number (skip 1 r) = Inr r1"
      using that assms(2,3) by (subst (asm) read_number.simps) (auto simp: json_is_number_cont_def)
    then show ?thesis using read_number_progress by fastforce
  qed
  have num: "data r' = data r \<and> (vtype v = VALUE_ERROR \<or> current r < current r')"
    if d: "is_digit_chr (data r ! current r) \<or> data r ! current r = CHR ''-''"
  proof -
    from assms(1) d obtain r1 where "read_number r = Inr r1" "r' = r1" unfolding read_value_def Let_def by auto
    with adv [OF this(1) d] read_number_progress [OF this(1)] show ?thesis by simp
  qed
  have str: "data r' = data r \<and> (vtype v = VALUE_ERROR \<or> current r < current r')"
    if no: "\<not> (is_digit_chr (data r ! current r) \<or> data r ! current r = CHR ''-'')" and "data r ! current r = CHR 0x22"
  proof -
    from assms(1) that obtain e r1 where e: "read_string (skip 1 r) = Inr (e, r1)" "r' = r1"
      by (auto simp: read_value_def Let_def split: option.splits)
    from read_string_progress [OF e(1)] e(2) show ?thesis by auto
  qed
  show ?thesis
  proof (cases "is_digit_chr (data r ! current r) \<or> data r ! current r = CHR ''-'' \<or> data r ! current r = CHR 0x22")
    case True
    with num str show ?thesis by blast
  next
    case False
    then show ?thesis
      using assms(1) read_literal_progress [of r v r']
      by (auto simp: read_value_def Let_def unknown_token_def error_value_def json_new_value_def split: if_splits)
  qed
qed

lemma json_read_progress:
  "json_read r = Inr (v, r') \<Longrightarrow>
     data r' = data r \<and> (vtype v = VALUE_ERROR \<or> current r < current r' \<and> current r < length (data r))"
proof (induction r rule: json_read.induct)
  case (1 r)
  show ?case
    using 1 read_value_progress [of r v r']
    by (subst (asm) (2) json_read.simps) (auto simp: error_value_def json_new_value_def Let_def split: if_splits)
qed

section \<open>Iteration\<close>

function json_discard_until :: "int \<Rightarrow> json_reader \<Rightarrow> json_reader kres" where
  "json_discard_until d r =
     (if current r \<noteq> end_pos r \<and> depth r > d then
        (case json_read r of
           Inl f \<Rightarrow> Inl f
         | Inr (v, r1) \<Rightarrow> if vtype v = VALUE_ERROR then Inr r1 else json_discard_until d r1)
      else Inr r)"
  by pat_completeness auto
termination
  by (relation "measure (\<lambda>(d, r). length (data r) - current r)") (auto dest!: json_read_progress intro!: diff_less_mono2)

declare json_discard_until.simps [simp del]

definition json_iter_array :: "json_value \<Rightarrow> json_reader \<Rightarrow> (bool \<times> json_value \<times> json_reader) kres" where
  "json_iter_array arr r =
     kbind (json_discard_until (vdepth arr) r) (\<lambda>r1. kbind (json_read r1) (\<lambda>(v, r2).
       Inr (\<not> (vtype v = VALUE_ERROR \<or> vtype v = VALUE_END), v, r2)))"

text \<open>\<open>outKey\<close> and \<open>outValue\<close>; the value is not written when the key ends the object.\<close>

definition json_iter_object :: "json_value \<Rightarrow> json_reader \<Rightarrow> (bool \<times> json_value \<times> json_value option \<times> json_reader) kres" where
  "json_iter_object obj r =
     kbind (json_discard_until (vdepth obj) r) (\<lambda>r1. kbind (json_read r1) (\<lambda>(key, r2).
       if vtype key = VALUE_ERROR \<or> vtype key = VALUE_END then Inr (False, key, None, r2)
       else kbind (json_read r2) (\<lambda>(v, r3).
         if vtype v = VALUE_ERROR then Inr (False, key, Some v, r3\<lparr>json_error := Some ''unexpected object end''\<rparr>)
         else Inr (vtype v \<noteq> VALUE_END, key, Some v, r3))))"

section \<open>Documents\<close>

text \<open>
  JSON documents as text. A number is kept as its digits, a string as its raw contents with the
  escapes.
\<close>

datatype json = JNull | JBool bool | JNum string | JStr string | JArr "json list" | JObj "(string \<times> json) list"

fun str_raw :: "string \<Rightarrow> bool" where
  "str_raw [] = True"
| "str_raw (c # s) = (if c = CHR 0x5C then (case s of [] \<Rightarrow> False | _ # t \<Rightarrow> str_raw t) else c \<noteq> CHR 0x22 \<and> str_raw s)"

definition num_raw :: "string \<Rightarrow> bool" where
  "num_raw s \<longleftrightarrow> s \<noteq> [] \<and> (is_digit_chr (hd s) \<or> hd s = CHR ''-'') \<and> list_all json_is_number_cont s"

fun json_ok :: "json \<Rightarrow> bool" where
  "json_ok JNull = True"
| "json_ok (JBool b) = True"
| "json_ok (JNum s) = num_raw s"
| "json_ok (JStr s) = str_raw s"
| "json_ok (JArr vs) = list_all json_ok vs"
| "json_ok (JObj kvs) = list_all (\<lambda>kv. str_raw (fst kv) \<and> json_ok (snd kv)) kvs"

definition quoted :: "string \<Rightarrow> string" where
  "quoted s = CHR 0x22 # s @ [CHR 0x22]"

fun comma_sep :: "string list \<Rightarrow> string" where
  "comma_sep [] = []"
| "comma_sep [s] = s"
| "comma_sep (s # ss) = s @ '','' @ comma_sep ss"

fun print :: "json \<Rightarrow> string" where
  "print JNull = ''null''"
| "print (JBool b) = (if b then ''true'' else ''false'')"
| "print (JNum s) = s"
| "print (JStr s) = quoted s"
| "print (JArr vs) = ''['' @ comma_sep (map print vs) @ '']''"
| "print (JObj kvs) = ''{'' @ comma_sep (map (\<lambda>kv. quoted (fst kv) @ '':'' @ print (snd kv)) kvs) @ ''}''"

text \<open>The values a reader is to deliver for a document: kind, text and, for a container, its depth.\<close>

type_synonym token = "value_type \<times> string"

fun tokens :: "json \<Rightarrow> token list" where
  "tokens JNull = [(VALUE_NULL, ''null'')]"
| "tokens (JBool b) = [(VALUE_BOOL, if b then ''true'' else ''false'')]"
| "tokens (JNum s) = [(VALUE_NUMBER, s)]"
| "tokens (JStr s) = [(VALUE_STRING, s)]"
| "tokens (JArr vs) = (VALUE_ARRAY, ''['') # concat (map tokens vs) @ [(VALUE_END, '']'')]"
| "tokens (JObj kvs) = (VALUE_OBJECT, ''{'') # concat (map (\<lambda>kv. (VALUE_STRING, fst kv) # tokens (snd kv)) kvs) @ [(VALUE_END, ''}'')]"

definition text_of :: "json_reader \<Rightarrow> json_value \<Rightarrow> string" where
  "text_of r v = take (vend v - vstart v) (drop (vstart v) (data r))"

fun read_tokens :: "nat \<Rightarrow> json_reader \<Rightarrow> (token list \<times> json_reader) kres" where
  "read_tokens 0 r = Inr ([], r)"
| "read_tokens (Suc n) r =
     kbind (json_read r) (\<lambda>(v, r1). kbind (read_tokens n r1) (\<lambda>(ts, r2). Inr ((vtype v, text_of r v) # ts, r2)))"

end
