(* ===== verification/Json_Contract.thy ===== *)
theory Json_Contract
  imports Json
begin

text \<open>
  What the JSON reader delivers for the text of a document: all its values in order, and, when a
  client iterates over a container, the elements of that container.
\<close>

section \<open>Single values\<close>

definition ready :: "json_reader \<Rightarrow> string \<Rightarrow> bool" where
  "ready r s \<longleftrightarrow> json_error r = None \<and> end_pos r = length (data r) \<and> current r \<le> length (data r) \<and> drop (current r) (data r) = s"

lemma ready_skip:
  assumes "ready r (a @ s)"
  shows "ready (skip (length a) r) s"
proof -
  have d: "drop (current r) (data r) = a @ s" and l: "current r \<le> length (data r)" using assms by (simp_all add: ready_def)
  have "length (drop (current r) (data r)) = length a + length s" unfolding d by simp
  then have "current r + length a \<le> length (data r)" using l by simp
  moreover have "drop (current r + length a) (data r) = s"
    using arg_cong [OF d, of "drop (length a)"] by (simp add: add.commute)
  ultimately show ?thesis using assms by (simp add: ready_def)
qed

lemma ready_Cons: "ready r (c # s) \<Longrightarrow> ready (skip 1 r) s"
  using ready_skip [of r "[c]" s] by simp

lemma ready_hd:
  assumes "ready r (c # s)"
  shows "current r < length (data r)" "data r ! current r = c" "end_pos r = length (data r)" "json_error r = None"
proof -
  have d: "drop (current r) (data r) = c # s" using assms by (simp add: ready_def)
  then show "current r < length (data r)" by (metis drop_all list.distinct(1) not_less)
  then show "data r ! current r = c" using d by (simp add: Cons_nth_drop_Suc [symmetric])
qed (use assms in \<open>simp_all add: ready_def\<close>)

lemma ready_depth [simp]: "ready (r\<lparr>depth := d\<rparr>) s = ready r s"
  by (simp add: ready_def)

lemma skip_depth [simp]: "skip n (r\<lparr>depth := d\<rparr>) = (skip n r)\<lparr>depth := d\<rparr>" "skip n (skip m r) = skip (m + n) r" "skip 0 r = r"
  by (simp_all add: skip_def)

lemma depth_same [simp]: "(skip n r)\<lparr>depth := depth r\<rparr> = skip n r"
  by (simp add: skip_def)

lemma text_here: "ready r (a @ s) \<Longrightarrow> take (length a) (drop (current r) (data r)) = a"
  by (simp add: ready_def)

lemma json_read_char:
  assumes "ready r (c # s)"
  shows "json_read r = (if is_separator c then json_read (skip 1 r) else read_value c r)"
  using ready_hd [OF assms] by (subst json_read.simps) simp

definition stops :: "string \<Rightarrow> bool" where
  "stops s \<longleftrightarrow> (case s of [] \<Rightarrow> True | c # _ \<Rightarrow> \<not> json_is_number_cont c)"

lemma read_number_spec:
  "ready r (a @ s) \<Longrightarrow> list_all json_is_number_cont a \<Longrightarrow> stops s \<Longrightarrow> read_number r = Inr (skip (length a) r)"
proof (induction a arbitrary: r)
  case Nil
  show ?case
  proof (cases s)
    case Nil
    with \<open>ready r ([] @ s)\<close> show ?thesis by (subst read_number.simps) (simp add: ready_def)
  next
    case (Cons c t)
    with Nil.prems ready_hd [of r c t] show ?thesis by (subst read_number.simps) (simp add: stops_def)
  qed
next
  case (Cons c a)
  then have "read_number (skip 1 r) = Inr (skip (length a) (skip 1 r))"
    using ready_Cons [of r c "a @ s"] by (intro Cons.IH) simp_all
  with Cons.prems ready_hd [of r c "a @ s"] show ?case by (subst read_number.simps) simp
qed

lemma read_string_spec:
  "ready r (a @ CHR 0x22 # s) \<Longrightarrow> str_raw a \<Longrightarrow> read_string r = Inr (Some (current r + length a), skip (Suc (length a)) r)"
proof (induction a arbitrary: r rule: str_raw.induct)
  case 1
  with ready_hd [of r "CHR 0x22" s] show ?case by (subst read_string.simps) simp
next
  case (2 c a)
  note hd = ready_hd [of r c "a @ CHR 0x22 # s"]
  show ?case
  proof (cases "c = CHR 0x5C")
    case True
    with "2.prems"(2) obtain x t where a: "a = x # t" "str_raw t" by (cases a) auto
    have r: "ready (skip 2 r) (t @ CHR 0x22 # s)" using ready_skip [of r "[c, x]"] "2.prems"(1) a(1) by (simp add: numeral_2_eq_2)
    have "read_string (skip 2 r) = Inr (Some (current (skip 2 r) + length t), skip (Suc (length t)) (skip 2 r))"
      using "2.IH"(1) [OF True a(1) r a(2)] .
    with True hd "2.prems"(1) a(1) show ?thesis by (subst read_string.simps) simp
  next
    case False
    have "ready (skip 1 r) (a @ CHR 0x22 # s)" using ready_Cons [of r c "a @ CHR 0x22 # s"] "2.prems"(1) by simp
    with "2.IH"(2) [OF False] "2.prems"(2) False hd "2.prems"(1) show ?thesis by (subst read_string.simps) simp
  qed
qed

lemma json_is_string_spec:
  "ready r s \<Longrightarrow> json_is_string r (current r) e = Inr (take (length e) s = e)"
proof -
  assume r: "ready r s"
  have "json_is_string r (current r + k) e = Inr (take (length e) (drop k s) = e)" if "k \<le> length s" for k
    using that
  proof (induction e arbitrary: k)
    case (Cons x e)
    have len: "length (data r) = current r + length s" "end_pos r = length (data r)"
      using r by (auto simp: ready_def)
    have at: "data r ! (current r + j) = s ! j" if "j < length s" for j
      using r that by (auto simp: ready_def)
    show ?case
    proof (cases "k < length s")
      case True
      then have "drop k s = s ! k # drop (Suc k) s" by (simp add: Cons_nth_drop_Suc)
      moreover have "json_is_string r (current r + Suc k) e = Inr (take (length e) (drop (Suc k) s) = e)"
        using True by (intro Cons.IH) simp
      ultimately show ?thesis using True len at [OF True] by auto
    qed (use Cons.prems len in auto)
  qed simp
  from this [of 0] show ?thesis by simp
qed

text \<open>The next value of kind \<open>t\<close> with the text \<open>txt\<close> takes \<open>n\<close> characters and leaves the depth \<open>d\<close>.\<close>

definition delivers :: "json_reader \<Rightarrow> token \<Rightarrow> nat \<Rightarrow> int \<Rightarrow> bool" where
  "delivers r tok n d \<longleftrightarrow> (\<exists>v. json_read r = Inr (v, (skip n r)\<lparr>depth := d\<rparr>) \<and> (vtype v, text_of r v) = tok \<and>
     (vtype v = VALUE_ARRAY \<or> vtype v = VALUE_OBJECT \<longrightarrow> vdepth v = d))"

lemma quote_class [simp]: "\<not> is_separator (CHR 0x22)" "\<not> is_digit_chr (CHR 0x22)" "\<not> json_is_number_cont (CHR 0x22)"
  by (simp_all add: is_separator_def is_digit_chr_def json_is_number_cont_def)

lemma digit_not_separator: "is_digit_chr c \<or> c = CHR ''-'' \<Longrightarrow> \<not> is_separator c"
  by (auto simp: is_separator_def is_digit_chr_def)

lemma delivers_number:
  assumes r: "ready r (a @ s)" and a: "num_raw a" and s: "stops s"
  shows "delivers r (VALUE_NUMBER, a) (length a) (depth r)"
proof -
  obtain c t where ct: "a = c # t" "is_digit_chr c \<or> c = CHR ''-''" using a by (cases a) (auto simp: num_raw_def)
  have "json_read r = read_value c r"
    using json_read_char [of r c "t @ s"] r ct digit_not_separator by simp
  moreover have "read_number r = Inr (skip (length a) r)" using read_number_spec [OF r _ s] a by (simp add: num_raw_def)
  ultimately show ?thesis
    using ct text_here [OF r] by (auto simp: delivers_def read_value_def Let_def json_new_value_def text_of_def)
qed

lemma delivers_string:
  assumes r: "ready r (quoted a @ s)" and a: "str_raw a"
  shows "delivers r (VALUE_STRING, a) (length (quoted a)) (depth r)"
proof -
  have r': "ready r (CHR 0x22 # a @ CHR 0x22 # s)" using r by (simp add: quoted_def)
  have r1: "ready (skip 1 r) (a @ CHR 0x22 # s)" using ready_Cons [OF r'] .
  have "json_read r = read_value (CHR 0x22) r" using json_read_char [OF r'] by simp
  moreover have "read_string (skip 1 r) = Inr (Some (current r + 1 + length a), skip (length (quoted a)) r)"
    using read_string_spec [OF r1 a] by (simp add: quoted_def)
  ultimately show ?thesis
    using text_here [OF r1] by (auto simp: delivers_def read_value_def Let_def json_new_value_def text_of_def)
qed

lemma delivers_open:
  assumes r: "ready r (c # s)" and c: "c = CHR ''['' \<and> t = VALUE_ARRAY \<or> c = CHR ''{'' \<and> t = VALUE_OBJECT"
  shows "delivers r (t, [c]) 1 (depth r + 1)"
proof -
  have "\<not> is_separator c" "\<not> is_digit_chr c" using c by (auto simp: is_separator_def is_digit_chr_def)
  then have "json_read r = read_value c r" using json_read_char [OF r] by simp
  then show ?thesis
    using c text_here [of r "[c]" s] r \<open>\<not> is_digit_chr c\<close>
    by (auto simp: delivers_def read_value_def Let_def json_new_value_def text_of_def)
qed

lemma delivers_close:
  assumes r: "ready r (c # s)" and c: "c = CHR '']'' \<or> c = CHR ''}''"
  shows "delivers r (VALUE_END, [c]) 1 (depth r - 1)"
proof -
  have "\<not> is_separator c" "\<not> is_digit_chr c" using c by (auto simp: is_separator_def is_digit_chr_def)
  then have "json_read r = read_value c r" using json_read_char [OF r] by simp
  then show ?thesis
    using c text_here [of r "[c]" s] r \<open>\<not> is_digit_chr c\<close>
    by (auto simp: delivers_def read_value_def Let_def json_new_value_def text_of_def)
qed

lemma delivers_literal:
  assumes r: "ready r (a @ s)" and a: "a = ''null'' \<and> t = VALUE_NULL \<or> (a = ''true'' \<or> a = ''false'') \<and> t = VALUE_BOOL"
  shows "delivers r (t, a) (length a) (depth r)"
proof -
  obtain c u where cu: "a = c # u" "c = CHR ''n'' \<or> c = CHR ''t'' \<or> c = CHR ''f''" using a by auto
  then have "\<not> is_separator c" "\<not> is_digit_chr c" by (auto simp: is_separator_def is_digit_chr_def)
  then have "json_read r = read_value c r" using json_read_char [of r c "u @ s"] r cu by simp
  also have "\<dots> = read_literal r" using cu \<open>\<not> is_digit_chr c\<close> by (auto simp: read_value_def Let_def)
  finally have eq: "json_read r = read_literal r" .
  note cmp = json_is_string_spec [OF r]
  from a consider "a = ''null''" "t = VALUE_NULL" | "a = ''true''" "t = VALUE_BOOL" | "a = ''false''" "t = VALUE_BOOL" by blast
  then have "read_literal r =
      Inr ((json_new_value VALUE_ERROR)\<lparr>vstart := current r, vtype := t, vend := current r + length a\<rparr>, skip (length a) r)"
    by cases (simp_all add: read_literal_def Let_def cmp del: json_is_string.simps)
  with eq text_here [OF r] a show ?thesis by (auto simp: delivers_def json_new_value_def text_of_def)
qed

section \<open>Documents\<close>

lemma read_tokens_one:
  assumes "delivers r tok n d"
  shows "read_tokens (Suc k) r = kbind (read_tokens k ((skip n r)\<lparr>depth := d\<rparr>)) (\<lambda>(ts, r2). Inr (tok # ts, r2))"
proof -
  obtain v where "json_read r = Inr (v, (skip n r)\<lparr>depth := d\<rparr>)" "tok = (vtype v, text_of r v)"
    using assms unfolding delivers_def by blast
  then show ?thesis by simp
qed

lemma read_tokens_append:
  "read_tokens (m + n) r = kbind (read_tokens m r) (\<lambda>(ts, r1). kbind (read_tokens n r1) (\<lambda>(us, r2). Inr (ts @ us, r2)))"
proof (induction m arbitrary: r)
  case 0
  show ?case by (cases "read_tokens n r") auto
next
  case (Suc m)
  then show ?case by (simp add: kbind_assoc case_prod_unfold)
qed

lemma read_tokens_separator: "ready r (c # s) \<Longrightarrow> is_separator c \<Longrightarrow> 0 < n \<Longrightarrow> read_tokens n r = read_tokens n (skip 1 r)"
  by (cases n) (simp_all add: json_read_char text_of_def)

text \<open>A text that delivers its tokens wherever it stands.\<close>

definition reads :: "string \<Rightarrow> token list \<Rightarrow> bool" where
  "reads txt toks \<longleftrightarrow> toks \<noteq> [] \<and>
     (\<forall>r s. ready r (txt @ s) \<longrightarrow> stops s \<longrightarrow> read_tokens (length toks) r = Inr (toks, skip (length txt) r))"

lemma stops_simps [simp]:
  "stops []" "stops (CHR '','' # s)" "stops (CHR '']'' # s)" "stops (CHR ''}'' # s)" "stops (CHR '':'' # s)"
  by (simp_all add: stops_def json_is_number_cont_def is_digit_chr_def)

lemma reads_list:
  assumes "\<And>i. i \<in> set items \<Longrightarrow> reads (fst i) (snd i)" and "ready r (comma_sep (map fst items) @ s)" and "stops s"
  shows "read_tokens (length (concat (map snd items))) r =
    Inr (concat (map snd items), skip (length (comma_sep (map fst items))) r)"
  using assms
proof (induction items arbitrary: r rule: induct_list012)
  case 1
  then show ?case by simp
next
  case (2 x)
  then show ?case by (simp add: reads_def)
next
  case (3 x y zs)
  define rest where "rest = comma_sep (map fst (y # zs))"
  define toks where "toks = concat (map snd (y # zs))"
  have r: "ready r (fst x @ CHR '','' # rest @ s)" using "3.prems"(2) by (simp add: rest_def)
  have first: "read_tokens (length (snd x)) r = Inr (snd x, skip (length (fst x)) r)"
    using "3.prems"(1) [of x] r by (simp add: reads_def)
  have r1: "ready (skip (length (fst x)) r) (CHR '','' # rest @ s)" using ready_skip [OF r] .
  have "snd y \<noteq> []" using "3.prems"(1) [of y] by (simp add: reads_def)
  then have pos: "0 < length toks" by (simp add: toks_def)
  have "read_tokens (length toks) (skip (length (fst x)) r) = read_tokens (length toks) (skip (length (fst x) + 1) r)"
    using read_tokens_separator [OF r1 _ pos] by (simp add: is_separator_def)
  also have "\<dots> = Inr (toks, skip (length rest) (skip (length (fst x) + 1) r))"
    unfolding toks_def rest_def using ready_Cons [OF r1] "3.prems"(1,3)
    by (intro "3.IH"(2)) (simp_all add: rest_def)
  finally show ?case using first unfolding rest_def toks_def
    by (simp add: read_tokens_append [of "length (snd x)"] add.assoc)
qed

declare read_tokens.simps(2) [simp del]

lemma read_tokens_last: "delivers r tok n d \<Longrightarrow> read_tokens (Suc 0) r = Inr ([tok], (skip n r)\<lparr>depth := d\<rparr>)"
  by (simp add: read_tokens_one)

lemma reads_token: "(\<And>r s. ready r (txt @ s) \<Longrightarrow> stops s \<Longrightarrow> delivers r tok (length txt) (depth r)) \<Longrightarrow> reads txt [tok]"
  unfolding reads_def using read_tokens_last by fastforce

text \<open>A container: its opening bracket, its elements and its closing bracket.\<close>

lemma reads_container:
  assumes items: "\<And>i. i \<in> set items \<Longrightarrow> reads (fst i) (snd i)"
    and br: "a = CHR ''['' \<and> t = VALUE_ARRAY \<and> b = CHR '']'' \<or> a = CHR ''{'' \<and> t = VALUE_OBJECT \<and> b = CHR ''}''"
  shows "reads ([a] @ comma_sep (map fst items) @ [b]) ((t, [a]) # concat (map snd items) @ [(VALUE_END, [b])])"
  unfolding reads_def
proof (intro conjI allI impI)
  fix r s assume r: "ready r (([a] @ comma_sep (map fst items) @ [b]) @ s)"
  define inner where "inner = comma_sep (map fst items)"
  define toks where "toks = concat (map snd items)"
  have r0: "ready r (a # inner @ b # s)" using r by (simp add: inner_def)
  define r1 where "r1 = (skip 1 r)\<lparr>depth := depth r + 1\<rparr>"
  have r1: "ready r1 (inner @ b # s)" using ready_Cons [OF r0] by (simp add: r1_def)
  have stop: "stops (b # s)" using br by auto
  have in_toks: "read_tokens (length toks) r1 = Inr (toks, skip (length inner) r1)"
    unfolding toks_def inner_def using reads_list [OF items, of items r1 "b # s"] r1 stop by (simp add: inner_def)
  have r2: "ready (skip (length inner) r1) (b # s)" using ready_skip [OF r1] .
  have "delivers r (t, [a]) 1 (depth r + 1)" using br by (intro delivers_open [OF r0]) auto
  moreover have "delivers (skip (length inner) r1) (VALUE_END, [b]) 1 (depth r)"
    using delivers_close [OF r2] br by (auto simp: r1_def)
  ultimately have "read_tokens (Suc (length toks + 1)) r =
      Inr ((t, [a]) # toks @ [(VALUE_END, [b])], (skip 1 (skip (length inner) r1))\<lparr>depth := depth r\<rparr>)"
    using in_toks read_tokens_append [of "length toks" 1 r1]
    by (simp add: read_tokens_one [of r] r1_def [symmetric, simplified] read_tokens_last)
  then show "read_tokens (length ((t, [a]) # concat (map snd items) @ [(VALUE_END, [b])])) r =
      Inr ((t, [a]) # concat (map snd items) @ [(VALUE_END, [b])], skip (length ([a] @ comma_sep (map fst items) @ [b])) r)"
    by (simp add: toks_def [symmetric] inner_def [symmetric] r1_def skip_def)
qed simp

lemma reads_pair:
  assumes "str_raw k" and v: "reads txt toks"
  shows "reads (quoted k @ '':'' @ txt) ((VALUE_STRING, k) # toks)"
  unfolding reads_def
proof (intro conjI allI impI)
  fix r s assume r: "ready r ((quoted k @ '':'' @ txt) @ s)" and s: "stops s"
  define r1 where "r1 = skip (length (quoted k)) r"
  have "ready r (quoted k @ CHR '':'' # txt @ s)" using r by simp
  then have k: "delivers r (VALUE_STRING, k) (length (quoted k)) (depth r)" and r1: "ready r1 (CHR '':'' # txt @ s)"
    using delivers_string assms(1) ready_skip by (auto simp: r1_def)
  have "read_tokens (length toks) r1 = read_tokens (length toks) (skip 1 r1)"
    using v read_tokens_separator [OF r1] by (simp add: reads_def is_separator_def)
  also have "\<dots> = Inr (toks, skip (length txt) (skip 1 r1))" using v ready_Cons [OF r1] s by (simp add: reads_def)
  finally show "read_tokens (length ((VALUE_STRING, k) # toks)) r =
      Inr ((VALUE_STRING, k) # toks, skip (length (quoted k @ '':'' @ txt)) r)"
    using k by (simp add: read_tokens_one r1_def add.assoc)
qed simp

lemma json_reads: "json_ok v \<Longrightarrow> reads (print v) (tokens v)"
proof (induction v rule: tokens.induct)
  case 1
  show ?case by (auto intro!: reads_token delivers_literal)
next
  case (2 b)
  show ?case by (auto intro!: reads_token delivers_literal)
next
  case (3 s)
  then show ?case by (auto intro!: reads_token delivers_number)
next
  case (4 s)
  then show ?case by (auto intro!: reads_token delivers_string)
next
  case (5 vs)
  let ?items = "map (\<lambda>v. (print v, tokens v)) vs"
  have "reads (fst i) (snd i)" if "i \<in> set ?items" for i
    using that 5 by (auto simp: list_all_iff)
  from reads_container [of ?items "CHR ''[''" VALUE_ARRAY "CHR '']''", OF this] show ?case by (simp add: comp_def)
next
  case (6 kvs)
  let ?items = "map (\<lambda>kv. (quoted (fst kv) @ '':'' @ print (snd kv), (VALUE_STRING, fst kv) # tokens (snd kv))) kvs"
  have "reads (fst i) (snd i)" if "i \<in> set ?items" for i
    using that 6 by (fastforce simp: list_all_iff intro!: reads_pair [simplified])
  from reads_container [of ?items "CHR ''{''" VALUE_OBJECT "CHR ''}''", OF this] show ?case by (simp add: comp_def)
qed

text \<open>
  C17. Reading back a document. From the text of a well-formed document the reader delivers exactly
  the values of the document in order, each with its text, and stops behind the document at the
  depth where it started.
\<close>

theorem json_read_print:
  assumes "json_ok v" and "ready r (print v @ s)" and "stops s"
  shows "read_tokens (length (tokens v)) r = Inr (tokens v, skip (length (print v)) r)"
  using json_reads [OF assms(1)] assms(2,3) by (simp add: reads_def)

section \<open>Iteration\<close>

lemma discard_step:
  assumes r: "ready r s" "s \<noteq> []" and "depth r > d" and "delivers r tok n d'" and "fst tok \<noteq> VALUE_ERROR"
  shows "json_discard_until d r = json_discard_until d ((skip n r)\<lparr>depth := d'\<rparr>)"
proof -
  obtain v where v: "json_read r = Inr (v, (skip n r)\<lparr>depth := d'\<rparr>)" "vtype v \<noteq> VALUE_ERROR"
    using assms(4,5) unfolding delivers_def by (metis fst_conv)
  have "current r \<noteq> end_pos r" using r by (auto simp: ready_def)
  with v assms(3) show ?thesis by (subst json_discard_until.simps) simp
qed

lemma discard_stop: "depth r \<le> d \<Longrightarrow> json_discard_until d r = Inr r"
  by (subst json_discard_until.simps) simp

lemma discard_separator:
  assumes "ready r (c # s)" and "is_separator c" and "depth r > d" and "s \<noteq> []"
  shows "json_discard_until d r = json_discard_until d (skip 1 r)"
proof -
  have "current r \<noteq> end_pos r" "current r + 1 \<noteq> end_pos r"
    using assms(1,4) ready_Cons [OF assms(1)] by (auto simp: ready_def)
  then show ?thesis
    using json_read_char [OF assms(1)] assms(2,3)
    by (subst (1 2) json_discard_until.simps) simp
qed

text \<open>A text that is skipped as a whole while the reader is deeper than the client.\<close>

definition skips :: "string \<Rightarrow> bool" where
  "skips txt \<longleftrightarrow> txt \<noteq> [] \<and> (\<forall>r s d. ready r (txt @ s) \<longrightarrow> stops s \<longrightarrow> depth r > d \<longrightarrow>
     json_discard_until d r = json_discard_until d (skip (length txt) r))"

lemma skips_list:
  assumes "\<And>t. t \<in> set txts \<Longrightarrow> skips t" and "ready r (comma_sep txts @ s)" and "stops s" and "depth r > d"
  shows "json_discard_until d r = json_discard_until d (skip (length (comma_sep txts)) r)"
  using assms
proof (induction txts arbitrary: r rule: induct_list012)
  case 1
  then show ?case by simp
next
  case (2 x)
  then show ?case by (simp add: skips_def)
next
  case (3 x y zs)
  define rest where "rest = comma_sep (y # zs)"
  have ne: "rest \<noteq> []" using "3.prems"(1) [of y] by (cases zs) (auto simp: rest_def skips_def)
  have r: "ready r (x @ CHR '','' # rest @ s)" using "3.prems"(2) by (simp add: rest_def)
  have r1: "ready (skip (length x) r) (CHR '','' # rest @ s)" using ready_skip [OF r] .
  have "json_discard_until d r = json_discard_until d (skip (length x) r)"
    using "3.prems"(1) [of x] r "3.prems"(4) by (simp add: skips_def)
  also have "\<dots> = json_discard_until d (skip (length x + 1) r)"
    using discard_separator [OF r1, of d] "3.prems"(4) ne by (simp add: is_separator_def)
  also have "\<dots> = json_discard_until d (skip (length rest) (skip (length x + 1) r))"
    unfolding rest_def using ready_Cons [OF r1] "3.prems" by (intro "3.IH"(2)) (simp_all add: rest_def)
  finally show ?case by (simp add: rest_def add.assoc)
qed

lemma discard_container:
  assumes items: "\<And>t. t \<in> set txts \<Longrightarrow> skips t" and r: "ready r (comma_sep txts @ b # s)"
    and b: "b = CHR '']'' \<or> b = CHR ''}''" and "depth r > d"
  shows "json_discard_until d r = json_discard_until d ((skip (length (comma_sep txts) + 1) r)\<lparr>depth := depth r - 1\<rparr>)"
proof -
  define r1 where "r1 = skip (length (comma_sep txts)) r"
  have r1: "ready r1 (b # s)" using ready_skip [OF r] by (simp add: r1_def)
  have "stops (b # s)" using b by auto
  then have "json_discard_until d r = json_discard_until d r1"
    unfolding r1_def using items r assms(4) by (intro skips_list) auto
  also have "\<dots> = json_discard_until d ((skip 1 r1)\<lparr>depth := depth r1 - 1\<rparr>)"
    using assms(4) by (intro discard_step [OF r1 _ _ delivers_close [OF r1 b]]) (simp_all add: r1_def)
  finally show ?thesis by (simp add: r1_def)
qed

lemma skips_container:
  assumes items: "\<And>t. t \<in> set txts \<Longrightarrow> skips t"
    and br: "a = CHR ''['' \<and> t = VALUE_ARRAY \<and> b = CHR '']'' \<or> a = CHR ''{'' \<and> t = VALUE_OBJECT \<and> b = CHR ''}''"
  shows "skips ([a] @ comma_sep txts @ [b])"
  unfolding skips_def
proof (intro conjI allI impI)
  fix r s d assume r: "ready r (([a] @ comma_sep txts @ [b]) @ s)" and d: "depth r > d"
  have r0: "ready r (a # comma_sep txts @ b # s)" using r by simp
  define r1 where "r1 = (skip 1 r)\<lparr>depth := depth r + 1\<rparr>"
  have r1: "ready r1 (comma_sep txts @ b # s)" using ready_Cons [OF r0] by (simp add: r1_def)
  have op: "delivers r (t, [a]) 1 (depth r + 1)" using br by (intro delivers_open [OF r0]) auto
  have "json_discard_until d r = json_discard_until d r1"
    unfolding r1_def using br d by (intro discard_step [OF r0 _ _ op]) auto
  also have "\<dots> = json_discard_until d ((skip (length (comma_sep txts) + 1) r1)\<lparr>depth := depth r1 - 1\<rparr>)"
    using br d by (intro discard_container [OF items r1]) (auto simp: r1_def)
  finally show "json_discard_until d r = json_discard_until d (skip (length ([a] @ comma_sep txts @ [b])) r)"
    by (simp add: r1_def skip_def)
qed simp

lemma skips_token:
  assumes "\<And>r s. ready r (txt @ s) \<Longrightarrow> stops s \<Longrightarrow> delivers r tok (length txt) (depth r)" and "txt \<noteq> []" and "fst tok \<noteq> VALUE_ERROR"
  shows "skips txt"
  unfolding skips_def
proof (intro conjI allI impI assms)
  fix r s d assume r: "ready r (txt @ s)" "stops s" "depth r > d"
  have "json_discard_until d r = json_discard_until d ((skip (length txt) r)\<lparr>depth := depth r\<rparr>)"
    using assms by (intro discard_step [OF r(1) _ r(3) assms(1) [OF r(1,2)]]) simp_all
  then show "json_discard_until d r = json_discard_until d (skip (length txt) r)" by simp
qed

lemma skips_pair:
  assumes "str_raw k" and v: "skips txt"
  shows "skips (quoted k @ '':'' @ txt)"
  unfolding skips_def
proof (intro conjI allI impI)
  fix r s d assume r: "ready r ((quoted k @ '':'' @ txt) @ s)" and s: "stops s" and d: "depth r > d"
  define r1 where "r1 = skip (length (quoted k)) r"
  have r0: "ready r (quoted k @ CHR '':'' # txt @ s)" using r by simp
  then have r1: "ready r1 (CHR '':'' # txt @ s)" using ready_skip by (auto simp: r1_def)
  have "json_discard_until d r = json_discard_until d ((skip (length (quoted k)) r)\<lparr>depth := depth r\<rparr>)"
    by (rule discard_step [OF r0 _ d delivers_string [OF r0 assms(1)]]) (simp_all add: quoted_def)
  also have "\<dots> = json_discard_until d r1" by (simp add: r1_def)
  also have "\<dots> = json_discard_until d (skip 1 r1)"
    using discard_separator [OF r1, of d] v d by (simp add: is_separator_def r1_def skips_def)
  also have "\<dots> = json_discard_until d (skip (length txt) (skip 1 r1))"
    using v ready_Cons [OF r1] s d by (simp add: skips_def r1_def)
  finally show "json_discard_until d r = json_discard_until d (skip (length (quoted k @ '':'' @ txt)) r)"
    by (simp add: r1_def add.assoc)
qed (simp add: quoted_def)

lemma json_skips: "json_ok v \<Longrightarrow> skips (print v)"
proof (induction v rule: tokens.induct)
  case 1
  show ?case by (rule skips_token [of _ "(VALUE_NULL, print JNull)"]) (erule delivers_literal, simp_all)
next
  case (2 b)
  show ?case by (rule skips_token [of _ "(VALUE_BOOL, print (JBool b))"]) (erule delivers_literal, simp_all)
next
  case (3 s)
  then show ?case by (intro skips_token [of _ "(VALUE_NUMBER, s)"]) (auto intro!: delivers_number simp: num_raw_def [of s])
next
  case (4 s)
  then show ?case unfolding print.simps by (intro skips_token [of _ "(VALUE_STRING, s)"]) (erule delivers_string, simp_all add: quoted_def)
next
  case (5 vs)
  then have "skips t" if "t \<in> set (map print vs)" for t using that by (auto simp: list_all_iff)
  from skips_container [OF this, of "map print vs" "CHR ''[''" VALUE_ARRAY "CHR '']''"] show ?case by simp
next
  case (6 kvs)
  then have "skips t" if "t \<in> set (map (\<lambda>kv. quoted (fst kv) @ '':'' @ print (snd kv)) kvs)" for t
    using that by (fastforce simp: list_all_iff intro!: skips_pair [simplified])
  from skips_container [OF this, of "map (\<lambda>kv. quoted (fst kv) @ '':'' @ print (snd kv)) kvs" "CHR ''{''" VALUE_OBJECT "CHR ''}''"]
  show ?case by simp
qed

text \<open>The loop of a client: the elements that \<open>json_iter_array\<close> delivers until it returns false.\<close>

fun array_elems :: "nat \<Rightarrow> json_value \<Rightarrow> json_reader \<Rightarrow> (token list \<times> json_reader) kres" where
  "array_elems 0 arr r = Inr ([], r)"
| "array_elems (Suc n) arr r =
     kbind (json_iter_array arr r) (\<lambda>(more, v, r1).
       if more then kbind (array_elems n arr r1) (\<lambda>(ts, r2). Inr ((vtype v, text_of r v) # ts, r2)) else Inr ([], r1))"

text \<open>The head of a value, and what is left of the value behind it.\<close>

lemma head_delivers:
  assumes "json_ok v" and "ready r (print v @ s)" and "stops s"
  shows "\<exists>n d. delivers r (hd (tokens v)) n d \<and> fst (hd (tokens v)) \<noteq> VALUE_ERROR \<and> fst (hd (tokens v)) \<noteq> VALUE_END \<and>
    json_discard_until (depth r) ((skip n r)\<lparr>depth := d\<rparr>) = Inr (skip (length (print v)) r)" (is "?goal")
proof -
  have scalar: ?goal
    if "tokens v = [(t, x)]" "delivers r (t, x) (length (print v)) (depth r)" "t \<noteq> VALUE_ERROR" "t \<noteq> VALUE_END" for t x
    using that by (intro exI [of _ "length (print v)"] exI [of _ "depth r"]) (simp add: discard_stop)
  have cont: ?goal
    if v: "print v = [a] @ comma_sep txts @ [b]" "fst (hd (tokens v)) = t" "snd (hd (tokens v)) = [a]"
      and br: "a = CHR ''['' \<and> t = VALUE_ARRAY \<and> b = CHR '']'' \<or> a = CHR ''{'' \<and> t = VALUE_OBJECT \<and> b = CHR ''}''"
      and items: "\<And>x. x \<in> set txts \<Longrightarrow> skips x" for a b t txts
  proof (intro exI conjI)
    define r1 where "r1 = (skip 1 r)\<lparr>depth := depth r + 1\<rparr>"
    have r0: "ready r (a # comma_sep txts @ b # s)" using assms(2) v(1) by simp
    have r1: "ready r1 (comma_sep txts @ b # s)" using ready_Cons [OF r0] by (simp add: r1_def)
    have "delivers r (t, [a]) 1 (depth r + 1)" using br by (intro delivers_open [OF r0]) auto
    then show "delivers r (hd (tokens v)) 1 (depth r + 1)" using v by (metis prod.collapse)
    have "json_discard_until (depth r) r1 =
        json_discard_until (depth r) ((skip (length (comma_sep txts) + 1) r1)\<lparr>depth := depth r1 - 1\<rparr>)"
      using br by (intro discard_container [OF items r1]) (auto simp: r1_def)
    also have "\<dots> = Inr (skip (length (print v)) r)" using v(1) by (simp add: discard_stop r1_def skip_def)
    finally show "json_discard_until (depth r) ((skip 1 r)\<lparr>depth := depth r + 1\<rparr>) = Inr (skip (length (print v)) r)"
      by (simp add: r1_def)
  qed (use v br in auto)
  show ?goal
  proof (cases v)
    case JNull
    with scalar [of VALUE_NULL "''null''"] delivers_literal [OF assms(2)] show ?goal by simp
  next
    case (JBool b)
    with scalar [of VALUE_BOOL "print v"] delivers_literal [OF assms(2)] show ?goal by (cases b) auto
  next
    case (JNum n)
    with scalar [of VALUE_NUMBER n] delivers_number assms show ?goal by auto
  next
    case (JStr x)
    with scalar [of VALUE_STRING x] delivers_string assms show ?goal by auto
  next
    case (JArr vs)
    with cont [of "CHR ''[''" "map print vs" "CHR '']''" VALUE_ARRAY] assms(1) json_skips show ?goal
      by (auto simp: list_all_iff)
  next
    case (JObj kvs)
    then have "skips x" if "x \<in> set (map (\<lambda>kv. quoted (fst kv) @ '':'' @ print (snd kv)) kvs)" for x
      using that assms(1) json_skips by (fastforce simp: list_all_iff intro!: skips_pair [simplified])
    with JObj cont [of "CHR ''{''" "map (\<lambda>kv. quoted (fst kv) @ '':'' @ print (snd kv)) kvs" "CHR ''}''" VALUE_OBJECT]
    show ?goal by auto
  qed
qed

lemma iter_array_next:
  assumes r: "json_discard_until (vdepth arr) r = Inr r1" and d: "delivers r1 tok n d" and data: "data r = data r1"
  shows "\<exists>v. json_iter_array arr r = Inr (fst tok \<noteq> VALUE_ERROR \<and> fst tok \<noteq> VALUE_END, v, (skip n r1)\<lparr>depth := d\<rparr>) \<and>
    (vtype v, text_of r v) = tok"
  using assms by (auto simp: json_iter_array_def delivers_def text_of_def)

lemma data_depth_skip [simp]: "data ((skip n r)\<lparr>depth := d\<rparr>) = data r"
  by simp

lemma array_elems_rest:
  assumes "list_all json_ok vs" and "vdepth arr = d" and "json_discard_until d r = Inr r1" and "data r = data r1" and "depth r1 = d"
    and "ready r1 (sep @ comma_sep (map print vs) @ CHR '']'' # s)"
    and "vs = [] \<and> sep = [] \<or> vs \<noteq> [] \<and> (sep = [] \<or> sep = '','')"
  shows "array_elems (Suc (length vs)) arr r =
    Inr (map (hd \<circ> tokens) vs, (skip (length sep + length (comma_sep (map print vs)) + 1) r1)\<lparr>depth := d - 1\<rparr>)"
  using assms
proof (induction vs arbitrary: r r1 sep)
  case Nil
  then have "ready r1 (CHR '']'' # s)" by simp
  from delivers_close [OF this] Nil.prems iter_array_next [of arr r r1 "(VALUE_END, '']'')" 1 "d - 1"]
  show ?case by auto
next
  case (Cons v vs)
  define rest where "rest = (if vs = [] then [] else '','') @ comma_sep (map print vs)"
  define r2 where "r2 = skip (length sep) r1"
  have split: "comma_sep (map print (v # vs)) = print v @ rest" by (cases vs) (simp_all add: rest_def)
  have r2: "ready r2 (print v @ rest @ CHR '']'' # s)"
    using ready_skip [of r1 sep] Cons.prems(6) unfolding split r2_def by simp
  have stop: "stops (rest @ CHR '']'' # s)" by (simp add: rest_def)
  obtain n e where ne: "delivers r2 (hd (tokens v)) n e" "fst (hd (tokens v)) \<noteq> VALUE_ERROR" "fst (hd (tokens v)) \<noteq> VALUE_END"
      "json_discard_until (depth r2) ((skip n r2)\<lparr>depth := e\<rparr>) = Inr (skip (length (print v)) r2)"
    using head_delivers [OF _ r2 stop] Cons.prems(1) by auto
  have same: "json_read r1 = json_read r2"
    using Cons.prems(6,7) json_read_char [of r1 "CHR '',''"] by (auto simp: r2_def is_separator_def)
  obtain x where x0: "json_read r1 = Inr (x, (skip n r2)\<lparr>depth := e\<rparr>)" "(vtype x, text_of r x) = hd (tokens v)"
    using ne(1) same Cons.prems(4) by (auto simp: delivers_def text_of_def r2_def)
  then have "vtype x \<noteq> VALUE_ERROR" "vtype x \<noteq> VALUE_END" using ne(2,3) by (metis fst_conv)+
  then have x: "json_iter_array arr r = Inr (True, x, (skip n r2)\<lparr>depth := e\<rparr>)" "(vtype x, text_of r x) = hd (tokens v)"
    using Cons.prems(2,3) x0 by (simp_all add: json_iter_array_def)
  have "array_elems (Suc (length vs)) arr ((skip n r2)\<lparr>depth := e\<rparr>) =
      Inr (map (hd \<circ> tokens) vs, (skip (length (if vs = [] then [] else '','') + length (comma_sep (map print vs)) + 1)
        (skip (length (print v)) r2))\<lparr>depth := d - 1\<rparr>)"
  proof (rule Cons.IH)
    show "json_discard_until d ((skip n r2)\<lparr>depth := e\<rparr>) = Inr (skip (length (print v)) r2)"
      using ne(4) Cons.prems(5) by (simp add: r2_def)
    show "ready (skip (length (print v)) r2) ((if vs = [] then [] else '','') @ comma_sep (map print vs) @ CHR '']'' # s)"
      using ready_skip [OF r2] by (simp add: rest_def)
  qed (use Cons.prems in \<open>auto simp: r2_def\<close>)
  with x have "array_elems (Suc (length (v # vs))) arr r =
      Inr (hd (tokens v) # map (hd \<circ> tokens) vs, (skip (length (print v) + length rest + 1) r2)\<lparr>depth := d - 1\<rparr>)"
    by (simp add: rest_def add.assoc)
  then show ?case unfolding split by (simp add: r2_def add.assoc)
qed

text \<open>
  Iterating over an array. After the opening bracket of an array has been read, a client that calls
  \<open>json_iter_array\<close> until it returns false gets the first value of each element in order: what is
  left of a nested array or object is skipped by the next call. The reader ends behind the
  array, at the depth it had before it.
\<close>

theorem json_iterates_array:
  assumes "json_ok (JArr vs)" and "ready r (print (JArr vs) @ s)"
  shows "\<exists>arr r1. json_read r = Inr (arr, r1) \<and> vtype arr = VALUE_ARRAY \<and>
    array_elems (Suc (length vs)) arr r1 = Inr (map (hd \<circ> tokens) vs, skip (length (print (JArr vs))) r)"
proof -
  have r0: "ready r (CHR ''['' # comma_sep (map print vs) @ CHR '']'' # s)" using assms(2) by simp
  define r1 where "r1 = (skip 1 r)\<lparr>depth := depth r + 1\<rparr>"
  obtain arr where arr: "json_read r = Inr (arr, r1)" "vtype arr = VALUE_ARRAY" "vdepth arr = depth r + 1"
    using delivers_open [OF r0, of VALUE_ARRAY] by (auto simp: delivers_def r1_def)
  have "array_elems (Suc (length vs)) arr r1 =
      Inr (map (hd \<circ> tokens) vs, (skip (length ([] :: string) + length (comma_sep (map print vs)) + 1) r1)\<lparr>depth := depth r + 1 - 1\<rparr>)"
    using assms(1) arr(3) ready_Cons [OF r0]
    by (intro array_elems_rest [where s = s]) (auto simp: r1_def discard_stop)
  then have "array_elems (Suc (length vs)) arr r1 = Inr (map (hd \<circ> tokens) vs, skip (length (print (JArr vs))) r)"
    by (simp add: r1_def skip_def)
  with arr show ?thesis by blast
qed

section \<open>Witnesses\<close>

definition demo_json :: json where
  "demo_json = JArr [JNum ''12'', JObj [(''k'', JArr [JNull, JBool True])], JStr ''x'']"

lemma demo_json_ok: "json_ok demo_json"
  by (simp add: demo_json_def num_raw_def json_is_number_cont_def is_digit_chr_def)

lemma demo_json_ready: "ready (json_new_reader (print demo_json) (length (print demo_json))) (print demo_json)"
  by (simp add: ready_def json_new_reader_def)

theorem json_read_print_witness:
  "read_tokens 11 (json_new_reader (print demo_json) (length (print demo_json))) =
     Inr (tokens demo_json, skip (length (print demo_json)) (json_new_reader (print demo_json) (length (print demo_json))))"
proof -
  have "length (tokens demo_json) = 11" by (simp add: demo_json_def)
  then show ?thesis
    using json_read_print [OF demo_json_ok, of "json_new_reader (print demo_json) (length (print demo_json))" "[]"]
      demo_json_ready by simp
qed

theorem json_iterates_array_witness:
  "\<exists>arr r1 r2. json_read (json_new_reader (print demo_json) (length (print demo_json))) = Inr (arr, r1) \<and>
     array_elems 4 arr r1 = Inr ([(VALUE_NUMBER, ''12''), (VALUE_OBJECT, ''{''), (VALUE_STRING, ''x'')], r2)"
proof -
  define r where "r = json_new_reader (print demo_json) (length (print demo_json))"
  define vs where "vs = [JNum ''12'', JObj [(''k'', JArr [JNull, JBool True])], JStr ''x'']"
  have vs: "JArr vs = demo_json" by (simp add: vs_def demo_json_def)
  have "ready r (print (JArr vs) @ [])" unfolding vs using demo_json_ready by (simp add: r_def)
  from json_iterates_array [OF demo_json_ok [folded vs] this] obtain arr r1 where
    "json_read r = Inr (arr, r1)" "array_elems (Suc (length vs)) arr r1 = Inr (map (hd \<circ> tokens) vs, skip (length (print (JArr vs))) r)"
    by blast
  then show ?thesis unfolding r_def [symmetric] by (auto simp: vs_def numeral_eq_Suc)
qed

text \<open>
  A backslash as the last character makes the reader step over the end of the text: it is then never
  equal to \<open>end\<close>, and the reader goes on into the memory behind the buffer.
\<close>

lemma json_escape_overrun: "json_read (json_new_reader [CHR 0x22, CHR 0x5C] 2) = Inl OutOfBounds"
proof -
  have "read_string (skip 1 (json_new_reader [CHR 0x22, CHR 0x5C] 2)) = Inl OutOfBounds"
    by (simp add: read_string.simps json_new_reader_def skip_def)
  then show ?thesis
    by (subst json_read.simps) (simp add: read_value_def Let_def json_new_reader_def)
qed

end
