(* ===== verification/Net.thy ===== *)
theory Net
  imports Bytes
begin

text \<open>
  The network stack below TCP: \<open>mckrnl/core/net/etherframe.c\<close>, \<open>arp.c\<close>, \<open>ipv4.c\<close>, \<open>icmp.c\<close> and
  \<open>udp.c\<close>, with the asynchronous tasks of \<open>scheduler/async.c\<close> that answer pings.

  Packets are lists of bytes; the fields of packed structures are little-endian, and the code
  compares and copies addresses and ports in that raw form. The network card is not modelled:
  \<open>sent\<close> collects the frames handed to \<open>send_packet\<close>. UDP sockets are objects on the heap, reached
  by pointers; \<open>sockets\<close> is that heap and using a freed socket is \<open>BadPointer\<close>. A socket of the
  socket manager gets its data through a callback; \<open>callbacks\<close> records these calls. Allocations
  succeed. TCP is another consumer of IPv4 packets and enters as the function \<open>tcp\<close>.
\<close>

section \<open>State\<close>

record icmp_message =
  icmp_type :: u8
  icmp_code :: u8
  icmp_checksum :: u16
  icmp_data :: u32

datatype async_run = IcmpAnswer u32 icmp_message | OtherTask nat

record async_task =
  a_taken :: bool
  a_blocking :: bool
  a_state :: u8
  a_run :: async_run

datatype udp_recv = PendingRecv | Callback nat

record udp_socket =
  remote_port :: u16
  local_port :: u16
  remote_ip :: u32
  local_ip :: u32
  route_mac :: u64
  listening :: bool
  udp_on_recv :: "udp_recv option"
  accept_queue :: "nat list"
  accept_queue_cap :: nat
  pending_data :: "u8 list"

datatype provider = ARP | IPV4

datatype ip_provider = ICMP | UDP | TCP

record netstack =
  mac :: u64
  ip :: u32
  subnet_mask :: u32
  gateway_ip :: u32
  ether_handlers :: "(u16 \<times> provider) list"
  ip_cache :: "u32 list"
  mac_cache :: "u64 list"
  num_cache_entry :: nat
  ipv4_handlers :: "(u8 \<times> ip_provider) list"
  last_echo_reply_ip :: u32
  binds :: "(u16 \<times> nat option) list"
  free_port :: int
  sockets :: "nat \<Rightarrow> udp_socket option"
  next_socket :: nat
  async_tasks :: "async_task list"
  sent :: "u8 list list"
  callbacks :: "(nat \<times> nat \<times> u8 list) list"

definition STATE_INIT :: u8 where "STATE_INIT = 0"
definition STATE_REQUEST :: u8 where "STATE_REQUEST = 1"
definition STATE_WAIT :: u8 where "STATE_WAIT = 2"
definition STATE_DONE :: u8 where "STATE_DONE = 255"
definition CACHE_SIZE :: nat where "CACHE_SIZE = 128"
definition MAX_ASYNC_TASKS :: nat where "MAX_ASYNC_TASKS = 16"
definition NOMAC :: u64 where "NOMAC = 0xFFFFFFFFFFFF"
definition NOIP :: u32 where "NOIP = 0xFFFFFFFF"

definition BSWAP16 :: "u16 \<Rightarrow> u16" where
  "BSWAP16 n = push_bit 8 (n AND 0x00FF) OR drop_bit 8 (n AND 0xFF00)"

section \<open>Asynchronous tasks\<close>

text \<open>The last free slot is used; when no slot is free the task is dropped.\<close>

definition add_async_task :: "async_run \<Rightarrow> bool \<Rightarrow> 'a netstack_scheme \<Rightarrow> 'a netstack_scheme" where
  "add_async_task run blocking s =
     (case find (\<lambda>i. \<not> a_taken (async_tasks s ! i)) (rev [0..<MAX_ASYNC_TASKS]) of
        Some i \<Rightarrow> s\<lparr>async_tasks := (async_tasks s)[i :=
            \<lparr>a_taken = True, a_blocking = blocking, a_state = STATE_INIT, a_run = run\<rparr>]\<rparr>
      | None \<Rightarrow> s)"

section \<open>Ethernet frames\<close>

definition etherframe_register :: "u16 \<Rightarrow> provider \<Rightarrow> 'a netstack_scheme \<Rightarrow> 'a netstack_scheme" where
  "etherframe_register ty p s = s\<lparr>ether_handlers := ether_handlers s @ [(ty, p)]\<rparr>"

definition frame_bytes :: "u64 \<Rightarrow> u64 \<Rightarrow> u16 \<Rightarrow> u8 list" where
  "frame_bytes dest src ty = le_bytes 6 dest @ le_bytes 6 src @ le_bytes 2 (ucast ty)"

definition etherframe_send :: "u16 \<Rightarrow> u64 \<Rightarrow> u8 list \<Rightarrow> 'a netstack_scheme \<Rightarrow> 'a netstack_scheme" where
  "etherframe_send ty dest payload s = s\<lparr>sent := sent s @ [frame_bytes dest (mac s) ty @ payload]\<rparr>"

section \<open>ARP\<close>

record arp_message =
  hardware_type :: u16
  protocol :: u16
  hardware_address_size :: u8
  protocol_address_size :: u8
  command :: u16
  src_mac :: u64
  src_ip :: u32
  dest_mac :: u64
  dest_ip :: u32

definition arp_bytes :: "arp_message \<Rightarrow> u8 list" where
  "arp_bytes m = le_bytes 2 (ucast (hardware_type m)) @ le_bytes 2 (ucast (protocol m)) @
     [hardware_address_size m, protocol_address_size m] @ le_bytes 2 (ucast (command m)) @
     le_bytes 6 (src_mac m) @ le_bytes 4 (ucast (src_ip m)) @ le_bytes 6 (dest_mac m) @ le_bytes 4 (ucast (dest_ip m))"

definition arp_parse :: "u8 list \<Rightarrow> arp_message" where
  "arp_parse bs = \<lparr>hardware_type = ucast (field 0 2 bs), protocol = ucast (field 2 2 bs),
     hardware_address_size = ucast (field 4 1 bs), protocol_address_size = ucast (field 5 1 bs), command = ucast (field 6 2 bs),
     src_mac = field 8 6 bs, src_ip = ucast (field 14 4 bs), dest_mac = field 18 6 bs, dest_ip = ucast (field 24 4 bs)\<rparr>"

definition ARP_TYPE :: u16 where
  "ARP_TYPE = BSWAP16 0x806"

definition arp_add_to_cache :: "u64 \<Rightarrow> u32 \<Rightarrow> 'a netstack_scheme \<Rightarrow> 'a netstack_scheme" where
  "arp_add_to_cache m a s =
     (if a \<in> set (take CACHE_SIZE (ip_cache s)) then s
      else let n = (if \<not> num_cache_entry s < 128 then 0 else num_cache_entry s)
           in s\<lparr>ip_cache := (ip_cache s)[n := a], mac_cache := (mac_cache s)[n := m], num_cache_entry := n + 1\<rparr>)"

definition arp_etherframe_recv :: "u8 list \<Rightarrow> 'a netstack_scheme \<Rightarrow> 'a netstack_scheme" where
  "arp_etherframe_recv payload s =
     (if length payload < 28 then s
      else let a = arp_parse payload
           in if hardware_type a = 0x0100 \<and> protocol a = 0x0008 \<and> hardware_address_size a = 6 \<and>
                 protocol_address_size a = 4 \<and> dest_ip a = ip s then
                if command a = 0x0100 then
                  let r = a\<lparr>command := 0x0200, dest_ip := src_ip a, dest_mac := src_mac a, src_ip := ip s, src_mac := mac s\<rparr>
                  in etherframe_send ARP_TYPE (dest_mac r) (arp_bytes r) s
                else if command a = 0x0200 then arp_add_to_cache (src_mac a) (src_ip a) s
                else s
              else s)"

definition arp_message_of :: "u16 \<Rightarrow> u64 \<Rightarrow> u32 \<Rightarrow> 'a netstack_scheme \<Rightarrow> arp_message" where
  "arp_message_of cmd dmac dip s = \<lparr>hardware_type = 0x0100, protocol = 0x0008, hardware_address_size = 6,
     protocol_address_size = 4, command = cmd, src_mac = mac s, src_ip = ip s, dest_mac = dmac, dest_ip = dip\<rparr>"

definition arp_request_mac :: "u32 \<Rightarrow> 'a netstack_scheme \<Rightarrow> 'a netstack_scheme" where
  "arp_request_mac a s = etherframe_send ARP_TYPE NOMAC (arp_bytes (arp_message_of 0x0100 NOMAC a s)) s"

definition arp_get_mac_from_cache :: "'a netstack_scheme \<Rightarrow> u32 \<Rightarrow> u64" where
  "arp_get_mac_from_cache s a =
     (case find (\<lambda>i. ip_cache s ! i = a) [0..<CACHE_SIZE] of Some i \<Rightarrow> mac_cache s ! i | None \<Rightarrow> NOMAC)"

text \<open>One call of the state machine: the address, the new state and the stack.\<close>

definition arp_resolve :: "u8 \<Rightarrow> u32 \<Rightarrow> 'a netstack_scheme \<Rightarrow> u64 \<times> u8 \<times> 'a netstack_scheme" where
  "arp_resolve st a s =
     (if st = STATE_INIT then
        if a = NOIP then (NOMAC, STATE_DONE, s) else (NOMAC, STATE_REQUEST, s)
      else if st = STATE_REQUEST then
        let r = arp_get_mac_from_cache s a
        in if r = NOMAC then (NOMAC, STATE_WAIT, arp_request_mac a s) else (r, STATE_DONE, s)
      else if st = STATE_WAIT then
        let r = arp_get_mac_from_cache s a
        in if r \<noteq> NOMAC then (r, STATE_DONE, s) else (NOMAC, STATE_WAIT, s)
      else if st = STATE_DONE then (NOMAC, STATE_DONE, s)
      else (NOMAC, STATE_INIT, s))"

definition arp_broadcast_mac :: "u8 \<Rightarrow> u32 \<Rightarrow> 'a netstack_scheme \<Rightarrow> u8 \<times> 'a netstack_scheme" where
  "arp_broadcast_mac st a s =
     (let (d, st', s1) = arp_resolve st a s
      in if st' = STATE_DONE then (st', etherframe_send ARP_TYPE d (arp_bytes (arp_message_of 0x0200 d a s1)) s1)
         else (st', s1))"

definition arp_init :: "'a netstack_scheme \<Rightarrow> 'a netstack_scheme" where
  "arp_init s = etherframe_register ARP_TYPE ARP
     (s\<lparr>ip_cache := replicate CACHE_SIZE 0xFFFFFFFF, mac_cache := replicate CACHE_SIZE 0xFFFFFFFFFFFFFFFF, num_cache_entry := 0\<rparr>)"

section \<open>IPv4\<close>

definition ipv4_register :: "u8 \<Rightarrow> ip_provider \<Rightarrow> 'a netstack_scheme \<Rightarrow> 'a netstack_scheme" where
  "ipv4_register proto p s = s\<lparr>ipv4_handlers := ipv4_handlers s @ [(proto, p)]\<rparr>"

text \<open>The address of the next hop: hosts outside the own network are reached by the gateway.\<close>

definition route_of :: "'a netstack_scheme \<Rightarrow> u32 \<Rightarrow> u32" where
  "route_of s dest =
     (if dest AND subnet_mask s \<noteq> ip s AND subnet_mask s \<and> dest \<noteq> 0xffffffff then gateway_ip s else dest)"

definition ipv4_resolve_route :: "u8 \<Rightarrow> u32 \<Rightarrow> 'a netstack_scheme \<Rightarrow> u64 \<times> u8 \<times> 'a netstack_scheme" where
  "ipv4_resolve_route st dest s = arp_resolve st (route_of s dest) s"

text \<open>
  The sum of the 16-bit words in network order. The last byte of an odd number of bytes is a
  signed \<open>char\<close>, so it is sign extended before it is shifted.
\<close>

fun word_sum :: "u8 list \<Rightarrow> u32" where
  "word_sum [] = 0"
| "word_sum [b] = push_bit 8 (ucast (scast b :: u16))"
| "word_sum (a # b # bs) = (push_bit 8 (ucast a) OR ucast b) + word_sum bs"

lemma unat_and_ffff: "unat (x AND 0xFFFF :: u32) = unat x mod 65536"
proof -
  have "x AND 0xFFFF = take_bit 16 x" by (simp add: take_bit_eq_mask mask_eq_exp_minus_1)
  then show ?thesis by (simp add: take_bit_eq_mod unat_mod)
qed

lemma fold_less:
  assumes "x AND 0xFFFF0000 \<noteq> (0 :: u32)"
  shows "unat ((x AND 0xFFFF) + drop_bit 16 x) < unat x"
proof -
  have low: "unat (x AND 0xFFFF) = unat x mod 65536" by (rule unat_and_ffff)
  have high: "unat (drop_bit 16 x) = unat x div 65536" by (simp add: drop_bit_eq_div unat_div)
  have "unat x \<ge> 65536"
  proof (rule ccontr)
    assume "\<not> unat x \<ge> 65536"
    then have "x = x AND 0xFFFF" using low by (metis mod_less not_le word_unat_eq_iff)
    then have "x AND 0xFFFF0000 = x AND (0xFFFF AND 0xFFFF0000)" by (metis and.assoc)
    with assms show False by simp
  qed
  then have d: "unat x div 65536 \<ge> 1" by (simp add: div_le_mono)
  have "unat ((x AND 0xFFFF) + drop_bit 16 x) \<le> unat x mod 65536 + unat x div 65536"
    unfolding unat_word_ariths low high by simp
  also have "\<dots> < unat x mod 65536 + 65536 * (unat x div 65536)"
    unfolding add_less_cancel_left using d by linarith
  also have "\<dots> = unat x" by (rule mod_mult_div_eq)
  finally show ?thesis .
qed

function fold16 :: "u32 \<Rightarrow> u32" where
  "fold16 t = (if t AND 0xFFFF0000 \<noteq> 0 then fold16 ((t AND 0xFFFF) + drop_bit 16 t) else t)"
  by pat_completeness auto
termination
  by (relation "measure unat") (auto intro: fold_less)

declare fold16.simps [simp del]

definition ipv4_checksum :: "u8 list \<Rightarrow> u16" where
  "ipv4_checksum data =
     (let t = NOT (fold16 (word_sum data))
      in ucast (drop_bit 8 (t AND 0xFF00) OR push_bit 8 (t AND 0x00FF)))"

definition IPV4_TYPE :: u16 where
  "IPV4_TYPE = BSWAP16 0x0800"

definition ipv4_header :: "u16 \<Rightarrow> u8 \<Rightarrow> u16 \<Rightarrow> u32 \<Rightarrow> u32 \<Rightarrow> u8 list" where
  "ipv4_header total_length proto checksum src dst =
     [0x45, 0] @ le_bytes 2 (ucast total_length) @ le_bytes 2 0 @ le_bytes 2 0 @ [0x40, proto] @
     le_bytes 2 (ucast checksum) @ le_bytes 4 (ucast src) @ le_bytes 4 (ucast dst)"

definition ipv4_send :: "u8 \<Rightarrow> u32 \<Rightarrow> u64 \<Rightarrow> u8 list \<Rightarrow> 'a netstack_scheme \<Rightarrow> 'a netstack_scheme" where
  "ipv4_send proto dest route payload s =
     (let tl = BSWAP16 (of_nat (length payload + 20));
          c = ipv4_checksum (ipv4_header tl proto 0 (ip s) dest)
      in etherframe_send IPV4_TYPE route (ipv4_header tl proto c (ip s) dest @ payload) s)"

section \<open>ICMP\<close>

definition icmp_bytes :: "icmp_message \<Rightarrow> u8 list" where
  "icmp_bytes m = [icmp_type m, icmp_code m] @ le_bytes 2 (ucast (icmp_checksum m)) @ le_bytes 4 (ucast (icmp_data m))"

definition icmp_parse :: "u8 list \<Rightarrow> icmp_message" where
  "icmp_parse bs = \<lparr>icmp_type = ucast (field 0 1 bs), icmp_code = ucast (field 1 1 bs), icmp_checksum = ucast (field 2 2 bs),
     icmp_data = ucast (field 4 4 bs)\<rparr>"

definition with_checksum :: "icmp_message \<Rightarrow> icmp_message" where
  "with_checksum m = m\<lparr>icmp_checksum := ipv4_checksum (icmp_bytes (m\<lparr>icmp_checksum := 0\<rparr>))\<rparr>"

definition icmp_send_echo_request :: "u32 \<Rightarrow> u64 \<Rightarrow> 'a netstack_scheme \<Rightarrow> 'a netstack_scheme" where
  "icmp_send_echo_request dest route s =
     ipv4_send 0x01 dest route (icmp_bytes (with_checksum \<lparr>icmp_type = 8, icmp_code = 0, icmp_checksum = 0, icmp_data = 0x3713\<rparr>)) s"

definition icmp_send_echo_request_and_wait :: "u8 \<Rightarrow> u32 \<Rightarrow> u64 \<Rightarrow> 'a netstack_scheme \<Rightarrow> u8 \<times> 'a netstack_scheme" where
  "icmp_send_echo_request_and_wait st dest route s =
     (if st = STATE_REQUEST then (STATE_WAIT, icmp_send_echo_request dest route (s\<lparr>last_echo_reply_ip := 0\<rparr>))
      else if st = STATE_WAIT then (if last_echo_reply_ip s = dest then STATE_DONE else STATE_WAIT, s)
      else if st = STATE_DONE then (STATE_DONE, s)
      else (STATE_REQUEST, s))"

definition icmp_async_answer :: "u8 \<Rightarrow> u32 \<Rightarrow> icmp_message \<Rightarrow> 'a netstack_scheme \<Rightarrow> u8 \<times> 'a netstack_scheme" where
  "icmp_async_answer st src m s =
     (let (route, st', s1) = ipv4_resolve_route st src s
      in if st' = STATE_DONE then
           (st', ipv4_send 0x01 src route (icmp_bytes (with_checksum (m\<lparr>icmp_type := 0\<rparr>))) s1)
         else (st', s1))"

definition icmp_ipv4_recv :: "u32 \<Rightarrow> u8 list \<Rightarrow> u32 \<Rightarrow> 'a netstack_scheme \<Rightarrow> 'a netstack_scheme kres" where
  "icmp_ipv4_recv src payload sz s =
     (if sz < 8 then Inr s
      else if length payload < 8 then Inl OutOfBounds
      else let m = icmp_parse payload
           in if icmp_type m = 0 then Inr (s\<lparr>last_echo_reply_ip := src\<rparr>)
              else if icmp_type m = 8 then Inr (add_async_task (IcmpAnswer src m) False s)
              else Inr s)"

text \<open>
  One pass over the asynchronous tasks. Of the tasks that block only the first one that is not done runs.
  The tasks of other parts of the kernel are given by \<open>other\<close>.
\<close>

definition run_async :: "(nat \<Rightarrow> u8 \<Rightarrow> 'a netstack_scheme \<Rightarrow> u8 \<times> 'a netstack_scheme) \<Rightarrow> nat \<Rightarrow> 'a netstack_scheme \<Rightarrow> 'a netstack_scheme" where
  "run_async other i s =
     (let t = async_tasks s ! i;
          (st, s1) = (case a_run t of IcmpAnswer src m \<Rightarrow> icmp_async_answer (a_state t) src m s
                      | OtherTask k \<Rightarrow> other k (a_state t) s);
          t1 = (async_tasks s1 ! i)\<lparr>a_state := st\<rparr>
      in s1\<lparr>async_tasks := (async_tasks s1)[i := (if st = STATE_DONE then t1\<lparr>a_taken := False\<rparr> else t1)]\<rparr>)"

fun process_async_from :: "(nat \<Rightarrow> u8 \<Rightarrow> 'a netstack_scheme \<Rightarrow> u8 \<times> 'a netstack_scheme) \<Rightarrow> nat list \<Rightarrow> bool \<Rightarrow> 'a netstack_scheme \<Rightarrow> 'a netstack_scheme" where
  "process_async_from other [] blocked s = s"
| "process_async_from other (i # is) blocked s =
     (let t = async_tasks s ! i
      in if a_taken t \<and> a_state t \<noteq> STATE_DONE \<and> \<not> (a_blocking t \<and> blocked) then
           process_async_from other is (blocked \<or> a_blocking t) (run_async other i s)
         else process_async_from other is blocked s)"

definition process_async_tasks :: "(nat \<Rightarrow> u8 \<Rightarrow> 'a netstack_scheme \<Rightarrow> u8 \<times> 'a netstack_scheme) \<Rightarrow> 'a netstack_scheme \<Rightarrow> 'a netstack_scheme" where
  "process_async_tasks other s = process_async_from other [0..<MAX_ASYNC_TASKS] False s"

definition icmp_init :: "'a netstack_scheme \<Rightarrow> 'a netstack_scheme" where
  "icmp_init s = ipv4_register 0x01 ICMP (s\<lparr>last_echo_reply_ip := 0\<rparr>)"

section \<open>UDP\<close>

definition zero_socket :: udp_socket where
  "zero_socket = \<lparr>remote_port = 0, local_port = 0, remote_ip = 0, local_ip = 0, route_mac = 0, listening = False,
     udp_on_recv = None, accept_queue = [], accept_queue_cap = 0, pending_data = []\<rparr>"

definition alloc_socket :: "udp_socket \<Rightarrow> 'a netstack_scheme \<Rightarrow> nat \<times> 'a netstack_scheme" where
  "alloc_socket k s = (next_socket s, s\<lparr>sockets := (sockets s)(next_socket s \<mapsto> k), next_socket := next_socket s + 1\<rparr>)"

definition upd_socket :: "nat \<Rightarrow> (udp_socket \<Rightarrow> udp_socket) \<Rightarrow> 'a netstack_scheme \<Rightarrow> 'a netstack_scheme kres" where
  "upd_socket p f s =
     (case sockets s p of None \<Rightarrow> Inl BadPointer | Some k \<Rightarrow> Inr (s\<lparr>sockets := (sockets s)(p \<mapsto> f k)\<rparr>))"

text \<open>A socket is entered in the first free bind, or in a new one.\<close>

definition add_bind :: "u16 \<Rightarrow> nat \<Rightarrow> 'a netstack_scheme \<Rightarrow> 'a netstack_scheme" where
  "add_bind port p s =
     (case find (\<lambda>i. snd (binds s ! i) = None) [0..<length (binds s)] of
        Some i \<Rightarrow> s\<lparr>binds := (binds s)[i := (port, Some p)]\<rparr>
      | None \<Rightarrow> s\<lparr>binds := binds s @ [(port, Some p)]\<rparr>)"

text \<open>Disconnecting reads the bind table through the socket, so the socket must not be freed yet.\<close>

definition udp_socket_disconnect :: "nat \<Rightarrow> u8 \<Rightarrow> 'a netstack_scheme \<Rightarrow> (u8 \<times> 'a netstack_scheme) kres" where
  "udp_socket_disconnect p st s =
     (if st = STATE_INIT then
        if sockets s p = None then Inl BadPointer
        else (case find (\<lambda>i. snd (binds s ! i) = Some p) [0..<length (binds s)] of
                Some i \<Rightarrow> Inr (st, s\<lparr>binds := (binds s)[i := (fst (binds s ! i), None)], sockets := (sockets s)(p := None)\<rparr>)
              | None \<Rightarrow> Inr (STATE_DONE, s))
      else Inr (st, s))"

definition udp_header :: "u16 \<Rightarrow> u16 \<Rightarrow> u16 \<Rightarrow> u16 \<Rightarrow> u8 list" where
  "udp_header src_port dst_port len checksum =
     le_bytes 2 (ucast src_port) @ le_bytes 2 (ucast dst_port) @ le_bytes 2 (ucast len) @ le_bytes 2 (ucast checksum)"

text \<open>
  The length of a datagram is cut to 16 bits before the packet is allocated; when data and
  header do not fit in 16 bits the copy runs over the end of the packet.
\<close>

definition udp_socket_send :: "nat \<Rightarrow> u8 list \<Rightarrow> 'a netstack_scheme \<Rightarrow> 'a netstack_scheme kres" where
  "udp_socket_send p data s =
     (case sockets s p of
        None \<Rightarrow> Inl BadPointer
      | Some k \<Rightarrow>
          let total_size = (of_nat (length data + 8) :: u16)
          in if unat total_size < length data + 8 then Inl OutOfBounds
             else Inr (ipv4_send 0x11 (remote_ip k) (route_mac k)
                    (udp_header (local_port k) (remote_port k) (BSWAP16 total_size) 0 @ data) s))"

definition udp_connect :: "u8 \<Rightarrow> u32 \<Rightarrow> u16 \<Rightarrow> 'a netstack_scheme \<Rightarrow> nat option \<times> u8 \<times> 'a netstack_scheme" where
  "udp_connect st dest port s =
     (let (route, st', s1) = ipv4_resolve_route st dest s
      in if st' = STATE_DONE then
           let lp = BSWAP16 (of_int (free_port s1));
               k = zero_socket\<lparr>remote_ip := dest, remote_port := BSWAP16 port, local_port := lp, local_ip := ip s1,
                     route_mac := route\<rparr>;
               (p, s2) = alloc_socket k (s1\<lparr>free_port := free_port s1 + 1\<rparr>)
           in (Some p, st', add_bind lp p s2)
         else (None, st', s1))"

definition udp_set_local_port :: "nat \<Rightarrow> u16 \<Rightarrow> 'a netstack_scheme \<Rightarrow> 'a netstack_scheme kres" where
  "udp_set_local_port p port s = upd_socket p (\<lambda>k. k\<lparr>local_port := BSWAP16 port\<rparr>) s"

definition udp_listen :: "u16 \<Rightarrow> 'a netstack_scheme \<Rightarrow> nat \<times> 'a netstack_scheme" where
  "udp_listen port s =
     (let lp = BSWAP16 port;
          (p, s1) = alloc_socket (zero_socket\<lparr>local_port := lp, local_ip := ip s, listening := True\<rparr>) s
      in (p, add_bind lp p s1))"

definition udp_pending_recv :: "nat \<Rightarrow> u8 list \<Rightarrow> 'a netstack_scheme \<Rightarrow> 'a netstack_scheme kres" where
  "udp_pending_recv p data s = upd_socket p (\<lambda>k. k\<lparr>pending_data := pending_data k @ data\<rparr>) s"

definition udp_accept :: "nat \<Rightarrow> u8 \<Rightarrow> 'a netstack_scheme \<Rightarrow> (nat option \<times> u8 \<times> 'a netstack_scheme) kres" where
  "udp_accept p st s =
     (if st = STATE_INIT \<or> st = STATE_WAIT then
        (case sockets s p of
           None \<Rightarrow> Inl BadPointer
         | Some k \<Rightarrow>
             (case accept_queue k of
                [] \<Rightarrow> Inr (None, STATE_WAIT, s)
              | child # rest \<Rightarrow> Inr (Some child, STATE_DONE, s\<lparr>sockets := (sockets s)(p \<mapsto> k\<lparr>accept_queue := rest\<rparr>)\<rparr>)))
      else Inr (None, st, s))"

text \<open>The connected socket a datagram is for, and the listening socket seen last before it.\<close>

definition udp_match :: "udp_socket \<Rightarrow> u32 \<Rightarrow> u32 \<Rightarrow> u16 \<Rightarrow> u16 \<Rightarrow> bool" where
  "udp_match k src dst sport dport \<longleftrightarrow> \<not> listening k \<and> local_port k = dport \<and> remote_port k = sport \<and>
     (remote_ip k = src \<or> dst = 0xFFFFFFFF \<or> src = 0xFFFFFFFF \<or> remote_ip k = 0xFFFFFFFF)"

definition udp_listens :: "udp_socket \<Rightarrow> u32 \<Rightarrow> u16 \<Rightarrow> bool" where
  "udp_listens k dst dport \<longleftrightarrow> listening k \<and> local_port k = dport \<and> (local_ip k = dst \<or> dst = 0xFFFFFFFF)"

fun udp_find :: "'a netstack_scheme \<Rightarrow> u32 \<Rightarrow> u32 \<Rightarrow> u16 \<Rightarrow> u16 \<Rightarrow> (u16 \<times> nat option) list \<Rightarrow> nat option \<Rightarrow>
    (nat option \<times> nat option) kres" where
  "udp_find s src dst sport dport [] l = Inr (None, l)"
| "udp_find s src dst sport dport ((_, None) # bs) l = udp_find s src dst sport dport bs l"
| "udp_find s src dst sport dport ((_, Some p) # bs) l =
     (case sockets s p of
        None \<Rightarrow> Inl BadPointer
      | Some k \<Rightarrow>
          if udp_match k src dst sport dport then Inr (Some p, l)
          else udp_find s src dst sport dport bs (if udp_listens k dst dport then Some p else l))"

text \<open>A datagram for a listening socket creates a socket for its sender and queues it there.\<close>

definition udp_child :: "nat \<Rightarrow> udp_socket \<Rightarrow> u32 \<Rightarrow> u16 \<Rightarrow> 'a netstack_scheme \<Rightarrow> (nat \<times> 'a netstack_scheme) kres" where
  "udp_child lp l src sport s =
     (let child = zero_socket\<lparr>local_port := local_port l, local_ip := local_ip l, remote_port := sport, remote_ip := src,
            udp_on_recv := Some PendingRecv, route_mac := arp_get_mac_from_cache s (route_of s src)\<rparr>;
          (p, s1) = alloc_socket child s;
          s2 = add_bind (local_port l) p s1
      in kbind (upd_socket lp (\<lambda>l. l\<lparr>accept_queue := accept_queue l @ [p],
             accept_queue_cap := (if length (accept_queue l) \<ge> accept_queue_cap l
               then if accept_queue_cap l = 0 then 4 else accept_queue_cap l * 2 else accept_queue_cap l)\<rparr>) s2)
           (\<lambda>s3. Inr (p, s3)))"

definition udp_deliver :: "nat \<Rightarrow> u8 list \<Rightarrow> 'a netstack_scheme \<Rightarrow> 'a netstack_scheme kres" where
  "udp_deliver p data s =
     (case sockets s p of
        None \<Rightarrow> Inl BadPointer
      | Some k \<Rightarrow> (case udp_on_recv k of
            None \<Rightarrow> Inr s
          | Some PendingRecv \<Rightarrow> udp_pending_recv p data s
          | Some (Callback c) \<Rightarrow> Inr (s\<lparr>callbacks := callbacks s @ [(c, p, data)]\<rparr>)))"

definition udp_ipv4_recv :: "u32 \<Rightarrow> u32 \<Rightarrow> u8 list \<Rightarrow> u32 \<Rightarrow> 'a netstack_scheme \<Rightarrow> 'a netstack_scheme kres" where
  "udp_ipv4_recv src dst payload sz s =
     (if sz < 8 then Inr s
      else if length payload < 8 then Inl OutOfBounds
      else let sport = ucast (field 0 2 payload); dport = ucast (field 2 2 payload)
           in kbind (udp_find s src dst sport dport (binds s) None) (\<lambda>(k, l).
              kbind (case (k, l) of
                       (Some p, _) \<Rightarrow> Inr (Some p, s)
                     | (None, Some lp) \<Rightarrow> kbind (case sockets s lp of None \<Rightarrow> Inl BadPointer | Some x \<Rightarrow> Inr x) (\<lambda>x.
                         kbind (udp_child lp x src sport s) (\<lambda>(p, s1). Inr (Some p, s1)))
                     | (None, None) \<Rightarrow> Inr (None, s)) (\<lambda>(target, s1).
              case target of
                None \<Rightarrow> Inr s1
              | Some p \<Rightarrow> if unat sz \<le> length payload then udp_deliver p (take (unat sz - 8) (drop 8 payload)) s1
                          else Inl OutOfBounds)))"

definition udp_init :: "'a netstack_scheme \<Rightarrow> 'a netstack_scheme" where
  "udp_init s = ipv4_register 0x11 UDP (s\<lparr>binds := [], free_port := 1024\<rparr>)"

section \<open>Reception\<close>

type_synonym 'a ip_consumer = "u32 \<Rightarrow> u32 \<Rightarrow> u8 list \<Rightarrow> u32 \<Rightarrow> 'a netstack_scheme \<Rightarrow> 'a netstack_scheme kres"

definition ipv4_dispatch :: "'a ip_consumer \<Rightarrow> ip_provider \<Rightarrow> 'a ip_consumer" where
  "ipv4_dispatch tcp p src dst payload sz =
     (case p of ICMP \<Rightarrow> icmp_ipv4_recv src payload sz | UDP \<Rightarrow> udp_ipv4_recv src dst payload sz | TCP \<Rightarrow> tcp src dst payload sz)"

fun ipv4_handle :: "'a ip_consumer \<Rightarrow> (u8 \<times> ip_provider) list \<Rightarrow> u8 \<Rightarrow> 'a ip_consumer" where
  "ipv4_handle tcp [] proto src dst payload sz s = Inr s"
| "ipv4_handle tcp ((pr, p) # hs) proto src dst payload sz s =
     kbind (if pr = proto then ipv4_dispatch tcp p src dst payload sz s else Inr s)
       (ipv4_handle tcp hs proto src dst payload sz)"

definition ipv4_etherframe_recv :: "'a ip_consumer \<Rightarrow> u8 list \<Rightarrow> 'a netstack_scheme \<Rightarrow> 'a netstack_scheme kres" where
  "ipv4_etherframe_recv tcp payload s =
     (if length payload < 20 then Inr s
      else let b0 = ucast (field 0 1 payload) :: u8; hb = 4 * (unat b0 mod 16); dst = ucast (field 16 4 payload)
           in if unat b0 div 16 \<noteq> 4 then Inr s
              else if dst = ip s \<or> dst = 0xFFFFFFFF \<or> ip s = 0 then
                let tl = unat (BSWAP16 (ucast (field 2 2 payload)));
                    len = (if tl = 0 \<or> tl > length payload then length payload else tl)
                in ipv4_handle tcp (ipv4_handlers s) (ucast (field 9 1 payload)) (ucast (field 12 4 payload)) dst
                     (drop hb payload) (of_nat len - of_nat hb) s
              else Inr s)"

definition ipv4_init :: "'a netstack_scheme \<Rightarrow> 'a netstack_scheme" where
  "ipv4_init s = etherframe_register IPV4_TYPE IPV4 s"

fun ether_handle :: "'a ip_consumer \<Rightarrow> (u16 \<times> provider) list \<Rightarrow> u16 \<Rightarrow> u8 list \<Rightarrow> 'a netstack_scheme \<Rightarrow> 'a netstack_scheme kres" where
  "ether_handle tcp [] ty payload s = Inr s"
| "ether_handle tcp ((t, p) # hs) ty payload s =
     kbind (if t = ty then (case p of ARP \<Rightarrow> Inr (arp_etherframe_recv payload s) | IPV4 \<Rightarrow> ipv4_etherframe_recv tcp payload s)
            else Inr s)
       (ether_handle tcp hs ty payload)"

definition etherframe_nic_recv :: "'a ip_consumer \<Rightarrow> u8 list \<Rightarrow> 'a netstack_scheme \<Rightarrow> 'a netstack_scheme kres" where
  "etherframe_nic_recv tcp data s =
     (if length data < 14 then Inl OutOfBounds
      else if field 0 6 data = 0xFFFFFFFFFFFF \<or> field 0 6 data = mac s then
        ether_handle tcp (ether_handlers s) (ucast (field 12 2 data)) (drop 14 data) s
      else Inr s)"

text \<open>\<open>load_network_stack\<close> for a card with the given name and address, with TCP switched off.\<close>

definition load_network_stack :: "string \<Rightarrow> u64 \<Rightarrow> netstack" where
  "load_network_stack device m =
     udp_init (icmp_init (ipv4_init (arp_init
       \<lparr>mac = m, ip = (if device = ''loopback'' then 0x0100007f else NOIP),
        subnet_mask = (if device = ''loopback'' then 0x000000ff else NOIP), gateway_ip = NOIP, ether_handlers = [], ip_cache = [], mac_cache = [],
        num_cache_entry = 0, ipv4_handlers = [], last_echo_reply_ip = 0, binds = [], free_port = 0, sockets = (\<lambda>_. None),
        next_socket = 1, async_tasks = replicate MAX_ASYNC_TASKS
          \<lparr>a_taken = False, a_blocking = False, a_state = 0, a_run = OtherTask 0\<rparr>, sent = [], callbacks = []\<rparr>)))"

end
