(* ===== verification/Tcp.thy ===== *)
theory Tcp
  imports Net
begin

text \<open>
  TCP, \<open>mckrnl/core/net/tcp.c\<close>: sockets, their connection states, the segments they send
  and receive, and retransmission.

  The state extends the network stack. Sockets are objects reached by pointers, as in UDP;
  \<open>now_ms\<close> is what the timer shows. Data for the owner of a socket goes through the callback
  \<open>recv\<close>, recorded in \<open>callbacks\<close>; calling it while it is \<open>NULL\<close> is \<open>BadPointer\<close>. \<open>binds_junk\<close> is what a newly
  allocated array of binds contains. The simulated loss of packets is compiled out.
\<close>

section \<open>State\<close>

datatype tcp_socket_state =
  CLOSED | LISTEN | SYN_SENT | SYN_RECEIVED | ESTABLISHED | FIN_WAIT1 | FIN_WAIT2 | CLOSING | TIME_WAIT | CLOSE_WAIT

definition FIN :: u16 where "FIN = 1"
definition SYN :: u16 where "SYN = 2"
definition RST :: u16 where "RST = 4"
definition PSH :: u16 where "PSH = 8"
definition ACK :: u16 where "ACK = 16"

definition TCP_RETRANSMIT_TIMEOUT_MS :: u32 where "TCP_RETRANSMIT_TIMEOUT_MS = 100"
definition TCP_RETRANSMIT_MAX_RETRIES :: u8 where "TCP_RETRANSMIT_MAX_RETRIES = 8"
definition TCP_CTL_TIMEOUT_MS :: u32 where "TCP_CTL_TIMEOUT_MS = 300"
definition TCP_CTL_MAX_RETRIES :: u8 where "TCP_CTL_MAX_RETRIES = 8"

record tcp_socket =
  t_remote_port :: u16
  t_local_port :: u16
  t_remote_ip :: u32
  t_local_ip :: u32
  t_route_mac :: u64
  t_listening :: bool
  sequence_number :: u32
  ack_number :: u32
  t_state :: tcp_socket_state
  t_recv :: "nat option"
  tx_unacked_data :: "u8 list option"
  tx_unacked_len :: u32
  tx_unacked_seq :: u32
  tx_unacked_flags :: u16
  tx_last_send_ms :: u32
  tx_retries :: u8
  tx_max_retries :: u8

record tcpstack = netstack +
  tcp_sockets :: "nat \<Rightarrow> tcp_socket option"
  next_tcp :: nat
  tcp_binds :: "(u16 \<times> nat option) list"
  tcp_free_port :: int
  now_ms :: u32
  binds_junk :: "nat \<Rightarrow> u16 \<times> nat option"

definition BSWAP32 :: "u32 \<Rightarrow> u32" where
  "BSWAP32 n = drop_bit 24 (n AND 0xFF000000) OR drop_bit 8 (n AND 0x00FF0000) OR push_bit 8 (n AND 0x0000FF00) OR
     push_bit 24 (n AND 0x000000FF)"

definition the_socket :: "nat \<Rightarrow> 'a tcpstack_scheme \<Rightarrow> tcp_socket kres" where
  "the_socket p s = (case tcp_sockets s p of None \<Rightarrow> Inl BadPointer | Some t \<Rightarrow> Inr t)"

definition put_socket :: "nat \<Rightarrow> tcp_socket \<Rightarrow> 'a tcpstack_scheme \<Rightarrow> 'a tcpstack_scheme" where
  "put_socket p t s = s\<lparr>tcp_sockets := (tcp_sockets s)(p \<mapsto> t)\<rparr>"

section \<open>Sending\<close>

definition tcp_seq_after_eq :: "u32 \<Rightarrow> u32 \<Rightarrow> bool" where
  "tcp_seq_after_eq a b \<longleftrightarrow> sint (a - b) \<ge> 0"

definition tcp_tx_clear_unacked :: "tcp_socket \<Rightarrow> tcp_socket" where
  "tcp_tx_clear_unacked t = t\<lparr>tx_unacked_data := None, tx_unacked_len := 0, tx_unacked_seq := 0, tx_unacked_flags := 0,
     tx_last_send_ms := 0, tx_retries := 0\<rparr>"

definition tcp_tx_track_unacked :: "u8 list \<Rightarrow> u16 \<Rightarrow> u32 \<Rightarrow> u32 \<Rightarrow> tcp_socket \<Rightarrow> tcp_socket" where
  "tcp_tx_track_unacked data flags seq_at_send now t =
     (if data = [] \<or> flags AND PSH = 0 then t
      else (tcp_tx_clear_unacked t)\<lparr>tx_unacked_data := Some data, tx_unacked_len := of_nat (length data), tx_unacked_seq := seq_at_send,
             tx_unacked_flags := flags, tx_last_send_ms := now, tx_retries := 0,
             tx_max_retries := (if tx_max_retries t = 0 then TCP_RETRANSMIT_MAX_RETRIES else tx_max_retries t)\<rparr>)"

text \<open>Header and data of a segment; the checksum covers a pseudo header in front of them.\<close>

definition tcp_header :: "tcp_socket \<Rightarrow> u32 \<Rightarrow> u16 \<Rightarrow> u32 \<Rightarrow> u16 \<Rightarrow> u8 list" where
  "tcp_header t seqno flags options checksum =
     le_bytes 2 (ucast (t_local_port t)) @ le_bytes 2 (ucast (t_remote_port t)) @ le_bytes 4 (ucast (BSWAP32 seqno)) @
     le_bytes 4 (ucast (BSWAP32 (ack_number t))) @ [0x60, ucast flags] @ le_bytes 2 0xFFFF @ le_bytes 2 (ucast checksum) @
     le_bytes 2 0 @ le_bytes 4 (ucast options)"

definition tcp_pseudo_header :: "tcp_socket \<Rightarrow> u16 \<Rightarrow> u8 list" where
  "tcp_pseudo_header t total_length =
     le_bytes 4 (ucast (t_local_ip t)) @ le_bytes 4 (ucast (t_remote_ip t)) @ le_bytes 2 0x0600 @ le_bytes 2 (ucast (BSWAP16 total_length))"

definition tcp_segment :: "tcp_socket \<Rightarrow> u32 \<Rightarrow> u16 \<Rightarrow> u32 \<Rightarrow> u8 list \<Rightarrow> u8 list" where
  "tcp_segment t seqno flags options data =
     (let c = ipv4_checksum (tcp_pseudo_header t (of_nat (length data + 24)) @ tcp_header t seqno flags options 0 @ data)
      in tcp_header t seqno flags options c @ data)"

text \<open>The lengths are kept in 16 bits, so larger data overruns the packet.\<close>

definition fits_packet :: "u8 list \<Rightarrow> bool" where
  "fits_packet data \<longleftrightarrow> length data + 36 < 65536"

definition tcp_socket_send_internal :: "nat \<Rightarrow> u8 list \<Rightarrow> u16 \<Rightarrow> 'a tcpstack_scheme \<Rightarrow> 'a tcpstack_scheme kres" where
  "tcp_socket_send_internal p data flags s =
     kbind (the_socket p s) (\<lambda>t.
     if \<not> fits_packet data then Inl OutOfBounds
     else
       let seq_consume = (if flags AND (SYN OR FIN) \<noteq> 0 then 1 else 0);
           options = (if flags AND SYN \<noteq> 0 then 0xB4050402 else 0);
           t1 = tcp_tx_track_unacked data flags (sequence_number t) (now_ms s) t;
           s1 = ipv4_send 0x06 (t_remote_ip t) (t_route_mac t) (tcp_segment t (sequence_number t) flags options data) s
       in Inr (put_socket p (t1\<lparr>sequence_number := sequence_number t1 + of_nat (length data) + seq_consume\<rparr>) s1))"

definition tcp_socket_resend_unacked :: "nat \<Rightarrow> 'a tcpstack_scheme \<Rightarrow> 'a tcpstack_scheme kres" where
  "tcp_socket_resend_unacked p s =
     kbind (the_socket p s) (\<lambda>t.
     case tx_unacked_data t of
       None \<Rightarrow> Inr s
     | Some data \<Rightarrow>
         if tx_unacked_len t = 0 then Inr s
         else if \<not> fits_packet data then Inl OutOfBounds
         else Inr (put_socket p (t\<lparr>tx_last_send_ms := now_ms s, tx_retries := tx_retries t + 1\<rparr>)
                (ipv4_send 0x06 (t_remote_ip t) (t_route_mac t)
                  (tcp_segment t (tx_unacked_seq t) (ucast (ucast (tx_unacked_flags t) :: u8)) 0 data) s)))"

definition tcp_socket_send :: "nat \<Rightarrow> u8 list \<Rightarrow> 'a tcpstack_scheme \<Rightarrow> 'a tcpstack_scheme kres" where
  "tcp_socket_send p data s = tcp_socket_send_internal p data (PSH OR ACK) s"

section \<open>Connecting and disconnecting\<close>

definition unbind :: "nat \<Rightarrow> 'a tcpstack_scheme \<Rightarrow> 'a tcpstack_scheme" where
  "unbind p s =
     (case find (\<lambda>i. snd (tcp_binds s ! i) = Some p) [0..<length (tcp_binds s)] of
        Some i \<Rightarrow> s\<lparr>tcp_binds := (tcp_binds s)[i := (fst (tcp_binds s ! i), None)]\<rparr>
      | None \<Rightarrow> s)"

definition tcp_socket_disconnect :: "nat \<Rightarrow> u8 \<Rightarrow> 'a tcpstack_scheme \<Rightarrow> (u8 \<times> 'a tcpstack_scheme) kres" where
  "tcp_socket_disconnect p st s =
     (if st = STATE_INIT then
        kbind (the_socket p s) (\<lambda>t.
        if t_state t = ESTABLISHED then
          kbind (tcp_socket_send_internal p [] (FIN OR ACK) (put_socket p (t\<lparr>t_state := FIN_WAIT1\<rparr>) s)) (\<lambda>s1.
          kbind (the_socket p s1) (\<lambda>t1.
          Inr (STATE_WAIT, put_socket p (t1\<lparr>sequence_number := sequence_number t1 + 1\<rparr>) s1)))
        else Inr (STATE_WAIT, s))
      else if st = STATE_WAIT then
        kbind (the_socket p s) (\<lambda>t.
        if t_state t \<noteq> CLOSED then Inr (st, s)
        else Inr (STATE_DONE, (unbind p s)\<lparr>tcp_sockets := (tcp_sockets s)(p := None)\<rparr>))
      else Inr (st, s))"

definition tcp_set_local_port :: "nat \<Rightarrow> u16 \<Rightarrow> 'a tcpstack_scheme \<Rightarrow> 'a tcpstack_scheme kres" where
  "tcp_set_local_port p port s = kbind (the_socket p s) (\<lambda>t. Inr (put_socket p (t\<lparr>t_local_port := BSWAP16 port\<rparr>) s))"

definition new_tcp_socket :: "u32 \<Rightarrow> u16 \<Rightarrow> u64 \<Rightarrow> 'a tcpstack_scheme \<Rightarrow> tcp_socket" where
  "new_tcp_socket dest port route s =
     \<lparr>t_remote_port = BSWAP16 port, t_local_port = BSWAP16 (of_int (tcp_free_port s)), t_remote_ip = dest, t_local_ip = ip s,
      t_route_mac = route, t_listening = False, sequence_number = now_ms s, ack_number = 0, t_state = SYN_SENT, t_recv = None,
      tx_unacked_data = None, tx_unacked_len = 0, tx_unacked_seq = 0, tx_unacked_flags = 0, tx_last_send_ms = 0, tx_retries = 0,
      tx_max_retries = 0\<rparr>"

text \<open>
  Without a free entry the code allocates a longer array but does not copy the old one: apart from the
  new last entry it contains what the memory held before.
\<close>

definition add_tcp_bind :: "u16 \<Rightarrow> nat \<Rightarrow> 'a tcpstack_scheme \<Rightarrow> 'a tcpstack_scheme" where
  "add_tcp_bind port p s =
     (case find (\<lambda>i. snd (tcp_binds s ! i) = None) [0..<length (tcp_binds s)] of
        Some i \<Rightarrow> s\<lparr>tcp_binds := (tcp_binds s)[i := (port, Some p)]\<rparr>
      | None \<Rightarrow> s\<lparr>tcp_binds := map (binds_junk s) [0..<length (tcp_binds s)] @ [(port, Some p)]\<rparr>)"

text \<open>
  The asynchronous state is a state byte and the pointer \<open>data\<close>. The result is the returned socket, both parts
  of the asynchronous state and the stack.
\<close>

definition tcp_connect ::
  "u8 \<Rightarrow> nat option \<Rightarrow> u32 \<Rightarrow> u16 \<Rightarrow> 'a tcpstack_scheme \<Rightarrow> (nat option \<times> u8 \<times> nat option \<times> 'a tcpstack_scheme) kres" where
  "tcp_connect st dat dest port s =
     (case dat of
        None \<Rightarrow>
          let (route, st', s1) = ipv4_resolve_route st dest s
          in if st' \<noteq> STATE_DONE then Inr (None, st', None, s1)
             else
               let p = next_tcp s1; t = new_tcp_socket dest port route s1;
                   s2 = add_tcp_bind (t_local_port t) p
                     ((put_socket p t s1)\<lparr>next_tcp := p + 1, tcp_free_port := tcp_free_port s1 + 1\<rparr>)
               in kbind (tcp_socket_send_internal p [] SYN s2) (\<lambda>s3. Inr (None, STATE_WAIT, Some p, s3))
      | Some p \<Rightarrow>
          if st = STATE_WAIT then
            kbind (the_socket p s) (\<lambda>t.
            if t_state t = ESTABLISHED then Inr (Some p, STATE_DONE, Some p, s) else Inr (None, st, Some p, s))
          else if st = STATE_DONE then Inr (Some p, st, Some p, s)
          else Inr (None, STATE_WAIT, Some p, s))"

section \<open>Receiving\<close>

text \<open>The socket a segment is for; a listening one is connected to the sender.\<close>

fun tcp_find :: "u32 \<Rightarrow> u32 \<Rightarrow> u16 \<Rightarrow> u16 \<Rightarrow> (u16 \<times> nat option) list \<Rightarrow> 'a tcpstack_scheme \<Rightarrow> (nat option \<times> 'a tcpstack_scheme) kres" where
  "tcp_find src dst sport dport [] s = Inr (None, s)"
| "tcp_find src dst sport dport ((_, None) # bs) s = tcp_find src dst sport dport bs s"
| "tcp_find src dst sport dport ((_, Some p) # bs) s =
     kbind (the_socket p s) (\<lambda>t.
     if t_local_port t = dport \<and> t_local_ip t = dst \<and> t_listening t then
       Inr (Some p, put_socket p (t\<lparr>t_listening := False, t_remote_port := sport, t_remote_ip := src\<rparr>) s)
     else if t_remote_port t = sport \<and> t_remote_ip t = src then Inr (Some p, s)
     else tcp_find src dst sport dport bs s)"

definition ack_unacked :: "u8 \<Rightarrow> u32 \<Rightarrow> tcp_socket \<Rightarrow> tcp_socket" where
  "ack_unacked flags recv_ack t =
     (if flags AND ucast ACK \<noteq> 0 \<and> tx_unacked_len t \<noteq> 0 then
        if \<not> tcp_seq_after_eq recv_ack (tx_unacked_seq t) \<or> tcp_seq_after_eq recv_ack (sequence_number t + 1) then t
        else if tcp_seq_after_eq recv_ack (tx_unacked_seq t + tx_unacked_len t) then tcp_tx_clear_unacked t
        else t
      else t)"

text \<open>Data in sequence goes to the owner and is acknowledged; other data only repeats the last acknowledgement.\<close>

definition tcp_recv_data :: "nat \<Rightarrow> u32 \<Rightarrow> u8 list \<Rightarrow> 'a tcpstack_scheme \<Rightarrow> 'a tcpstack_scheme kres" where
  "tcp_recv_data p recv_seq data s =
     (if data = [] then Inr s
      else
        kbind (the_socket p s) (\<lambda>t.
        if recv_seq = ack_number t then
          (case t_recv t of
             None \<Rightarrow> Inl BadPointer
           | Some cb \<Rightarrow>
               tcp_socket_send_internal p [] ACK
                 (put_socket p (t\<lparr>ack_number := ack_number t + of_nat (length data)\<rparr>) (s\<lparr>callbacks := callbacks s @ [(cb, p, data)]\<rparr>)))
        else tcp_socket_send_internal p [] ACK s))"

definition set_state :: "nat \<Rightarrow> tcp_socket_state \<Rightarrow> 'a tcpstack_scheme \<Rightarrow> 'a tcpstack_scheme kres" where
  "set_state p x s = kbind (the_socket p s) (\<lambda>t. Inr (put_socket p (t\<lparr>t_state := x\<rparr>) s))"

text \<open>The switch over the flags; the boolean result asks for a reset.\<close>

definition tcp_recv_fin :: "nat \<Rightarrow> u32 \<Rightarrow> nat \<Rightarrow> 'a tcpstack_scheme \<Rightarrow> (bool \<times> 'a tcpstack_scheme) kres" where
  "tcp_recv_fin p recv_seq payload_bytes s =
     kbind (the_socket p s) (\<lambda>t.
     if recv_seq \<noteq> ack_number t then kbind (tcp_socket_send_internal p [] ACK s) (\<lambda>s1. Inr (False, s1))
     else
       let t1 = t\<lparr>ack_number := recv_seq + of_nat payload_bytes + 1\<rparr>
       in case t_state t of
            ESTABLISHED \<Rightarrow>
              kbind (tcp_socket_send_internal p [] ACK (put_socket p (t1\<lparr>t_state := CLOSE_WAIT\<rparr>) s)) (\<lambda>s1.
              kbind (tcp_socket_send_internal p [] (FIN OR ACK) s1) (\<lambda>s2. Inr (False, s2)))
          | CLOSE_WAIT \<Rightarrow> Inr (False, put_socket p (t1\<lparr>t_state := CLOSED\<rparr>) s)
          | FIN_WAIT1 \<Rightarrow> kbind (tcp_socket_send_internal p [] ACK (put_socket p (t1\<lparr>t_state := CLOSED\<rparr>) s)) (\<lambda>s1. Inr (False, s1))
          | FIN_WAIT2 \<Rightarrow> kbind (tcp_socket_send_internal p [] ACK (put_socket p (t1\<lparr>t_state := CLOSED\<rparr>) s)) (\<lambda>s1. Inr (False, s1))
          | _ \<Rightarrow> Inr (True, put_socket p t1 s))"

definition tcp_recv_ack :: "nat \<Rightarrow> u32 \<Rightarrow> u32 \<Rightarrow> u8 list \<Rightarrow> 'a tcpstack_scheme \<Rightarrow> (bool \<times> 'a tcpstack_scheme) kres" where
  "tcp_recv_ack p recv_seq recv_ack data s =
     kbind (the_socket p s) (\<lambda>t.
     case t_state t of
       CLOSE_WAIT \<Rightarrow> Inr (False, put_socket p (t\<lparr>t_state := CLOSED\<rparr>) s)
     | SYN_RECEIVED \<Rightarrow> kbind (tcp_recv_data p recv_seq data (put_socket p (t\<lparr>t_state := ESTABLISHED\<rparr>) s)) (\<lambda>s1. Inr (False, s1))
     | FIN_WAIT1 \<Rightarrow>
         kbind (tcp_recv_data p recv_seq data
           (if recv_ack = sequence_number t then put_socket p (t\<lparr>t_state := FIN_WAIT2\<rparr>) s else s)) (\<lambda>s1. Inr (False, s1))
     | _ \<Rightarrow> kbind (tcp_recv_data p recv_seq data s) (\<lambda>s1. Inr (False, s1)))"

definition tcp_recv_flags :: "nat \<Rightarrow> u16 \<Rightarrow> u32 \<Rightarrow> u32 \<Rightarrow> u8 list \<Rightarrow> 'a tcpstack_scheme \<Rightarrow> (bool \<times> 'a tcpstack_scheme) kres" where
  "tcp_recv_flags p flags recv_seq recv_ack data s =
     kbind (the_socket p s) (\<lambda>t.
     let f = flags AND (SYN OR ACK OR FIN)
     in if f = SYN then Inr (True, s)
        else if f = SYN OR ACK then
          if t_state t = SYN_SENT then
            kbind (tcp_socket_send_internal p [] ACK (put_socket p (t\<lparr>t_state := ESTABLISHED, ack_number := recv_seq + 1\<rparr>) s))
              (\<lambda>s1. Inr (False, s1))
          else Inr (True, s)
        else if f = SYN OR FIN \<or> f = SYN OR FIN OR ACK then Inr (True, s)
        else if f = FIN \<or> f = FIN OR ACK then tcp_recv_fin p recv_seq (length data) s
        else if f = ACK then tcp_recv_ack p recv_seq recv_ack data s
        else kbind (tcp_recv_data p recv_seq data s) (\<lambda>s1. Inr (False, s1)))"

definition tcp_finish :: "nat \<Rightarrow> bool \<Rightarrow> 'a tcpstack_scheme \<Rightarrow> 'a tcpstack_scheme kres" where
  "tcp_finish p reset s =
     kbind (if reset then kbind (tcp_socket_send_internal p [] RST s) (set_state p CLOSED) else Inr s) (\<lambda>s1.
     kbind (the_socket p s1) (\<lambda>t.
     if t_state t = CLOSED then Inr (unbind p (put_socket p (tcp_tx_clear_unacked t) s1)) else Inr s1))"

definition tcp_ipv4_recv :: "u32 \<Rightarrow> u32 \<Rightarrow> u8 list \<Rightarrow> u32 \<Rightarrow> 'a tcpstack_scheme \<Rightarrow> 'a tcpstack_scheme kres" where
  "tcp_ipv4_recv src dst payload sz s =
     (if length payload < 20 then Inl OutOfBounds
      else
        let header_bytes = unat (drop_bit 4 (ucast (field 12 1 payload) :: u8)) * 4
        in if header_bytes < 20 \<or> unat sz < header_bytes then Inr s
           else if length payload < unat sz then Inl OutOfBounds
           else
             kbind (tcp_find src dst (ucast (field 0 2 payload)) (ucast (field 2 2 payload)) (tcp_binds s) s) (\<lambda>(found, s1).
             case found of
               None \<Rightarrow> Inr s1
             | Some p \<Rightarrow>
                 let data = take (unat sz - header_bytes) (drop header_bytes payload);
                     recv_seq = BSWAP32 (ucast (field 4 4 payload)); recv_ack = BSWAP32 (ucast (field 8 4 payload));
                     flags = (ucast (field 13 1 payload) :: u8)
                 in kbind (the_socket p s1) (\<lambda>t.
                    let t1 = ack_unacked flags recv_ack t;
                        t2 = (if flags AND ucast RST \<noteq> 0 then t1\<lparr>t_state := CLOSED\<rparr> else t1);
                        s2 = put_socket p t2 s1
                    in kbind (if t_state t2 \<noteq> CLOSED then tcp_recv_flags p (ucast flags) recv_seq recv_ack data s2 else Inr (False, s2))
                         (\<lambda>(reset, s3). tcp_finish p reset s3))))"

section \<open>Retransmission\<close>

definition tcp_poll_socket :: "nat \<Rightarrow> u32 \<Rightarrow> 'a tcpstack_scheme \<Rightarrow> 'a tcpstack_scheme kres" where
  "tcp_poll_socket p now s =
     kbind (the_socket p s) (\<lambda>t.
     if t_state t = CLOSED then Inr s
     else if t_state t = SYN_SENT then
       let t1 = (if tx_last_send_ms t = 0 then t\<lparr>tx_last_send_ms := now\<rparr> else t)
       in if now - tx_last_send_ms t1 \<ge> TCP_CTL_TIMEOUT_MS then
            if tx_retries t1 \<ge> TCP_CTL_MAX_RETRIES then Inr (put_socket p (tcp_tx_clear_unacked (t1\<lparr>t_state := CLOSED\<rparr>)) s)
            else tcp_socket_send_internal p [] SYN (put_socket p (t1\<lparr>tx_last_send_ms := now, tx_retries := tx_retries t1 + 1\<rparr>) s)
          else Inr (put_socket p t1 s)
     else if tx_unacked_len t = 0 \<or> tx_unacked_data t = None then Inr s
     else if tx_last_send_ms t = 0 then Inr (put_socket p (t\<lparr>tx_last_send_ms := now\<rparr>) s)
     else
       let timeout = (if tx_retries t > 0 then TCP_RETRANSMIT_TIMEOUT_MS * push_bit (if tx_retries t > 4 then 4 else unat (tx_retries t)) 1
                      else TCP_RETRANSMIT_TIMEOUT_MS)
       in if now - tx_last_send_ms t \<ge> timeout then
            if tx_retries t \<ge> (if tx_max_retries t \<noteq> 0 then tx_max_retries t else TCP_RETRANSMIT_MAX_RETRIES) then
              Inr (put_socket p (tcp_tx_clear_unacked (t\<lparr>t_state := CLOSED\<rparr>)) s)
            else tcp_socket_resend_unacked p s
          else Inr s)"

fun tcp_poll_from :: "nat list \<Rightarrow> u32 \<Rightarrow> 'a tcpstack_scheme \<Rightarrow> 'a tcpstack_scheme kres" where
  "tcp_poll_from [] now s = Inr s"
| "tcp_poll_from (i # is) now s =
     kbind (case snd (tcp_binds s ! i) of None \<Rightarrow> Inr s | Some p \<Rightarrow> tcp_poll_socket p now s) (tcp_poll_from is now)"

definition tcp_poll :: "'a tcpstack_scheme \<Rightarrow> 'a tcpstack_scheme kres" where
  "tcp_poll s = tcp_poll_from [0..<length (tcp_binds s)] (now_ms s) s"

text \<open>\<open>tcp_poll_task\<close> is the asynchronous task number 0 of the parts of the kernel outside the stack.\<close>

definition tcp_init :: "'a tcpstack_scheme \<Rightarrow> 'a tcpstack_scheme" where
  "tcp_init s = add_async_task (OtherTask 0) False (ipv4_register 0x06 TCP (s\<lparr>tcp_binds := [], tcp_free_port := 1024\<rparr>))"

end
