(* ===== verification/Net_Proofs.thy ===== *)
theory Net_Proofs
  imports Net
begin

text \<open>
  Properties of the network stack: checksums verify, addresses are resolved, and datagrams and
  pings reach their destination.
\<close>

section \<open>The internet checksum\<close>

text \<open>The sum of the words of an even number of bytes, as a number.\<close>

fun nat_sum :: "u8 list \<Rightarrow> nat" where
  "nat_sum (a # b # bs) = 256 * unat a + unat b + nat_sum bs"
| "nat_sum _ = 0"

lemma or_bytes: "push_bit 8 (ucast a) OR ucast b = (of_nat (256 * unat a + unat b) :: u32)" for a b :: u8
proof -
  have "push_bit 8 (ucast a) AND ucast b = (0 :: u32)"
    by (rule bit_eqI) (auto simp: bit_simps dest: bit_imp_le_length)
  then have "push_bit 8 (ucast a) OR ucast b = push_bit 8 (ucast a) + (ucast b :: u32)"
    by (simp add: disjunctive_add_eq_or)
  then show ?thesis by (simp add: push_bit_eq_mult mult.commute)
qed

lemma word_sum_nat: "even (length bs) \<Longrightarrow> word_sum bs = of_nat (nat_sum bs)"
proof (induction bs rule: nat_sum.induct)
  case (1 a b bs)
  then have "word_sum bs = of_nat (nat_sum bs)" by simp
  then show ?case by (simp only: word_sum.simps nat_sum.simps or_bytes of_nat_add)
qed simp_all

lemma nat_sum_append: "even (length xs) \<Longrightarrow> nat_sum (xs @ ys) = nat_sum xs + nat_sum ys"
  by (induction xs rule: nat_sum.induct) simp_all

lemma unat_byte: "unat (b :: u8) \<le> 255"
  using unsigned_less [of b, where 'a = nat] by simp

lemma nat_sum_bound: "nat_sum bs \<le> 65535 * (length bs div 2)"
proof (induction bs rule: nat_sum.induct)
  case (1 a b bs)
  then show ?case using unat_byte [of a] unat_byte [of b] by simp
qed simp_all

lemma fold16_spec:
  "unat (fold16 t) mod 65535 = unat t mod 65535 \<and> unat (fold16 t) \<le> 65535 \<and> (unat (fold16 t) = 0 \<longleftrightarrow> unat t = 0)"
proof (induction t rule: fold16.induct)
  case (1 t)
  define q where "q = unat t div 65536"
  define r where "r = unat t mod 65536"
  have t: "unat t = 65536 * q + r" by (simp add: q_def r_def)
  have "q < 65536" using unat_lt_32 [of t] by (simp add: q_def less_mult_imp_div_less)
  moreover have "r < 65536" by (simp add: r_def)
  moreover have high: "unat (drop_bit 16 t) = q" by (simp add: drop_bit_eq_div unat_div q_def)
  moreover have low: "unat (t AND 0xFFFF) = r" by (simp add: unat_and_ffff r_def)
  ultimately have step: "unat ((t AND 0xFFFF) + drop_bit 16 t) = r + q" by (simp add: unat_word_ariths)
  show ?case
  proof (cases "t AND 0xFFFF0000 = 0")
    case True
    have "(0xFFFFFFFF :: u32) = - 1" by simp
    then have "t = t AND 0xFFFFFFFF" by (metis bit.conj_one_right)
    also have "\<dots> = (t AND 0xFFFF) OR (t AND 0xFFFF0000)"
      using bit.conj_disj_distrib [of t "0xFFFF" "0xFFFF0000"] by simp
    finally have "t = (t AND 0xFFFF) OR (t AND 0xFFFF0000)" .
    then have "unat t = r" using True low by simp
    then show ?thesis using True \<open>r < 65536\<close> by (subst (1 2 3) fold16.simps) simp
  next
    case False
    have "(65536 * q + r) mod 65535 = (r + q) mod 65535"
      using mod_mult_self2 [of "r + q" 65535 q] by (simp add: algebra_simps)
    then show ?thesis using 1 [OF False] False step t by (subst (1 2 3) fold16.simps) auto
  qed
qed

lemma and_ff00: "x AND 0xFF00 = push_bit 8 (take_bit 8 (drop_bit 8 x))" for x :: u32
proof -
  have "(0xFF00 :: u32) = push_bit 8 (mask 8)" by (simp add: mask_eq_exp_minus_1 push_bit_eq_mult)
  then have "x AND 0xFF00 = x AND push_bit 8 (mask 8)" by (rule arg_cong)
  also have "\<dots> = push_bit 8 (take_bit 8 (drop_bit 8 x))" by (rule bit_eqI) (auto simp: bit_simps)
  finally show ?thesis .
qed

lemma and_ff: "x AND 0xFF = take_bit 8 x" for x :: u32
  by (simp add: take_bit_eq_mask mask_eq_exp_minus_1)

text \<open>The two bytes of a checksum, in network order.\<close>

lemma checksum_bytes:
  assumes "unat t \<le> 65535"
  shows "le_bytes 2 (ucast (ucast (drop_bit 8 (NOT t AND 0xFF00) OR push_bit 8 (NOT t AND 0x00FF)) :: u16)) =
    [ucast (drop_bit 8 (NOT (t :: u32))), ucast (NOT t)]"
proof -
  define x where "x = NOT t"
  have "drop_bit 8 (x AND 0xFF00) = take_bit 8 (drop_bit 8 x)"
    unfolding and_ff00 by (rule bit_eqI) (auto simp: bit_simps)
  then have v: "drop_bit 8 (x AND 0xFF00) OR push_bit 8 (x AND 0x00FF) = take_bit 8 (drop_bit 8 x) OR push_bit 8 (take_bit 8 x)"
    by (simp add: and_ff)
  have lo: "(ucast (ucast (ucast (take_bit 8 (drop_bit 8 x) OR push_bit 8 (take_bit 8 x)) :: u16) :: u64) :: u8) = ucast (drop_bit 8 x)"
    by (rule bit_eqI) (auto simp: bit_simps dest: bit_imp_le_length)
  have hi: "(ucast ((ucast (ucast (take_bit 8 (drop_bit 8 x) OR push_bit 8 (take_bit 8 x)) :: u16) :: u64) div 256) :: u8) = ucast x"
    unfolding drop_bit_eq_div [of 8, simplified, symmetric] by (rule bit_eqI) (auto simp: bit_simps dest: bit_imp_le_length)
  show ?thesis unfolding x_def [symmetric] v by (simp add: numeral_2_eq_2 lo hi)
qed

lemma unat_low_byte: "unat (ucast x :: u8) = unat (x :: u32) mod 256"
  by (simp add: unsigned_ucast_eq take_bit_eq_mod)

lemma complement_bytes:
  assumes "unat t \<le> 65535"
  shows "nat_sum [ucast (drop_bit 8 (NOT (t :: u32))), ucast (NOT t)] = 65535 - unat t"
proof -
  define x where "x = unat (NOT t)"
  have "NOT t = - 1 - t" by (simp add: not_eq_complement)
  moreover have "unat (- 1 - t) = unat (- 1 :: u32) - unat t" by (rule unat_sub) simp
  moreover have "(- 1 :: u32) = 4294967295" by simp
  ultimately have x: "x = 4294967295 - unat t" by (simp add: x_def)
  have "256 * (x div 256 mod 256) + x mod 256 = x mod 65536"
    using mod_mult2_eq [of x 256 256] by simp
  also have "x mod 65536 = 65535 - unat t"
  proof -
    have e: "x = 65535 - unat t + 65536 * 65535" using assms x by simp
    show ?thesis unfolding e mod_mult_self2 by simp
  qed
  finally show ?thesis by (simp add: unat_low_byte drop_bit_eq_div unat_div x_def [symmetric])
qed

lemma checksum_field_verifies:
  assumes "even (length pre)" and "even (length post)" and "length pre + length post < 131000"
  shows "ipv4_checksum (pre @ le_bytes 2 (ucast (ipv4_checksum (pre @ [0, 0] @ post))) @ post) = 0"
proof -
  define n where "n = nat_sum pre + nat_sum post"
  define t where "t = fold16 (of_nat n)"
  have "n \<le> 65535 * ((length pre + length post) div 2)"
    using nat_sum_bound [of pre] nat_sum_bound [of post] assms(1,2) by (simp add: n_def div_add algebra_simps)
  also have "\<dots> \<le> 65535 * 65500" using assms(3) by simp
  finally have bound: "n + 65535 < 4294967296" by simp
  have t: "unat t mod 65535 = n mod 65535" "unat t \<le> 65535" "unat t = 0 \<longleftrightarrow> n = 0"
    using fold16_spec [of "of_nat n"] bound by (auto simp: t_def unat_of_nat)
  have "word_sum (pre @ [0, 0] @ post) = of_nat n"
    using assms(1,2) by (simp add: word_sum_nat nat_sum_append n_def)
  then have c: "le_bytes 2 (ucast (ipv4_checksum (pre @ [0, 0] @ post))) = [ucast (drop_bit 8 (NOT t)), ucast (NOT t)]"
    unfolding ipv4_checksum_def Let_def t_def [symmetric] using checksum_bytes [OF t(2)] by (simp add: t_def)
  define m where "m = n + (65535 - unat t)"
  have "word_sum (pre @ [ucast (drop_bit 8 (NOT t)), ucast (NOT t)] @ post) = of_nat m"
    using assms(1,2) complement_bytes [OF t(2)] by (simp add: word_sum_nat nat_sum_append n_def m_def)
  moreover have "fold16 (of_nat m) = 0xFFFF"
  proof -
    have "m < 4294967296" using bound by (simp add: m_def)
    then have f: "unat (fold16 (of_nat m)) mod 65535 = m mod 65535" "unat (fold16 (of_nat m)) \<le> 65535"
        "unat (fold16 (of_nat m)) = 0 \<longleftrightarrow> m = 0"
      using fold16_spec [of "of_nat m"] by (auto simp: unat_of_nat)
    have "m mod 65535 = (unat t + (65535 - unat t)) mod 65535" unfolding m_def using t(1) by (metis mod_add_left_eq)
    then have "m mod 65535 = 0" using t(2) by simp
    moreover have "m \<noteq> 0" using t by (auto simp: m_def)
    ultimately have "unat (fold16 (of_nat m)) = 65535" using f
      by (metis le_neq_implies_less mod_less)
    then show ?thesis by (simp add: unat_eq_iff_32)
  qed
  ultimately show ?thesis unfolding c by (simp add: ipv4_checksum_def)
qed

lemma with_checksum_verifies: "ipv4_checksum (icmp_bytes (with_checksum m)) = 0"
proof -
  have "icmp_bytes (m\<lparr>icmp_checksum := 0\<rparr>) = [icmp_type m, icmp_code m] @ [0, 0] @ le_bytes 4 (ucast (icmp_data m))"
    by (simp add: icmp_bytes_def numeral_2_eq_2)
  then show ?thesis
    using checksum_field_verifies [of "[icmp_type m, icmp_code m]" "le_bytes 4 (ucast (icmp_data m))"]
    by (simp add: icmp_bytes_def with_checksum_def)
qed

lemma header_verifies: "ipv4_checksum (ipv4_header tlen proto (ipv4_checksum (ipv4_header tlen proto 0 src dst)) src dst) = 0"
proof -
  define pre where "pre = [0x45, 0] @ le_bytes 2 (ucast tlen) @ le_bytes 2 0 @ le_bytes 2 0 @ [0x40, proto]"
  define post where "post = le_bytes 4 (ucast src) @ le_bytes 4 (ucast dst)"
  have h: "ipv4_header tlen proto c src dst = pre @ le_bytes 2 (ucast c) @ post" for c
    by (simp add: ipv4_header_def pre_def post_def)
  have "le_bytes 2 (ucast (0 :: u16)) = [0, 0]" by (simp add: numeral_2_eq_2)
  then have "ipv4_header tlen proto 0 src dst = pre @ [0, 0] @ post" by (simp add: h)
  then show ?thesis
    using checksum_field_verifies [of pre post] by (simp add: h) (simp add: pre_def post_def)
qed

text \<open>
  C20. Checksums verify. The header of every packet that \<open>ipv4_send\<close> hands to the card, and every ICMP
  message given its checksum, sums up to a checksum of zero at the receiver.
\<close>

theorem checksums_verify:
  "(\<exists>frame. sent (ipv4_send proto dest route payload s) = sent s @ [frame] \<and>
     length frame = 34 + length payload \<and> ipv4_checksum (take 20 (drop 14 frame)) = 0 \<and> drop 34 frame = payload) \<and>
   ipv4_checksum (icmp_bytes (with_checksum m)) = 0"
proof -
  have "length (ipv4_header t proto c a b) = 20" "length (frame_bytes x y z) = 14" for t c a b x y z
    by (simp_all add: ipv4_header_def frame_bytes_def)
  then show ?thesis
    by (simp add: ipv4_send_def Let_def etherframe_send_def header_verifies with_checksum_verifies)
qed

text \<open>
  The last byte of an odd number of bytes is sign extended, so a byte above 0x7F changes the
  checksum of the message: here it differs from the checksum of the message padded with a zero.
  TCP computes checksums of segments of any length with this function.
\<close>

lemma checksum_odd_byte: "ipv4_checksum [0x80] \<noteq> ipv4_checksum [0x80, 0]"
proof -
  have f: "fold16 (word_sum [0x80]) = 0x80FF" "fold16 (word_sum [0x80, 0]) = 0x8000"
    by (simp_all add: fold16.simps)
  show ?thesis unfolding ipv4_checksum_def Let_def f by simp
qed

section \<open>Structures on the wire\<close>

named_theorems wire \<open>fields of encoded structures\<close>

lemma field_u16 [wire]: "ucast (take_bit 16 (ucast x :: u64)) = (x :: u16)"
  by (rule bit_eqI) (auto simp: bit_simps)

lemma field_u32 [wire]: "ucast (take_bit 32 (ucast x :: u64)) = (x :: u32)"
  by (rule bit_eqI) (auto simp: bit_simps)

lemma byte_roundtrip [wire]: "ucast (ucast (x :: u8) :: u64) = x"
  by (rule bit_eqI) (auto simp: bit_simps)

definition mac48 :: "u64 \<Rightarrow> bool" where
  "mac48 m \<longleftrightarrow> take_bit 48 m = m"

lemma arp_roundtrip:
  assumes "mac48 (src_mac m)" and "mac48 (dest_mac m)"
  shows "arp_parse (arp_bytes m) = m"
  using assms by (simp add: arp_parse_def arp_bytes_def field_def le_val_bytes wire mac48_def)

lemma arp_bytes_length [simp]: "length (arp_bytes m) = 28"
  by (simp add: arp_bytes_def)

lemma frame_parse:
  "field 0 6 (frame_bytes d m t @ p) = take_bit 48 d" "ucast (field 12 2 (frame_bytes d m t @ p)) = t"
  "drop 14 (frame_bytes d m t @ p) = p" "length (frame_bytes d m t) = 14"
  by (simp_all add: frame_bytes_def field_def le_val_bytes wire)

lemma types [simp]: "ARP_TYPE = 0x0608" "IPV4_TYPE = 0x0008"
  by (simp_all add: ARP_TYPE_def IPV4_TYPE_def BSWAP16_def)

text \<open>A stack as \<open>load_network_stack\<close> sets it up, configured with an address.\<close>

definition net_ok :: "'a netstack_scheme \<Rightarrow> bool" where
  "net_ok s \<longleftrightarrow> ether_handlers s = [(ARP_TYPE, ARP), (IPV4_TYPE, IPV4)] \<and>
     ipv4_handlers s = [(0x01, ICMP), (0x11, UDP)] \<and> mac48 (mac s) \<and> mac s \<noteq> NOMAC \<and> ip s \<noteq> NOIP \<and> ip s \<noteq> 0 \<and>
     length (ip_cache s) = CACHE_SIZE \<and> length (mac_cache s) = CACHE_SIZE \<and> num_cache_entry s \<le> CACHE_SIZE \<and>
     length (async_tasks s) = MAX_ASYNC_TASKS"

lemma recv_arp:
  assumes "net_ok s" and "mac48 d" and "d = NOMAC \<or> d = mac s"
  shows "etherframe_nic_recv tcp (frame_bytes d m ARP_TYPE @ p) s = Inr (arp_etherframe_recv p s)"
  using assms by (auto simp: etherframe_nic_recv_def frame_parse net_ok_def mac48_def NOMAC_def)

section \<open>Address resolution\<close>

lemma cache_miss: "net_ok s \<Longrightarrow> a \<notin> set (ip_cache s) \<Longrightarrow> arp_get_mac_from_cache s a = NOMAC"
proof -
  assume ok: "net_ok s" and a: "a \<notin> set (ip_cache s)"
  have "find (\<lambda>i. ip_cache s ! i = a) [0..<CACHE_SIZE] = None"
    using ok a by (auto simp: find_None_iff net_ok_def)
  then show ?thesis by (simp add: arp_get_mac_from_cache_def)
qed

lemma cache_add:
  assumes ok: "net_ok s" and a: "a \<notin> set (ip_cache s)"
  shows "arp_get_mac_from_cache (arp_add_to_cache m a s) a = m"
proof -
  define n where "n = (if \<not> num_cache_entry s < 128 then 0 else num_cache_entry s)"
  have n: "n < CACHE_SIZE" using ok by (auto simp: n_def net_ok_def CACHE_SIZE_def)
  have len: "length (ip_cache s) = CACHE_SIZE" "length (mac_cache s) = CACHE_SIZE" using ok by (simp_all add: net_ok_def)
  have "find (\<lambda>i. (ip_cache s)[n := a] ! i = a) [0..<CACHE_SIZE] = Some n"
    unfolding find_Some_iff
  proof (intro exI [of _ n] conjI allI impI)
    fix j assume "j < n"
    then show "(ip_cache s)[n := a] ! ([0..<CACHE_SIZE] ! j) \<noteq> a"
      using a len n nth_mem [of j "ip_cache s"] by auto
  qed (use n len in auto)
  then show ?thesis
    using a len n by (simp add: arp_get_mac_from_cache_def arp_add_to_cache_def Let_def n_def [symmetric])
qed

text \<open>
  C19. Address resolution. A host that does not know the hardware address of a neighbour asks for it;
  the neighbour answers the request, the answer is entered in the cache, and the next call of the
  resolver returns the hardware address of the neighbour.
\<close>

theorem arp_resolves_neighbour:
  assumes "net_ok A" and "net_ok B" and "ip B \<notin> set (ip_cache A)"
  shows "\<exists>A1 B1 A2 f g. arp_resolve STATE_REQUEST (ip B) A = (NOMAC, STATE_WAIT, A1) \<and> sent A1 = sent A @ [f] \<and>
    etherframe_nic_recv tcp f B = Inr B1 \<and> sent B1 = sent B @ [g] \<and> B1\<lparr>sent := sent B\<rparr> = B \<and>
    etherframe_nic_recv tcp g A1 = Inr A2 \<and> arp_resolve STATE_WAIT (ip B) A2 = (mac B, STATE_DONE, A2)"
proof -
  have macs: "mac48 (mac A)" "mac48 (mac B)" "mac B \<noteq> NOMAC" "mac48 NOMAC"
    using assms(1,2) by (simp_all add: net_ok_def, simp add: mac48_def NOMAC_def)
  define req where "req = arp_message_of 0x0100 NOMAC (ip B) A"
  define f where "f = frame_bytes NOMAC (mac A) ARP_TYPE @ arp_bytes req"
  define A1 where "A1 = A\<lparr>sent := sent A @ [f]\<rparr>"
  define rep where "rep = arp_message_of 0x0200 (mac A) (ip A) B"
  define g where "g = frame_bytes (mac A) (mac B) ARP_TYPE @ arp_bytes rep"
  have "arp_resolve STATE_REQUEST (ip B) A = (NOMAC, STATE_WAIT, A1)"
    using cache_miss [OF assms(1,3)]
    by (simp add: arp_resolve_def STATE_REQUEST_def STATE_INIT_def Let_def arp_request_mac_def etherframe_send_def
        A1_def f_def req_def)
  moreover have "etherframe_nic_recv tcp f B = Inr (B\<lparr>sent := sent B @ [g]\<rparr>)"
  proof -
    have "arp_parse (arp_bytes req) = req" using macs by (intro arp_roundtrip) (simp_all add: req_def arp_message_of_def)
    then have "arp_etherframe_recv (arp_bytes req) B = B\<lparr>sent := sent B @ [g]\<rparr>"
      by (simp add: arp_etherframe_recv_def Let_def req_def arp_message_of_def etherframe_send_def g_def rep_def)
    then show ?thesis using recv_arp [OF assms(2) macs(4)] by (simp add: f_def)
  qed
  moreover define A2 where "A2 = arp_add_to_cache (mac B) (ip B) A1"
  have "etherframe_nic_recv tcp g A1 = Inr A2"
  proof -
    have "arp_parse (arp_bytes rep) = rep" using macs by (intro arp_roundtrip) (simp_all add: rep_def arp_message_of_def)
    then have "arp_etherframe_recv (arp_bytes rep) A1 = A2"
      by (simp add: arp_etherframe_recv_def Let_def rep_def arp_message_of_def A2_def A1_def)
    moreover have "net_ok A1" using assms(1) by (simp add: A1_def net_ok_def)
    ultimately show ?thesis using recv_arp [of A1 "mac A"] macs(1) by (simp add: g_def A1_def)
  qed
  moreover have "arp_resolve STATE_WAIT (ip B) A2 = (mac B, STATE_DONE, A2)"
  proof -
    have "arp_get_mac_from_cache A2 (ip B) = mac B"
      unfolding A2_def using assms(1,3) by (intro cache_add) (simp_all add: A1_def net_ok_def)
    then show ?thesis using macs(3)
      by (simp add: arp_resolve_def STATE_WAIT_def STATE_INIT_def STATE_REQUEST_def Let_def)
  qed
  ultimately show ?thesis by (intro exI [of _ A1] exI [of _ "B\<lparr>sent := sent B @ [g]\<rparr>"] exI) (auto simp: A1_def)
qed

section \<open>Packets\<close>

lemma BSWAP16_twice: "BSWAP16 (BSWAP16 x) = x"
proof -
  have ff: "(0x00FF :: u16) = mask 8" "(0xFF00 :: u16) = push_bit 8 (mask 8)"
    by (simp_all add: mask_eq_exp_minus_1 push_bit_eq_mult)
  show ?thesis unfolding BSWAP16_def ff by (rule bit_eqI) (auto simp: bit_simps)
qed

lemma recv_ipv4:
  assumes ok: "net_ok s" and n: "length p + 20 < 65536"
  shows "etherframe_nic_recv tcp (frame_bytes (mac s) m IPV4_TYPE @
      ipv4_header (BSWAP16 (of_nat (length p + 20))) proto c src (ip s) @ p) s =
    ipv4_handle tcp (ipv4_handlers s) proto src (ip s) p (of_nat (length p)) s"
proof -
  define h where "h = ipv4_header (BSWAP16 (of_nat (length p + 20))) proto c src (ip s)"
  have len: "length h = 20" by (simp add: h_def ipv4_header_def)
  have f0: "field 0 1 (h @ p) = 0x45" and f2: "ucast (field 2 2 (h @ p)) = BSWAP16 (of_nat (length p + 20))"
    and f9: "ucast (field 9 1 (h @ p)) = proto" and f12: "ucast (field 12 4 (h @ p)) = src"
    and f16: "ucast (field 16 4 (h @ p)) = ip s"
    by (simp_all add: h_def ipv4_header_def field_def le_val_bytes wire)
  have tl: "unat (BSWAP16 (ucast (field 2 2 (h @ p)))) = length p + 20"
    unfolding f2 BSWAP16_twice using n by (simp add: unat_of_nat del: of_nat_add)
  have "ipv4_etherframe_recv tcp (h @ p) s = ipv4_handle tcp (ipv4_handlers s) proto src (ip s) p (of_nat (length p)) s"
    unfolding ipv4_etherframe_recv_def Let_def tl f0 f9 f12 f16 using len by simp
  moreover have "kbind r (ether_handle tcp [] ty pl) = r" for r ty pl by (cases r) simp_all
  moreover have "etherframe_nic_recv tcp (frame_bytes (mac s) m IPV4_TYPE @ h @ p) s =
      kbind (ipv4_etherframe_recv tcp (h @ p) s) (ether_handle tcp [] IPV4_TYPE (h @ p))"
    using ok by (simp add: etherframe_nic_recv_def frame_parse net_ok_def mac48_def)
  ultimately show ?thesis by (simp only: h_def)
qed

section \<open>Datagrams\<close>

definition bound :: "'a netstack_scheme \<Rightarrow> nat \<Rightarrow> udp_socket \<Rightarrow> bool" where
  "bound s p k \<longleftrightarrow> p \<in> Some -` snd ` set (binds s) \<and> sockets s p = Some k"

definition socks_ok :: "'a netstack_scheme \<Rightarrow> bool" where
  "socks_ok s \<longleftrightarrow> (\<forall>p. Some p \<in> snd ` set (binds s) \<longrightarrow> sockets s p \<noteq> None) \<and> (\<forall>p\<ge>next_socket s. sockets s p = None)"

lemma udp_find_listener:
  assumes "\<forall>p. Some p \<in> snd ` set bs \<longrightarrow> (\<exists>k. sockets s p = Some k \<and> \<not> udp_match k src dst sport dport \<and>
      (udp_listens k dst dport \<longleftrightarrow> p = lp))"
    and "l = Some lp \<or> Some lp \<in> snd ` set bs"
  shows "udp_find s src dst sport dport bs l = Inr (None, Some lp)"
  using assms
proof (induction bs arbitrary: l)
  case Nil
  then show ?case by simp
next
  case (Cons b bs)
  obtain port q where b: "b = (port, q)" by force
  have rest: "\<forall>p. Some p \<in> snd ` set bs \<longrightarrow> (\<exists>k. sockets s p = Some k \<and> \<not> udp_match k src dst sport dport \<and>
      (udp_listens k dst dport \<longleftrightarrow> p = lp))" using Cons.prems(1) by simp
  show ?case
  proof (cases q)
    case None
    then have "l = Some lp \<or> Some lp \<in> snd ` set bs" using Cons.prems(2) b by simp
    from Cons.IH [OF rest this] show ?thesis using b None by simp
  next
    case (Some p)
    then obtain k where k: "sockets s p = Some k" "\<not> udp_match k src dst sport dport" "udp_listens k dst dport \<longleftrightarrow> p = lp"
      using Cons.prems(1) b by auto
    have "(if p = lp then Some p else l) = Some lp \<or> Some lp \<in> snd ` set bs" using Cons.prems(2) b Some by auto
    from Cons.IH [OF rest this] show ?thesis using b Some k by simp
  qed
qed

lemma udp_recv_new:
  assumes ok: "socks_ok s" and l: "bound s lp kl" "udp_listens kl dst dport"
    and uniq: "\<And>p k. bound s p k \<Longrightarrow> udp_listens k dst dport \<Longrightarrow> p = lp"
    and none: "\<And>p k. bound s p k \<Longrightarrow> \<not> udp_match k src dst sport dport"
    and len: "length data + 8 < 65536"
  shows "\<exists>s' c ch kl'. udp_ipv4_recv src dst (udp_header sport dport n ck @ data) (of_nat (length data + 8)) s = Inr s' \<and>
    sockets s c = None \<and> sockets s' c = Some ch \<and> pending_data ch = data \<and> remote_ip ch = src \<and> remote_port ch = sport \<and>
    local_port ch = dport \<and> \<not> listening ch \<and> sockets s' lp = Some kl' \<and> accept_queue kl' = accept_queue kl @ [c] \<and>
    (\<forall>p. p \<noteq> c \<longrightarrow> p \<noteq> lp \<longrightarrow> sockets s' p = sockets s p)"
proof -
  define payload where "payload = udp_header sport dport n ck @ data"
  have p: "length payload = length data + 8" "ucast (field 0 2 payload) = sport" "ucast (field 2 2 payload) = dport"
      "drop 8 payload = data"
    by (simp_all add: payload_def udp_header_def field_def le_val_bytes wire)
  have sz: "unat (of_nat (length data + 8) :: u32) = length data + 8" using len by (simp add: unat_of_nat del: of_nat_add)
  then have big: "\<not> (of_nat (length data + 8) :: u32) < 8" by (simp add: word_less_nat_alt del: of_nat_add)
  have find: "udp_find s src dst sport dport (binds s) None = Inr (None, Some lp)"
  proof (rule udp_find_listener)
    show "None = Some lp \<or> Some lp \<in> snd ` set (binds s)" using l(1) by (simp add: bound_def)
    show "\<forall>p. Some p \<in> snd ` set (binds s) \<longrightarrow> (\<exists>k. sockets s p = Some k \<and> \<not> udp_match k src dst sport dport \<and>
      (udp_listens k dst dport \<longleftrightarrow> p = lp))"
    proof (intro allI impI)
      fix p assume p: "Some p \<in> snd ` set (binds s)"
      then obtain k where k: "sockets s p = Some k" using ok by (auto simp: socks_ok_def)
      then have "bound s p k" using p by (simp add: bound_def)
      then show "\<exists>k. sockets s p = Some k \<and> \<not> udp_match k src dst sport dport \<and> (udp_listens k dst dport \<longleftrightarrow> p = lp)"
        using uniq none k l by (metis bound_def option.inject)
    qed
  qed
  have kl: "sockets s lp = Some kl" using l(1) by (simp add: bound_def)
  define c where "c = next_socket s"
  have fresh: "sockets s c = None" "c \<noteq> lp" using ok kl by (auto simp: c_def socks_ok_def)
  define s1 where "s1 = add_bind (local_port kl) c (snd (alloc_socket (zero_socket\<lparr>local_port := local_port kl,
      local_ip := local_ip kl, remote_port := sport, remote_ip := src, udp_on_recv := Some PendingRecv,
      route_mac := arp_get_mac_from_cache s (route_of s src)\<rparr>) s))"
  have s1: "sockets s1 = (sockets s)(c \<mapsto> zero_socket\<lparr>local_port := local_port kl, local_ip := local_ip kl,
      remote_port := sport, remote_ip := src, udp_on_recv := Some PendingRecv,
      route_mac := arp_get_mac_from_cache s (route_of s src)\<rparr>)"
    by (simp add: s1_def add_bind_def alloc_socket_def c_def split: option.splits)
  have child: "udp_child lp kl src sport s = kbind (upd_socket lp (\<lambda>l. l\<lparr>accept_queue := accept_queue l @ [c],
             accept_queue_cap := (if length (accept_queue l) \<ge> accept_queue_cap l
               then if accept_queue_cap l = 0 then 4 else accept_queue_cap l * 2 else accept_queue_cap l)\<rparr>) s1) (\<lambda>s3. Inr (c, s3))"
    by (simp add: udp_child_def Let_def s1_def alloc_socket_def c_def)
  show ?thesis
    unfolding payload_def [symmetric]
    using kl fresh l(2) p sz big find
    by (simp add: udp_ipv4_recv_def Let_def child upd_socket_def s1 udp_deliver_def udp_pending_recv_def zero_socket_def udp_listens_def)
qed

text \<open>
  C18. A datagram arrives. When a connected socket of one host sends data to a port on which exactly one socket
  of the other host listens, and no socket there is connected to the sender yet, the frame handed to the
  network creates a socket for the sender at the receiver: it holds exactly the data, knows
  the sender's address and port and waits at the end of the accept queue of the listening socket. No
  other socket of the receiver changes.
\<close>

theorem udp_datagram_arrives:
  assumes "net_ok B" and "socks_ok B" and "sockets A p = Some k"
    and "remote_ip k = ip B" and "route_mac k = mac B" and "length data + 28 < 65536"
    and "bound B lp kl" and "udp_listens kl (ip B) (remote_port k)"
    and "\<forall>q x. bound B q x \<longrightarrow> udp_listens x (ip B) (remote_port k) \<longrightarrow> q = lp"
    and "\<forall>q x. bound B q x \<longrightarrow> \<not> udp_match x (ip A) (ip B) (local_port k) (remote_port k)"
  shows "\<exists>A' f B' c ch kl'. udp_socket_send p data A = Inr A' \<and> sent A' = sent A @ [f] \<and>
    etherframe_nic_recv tcp f B = Inr B' \<and> sockets B c = None \<and> sockets B' c = Some ch \<and> pending_data ch = data \<and>
    remote_ip ch = ip A \<and> remote_port ch = local_port k \<and> local_port ch = remote_port k \<and> \<not> listening ch \<and>
    sockets B' lp = Some kl' \<and> accept_queue kl' = accept_queue kl @ [c] \<and>
    (\<forall>q. q \<noteq> c \<longrightarrow> q \<noteq> lp \<longrightarrow> sockets B' q = sockets B q)"
proof -
  define n where "n = (of_nat (length data + 8) :: u16)"
  define pl where "pl = udp_header (local_port k) (remote_port k) (BSWAP16 n) 0 @ data"
  have pl: "length pl = length data + 8" by (simp add: pl_def udp_header_def)
  have n: "unat n = length data + 8" using assms(6) by (simp add: n_def unat_of_nat del: of_nat_add)
  define c where "c = ipv4_checksum (ipv4_header (BSWAP16 (of_nat (length pl + 20))) 0x11 0 (ip A) (ip B))"
  define f where "f = frame_bytes (mac B) (mac A) IPV4_TYPE @ ipv4_header (BSWAP16 (of_nat (length pl + 20))) 0x11 c (ip A) (ip B) @ pl"
  have send: "udp_socket_send p data A = Inr (A\<lparr>sent := sent A @ [f]\<rparr>)"
    using assms(3,4,5) n by (simp add: udp_socket_send_def Let_def n_def [symmetric] pl_def [symmetric] ipv4_send_def
        etherframe_send_def f_def c_def del: of_nat_add)
  have "etherframe_nic_recv tcp f B = ipv4_handle tcp (ipv4_handlers B) 0x11 (ip A) (ip B) pl (of_nat (length pl)) B"
    unfolding f_def using pl assms(6) by (intro recv_ipv4 [OF assms(1)]) simp
  also have "\<dots> = udp_ipv4_recv (ip A) (ip B) pl (of_nat (length pl)) B"
  proof -
    have "kbind r (ipv4_handle tcp [] pr x y z w) = r" for r pr x y z w by (cases r) simp_all
    then show ?thesis using assms(1) by (simp add: net_ok_def ipv4_dispatch_def)
  qed
  finally have recv: "etherframe_nic_recv tcp f B = udp_ipv4_recv (ip A) (ip B) pl (of_nat (length data + 8)) B"
    by (simp add: pl)
  obtain B' ci ch kl' where B': "udp_ipv4_recv (ip A) (ip B) pl (of_nat (length data + 8)) B = Inr B'"
      "sockets B ci = None" "sockets B' ci = Some ch" "pending_data ch = data" "remote_ip ch = ip A"
      "remote_port ch = local_port k" "local_port ch = remote_port k" "\<not> listening ch" "sockets B' lp = Some kl'"
      "accept_queue kl' = accept_queue kl @ [ci]" "\<forall>q. q \<noteq> ci \<longrightarrow> q \<noteq> lp \<longrightarrow> sockets B' q = sockets B q"
    using udp_recv_new [OF assms(2,7,8), of "ip A" "local_port k" data "BSWAP16 n" 0] assms(6,9,10)
    unfolding pl_def by auto
  show ?thesis
    using send recv B' by (intro exI [of _ "A\<lparr>sent := sent A @ [f]\<rparr>"] exI [of _ f] exI [of _ B'] exI [of _ ci] exI [of _ ch]
        exI [of _ kl']) simp
qed

section \<open>Witnesses\<close>

definition host :: "u64 \<Rightarrow> u32 \<Rightarrow> netstack" where
  "host m a = (load_network_stack ''e1000'' m)\<lparr>ip := a, subnet_mask := 0x00FFFFFF, gateway_ip := 0x0101A8C0\<rparr>"

lemma host_ok: "mac48 m \<Longrightarrow> m \<noteq> NOMAC \<Longrightarrow> a \<noteq> NOIP \<Longrightarrow> a \<noteq> 0 \<Longrightarrow> net_ok (host m a)"
  by (simp add: net_ok_def host_def load_network_stack_def udp_init_def icmp_init_def ipv4_init_def arp_init_def
      ipv4_register_def etherframe_register_def CACHE_SIZE_def)

lemma demo_hosts: "net_ok (host 0x111111 0x0A01A8C0)" "net_ok (host 0x222222 0x0B01A8C0)"
  by (rule host_ok; simp add: mac48_def NOMAC_def NOIP_def)+

lemma host_sel [simp]: "ip (host m a) = a" "mac (host m a) = m" "binds (host m a) = []" "sockets (host m a) = (\<lambda>_. None)"
  "next_socket (host m a) = 1" "set (ip_cache (host m a)) = {NOIP}"
  by (simp_all add: host_def load_network_stack_def udp_init_def icmp_init_def ipv4_init_def arp_init_def
      ipv4_register_def etherframe_register_def CACHE_SIZE_def NOIP_def)

theorem arp_resolves_neighbour_witness:
  "\<exists>A1 B1 A2 f g. arp_resolve STATE_REQUEST 0x0B01A8C0 (host 0x111111 0x0A01A8C0) = (NOMAC, STATE_WAIT, A1) \<and>
     etherframe_nic_recv (\<lambda>_ _ _ _. Inr) f (host 0x222222 0x0B01A8C0) = Inr B1 \<and>
     etherframe_nic_recv (\<lambda>_ _ _ _. Inr) g A1 = Inr A2 \<and> arp_resolve STATE_WAIT 0x0B01A8C0 A2 = (0x222222, STATE_DONE, A2)"
  using arp_resolves_neighbour [OF demo_hosts, of "\<lambda>_ _ _ _. Inr"] by (auto simp: NOIP_def)

definition demo_sender :: netstack where
  "demo_sender = (host 0x111111 0x0A01A8C0)\<lparr>sockets := [7 \<mapsto> zero_socket\<lparr>remote_ip := 0x0B01A8C0, route_mac := 0x222222,
     local_port := BSWAP16 1024, remote_port := BSWAP16 53\<rparr>]\<rparr>"

theorem udp_datagram_arrives_witness:
  "\<exists>A' f B' c ch. udp_socket_send 7 [1, 2, 3] demo_sender = Inr A' \<and>
     etherframe_nic_recv (\<lambda>_ _ _ _. Inr) f (snd (udp_listen 53 (host 0x222222 0x0B01A8C0))) = Inr B' \<and>
     sockets B' c = Some ch \<and> pending_data ch = [1, 2, 3] \<and> remote_ip ch = 0x0A01A8C0"
proof -
  define B where "B = snd (udp_listen 53 (host 0x222222 0x0B01A8C0))"
  define kl where "kl = zero_socket\<lparr>local_port := BSWAP16 53, local_ip := 0x0B01A8C0, listening := True\<rparr>"
  have B: "sockets B = [1 \<mapsto> kl]" "binds B = [(BSWAP16 53, Some 1)]" "next_socket B = 2" "ip B = 0x0B01A8C0" "mac B = 0x222222"
    by (simp_all add: B_def udp_listen_def Let_def alloc_socket_def add_bind_def kl_def)
  have ok: "net_ok B"
    using demo_hosts(2) by (simp add: B_def udp_listen_def Let_def alloc_socket_def add_bind_def net_ok_def)
  have socks: "socks_ok B" using B by (auto simp: socks_ok_def)
  have bound: "bound B q x \<longleftrightarrow> q = 1 \<and> x = kl" for q x using B by (auto simp: bound_def)
  have lis: "udp_listens kl (ip B) (BSWAP16 53)" by (simp add: udp_listens_def kl_def B(4) zero_socket_def)
  have nomatch: "\<not> udp_match kl a b sp dp" for a b sp dp by (simp add: udp_match_def kl_def zero_socket_def)
  have bl: "bound B 1 kl" by (simp add: bound)
  have k: "sockets demo_sender 7 = Some (zero_socket\<lparr>remote_ip := 0x0B01A8C0, route_mac := 0x222222,
      local_port := BSWAP16 1024, remote_port := BSWAP16 53\<rparr>)" "ip demo_sender = 0x0A01A8C0"
    by (simp_all add: demo_sender_def)
  from udp_datagram_arrives [OF ok socks k(1), of "[1, 2, 3]" 1 kl "\<lambda>_ _ _ _. Inr"] lis nomatch bl bound B(4,5) k(2)
  show ?thesis unfolding B_def [symmetric] by (auto simp: zero_socket_def)
qed

end
