(* ===== verification/Tcp_Proofs.thy ===== *)
theory Tcp_Proofs
  imports Tcp Net_Proofs "HOL-Library.Sublist"
begin

text \<open>
  What TCP guarantees: the handshake, in-order delivery however segments are lost, repeated or
  reordered, and the bounded retransmission; and where the code loses data.
\<close>

section \<open>Segments on the wire\<close>

lemma bit_BSWAP32:
  "bit (BSWAP32 x) i \<longleftrightarrow> (if i < 8 then bit x (i + 24) else if i < 16 then bit x (i + 8)
     else if i < 24 then bit x (i - 8) else if i < 32 then bit x (i - 24) else False)"
proof -
  have masks: "(0xFF000000 :: u32) = push_bit 24 (mask 8)" "(0x00FF0000 :: u32) = push_bit 16 (mask 8)"
      "(0x0000FF00 :: u32) = push_bit 8 (mask 8)" "(0x000000FF :: u32) = mask 8"
    by (simp_all add: mask_eq_exp_minus_1 push_bit_eq_mult)
  consider "i < 8" | "8 \<le> i" "i < 16" | "16 \<le> i" "i < 24" | "24 \<le> i" "i < 32" | "32 \<le> i" by linarith
  then show ?thesis unfolding BSWAP32_def masks by cases (auto simp: bit_simps add.commute less_diff_conv2)
qed

lemma BSWAP32_twice: "BSWAP32 (BSWAP32 x) = x"
proof (rule bit_eqI)
  fix i
  assume "possible_bit TYPE(u32) i"
  then have "i < 32" by (simp add: possible_bit_def)
  moreover have "\<exists>j. i = j + 16 \<and> j < 8" if "16 \<le> i" "i < 24" using that by (intro exI [of _ "i - 16"]) simp
  moreover have "\<exists>j. i = j + 24 \<and> j < 8" if "24 \<le> i" "i < 32" using that by (intro exI [of _ "i - 24"]) simp
  ultimately consider "i < 8" | "8 \<le> i" "i < 16" | j where "i = j + 16" "j < 8" | j where "i = j + 24" "j < 8" by fastforce
  then show "bit (BSWAP32 (BSWAP32 x)) i = bit x i" by cases (simp_all add: bit_BSWAP32 add.commute)
qed

lemma length_tcp_segment [simp]: "length (tcp_segment k seqno flags opts data) = length data + 24"
  by (simp add: tcp_segment_def tcp_header_def Let_def)

lemma tcp_segment_fields:
  fixes k :: tcp_socket and seqno opts :: u32 and flags :: u16 and data :: "u8 list"
  defines "seg \<equiv> tcp_segment k seqno flags opts data"
  shows "ucast (field 0 2 seg) = t_local_port k" "ucast (field 2 2 seg) = t_remote_port k"
    "BSWAP32 (ucast (field 4 4 seg)) = seqno" "BSWAP32 (ucast (field 8 4 seg)) = ack_number k"
    "ucast (field 12 1 seg) = (0x60 :: u8)" "ucast (field 13 1 seg) = (ucast flags :: u8)" "drop 24 seg = data"
  by (simp_all add: seg_def tcp_segment_def tcp_header_def Let_def field_def le_val_bytes wire BSWAP32_twice)

lemma ipv4_send_keeps [simp]:
  "tcp_sockets (ipv4_send pr d r pl s) = tcp_sockets s" "tcp_binds (ipv4_send pr d r pl s) = tcp_binds s"
  "callbacks (ipv4_send pr d r pl s) = callbacks s" "now_ms (ipv4_send pr d r pl s) = now_ms s"
  "next_tcp (ipv4_send pr d r pl s) = next_tcp s" "ip (ipv4_send pr d r pl s) = ip s"
  by (simp_all add: ipv4_send_def etherframe_send_def Let_def)

lemma put_socket_keeps [simp]:
  "tcp_sockets (put_socket p t s) = (tcp_sockets s)(p \<mapsto> t)" "tcp_binds (put_socket p t s) = tcp_binds s"
  "callbacks (put_socket p t s) = callbacks s" "now_ms (put_socket p t s) = now_ms s" "sent (put_socket p t s) = sent s"
  by (simp_all add: put_socket_def)

lemma the_socket_Some [simp]: "tcp_sockets s p = Some t \<Longrightarrow> the_socket p s = Inr t"
  by (simp add: the_socket_def)

section \<open>Routing to the socket\<close>

definition receives :: "'a tcpstack_scheme \<Rightarrow> nat \<Rightarrow> u32 \<Rightarrow> u16 \<Rightarrow> bool" where
  "receives s p src sport \<longleftrightarrow> Some p \<in> snd ` set (tcp_binds s) \<and>
     (\<forall>q. Some q \<in> snd ` set (tcp_binds s) \<longrightarrow> (\<exists>u. tcp_sockets s q = Some u \<and> \<not> t_listening u \<and>
        (t_remote_port u = sport \<and> t_remote_ip u = src \<longleftrightarrow> q = p)))"

lemma tcp_find_receives:
  assumes R: "receives s p src sport"
  shows "tcp_find src dst sport dport (tcp_binds s) s = Inr (Some p, s)"
proof -
  have "tcp_find src dst sport dport bs s = Inr (Some p, s)" if "Some p \<in> snd ` set bs" "set bs \<subseteq> set (tcp_binds s)" for bs
    using that
  proof (induction bs)
    case (Cons b bs)
    obtain port x where b: "b = (port, x)" by (cases b)
    show ?case
    proof (cases x)
      case None
      then show ?thesis using Cons b by auto
    next
      case (Some q)
      then have "Some q \<in> snd ` set (tcp_binds s)" using Cons.prems(2) b by force
      then obtain u where u: "tcp_sockets s q = Some u" "\<not> t_listening u" "t_remote_port u = sport \<and> t_remote_ip u = src \<longleftrightarrow> q = p"
        using R by (auto simp: receives_def)
      show ?thesis
      proof (cases "q = p")
        case False
        then have "Some p \<in> snd ` set bs" using Cons.prems(1) b Some by auto
        then show ?thesis using Cons.IH Cons.prems(2) u False b Some by auto
      qed (use u b Some in auto)
    qed
  qed simp
  then show ?thesis using R by (simp add: receives_def)
qed

lemma receives_same:
  assumes "receives s p src sport" and "tcp_binds s' = tcp_binds s" and "tcp_sockets s p = Some t" and "tcp_sockets s' = (tcp_sockets s)(p \<mapsto> t')"
    and "t_listening t' = t_listening t" "t_remote_port t' = t_remote_port t" "t_remote_ip t' = t_remote_ip t"
  shows "receives s' p src sport"
  using assms unfolding receives_def by auto

section \<open>Receiving a segment\<close>

text \<open>What the receiver does with the flags of a segment that a peer built with \<open>tcp_segment\<close>.\<close>

lemma tcp_recv_segment:
  assumes R: "receives s p src (t_local_port k)" and t: "tcp_sockets s p = Some t" and fit: "fits_packet data"
  shows "tcp_ipv4_recv src dst (tcp_segment k seqno flags opts data) (of_nat (length data + 24)) s =
    (let t1 = ack_unacked (ucast flags) (ack_number k) t;
         t2 = (if (ucast flags :: u8) AND ucast RST \<noteq> 0 then t1\<lparr>t_state := CLOSED\<rparr> else t1); s2 = put_socket p t2 s
     in kbind (if t_state t2 \<noteq> CLOSED then tcp_recv_flags p (ucast (ucast flags :: u8)) seqno (ack_number k) data s2 else Inr (False, s2))
          (\<lambda>(reset, s3). tcp_finish p reset s3))"
proof -
  have sz: "unat (of_nat (length data + 24) :: u32) = length data + 24"
    using fit by (simp add: fits_packet_def unat_of_nat del: of_nat_add)
  have hdr: "unat (drop_bit 4 (0x60 :: u8)) * 4 = 24" by (simp add: drop_bit_eq_div)
  note F = tcp_segment_fields [of k seqno flags opts data]
  show ?thesis
    unfolding tcp_ipv4_recv_def Let_def F hdr sz tcp_find_receives [OF R] kbind_Inr length_tcp_segment using t by simp
qed

lemma send_control:
  assumes "tcp_sockets s p = Some t" and "flags AND PSH = 0"
  shows "tcp_socket_send_internal p [] flags s = Inr (put_socket p
      (t\<lparr>sequence_number := sequence_number t + (if flags AND (SYN OR FIN) \<noteq> 0 then 1 else 0)\<rparr>)
      (ipv4_send 0x06 (t_remote_ip t) (t_route_mac t)
         (tcp_segment t (sequence_number t) flags (if flags AND SYN \<noteq> 0 then 0xB4050402 else 0) []) s))"
  using assms by (simp add: tcp_socket_send_internal_def fits_packet_def tcp_tx_track_unacked_def Let_def)

lemma ack_unacked_same [simp]:
  "t_state (ack_unacked f a t) = t_state t" "ack_number (ack_unacked f a t) = ack_number t" "t_recv (ack_unacked f a t) = t_recv t"
  "t_listening (ack_unacked f a t) = t_listening t" "t_remote_port (ack_unacked f a t) = t_remote_port t"
  "t_remote_ip (ack_unacked f a t) = t_remote_ip t" "t_local_port (ack_unacked f a t) = t_local_port t"
  "sequence_number (ack_unacked f a t) = sequence_number t"
  by (simp_all add: ack_unacked_def tcp_tx_clear_unacked_def)

lemmas flag_defs = FIN_def SYN_def RST_def PSH_def ACK_def

text \<open>The bytes handed to the owner of a socket so far.\<close>

definition delivered :: "nat \<Rightarrow> 'a tcpstack_scheme \<Rightarrow> u8 list" where
  "delivered p s = concat (map (\<lambda>(c, q, d). if q = p then d else []) (callbacks s))"

lemma recv_data_segment:
  assumes R: "receives s p src (t_local_port k)" and t: "tcp_sockets s p = Some t" "t_state t = ESTABLISHED" "t_recv t = Some cb"
    and data: "fits_packet data" "data \<noteq> []"
  shows "\<exists>s' t'. tcp_ipv4_recv src dst (tcp_segment k seqno (PSH OR ACK) opts data) (of_nat (length data + 24)) s = Inr s' \<and>
    tcp_sockets s' p = Some t' \<and> t_state t' = ESTABLISHED \<and> t_recv t' = Some cb \<and> receives s' p src (t_local_port k) \<and>
    (if seqno = ack_number t then ack_number t' = ack_number t + of_nat (length data) \<and> delivered p s' = delivered p s @ data
     else ack_number t' = ack_number t \<and> delivered p s' = delivered p s)"
proof -
  define u where "u = ack_unacked (ucast (PSH OR ACK)) (ack_number k) t"
  define v where "v = (if seqno = ack_number t then u\<lparr>ack_number := ack_number u + of_nat (length data)\<rparr> else u)"
  define s1 where "s1 = (if seqno = ack_number t then (put_socket p u s)\<lparr>callbacks := callbacks s @ [(cb, p, data)]\<rparr> else put_socket p u s)"
  define s' where "s' = put_socket p v (ipv4_send 0x06 (t_remote_ip v) (t_route_mac v) (tcp_segment v (sequence_number v) ACK 0 []) (put_socket p v s1))"
  have v: "t_state v = ESTABLISHED" "t_recv v = Some cb" "t_listening v = t_listening t" "t_remote_port v = t_remote_port t" "t_remote_ip v = t_remote_ip t"
    using t by (simp_all add: v_def u_def)
  have u: "t_state u = ESTABLISHED" "t_recv u = Some cb" "ack_number u = ack_number t" using t by (simp_all add: u_def)
  have ack: "tcp_socket_send_internal p [] ACK (put_socket p v s1) = Inr s'"
    using send_control [of "put_socket p v s1" p v ACK] by (simp add: s'_def flag_defs)
  have same: "put_socket p u (put_socket p u s) = put_socket p u s" by (simp add: put_socket_def)
  have "tcp_recv_data p seqno data (put_socket p u s) = Inr s'"
    using ack data(2) u by (auto simp: tcp_recv_data_def s1_def v_def same)
  then have flags: "tcp_recv_flags p (ucast (ucast (PSH OR ACK) :: u8)) seqno (ack_number k) data (put_socket p u s) = Inr (False, s')"
    using u by (simp add: tcp_recv_flags_def tcp_recv_ack_def flag_defs)
  have sock: "tcp_sockets s' p = Some v" by (simp add: s'_def)
  have "tcp_finish p False s' = Inr s'" using v(1) sock by (simp add: tcp_finish_def)
  then have run: "tcp_ipv4_recv src dst (tcp_segment k seqno (PSH OR ACK) opts data) (of_nat (length data + 24)) s = Inr s'"
    using flags t(2) unfolding tcp_recv_segment [OF R t(1) data(1)] by (simp add: Let_def flag_defs u_def)
  have "receives s' p src (t_local_port k)"
    by (rule receives_same [OF R, of _ t v]) (use t(1) v in \<open>auto simp: s'_def s1_def\<close>)
  then show ?thesis using run v sock by (intro exI [of _ s'] exI [of _ v]) (auto simp: s'_def s1_def delivered_def v_def u_def)
qed

section \<open>The receiving end of a stream\<close>

text \<open>A stream cut into chunks: the sequence number of a chunk counts the bytes in front of it.\<close>

definition chunk_seq :: "u32 \<Rightarrow> u8 list list \<Rightarrow> nat \<Rightarrow> u32" where
  "chunk_seq i0 chunks i = i0 + of_nat (length (concat (take i chunks)))"

definition chunks_ok :: "u8 list list \<Rightarrow> bool" where
  "chunks_ok chunks \<longleftrightarrow> (\<forall>c\<in>set chunks. c \<noteq> [] \<and> fits_packet c) \<and> length (concat chunks) < 4294967296"

lemma prefix_length_less:
  assumes "chunks_ok chunks" and "i < j" and "j \<le> length chunks"
  shows "length (concat (take i chunks)) < length (concat (take j chunks))" "length (concat (take j chunks)) < 4294967296"
proof -
  have i: "i < length chunks" using assms by simp
  have "length (concat (take j chunks)) + length (concat (drop j chunks)) = length (concat chunks)"
    by (metis append_take_drop_id concat_append length_append)
  then show "length (concat (take j chunks)) < 4294967296" using assms(1) by (simp add: chunks_ok_def)
  have "length (concat (take (Suc i) chunks)) = length (concat (take i chunks)) + length (chunks ! i)"
    using i by (simp add: take_Suc_conv_app_nth)
  moreover have "chunks ! i \<noteq> []" using assms(1) i by (auto simp: chunks_ok_def)
  moreover have "take j chunks = take (Suc i) chunks @ take (j - Suc i) (drop (Suc i) chunks)"
    using assms(2) take_add [of "Suc i" "j - Suc i" chunks] by simp
  then have "length (concat (take j chunks)) \<ge> length (concat (take (Suc i) chunks))" by simp
  ultimately show "length (concat (take i chunks)) < length (concat (take j chunks))" by (simp add: length_greater_0_conv [symmetric] del: length_greater_0_conv)
qed

lemma chunk_seq_inj:
  assumes ok: "chunks_ok chunks" and "i \<le> length chunks" "j \<le> length chunks" and eq: "chunk_seq i0 chunks i = chunk_seq i0 chunks j"
  shows "i = j"
proof -
  have less: "chunk_seq i0 chunks a \<noteq> chunk_seq i0 chunks b" if "a < b" "b \<le> length chunks" for a b
  proof
    assume "chunk_seq i0 chunks a = chunk_seq i0 chunks b"
    then have "(of_nat (length (concat (take a chunks))) :: u32) = of_nat (length (concat (take b chunks)))"
      by (simp add: chunk_seq_def)
    then have "unat (of_nat (length (concat (take a chunks))) :: u32) = unat (of_nat (length (concat (take b chunks))) :: u32)" by simp
    then show False using prefix_length_less [OF ok that] by (simp add: unat_of_nat_32 del: length_concat)
  qed
  show ?thesis using less [of i j] less [of j i] assms(2,3) eq by (cases i j rule: linorder_cases) auto
qed

text \<open>How far the receiver is after the chunk with index \<open>i\<close> arrived.\<close>

primrec advance :: "nat \<Rightarrow> nat list \<Rightarrow> nat" where
  "advance k [] = k"
| "advance k (i # is) = advance (if i = k then Suc k else k) is"

lemma advance_le: "k \<le> n \<Longrightarrow> \<forall>i\<in>set is. i < n \<Longrightarrow> advance k is \<le> n"
  by (induction "is" arbitrary: k) auto

lemma advance_mono: "k \<le> advance k is"
  by (induction "is" arbitrary: k) (auto intro: Suc_leD)

lemma advance_subseq: "subseq [k..<n] is \<Longrightarrow> k \<le> n \<Longrightarrow> n \<le> advance k is"
proof (induction "is" arbitrary: k)
  case (Cons i "is")
  show ?case
  proof (cases "k = n")
    case False
    then have up: "[k..<n] = k # [Suc k..<n]" "Suc k \<le> n" using Cons.prems(2) by (simp_all add: upt_conv_Cons)
    show ?thesis
    proof (cases "i = k")
      case True
      then have "subseq [Suc k..<n] is" using Cons.prems(1) up(1) by simp
      then show ?thesis using Cons.IH up(2) True by simp
    next
      case False
      then have "subseq [k..<n] is" using Cons.prems(1) up(1) by (metis subseq_Cons2_neq)
      then show ?thesis using Cons.IH Cons.prems(2) False by simp
    qed
  qed (use advance_mono [of k "i # is"] in simp)
qed (auto dest!: list_emb_length)

primrec tcp_recv_all :: "u32 \<Rightarrow> u32 \<Rightarrow> u8 list list \<Rightarrow> 'a tcpstack_scheme \<Rightarrow> 'a tcpstack_scheme kres" where
  "tcp_recv_all src dst [] s = Inr s"
| "tcp_recv_all src dst (x # xs) s = kbind (tcp_ipv4_recv src dst x (of_nat (length x)) s) (tcp_recv_all src dst xs)"

definition open_socket :: "'a tcpstack_scheme \<Rightarrow> nat \<Rightarrow> u32 \<Rightarrow> u16 \<Rightarrow> u32 \<Rightarrow> bool" where
  "open_socket s p src sport seqno \<longleftrightarrow> receives s p src sport \<and>
     (\<exists>t cb. tcp_sockets s p = Some t \<and> t_state t = ESTABLISHED \<and> t_recv t = Some cb \<and> ack_number t = seqno)"

definition chunk_segment :: "u32 \<Rightarrow> u8 list list \<Rightarrow> tcp_socket \<times> nat \<Rightarrow> u8 list" where
  "chunk_segment i0 chunks x = tcp_segment (fst x) (chunk_seq i0 chunks (snd x)) (PSH OR ACK) 0 (chunks ! snd x)"

lemma chunks_received:
  assumes ok: "chunks_ok chunks"
  shows "open_socket s p src sport (chunk_seq i0 chunks k) \<Longrightarrow> k \<le> length chunks \<Longrightarrow>
      \<forall>x\<in>set xs. t_local_port (fst x) = sport \<and> snd x < length chunks \<Longrightarrow>
      delivered p s = before @ concat (take k chunks) \<Longrightarrow>
    \<exists>s'. tcp_recv_all src dst (map (chunk_segment i0 chunks) xs) s = Inr s' \<and>
      open_socket s' p src sport (chunk_seq i0 chunks (advance k (map snd xs))) \<and>
      delivered p s' = before @ concat (take (advance k (map snd xs)) chunks)"
proof (induction xs arbitrary: s k)
  case (Cons x xs)
  obtain peer i where x: "x = (peer, i)" by (cases x)
  define d where "d = chunks ! i"
  have i: "i < length chunks" and port: "t_local_port peer = sport" using Cons.prems(3) x by auto
  then have d: "fits_packet d" "d \<noteq> []" using ok by (auto simp: chunks_ok_def d_def)
  obtain t cb where t: "receives s p src sport" "tcp_sockets s p = Some t" "t_state t = ESTABLISHED" "t_recv t = Some cb"
      "ack_number t = chunk_seq i0 chunks k" using Cons.prems(1) by (auto simp: open_socket_def)
  from recv_data_segment [OF t(1) [folded port] t(2-4) d, of dst "chunk_seq i0 chunks i" 0] obtain s1 t1 where
    s1: "tcp_ipv4_recv src dst (tcp_segment peer (chunk_seq i0 chunks i) (PSH OR ACK) 0 d) (of_nat (length d + 24)) s = Inr s1"
      "tcp_sockets s1 p = Some t1" "t_state t1 = ESTABLISHED" "t_recv t1 = Some cb" "receives s1 p src sport"
    and cases: "if chunk_seq i0 chunks i = ack_number t then ack_number t1 = ack_number t + of_nat (length d) \<and> delivered p s1 = delivered p s @ d
     else ack_number t1 = ack_number t \<and> delivered p s1 = delivered p s" unfolding port by blast
  have hit: "chunk_seq i0 chunks i = ack_number t \<longleftrightarrow> i = k"
    using chunk_seq_inj [OF ok, of i k i0] i Cons.prems(2) t(5) by auto
  define k' where "k' = (if i = k then Suc k else k)"
  have nxt: "chunk_seq i0 chunks k' = ack_number t1 \<and> delivered p s1 = before @ concat (take k' chunks)"
  proof (cases "i = k")
    case True
    then have "take (Suc k) chunks = take k chunks @ [d]" using i by (simp add: take_Suc_conv_app_nth d_def)
    then show ?thesis using True cases hit Cons.prems(4) t(5) by (simp add: k'_def chunk_seq_def)
  qed (use cases hit Cons.prems(4) t(5) in \<open>simp add: k'_def\<close>)
  have "k' \<le> length chunks" using i Cons.prems(2) by (auto simp: k'_def)
  moreover have "open_socket s1 p src sport (chunk_seq i0 chunks k')" using s1 nxt by (simp add: open_socket_def)
  moreover have "tcp_recv_all src dst (map (chunk_segment i0 chunks) (x # xs)) s = tcp_recv_all src dst (map (chunk_segment i0 chunks) xs) s1"
    using s1(1) by (simp add: chunk_segment_def x d_def)
  ultimately show ?case using Cons.IH [of s1 k'] Cons.prems(3) nxt by (simp add: k'_def x)
qed simp

text \<open>
  C27. TCP delivers a stream in order. The peer cuts its data into chunks and sends them with consecutive sequence numbers;
  the segments arrive in any order, some repeatedly and some not at all. Receiving them never fails, what
  reaches the owner of the socket is a prefix of the data without gaps or repetitions, the acknowledged sequence
  number is the end of that prefix, and when the arrivals contain the chunks in order, perhaps
  with others in between, all of the data has reached the owner.
\<close>

theorem tcp_stream_in_order:
  assumes "open_socket s p src sport i0" and "chunks_ok chunks"
    and "\<forall>x\<in>set arrivals. t_local_port (fst x) = sport \<and> snd x < length chunks"
  shows "\<exists>s' k. tcp_recv_all src dst (map (chunk_segment i0 chunks) arrivals) s = Inr s' \<and> k \<le> length chunks \<and>
    delivered p s' = delivered p s @ concat (take k chunks) \<and> open_socket s' p src sport (chunk_seq i0 chunks k) \<and>
    (subseq [0..<length chunks] (map snd arrivals) \<longrightarrow> delivered p s' = delivered p s @ concat chunks)"
proof -
  define k where "k = advance 0 (map snd arrivals)"
  have "open_socket s p src sport (chunk_seq i0 chunks 0)" using assms(1) by (simp add: chunk_seq_def)
  from chunks_received [OF assms(2) this _ assms(3), of "delivered p s" dst] obtain s' where
    s': "tcp_recv_all src dst (map (chunk_segment i0 chunks) arrivals) s = Inr s'" "open_socket s' p src sport (chunk_seq i0 chunks k)"
      "delivered p s' = delivered p s @ concat (take k chunks)" by (auto simp: k_def)
  moreover have "k \<le> length chunks" unfolding k_def by (rule advance_le) (use assms(3) in auto)
  moreover have "length chunks \<le> k" if "subseq [0..<length chunks] (map snd arrivals)" unfolding k_def using advance_subseq [OF that] by simp
  ultimately show ?thesis by auto
qed

section \<open>The connecting side\<close>

lemma bound_somewhere: "Some p \<in> snd ` set (tcp_binds (add_tcp_bind lp p s))"
proof (cases "find (\<lambda>i. snd (tcp_binds s ! i) = None) [0..<length (tcp_binds s)]")
  case (Some i)
  then have "i < length (tcp_binds s)" by (auto simp: find_Some_iff)
  then have "(lp, Some p) \<in> set ((tcp_binds s)[i := (lp, Some p)])" by (rule set_update_memI)
  then show ?thesis using Some by (force simp: add_tcp_bind_def)
qed (simp add: add_tcp_bind_def)

text \<open>The first call sends a SYN from a new socket.\<close>

lemma tcp_connect_sends_syn:
  assumes route: "ipv4_resolve_route st dest s = (route, STATE_DONE, s)" and lp: "lp = BSWAP16 (of_int (tcp_free_port s))"
  shows "\<exists>s1 t1. tcp_connect st None dest port s = Inr (None, STATE_WAIT, Some (next_tcp s), s1) \<and>
    sent s1 = sent (ipv4_send 0x06 dest route (tcp_segment (new_tcp_socket dest port route s) (now_ms s) SYN 0xB4050402 []) s) \<and>
    tcp_sockets s1 = (tcp_sockets s)(next_tcp s \<mapsto> t1) \<and> tcp_binds s1 = tcp_binds (add_tcp_bind lp (next_tcp s) s) \<and>
    t1 = (new_tcp_socket dest port route s)\<lparr>sequence_number := now_ms s + 1\<rparr>"
proof -
  define p where "p = next_tcp s"
  define t where "t = new_tcp_socket dest port route s"
  define s0 where "s0 = add_tcp_bind lp p ((put_socket p t s)\<lparr>next_tcp := p + 1, tcp_free_port := tcp_free_port s + 1\<rparr>)"
  have t: "t_remote_ip t = dest" "t_route_mac t = route" "sequence_number t = now_ms s" "t_local_port t = lp"
    by (simp_all add: t_def new_tcp_socket_def lp)
  have s0: "tcp_sockets s0 = (tcp_sockets s)(p \<mapsto> t)" "tcp_binds s0 = tcp_binds (add_tcp_bind lp p s)" "sent s0 = sent s"
      "ip s0 = ip s" "mac s0 = mac s"
    by (auto simp: s0_def add_tcp_bind_def put_socket_def split: option.split)
  define s1 where "s1 = put_socket p (t\<lparr>sequence_number := now_ms s + 1\<rparr>) (ipv4_send 0x06 dest route (tcp_segment t (now_ms s) SYN 0xB4050402 []) s0)"
  have "tcp_socket_send_internal p [] SYN s0 = Inr s1"
    using send_control [of s0 p t SYN] s0(1) t by (simp add: flag_defs s1_def)
  then have "tcp_connect st None dest port s = Inr (None, STATE_WAIT, Some p, s1)"
    using route t(4) by (simp add: tcp_connect_def Let_def p_def s0_def t_def)
  moreover have "sent s1 = sent (ipv4_send 0x06 dest route (tcp_segment t (now_ms s) SYN 0xB4050402 []) s)"
    by (simp add: s1_def ipv4_send_def etherframe_send_def Let_def s0)
  moreover have "tcp_sockets s1 = (tcp_sockets s)(p \<mapsto> t\<lparr>sequence_number := now_ms s + 1\<rparr>)" "tcp_binds s1 = tcp_binds (add_tcp_bind lp p s)"
    by (simp_all add: s1_def s0)
  ultimately show ?thesis unfolding p_def t_def by blast
qed

text \<open>The answer of the server, taken by a socket that sent its SYN.\<close>

lemma tcp_syn_answered:
  assumes R: "receives s1 p dest (t_local_port k)" and t1: "tcp_sockets s1 p = Some t1" "t_state t1 = SYN_SENT"
  shows "\<exists>s2 t2. tcp_ipv4_recv dest dst (tcp_segment k seqno (SYN OR ACK) opts []) 24 s1 = Inr s2 \<and>
    tcp_sockets s2 p = Some t2 \<and> t_state t2 = ESTABLISHED \<and> ack_number t2 = seqno + 1 \<and> sequence_number t2 = sequence_number t1"
proof -
  define u where "u = ack_unacked (ucast (SYN OR ACK)) (ack_number k) t1"
  define t2 where "t2 = u\<lparr>t_state := ESTABLISHED, ack_number := seqno + 1\<rparr>"
  have u: "t_state u = SYN_SENT" "sequence_number u = sequence_number t1" using t1(2) by (simp_all add: u_def)
  define s2 where "s2 = put_socket p t2 (ipv4_send 0x06 (t_remote_ip t2) (t_route_mac t2) (tcp_segment t2 (sequence_number t2) ACK 0 [])
    (put_socket p t2 (put_socket p u s1)))"
  have ack: "tcp_socket_send_internal p [] ACK (put_socket p t2 (put_socket p u s1)) = Inr s2"
    using send_control [of "put_socket p t2 (put_socket p u s1)" p t2 ACK] by (simp add: flag_defs s2_def)
  have flags: "tcp_recv_flags p (ucast (ucast (SYN OR ACK) :: u8)) seqno (ack_number k) [] (put_socket p u s1) = Inr (False, s2)"
    using ack u by (simp add: tcp_recv_flags_def flag_defs t2_def)
  have sock2: "tcp_sockets s2 p = Some t2" "t_state t2 = ESTABLISHED" by (simp_all add: s2_def t2_def)
  then have "tcp_finish p False s2 = Inr s2" by (simp add: tcp_finish_def)
  then have "tcp_ipv4_recv dest dst (tcp_segment k seqno (SYN OR ACK) opts []) 24 s1 = Inr s2"
    using tcp_recv_segment [OF R, of t1 "[]" dst seqno "SYN OR ACK" opts] flags u t1(1)
    by (simp add: Let_def flag_defs fits_packet_def u_def)
  moreover have "ack_number t2 = seqno + 1" "sequence_number t2 = sequence_number t1" using u by (simp_all add: t2_def)
  ultimately show ?thesis using sock2 by blast
qed

text \<open>
  C29. Connecting: once the route is known, the call sends a SYN and waits; the answer SYN ACK of the server makes the connection
  established, acknowledges the sequence number behind the server's, and the next call returns the socket.
\<close>

theorem tcp_connect_establishes:
  assumes route: "ipv4_resolve_route st dest s = (route, STATE_DONE, s)"
    and binds: "\<forall>q. Some q \<in> snd ` set (tcp_binds (add_tcp_bind lp (next_tcp s) s)) \<longrightarrow> q = next_tcp s \<or>
      (\<exists>u. tcp_sockets s q = Some u \<and> \<not> t_listening u \<and> \<not> (t_remote_port u = BSWAP16 port \<and> t_remote_ip u = dest))"
    and lp: "lp = BSWAP16 (of_int (tcp_free_port s))" and server: "t_local_port k = BSWAP16 port"
  shows "\<exists>p s1 s2. tcp_connect st None dest port s = Inr (None, STATE_WAIT, Some p, s1) \<and>
    sent s1 = sent (ipv4_send 0x06 dest route (tcp_segment (new_tcp_socket dest port route s) (now_ms s) SYN 0xB4050402 []) s) \<and>
    tcp_connect STATE_WAIT (Some p) dest port s1 = Inr (None, STATE_WAIT, Some p, s1) \<and>
    tcp_ipv4_recv dest dst (tcp_segment k seqno (SYN OR ACK) opts []) 24 s1 = Inr s2 \<and>
    tcp_connect STATE_WAIT (Some p) dest port s2 = Inr (Some p, STATE_DONE, Some p, s2) \<and>
    (\<exists>t. tcp_sockets s2 p = Some t \<and> t_state t = ESTABLISHED \<and> ack_number t = seqno + 1 \<and> sequence_number t = now_ms s + 1)"
proof -
  define p where "p = next_tcp s"
  obtain s1 t1 where run: "tcp_connect st None dest port s = Inr (None, STATE_WAIT, Some p, s1)"
      and wire: "sent s1 = sent (ipv4_send 0x06 dest route (tcp_segment (new_tcp_socket dest port route s) (now_ms s) SYN 0xB4050402 []) s)"
      and s1: "tcp_sockets s1 = (tcp_sockets s)(p \<mapsto> t1)" "tcp_binds s1 = tcp_binds (add_tcp_bind lp p s)"
      and t1: "t1 = (new_tcp_socket dest port route s)\<lparr>sequence_number := now_ms s + 1\<rparr>"
    using tcp_connect_sends_syn [OF route lp] unfolding p_def by blast
  have t: "t_state t1 = SYN_SENT" "t_remote_port t1 = BSWAP16 port" "t_remote_ip t1 = dest" "\<not> t_listening t1" "sequence_number t1 = now_ms s + 1"
    by (simp_all add: t1 new_tcp_socket_def)
  have "receives s1 p dest (t_local_port k)"
    unfolding receives_def s1 server using bound_somewhere [of p lp s] binds t by (auto simp: p_def)
  from tcp_syn_answered [OF this, of t1 dst seqno opts] s1(1) t(1) obtain s2 t2 where
    recv: "tcp_ipv4_recv dest dst (tcp_segment k seqno (SYN OR ACK) opts []) 24 s1 = Inr s2" and
    t2: "tcp_sockets s2 p = Some t2" "t_state t2 = ESTABLISHED" "ack_number t2 = seqno + 1" "sequence_number t2 = sequence_number t1" by auto
  have "tcp_connect STATE_WAIT (Some p) dest port s1 = Inr (None, STATE_WAIT, Some p, s1)"
    using s1(1) t by (simp add: tcp_connect_def)
  moreover have "tcp_connect STATE_WAIT (Some p) dest port s2 = Inr (Some p, STATE_DONE, Some p, s2)"
    using t2 by (simp add: tcp_connect_def)
  ultimately show ?thesis using run wire recv t2 t(5) by metis
qed

section \<open>Where the code loses data\<close>

text \<open>
  C31. Data in a segment that also closes the connection is lost: the segment is acknowledged together with its data, but
  the data does not reach the owner of the socket.
\<close>

theorem tcp_fin_data_lost:
  assumes sock: "open_socket s p src (t_local_port k) seqno" and data: "fits_packet data"
  shows "\<exists>s' t'. tcp_ipv4_recv src dst (tcp_segment k seqno (FIN OR PSH OR ACK) 0 data) (of_nat (length data + 24)) s = Inr s' \<and>
    tcp_sockets s' p = Some t' \<and> t_state t' = CLOSE_WAIT \<and> ack_number t' = seqno + of_nat (length data) + 1 \<and> delivered p s' = delivered p s"
proof -
  obtain t where R: "receives s p src (t_local_port k)" and t: "tcp_sockets s p = Some t" "t_state t = ESTABLISHED" "ack_number t = seqno"
    using sock by (auto simp: open_socket_def)
  define u where "u = ack_unacked (ucast (FIN OR PSH OR ACK)) (ack_number k) t"
  define v where "v = u\<lparr>ack_number := seqno + of_nat (length data) + 1, t_state := CLOSE_WAIT\<rparr>"
  define s1 where "s1 = put_socket p v (ipv4_send 0x06 (t_remote_ip v) (t_route_mac v) (tcp_segment v (sequence_number v) ACK 0 []) (put_socket p v (put_socket p u s)))"
  define w where "w = v\<lparr>sequence_number := sequence_number v + 1\<rparr>"
  define s2 where "s2 = put_socket p w (ipv4_send 0x06 (t_remote_ip v) (t_route_mac v) (tcp_segment v (sequence_number v) (FIN OR ACK) 0 []) s1)"
  have u: "t_state u = ESTABLISHED" "ack_number u = seqno" using t by (simp_all add: u_def)
  have a1: "tcp_socket_send_internal p [] ACK (put_socket p v (put_socket p u s)) = Inr s1"
    using send_control [of "put_socket p v (put_socket p u s)" p v ACK] by (simp add: flag_defs s1_def)
  have a2: "tcp_socket_send_internal p [] (FIN OR ACK) s1 = Inr s2"
    using send_control [of s1 p v "FIN OR ACK"] by (simp add: flag_defs s1_def s2_def w_def)
  have "tcp_recv_fin p seqno (length data) (put_socket p u s) = Inr (False, s2)"
    using a1 a2 u by (simp add: tcp_recv_fin_def Let_def v_def)
  then have flags: "tcp_recv_flags p (ucast (ucast (FIN OR PSH OR ACK) :: u8)) seqno (ack_number k) data (put_socket p u s) = Inr (False, s2)"
    by (simp add: tcp_recv_flags_def flag_defs)
  have so: "tcp_sockets s2 p = Some w" "t_state w = CLOSE_WAIT" by (simp_all add: s2_def w_def v_def)
  then have "tcp_finish p False s2 = Inr s2" by (simp add: tcp_finish_def)
  then have "tcp_ipv4_recv src dst (tcp_segment k seqno (FIN OR PSH OR ACK) 0 data) (of_nat (length data + 24)) s = Inr s2"
    using flags u unfolding tcp_recv_segment [OF R t(1) data] by (simp add: Let_def flag_defs u_def)
  moreover have "delivered p s2 = delivered p s" by (simp add: delivered_def s2_def s1_def)
  moreover have "ack_number w = seqno + of_nat (length data) + 1" by (simp add: w_def v_def)
  ultimately show ?thesis using so by blast
qed

text \<open>A repeated SYN consumes a sequence number each time, and closing counts the FIN twice.\<close>

lemma tcp_syn_retry_slips:
  assumes "tcp_sockets s p = Some t" and "t_state t = SYN_SENT" and "tx_last_send_ms t \<noteq> 0" and "now - tx_last_send_ms t \<ge> TCP_CTL_TIMEOUT_MS"
    and "tx_retries t < TCP_CTL_MAX_RETRIES"
  shows "\<exists>s' t'. tcp_poll_socket p now s = Inr s' \<and> tcp_sockets s' p = Some t' \<and> sequence_number t' = sequence_number t + 1"
  using assms send_control [of "put_socket p (t\<lparr>tx_last_send_ms := now, tx_retries := tx_retries t + 1\<rparr>) s" p
      "t\<lparr>tx_last_send_ms := now, tx_retries := tx_retries t + 1\<rparr>" SYN]
  by (auto simp: tcp_poll_socket_def Let_def flag_defs not_le)

lemma tcp_disconnect_slips:
  assumes "tcp_sockets s p = Some t" and "t_state t = ESTABLISHED"
  shows "\<exists>s' t'. tcp_socket_disconnect p STATE_INIT s = Inr (STATE_WAIT, s') \<and> tcp_sockets s' p = Some t' \<and> t_state t' = FIN_WAIT1 \<and>
    sequence_number t' = sequence_number t + 2"
  using assms send_control [of "put_socket p (t\<lparr>t_state := FIN_WAIT1\<rparr>) s" p "t\<lparr>t_state := FIN_WAIT1\<rparr>" "FIN OR ACK"]
  by (auto simp: tcp_socket_disconnect_def flag_defs)

section \<open>Retransmission\<close>

text \<open>The task polls a socket while the timer shows the times of a list.\<close>

primrec tcp_ticks :: "nat \<Rightarrow> u32 list \<Rightarrow> 'a tcpstack_scheme \<Rightarrow> 'a tcpstack_scheme kres" where
  "tcp_ticks p [] s = Inr s"
| "tcp_ticks p (n # ns) s = kbind (tcp_poll_socket p n (s\<lparr>now_ms := n\<rparr>)) (tcp_ticks p ns)"

text \<open>Times that are at least the longest timeout, 1.6 seconds, apart.\<close>

fun far_apart :: "u32 \<Rightarrow> u32 list \<Rightarrow> bool" where
  "far_apart t0 [] = True"
| "far_apart t0 (n # ns) = (n - t0 \<ge> 1600 \<and> n \<noteq> 0 \<and> far_apart n ns)"

definition tcp_frame :: "tcp_socket \<Rightarrow> u32 \<Rightarrow> u8 list \<Rightarrow> 'a tcpstack_scheme \<Rightarrow> u8 list" where
  "tcp_frame t seqno data s = last (sent (ipv4_send 0x06 (t_remote_ip t) (t_route_mac t) (tcp_segment t seqno (PSH OR ACK) 0 data) s))"

definition waiting :: "tcp_socket \<Rightarrow> u32 \<Rightarrow> u8 list \<Rightarrow> u32 \<Rightarrow> nat \<Rightarrow> bool" where
  "waiting t seqno data t0 r \<longleftrightarrow> t_state t = ESTABLISHED \<and> tx_unacked_data t = Some data \<and> tx_unacked_len t \<noteq> 0 \<and> tx_unacked_seq t = seqno \<and>
     tx_unacked_flags t = PSH OR ACK \<and> tx_last_send_ms t = t0 \<and> t0 \<noteq> 0 \<and> tx_retries t = of_nat r \<and> tx_max_retries t = TCP_RETRANSMIT_MAX_RETRIES"

lemma sent_frame: "sent (ipv4_send 0x06 (t_remote_ip t) (t_route_mac t) (tcp_segment t seqno (PSH OR ACK) 0 data) s) = sent s @ [tcp_frame t seqno data s]"
  by (simp add: tcp_frame_def ipv4_send_def etherframe_send_def Let_def)

lemma tcp_segment_same:
  "t_local_port t' = t_local_port t \<Longrightarrow> t_remote_port t' = t_remote_port t \<Longrightarrow> ack_number t' = ack_number t \<Longrightarrow> t_local_ip t' = t_local_ip t \<Longrightarrow>
     t_remote_ip t' = t_remote_ip t \<Longrightarrow> tcp_segment t' = tcp_segment t"
  by (intro ext) (simp add: tcp_segment_def tcp_header_def tcp_pseudo_header_def)

lemma timeout_bound:
  assumes "r \<le> 8"
  shows "(if (of_nat r :: u8) > 0 then TCP_RETRANSMIT_TIMEOUT_MS * push_bit (if (of_nat r :: u8) > 4 then 4 else unat (of_nat r :: u8)) 1
    else TCP_RETRANSMIT_TIMEOUT_MS) \<le> 1600"
proof -
  have "r = 0 \<or> r = 1 \<or> r = 2 \<or> r = 3 \<or> r = 4 \<or> r = 5 \<or> r = 6 \<or> r = 7 \<or> r = 8" using assms by arith
  then show ?thesis by (elim disjE) (simp_all add: TCP_RETRANSMIT_TIMEOUT_MS_def push_bit_eq_mult)
qed

lemma tick_expired:
  assumes t: "tcp_sockets s p = Some t" "waiting t seqno data t0 r" and n: "n - t0 \<ge> 1600" "n \<noteq> 0" and r: "r \<le> 8" and fit: "fits_packet data"
  shows "if r < 8 then \<exists>s'. tcp_poll_socket p n (s\<lparr>now_ms := n\<rparr>) = Inr s' \<and> sent s' = sent s @ [tcp_frame t seqno data s] \<and>
      (\<exists>t'. tcp_sockets s' p = Some t' \<and> waiting t' seqno data n (Suc r) \<and> tcp_frame t' seqno data s' = tcp_frame t seqno data s)
    else \<exists>s' t'. tcp_poll_socket p n (s\<lparr>now_ms := n\<rparr>) = Inr s' \<and> sent s' = sent s \<and> tcp_sockets s' p = Some t' \<and> t_state t' = CLOSED"
proof -
  note w = t(2) [unfolded waiting_def]
  have late: "n - tx_last_send_ms t \<ge> (if tx_retries t > 0 then TCP_RETRANSMIT_TIMEOUT_MS * push_bit (if tx_retries t > 4 then 4 else unat (tx_retries t)) 1
      else TCP_RETRANSMIT_TIMEOUT_MS)"
  proof -
    have "tx_retries t = of_nat r" "tx_last_send_ms t = t0" using w by simp_all
    then show ?thesis by (simp only:) (rule order_trans [OF timeout_bound [OF r] n(1)])
  qed
  have retries: "tx_retries t \<ge> (if tx_max_retries t \<noteq> 0 then tx_max_retries t else TCP_RETRANSMIT_MAX_RETRIES) \<longleftrightarrow> \<not> r < 8"
    using w r by (simp add: TCP_RETRANSMIT_MAX_RETRIES_def word_le_nat_alt unat_of_nat)
  have poll: "tcp_poll_socket p n (s\<lparr>now_ms := n\<rparr>) =
      (if r < 8 then tcp_socket_resend_unacked p (s\<lparr>now_ms := n\<rparr>) else Inr (put_socket p (tcp_tx_clear_unacked (t\<lparr>t_state := CLOSED\<rparr>)) (s\<lparr>now_ms := n\<rparr>)))"
    unfolding tcp_poll_socket_def using t(1) w late retries by (simp add: Let_def)
  show ?thesis
  proof (cases "r < 8")
    case True
    define t' where "t' = t\<lparr>tx_last_send_ms := n, tx_retries := tx_retries t + 1\<rparr>"
    define s' where "s' = put_socket p t' (ipv4_send 0x06 (t_remote_ip t) (t_route_mac t) (tcp_segment t seqno (PSH OR ACK) 0 data) (s\<lparr>now_ms := n\<rparr>))"
    have run: "tcp_poll_socket p n (s\<lparr>now_ms := n\<rparr>) = Inr s'"
      using True poll t(1) w fit by (simp add: tcp_socket_resend_unacked_def s'_def t'_def flag_defs)
    have "waiting t' seqno data n (Suc r)" using w n(2) by (simp add: waiting_def t'_def add.commute)
    moreover have "sent s' = sent s @ [tcp_frame t seqno data s]"
      using sent_frame [of t seqno data "s\<lparr>now_ms := n\<rparr>"] by (simp add: s'_def tcp_frame_def ipv4_send_def etherframe_send_def Let_def)
    moreover have "tcp_frame t' seqno data s' = tcp_frame t seqno data s"
      using tcp_segment_same [of t' t] by (simp add: tcp_frame_def ipv4_send_def etherframe_send_def Let_def s'_def t'_def put_socket_def)
    ultimately show ?thesis using True run by (auto simp: s'_def)
  qed (use poll in \<open>simp add: tcp_tx_clear_unacked_def\<close>)
qed

lemma ticks_expired:
  assumes "tcp_sockets s p = Some t" and "waiting t seqno data t0 r" and "far_apart t0 ns" and "length ns + r = 8" and "fits_packet data"
  shows "\<exists>s' t'. tcp_ticks p ns s = Inr s' \<and> sent s' = sent s @ replicate (length ns) (tcp_frame t seqno data s) \<and>
    tcp_sockets s' p = Some t' \<and> waiting t' seqno data (if ns = [] then t0 else last ns) 8"
  using assms
proof (induction ns arbitrary: s t t0 r)
  case (Cons n ns)
  have n: "n - t0 \<ge> 1600" "n \<noteq> 0" and r: "r < 8" using Cons.prems(3,4) by auto
  from tick_expired [OF Cons.prems(1,2) n _ Cons.prems(5)] r obtain s1 t1 where s1: "tcp_poll_socket p n (s\<lparr>now_ms := n\<rparr>) = Inr s1"
      "sent s1 = sent s @ [tcp_frame t seqno data s]" "tcp_sockets s1 p = Some t1" "waiting t1 seqno data n (Suc r)"
      "tcp_frame t1 seqno data s1 = tcp_frame t seqno data s" by auto
  from Cons.IH [OF s1(3,4)] Cons.prems(3,4,5) obtain s2 t2 where "tcp_ticks p ns s1 = Inr s2"
      "sent s2 = sent s1 @ replicate (length ns) (tcp_frame t1 seqno data s1)" "tcp_sockets s2 p = Some t2"
      "waiting t2 seqno data (if ns = [] then n else last ns) 8" by auto
  then show ?case using s1 by auto
qed simp

text \<open>
  C28. Unacknowledged data is sent again unchanged, and only finitely often: after data was sent, every expired timeout repeats
  exactly the same frame, eight times in all; when the ninth timeout passes without an acknowledgement nothing is sent
  any more and the connection is closed.
\<close>

theorem tcp_retransmits_then_closes:
  assumes t: "tcp_sockets s p = Some t" "t_state t = ESTABLISHED" "tx_max_retries t = 0 \<or> tx_max_retries t = TCP_RETRANSMIT_MAX_RETRIES"
    and data: "data \<noteq> []" "fits_packet data" and now: "now_ms s \<noteq> 0" "far_apart (now_ms s) (ns @ [n])" "length ns = 8"
  shows "\<exists>s1 s2 s3 t3. tcp_socket_send p data s = Inr s1 \<and> sent s1 = sent s @ [tcp_frame t (sequence_number t) data s] \<and>
    tcp_ticks p ns s1 = Inr s2 \<and> sent s2 = sent s1 @ replicate 8 (tcp_frame t (sequence_number t) data s) \<and>
    tcp_ticks p [n] s2 = Inr s3 \<and> sent s3 = sent s2 \<and> tcp_sockets s3 p = Some t3 \<and> t_state t3 = CLOSED"
proof -
  let ?fr = "tcp_frame t (sequence_number t) data s"
  define t1 where "t1 = (tcp_tx_track_unacked data (PSH OR ACK) (sequence_number t) (now_ms s) t)\<lparr>sequence_number := sequence_number t + of_nat (length data)\<rparr>"
  define s1 where "s1 = put_socket p t1 (ipv4_send 0x06 (t_remote_ip t) (t_route_mac t) (tcp_segment t (sequence_number t) (PSH OR ACK) 0 data) s)"
  have seq: "sequence_number (tcp_tx_track_unacked data f q m t) = sequence_number t" for f q m
    by (simp add: tcp_tx_track_unacked_def tcp_tx_clear_unacked_def)
  have send: "tcp_socket_send p data s = Inr s1"
    using t(1) data by (simp add: tcp_socket_send_def tcp_socket_send_internal_def Let_def flag_defs s1_def t1_def seq [unfolded flag_defs])
  have "(of_nat (length data) :: u32) \<noteq> 0"
    using data unat_of_nat_32 [of "length data"] by (auto simp: fits_packet_def)
  then have w: "waiting t1 (sequence_number t) data (now_ms s) 0"
    using t(2,3) data(1) now(1) by (auto simp: waiting_def t1_def tcp_tx_track_unacked_def tcp_tx_clear_unacked_def flag_defs)
  have fr: "tcp_frame t1 (sequence_number t) data s1 = ?fr"
    using tcp_segment_same [of t1 t] by (simp add: tcp_frame_def ipv4_send_def etherframe_send_def Let_def s1_def t1_def put_socket_def
      tcp_tx_track_unacked_def tcp_tx_clear_unacked_def)
  have far: "far_apart a (xs @ [n]) \<longleftrightarrow> far_apart a xs \<and> n - (if xs = [] then a else last xs) \<ge> 1600 \<and> n \<noteq> 0" for a xs
    by (induction xs arbitrary: a) auto
  have sock1: "tcp_sockets s1 p = Some t1" by (simp add: s1_def)
  from ticks_expired [OF sock1 w, of ns] now(2,3) data(2) obtain s2 t2 where s2: "tcp_ticks p ns s1 = Inr s2"
      "sent s2 = sent s1 @ replicate 8 ?fr" "tcp_sockets s2 p = Some t2" "waiting t2 (sequence_number t) data (last ns) 8"
    unfolding far fr by (cases ns) auto
  have "n - last ns \<ge> 1600" "n \<noteq> 0" using now(2,3) unfolding far by (cases ns; simp)+
  from tick_expired [OF s2(3,4) this _ data(2)] obtain s3 t3 where "tcp_poll_socket p n (s2\<lparr>now_ms := n\<rparr>) = Inr s3" "sent s3 = sent s2"
      "tcp_sockets s3 p = Some t3" "t_state t3 = CLOSED" by auto
  moreover have "sent s1 = sent s @ [?fr]" using sent_frame [of t "sequence_number t" data s] by (simp add: s1_def)
  ultimately show ?thesis using send s2 by auto
qed

section \<open>Concrete hosts\<close>

definition tcp_host :: "u64 \<Rightarrow> u32 \<Rightarrow> tcpstack" where
  "tcp_host m a = netstack.extend (host m a) (tcpstack.fields (\<lambda>_. None) 1 [] 1024 5 (\<lambda>_. (0, None)))"

text \<open>A socket connected to port 80 of 192.168.1.11, in the state of a new one that got its answer and a callback.\<close>

definition demo_socket :: tcp_socket where
  "demo_socket = (new_tcp_socket 0x0B01A8C0 80 0x222222 (tcp_host 0x111111 0x0A01A8C0))\<lparr>t_state := ESTABLISHED, ack_number := 77, t_recv := Some 3\<rparr>"

definition demo_tcp :: tcpstack where
  "demo_tcp = (tcp_host 0x111111 0x0A01A8C0)\<lparr>tcp_sockets := [1 \<mapsto> demo_socket], tcp_binds := [(BSWAP16 1024, Some 1)], next_tcp := 2\<rparr>"

definition demo_peer :: tcp_socket where
  "demo_peer = (new_tcp_socket 0x0A01A8C0 1024 0x111111 (tcp_host 0x222222 0x0B01A8C0))\<lparr>t_local_port := BSWAP16 80\<rparr>"

lemma demo_open: "open_socket demo_tcp 1 0x0B01A8C0 (BSWAP16 80) 77"
  by (simp add: open_socket_def receives_def demo_tcp_def demo_socket_def new_tcp_socket_def)

theorem tcp_stream_in_order_witness:
  "\<exists>s'. tcp_recv_all 0x0B01A8C0 0x0A01A8C0 (map (chunk_segment 77 [[1, 2], [3], [4, 5]])
      [(demo_peer, 1), (demo_peer, 0), (demo_peer, 0), (demo_peer, 1), (demo_peer, 2)]) demo_tcp = Inr s' \<and>
    delivered 1 s' = [1, 2, 3, 4, 5]"
proof -
  have "delivered 1 demo_tcp = []" by (simp add: delivered_def demo_tcp_def tcp_host_def netstack.extend_def tcpstack.fields_def host_def
      load_network_stack_def udp_init_def icmp_init_def ipv4_init_def arp_init_def ipv4_register_def etherframe_register_def)
  moreover have "subseq [0..<3] [1, 0, 0, 1, 2]" by code_simp
  ultimately show ?thesis
    using tcp_stream_in_order [OF demo_open, of "[[1, 2], [3], [4, 5]]"
      "[(demo_peer, 1), (demo_peer, 0), (demo_peer, 0), (demo_peer, 1), (demo_peer, 2)]" "0x0A01A8C0"]
    by (auto simp: chunks_ok_def fits_packet_def demo_peer_def)
qed

theorem tcp_fin_data_lost_witness:
  "\<exists>s' t'. tcp_ipv4_recv 0x0B01A8C0 0x0A01A8C0 (tcp_segment demo_peer 77 (FIN OR PSH OR ACK) 0 [1, 2]) (of_nat (length [1 :: u8, 2] + 24)) demo_tcp = Inr s' \<and>
    tcp_sockets s' 1 = Some t' \<and> t_state t' = CLOSE_WAIT \<and> ack_number t' = 80 \<and> delivered 1 s' = delivered 1 demo_tcp"
proof -
  have "open_socket demo_tcp 1 0x0B01A8C0 (t_local_port demo_peer) 77" using demo_open by (simp add: demo_peer_def)
  moreover have "fits_packet [1, 2]" by (simp add: fits_packet_def)
  ultimately show ?thesis using tcp_fin_data_lost [of demo_tcp 1 "0x0B01A8C0" demo_peer 77 "[1, 2]" "0x0A01A8C0"] by simp
qed

theorem tcp_retransmits_then_closes_witness:
  "\<exists>s1 s2 s3 t3. tcp_socket_send 1 [1, 2, 3] demo_tcp = Inr s1 \<and> tcp_ticks 1 [2000, 4000, 6000, 8000, 10000, 12000, 14000, 16000] s1 = Inr s2 \<and>
    tcp_ticks 1 [18000] s2 = Inr s3 \<and> sent s3 = sent s2 \<and> tcp_sockets s3 1 = Some t3 \<and> t_state t3 = CLOSED"
proof -
  have "tcp_sockets demo_tcp 1 = Some demo_socket" "t_state demo_socket = ESTABLISHED" "tx_max_retries demo_socket = 0" "now_ms demo_tcp = 5"
    by (simp_all add: demo_tcp_def demo_socket_def new_tcp_socket_def tcp_host_def netstack.extend_def tcpstack.fields_def)
  then show ?thesis
    using tcp_retransmits_then_closes [of demo_tcp 1 demo_socket "[1, 2, 3]" "[2000, 4000, 6000, 8000, 10000, 12000, 14000, 16000]" 18000]
    by (auto simp: fits_packet_def)
qed

theorem tcp_connect_establishes_witness:
  "\<exists>(s :: tcpstack) p s1 s2. ip_cache s ! 0 = 0x0B01A8C0 \<and> tcp_connect STATE_REQUEST None 0x0B01A8C0 80 s = Inr (None, STATE_WAIT, Some p, s1) \<and>
    tcp_ipv4_recv 0x0B01A8C0 0x0A01A8C0 (tcp_segment demo_peer 76 (SYN OR ACK) 0 []) 24 s1 = Inr s2 \<and>
    tcp_connect STATE_WAIT (Some p) 0x0B01A8C0 80 s2 = Inr (Some p, STATE_DONE, Some p, s2)"
proof -
  define s where "s = (tcp_host 0x111111 0x0A01A8C0)\<lparr>ip_cache := 0x0B01A8C0 # replicate 127 0xFFFFFFFF, mac_cache := 0x222222 # replicate 127 0, num_cache_entry := 1\<rparr>"
  have "subnet_mask s = 0x00FFFFFF" "ip s = 0x0A01A8C0" "tcp_binds s = []" "ip_cache s ! 0 = 0x0B01A8C0"
    by (simp_all add: s_def tcp_host_def netstack.extend_def tcpstack.fields_def host_def)
  note s = this
  have r: "ipv4_resolve_route STATE_REQUEST 0x0B01A8C0 s = (0x222222, STATE_DONE, s)"
    using s by (simp add: ipv4_resolve_route_def route_of_def arp_resolve_def arp_get_mac_from_cache_def s_def NOMAC_def STATE_INIT_def STATE_REQUEST_def CACHE_SIZE_def
      upt_conv_Cons [of 0 128] Let_def tcp_host_def netstack.extend_def tcpstack.fields_def)
  have port: "t_local_port demo_peer = BSWAP16 80" by (simp add: demo_peer_def)
  have binds: "\<forall>q. Some q \<in> snd ` set (tcp_binds (add_tcp_bind (BSWAP16 (of_int (tcp_free_port s))) (next_tcp s) s)) \<longrightarrow> q = next_tcp s \<or>
      (\<exists>u. tcp_sockets s q = Some u \<and> \<not> t_listening u \<and> \<not> (t_remote_port u = BSWAP16 80 \<and> t_remote_ip u = 0x0B01A8C0))"
    using s by (simp add: add_tcp_bind_def)
  from tcp_connect_establishes [OF r binds refl port, of "0x0A01A8C0" 76 0] obtain p s1 s2 where
      "tcp_connect STATE_REQUEST None 0x0B01A8C0 80 s = Inr (None, STATE_WAIT, Some p, s1)"
      "tcp_ipv4_recv 0x0B01A8C0 0x0A01A8C0 (tcp_segment demo_peer 76 (SYN OR ACK) 0 []) 24 s1 = Inr s2"
      "tcp_connect STATE_WAIT (Some p) 0x0B01A8C0 80 s2 = Inr (Some p, STATE_DONE, Some p, s2)"
    by (elim exE conjE) (rule that; assumption)
  then show ?thesis using s(4) by (intro exI conjI)
qed

end
