(* ===== verification/Kstring.thy ===== *)
theory Kstring
  imports Prelude
begin

text \<open>
  The string and memory routines of the kernel, \<open>mckrnl/core/utils/string.c\<close>.

  A pointer into a character array is the list of the bytes from there to the end of the array;
  reading or writing behind the array is \<open>OutOfBounds\<close>. A string is an array with a zero byte in it.
  The block routines \<open>memcpy\<close> and \<open>memset\<close> work on the memory of the machine, a byte for
  every 32-bit address.
\<close>

section \<open>Strings\<close>

text \<open>The loop copies the first byte before it looks for the end, and does not copy the zero byte.\<close>

fun strcpy :: "u8 list \<Rightarrow> u8 list \<Rightarrow> u8 list kres" where
  "strcpy (_ # dest) (c # c' # src) =
     (if c' \<noteq> 0 then kbind (strcpy dest (c' # src)) (\<lambda>d. Inr (c # d)) else Inr (c # dest))"
| "strcpy dest src = Inl OutOfBounds"

fun strlen :: "u8 list \<Rightarrow> nat kres" where
  "strlen [] = Inl OutOfBounds"
| "strlen (c # src) = (if c = 0 then Inr 0 else kbind (strlen src) (\<lambda>n. Inr (Suc n)))"

fun strnlen :: "u8 list \<Rightarrow> nat \<Rightarrow> nat kres" where
  "strnlen s 0 = Inr 0"
| "strnlen [] (Suc maxlen) = Inl OutOfBounds"
| "strnlen (c # s) (Suc maxlen) = (if c = 0 then Inr 0 else kbind (strnlen s maxlen) (\<lambda>n. Inr (Suc n)))"

fun strchr :: "u8 list \<Rightarrow> u8 \<Rightarrow> u8 list option kres" where
  "strchr [] chr = Inl OutOfBounds"
| "strchr (c # str) chr =
     (if c = 0 then Inr None else if c = chr then Inr (Some (c # str)) else strchr str chr)"

text \<open>\<open>strcat_copy\<close> is the second loop of \<open>strcat\<close>, which copies the terminator too.\<close>

fun strcat_copy :: "u8 list \<Rightarrow> u8 list \<Rightarrow> u8 list kres" where
  "strcat_copy (_ # d) (c # src) =
     (if c = 0 then Inr (0 # d) else kbind (strcat_copy d src) (\<lambda>d'. Inr (c # d')))"
| "strcat_copy d src = Inl OutOfBounds"

fun strcat :: "u8 list \<Rightarrow> u8 list \<Rightarrow> u8 list kres" where
  "strcat [] src = Inl OutOfBounds"
| "strcat (c # dest) src =
     (if c = 0 then strcat_copy (c # dest) src else kbind (strcat dest src) (\<lambda>d. Inr (c # d)))"

fun memcmp :: "u8 list \<Rightarrow> u8 list \<Rightarrow> nat \<Rightarrow> int kres" where
  "memcmp s1 s2 0 = Inr 0"
| "memcmp (a # s1) (b # s2) (Suc n) = (if a \<noteq> b then Inr (uint a - uint b) else memcmp s1 s2 n)"
| "memcmp s1 s2 (Suc n) = Inl OutOfBounds"

text \<open>Plain \<open>char\<close> is signed.\<close>

fun strcmp :: "u8 list \<Rightarrow> u8 list \<Rightarrow> int kres" where
  "strcmp (a # str1) (b # str2) =
     (if a \<noteq> 0 \<and> b \<noteq> 0 \<and> a = b then strcmp str1 str2 else Inr (sint a - sint b))"
| "strcmp str1 str2 = Inl OutOfBounds"

text \<open>The copied bytes with the terminator behind them, and the pointer the function returns.\<close>

fun copy_until :: "u8 \<Rightarrow> u8 list \<Rightarrow> u8 list \<Rightarrow> (u8 list \<times> u8 list) kres" where
  "copy_until until (c # src) (x # dest) =
     (if c = 0 then Inr (0 # dest, c # src)
      else if c = until then Inr (0 # dest, src)
      else kbind (copy_until until src dest) (\<lambda>(d, p). Inr (c # d, p)))"
| "copy_until until src dest = Inl OutOfBounds"

definition isupper :: "u8 \<Rightarrow> bool" where
  "isupper c \<longleftrightarrow> 0x41 \<le> c \<and> c \<le> 0x5A"

definition tolower :: "u8 \<Rightarrow> u8" where
  "tolower c = (if isupper c then c + 0x20 else c)"

fun strcasecmp :: "u8 list \<Rightarrow> u8 list \<Rightarrow> int kres" where
  "strcasecmp (a # str1) (b # str2) =
     (if a \<noteq> 0 \<and> tolower a = tolower b then strcasecmp str1 str2
      else Inr (sint (tolower a) - sint (tolower b)))"
| "strcasecmp str1 str2 = Inl OutOfBounds"

section \<open>Blocks of memory\<close>

type_synonym memory = "u32 \<Rightarrow> u8"

text \<open>The plain loops, compiled without \<open>FAST_MEMORY\<close>.\<close>

fun memcpy_bytewise :: "u32 \<Rightarrow> u32 \<Rightarrow> nat \<Rightarrow> memory \<Rightarrow> memory" where
  "memcpy_bytewise dest src 0 m = m"
| "memcpy_bytewise dest src (Suc n) m = memcpy_bytewise (dest + 1) (src + 1) n (m(dest := m src))"

fun memset_bytewise :: "u32 \<Rightarrow> u8 \<Rightarrow> nat \<Rightarrow> memory \<Rightarrow> memory" where
  "memset_bytewise start v 0 m = m"
| "memset_bytewise start v (Suc n) m = memset_bytewise (start + 1) v n (m(start := v))"

text \<open>\<open>rep movsl\<close> and \<open>rep stosl\<close> move whole words and leave the registers behind what they moved.\<close>

definition store_long :: "u32 \<Rightarrow> u8 \<Rightarrow> u8 \<Rightarrow> u8 \<Rightarrow> u8 \<Rightarrow> memory \<Rightarrow> memory" where
  "store_long a b0 b1 b2 b3 m = m(a := b0, a + 1 := b1, a + 2 := b2, a + 3 := b3)"

fun rep_movsl :: "u32 \<Rightarrow> u32 \<Rightarrow> nat \<Rightarrow> memory \<Rightarrow> memory" where
  "rep_movsl edi esi 0 m = m"
| "rep_movsl edi esi (Suc ecx) m =
     rep_movsl (edi + 4) (esi + 4) ecx (store_long edi (m esi) (m (esi + 1)) (m (esi + 2)) (m (esi + 3)) m)"

fun rep_stosl :: "u32 \<Rightarrow> u32 \<Rightarrow> nat \<Rightarrow> memory \<Rightarrow> memory" where
  "rep_stosl edi eax 0 m = m"
| "rep_stosl edi eax (Suc ecx) m =
     rep_stosl (edi + 4) eax ecx
       (store_long edi (ucast eax) (ucast (drop_bit 8 eax)) (ucast (drop_bit 16 eax)) (ucast (drop_bit 24 eax)) m)"

text \<open>The value is the returned pointer: the register, not the argument.\<close>

definition memcpy :: "u32 \<Rightarrow> u32 \<Rightarrow> nat \<Rightarrow> memory \<Rightarrow> u32 \<times> memory" where
  "memcpy dest src n m =
     (let nn = n div 4; edi = dest + of_nat (4 * nn); esi = src + of_nat (4 * nn)
      in (edi, memcpy_bytewise edi esi (n mod 4) (rep_movsl dest src nn m)))"

definition memset :: "u32 \<Rightarrow> u8 \<Rightarrow> nat \<Rightarrow> memory \<Rightarrow> u32 \<times> memory" where
  "memset start v num m =
     (let nn = num div 4; long_value = push_bit 24 (ucast v) OR push_bit 16 (ucast v) OR push_bit 8 (ucast v) OR ucast v;
          edi = start + of_nat (4 * nn)
      in (edi, memset_bytewise edi v (num mod 4) (rep_stosl start long_value nn m)))"

section \<open>The fast block routines do what the plain loops do\<close>

lemma memcpy_bytewise_4: "memcpy_bytewise d s (4 + n) m =
   memcpy_bytewise (d + 4) (s + 4) n (memcpy_bytewise d s 4 m)"
  by (simp add: numeral_eq_Suc add.assoc)

lemma memcpy_bytewise_long:
  assumes "d - s \<notin> {1, 2, 3}"
  shows "memcpy_bytewise d s 4 m = store_long d (m s) (m (s + 1)) (m (s + 2)) (m (s + 3)) m"
proof -
  have "s + 1 \<noteq> d" "s + 2 \<noteq> d" "s + 3 \<noteq> d" "s + 2 \<noteq> d + 1" "s + 3 \<noteq> d + 1" "s + 3 \<noteq> d + 2"
    using assms by (auto simp: algebra_simps)
  then show ?thesis by (simp add: store_long_def numeral_eq_Suc add.assoc)
qed

lemma memcpy_bytewise_rep:
  assumes "d - s \<notin> {1, 2, 3}"
  shows "memcpy_bytewise d s (4 * k + r) m =
    memcpy_bytewise (d + of_nat (4 * k)) (s + of_nat (4 * k)) r (rep_movsl d s k m)"
  using assms
proof (induction k arbitrary: d s m)
  case (Suc k)
  have "memcpy_bytewise d s (4 * Suc k + r) m =
      memcpy_bytewise (d + 4) (s + 4) (4 * k + r) (memcpy_bytewise d s 4 m)"
    using memcpy_bytewise_4 [of d s "4 * k + r" m] by (simp add: add.assoc)
  with Suc.IH [of "d + 4" "s + 4"] Suc.prems memcpy_bytewise_long [OF Suc.prems, of m]
  show ?case by (simp add: add.assoc)
qed simp

lemma memset_bytewise_4: "memset_bytewise d v (4 + n) m =
   memset_bytewise (d + 4) v n (store_long d v v v v m)"
  by (simp add: numeral_eq_Suc add.assoc store_long_def)

lemma long_value_bytes:
  fixes v :: u8
  defines "l \<equiv> push_bit 24 (ucast v) OR push_bit 16 (ucast v) OR push_bit 8 (ucast v) OR (ucast v :: u32)"
  shows "ucast l = v" "ucast (drop_bit 8 l) = v" "ucast (drop_bit 16 l) = v" "ucast (drop_bit 24 l) = v"
  unfolding l_def by (rule bit_eqI; auto simp: bit_simps dest: bit_imp_le_length)+

lemma memset_bytewise_rep:
  fixes v :: u8
  defines "l \<equiv> push_bit 24 (ucast v) OR push_bit 16 (ucast v) OR push_bit 8 (ucast v) OR (ucast v :: u32)"
  shows "memset_bytewise d v (4 * k + r) m = memset_bytewise (d + of_nat (4 * k)) v r (rep_stosl d l k m)"
proof (induction k arbitrary: d m)
  case (Suc k)
  have "memset_bytewise d v (4 * Suc k + r) m = memset_bytewise (d + 4) v (4 * k + r) (store_long d v v v v m)"
    using memset_bytewise_4 [of d v "4 * k + r" m] by (simp add: add.assoc)
  moreover note bytes = long_value_bytes [of v, folded l_def]
  have "rep_stosl d l (Suc k) m = rep_stosl (d + 4) l k (store_long d v v v v m)" by (simp only: rep_stosl.simps bytes)
  ultimately show ?case using Suc.IH [of "d + 4"] by (simp add: add.assoc)
qed simp

text \<open>
  C40. The word-wise routines change memory exactly as the byte-wise loops they replace: \<open>memset\<close> always, \<open>memcpy\<close>
  unless the destination starts one, two or three bytes behind the source.
\<close>

theorem fast_memory_equivalent:
  assumes "dest - src \<notin> {1, 2, 3}"
  shows "snd (memcpy dest src n m) = memcpy_bytewise dest src n m \<and>
    snd (memset dest v n m) = memset_bytewise dest v n m"
proof
  have n: "4 * (n div 4) + n mod 4 = n" by simp
  show "snd (memcpy dest src n m) = memcpy_bytewise dest src n m"
    using memcpy_bytewise_rep [OF assms, of "n div 4" "n mod 4" m] unfolding n by (simp add: memcpy_def Let_def)
  show "snd (memset dest v n m) = memset_bytewise dest v n m"
    using memset_bytewise_rep [of dest v "n div 4" "n mod 4" m] unfolding n by (simp add: memset_def Let_def)
qed

theorem fast_memory_equivalent_witness:
  "snd (memcpy 0x1004 0x1000 11 (\<lambda>a. ucast a)) = memcpy_bytewise 0x1004 0x1000 11 (\<lambda>a. ucast a) \<and>
   snd (memset 0x1004 0xFF 11 (\<lambda>a. ucast a)) = memset_bytewise 0x1004 0xFF 11 (\<lambda>a. ucast a)"
  by (rule fast_memory_equivalent) simp

text \<open>The exception is real, and the returned pointer is not the destination once a word was moved.\<close>

lemma memcpy_overlap_differs:
  "snd (memcpy 1 0 4 (\<lambda>a. if a = 0 then 7 else 9)) 2 = 9 \<and> memcpy_bytewise 1 0 4 (\<lambda>a. if a = 0 then 7 else 9) 2 = 7"
  by code_simp

lemma memcpy_returns_end: "fst (memcpy dest src 4 m) = dest + 4"
  by (simp add: memcpy_def)

section \<open>Strings as lists\<close>

text \<open>A proper string: its bytes and, behind them, the terminator.\<close>

definition cstring :: "u8 list \<Rightarrow> bool" where
  "cstring s \<longleftrightarrow> 0 \<notin> set s"

definition text_of :: "u8 list \<Rightarrow> u8 list" where
  "text_of buf = takeWhile (\<lambda>c. c \<noteq> 0) buf"

lemma cstring_simps [simp]: "cstring []" "cstring (c # s) \<longleftrightarrow> c \<noteq> 0 \<and> cstring s"
  "cstring (s @ t) \<longleftrightarrow> cstring s \<and> cstring t"
  by (auto simp: cstring_def)

lemma text_of_append [simp]: "cstring s \<Longrightarrow> text_of (s @ 0 # x) = s"
  by (induction s) (simp_all add: text_of_def)

lemma strlen_string: "cstring s \<Longrightarrow> strlen (s @ 0 # x) = Inr (length s)"
  by (induction s) auto

lemma strcpy_string:
  "cstring s \<Longrightarrow> s \<noteq> [] \<Longrightarrow> length s \<le> length dest \<Longrightarrow>
     strcpy dest (s @ 0 # x) = Inr (s @ drop (length s) dest)"
proof (induction s arbitrary: dest)
  case (Cons c s)
  then obtain y d where "dest = y # d" by (cases dest) auto
  with Cons show ?case by (cases s) auto
qed simp

lemma strcpy_overflow:
  "cstring s \<Longrightarrow> length dest < length s \<Longrightarrow> strcpy dest (s @ 0 # x) = Inl OutOfBounds"
proof (induction s arbitrary: dest)
  case (Cons c s)
  then show ?case by (cases dest; cases s) auto
qed simp

lemma sint_diff_0 [simp]: "sint (a :: u8) = sint b \<longleftrightarrow> a = b"
  by (auto intro: signed_word_eqI)

lemma sint_0 [simp]: "sint (a :: u8) = 0 \<longleftrightarrow> a = 0"
  by (rule signed_eq_0_iff)

lemma strcmp_strings: "cstring s \<Longrightarrow> cstring t \<Longrightarrow> \<exists>r. strcmp (s @ 0 # x) (t @ 0 # y) = Inr r \<and> (r = 0 \<longleftrightarrow> s = t)"
proof (induction s arbitrary: t)
  case Nil
  then show ?case by (cases t) auto
next
  case (Cons c s)
  then show ?case by (cases t) auto
qed

lemma tolower_of_0 [simp]: "tolower 0 = 0"
  by (simp add: tolower_def isupper_def)

lemma tolower_0 [simp]: "tolower c = 0 \<longleftrightarrow> c = 0"
proof -
  have "c + 0x20 \<noteq> 0" if "0x41 \<le> c" "c \<le> 0x5A"
  proof
    assume "c + 0x20 = 0"
    then have "c = 0xE0" by (simp add: eq_neg_iff_add_eq_0 [symmetric])
    with that show False by simp
  qed
  then show ?thesis by (auto simp: tolower_def isupper_def)
qed

lemma strcasecmp_strings:
  "cstring s \<Longrightarrow> cstring t \<Longrightarrow>
     \<exists>r. strcasecmp (s @ 0 # x) (t @ 0 # y) = Inr r \<and> (r = 0 \<longleftrightarrow> map tolower s = map tolower t)"
proof (induction s arbitrary: t)
  case Nil
  then show ?case by (cases t) auto
next
  case (Cons c s)
  then show ?case by (cases t) auto
qed

lemma copy_until_found:
  "cstring s \<Longrightarrow> u \<notin> set s \<Longrightarrow> u \<noteq> 0 \<Longrightarrow> length s < length dest \<Longrightarrow>
     copy_until u (s @ u # x) dest = Inr (s @ 0 # drop (Suc (length s)) dest, x)"
proof (induction s arbitrary: dest)
  case Nil
  then show ?case by (cases dest) auto
next
  case (Cons c s)
  then obtain y d where "dest = y # d" by (cases dest) auto
  with Cons show ?case by auto
qed

lemma copy_until_end:
  "cstring s \<Longrightarrow> u \<notin> set s \<Longrightarrow> length s < length dest \<Longrightarrow>
     copy_until u (s @ 0 # x) dest = Inr (s @ 0 # drop (Suc (length s)) dest, 0 # x)"
proof (induction s arbitrary: dest)
  case Nil
  then show ?case by (cases dest) auto
next
  case (Cons c s)
  then obtain y d where "dest = y # d" by (cases dest) auto
  with Cons show ?case by auto
qed

text \<open>The pointer moves forward; past a character that is neither the terminator nor sought, it moves.\<close>

lemma copy_until_length: "copy_until u src dest = Inr (d, p) \<Longrightarrow> length p \<le> length src"
  by (induction u src dest arbitrary: d p rule: copy_until.induct)
    (auto split: if_splits prod.splits simp: le_SucI)

lemma copy_until_progress:
  "copy_until u (c # src) dest = Inr (d, p) \<Longrightarrow> c \<noteq> 0 \<Longrightarrow> length p < length (c # src)"
  by (cases dest) (auto split: if_splits dest!: copy_until_length)

lemma copy_until_advances:
  assumes "copy_until u src dest = Inr (d, c # p)" and "c \<noteq> 0"
  shows "length (c # p) < length src"
proof (cases src)
  case (Cons a as)
  have "a \<noteq> 0" using assms unfolding Cons by (cases dest) auto
  then show ?thesis using copy_until_progress [of u a as dest d "c # p"] assms(1) unfolding Cons by blast
qed (use assms in simp)

end
