(* ===== verification/Vfs.thy ===== *)
theory Vfs
  imports Kstring
begin

text \<open>
  The virtual file system, \<open>mckrnl/core/fs/vfs.c\<close> and \<open>include/fs/vfs.h\<close>: the table of mounted
  file systems and the operations that find a mount by the name in front of the colon and call
  the driver.

  Pointers to mounts and open files are addresses, \<open>0\<close> is \<open>NULL\<close>. \<open>fs\<close> is what drivers work on:
  the open files, the data and bytes a driver keeps with its mount, and kernel memory; a driver
  extends it with a state of its own. The function pointers of a mount are the
  record \<open>vfs_mount_t\<close>; \<open>None\<close> is a pointer that is \<open>NULL\<close>.
\<close>

section \<open>State\<close>

record file_t =
  f_mount :: nat
  f_mode :: int
  f_data :: nat
  f_size :: nat

datatype dir_entry_type_e = ENTRY_FILE | ENTRY_DIR

record dir_t =
  d_name :: "u8 list"
  d_idx :: int
  is_none :: bool
  d_type :: dir_entry_type_e

record fs =
  kernel_memory :: "nat \<Rightarrow> u8"
  files :: "nat \<Rightarrow> file_t option"
  next_obj :: nat
  mount_data :: "nat \<Rightarrow> nat"
  mount_tail :: "nat \<Rightarrow> u8 list"

record 'w vfs_mount_t =
  m_open :: "(nat \<Rightarrow> u8 list \<Rightarrow> int \<Rightarrow> 'w \<Rightarrow> (nat \<times> 'w) kres) option"
  m_close :: "(nat \<Rightarrow> nat \<Rightarrow> 'w \<Rightarrow> 'w kres) option"
  m_read :: "(nat \<Rightarrow> nat \<Rightarrow> nat \<Rightarrow> nat \<Rightarrow> 'w \<Rightarrow> (u8 list \<times> 'w) kres) option"
  m_write :: "(nat \<Rightarrow> nat \<Rightarrow> u8 list \<Rightarrow> nat \<Rightarrow> 'w \<Rightarrow> 'w kres) option"
  m_delete :: "(nat \<Rightarrow> nat \<Rightarrow> 'w \<Rightarrow> 'w kres) option"
  m_mkdir :: "(nat \<Rightarrow> u8 list \<Rightarrow> 'w \<Rightarrow> 'w kres) option"
  m_touch :: "(nat \<Rightarrow> u8 list \<Rightarrow> 'w \<Rightarrow> 'w kres) option"
  m_dir_at :: "(nat \<Rightarrow> int \<Rightarrow> u8 list \<Rightarrow> 'w \<Rightarrow> (dir_t \<times> 'w) kres) option"
  m_delete_dir :: "(nat \<Rightarrow> u8 list \<Rightarrow> 'w \<Rightarrow> 'w kres) option"
  m_truncate :: "(nat \<Rightarrow> nat \<Rightarrow> nat \<Rightarrow> 'w \<Rightarrow> 'w kres) option"
  m_name :: "nat \<Rightarrow> 'w \<Rightarrow> u8 list"

record 'w vfs =
  vfs_mounts :: "nat list"
  mount_ops :: "nat \<Rightarrow> 'w vfs_mount_t option"
  world :: 'w

section \<open>Operations\<close>

definition deref :: "('a \<Rightarrow> 'b option) \<Rightarrow> 'a \<Rightarrow> 'b kres" where
  "deref h p = (case h p of None \<Rightarrow> Inl BadPointer | Some x \<Rightarrow> Inr x)"

text \<open>The test of a function pointer that aborts, and the call of one that is not tested.\<close>

definition tested :: "string \<Rightarrow> 'f option \<Rightarrow> 'f kres" where
  "tested msg f = (case f of None \<Rightarrow> Inl (Abort msg) | Some g \<Rightarrow> Inr g)"

definition untested :: "'f option \<Rightarrow> 'f kres" where
  "untested f = (case f of None \<Rightarrow> Inl BadPointer | Some g \<Rightarrow> Inr g)"

definition on_world :: "'w kres \<Rightarrow> 'w vfs \<Rightarrow> 'w vfs kres" where
  "on_world r s = kbind r (\<lambda>w. Inr (s\<lparr>world := w\<rparr>))"

definition on_world' :: "('a \<times> 'w) kres \<Rightarrow> 'w vfs \<Rightarrow> ('a \<times> 'w vfs) kres" where
  "on_world' r s = kbind r (\<lambda>(x, w). Inr (x, s\<lparr>world := w\<rparr>))"

definition vfs_mount :: "nat \<Rightarrow> 'w vfs \<Rightarrow> 'w vfs" where
  "vfs_mount m s = s\<lparr>vfs_mounts := vfs_mounts s @ [m]\<rparr>"

definition path_literal :: "string \<Rightarrow> u8 list" where
  "path_literal str = map of_char str @ [0]"

text \<open>The buffer \<open>out\<close> after the call, and the returned value.\<close>

definition try_read_disk_label :: "u8 list \<Rightarrow> nat \<Rightarrow> 'a fs_scheme vfs \<Rightarrow> ((u8 list \<times> bool) \<times> 'a fs_scheme vfs) kres" where
  "try_read_disk_label out m s =
     kbind (deref (mount_ops s) m) (\<lambda>ops.
     kbind (untested (m_open ops)) (\<lambda>open_fn.
     kbind (open_fn m (path_literal ''/LABEL'') 0 (world s)) (\<lambda>(l1, w1).
     kbind (if l1 = 0 then open_fn m (path_literal ''/FOXCFG/dn.fox'') 0 w1 else Inr (l1, w1)) (\<lambda>(label, w2).
     if label \<noteq> 0 then
       kbind (deref (files w2) label) (\<lambda>f.
       kbind (untested (m_read ops)) (\<lambda>read_fn.
       kbind (read_fn m label (f_size f) 0 w2) (\<lambda>(data, w3).
       if length data < length out then
         kbind (untested (m_close ops)) (\<lambda>close_fn.
         kbind (close_fn m label w3) (\<lambda>w4.
         Inr ((data @ 0 # drop (Suc (length data)) out, True), s\<lparr>world := w4\<rparr>)))
       else Inl OutOfBounds)))
     else Inr ((out, False), s\<lparr>world := w2\<rparr>)))))"

fun find_named :: "nat list \<Rightarrow> u8 list \<Rightarrow> 'w vfs \<Rightarrow> nat kres" where
  "find_named [] nm s = Inr 0"
| "find_named (m # ms) nm s =
     kbind (deref (mount_ops s) m) (\<lambda>ops.
     kbind (strcmp (m_name ops m (world s)) nm) (\<lambda>r.
     if r = 0 then Inr m else find_named ms nm s))"

text \<open>The mount, or \<open>0\<close>, and the contents of \<open>file_path_out\<close>, which every caller has filled with zeros.\<close>

definition vfs_find_mount :: "u8 list \<Rightarrow> 'w vfs \<Rightarrow> (nat \<times> u8 list) kres" where
  "vfs_find_mount path s =
     kbind (strcpy (replicate 1024 0) path) (\<lambda>filename.
     kbind (strlen filename) (\<lambda>len.
     case find (\<lambda>i. filename ! i = 0x3A) [0..<len] of
       None \<Rightarrow> Inr (0, replicate 1024 0)
     | Some i \<Rightarrow>
         kbind (strcpy (replicate 1024 0) (drop (i + 1) filename)) (\<lambda>out.
         kbind (find_named (vfs_mounts s) (filename[i := 0]) s) (\<lambda>m. Inr (m, out)))))"

text \<open>The mount for a path in the operations that abort when there is none.\<close>

definition mount_for :: "u8 list \<Rightarrow> 'w vfs \<Rightarrow> (nat \<times> u8 list \<times> 'w vfs_mount_t) kres" where
  "mount_for path s =
     kbind (vfs_find_mount path s) (\<lambda>(m, file_path).
     if m = 0 then Inl (Abort ''No device found for path'')
     else kbind (deref (mount_ops s) m) (\<lambda>ops. Inr (m, file_path, ops)))"

definition vfs_open :: "u8 list \<Rightarrow> int \<Rightarrow> 'a fs_scheme vfs \<Rightarrow> (nat \<times> 'a fs_scheme vfs) kres" where
  "vfs_open path flags s =
     kbind (vfs_find_mount path s) (\<lambda>(m, file_path).
     if m = 0 then Inr (0, s)
     else
       kbind (deref (mount_ops s) m) (\<lambda>ops.
       kbind (tested ''no open function'' (m_open ops)) (\<lambda>open_fn.
       kbind (open_fn m file_path flags (world s)) (\<lambda>(f, w).
       if f \<noteq> 0 then
         kbind (deref (files w) f) (\<lambda>fl.
         Inr (f, s\<lparr>world := w\<lparr>files := (files w)(f \<mapsto> fl\<lparr>f_mode := flags\<rparr>)\<rparr>\<rparr>))
       else Inr (f, s\<lparr>world := w\<rparr>)))))"

text \<open>The function table behind an open file.\<close>

definition file_mount :: "nat \<Rightarrow> 'a fs_scheme vfs \<Rightarrow> (nat \<times> 'a fs_scheme vfs_mount_t) kres" where
  "file_mount f s =
     kbind (deref (files (world s)) f) (\<lambda>fl.
     kbind (deref (mount_ops s) (f_mount fl)) (\<lambda>ops. Inr (f_mount fl, ops)))"

definition vfs_close :: "nat \<Rightarrow> 'a fs_scheme vfs \<Rightarrow> 'a fs_scheme vfs kres" where
  "vfs_close f s =
     kbind (file_mount f s) (\<lambda>(m, ops).
     kbind (tested ''no close function'' (m_close ops)) (\<lambda>close_fn. on_world (close_fn m f (world s)) s))"

definition vfs_read :: "nat \<Rightarrow> nat \<Rightarrow> nat \<Rightarrow> 'a fs_scheme vfs \<Rightarrow> (u8 list \<times> 'a fs_scheme vfs) kres" where
  "vfs_read f sz offset s =
     kbind (file_mount f s) (\<lambda>(m, ops).
     kbind (tested ''no read function'' (m_read ops)) (\<lambda>read_fn. on_world' (read_fn m f sz offset (world s)) s))"

definition vfs_write :: "nat \<Rightarrow> u8 list \<Rightarrow> nat \<Rightarrow> 'a fs_scheme vfs \<Rightarrow> 'a fs_scheme vfs kres" where
  "vfs_write f buf offset s =
     kbind (file_mount f s) (\<lambda>(m, ops).
     kbind (tested ''no write function'' (m_write ops)) (\<lambda>write_fn. on_world (write_fn m f buf offset (world s)) s))"

definition vfs_truncate :: "nat \<Rightarrow> nat \<Rightarrow> 'a fs_scheme vfs \<Rightarrow> 'a fs_scheme vfs kres" where
  "vfs_truncate f new_size s =
     kbind (file_mount f s) (\<lambda>(m, ops).
     kbind (tested ''no truncate function'' (m_truncate ops)) (\<lambda>trunc_fn. on_world (trunc_fn m f new_size (world s)) s))"

definition vfs_delete :: "nat \<Rightarrow> 'a fs_scheme vfs \<Rightarrow> 'a fs_scheme vfs kres" where
  "vfs_delete f s =
     kbind (file_mount f s) (\<lambda>(m, ops).
     kbind (tested ''no delete function'' (m_delete ops)) (\<lambda>delete_fn. on_world (delete_fn m f (world s)) s))"

definition vfs_mkdir :: "u8 list \<Rightarrow> 'w vfs \<Rightarrow> 'w vfs kres" where
  "vfs_mkdir path s =
     kbind (mount_for path s) (\<lambda>(m, file_path, ops).
     kbind (tested ''no mkdir function'' (m_mkdir ops)) (\<lambda>mkdir_fn. on_world (mkdir_fn m file_path (world s)) s))"

definition vfs_touch :: "u8 list \<Rightarrow> 'w vfs \<Rightarrow> 'w vfs kres" where
  "vfs_touch path s =
     kbind (mount_for path s) (\<lambda>(m, file_path, ops).
     kbind (tested ''no touch function'' (m_touch ops)) (\<lambda>touch_fn. on_world (touch_fn m file_path (world s)) s))"

definition vfs_dir_at :: "int \<Rightarrow> u8 list \<Rightarrow> 'w vfs \<Rightarrow> (dir_t \<times> 'w vfs) kres" where
  "vfs_dir_at idx path s =
     kbind (mount_for path s) (\<lambda>(m, file_path, ops).
     kbind (tested ''no dir_at function'' (m_dir_at ops)) (\<lambda>dir_fn. on_world' (dir_fn m idx file_path (world s)) s))"

definition vfs_delete_dir :: "u8 list \<Rightarrow> 'w vfs \<Rightarrow> 'w vfs kres" where
  "vfs_delete_dir path s =
     kbind (mount_for path s) (\<lambda>(m, file_path, ops).
     kbind (tested ''no delete_dir function'' (m_delete_dir ops)) (\<lambda>del_fn. on_world (del_fn m file_path (world s)) s))"

definition vfs_fs_at :: "int \<Rightarrow> u8 list \<Rightarrow> 'w vfs \<Rightarrow> (bool \<times> u8 list) kres" where
  "vfs_fs_at idx out s =
     (if idx \<ge> int (length (vfs_mounts s)) then Inr (False, out)
      else if idx < 0 then Inl OutOfBounds
      else
        kbind (deref (mount_ops s) (vfs_mounts s ! nat idx)) (\<lambda>ops.
        kbind (strcpy out (m_name ops (vfs_mounts s ! nat idx) (world s))) (\<lambda>out'. Inr (True, out'))))"

type_synonym 'w fs_scanner = "nat \<Rightarrow> 'w vfs \<Rightarrow> (nat \<times> 'w vfs) kres"

definition vfs_register_fs_scanner :: "'w fs_scanner \<Rightarrow> 'w fs_scanner list \<Rightarrow> 'w fs_scanner list" where
  "vfs_register_fs_scanner scanner vfs_scanner = vfs_scanner @ [scanner]"

fun scan_disk :: "'w fs_scanner list \<Rightarrow> nat \<Rightarrow> 'w vfs \<Rightarrow> 'w vfs kres" where
  "scan_disk [] i s = Inr s"
| "scan_disk (sc # scs) i s =
     kbind (sc i s) (\<lambda>(m, s1). if m \<noteq> 0 then Inr (vfs_mount m s1) else scan_disk scs i s1)"

fun scan_from :: "'w fs_scanner list \<Rightarrow> nat list \<Rightarrow> 'w vfs \<Rightarrow> 'w vfs kres" where
  "scan_from scs [] s = Inr s"
| "scan_from scs (i # ds) s = kbind (scan_disk scs i s) (scan_from scs ds)"

definition vfs_scan_fs :: "'w fs_scanner list \<Rightarrow> nat \<Rightarrow> 'w vfs \<Rightarrow> 'w vfs kres" where
  "vfs_scan_fs vfs_scanner num_disks s = scan_from vfs_scanner [0..<num_disks] s"

fun open_first :: "nat list \<Rightarrow> u8 list \<Rightarrow> int \<Rightarrow> 'w vfs \<Rightarrow> (nat \<times> 'w vfs) kres" where
  "open_first [] nm flags s = Inr (0, s)"
| "open_first (m # ms) nm flags s =
     kbind (deref (mount_ops s) m) (\<lambda>ops.
     kbind (untested (m_open ops)) (\<lambda>open_fn.
     kbind (open_fn m nm flags (world s)) (\<lambda>(f, w).
     if f \<noteq> 0 then Inr (f, s\<lparr>world := w\<rparr>) else open_first ms nm flags (s\<lparr>world := w\<rparr>))))"

definition vfs_open_first_found :: "u8 list \<Rightarrow> int \<Rightarrow> 'w vfs \<Rightarrow> (nat \<times> 'w vfs) kres" where
  "vfs_open_first_found nm flags s = open_first (vfs_mounts s) nm flags s"

section \<open>Finding the mount of a path\<close>

text \<open>The mounts by name: the first one in the table wins.\<close>

definition named :: "'w vfs \<Rightarrow> nat \<Rightarrow> u8 list \<Rightarrow> bool" where
  "named s m nm \<longleftrightarrow> m \<noteq> 0 \<and> cstring nm \<and> (\<exists>ops. mount_ops s m = Some ops \<and> (\<exists>x. m_name ops m (world s) = nm @ 0 # x))"

definition mount_called :: "'w vfs \<Rightarrow> u8 list \<Rightarrow> nat" where
  "mount_called s nm = (case find (\<lambda>m. text_of (m_name (the (mount_ops s m)) m (world s)) = nm) (vfs_mounts s) of
     None \<Rightarrow> 0 | Some m \<Rightarrow> m)"

definition mounts_ok :: "'w vfs \<Rightarrow> bool" where
  "mounts_ok s \<longleftrightarrow> (\<forall>m\<in>set (vfs_mounts s). \<exists>nm. named s m nm)"

lemma find_named_eq:
  assumes "\<forall>m\<in>set ms. \<exists>nm. named s m nm" and "cstring nm"
  shows "find_named ms (nm @ 0 # x) s =
    Inr (case find (\<lambda>m. text_of (m_name (the (mount_ops s m)) m (world s)) = nm) ms of None \<Rightarrow> 0 | Some m \<Rightarrow> m)"
  using assms(1)
proof (induction ms)
  case (Cons m ms)
  then obtain nm' ops y where m: "cstring nm'" "mount_ops s m = Some ops" "m_name ops m (world s) = nm' @ 0 # y"
    by (auto simp: named_def)
  obtain r where "strcmp (nm' @ 0 # y) (nm @ 0 # x) = Inr r" "r = 0 \<longleftrightarrow> nm' = nm"
    using strcmp_strings [OF m(1) assms(2)] by blast
  with m Cons show ?case by (simp add: deref_def)
qed simp

lemma find_upt_first:
  assumes "i < n" and "P i" and "\<And>j. j < i \<Longrightarrow> \<not> P j"
  shows "find P [0..<n] = Some i"
  unfolding find_Some_iff using assms by (intro exI [of _ i]) auto

lemma vfs_find_mount_eq:
  assumes ok: "mounts_ok s" and nm: "cstring nm" "0x3A \<notin> set nm" and rest: "cstring rest"
    and len: "length nm + length rest < 1022"
  shows "vfs_find_mount ((nm @ 0x3A # rest) @ 0 # x) s = Inr (mount_called s nm, rest @ replicate (1024 - length rest) 0)"
proof -
  define p where "p = nm @ 0x3A # rest"
  define buf where "buf = p @ replicate (1024 - length p) 0"
  have p: "cstring p" "p \<noteq> []" "length p < 1023" using assms by (auto simp: p_def)
  have cpy: "strcpy (replicate 1024 0) (p @ 0 # x) = Inr buf"
    using strcpy_string [OF p(1,2), of "replicate 1024 0" x] p(3) by (simp add: buf_def)
  obtain k where k: "1024 - length p = Suc k" using p(3) by (cases "1024 - length p") auto
  have len: "strlen buf = Inr (length p)" using strlen_string [OF p(1)] k by (simp add: buf_def)
  have "find (\<lambda>i. buf ! i = 0x3A) [0..<length p] = Some (length nm)"
    by (rule find_upt_first) (use nm(2) in \<open>auto simp: p_def buf_def nth_append in_set_conv_nth\<close>)
  moreover have "strcpy (replicate 1024 0) (drop (length nm + 1) buf) = Inr (rest @ replicate (1024 - length rest) 0)"
  proof (cases "rest = []")
    case True
    then have "drop (length nm + 1) buf = replicate (1024 - length p) 0" by (simp add: buf_def p_def)
    also have "\<dots> = 0 # 0 # replicate (1022 - length p) 0"
    proof -
      have "1024 - length p = Suc (Suc (1022 - length p))" using p(3) by simp
      then show ?thesis by simp
    qed
    finally have "drop (length nm + 1) buf = 0 # 0 # replicate (1022 - length p) 0" .
    then have "strcpy (0 # replicate 1023 0) (drop (length nm + 1) buf) = Inr (0 # replicate 1023 0)" by simp
    moreover have "0 # replicate 1023 (0 :: u8) = replicate 1024 0" by (simp flip: replicate_Suc)
    ultimately show ?thesis using True by simp
  next
    case False
    have "drop (length nm + 1) buf = rest @ 0 # replicate k 0" using k by (simp add: buf_def p_def)
    then show ?thesis using strcpy_string [OF rest False, of "replicate 1024 0"] assms(5) by simp
  qed
  moreover have "buf[length nm := 0] = nm @ 0 # rest @ replicate (1024 - length p) 0"
    by (simp add: buf_def p_def list_update_append)
  moreover have "find_named (vfs_mounts s) (nm @ 0 # rest @ replicate (1024 - length p) 0) s = Inr (mount_called s nm)"
    using find_named_eq [of "vfs_mounts s" s nm] ok nm(1) by (simp add: mounts_ok_def mount_called_def)
  ultimately show ?thesis unfolding vfs_find_mount_def p_def [symmetric] cpy kbind_Inr len by simp
qed

end
