(* ===== verification/Ramfs.thy ===== *)
theory Ramfs
  imports Vfs "HOL-Library.Signed_Division"
begin

text \<open>
  The file system in memory, \<open>mckrnl/filesystem/ramfs/driver.c\<close> and \<open>include/ramfs.h\<close>.

  A node fills one page; \<open>r_nodes\<close> are the nodes by their address, with the union as
  \<open>Childs\<close> or \<open>FileData\<close>. The bytes of files are in \<open>kernel_memory\<close>, in blocks of whole pages whose
  lengths \<open>r_blocks\<close> keeps; access outside the block is \<open>OutOfBounds\<close>. Pages come from
  \<open>vmm_alloc\<close>, which hands out pages nobody else has: here every allocation takes addresses that were not
  used before, starting at \<open>r_next\<close>, and it succeeds. What a new block of file data holds is whatever was
  in memory before.
\<close>

section \<open>State\<close>

datatype ramfs_node_type = NODE_FILE | NODE_DIR

datatype node_union = Childs "nat list" | FileData int nat

record ramfs_node =
  n_name :: "u8 list"
  n_type :: ramfs_node_type
  n_body :: node_union

record ramfs = fs +
  r_nodes :: "nat \<Rightarrow> ramfs_node option"
  r_blocks :: "nat \<Rightarrow> nat option"
  r_next :: nat

text \<open>The conversion of a C \<open>int\<close> to \<open>size_t\<close>.\<close>

definition u32_of :: "int \<Rightarrow> nat" where
  "u32_of i = nat (i mod 0x100000000)"

text \<open>
  The union read as the array of children and as the fields of a file: size and data
  pointer of a file overlay its first two children.
\<close>

definition childs :: "ramfs_node \<Rightarrow> nat list" where
  "childs n = (case n_body n of Childs ps \<Rightarrow> ps | FileData sz d \<Rightarrow> u32_of sz # d # replicate 998 0)"

definition fsize :: "ramfs_node \<Rightarrow> int" where
  "fsize n = (case n_body n of Childs ps \<Rightarrow> s32 (int (ps ! 0)) | FileData sz d \<Rightarrow> sz)"

definition fdata :: "ramfs_node \<Rightarrow> nat" where
  "fdata n = (case n_body n of Childs ps \<Rightarrow> ps ! 1 | FileData sz d \<Rightarrow> d)"

section \<open>Memory\<close>

definition alloc_pages :: "nat \<Rightarrow> 'a ramfs_scheme \<Rightarrow> nat \<times> 'a ramfs_scheme" where
  "alloc_pages n s = (r_next s, s\<lparr>r_next := r_next s + n * 0x1000\<rparr>)"

definition block_access :: "nat \<Rightarrow> nat \<Rightarrow> nat \<Rightarrow> 'a ramfs_scheme \<Rightarrow> unit kres" where
  "block_access p off n s =
     kassert (n = 0 \<or> (case r_blocks s p of None \<Rightarrow> False | Some len \<Rightarrow> off + n \<le> len)) OutOfBounds"

definition bytes_at :: "nat \<Rightarrow> nat \<Rightarrow> (nat \<Rightarrow> u8) \<Rightarrow> u8 list" where
  "bytes_at a n m = map (\<lambda>i. m (a + i)) [0..<n]"

definition put_bytes :: "nat \<Rightarrow> u8 list \<Rightarrow> (nat \<Rightarrow> u8) \<Rightarrow> nat \<Rightarrow> u8" where
  "put_bytes a bs m = (\<lambda>x. if a \<le> x \<and> x < a + length bs then bs ! (x - a) else m x)"

text \<open>\<open>vmm_resize\<close> with elements of one byte, on blocks.\<close>

definition new_block :: "int \<Rightarrow> 'a ramfs_scheme \<Rightarrow> (nat \<times> 'a ramfs_scheme) kres" where
  "new_block pages s =
     (if pages \<le> 0 then Inl OutOfBounds
      else let (p, s1) = alloc_pages (nat pages) s
           in Inr (p, s1\<lparr>r_blocks := (r_blocks s1)(p \<mapsto> nat pages * 0x1000)\<rparr>))"

definition resize_block :: "int \<Rightarrow> int \<Rightarrow> nat \<Rightarrow> 'a ramfs_scheme \<Rightarrow> (nat \<times> 'a ramfs_scheme) kres" where
  "resize_block old_size new_size p s =
     (let new_size_p = new_size sdiv 0x1000 + 1; old_size_p = old_size sdiv 0x1000 + 1
      in if p = 0 then new_block new_size_p s
         else if new_size = 0 then Inr (0, s\<lparr>r_blocks := (r_blocks s)(p := None)\<rparr>)
         else if new_size_p \<noteq> old_size_p then
           kbind (new_block new_size_p s) (\<lambda>(q, s1).
             let n = u32_of (if new_size_p < old_size_p then new_size else old_size)
             in kbind (block_access p 0 n s1) (\<lambda>_. kbind (block_access q 0 n s1) (\<lambda>_.
                Inr (q, s1\<lparr>kernel_memory := put_bytes q (bytes_at p n (kernel_memory s1)) (kernel_memory s1),
                           r_blocks := (r_blocks s1)(p := None)\<rparr>))))
         else Inr (p, s))"

section \<open>Paths\<close>

text \<open>The child with the name in the buffer, or \<open>0\<close>.\<close>

fun find_child :: "u8 list \<Rightarrow> nat list \<Rightarrow> 'a ramfs_scheme \<Rightarrow> nat kres" where
  "find_child buf [] s = Inr 0"
| "find_child buf (p # ps) s =
     (if p = 0 then find_child buf ps s
      else kbind (deref (r_nodes s) p) (\<lambda>n.
           kbind (strcasecmp buf (n_name n)) (\<lambda>r.
           if r = 0 then Inr p else find_child buf ps s)))"

function ramfs_find :: "u8 list \<Rightarrow> nat \<Rightarrow> 'a ramfs_scheme \<Rightarrow> nat kres" where
  "ramfs_find path current s =
     (case dropWhile (\<lambda>c. c = 0x2F) path of
        [] \<Rightarrow> Inl OutOfBounds
      | c # rest \<Rightarrow>
          if c = 0 then Inr current
          else
            kbind (copy_until 0x2F (c # rest) (replicate 128 0)) (\<lambda>(buf, nx).
            kbind (deref (r_nodes s) current) (\<lambda>n.
            kbind (find_child buf (childs n) s) (\<lambda>ch.
            if ch = 0 then Inr 0 else ramfs_find nx ch s))))"
  by pat_completeness auto

termination
proof (relation "measure (\<lambda>(path, _, _). length path)")
  fix path :: "u8 list" and current ch :: nat and s :: "'a ramfs_scheme" and c rest x buf nx
  assume d: "dropWhile (\<lambda>c. c = 0x2F) path = c # rest" and c: "c \<noteq> 0"
    and "copy_until 0x2F (c # rest) (replicate 128 0) = Inr x" "(buf, nx) = x"
  then have "length nx < length (c # rest)" using copy_until_progress by blast
  also have "\<dots> \<le> length path" unfolding d [symmetric] by (rule length_dropWhile_le)
  finally show "((nx, ch, s), path, current, s) \<in> measure (\<lambda>(path, _, _). length path)" by simp
qed simp

declare ramfs_find.simps [simp del]

function split_from :: "u8 list \<Rightarrow> u8 list option \<Rightarrow> u8 list option kres" where
  "split_from nx to_create =
     kbind (copy_until 0x2F nx (replicate 128 0)) (\<lambda>(_, nx').
     case nx' of
       [] \<Rightarrow> Inl OutOfBounds
     | c # _ \<Rightarrow> if c \<noteq> 0 then split_from nx' (Some nx') else Inr to_create)"
  by pat_completeness auto

termination
proof (relation "measure (\<lambda>(nx, _). length nx)")
  fix nx d nx' rest :: "u8 list" and to_create and y and c :: u8
  assume "copy_until 0x2F nx (replicate 128 0) = Inr y" "(d, nx') = y" "nx' = c # rest" "c \<noteq> 0"
  then have "length nx' < length nx" using copy_until_advances by blast
  then show "((nx', Some nx'), nx, to_create) \<in> measure (\<lambda>(nx, _). length nx)" by simp
qed auto

declare split_from.simps [simp del]

text \<open>The name to create, and the buffer with the path of the directory it goes to.\<close>

definition ramfs_split_path :: "u8 list \<Rightarrow> (u8 list \<times> u8 list) kres" where
  "ramfs_split_path path =
     kbind (split_from path None) (\<lambda>t. case t of
       None \<Rightarrow> Inl OutOfBounds
     | Some to_create \<Rightarrow>
         let n = length path - length to_create - 1
         in if n \<le> 512 then Inr (to_create, take n path @ replicate (512 - n) 0) else Inl OutOfBounds)"

section \<open>The driver\<close>

definition ramfs_name :: "nat \<Rightarrow> 'a ramfs_scheme \<Rightarrow> u8 list" where
  "ramfs_name m s = mount_tail s m"

text \<open>\<open>ramfs_open\<close> leaves \<open>mode\<close> as \<open>kmalloc\<close> delivers it; \<open>vfs_open\<close> sets it.\<close>

definition ramfs_open :: "nat \<Rightarrow> u8 list \<Rightarrow> int \<Rightarrow> 'a ramfs_scheme \<Rightarrow> (nat \<times> 'a ramfs_scheme) kres" where
  "ramfs_open m path flags s =
     kbind (ramfs_find path (mount_data s m) s) (\<lambda>node.
     if node = 0 then Inr (0, s)
     else
       kbind (deref (r_nodes s) node) (\<lambda>n.
       if n_type n \<noteq> NODE_FILE then Inr (0, s)
       else
         let f = next_obj s;
             fl = \<lparr>f_mount = m, f_mode = 0, f_data = node, f_size = u32_of (fsize n)\<rparr>
         in Inr (f, s\<lparr>files := (files s)(f \<mapsto> fl), next_obj := f + 1\<rparr>)))"

definition ramfs_close :: "nat \<Rightarrow> nat \<Rightarrow> 'a ramfs_scheme \<Rightarrow> 'a ramfs_scheme kres" where
  "ramfs_close m f s = kbind (deref (files s) f) (\<lambda>_. Inr (s\<lparr>files := (files s)(f := None)\<rparr>))"

definition ramfs_read :: "nat \<Rightarrow> nat \<Rightarrow> nat \<Rightarrow> nat \<Rightarrow> 'a ramfs_scheme \<Rightarrow> (u8 list \<times> 'a ramfs_scheme) kres" where
  "ramfs_read m f sz offset s =
     kbind (deref (files s) f) (\<lambda>fl.
     kbind (deref (r_nodes s) (f_data fl)) (\<lambda>n.
     kbind (kassert (u32_of (fsize n) \<ge> wrap32 (offset + sz)) (AssertFailed ''node->fsize >= offset + size'')) (\<lambda>_.
     kbind (block_access (fdata n) offset sz s) (\<lambda>_.
     Inr (bytes_at (fdata n + offset) sz (kernel_memory s), s)))))"

text \<open>\<open>set_file\<close> stores size and data pointer in the node and the size in the open file.\<close>

definition set_file :: "nat \<Rightarrow> file_t \<Rightarrow> ramfs_node \<Rightarrow> int \<Rightarrow> nat \<Rightarrow> 'a ramfs_scheme \<Rightarrow> 'a ramfs_scheme" where
  "set_file f fl n sz d s =
     s\<lparr>files := (files s)(f \<mapsto> fl\<lparr>f_size := u32_of sz\<rparr>),
       r_nodes := (r_nodes s)(f_data fl \<mapsto> n\<lparr>n_body := FileData sz d\<rparr>)\<rparr>"

definition ramfs_write :: "nat \<Rightarrow> nat \<Rightarrow> u8 list \<Rightarrow> nat \<Rightarrow> 'a ramfs_scheme \<Rightarrow> 'a ramfs_scheme kres" where
  "ramfs_write m f buf offset s =
     kbind (deref (files s) f) (\<lambda>fl.
     kbind (deref (r_nodes s) (f_data fl)) (\<lambda>n.
     let new_file_size = s32 (int (offset + length buf))
     in kbind (if new_file_size > fsize n
               then kbind (resize_block (fsize n) new_file_size (fdata n) s) (\<lambda>(d, s1). Inr (new_file_size, d, s1))
               else Inr (fsize n, fdata n, s)) (\<lambda>(sz, d, s1).
        let s2 = set_file f fl n sz d s1
        in kbind (block_access d offset (length buf) s2) (\<lambda>_.
           Inr (s2\<lparr>kernel_memory := put_bytes (d + offset) buf (kernel_memory s2)\<rparr>)))))"

definition ramfs_truncate :: "nat \<Rightarrow> nat \<Rightarrow> nat \<Rightarrow> 'a ramfs_scheme \<Rightarrow> 'a ramfs_scheme kres" where
  "ramfs_truncate m f new_size s =
     kbind (deref (files s) f) (\<lambda>fl.
     kbind (deref (r_nodes s) (f_data fl)) (\<lambda>n.
     kbind (resize_block (fsize n) (s32 (int new_size)) (fdata n) s) (\<lambda>(d, s1).
     Inr (set_file f fl n (s32 (int new_size)) d s1))))"

definition ramfs_delete :: "nat \<Rightarrow> nat \<Rightarrow> 'a ramfs_scheme \<Rightarrow> 'a ramfs_scheme kres" where
  "ramfs_delete m f s = Inl (Abort ''ramfs_delete not implemented! (yet i hope)'')"

text \<open>
  A cleared node with type and name. The loop of \<open>ramfs_mkdir\<close> and \<open>ramfs_touch\<close> puts it into
  the first free slot; a full directory stays as it is.
\<close>

definition zero_union :: "ramfs_node_type \<Rightarrow> node_union" where
  "zero_union t = (case t of NODE_DIR \<Rightarrow> Childs (replicate 1000 0) | NODE_FILE \<Rightarrow> FileData 0 0)"

definition set_child :: "nat \<Rightarrow> nat \<Rightarrow> ramfs_node \<Rightarrow> ramfs_node" where
  "set_child i p n = n\<lparr>n_body := Childs ((childs n)[i := p])\<rparr>"

definition add_child :: "nat \<Rightarrow> ramfs_node \<Rightarrow> ramfs_node_type \<Rightarrow> u8 list \<Rightarrow> 'a ramfs_scheme \<Rightarrow> 'a ramfs_scheme kres" where
  "add_child node n t to_create s =
     (case find (\<lambda>i. childs n ! i = 0) [0..<length (childs n)] of
        None \<Rightarrow> Inr s
      | Some i \<Rightarrow>
          let (p, s1) = alloc_pages 1 s
          in kbind (strcpy (replicate 92 0) to_create) (\<lambda>nm.
             Inr (s1\<lparr>r_nodes := (r_nodes s1)(p \<mapsto> \<lparr>n_name = nm, n_type = t, n_body = zero_union t\<rparr>,
                                            node \<mapsto> set_child i p n)\<rparr>)))"

definition ramfs_create :: "ramfs_node_type \<Rightarrow> nat \<Rightarrow> u8 list \<Rightarrow> 'a ramfs_scheme \<Rightarrow> 'a ramfs_scheme kres" where
  "ramfs_create t m path s =
     kbind (ramfs_find path (mount_data s m) s) (\<lambda>found.
     if found \<noteq> 0 then Inr s
     else
       kbind (ramfs_split_path path) (\<lambda>(to_create, path_buf).
       kbind (ramfs_find path_buf (mount_data s m) s) (\<lambda>node.
       if node = 0 then Inr s
       else
         kbind (deref (r_nodes s) node) (\<lambda>n.
         if n_type n \<noteq> NODE_DIR then Inr s else add_child node n t to_create s))))"

definition ramfs_mkdir :: "nat \<Rightarrow> u8 list \<Rightarrow> 'a ramfs_scheme \<Rightarrow> 'a ramfs_scheme kres" where
  "ramfs_mkdir m path s = ramfs_create NODE_DIR m path s"

definition ramfs_touch :: "nat \<Rightarrow> u8 list \<Rightarrow> 'a ramfs_scheme \<Rightarrow> 'a ramfs_scheme kres" where
  "ramfs_touch m path s = ramfs_create NODE_FILE m path s"

definition no_dir :: dir_t where
  "no_dir = \<lparr>d_name = replicate 256 0, d_idx = 0, is_none = True, d_type = ENTRY_FILE\<rparr>"

text \<open>The child the loop stops at; \<open>None\<close> when it runs out of slots.\<close>

fun dir_scan :: "nat list \<Rightarrow> int \<Rightarrow> nat option" where
  "dir_scan [] current_idx = None"
| "dir_scan (p # ps) current_idx =
     (let c = (if p \<noteq> 0 then current_idx - 1 else current_idx)
      in if c = 0 then Some p else dir_scan ps c)"

definition ramfs_dir_at :: "nat \<Rightarrow> int \<Rightarrow> u8 list \<Rightarrow> 'a ramfs_scheme \<Rightarrow> (dir_t \<times> 'a ramfs_scheme) kres" where
  "ramfs_dir_at m idx path s =
     kbind (ramfs_find path (mount_data s m) s) (\<lambda>node.
     if node = 0 then Inr (no_dir, s)
     else
       kbind (deref (r_nodes s) node) (\<lambda>n.
       if n_type n \<noteq> NODE_DIR then Inr (no_dir, s)
       else
         case dir_scan (childs n) (s32 (idx + 1)) of
           None \<Rightarrow> Inr (no_dir, s)
         | Some p \<Rightarrow>
             kbind (deref (r_nodes s) p) (\<lambda>ch.
             kbind (strcpy (replicate 256 0) (n_name ch)) (\<lambda>nm.
             Inr (\<lparr>d_name = nm, d_idx = idx, is_none = False,
                   d_type = (case n_type ch of NODE_DIR \<Rightarrow> ENTRY_DIR | NODE_FILE \<Rightarrow> ENTRY_FILE)\<rparr>, s)))))"

definition ramfs_delete_dir :: "nat \<Rightarrow> u8 list \<Rightarrow> 'a ramfs_scheme \<Rightarrow> 'a ramfs_scheme kres" where
  "ramfs_delete_dir m path s = Inl (Abort ''ramfs_delete_dir not implemented! (yet i hope)'')"

definition ramfs_ops :: "'a ramfs_scheme vfs_mount_t" where
  "ramfs_ops =
     \<lparr>m_open = Some ramfs_open, m_close = Some ramfs_close, m_read = Some ramfs_read, m_write = Some ramfs_write,
      m_delete = Some ramfs_delete, m_mkdir = Some ramfs_mkdir, m_touch = Some ramfs_touch,
      m_dir_at = Some ramfs_dir_at, m_delete_dir = Some ramfs_delete_dir, m_truncate = Some ramfs_truncate,
      m_name = ramfs_name\<rparr>"

definition get_ramfs :: "u8 list \<Rightarrow> 'a ramfs_scheme vfs \<Rightarrow> (nat \<times> 'a ramfs_scheme vfs) kres" where
  "get_ramfs nm s =
     kbind (strlen nm) (\<lambda>name_len.
     kbind (strcpy (replicate (name_len + 1) 0) nm) (\<lambda>nm_copy.
     let w = world s; m = next_obj w; (root, w1) = alloc_pages 1 w
     in Inr (m, s\<lparr>mount_ops := (mount_ops s)(m \<mapsto> ramfs_ops),
          world := w1\<lparr>next_obj := m + 1, mount_data := (mount_data w1)(m := root), mount_tail := (mount_tail w1)(m := nm_copy),
            r_nodes := (r_nodes w1)(root \<mapsto>
              \<lparr>n_name = replicate 92 0, n_type = NODE_DIR, n_body = Childs (replicate 1000 0)\<rparr>)\<rparr>\<rparr>)))"

text \<open>The module mounts one as \<open>tmp\<close>.\<close>

definition stage_mount :: "'a ramfs_scheme vfs \<Rightarrow> 'a ramfs_scheme vfs kres" where
  "stage_mount s = kbind (get_ramfs (path_literal ''tmp'') s) (\<lambda>(m, s1). Inr (vfs_mount m s1))"

end
