(* ===== verification/Ramfs_Tree.thy ===== *)
theory Ramfs_Tree
  imports Ramfs
begin

text \<open>
  The tree of directories and files that the nodes of a ramfs form, and the refinement of path
  lookup and creation to a map from paths to entries. Paths are lists of names; names are compared without
  regard to case.
\<close>

section \<open>The nodes as a tree\<close>

definition slots :: "'a ramfs_scheme \<Rightarrow> nat \<Rightarrow> nat list" where
  "slots s p = (case r_nodes s p of None \<Rightarrow> [] | Some n \<Rightarrow> (case n_body n of Childs ps \<Rightarrow> ps | FileData sz d \<Rightarrow> []))"

definition is_dir :: "'a ramfs_scheme \<Rightarrow> nat \<Rightarrow> bool" where
  "is_dir s p \<longleftrightarrow> (\<exists>n. r_nodes s p = Some n \<and> n_type n = NODE_DIR)"

definition lower :: "u8 list \<Rightarrow> u8 list" where
  "lower c = map tolower c"

definition lname :: "'a ramfs_scheme \<Rightarrow> nat \<Rightarrow> u8 list" where
  "lname s p = lower (text_of (n_name (the (r_nodes s p))))"

definition child :: "'a ramfs_scheme \<Rightarrow> nat \<Rightarrow> u8 list \<Rightarrow> nat option" where
  "child s p c = find (\<lambda>q. q \<noteq> 0 \<and> lname s q = lower c) (slots s p)"

fun walk :: "'a ramfs_scheme \<Rightarrow> nat \<Rightarrow> u8 list list \<Rightarrow> nat option" where
  "walk s p [] = Some p"
| "walk s p (c # cs) = (case child s p c of None \<Rightarrow> None | Some q \<Rightarrow> walk s q cs)"

text \<open>Size and data pointer of a file overlay its children, so lookup must not pass through a file.\<close>

fun through_dirs :: "'a ramfs_scheme \<Rightarrow> nat \<Rightarrow> u8 list list \<Rightarrow> bool" where
  "through_dirs s p [] = True"
| "through_dirs s p (c # cs) = (is_dir s p \<and> (case child s p c of None \<Rightarrow> True | Some q \<Rightarrow> through_dirs s q cs))"

definition node_ok :: "'a ramfs_scheme \<Rightarrow> ramfs_node \<Rightarrow> bool" where
  "node_ok s n \<longleftrightarrow> (\<exists>nm x. n_name n = nm @ 0 # x \<and> cstring nm) \<and>
     length (n_name n) = 92 \<and> (n_name n ! 0 = 0 \<longrightarrow> n_name n ! 1 = 0) \<and>
     (case n_body n of
        Childs ps \<Rightarrow> n_type n = NODE_DIR \<and> length ps = 1000 \<and> (\<forall>q\<in>set ps. q \<noteq> 0 \<longrightarrow> r_nodes s q \<noteq> None)
      | FileData sz d \<Rightarrow> n_type n = NODE_FILE \<and> 0 \<le> sz \<and> sz < 0x80000000 \<and>
          (if d = 0 then sz = 0 else r_blocks s d = Some (nat (sz div 0x1000 + 1) * 0x1000)))"

definition blocks_ok :: "'a ramfs_scheme \<Rightarrow> bool" where
  "blocks_ok s \<longleftrightarrow> (\<forall>d len. r_blocks s d = Some len \<longrightarrow> 0 < d \<and> 0 < len \<and> d + len \<le> r_next s) \<and>
     (\<forall>d e len len'. r_blocks s d = Some len \<longrightarrow> r_blocks s e = Some len' \<longrightarrow> d \<noteq> e \<longrightarrow> d + len \<le> e \<or> e + len' \<le> d)"

definition owners_ok :: "'a ramfs_scheme \<Rightarrow> bool" where
  "owners_ok s \<longleftrightarrow> (\<forall>p q n n' sz sz' d. r_nodes s p = Some n \<longrightarrow> r_nodes s q = Some n' \<longrightarrow>
     n_body n = FileData sz d \<longrightarrow> n_body n' = FileData sz' d \<longrightarrow> d \<noteq> 0 \<longrightarrow> p = q)"

definition tree_ok :: "'a ramfs_scheme \<Rightarrow> bool" where
  "tree_ok s \<longleftrightarrow> (\<forall>a b i j. i < length (slots s a) \<longrightarrow> j < length (slots s b) \<longrightarrow>
     slots s a ! i = slots s b ! j \<longrightarrow> slots s a ! i \<noteq> 0 \<longrightarrow> a = b \<and> i = j)"

definition ramfs_wf :: "'a ramfs_scheme \<Rightarrow> bool" where
  "ramfs_wf s \<longleftrightarrow> 0x1000 \<le> r_next s \<and> 0 < next_obj s \<and> r_nodes s 0 = None \<and>
     (\<forall>p n. r_nodes s p = Some n \<longrightarrow> 0x1000 \<le> p \<and> p < r_next s \<and> node_ok s n) \<and>
     (\<forall>f. files s f \<noteq> None \<longrightarrow> 0 < f \<and> f < next_obj s) \<and>
     blocks_ok s \<and> owners_ok s \<and> tree_ok s"

definition root_ok :: "'a ramfs_scheme \<Rightarrow> nat \<Rightarrow> bool" where
  "root_ok s r \<longleftrightarrow> is_dir s r \<and> (\<forall>a. r \<notin> set (slots s a))"

lemma ramfs_wfD:
  assumes "ramfs_wf s"
  shows "0 < r_next s" "0 < next_obj s" "r_nodes s 0 = None"
    "r_nodes s p = Some n \<Longrightarrow> p < r_next s" "r_nodes s p = Some n \<Longrightarrow> node_ok s n"
    "files s f \<noteq> None \<Longrightarrow> 0 < f \<and> f < next_obj s" "blocks_ok s" "owners_ok s" "tree_ok s"
    "0x1000 \<le> r_next s" "r_nodes s p = Some n \<Longrightarrow> 0x1000 \<le> p"
  using assms by (auto simp: ramfs_wf_def)

lemma tree_okD:
  assumes "tree_ok s" and "i < length (slots s a)" "slots s a ! i = v" and "j < length (slots s b)" "slots s b ! j = v" and "v \<noteq> 0"
  shows "a = b \<and> i = j"
  using assms unfolding tree_ok_def by metis

lemma slots_node: "r_nodes s p = Some n \<Longrightarrow> n_body n = Childs ps \<Longrightarrow> slots s p = ps"
  by (simp add: slots_def)

lemma dir_body:
  assumes "ramfs_wf s" and "is_dir s p"
  obtains n ps where "r_nodes s p = Some n" "n_body n = Childs ps" "n_type n = NODE_DIR" "slots s p = ps" "childs n = ps"
proof -
  obtain n where n: "r_nodes s p = Some n" "n_type n = NODE_DIR" using assms(2) by (auto simp: is_dir_def)
  then have "node_ok s n" using ramfs_wfD(5) [OF assms(1)] by blast
  with n(2) obtain ps where "n_body n = Childs ps" by (cases "n_body n") (auto simp: node_ok_def)
  with n that show thesis by (simp add: slots_def childs_def)
qed

lemma slots_known:
  assumes "ramfs_wf s" and "q \<in> set (slots s p)" and "q \<noteq> 0"
  obtains n nm x where "r_nodes s q = Some n" "n_name n = nm @ 0 # x" "cstring nm" "lname s q = lower nm"
proof -
  obtain n0 ps where "r_nodes s p = Some n0" "n_body n0 = Childs ps" "q \<in> set ps"
    using assms(2) by (cases "r_nodes s p"; cases "n_body (the (r_nodes s p))") (auto simp: slots_def)
  then obtain n where n: "r_nodes s q = Some n" using ramfs_wfD(5) [OF assms(1)] assms(3) by (fastforce simp: node_ok_def)
  then obtain nm x where "n_name n = nm @ 0 # x" "cstring nm"
    using ramfs_wfD(5) [OF assms(1) n] by (auto simp: node_ok_def)
  with n that show thesis by (simp add: lname_def)
qed

lemma childD:
  assumes "child s p c = Some q"
  shows "q \<in> set (slots s p)" "q \<noteq> 0" "lname s q = lower c"
  using assms by (auto simp: child_def find_Some_iff)

lemma child_known: "ramfs_wf s \<Longrightarrow> child s p c = Some q \<Longrightarrow> r_nodes s q \<noteq> None"
  by (metis childD(1,2) slots_known option.distinct(1))

lemma child_lower: "lower c = lower c' \<Longrightarrow> child s p c = child s p c'"
  by (simp add: child_def)

section \<open>Lookup\<close>

lemma find_child_eq:
  assumes "\<And>q. q \<in> set ps \<Longrightarrow> q \<noteq> 0 \<Longrightarrow>
      \<exists>n nm x. r_nodes s q = Some n \<and> n_name n = nm @ 0 # x \<and> cstring nm" and "cstring c"
  shows "find_child (c @ 0 # y) ps s =
    Inr (case find (\<lambda>q. q \<noteq> 0 \<and> lname s q = lower c) ps of None \<Rightarrow> 0 | Some q \<Rightarrow> q)"
  using assms(1)
proof (induction ps)
  case (Cons q ps)
  show ?case
  proof (cases "q = 0")
    case False
    then obtain n nm x where n: "r_nodes s q = Some n" "n_name n = nm @ 0 # x" "cstring nm" using Cons.prems by fastforce
    obtain r where "strcasecmp (c @ 0 # y) (nm @ 0 # x) = Inr r" "r = 0 \<longleftrightarrow> map tolower c = map tolower nm"
      using strcasecmp_strings [OF assms(2) n(3)] by blast
    moreover have "lname s q = lower nm" using n by (simp add: lname_def)
    ultimately show ?thesis using False n Cons by (auto simp: deref_def lower_def)
  qed (use Cons in simp)
qed simp

definition pathstr :: "u8 list list \<Rightarrow> u8 list" where
  "pathstr cs = concat (map (\<lambda>c. 0x2F # c) cs)"

text \<open>A name that can stand in a path and fits the buffer of a path component.\<close>

definition valid_name :: "u8 list \<Rightarrow> bool" where
  "valid_name c \<longleftrightarrow> c \<noteq> [] \<and> cstring c \<and> 0x2F \<notin> set c \<and> length c < 128"

lemma pathstr_simps [simp]: "pathstr [] = []" "pathstr (c # cs) = 0x2F # c @ pathstr cs" "pathstr (as @ bs) = pathstr as @ pathstr bs"
  by (simp_all add: pathstr_def)

lemma ramfs_find_slash [simp]: "ramfs_find (0x2F # p) cur s = ramfs_find p cur s"
  by (subst (1 2) ramfs_find.simps) simp

lemma dropWhile_name: "valid_name c \<Longrightarrow> dropWhile (\<lambda>x. x = 0x2F) (c @ r) = c @ r"
  by (cases c) (auto simp: valid_name_def)

lemma copy_path:
  assumes "valid_name c"
  obtains y nx where "copy_until 0x2F (c @ pathstr cs @ 0 # x) (replicate 128 0) = Inr (c @ 0 # y, nx)"
    "dropWhile (\<lambda>a. a = 0x2F) nx = dropWhile (\<lambda>a. a = 0x2F) (pathstr cs @ 0 # x)"
proof (cases cs)
  case Nil
  then show ?thesis
    using that copy_until_end [of c "0x2F" "replicate 128 0" x] assms by (simp add: valid_name_def)
next
  case (Cons d ds)
  then show ?thesis
    using that copy_until_found [of c "0x2F" "replicate 128 0" "d @ pathstr ds @ 0 # x"] assms
    by (simp add: valid_name_def)
qed

lemma ramfs_find_slashes:
  assumes "dropWhile (\<lambda>a. a = 0x2F) p = dropWhile (\<lambda>a. a = 0x2F) q"
  shows "ramfs_find p cur s = ramfs_find q cur s"
  unfolding ramfs_find.simps [of p] ramfs_find.simps [of q] assms ..

lemma copy_name:
  assumes "valid_name c"
  obtains y nx where "copy_until 0x2F (c @ pathstr cs @ 0 # x) (replicate 128 0) = Inr (c @ 0 # y, nx)"
    "ramfs_find nx = (ramfs_find (pathstr cs @ 0 # x) :: nat \<Rightarrow> 'a ramfs_scheme \<Rightarrow> nat kres)"
  by (rule copy_path [OF assms, of cs x]) (use that ramfs_find_slashes in blast)

lemma ramfs_find_step:
  assumes "ramfs_wf s" and "is_dir s cur" and "valid_name c"
  shows "ramfs_find (pathstr (c # cs) @ 0 # x) cur s =
    (case child s cur c of None \<Rightarrow> Inr 0 | Some q \<Rightarrow> ramfs_find (pathstr cs @ 0 # x) q s)"
proof -
  obtain n ps where n: "r_nodes s cur = Some n" "slots s cur = ps" "childs n = ps"
    using dir_body [OF assms(1,2)] by metis
  obtain y nx where cp: "copy_until 0x2F (c @ pathstr cs @ 0 # x) (replicate 128 0) = Inr (c @ 0 # y, nx)"
    "ramfs_find nx = (ramfs_find (pathstr cs @ 0 # x) :: nat \<Rightarrow> 'a ramfs_scheme \<Rightarrow> nat kres)"
    using copy_name [of c cs x, where 'a = 'a] assms(3) by auto
  obtain a as where c: "c = a # as" "a \<noteq> 0" "cstring c"
    using assms(3) by (cases c) (auto simp: valid_name_def)
  have fc: "find_child (c @ 0 # y) (childs n) s = Inr (case child s cur c of None \<Rightarrow> 0 | Some q \<Rightarrow> q)"
    unfolding n(3) child_def n(2)
    by (rule find_child_eq) (use slots_known [OF assms(1), of _ cur] n(2) c(3) in \<open>blast+\<close>)
  have "ramfs_find (pathstr (c # cs) @ 0 # x) cur s =
      (if (case child s cur c of None \<Rightarrow> 0 | Some q \<Rightarrow> q) = 0 then Inr 0
       else ramfs_find nx (case child s cur c of None \<Rightarrow> 0 | Some q \<Rightarrow> q) s)"
    using cp(1) c(1,2) n(1) fc dropWhile_name [OF assms(3), of "pathstr cs @ 0 # x"]
    by (subst ramfs_find.simps) (simp add: deref_def)
  then show ?thesis using childD(2) [of s cur c] by (auto simp: cp(2) split: option.splits)
qed

lemma ramfs_find_root: "ramfs_find (0 # x) cur s = Inr cur"
  by (simp add: ramfs_find.simps)

lemma ramfs_find_eq:
  assumes "ramfs_wf s" and "list_all valid_name cs" and "through_dirs s cur cs" and "cur \<noteq> 0"
  shows "ramfs_find (pathstr cs @ 0 # x) cur s = Inr (case walk s cur cs of None \<Rightarrow> 0 | Some p \<Rightarrow> p)"
  using assms(2-)
proof (induction cs arbitrary: cur)
  case (Cons c cs)
  then have "is_dir s cur" "valid_name c" by simp_all
  note step = ramfs_find_step [OF assms(1) this, of cs x]
  show ?case unfolding step using Cons childD(2) [of s cur c] by (auto split: option.splits)
qed (simp add: ramfs_find_root)

lemma walk_append: "walk s p (as @ bs) = Option.bind (walk s p as) (\<lambda>q. walk s q bs)"
  by (induction as arbitrary: p) (auto split: option.splits)

lemma walk_snoc: "walk s p (as @ [c]) = Option.bind (walk s p as) (\<lambda>q. child s q c)"
  unfolding walk_append by (cases "walk s p as") (auto split: option.splits)

lemma through_dirs_append:
  "through_dirs s p (as @ bs) \<longleftrightarrow> through_dirs s p as \<and> (case walk s p as of None \<Rightarrow> True | Some q \<Rightarrow> through_dirs s q bs)"
  by (induction as arbitrary: p) (auto split: option.splits)

lemma walk_lower: "map lower cs = map lower cs' \<Longrightarrow> walk s p cs = walk s p cs'"
proof (induction cs arbitrary: cs' p)
  case (Cons c cs)
  then obtain c' ds where c: "cs' = c' # ds" "lower c = lower c'" "map lower cs = map lower ds" by auto
  show ?case unfolding c(1) walk.simps child_lower [OF c(2)] using Cons.IH [OF c(3)] by (auto split: option.splits)
qed simp

text \<open>Two paths to the same node differ at most in case.\<close>

lemma walk_unique:
  assumes wf: "ramfs_wf s" and root: "root_ok s r"
  shows "walk s r as = Some d \<Longrightarrow> walk s r bs = Some d \<Longrightarrow> map lower as = map lower bs"
proof (induction as arbitrary: bs d rule: rev_induct)
  case Nil
  show ?case
  proof (cases bs rule: rev_cases)
    case (snoc bs' b)
    with Nil obtain q where "child s q b = Some r" by (auto simp: walk_append split: option.splits bind_splits)
    then show ?thesis using root childD(1) by (fastforce simp: root_ok_def)
  qed simp
next
  case (snoc a as)
  then obtain x where x: "walk s r as = Some x" "child s x a = Some d" by (auto simp: walk_append split: option.splits bind_splits)
  show ?case
  proof (cases bs rule: rev_cases)
    case Nil
    with snoc.prems x show ?thesis using root childD(1) by (fastforce simp: root_ok_def)
  next
    case (snoc bs' b)
    with snoc.prems obtain y where y: "walk s r bs' = Some y" "child s y b = Some d"
      by (auto simp: walk_append split: option.splits bind_splits)
    obtain i j where "i < length (slots s x)" "slots s x ! i = d" "j < length (slots s y)" "slots s y ! j = d" "d \<noteq> 0"
      using childD(1,2) [OF x(2)] childD(1) [OF y(2)] by (auto simp: in_set_conv_nth)
    then have "x = y" using tree_okD [OF ramfs_wfD(9) [OF wf]] by blast
    moreover have "lower a = lower b" using childD(3) [OF x(2)] childD(3) [OF y(2)] by simp
    ultimately show ?thesis using snoc.IH [OF x(1)] y(1) snoc by simp
  qed
qed

section \<open>Splitting a path\<close>

lemma name_nonzero: "valid_name c \<Longrightarrow> \<exists>a as. c = a # as \<and> a \<noteq> 0"
  by (cases c) (auto simp: valid_name_def)

lemma split_from_name:
  assumes "valid_name c" and "list_all valid_name cs"
  shows "split_from (c @ pathstr cs @ 0 # x) t = Inr (if cs = [] then t else Some (last cs @ 0 # x))"
  using assms
proof (induction cs arbitrary: c t)
  case Nil
  then show ?case
    using copy_until_end [of c "0x2F" "replicate 128 0" x] by (subst split_from.simps) (simp add: valid_name_def)
next
  case (Cons d ds)
  have cp: "copy_until 0x2F (c @ pathstr (d # ds) @ 0 # x) (replicate 128 0) =
      Inr (c @ 0 # drop (Suc (length c)) (replicate 128 0), d @ pathstr ds @ 0 # x)"
    using copy_until_found [of c "0x2F" "replicate 128 0" "d @ pathstr ds @ 0 # x"] Cons.prems(1) by (simp add: valid_name_def)
  have "valid_name d" "list_all valid_name ds" using Cons.prems(2) by simp_all
  note ih = Cons.IH [OF this, of "Some (d @ pathstr ds @ 0 # x)"]
  have step: "split_from (c @ pathstr (d # ds) @ 0 # x) t = (case d @ pathstr ds @ 0 # x of [] \<Rightarrow> Inl OutOfBounds
      | e # _ \<Rightarrow> if e \<noteq> 0 then split_from (d @ pathstr ds @ 0 # x) (Some (d @ pathstr ds @ 0 # x)) else Inr t)"
    by (subst split_from.simps, simp only: cp kbind_Inr prod.case)
  obtain a as where "d = a # as" "a \<noteq> 0" using name_nonzero [OF \<open>valid_name d\<close>] by blast
  then have "split_from (c @ pathstr (d # ds) @ 0 # x) t = split_from (d @ pathstr ds @ 0 # x) (Some (d @ pathstr ds @ 0 # x))"
    unfolding step by simp
  then show ?case unfolding ih by simp
qed

lemma split_from_path:
  assumes "valid_name c" and "list_all valid_name cs"
  shows "split_from (pathstr (c # cs) @ 0 # x) None = Inr (Some (last (c # cs) @ 0 # x))"
proof -
  obtain a as where "c = a # as" "a \<noteq> 0" using name_nonzero [OF assms(1)] by blast
  moreover have "copy_until 0x2F (0x2F # c @ pathstr cs @ 0 # x) (replicate 128 0) =
      Inr (0 # drop 1 (replicate 128 0), c @ pathstr cs @ 0 # x)"
    using copy_until_found [of "[]" "0x2F" "replicate 128 0" "c @ pathstr cs @ 0 # x"] by simp
  ultimately have "split_from (pathstr (c # cs) @ 0 # x) None =
      split_from (c @ pathstr cs @ 0 # x) (Some (c @ pathstr cs @ 0 # x))"
    by (subst split_from.simps) simp
  then show ?thesis unfolding split_from_name [OF assms] by simp
qed

lemma ramfs_split_path_eq:
  assumes "list_all valid_name (ps @ [n])" and "length (pathstr ps) < 512"
  shows "\<exists>y. ramfs_split_path (pathstr (ps @ [n]) @ 0 # x) = Inr (n @ 0 # x, pathstr ps @ 0 # y)"
proof -
  obtain c cs where c: "ps @ [n] = c # cs" by (cases "ps @ [n]") auto
  then have "split_from (pathstr (ps @ [n]) @ 0 # x) None = Inr (Some (n @ 0 # x))"
    using split_from_path [of c cs x] assms(1) by (metis c last_snoc list.pred_inject(2))
  moreover obtain k where "512 - length (pathstr ps) = Suc k" using assms(2) by (cases "512 - length (pathstr ps)") auto
  ultimately show ?thesis by (auto simp: ramfs_split_path_def Let_def)
qed

section \<open>Creating files and directories\<close>

datatype entry = Dir | File "u8 list"

definition entry_of :: "'a ramfs_scheme \<Rightarrow> nat \<Rightarrow> entry" where
  "entry_of s p = (case n_body (the (r_nodes s p)) of
     Childs ps \<Rightarrow> Dir | FileData sz d \<Rightarrow> File (bytes_at d (nat sz) (kernel_memory s)))"

text \<open>The file system below a root, as a map from paths.\<close>

definition tree_map :: "'a ramfs_scheme \<Rightarrow> nat \<Rightarrow> u8 list list \<Rightarrow> entry option" where
  "tree_map s r path = map_option (entry_of s) (walk s r path)"

definition same_path :: "u8 list list \<Rightarrow> u8 list list \<Rightarrow> bool" where
  "same_path p q \<longleftrightarrow> map lower p = map lower q"

definition new_entry :: "ramfs_node_type \<Rightarrow> entry" where
  "new_entry t = (case t of NODE_DIR \<Rightarrow> Dir | NODE_FILE \<Rightarrow> File [])"

lemma find_update_other: "i < length xs \<Longrightarrow> \<not> P (xs ! i) \<Longrightarrow> \<not> P v \<Longrightarrow> find P (xs[i := v]) = find P xs"
proof (induction xs arbitrary: i)
  case (Cons x xs)
  then show ?case by (cases i) auto
qed simp

lemma find_update_this: "i < length xs \<Longrightarrow> (\<And>x. x \<in> set xs \<Longrightarrow> \<not> P x) \<Longrightarrow> P v \<Longrightarrow> find P (xs[i := v]) = Some v"
proof (induction xs arbitrary: i)
  case (Cons x xs)
  then show ?case by (cases i) auto
qed simp

lemma find_same: "(\<And>x. x \<in> set xs \<Longrightarrow> P x = Q x) \<Longrightarrow> find P xs = find Q xs"
  by (induction xs) auto

text \<open>The state after a node was hung into slot \<open>i\<close> of directory \<open>d\<close>.\<close>

definition with_child :: "nat \<Rightarrow> nat \<Rightarrow> ramfs_node \<Rightarrow> ramfs_node_type \<Rightarrow> u8 list \<Rightarrow> 'a ramfs_scheme \<Rightarrow> 'a ramfs_scheme" where
  "with_child d i nd t nm s = s\<lparr>r_nodes := (r_nodes s)
     (r_next s \<mapsto> \<lparr>n_name = nm, n_type = t, n_body = zero_union t\<rparr>, d \<mapsto> set_child i (r_next s) nd),
     r_next := r_next s + 0x1000\<rparr>"

definition added :: "'a ramfs_scheme \<Rightarrow> nat \<Rightarrow> nat \<Rightarrow> ramfs_node \<Rightarrow> ramfs_node_type \<Rightarrow> u8 list \<Rightarrow> u8 list \<Rightarrow> 'a ramfs_scheme \<Rightarrow> bool" where
  "added s d i nd t nm y s' \<longleftrightarrow> ramfs_wf s \<and> r_nodes s d = Some nd \<and> n_type nd = NODE_DIR \<and> i < length (slots s d) \<and>
     slots s d ! i = 0 \<and> cstring nm \<and> nm \<noteq> [] \<and> length nm + length y = 91 \<and> s' = with_child d i nd t (nm @ 0 # y) s"

lemma addedD:
  assumes "added s d i nd t nm y s'"
  shows "ramfs_wf s" "r_nodes s d = Some nd" "n_type nd = NODE_DIR" "i < length (slots s d)" "slots s d ! i = 0"
    "cstring nm" "s' = with_child d i nd t (nm @ 0 # y) s" "nm \<noteq> []" "length nm + length y = 91"
  using assms by (auto simp: added_def)


lemma fresh:
  assumes N: "added s d i nd t nm y s'"
  shows "r_nodes s (r_next s) = None" "r_next s \<noteq> 0" "d \<noteq> r_next s"
proof -
  note wf = addedD(1) [OF N]
    and nd = addedD(2,3) [OF N]
  show "r_nodes s (r_next s) = None" "r_next s \<noteq> 0" "d \<noteq> r_next s"
  using ramfs_wfD(1,4) [OF wf] nd(1) by (metis less_irrefl not_Some_eq)+
qed

lemma old_slots:
  assumes N: "added s d i nd t nm y s'"
  shows "n_body nd = Childs (slots s d)" "childs nd = slots s d"
proof -
  note wf = addedD(1) [OF N]
    and nd = addedD(2,3) [OF N]
  have "is_dir s d" using nd by (simp add: is_dir_def)
  then obtain n ps where "r_nodes s d = Some n" "n_body n = Childs ps" "slots s d = ps" "childs n = ps"
    using dir_body [OF wf] by metis
  then show "n_body nd = Childs (slots s d)" "childs nd = slots s d" using nd(1) by simp_all
qed

lemma nodes_new:
  assumes N: "added s d i nd t nm y s'"
  shows "r_nodes s' q = (if q = d then Some (set_child i (r_next s) nd)
    else if q = r_next s then Some \<lparr>n_name = nm @ 0 # y, n_type = t, n_body = zero_union t\<rparr> else r_nodes s q)"
proof -
  note s' = addedD(7) [OF N]
    and fresh = fresh [OF N]
  show ?thesis
  using fresh(3) by (simp add: s' with_child_def)
qed

lemma rest_new:
  assumes N: "added s d i nd t nm y s'"
  shows "r_blocks s' = r_blocks s" "files s' = files s" "next_obj s' = next_obj s" "r_next s' = r_next s + 0x1000"
  "kernel_memory s' = kernel_memory s"
  by (simp_all add: addedD(7) [OF N] with_child_def)

lemma slots_new:
  assumes N: "added s d i nd t nm y s'"
  shows "slots s' x = (if x = d then (slots s d)[i := r_next s]
    else if x = r_next s then (case t of NODE_DIR \<Rightarrow> replicate 1000 0 | NODE_FILE \<Rightarrow> []) else slots s x)"
proof -
  note fresh = fresh [OF N]
    and old_slots = old_slots [OF N]
    and nodes_new = nodes_new [OF N]
  show ?thesis
  using fresh(3) old_slots(2)
  by (cases t) (auto simp: slots_def nodes_new set_child_def zero_union_def)
qed

lemma in_slots:
  assumes N: "added s d i nd t nm y s'" and "q \<in> set (slots s x)"
  shows "q \<noteq> r_next s"
proof
  assume q: "q = r_next s"
  then have "q \<noteq> 0" using fresh(2) [OF N] by simp
  from slots_known [OF addedD(1) [OF N] assms(2) this] obtain n where "r_nodes s q = Some n" by blast
  with q fresh(1) [OF N] show False by simp
qed

lemma lname_new:
  assumes N: "added s d i nd t nm y s'"
  shows "lname s' q = (if q = r_next s then lower nm else lname s q)"
proof -
  note nd = addedD(2,3) [OF N]
    and nm = addedD(6) [OF N]
    and fresh = fresh [OF N]
    and nodes_new = nodes_new [OF N]
  show ?thesis
  using fresh(3) nm nd(1) by (auto simp: lname_def nodes_new set_child_def)
qed

lemma child_new:
  assumes N: "added s d i nd t nm y s'"
  shows "child s' x c = (if x = d \<and> child s d nm = None then (if lower c = lower nm then Some (r_next s) else child s d c)
    else if x = r_next s then None else if x = d then child s' d c else child s x c)"
proof -
  note slot = addedD(4,5) [OF N]
    and s' = addedD(7) [OF N]
    and fresh = fresh [OF N]
    and slots_new = slots_new [OF N]
    and in_slots = in_slots [OF N]
    and lname_new = lname_new [OF N]
  have same: "find (\<lambda>q. q \<noteq> 0 \<and> lname s' q = lower c) (slots s x) = child s x c" for x
    unfolding child_def by (rule find_same) (use in_slots lname_new in auto)
  have none: "find (\<lambda>q. q \<noteq> 0 \<and> lname s' q = lower c) (replicate 1000 0) = None"
    by (simp add: find_None_iff)
  show ?thesis
  proof (cases "x = d \<and> child s d nm = None")
    case True
    then have abs: "\<not> (q \<noteq> 0 \<and> lname s q = lower nm)" if "q \<in> set (slots s d)" for q
      using that by (auto simp: child_def find_None_iff)
    show ?thesis
    proof (cases "lower c = lower nm")
      case True
      have "find (\<lambda>q. q \<noteq> 0 \<and> lname s' q = lower c) ((slots s d)[i := r_next s]) = Some (r_next s)"
        by (rule find_update_this [OF slot(1)]) (use abs in_slots lname_new True fresh(2) in auto)
      then show ?thesis using True \<open>x = d \<and> _\<close> unfolding child_def [of s'] slots_new by simp
    next
      case False
      have "find (\<lambda>q. q \<noteq> 0 \<and> lname s' q = lower c) ((slots s d)[i := r_next s]) = child s d c"
        unfolding same [symmetric] by (rule find_update_other [OF slot(1)]) (use slot(2) False lname_new in auto)
      then show ?thesis using False \<open>x = d \<and> _\<close> unfolding child_def [of s'] slots_new by simp
    qed
  next
    case False
    then show ?thesis using fresh(3) same none
      by (auto simp: child_def [of s'] slots_new split: ramfs_node_type.splits)
  qed
qed

lemma walk_new:
  assumes N: "added s d i nd t nm y s'" and root: "root_ok s r" and at: "walk s r ps = Some d" and absent: "child s d nm = None"
  shows "walk s' r q = (if same_path q (ps @ [nm]) then Some (r_next s) else walk s r q)"
proof -
  note wf = addedD(1) [OF N]
    and fresh = fresh [OF N]
    and in_slots = in_slots [OF N]
    and child_new = child_new [OF N]
  show ?thesis
proof (induction q rule: rev_induct)
  case (snoc c q)
  have r: "r_nodes s r \<noteq> None" using root by (auto simp: root_ok_def is_dir_def)
  show ?case
  proof (cases "same_path q (ps @ [nm])")
    case True
    then have "walk s' r q = Some (r_next s)" "\<not> same_path (q @ [c]) (ps @ [nm])"
      using snoc by (auto simp: same_path_def dest: arg_cong [of _ _ length])
    moreover have "walk s r q = None"
      using walk_lower [of q "ps @ [nm]" s r] True at absent by (simp add: same_path_def walk_snoc)
    ultimately show ?thesis using fresh(3) by (simp add: walk_snoc child_new)
  next
    case False
    then have ih: "walk s' r q = walk s r q" using snoc by simp
    show ?thesis
    proof (cases "walk s r q")
      case None
      then have "\<not> same_path (q @ [c]) (ps @ [nm])" using walk_lower [of q ps s r] at by (auto simp: same_path_def)
      then show ?thesis using None ih by (simp add: walk_snoc)
    next
      case (Some x)
      have "x \<noteq> r_next s"
      proof (cases q rule: rev_cases)
        case Nil
        with Some r fresh(1) show ?thesis by auto
      next
        case (snoc q' e)
        with Some obtain z where "child s z e = Some x" by (auto simp: walk_snoc split: bind_splits option.splits)
        then show ?thesis using childD(1) in_slots by blast
      qed
      moreover have "x = d \<longleftrightarrow> map lower q = map lower ps"
        using walk_unique [OF wf root, of q x ps] walk_lower [of q ps s r] Some at by auto
      ultimately show ?thesis using Some ih absent by (auto simp: walk_snoc child_new same_path_def)
    qed
  qed
qed (simp add: same_path_def)
qed

lemma entry_new:
  assumes N: "added s d i nd t nm y s'"
  shows "entry_of s' q = (if q = r_next s then new_entry t else entry_of s q)"
proof -
  note nd = addedD(2,3) [OF N]
    and fresh = fresh [OF N]
    and old_slots = old_slots [OF N]
    and nodes_new = nodes_new [OF N]
    and rest_new = rest_new [OF N]
  show ?thesis
  using fresh(3) nd(1) old_slots(1)
  by (cases t) (auto simp: entry_of_def nodes_new rest_new(5) set_child_def zero_union_def new_entry_def bytes_at_def
      split: node_union.split)
qed

lemma wf_new:
  assumes N: "added s d i nd t nm y s'"
  shows "ramfs_wf s'"
proof -
  note wf = addedD(1) [OF N]
    and nd = addedD(2,3) [OF N]
    and slot = addedD(4,5) [OF N]
    and nm = addedD(6) [OF N]
    and s' = addedD(7) [OF N]
    and fresh = fresh [OF N]
    and old_slots = old_slots [OF N]
    and nodes_new = nodes_new [OF N]
    and rest_new = rest_new [OF N]
    and slots_new = slots_new [OF N]
    and in_slots = in_slots [OF N]
  note nodes = nodes_new and rest = rest_new(1-4)
  have grow: "r_nodes s q \<noteq> None \<Longrightarrow> r_nodes s' q \<noteq> None" for q by (simp add: nodes)
  have keep: "node_ok s n \<Longrightarrow> node_ok s' n" for n
    using grow rest(1) by (auto simp: node_ok_def split: node_union.splits)
  have ok: "node_ok s' n" if "r_nodes s' q = Some n" for q n
  proof -
    consider "q = d" "n = set_child i (r_next s) nd" | "q = r_next s" "q \<noteq> d" "n = \<lparr>n_name = nm @ 0 # y, n_type = t, n_body = zero_union t\<rparr>"
      | "r_nodes s q = Some n" using \<open>r_nodes s' q = Some n\<close> unfolding nodes by (metis option.inject)
    then show ?thesis
    proof cases
      case 1
      have "node_ok s' nd" using ramfs_wfD(5) [OF wf nd(1)] keep by blast
      then have a: "\<exists>nm x. n_name nd = nm @ 0 # x \<and> cstring nm" "length (n_name nd) = 92" "n_name nd ! 0 = 0 \<longrightarrow> n_name nd ! 1 = 0"
          "length (slots s d) = 1000" and b: "\<forall>q\<in>set (slots s d). q \<noteq> 0 \<longrightarrow> r_nodes s' q \<noteq> None"
        unfolding node_ok_def old_slots(1) by simp_all
      have "r_nodes s' (r_next s) \<noteq> None" by (simp add: nodes)
      with b have "\<forall>q\<in>set ((slots s d)[i := r_next s]). q \<noteq> 0 \<longrightarrow> r_nodes s' q \<noteq> None"
        using set_update_subset_insert [of "slots s d" i "r_next s"] by blast
      with a show ?thesis unfolding 1(2) node_ok_def set_child_def old_slots(2) using nd(2) by simp
    next
      case 2
      have "(nm @ 0 # y) ! 0 \<noteq> 0" using nm addedD(8) [OF N] by (cases nm) auto
      with 2 show ?thesis using nm addedD(9) [OF N] by (auto simp: node_ok_def zero_union_def split: ramfs_node_type.splits)
    next
      case 3
      then show ?thesis using ramfs_wfD(5) [OF wf] keep by blast
    qed
  qed
  have bounds: "0x1000 \<le> q \<and> q < r_next s'" if "r_nodes s' q = Some n" for q n
    using that ramfs_wfD(4,11) [OF wf, of q] ramfs_wfD(4,11) [OF wf nd(1)] ramfs_wfD(10) [OF wf] by (auto simp: nodes rest split: if_splits)
  have blocks: "blocks_ok s'" using ramfs_wfD(7) [OF wf] unfolding blocks_ok_def rest by (metis trans_le_add1)
  have data: "r_nodes s q = Some n" if "r_nodes s' q = Some n" "n_body n = FileData sz e" "e \<noteq> 0" for q n sz e
    using that by (auto simp: nodes set_child_def zero_union_def split: if_splits ramfs_node_type.splits)
  have owners: "owners_ok s'" using ramfs_wfD(8) [OF wf] data unfolding owners_ok_def by metis
  have old: "slots s a ! k = v \<and> k < length (slots s a)" if "k < length (slots s' a)" "slots s' a ! k = v" "v \<noteq> 0" "v \<noteq> r_next s" for a k v
    using that slot(1) by (auto simp: slots_new nth_list_update split: if_splits ramfs_node_type.splits)
  have fresh_at: "a = d \<and> k = i" if "k < length (slots s' a)" "slots s' a ! k = r_next s" for a k
  proof -
    have a: "a = d" using that in_slots [of "r_next s" a] fresh(2)
      by (auto simp: slots_new split: if_splits ramfs_node_type.splits dest: nth_mem)
    have "k = i" if "k \<noteq> i"
      using \<open>k < _\<close> \<open>_ = r_next s\<close> a in_slots [of "r_next s" d] that nth_mem [of k "slots s d"] by (simp add: slots_new)
    with a show ?thesis by blast
  qed
  have tree: "tree_ok s'" unfolding tree_ok_def using old fresh_at tree_okD [OF ramfs_wfD(9) [OF wf]] by metis
  have "r_nodes s' 0 = None" using ramfs_wfD(3) [OF wf] fresh(2) nd(1) by (cases "d = 0") (auto simp: nodes)
  with ok bounds blocks owners tree show ?thesis using ramfs_wfD(2,6,10) [OF wf] unfolding ramfs_wf_def rest by auto
qed

lemma walk_through: "ramfs_wf s \<Longrightarrow> walk s p cs = Some q \<Longrightarrow> through_dirs s p cs"
proof (induction cs arbitrary: p)
  case (Cons c cs)
  then obtain x where x: "child s p c = Some x" "walk s x cs = Some q" by (auto split: option.splits)
  obtain n ps where "r_nodes s p = Some n" "n_body n = Childs ps"
    using childD(1) [OF x(1)] by (cases "r_nodes s p"; cases "n_body (the (r_nodes s p))") (auto simp: slots_def)
  then have "is_dir s p" using ramfs_wfD(5) [OF Cons.prems(1)] by (fastforce simp: is_dir_def node_ok_def)
  with x Cons show ?case by simp
qed simp

lemma ramfs_find_append:
  assumes "ramfs_wf s" and "list_all valid_name cs" and "walk s cur cs = Some p"
  shows "ramfs_find (pathstr (cs @ ds) @ 0 # x) cur s = ramfs_find (pathstr ds @ 0 # x) p s"
  using assms(2-)
proof (induction cs arbitrary: cur)
  case (Cons c cs)
  have "is_dir s cur" using walk_through [OF assms(1) Cons.prems(2)] by simp
  moreover have "valid_name c" using Cons.prems(1) by simp
  ultimately have "ramfs_find (pathstr ((c # cs) @ ds) @ 0 # x) cur s =
      (case child s cur c of None \<Rightarrow> Inr 0 | Some q \<Rightarrow> ramfs_find (pathstr (cs @ ds) @ 0 # x) q s)"
    using ramfs_find_step [OF assms(1), of cur c "cs @ ds" x] by simp
  then show ?case using Cons by (auto split: option.splits)
qed simp

text \<open>A path that goes on behind a file that is not empty takes the size of the file for the address of a node.\<close>

lemma ramfs_find_below_file:
  assumes "valid_name c" and "r_nodes s p = Some n" and "n_body n = FileData sz d" and "u32_of sz \<noteq> 0" and "r_nodes s (u32_of sz) = None"
  shows "ramfs_find (pathstr (c # cs) @ 0 # x) p s = Inl BadPointer"
proof -
  obtain y nx where cp: "copy_until 0x2F (c @ pathstr cs @ 0 # x) (replicate 128 0) = Inr (c @ 0 # y, nx)"
    using copy_name [OF assms(1), of cs x] by metis
  obtain a as where c: "c = a # as" "a \<noteq> 0" using name_nonzero [OF assms(1)] by blast
  have "find_child (c @ 0 # y) (childs n) s = Inl BadPointer"
    using assms(3-5) by (simp add: childs_def deref_def)
  then show ?thesis using cp c assms(2) dropWhile_name [OF assms(1), of "pathstr cs @ 0 # x"]
    by (subst ramfs_find.simps) (simp add: deref_def)
qed

lemma walk_known:
  assumes "ramfs_wf s" and "r_nodes s p \<noteq> None" and "walk s p cs = Some q"
  shows "r_nodes s q \<noteq> None"
proof (cases cs rule: rev_cases)
  case (snoc as c)
  with assms(3) obtain x where "child s x c = Some q" by (auto simp: walk_snoc split: bind_splits)
  then show ?thesis using child_known [OF assms(1)] by blast
qed (use assms in auto)

lemma entry_Dir: "ramfs_wf s \<Longrightarrow> r_nodes s p \<noteq> None \<Longrightarrow> entry_of s p = Dir \<longleftrightarrow> is_dir s p"
  using ramfs_wfD(5) [of s p] by (fastforce simp: entry_of_def is_dir_def node_ok_def split: node_union.splits)

lemma root_nonzero: "ramfs_wf s \<Longrightarrow> root_ok s r \<Longrightarrow> r \<noteq> 0 \<and> r_nodes s r \<noteq> None"
  using ramfs_wfD(3) [of s] by (cases "r = 0") (auto simp: root_ok_def is_dir_def)

lemma walk_nonzero: "ramfs_wf s \<Longrightarrow> root_ok s r \<Longrightarrow> walk s r cs = Some p \<Longrightarrow> p \<noteq> 0 \<and> r_nodes s p \<noteq> None"
  using walk_known root_nonzero ramfs_wfD(3) by metis

definition has_room :: "'a ramfs_scheme \<Rightarrow> nat \<Rightarrow> u8 list list \<Rightarrow> bool" where
  "has_room s r ps \<longleftrightarrow> (case walk s r ps of None \<Rightarrow> False | Some d \<Rightarrow> 0 \<in> set (slots s d))"

text \<open>How many more entries a directory can take.\<close>

definition free_slots :: "'a ramfs_scheme \<Rightarrow> nat \<Rightarrow> u8 list list \<Rightarrow> nat" where
  "free_slots s r ps = (case walk s r ps of None \<Rightarrow> 0 | Some d \<Rightarrow> count_list (slots s d) 0)"

lemma has_room_free: "has_room s r ps \<longleftrightarrow> 0 < free_slots s r ps"
  by (cases "walk s r ps") (simp_all add: has_room_def free_slots_def zero_less_iff_neq_zero count_list_0_iff)

lemma count_list_update: "i < length xs \<Longrightarrow> xs ! i = z \<Longrightarrow> v \<noteq> z \<Longrightarrow> count_list xs z = Suc (count_list (xs[i := v]) z)"
proof (induction xs arbitrary: i)
  case (Cons x xs)
  then show ?case by (cases i) auto
qed simp

lemma first_slot:
  assumes "0 \<in> set ps"
  obtains i where "find (\<lambda>i. ps ! i = 0) [0..<length ps] = Some i" "i < length ps" "ps ! i = (0 :: nat)"
proof (cases "find (\<lambda>i. ps ! i = 0) [0..<length ps]")
  case None
  then show thesis using assms by (auto simp: find_None_iff in_set_conv_nth)
next
  case (Some i)
  then have "i < length ps" "ps ! i = 0" by (auto simp: find_Some_iff)
  with Some that show thesis by blast
qed

lemma ramfs_create_ok:
  assumes wf: "ramfs_wf s" and root: "root_ok s r" "mount_data s m = r"
    and names: "list_all valid_name (ps @ [n])" "length n < 92" "length (pathstr ps) < 512"
    and parent: "tree_map s r ps = Some Dir" and absent: "tree_map s r (ps @ [n]) = None" and room: "has_room s r ps"
  shows "\<exists>s'. ramfs_create t m (pathstr (ps @ [n]) @ 0 # x) s = Inr s' \<and> ramfs_wf s' \<and> root_ok s' r \<and>
    tree_map s' r = (\<lambda>q. if same_path q (ps @ [n]) then Some (new_entry t) else tree_map s r q) \<and>
    files s' = files s \<and> mount_data s' = mount_data s \<and> mount_tail s' = mount_tail s \<and> next_obj s' = next_obj s \<and>
    free_slots s r ps = Suc (free_slots s' r ps) \<and>
    (\<forall>q b. r_nodes s q = Some b \<longrightarrow> n_type b = NODE_FILE \<longrightarrow> r_nodes s' q = Some b \<and> entry_of s' q = entry_of s q)"
proof -
  obtain d where d: "walk s r ps = Some d" "entry_of s d = Dir" using parent by (auto simp: tree_map_def)
  have r: "r \<noteq> 0" "r_nodes s r \<noteq> None" using root_nonzero [OF wf root(1)] by auto
  have known: "r_nodes s d \<noteq> None" using walk_known [OF wf r(2) d(1)] .
  then have dir: "is_dir s d" using entry_Dir [OF wf] d(2) by blast
  from wf dir obtain nd where nd: "r_nodes s d = Some nd" "n_type nd = NODE_DIR" "childs nd = slots s d"
    by (rule dir_body) blast
  have d0: "d \<noteq> 0" using nd(1) ramfs_wfD(3) [OF wf] by (cases "d = 0") auto
  have none: "child s d n = None" using absent d(1) by (simp add: tree_map_def walk_snoc)
  have thru: "through_dirs s r ps" using walk_through [OF wf d(1)] .
  have thru': "through_dirs s r (ps @ [n])" using thru dir d(1) none by (simp add: through_dirs_append)
  have "ramfs_find (pathstr (ps @ [n]) @ 0 # x) r s = Inr 0"
    using ramfs_find_eq [OF wf names(1) thru' r(1), of x] d(1) none by (simp add: walk_snoc)
  moreover obtain y where "ramfs_split_path (pathstr (ps @ [n]) @ 0 # x) = Inr (n @ 0 # x, pathstr ps @ 0 # y)"
    using ramfs_split_path_eq [OF names(1,3)] by blast
  moreover have "ramfs_find (pathstr ps @ 0 # y) r s = Inr d"
    using ramfs_find_eq [OF wf _ thru r(1), of y] names(1) d(1) by simp
  moreover obtain i where i: "find (\<lambda>i. slots s d ! i = 0) [0..<length (slots s d)] = Some i" "i < length (slots s d)" "slots s d ! i = 0"
    using room d(1) first_slot [of "slots s d"] by (auto simp: has_room_def)
  moreover have nm: "cstring n" "n \<noteq> []" using names(1) by (auto simp: valid_name_def)
  then have "strcpy (replicate 92 0) (n @ 0 # x) = Inr (n @ 0 # replicate (91 - length n) 0)"
  proof -
    have "92 - length n = Suc (91 - length n)" using names(2) by simp
    then show ?thesis using strcpy_string [OF nm, of "replicate 92 0" x] names(2) by simp
  qed
  ultimately have run: "ramfs_create t m (pathstr (ps @ [n]) @ 0 # x) s =
      Inr (with_child d i nd t (n @ 0 # replicate (91 - length n) 0) s)"
    using nd d0 root(2) by (simp add: ramfs_create_def deref_def add_child_def alloc_pages_def with_child_def)
  define s' where "s' = with_child d i nd t (n @ 0 # replicate (91 - length n) 0) s"
  have N: "added s d i nd t n (replicate (91 - length n) 0) s'"
    unfolding added_def s'_def using wf nd(1,2) i(2,3) nm names(2) by simp
  have "tree_map s' r = (\<lambda>q. if same_path q (ps @ [n]) then Some (new_entry t) else tree_map s r q)"
  proof
    fix q
    have "entry_of s' p = entry_of s p" if "walk s r q = Some p" for p
      using entry_new [OF N, of p] walk_known [OF wf r(2) that] fresh(1) [OF N] by auto
    then show "tree_map s' r q = (if same_path q (ps @ [n]) then Some (new_entry t) else tree_map s r q)"
      unfolding tree_map_def walk_new [OF N root(1) d(1) none] using entry_new [OF N, of "r_next s"]
      by (cases "walk s r q") simp_all
  qed
  moreover have "root_ok s' r"
  proof -
    have "r \<noteq> r_next s" using r(2) fresh(1) [OF N] by auto
    moreover have "is_dir s' r" using root(1) nd(1,2) \<open>r \<noteq> r_next s\<close>
      by (auto simp: root_ok_def is_dir_def nodes_new [OF N] set_child_def)
    moreover have "r \<notin> set (slots s' a)" for a
      using root(1) r(1) \<open>r \<noteq> r_next s\<close> set_update_subset_insert [of "slots s d" i "r_next s"]
      by (cases t) (auto simp: root_ok_def slots_new [OF N])
    ultimately show ?thesis by (simp add: root_ok_def)
  qed
  moreover have "r_nodes s' q = Some b \<and> entry_of s' q = entry_of s q" if "r_nodes s q = Some b" "n_type b = NODE_FILE" for q b
    using that nd(1,2) fresh(1) [OF N] by (auto simp: nodes_new [OF N] entry_new [OF N])
  moreover have "mount_data s' = mount_data s" "mount_tail s' = mount_tail s" by (simp_all add: s'_def with_child_def)
  moreover have "free_slots s r ps = Suc (free_slots s' r ps)"
    using d(1) count_list_update [OF i(2,3)] fresh(2) [OF N]
    by (simp add: free_slots_def walk_new [OF N root(1) d(1) none] slots_new [OF N] same_path_def)
  ultimately show ?thesis using run wf_new [OF N] rest_new [OF N] unfolding s'_def [symmetric] by blast
qed

end
