(* ===== verification/Ramfs_Data.thy ===== *)
theory Ramfs_Data
  imports Ramfs_Tree
begin

text \<open>
  The contents of files: reading, writing and truncating refine the operations on
  lists of bytes, and leave every other file alone.
\<close>

section \<open>Memory\<close>

lemma bytes_at_simps [simp]: "length (bytes_at a n m) = n" "i < n \<Longrightarrow> bytes_at a n m ! i = m (a + i)" "bytes_at a 0 m = []"
  by (simp_all add: bytes_at_def)

lemma bytes_at_cong: "(\<And>x. a \<le> x \<Longrightarrow> x < a + n \<Longrightarrow> m x = m' x) \<Longrightarrow> bytes_at a n m = bytes_at a n m'"
  by (rule nth_equalityI) auto

lemma bytes_at_part: "off + n \<le> k \<Longrightarrow> bytes_at (a + off) n m = take n (drop off (bytes_at a k m))"
  by (rule nth_equalityI) (auto simp: add.assoc)

lemma put_bytes_out: "x < a \<or> a + length bs \<le> x \<Longrightarrow> put_bytes a bs m x = m x"
  by (auto simp: put_bytes_def)

lemma put_bytes_same: "bytes_at a (length bs) (put_bytes a bs m) = bs"
  by (rule nth_equalityI) (auto simp: put_bytes_def)

lemma put_bytes_prefix: "n \<le> length bs \<Longrightarrow> bytes_at a n (put_bytes a bs m) = take n bs"
  by (rule nth_equalityI) (auto simp: put_bytes_def)

text \<open>Overwriting a part of a list of bytes, extending it where the new bytes reach over its end.\<close>

definition overwrite :: "nat \<Rightarrow> u8 list \<Rightarrow> u8 list \<Rightarrow> u8 list" where
  "overwrite off buf c = take off c @ buf @ drop (off + length buf) c"

lemma bytes_at_overwrite:
  assumes "off \<le> n"
  shows "bytes_at a (max n (off + length buf)) (put_bytes (a + off) buf m) = overwrite off buf (bytes_at a n m)"
proof (cases "n \<le> off + length buf")
  case True
  with assms show ?thesis
    by (intro nth_equalityI) (auto simp: overwrite_def put_bytes_def nth_append)
next
  case False
  with assms show ?thesis
    by (intro nth_equalityI) (auto simp: overwrite_def put_bytes_def nth_append algebra_simps)
qed

lemma length_overwrite: "off \<le> length c \<Longrightarrow> length (overwrite off buf c) = max (length c) (off + length buf)"
  by (simp add: overwrite_def)

definition room_for :: "int \<Rightarrow> nat" where
  "room_for sz = nat (sz div 0x1000 + 1) * 0x1000"

lemma room_for_bounds:
  assumes "0 \<le> sz"
  shows "nat sz < room_for sz" and "0 < room_for sz"
proof -
  have "sz < (sz div 0x1000 + 1) * 0x1000" by (simp add: algebra_simps)
  then have "nat sz < nat ((sz div 0x1000 + 1) * 0x1000)" using assms by simp
  also have "\<dots> = room_for sz" using assms by (simp add: room_for_def nat_mult_distrib)
  finally show "nat sz < room_for sz" .
  then show "0 < room_for sz" by simp
qed

lemma pages_sdiv: "0 \<le> n \<Longrightarrow> n sdiv 0x1000 = n div (0x1000 :: int)"
  by (simp add: signed_divide_int_def sgn_if)

lemma size_conversions:
  "0 \<le> sz \<Longrightarrow> sz < 0x80000000 \<Longrightarrow> u32_of sz = nat sz" "n < 0x80000000 \<Longrightarrow> s32 (int n) = int n"
  by (simp_all add: u32_of_def s32_def)

lemma blocks_okD:
  assumes "blocks_ok s" and "r_blocks s d = Some len"
  shows "0 < d" "0 < len" "d + len \<le> r_next s"
    "r_blocks s e = Some len' \<Longrightarrow> d \<noteq> e \<Longrightarrow> d + len \<le> e \<or> e + len' \<le> d"
  using assms unfolding blocks_ok_def by blast+

section \<open>Resizing\<close>

text \<open>What resizing a block does to the other blocks.\<close>

definition block_moved :: "nat \<Rightarrow> nat \<Rightarrow> 'a ramfs_scheme \<Rightarrow> 'a ramfs_scheme \<Rightarrow> bool" where
  "block_moved d d' s s' \<longleftrightarrow> blocks_ok s' \<and> r_next s \<le> r_next s' \<and>
     (\<forall>e len. e \<noteq> d \<longrightarrow> r_blocks s e = Some len \<longrightarrow> r_blocks s' e = Some len \<and> e \<noteq> d' \<and>
       (\<forall>x. e \<le> x \<longrightarrow> x < e + len \<longrightarrow> kernel_memory s' x = kernel_memory s x))"

definition block_for :: "'a ramfs_scheme \<Rightarrow> int \<Rightarrow> nat \<Rightarrow> bool" where
  "block_for s sz d \<longleftrightarrow> (if d = 0 then sz = 0 else r_blocks s d = Some (room_for sz))"

lemma new_block_ok:
  assumes "blocks_ok s" and "0 < r_next s" and "0 \<le> sz"
  shows "new_block (sz div 0x1000 + 1) s = Inr (r_next s, s\<lparr>r_next := r_next s + room_for sz,
      r_blocks := (r_blocks s)(r_next s \<mapsto> room_for sz)\<rparr>)"
    and "blocks_ok (s\<lparr>r_next := r_next s + room_for sz, r_blocks := (r_blocks s)(r_next s \<mapsto> room_for sz)\<rparr>)"
    and "r_blocks s (r_next s) = None"
proof -
  show "new_block (sz div 0x1000 + 1) s = Inr (r_next s, s\<lparr>r_next := r_next s + room_for sz,
      r_blocks := (r_blocks s)(r_next s \<mapsto> room_for sz)\<rparr>)"
    using assms(3) pos_imp_zdiv_nonneg_iff [of "0x1000" sz] by (auto simp: new_block_def alloc_pages_def room_for_def)
  have below: "r_blocks s e = Some len \<Longrightarrow> 0 < e \<and> 0 < len \<and> e + len \<le> r_next s" for e len
    using blocks_okD [OF assms(1)] by blast
  then show "r_blocks s (r_next s) = None" by (cases "r_blocks s (r_next s)") fastforce+
  show "blocks_ok (s\<lparr>r_next := r_next s + room_for sz, r_blocks := (r_blocks s)(r_next s \<mapsto> room_for sz)\<rparr>)"
  proof -
    have "0 < e \<and> 0 < len \<and> e + len \<le> r_next s + room_for sz" if "r_blocks s e = Some len" for e len
      using below [OF that] by simp
    then show ?thesis
      using assms(1,2) below room_for_bounds(2) [OF assms(3)] unfolding blocks_ok_def by (auto split: if_splits)
  qed
qed

lemma resize_block_ok:
  assumes ok: "blocks_ok s" "0 < r_next s" and sizes: "0 \<le> old" "0 \<le> new" "old < 0x80000000" and d: "block_for s old d"
  shows "\<exists>d' s'. resize_block old new d s = Inr (d', s') \<and> block_for s' new d' \<and> block_moved d d' s s' \<and>
    bytes_at d' (nat (min old new)) (kernel_memory s') = bytes_at d (nat (min old new)) (kernel_memory s) \<and>
    s' = s\<lparr>kernel_memory := kernel_memory s', r_blocks := r_blocks s', r_next := r_next s'\<rparr>"
proof -
  note new = new_block_ok [OF ok sizes(2)]
  note eqs = resize_block_def Let_def pages_sdiv [OF sizes(1)] pages_sdiv [OF sizes(2)]
  consider "d = 0" | "d \<noteq> 0" "new = 0" | "d \<noteq> 0" "new \<noteq> 0" "new div 0x1000 \<noteq> old div 0x1000"
    | "d \<noteq> 0" "new \<noteq> 0" "new div 0x1000 = old div 0x1000" by blast
  then show ?thesis
  proof cases
    case 1
    with d have "old = 0" by (simp add: block_for_def)
    with 1 show ?thesis using new ok(2) sizes(2)
      by (simp add: eqs block_for_def block_moved_def)
  next
    case 2
    have "blocks_ok (s\<lparr>r_blocks := (r_blocks s)(d := None)\<rparr>)" using ok(1) unfolding blocks_ok_def by auto
    moreover have "r_blocks s e = Some len \<Longrightarrow> e \<noteq> 0" for e len using blocks_okD(1) [OF ok(1)] by blast
    ultimately show ?thesis using 2 sizes(1) by (auto simp: eqs block_for_def block_moved_def min_def)
  next
    case 3
    define n where "n = nat (min old new)"
    define s1 where "s1 = s\<lparr>r_next := r_next s + room_for new, r_blocks := (r_blocks s)(r_next s \<mapsto> room_for new)\<rparr>"
    define s2 where "s2 = s1\<lparr>kernel_memory := put_bytes (r_next s) (bytes_at d n (kernel_memory s1)) (kernel_memory s1),
      r_blocks := (r_blocks s1)(d := None)\<rparr>"
    have blk: "r_blocks s d = Some (room_for old)" using d 3 by (simp add: block_for_def)
    note below = blocks_okD [OF ok(1) blk]
    have fit: "n \<le> room_for old" "n \<le> room_for new"
      using room_for_bounds(1) [OF sizes(1)] room_for_bounds(1) [OF sizes(2)] by (auto simp: n_def min_def)
    have "u32_of new = n" if "new div 0x1000 + 1 \<le> old div 0x1000"
      using that zdiv_mono1 [of old new "0x1000"] sizes by (cases "new \<le> old") (auto simp: n_def size_conversions)
    moreover have "u32_of old = n" if "\<not> new div 0x1000 + 1 \<le> old div 0x1000"
      using that 3(3) zdiv_mono1 [of new old "0x1000"] sizes by (cases "new < old") (auto simp: n_def size_conversions)
    ultimately have run: "resize_block old new d s = Inr (r_next s, s2)"
      using 3 new(1) fit blk below
      by (simp add: eqs s2_def s1_def block_access_def)
    have ok1: "blocks_ok s1" using new(2) by (simp add: s1_def)
    then have "blocks_ok s2" unfolding blocks_ok_def by (auto simp: s2_def s1_def)
    moreover have "r_blocks s2 e = Some len \<and> e \<noteq> r_next s \<and> (\<forall>x. e \<le> x \<longrightarrow> x < e + len \<longrightarrow> kernel_memory s2 x = kernel_memory s x)"
      if "e \<noteq> d" "r_blocks s e = Some len" for e len
      using that blocks_okD(3) [OF ok(1) that(2)] new(3) by (auto simp: s2_def s1_def put_bytes_def)
    ultimately have "block_moved d (r_next s) s s2" by (simp add: block_moved_def s2_def s1_def)
    moreover have "block_for s2 new (r_next s)" using ok(2) below(3,2) by (simp add: block_for_def s2_def s1_def)
    moreover have "bytes_at (r_next s) n (kernel_memory s2) = bytes_at d n (kernel_memory s)"
      using put_bytes_same [of "r_next s" "bytes_at d n (kernel_memory s)"] by (simp add: s2_def s1_def)
    moreover have "s2 = s\<lparr>kernel_memory := kernel_memory s2, r_blocks := r_blocks s2, r_next := r_next s2\<rparr>"
      by (simp add: s2_def s1_def)
    ultimately show ?thesis using run unfolding n_def by blast
  next
    case 4
    then have "room_for new = room_for old" by (simp add: room_for_def)
    then show ?thesis using 4 ok d blocks_okD(4) [OF ok(1)]
      by (auto simp: eqs block_for_def block_moved_def)
  qed
qed

section \<open>Changing one file\<close>

text \<open>The node of file \<open>p\<close> gets a new size and block; the blocks of other files keep their bytes.\<close>

definition file_updated :: "nat \<Rightarrow> 'a ramfs_scheme \<Rightarrow> 'a ramfs_scheme \<Rightarrow> bool" where
  "file_updated p s s' \<longleftrightarrow> (\<exists>n sz d sz' d'. r_nodes s p = Some n \<and> n_body n = FileData sz d \<and> n_type n = NODE_FILE \<and>
     r_nodes s' = (r_nodes s)(p \<mapsto> n\<lparr>n_body := FileData sz' d'\<rparr>) \<and>
     0 \<le> sz' \<and> sz' < 0x80000000 \<and> block_for s' sz' d' \<and> block_moved d d' s s' \<and>
     dom (files s') = dom (files s) \<and> next_obj s' = next_obj s)"

lemma file_body:
  assumes "ramfs_wf s" and "entry_of s p = File c" and "r_nodes s p = Some n"
  obtains sz d where "n_body n = FileData sz d" "n_type n = NODE_FILE" "0 \<le> sz" "sz < 0x80000000" "block_for s sz d"
    "c = bytes_at d (nat sz) (kernel_memory s)" "fsize n = sz" "fdata n = d"
  using assms ramfs_wfD(5) [OF assms(1,3)]
  by (cases "n_body n") (auto simp: entry_of_def node_ok_def block_for_def room_for_def fsize_def fdata_def)

lemma file_updated_slots: "file_updated p s s' \<Longrightarrow> slots s' = slots s"
  by (auto simp: file_updated_def slots_def fun_eq_iff)

lemma file_updated_lname: "file_updated p s s' \<Longrightarrow> lname s' = lname s"
  by (auto simp: file_updated_def lname_def fun_eq_iff)

lemma file_updated_walk: "file_updated p s s' \<Longrightarrow> walk s' r cs = walk s r cs"
  by (induction cs arbitrary: r)
    (auto simp: child_def file_updated_slots file_updated_lname split: option.splits)

lemma file_updated_dir: "file_updated p s s' \<Longrightarrow> is_dir s' q = is_dir s q"
  by (auto simp: file_updated_def is_dir_def split: if_splits)

lemma file_updated_root: "file_updated p s s' \<Longrightarrow> root_ok s' r = root_ok s r"
  by (simp add: root_ok_def file_updated_slots file_updated_dir)

lemma file_updated_room: "file_updated p s s' \<Longrightarrow> has_room s' r ps = has_room s r ps"
  by (simp add: has_room_def file_updated_slots file_updated_walk split: option.split)

lemma other_file_block:
  assumes wf: "ramfs_wf s" and U: "file_updated p s s'" and q: "q \<noteq> p" "r_nodes s q = Some n" "n_body n = FileData sz e" "e \<noteq> 0"
  shows "r_blocks s e = Some (room_for sz)" "r_blocks s' e = Some (room_for sz)"
    "e \<le> x \<Longrightarrow> x < e + nat sz \<Longrightarrow> kernel_memory s' x = kernel_memory s x"
    "r_nodes s' p = Some n' \<Longrightarrow> n_body n' = FileData sz' e' \<Longrightarrow> e \<noteq> e'"
proof -
  obtain np szp d sz1 d' where u: "r_nodes s p = Some np" "n_body np = FileData szp d"
      "r_nodes s' p = Some (np\<lparr>n_body := FileData sz1 d'\<rparr>)" "block_moved d d' s s'"
    using U by (auto simp: file_updated_def)
  have ok: "node_ok s n" using ramfs_wfD(5) [OF wf q(2)] .
  then show blk: "r_blocks s e = Some (room_for sz)" using q(3,4) by (simp add: node_ok_def room_for_def)
  have "e \<noteq> d"
  proof
    assume "e = d"
    with ramfs_wfD(8) [OF wf] q(1,2,3,4) u(1,2) show False unfolding owners_ok_def by metis
  qed
  then have keep: "r_blocks s' e = Some (room_for sz)" "e \<noteq> d'"
      "\<And>x. e \<le> x \<Longrightarrow> x < e + room_for sz \<Longrightarrow> kernel_memory s' x = kernel_memory s x"
    using u(4) blk unfolding block_moved_def by blast+
  show "r_blocks s' e = Some (room_for sz)" by (rule keep)
  have "0 \<le> sz" using ok q(3) by (simp add: node_ok_def)
  then show "kernel_memory s' x = kernel_memory s x" if "e \<le> x" "x < e + nat sz"
    using keep(3) [OF that(1)] that(2) room_for_bounds(1) [of sz] by simp
  show "e \<noteq> e'" if "r_nodes s' p = Some n'" "n_body n' = FileData sz' e'" using that u(3) keep(2) by auto
qed

lemma file_updated_entry:
  assumes wf: "ramfs_wf s" and U: "file_updated p s s'" and q: "q \<noteq> p" "r_nodes s q \<noteq> None"
  shows "entry_of s' q = entry_of s q"
proof -
  obtain n where n: "r_nodes s q = Some n" using q(2) by auto
  have n': "r_nodes s' q = Some n" using U q(1) n by (auto simp: file_updated_def)
  show ?thesis
  proof (cases "n_body n")
    case (FileData sz e)
    have "bytes_at e (nat sz) (kernel_memory s') = bytes_at e (nat sz) (kernel_memory s)"
    proof (cases "e = 0")
      case True
      then show ?thesis using ramfs_wfD(5) [OF wf n] FileData by (simp add: node_ok_def)
    next
      case False
      show ?thesis by (rule bytes_at_cong) (rule other_file_block(3) [OF wf U q(1) n FileData False])
    qed
    then show ?thesis using n n' FileData by (simp add: entry_of_def)
  qed (simp add: entry_of_def n n')
qed

lemma file_updated_wf:
  assumes wf: "ramfs_wf s" and U: "file_updated p s s'"
  shows "ramfs_wf s'"
proof -
  obtain np szp d sz' d' where u: "r_nodes s p = Some np" "n_body np = FileData szp d" "n_type np = NODE_FILE"
      "r_nodes s' = (r_nodes s)(p \<mapsto> np\<lparr>n_body := FileData sz' d'\<rparr>)" "0 \<le> sz'" "sz' < 0x80000000" "block_for s' sz' d'"
      "block_moved d d' s s'" "dom (files s') = dom (files s)" "next_obj s' = next_obj s"
    using U unfolding file_updated_def by blast
  have nxt: "r_next s \<le> r_next s'" "blocks_ok s'" using u(8) by (auto simp: block_moved_def)
  have grow: "r_nodes s' q \<noteq> None \<longleftrightarrow> r_nodes s q \<noteq> None" for q using u(1,4) by simp
  have ok: "node_ok s' n" if n: "r_nodes s' q = Some n" for q n
  proof (cases "q = p")
    case True
    then have "n = np\<lparr>n_body := FileData sz' d'\<rparr>" using n u(4) by simp
    then show ?thesis using ramfs_wfD(5) [OF wf u(1)] u(2,3,5,6,7) by (auto simp: node_ok_def block_for_def room_for_def)
  next
    case False
    then have old: "r_nodes s q = Some n" using n u(4) by simp
    note ok = ramfs_wfD(5) [OF wf old]
    show ?thesis
    proof (cases "n_body n")
      case (Childs ps)
      then show ?thesis using ok grow unfolding node_ok_def by (simp only: node_union.case) blast
    next
      case (FileData sz e)
      then show ?thesis using ok other_file_block(2) [OF wf U False old FileData]
        by (auto simp: node_ok_def room_for_def)
    qed
  qed
  have owners: "owners_ok s'" unfolding owners_ok_def
  proof (intro allI impI)
    fix a b n n' sz sz2 e
    assume A: "r_nodes s' a = Some n" "r_nodes s' b = Some n'" "n_body n = FileData sz e" "n_body n' = FileData sz2 e" "e \<noteq> 0"
    consider "a = b" | "a \<noteq> p" "b \<noteq> p" | "a = p" "b \<noteq> p" | "a \<noteq> p" "b = p" by blast
    then show "a = b"
    proof cases
      case 2
      then have "r_nodes s a = Some n" "r_nodes s b = Some n'" using A(1,2) u(4) by simp_all
      then show ?thesis using ramfs_wfD(8) [OF wf] A(3-5) unfolding owners_ok_def by blast
    next
      case 3
      then have "r_nodes s b = Some n'" using A(2) u(4) by simp
      from other_file_block(4) [OF wf U 3(2) this A(4,5)] A(1,3) 3(1) show ?thesis by blast
    next
      case 4
      then have "r_nodes s a = Some n" using A(1) u(4) by simp
      from other_file_block(4) [OF wf U 4(1) this A(3,5)] A(2,4) 4(2) show ?thesis by blast
    qed
  qed
  have "tree_ok s'" using ramfs_wfD(9) [OF wf] by (simp add: tree_ok_def file_updated_slots [OF U])
  moreover have "0x1000 \<le> q \<and> q < r_next s'" if "r_nodes s' q = Some n" for q n
    using that grow [of q] ramfs_wfD(4,11) [OF wf, of q] nxt(1) by fastforce
  moreover have "files s' f \<noteq> None \<longleftrightarrow> files s f \<noteq> None" for f using u(9) by (auto simp: dom_def)
  ultimately show ?thesis using ok owners nxt grow [of 0] ramfs_wfD(2,3,6,10) [OF wf] u(10) unfolding ramfs_wf_def by auto
qed

lemma file_updated_tree:
  assumes wf: "ramfs_wf s" and root: "root_ok s r" and U: "file_updated p s s'" and path: "walk s r path = Some p"
  shows "tree_map s' r = (\<lambda>q. if same_path q path then Some (entry_of s' p) else tree_map s r q)"
proof
  fix q
  show "tree_map s' r q = (if same_path q path then Some (entry_of s' p) else tree_map s r q)"
  proof (cases "walk s r q")
    case None
    then show ?thesis using walk_lower [of q path s r] path by (auto simp: tree_map_def same_path_def file_updated_walk [OF U])
  next
    case (Some x)
    have "x = p \<longleftrightarrow> same_path q path"
      using walk_unique [OF wf root, of q x path] walk_lower [of q path s r] Some path by (auto simp: same_path_def)
    moreover have "r_nodes s x \<noteq> None" using walk_nonzero [OF wf root Some] by blast
    ultimately show ?thesis using Some file_updated_entry [OF wf U, of x] by (auto simp: tree_map_def file_updated_walk [OF U])
  qed
qed

section \<open>The operations on open files\<close>

text \<open>An open file of a mount, and the node it is open on.\<close>

definition opened :: "'a ramfs_scheme \<Rightarrow> nat \<Rightarrow> nat \<Rightarrow> nat \<Rightarrow> bool" where
  "opened s m f p \<longleftrightarrow> (\<exists>fl. files s f = Some fl \<and> f_mount fl = m \<and> f_data fl = p)"

lemma block_for_access:
  assumes "block_for s sz d" and "0 \<le> sz" and "off + n \<le> nat sz"
  shows "block_access d off n s = Inr ()"
  using assms room_for_bounds(1) [OF assms(2)] by (auto simp: block_access_def block_for_def split: if_splits)

lemma ramfs_read_ok:
  assumes wf: "ramfs_wf s" and f: "opened s m f p" and n: "r_nodes s p \<noteq> None" and c: "entry_of s p = File c"
    and bound: "off + sz \<le> length c"
  shows "ramfs_read m f sz off s = Inr (take sz (drop off c), s)"
proof -
  obtain nd where nd: "r_nodes s p = Some nd" using n by auto
  from wf c nd obtain fsz d where b: "0 \<le> fsz" "fsz < 0x80000000" "block_for s fsz d" "c = bytes_at d (nat fsz) (kernel_memory s)"
      "fsize nd = fsz" "fdata nd = d" by (rule file_body)
  have "off + sz \<le> nat fsz" using bound b(4) by simp
  moreover have "nat fsz < 0x80000000" using b(1,2) by simp
  moreover obtain fl where "files s f = Some fl" "f_data fl = p" using f by (auto simp: opened_def)
  ultimately show ?thesis
    using nd block_for_access [OF b(3,1), of off sz] bytes_at_part [of off sz "nat fsz" d "kernel_memory s"]
      size_conversions(1) [OF b(1,2)]
    by (simp add: ramfs_read_def deref_def b(4-6))
qed

text \<open>Reading beyond the end fails the assertion.\<close>

lemma ramfs_read_beyond:
  assumes wf: "ramfs_wf s" and f: "opened s m f p" and n: "r_nodes s p \<noteq> None" and c: "entry_of s p = File c"
    and bound: "length c < off + sz" "off + sz < 4294967296"
  shows "\<exists>msg. ramfs_read m f sz off s = Inl (AssertFailed msg)"
proof -
  obtain nd where nd: "r_nodes s p = Some nd" using n by auto
  from wf c nd obtain fsz d where b: "0 \<le> fsz" "fsz < 0x80000000" "c = bytes_at d (nat fsz) (kernel_memory s)" "fsize nd = fsz"
    by (rule file_body)
  then show ?thesis using f nd bound by (auto simp: ramfs_read_def opened_def deref_def size_conversions kassert_def)
qed

lemma set_file_updated:
  assumes wf: "ramfs_wf s" and f: "files s f = Some fl" "f_data fl = p" and n: "r_nodes s p = Some n" "n_body n = FileData sz d" "n_type n = NODE_FILE"
    and sz': "0 \<le> sz'" "sz' < 0x80000000" and s1: "block_for s1 sz' d'" "block_moved d d' s s1"
      "r_nodes s1 = r_nodes s" "files s1 = files s" "next_obj s1 = next_obj s"
    and m: "\<And>x. x < d' \<or> d' + nat sz' \<le> x \<Longrightarrow> m x = kernel_memory s1 x" and d0: "d' = 0 \<Longrightarrow> m = kernel_memory s1"
  shows "file_updated p s (set_file f fl n sz' d' s1\<lparr>kernel_memory := m\<rparr>)"
    and "entry_of (set_file f fl n sz' d' s1\<lparr>kernel_memory := m\<rparr>) p = File (bytes_at d' (nat sz') m)"
    and "opened (set_file f fl n sz' d' s1\<lparr>kernel_memory := m\<rparr>) (f_mount fl) f p"
proof -
  let ?s = "set_file f fl n sz' d' s1\<lparr>kernel_memory := m\<rparr>"
  have eqs: "r_nodes ?s = (r_nodes s)(p \<mapsto> n\<lparr>n_body := FileData sz' d'\<rparr>)" "r_blocks ?s = r_blocks s1" "r_next ?s = r_next s1"
      "files ?s = (files s)(f \<mapsto> fl\<lparr>f_size := u32_of sz'\<rparr>)" "next_obj ?s = next_obj s" "kernel_memory ?s = m"
    using s1(3-5) f(2) by (simp_all add: set_file_def)
  have "m x = kernel_memory s x" if e: "e \<noteq> d" "r_blocks s e = Some len" and x: "e \<le> x" "x < e + len" for e len x
  proof -
    have keep: "r_blocks s1 e = Some len" "e \<noteq> d'" "kernel_memory s1 x = kernel_memory s x" and ok: "blocks_ok s1"
      using s1(2) e x unfolding block_moved_def by blast+
    show ?thesis
    proof (cases "d' = 0")
      case False
      then have "r_blocks s1 d' = Some (room_for sz')" using s1(1) by (simp add: block_for_def)
      from blocks_okD(4) [OF ok this keep(1)] keep(2) have "x < d' \<or> d' + nat sz' \<le> x"
        using x room_for_bounds(1) [OF sz'(1)] by fastforce
      then show ?thesis using m keep(3) by simp
    qed (simp add: d0 keep(3))
  qed
  then have "block_moved d d' s ?s" using s1(2) eqs(2,3,6) by (simp add: block_moved_def blocks_ok_def)
  moreover have "block_for ?s sz' d'" using s1(1) eqs(2) by (simp add: block_for_def)
  moreover have "dom (files ?s) = dom (files s)" using eqs(4) f(1) by auto
  ultimately show "file_updated p s ?s" unfolding file_updated_def using n sz' eqs(1,5) by blast
  show "entry_of ?s p = File (bytes_at d' (nat sz') m)" by (simp add: entry_of_def eqs(1,6))
  show "opened ?s (f_mount fl) f p" using f by (simp add: opened_def eqs(4))
qed

lemma ramfs_write_ok:
  assumes wf: "ramfs_wf s" and f: "opened s m f p" and n: "r_nodes s p \<noteq> None" and c: "entry_of s p = File c"
    and bound: "off \<le> length c" "off + length buf < 0x80000000"
  shows "\<exists>s'. ramfs_write m f buf off s = Inr s' \<and> file_updated p s s' \<and> entry_of s' p = File (overwrite off buf c) \<and>
    opened s' m f p \<and> mount_data s' = mount_data s \<and> mount_tail s' = mount_tail s \<and> (\<forall>g. g \<noteq> f \<longrightarrow> files s' g = files s g)"
proof -
  obtain fl where fl: "files s f = Some fl" "f_data fl = p" "f_mount fl = m" using f by (auto simp: opened_def)
  obtain nd where nd: "r_nodes s p = Some nd" using n by auto
  from wf c nd obtain sz d where b: "n_body nd = FileData sz d" "n_type nd = NODE_FILE" "0 \<le> sz" "sz < 0x80000000" "block_for s sz d"
      "c = bytes_at d (nat sz) (kernel_memory s)" "fsize nd = sz" "fdata nd = d" by (rule file_body)
  define new where "new = int (off + length buf)"
  define sz' where "sz' = max sz new"
  have sz': "0 \<le> sz'" "sz' < 0x80000000" "off \<le> nat sz" "nat sz' = max (nat sz) (off + length buf)"
    using b(3,4,6) bound by (auto simp: sz'_def new_def max_def)
  obtain d' s1 where grow: "(if new > sz then kbind (resize_block sz new d s) (\<lambda>(d, s1). Inr (new, d, s1)) else Inr (sz, d, s)) = Inr (sz', d', s1)"
    and s1: "block_for s1 sz' d'" "block_moved d d' s s1" "bytes_at d' (nat sz) (kernel_memory s1) = c"
      "s1 = s\<lparr>kernel_memory := kernel_memory s1, r_blocks := r_blocks s1, r_next := r_next s1\<rparr>"
  proof (cases "new > sz")
    case True
    then have "min sz new = sz" "sz' = new" "0 \<le> new" using b(3) by (auto simp: sz'_def)
    with resize_block_ok [OF ramfs_wfD(7,1) [OF wf] b(3) _ b(4,5), of new] that True b(6) show thesis by (auto simp: min_def)
  next
    case False
    have "block_moved d d s s"
      using ramfs_wfD(7) [OF wf] by (auto simp: block_moved_def)
    with that [of d s] False b(5,6) show thesis by (simp add: sz'_def)
  qed
  have same: "r_nodes s1 = r_nodes s" "files s1 = files s" "next_obj s1 = next_obj s" "mount_data s1 = mount_data s" "mount_tail s1 = mount_tail s"
    by (subst s1(4), simp)+
  define m' where "m' = put_bytes (d' + off) buf (kernel_memory s1)"
  have out: "m' x = kernel_memory s1 x" if "x < d' \<or> d' + nat sz' \<le> x" for x
    using that sz'(4) by (auto simp: m'_def put_bytes_def)
  have d0: "m' = kernel_memory s1" if "d' = 0"
    using that s1(1) sz'(4) by (auto simp: m'_def put_bytes_def block_for_def)
  note upd = set_file_updated [OF wf fl(1,2) nd b(1,2) sz'(1,2) s1(1,2) same(1-3) out d0]
  have "block_for (set_file f fl nd sz' d' s1) sz' d'" using s1(1) by (simp add: block_for_def set_file_def)
  from block_for_access [OF this sz'(1), of off "length buf"] sz'(4)
  have access: "block_access d' off (length buf) (set_file f fl nd sz' d' s1) = Inr ()" by simp
  have "s32 (int (off + length buf)) = new" by (simp only: size_conversions(2) [OF bound(2)] new_def)
  then have "ramfs_write m f buf off s =
      kbind (if new > sz then kbind (resize_block sz new d s) (\<lambda>(d, s1). Inr (new, d, s1)) else Inr (sz, d, s)) (\<lambda>(sz, d, s1).
        kbind (block_access d off (length buf) (set_file f fl nd sz d s1)) (\<lambda>_.
          Inr (set_file f fl nd sz d s1\<lparr>kernel_memory := put_bytes (d + off) buf (kernel_memory (set_file f fl nd sz d s1))\<rparr>)))"
    using fl nd b(7,8) by (simp add: ramfs_write_def deref_def Let_def del: of_nat_add)
  also have "\<dots> = Inr (set_file f fl nd sz' d' s1\<lparr>kernel_memory := m'\<rparr>)"
    unfolding grow kbind_Inr prod.case access by (simp add: m'_def set_file_def)
  finally have "ramfs_write m f buf off s = Inr (set_file f fl nd sz' d' s1\<lparr>kernel_memory := m'\<rparr>)" .
  moreover have "bytes_at d' (nat sz') m' = overwrite off buf c"
    using bytes_at_overwrite [OF sz'(3), of d' buf "kernel_memory s1"] by (simp add: m'_def sz'(4) s1(3))
  moreover have "mount_data (set_file f fl nd sz' d' s1\<lparr>kernel_memory := m'\<rparr>) = mount_data s"
      "mount_tail (set_file f fl nd sz' d' s1\<lparr>kernel_memory := m'\<rparr>) = mount_tail s"
      "g \<noteq> f \<Longrightarrow> files (set_file f fl nd sz' d' s1\<lparr>kernel_memory := m'\<rparr>) g = files s g" for g
    using same by (simp_all add: set_file_def)
  ultimately show ?thesis using upd unfolding fl(3) by metis
qed

text \<open>Truncating to at most the present size keeps the front of the file.\<close>

lemma ramfs_truncate_ok:
  assumes wf: "ramfs_wf s" and f: "opened s m f p" and n: "r_nodes s p \<noteq> None" and c: "entry_of s p = File c"
    and bound: "k \<le> length c"
  shows "\<exists>s'. ramfs_truncate m f k s = Inr s' \<and> file_updated p s s' \<and> entry_of s' p = File (take k c) \<and>
    opened s' m f p \<and> mount_data s' = mount_data s \<and> mount_tail s' = mount_tail s \<and> (\<forall>g. g \<noteq> f \<longrightarrow> files s' g = files s g)"
proof -
  obtain fl where fl: "files s f = Some fl" "f_data fl = p" "f_mount fl = m" using f by (auto simp: opened_def)
  obtain nd where nd: "r_nodes s p = Some nd" using n by auto
  from wf c nd obtain sz d where b: "n_body nd = FileData sz d" "n_type nd = NODE_FILE" "0 \<le> sz" "sz < 0x80000000" "block_for s sz d"
      "c = bytes_at d (nat sz) (kernel_memory s)" "fsize nd = sz" "fdata nd = d" by (rule file_body)
  have k: "k \<le> nat sz" "s32 (int k) = int k" "int k < 0x80000000" "nat (min sz (int k)) = k"
    using bound b(3,4,6) size_conversions(2) [of k] by auto
  from resize_block_ok [OF ramfs_wfD(7,1) [OF wf] b(3) _ b(4,5), of "int k"] obtain d' s1
    where s1: "resize_block sz (int k) d s = Inr (d', s1)" "block_for s1 (int k) d'" "block_moved d d' s s1"
      "bytes_at d' k (kernel_memory s1) = bytes_at d k (kernel_memory s)"
      "s1 = s\<lparr>kernel_memory := kernel_memory s1, r_blocks := r_blocks s1, r_next := r_next s1\<rparr>"
    unfolding k(4) by auto
  have same: "r_nodes s1 = r_nodes s" "files s1 = files s" "next_obj s1 = next_obj s" "mount_data s1 = mount_data s" "mount_tail s1 = mount_tail s"
    by (subst s1(5), simp)+
  note upd = set_file_updated [OF wf fl(1,2) nd b(1,2) of_nat_0_le_iff k(3) s1(2,3) same(1-3), of "kernel_memory s1"]
  have id: "set_file f fl nd (int k) d' s1\<lparr>kernel_memory := kernel_memory s1\<rparr> = set_file f fl nd (int k) d' s1"
    by (simp add: set_file_def)
  have "ramfs_truncate m f k s = Inr (set_file f fl nd (int k) d' s1)"
    using fl nd b(7,8) s1(1) k(2) by (simp add: ramfs_truncate_def deref_def)
  moreover have "bytes_at d' k (kernel_memory s1) = take k c"
    using bytes_at_part [of 0 k "nat sz" d "kernel_memory s"] k(1) by (simp add: s1(4) b(6))
  moreover have "mount_data (set_file f fl nd (int k) d' s1) = mount_data s" "mount_tail (set_file f fl nd (int k) d' s1) = mount_tail s"
      "g \<noteq> f \<Longrightarrow> files (set_file f fl nd (int k) d' s1) g = files s g" for g
    using same by (simp_all add: set_file_def)
  ultimately show ?thesis using upd unfolding fl(3) id nat_int by metis
qed

end
