(* ===== verification/Ramfs_Contract.thy ===== *)
theory Ramfs_Contract
  imports Ramfs_Data
begin

text \<open>
  The file system in memory behind the virtual file system: what a program that saves and loads files
  relies on, and that ramfs mounts provide it.
\<close>

section \<open>What clients rely on\<close>

text \<open>A program that writes a new file, and one that reads a file.\<close>

definition save_file ::
  "('p \<Rightarrow> 's \<Rightarrow> 's kres) \<Rightarrow> ('p \<Rightarrow> 's \<Rightarrow> (nat \<times> 's) kres) \<Rightarrow> (nat \<Rightarrow> u8 list \<Rightarrow> nat \<Rightarrow> 's \<Rightarrow> 's kres) \<Rightarrow>
     (nat \<Rightarrow> 's \<Rightarrow> 's kres) \<Rightarrow> 'p \<Rightarrow> u8 list \<Rightarrow> 's \<Rightarrow> 's kres" where
  "save_file touch opn wr cls p data s =
     kbind (touch p s) (\<lambda>s1. kbind (opn p s1) (\<lambda>(f, s2). kbind (wr f data 0 s2) (\<lambda>s3. cls f s3)))"

definition load_file ::
  "('p \<Rightarrow> 's \<Rightarrow> (nat \<times> 's) kres) \<Rightarrow> (nat \<Rightarrow> 's \<Rightarrow> (nat \<times> 's) kres) \<Rightarrow> (nat \<Rightarrow> nat \<Rightarrow> nat \<Rightarrow> 's \<Rightarrow> (u8 list \<times> 's) kres) \<Rightarrow>
     (nat \<Rightarrow> 's \<Rightarrow> 's kres) \<Rightarrow> 'p \<Rightarrow> 's \<Rightarrow> (u8 list \<times> 's) kres" where
  "load_file opn sz rd cls p s =
     kbind (opn p s) (\<lambda>(f, s1). kbind (sz f s1) (\<lambda>(n, s2). kbind (rd f n 0 s2) (\<lambda>(data, s3).
     kbind (cls f s3) (\<lambda>s4. Inr (data, s4)))))"

text \<open>
  Reading with files that are there already. \<open>roomy\<close> says that another file can be opened, \<open>cap\<close> bounds
  what is moved in one call.
\<close>

locale readable_store =
  fixes inv :: "'s \<Rightarrow> bool" and view :: "'s \<Rightarrow> 'p \<Rightarrow> entry option" and handle :: "'s \<Rightarrow> nat \<Rightarrow> 'p \<Rightarrow> bool"
    and opn :: "'p \<Rightarrow> 's \<Rightarrow> (nat \<times> 's) kres" and sz :: "nat \<Rightarrow> 's \<Rightarrow> (nat \<times> 's) kres"
    and rd :: "nat \<Rightarrow> nat \<Rightarrow> nat \<Rightarrow> 's \<Rightarrow> (u8 list \<times> 's) kres" and cls :: "nat \<Rightarrow> 's \<Rightarrow> 's kres"
    and usable :: "'p \<Rightarrow> bool" and roomy :: "'s \<Rightarrow> bool" and cap :: nat
  assumes open_law: "inv s \<Longrightarrow> roomy s \<Longrightarrow> usable p \<Longrightarrow> view s p = Some (File c) \<Longrightarrow>
      \<exists>f s' s''. opn p s = Inr (f, s') \<and> inv s' \<and> view s' = view s \<and> handle s' f p \<and>
        sz f s' = Inr (length c, s'') \<and> inv s'' \<and> view s'' = view s \<and> handle s'' f p"
    and read_law: "inv s \<Longrightarrow> handle s f p \<Longrightarrow> view s p = Some (File c) \<Longrightarrow> off + n \<le> length c \<Longrightarrow> n \<le> cap \<Longrightarrow>
      \<exists>s'. rd f n off s = Inr (take n (drop off c), s') \<and> inv s' \<and> view s' = view s \<and> handle s' f p"
    and close_law: "inv s \<Longrightarrow> handle s f p \<Longrightarrow> \<exists>s'. cls f s = Inr s' \<and> inv s' \<and> roomy s' \<and> view s' = view s"
begin

lemma load_file_ok:
  assumes "inv s" and "roomy s" and "usable p" and "view s p = Some (File c)" and "length c \<le> cap"
  shows "\<exists>s'. load_file opn sz rd cls p s = Inr (c, s') \<and> inv s' \<and> roomy s' \<and> view s' = view s"
proof -
  obtain f s1 s2 where o: "opn p s = Inr (f, s1)" "sz f s1 = Inr (length c, s2)" "inv s2" "view s2 = view s" "handle s2 f p"
    using open_law [OF assms(1-4)] by blast
  obtain s3 where r: "rd f (length c) 0 s2 = Inr (c, s3)" "inv s3" "view s3 = view s2" "handle s3 f p"
    using read_law [OF o(3,5), of c 0 "length c"] o(4) assms(4,5) by auto
  obtain s4 where "cls f s3 = Inr s4" "inv s4" "roomy s4" "view s4 = view s3" using close_law [OF r(2,4)] by blast
  then show ?thesis using o r by (simp add: load_file_def)
qed

end

text \<open>Creating and writing too. The paths of \<open>same\<close> name the same file.\<close>

locale writable_store = readable_store +
  fixes same :: "'p \<Rightarrow> 'p \<Rightarrow> bool" and creatable :: "'s \<Rightarrow> 'p \<Rightarrow> bool"
    and touch :: "'p \<Rightarrow> 's \<Rightarrow> 's kres" and wr :: "nat \<Rightarrow> u8 list \<Rightarrow> nat \<Rightarrow> 's \<Rightarrow> 's kres"
  assumes same_refl: "same p p"
    and touch_law: "inv s \<Longrightarrow> roomy s \<Longrightarrow> creatable s p \<Longrightarrow> \<exists>s'. touch p s = Inr s' \<and> inv s' \<and> roomy s' \<and> usable p \<and>
      view s' = (\<lambda>q. if same q p then Some (File []) else view s q)"
    and write_law: "inv s \<Longrightarrow> handle s f p \<Longrightarrow> view s p = Some (File c) \<Longrightarrow> off \<le> length c \<Longrightarrow> off + length buf < 0x80000000 \<Longrightarrow>
      length buf \<le> cap \<Longrightarrow> \<exists>s'. wr f buf off s = Inr s' \<and> inv s' \<and> handle s' f p \<and>
        view s' = (\<lambda>q. if same q p then Some (File (overwrite off buf c)) else view s q)"
begin

lemma save_file_ok:
  assumes "inv s" and "roomy s" and "creatable s p" and "length data < 0x80000000" and "length data \<le> cap"
  shows "\<exists>s'. save_file touch opn wr cls p data s = Inr s' \<and> inv s' \<and> roomy s' \<and> usable p \<and>
    view s' = (\<lambda>q. if same q p then Some (File data) else view s q)"
proof -
  obtain s1 where s1: "touch p s = Inr s1" "inv s1" "roomy s1" "usable p" "view s1 = (\<lambda>q. if same q p then Some (File []) else view s q)"
    using touch_law [OF assms(1-3)] by blast
  have "view s1 p = Some (File [])" using s1(5) same_refl by simp
  from open_law [OF s1(2-4) this] obtain f s2 where s2: "opn p s1 = Inr (f, s2)" "inv s2" "view s2 = view s1" "handle s2 f p" by blast
  have empty: "view s2 p = Some (File [])" using s1(5) s2(3) same_refl by simp
  have whole: "overwrite 0 data [] = data" by (simp add: overwrite_def)
  obtain s3 where s3: "wr f data 0 s2 = Inr s3" "inv s3" "handle s3 f p"
      "view s3 = (\<lambda>q. if same q p then Some (File data) else view s2 q)"
    using write_law [OF s2(2,4) empty, of 0 data, unfolded whole] assms(4,5) by auto
  obtain s4 where s4: "cls f s3 = Inr s4" "inv s4" "roomy s4" "view s4 = view s3" using close_law [OF s3(2,3)] by blast
  have "view s4 = (\<lambda>q. if same q p then Some (File data) else view s q)" using s4(4) s3(4) s2(3) s1(5) by auto
  with s1 s2 s3 s4 show ?thesis by (simp add: save_file_def)
qed

lemma save_then_load:
  assumes "inv s" and "roomy s" and "creatable s p" and "length data < 0x80000000" and "length data \<le> cap"
  shows "\<exists>s1 s2. save_file touch opn wr cls p data s = Inr s1 \<and> load_file opn sz rd cls p s1 = Inr (data, s2) \<and>
    (\<forall>q. \<not> same q p \<longrightarrow> view s2 q = view s q)"
proof -
  obtain s1 where s1: "save_file touch opn wr cls p data s = Inr s1" "inv s1" "roomy s1" "usable p"
    "view s1 = (\<lambda>q. if same q p then Some (File data) else view s q)" using save_file_ok [OF assms] by blast
  then have "view s1 p = Some (File data)" using same_refl by simp
  from load_file_ok [OF s1(2-4) this assms(5)] s1 show ?thesis by auto
qed

end

section \<open>A ramfs mount\<close>

text \<open>The names of mounts do not change while the bytes behind the mounts stay.\<close>

definition names_ok :: "'a fs_scheme vfs \<Rightarrow> bool" where
  "names_ok s \<longleftrightarrow> (\<forall>m\<in>set (vfs_mounts s). m \<noteq> 0 \<and> (\<exists>ops nm x. mount_ops s m = Some ops \<and> cstring nm \<and>
     (\<forall>w. mount_tail w = mount_tail (world s) \<longrightarrow> m_name ops m w = nm @ 0 # x)))"

definition the_disk :: "u8 list \<Rightarrow> 'a ramfs_scheme vfs \<Rightarrow> nat" where
  "the_disk nm s = mount_data (world s) (mount_called s nm)"

definition ramdisk :: "u8 list \<Rightarrow> 'a ramfs_scheme vfs \<Rightarrow> bool" where
  "ramdisk nm s \<longleftrightarrow> names_ok s \<and> cstring nm \<and> 0x3A \<notin> set nm \<and> mount_called s nm \<noteq> 0 \<and>
     mount_ops s (mount_called s nm) = Some ramfs_ops \<and> ramfs_wf (world s) \<and> root_ok (world s) (the_disk nm s)"

definition disk_view :: "u8 list \<Rightarrow> 'a ramfs_scheme vfs \<Rightarrow> u8 list list \<Rightarrow> entry option" where
  "disk_view nm s cs = tree_map (world s) (the_disk nm s) cs"

definition disk_handle :: "u8 list \<Rightarrow> 'a ramfs_scheme vfs \<Rightarrow> nat \<Rightarrow> u8 list list \<Rightarrow> bool" where
  "disk_handle nm s f cs \<longleftrightarrow> (\<exists>p. walk (world s) (the_disk nm s) cs = Some p \<and> opened (world s) (mount_called s nm) f p)"

definition disk_path :: "u8 list \<Rightarrow> u8 list list \<Rightarrow> u8 list" where
  "disk_path nm cs = (nm @ 0x3A # pathstr cs) @ [0]"

definition path_fits :: "u8 list \<Rightarrow> u8 list list \<Rightarrow> bool" where
  "path_fits nm cs \<longleftrightarrow> list_all valid_name cs \<and> length nm + length (pathstr cs) < 1022"

definition disk_creatable :: "u8 list \<Rightarrow> 'a ramfs_scheme vfs \<Rightarrow> u8 list list \<Rightarrow> bool" where
  "disk_creatable nm s cs \<longleftrightarrow> cs \<noteq> [] \<and> path_fits nm cs \<and> length (last cs) < 92 \<and> length (pathstr (butlast cs)) < 512 \<and>
     disk_view nm s (butlast cs) = Some Dir \<and> disk_view nm s cs = None \<and> has_room (world s) (the_disk nm s) (butlast cs)"

lemma names_ok_mounts: "names_ok s \<Longrightarrow> mounts_ok s"
  unfolding mounts_ok_def names_ok_def named_def by metis

lemma mount_called_world:
  assumes "names_ok s" and "mount_tail w = mount_tail (world s)"
  shows "mount_called (s\<lparr>world := w\<rparr>) nm = mount_called s nm" and "names_ok (s\<lparr>world := w\<rparr>)"
proof -
  have "m_name (the (mount_ops s m)) m w = m_name (the (mount_ops s m)) m (world s)" if "m \<in> set (vfs_mounts s)" for m
    using assms that unfolding names_ok_def by (metis option.sel)
  then have "find (\<lambda>m. text_of (m_name (the (mount_ops s m)) m w) = nm) (vfs_mounts s) =
      find (\<lambda>m. text_of (m_name (the (mount_ops s m)) m (world s)) = nm) (vfs_mounts s)" by (intro find_same) simp
  then show "mount_called (s\<lparr>world := w\<rparr>) nm = mount_called s nm" by (simp add: mount_called_def)
  show "names_ok (s\<lparr>world := w\<rparr>)" using assms by (simp add: names_ok_def)
qed

text \<open>An operation of the driver that keeps the disk well-formed keeps the mount.\<close>

lemma ramdisk_world:
  assumes "ramdisk nm s" and "mount_tail w = mount_tail (world s)" "mount_data w = mount_data (world s)"
    and "ramfs_wf w" "root_ok w (the_disk nm s)"
  shows "ramdisk nm (s\<lparr>world := w\<rparr>)" "the_disk nm (s\<lparr>world := w\<rparr>) = the_disk nm s"
    "mount_called (s\<lparr>world := w\<rparr>) nm = mount_called s nm"
proof -
  note names = mount_called_world [OF _ assms(2)]
  show c: "mount_called (s\<lparr>world := w\<rparr>) nm = mount_called s nm" using assms(1) names by (simp add: ramdisk_def)
  then show d: "the_disk nm (s\<lparr>world := w\<rparr>) = the_disk nm s" using assms(3) by (simp add: the_disk_def)
  show "ramdisk nm (s\<lparr>world := w\<rparr>)" using assms(1,4,5) names(2) c d by (simp add: ramdisk_def)
qed

text \<open>What a buffer holds behind the path does not matter.\<close>

lemma find_mount_path:
  assumes "names_ok s" "cstring nm" "0x3A \<notin> set nm" and "path_fits nm cs"
  shows "\<exists>k. vfs_find_mount ((nm @ 0x3A # pathstr cs) @ 0 # y) s = Inr (mount_called s nm, pathstr cs @ 0 # 0 # replicate k 0)"
proof -
  have str: "cstring (pathstr cs)" using assms(4) unfolding path_fits_def
    by (auto simp: pathstr_def cstring_def valid_name_def list_all_iff)
  have len: "length nm + length (pathstr cs) < 1022" using assms(4) by (simp add: path_fits_def)
  then have "1024 - length (pathstr cs) = Suc (Suc (1022 - length (pathstr cs)))" by simp
  then have "replicate (1024 - length (pathstr cs)) 0 = (0 :: u8) # 0 # replicate (1022 - length (pathstr cs)) 0"
    by (metis replicate_Suc)
  then show ?thesis
    using vfs_find_mount_eq [OF names_ok_mounts [OF assms(1)] assms(2,3) str len, of y] by auto
qed

lemma disk_find_mount_any:
  assumes "ramdisk nm s" and "path_fits nm cs"
  shows "\<exists>x. vfs_find_mount ((nm @ 0x3A # pathstr cs) @ 0 # y) s = Inr (mount_called s nm, pathstr cs @ 0 # x)"
  using find_mount_path [of s nm cs y] assms by (auto simp: ramdisk_def)

lemma disk_find_mount:
  assumes "ramdisk nm s" and "path_fits nm cs"
  shows "\<exists>x. vfs_find_mount (disk_path nm cs) s = Inr (mount_called s nm, pathstr cs @ 0 # x)"
  using disk_find_mount_any [OF assms, of "[]"] by (simp add: disk_path_def)

section \<open>Files that only change what is open\<close>

lemma nodes_only:
  assumes "r_nodes w' = r_nodes w"
  shows "slots w' = slots w" "walk w' p cs = walk w p cs" "root_ok w' = root_ok w"
    "kernel_memory w' = kernel_memory w \<Longrightarrow> tree_map w' = tree_map w"
proof -
  show sl: "slots w' = slots w" using assms by (simp add: slots_def fun_eq_iff)
  have ch: "child w' = child w" using assms sl by (simp add: child_def lname_def fun_eq_iff)
  have wk: "walk w' p cs = walk w p cs" for p cs by (induction cs arbitrary: p) (auto simp: ch split: option.splits)
  then show "walk w' p cs = walk w p cs" .
  show "root_ok w' = root_ok w" using assms sl by (simp add: root_ok_def is_dir_def fun_eq_iff)
  assume "kernel_memory w' = kernel_memory w"
  then have "entry_of w' = entry_of w" using assms by (intro ext) (simp add: entry_of_def split: node_union.split)
  then show "tree_map w' = tree_map w" using wk by (intro ext) (simp add: tree_map_def)
qed

lemma wf_files:
  assumes "ramfs_wf w" and "w' = w\<lparr>files := F, next_obj := k\<rparr>" and "0 < k" and "\<And>f. F f \<noteq> None \<Longrightarrow> 0 < f \<and> f < k"
  shows "ramfs_wf w'" "r_nodes w' = r_nodes w" "kernel_memory w' = kernel_memory w" "mount_tail w' = mount_tail w" "mount_data w' = mount_data w"
proof -
  have "slots w' = slots w" using assms(2) by (simp add: slots_def fun_eq_iff)
  moreover have "node_ok w' = node_ok w" using assms(2) by (simp add: node_ok_def fun_eq_iff cong: node_union.case_cong)
  ultimately show "ramfs_wf w'" using assms by (simp add: ramfs_wf_def blocks_ok_def owners_ok_def tree_ok_def)
qed (use assms(2) in simp_all)

section \<open>The operations on a ramfs mount\<close>

definition disk_touch :: "u8 list \<Rightarrow> u8 list list \<Rightarrow> 'a ramfs_scheme vfs \<Rightarrow> 'a ramfs_scheme vfs kres" where
  "disk_touch nm cs s = vfs_touch (disk_path nm cs) s"

definition disk_open :: "u8 list \<Rightarrow> u8 list list \<Rightarrow> 'a fs_scheme vfs \<Rightarrow> (nat \<times> 'a fs_scheme vfs) kres" where
  "disk_open nm cs s = vfs_open (disk_path nm cs) 2 s"

definition file_size :: "nat \<Rightarrow> 'a fs_scheme vfs \<Rightarrow> (nat \<times> 'a fs_scheme vfs) kres" where
  "file_size f s = kbind (deref (files (world s)) f) (\<lambda>fl. Inr (f_size fl, s))"

lemma ramfs_ops_sel:
  "m_open ramfs_ops = Some ramfs_open" "m_close ramfs_ops = Some ramfs_close" "m_read ramfs_ops = Some ramfs_read"
  "m_write ramfs_ops = Some ramfs_write" "m_touch ramfs_ops = Some ramfs_touch" "m_mkdir ramfs_ops = Some ramfs_mkdir"
  "m_truncate ramfs_ops = Some ramfs_truncate" "m_dir_at ramfs_ops = Some ramfs_dir_at" "m_name ramfs_ops = ramfs_name"
  by (simp_all add: ramfs_ops_def)

lemma ramdiskD:
  assumes "ramdisk nm s"
  shows "mount_called s nm \<noteq> 0" "mount_ops s (mount_called s nm) = Some ramfs_ops" "ramfs_wf (world s)"
    "root_ok (world s) (the_disk nm s)" "mount_data (world s) (mount_called s nm) = the_disk nm s"
  using assms by (auto simp: ramdisk_def the_disk_def)

lemma ramfs_open_ok:
  assumes wf: "ramfs_wf w" and root: "root_ok w r" "mount_data w m = r" and names: "list_all valid_name cs"
    and p: "walk w r cs = Some p" "entry_of w p = File c"
  shows "ramfs_open m (pathstr cs @ 0 # x) flags w =
    Inr (next_obj w, w\<lparr>files := (files w)(next_obj w \<mapsto> \<lparr>f_mount = m, f_mode = 0, f_data = p, f_size = length c\<rparr>), next_obj := next_obj w + 1\<rparr>)"
proof -
  have r: "r \<noteq> 0" and p0: "p \<noteq> 0" "r_nodes w p \<noteq> None"
    using root_nonzero [OF wf root(1)] walk_nonzero [OF wf root(1) p(1)] by auto
  then obtain n where n: "r_nodes w p = Some n" by auto
  from wf p(2) n obtain sz d where b: "n_type n = NODE_FILE" "0 \<le> sz" "sz < 0x80000000" "c = bytes_at d (nat sz) (kernel_memory w)" "fsize n = sz"
    by (rule file_body)
  have "ramfs_find (pathstr cs @ 0 # x) r w = Inr p"
    using ramfs_find_eq [OF wf names walk_through [OF wf p(1)] r] p(1) by simp
  then show ?thesis using p0(1) n b size_conversions(1) [OF b(2,3)] root(2) by (simp add: ramfs_open_def deref_def Let_def)
qed

text \<open>Nothing but the open files changes.\<close>

definition opens_only :: "'a fs_scheme vfs \<Rightarrow> 'a fs_scheme vfs \<Rightarrow> bool" where
  "opens_only s s' \<longleftrightarrow> (\<exists>F k. s' = s\<lparr>world := world s\<lparr>files := F, next_obj := k\<rparr>\<rparr>)"

lemma opens_onlyI: "opens_only s (s\<lparr>world := world s\<lparr>files := F, next_obj := k\<rparr>\<rparr>)"
  unfolding opens_only_def by (intro exI [of _ F] exI [of _ k]) (rule refl)

lemma opens_only_refl [simp]: "opens_only s s"
  using opens_onlyI [where F = "files (world s)" and k = "next_obj (world s)" and s = s] by simp

lemma opens_only_trans: "opens_only s s1 \<Longrightarrow> opens_only s1 s2 \<Longrightarrow> opens_only s s2"
  using opens_onlyI [of s] unfolding opens_only_def by (elim exE) simp

lemma disk_open_any:
  assumes D: "ramdisk nm s" and fits: "path_fits nm cs" and c: "disk_view nm s cs = Some (File c)"
  shows "\<exists>f s'. vfs_open ((nm @ 0x3A # pathstr cs) @ 0 # y) flags s = Inr (f, s') \<and> ramdisk nm s' \<and> disk_view nm s' = disk_view nm s \<and> disk_handle nm s' f cs \<and>
    file_size f s' = Inr (length c, s') \<and> (\<forall>g ds. disk_handle nm s g ds \<longrightarrow> disk_handle nm s' g ds \<and> g \<noteq> f) \<and>
    (files (world s'))(f := None) = files (world s) \<and> opens_only s s'"
proof -
  note d = ramdiskD [OF D]
  obtain p where p: "walk (world s) (the_disk nm s) cs = Some p" "entry_of (world s) p = File c"
    using c by (auto simp: disk_view_def tree_map_def)
  obtain x where fm: "vfs_find_mount ((nm @ 0x3A # pathstr cs) @ 0 # y) s = Inr (mount_called s nm, pathstr cs @ 0 # x)"
    using disk_find_mount_any [OF D fits] by blast
  define f where "f = next_obj (world s)"
  define fl where "fl = \<lparr>f_mount = mount_called s nm, f_mode = flags, f_data = p, f_size = length c\<rparr>"
  define w where "w = world s\<lparr>files := (files (world s))(f \<mapsto> fl), next_obj := f + 1\<rparr>"
  have f0: "f \<noteq> 0" using ramfs_wfD(2) [OF d(3)] by (simp add: f_def)
  have "ramfs_open (mount_called s nm) (pathstr cs @ 0 # x) flags (world s) = Inr (f, world s\<lparr>files := (files (world s))(f \<mapsto> fl\<lparr>f_mode := 0\<rparr>), next_obj := f + 1\<rparr>)"
    using ramfs_open_ok [OF d(3,4,5) _ p, of x flags] fits by (simp add: path_fits_def f_def fl_def)
  then have run: "vfs_open ((nm @ 0x3A # pathstr cs) @ 0 # y) flags s = Inr (f, s\<lparr>world := w\<rparr>)"
    using fm d(1,2) f0 by (simp add: vfs_open_def deref_def tested_def ramfs_ops_sel w_def fl_def)
  have F: "0 < g \<and> g < f + 1" if "((files (world s))(f \<mapsto> fl)) g \<noteq> None" for g
    using that ramfs_wfD(6) [OF d(3), of g] f0 by (cases "g = f") (auto simp: f_def)
  note keep = wf_files [OF d(3) w_def _ F, simplified]
  note nod = nodes_only [OF keep(2)]
  note R = ramdisk_world [OF D keep(4,5,1)]
  have rt: "root_ok w (the_disk nm s)" using d(4) nod(3) by simp
  have "disk_view nm (s\<lparr>world := w\<rparr>) = disk_view nm s"
    using nod(4) [OF keep(3)] R(2) [OF rt] by (simp add: disk_view_def fun_eq_iff)
  moreover have "disk_handle nm (s\<lparr>world := w\<rparr>) f cs"
    using p(1) nod(2) R(2,3) [OF rt] by (simp add: disk_handle_def opened_def w_def fl_def)
  moreover have "file_size f (s\<lparr>world := w\<rparr>) = Inr (length c, s\<lparr>world := w\<rparr>)" by (simp add: file_size_def w_def fl_def deref_def)
  moreover have "disk_handle nm (s\<lparr>world := w\<rparr>) g ds \<and> g \<noteq> f" if "disk_handle nm s g ds" for g ds
  proof -
    have "g \<noteq> f" using that ramfs_wfD(6) [OF d(3), of g] by (auto simp: disk_handle_def opened_def f_def)
    then show ?thesis using that nod(2) R(2,3) [OF rt] by (simp add: disk_handle_def opened_def w_def)
  qed
  moreover have "files (world s) f = None" using ramfs_wfD(6) [OF d(3), of f] by (cases "files (world s) f") (auto simp: f_def)
  then have "(files (world (s\<lparr>world := w\<rparr>)))(f := None) = files (world s)" by (auto simp: w_def)
  moreover have "opens_only s (s\<lparr>world := w\<rparr>)" unfolding w_def by (rule opens_onlyI)
  ultimately show ?thesis using run R(1) [OF rt] by blast
qed

text \<open>The mount as the first one that opens a path; the mounts before it do not, whatever else is open.\<close>

definition declines :: "u8 list \<Rightarrow> 'a fs_scheme vfs \<Rightarrow> nat \<Rightarrow> bool" where
  "declines path s m \<longleftrightarrow> (\<exists>ops open_fn. mount_ops s m = Some ops \<and> m_open ops = Some open_fn \<and>
     (\<forall>F k. open_fn m path 0 (world s\<lparr>files := F, next_obj := k\<rparr>) = Inr (0, world s\<lparr>files := F, next_obj := k\<rparr>)))"

definition reached_first :: "u8 list \<Rightarrow> u8 list \<Rightarrow> 'a fs_scheme vfs \<Rightarrow> bool" where
  "reached_first nm path s \<longleftrightarrow>
     (\<exists>ms1 ms2. vfs_mounts s = ms1 @ mount_called s nm # ms2 \<and> (\<forall>m\<in>set ms1. declines path s m))"

lemma open_first_declined:
  "\<forall>m\<in>set ms1. declines path s m \<Longrightarrow> open_first (ms1 @ ms) path 0 s = open_first ms path 0 s"
proof (induction ms1)
  case (Cons m ms1)
  have "world s\<lparr>files := files (world s), next_obj := next_obj (world s)\<rparr> = world s" by simp
  with Cons.prems obtain ops open_fn where "mount_ops s m = Some ops" "m_open ops = Some open_fn" "open_fn m path 0 (world s) = Inr (0, world s)"
    unfolding declines_def by (metis list.set_intros(1))
  with Cons show ?case by (simp add: deref_def untested_def)
qed simp

lemma opened_first:
  assumes D: "ramdisk nm s" and fits: "path_fits nm cs" and c: "disk_view nm s cs = Some (File c)" and first: "reached_first nm (pathstr cs @ 0 # x) s"
  shows "\<exists>f s'. vfs_open_first_found (pathstr cs @ 0 # x) 0 s = Inr (f, s') \<and> vfs_open ((nm @ 0x3A # pathstr cs) @ 0 # y) 0 s = Inr (f, s')"
proof -
  note d = ramdiskD [OF D]
  obtain p where p: "walk (world s) (the_disk nm s) cs = Some p" "entry_of (world s) p = File c"
    using c by (auto simp: disk_view_def tree_map_def)
  obtain z where fm: "vfs_find_mount ((nm @ 0x3A # pathstr cs) @ 0 # y) s = Inr (mount_called s nm, pathstr cs @ 0 # z)"
    using disk_find_mount_any [OF D fits] by blast
  have n: "next_obj (world s) \<noteq> 0" using ramfs_wfD(2) [OF d(3)] by simp
  have o: "ramfs_open (mount_called s nm) (pathstr cs @ 0 # x') 0 (world s) = Inr (next_obj (world s), world s\<lparr>files :=
      (files (world s))(next_obj (world s) \<mapsto> \<lparr>f_mount = mount_called s nm, f_mode = 0, f_data = p, f_size = length c\<rparr>), next_obj := next_obj (world s) + 1\<rparr>)" for x'
    using ramfs_open_ok [OF d(3,4,5) _ p, of x' 0] fits by (simp add: path_fits_def)
  obtain ms1 ms2 where ms: "vfs_mounts s = ms1 @ mount_called s nm # ms2" "\<forall>m\<in>set ms1. declines (pathstr cs @ 0 # x) s m"
    using first by (auto simp: reached_first_def)
  have "vfs_open_first_found (pathstr cs @ 0 # x) 0 s = open_first (mount_called s nm # ms2) (pathstr cs @ 0 # x) 0 s"
    unfolding vfs_open_first_found_def ms(1) by (rule open_first_declined [OF ms(2)])
  with fm d(2) o n d(1) show ?thesis by (simp add: vfs_open_def deref_def tested_def untested_def ramfs_ops_sel)
qed

text \<open>The other mounts keep their trees and their place.\<close>

lemma opens_only_keeps:
  assumes o: "opens_only s s'" and wf: "ramfs_wf (world s')" and D: "ramdisk nm s"
  shows "ramdisk nm s'" "disk_view nm s' = disk_view nm s" "reached_first nm path s \<Longrightarrow> reached_first nm path s'"
    "files (world s) g = files (world s') g \<Longrightarrow> disk_handle nm s g cs \<Longrightarrow> disk_handle nm s' g cs"
proof -
  obtain F k where s': "s' = s\<lparr>world := world s\<lparr>files := F, next_obj := k\<rparr>\<rparr>" using o by (auto simp: opens_only_def)
  have nod: "r_nodes (world s') = r_nodes (world s)" "kernel_memory (world s') = kernel_memory (world s)" by (simp_all add: s')
  have tail: "mount_tail (world s') = mount_tail (world s)" "mount_data (world s') = mount_data (world s)" by (simp_all add: s')
  have rt: "root_ok (world s') (the_disk nm s)" using ramdiskD(4) [OF D] nodes_only(3) [OF nod(1)] by simp
  have same: "s\<lparr>world := world s'\<rparr> = s'" by (simp add: s')
  note R = ramdisk_world [OF D tail wf rt, unfolded same]
  show "ramdisk nm s'" by (rule R(1))
  show "disk_view nm s' = disk_view nm s" using nodes_only(4) [OF nod] R(2) by (simp add: disk_view_def fun_eq_iff)
  show "disk_handle nm s' g cs" if "files (world s) g = files (world s') g" "disk_handle nm s g cs"
    using that nodes_only(2) [OF nod(1)] R(2,3) by (simp add: disk_handle_def opened_def)
  have "declines path s' = declines path s" by (simp add: declines_def s' fun_eq_iff)
  then show "reached_first nm path s'" if "reached_first nm path s"
    using that R(3) unfolding reached_first_def by (simp add: s')
qed

lemma disk_open_ok:
  assumes "ramdisk nm s" and "path_fits nm cs" and "disk_view nm s cs = Some (File c)"
  shows "\<exists>f s'. disk_open nm cs s = Inr (f, s') \<and> ramdisk nm s' \<and> disk_view nm s' = disk_view nm s \<and> disk_handle nm s' f cs \<and>
    file_size f s' = Inr (length c, s')"
  using disk_open_any [OF assms, of "[]" 2] by (auto simp: disk_open_def disk_path_def)

lemma disk_file_mount:
  assumes "ramdisk nm s" and "disk_handle nm s f cs"
  shows "file_mount f s = Inr (mount_called s nm, ramfs_ops)"
  using assms ramdiskD(2) [OF assms(1)] by (auto simp: disk_handle_def opened_def file_mount_def deref_def)

lemma disk_handle_file:
  assumes "disk_handle nm s f cs" and "disk_view nm s cs = Some (File c)" and "ramdisk nm s"
  obtains p where "walk (world s) (the_disk nm s) cs = Some p" "opened (world s) (mount_called s nm) f p"
    "r_nodes (world s) p \<noteq> None" "entry_of (world s) p = File c"
proof -
  obtain p where "walk (world s) (the_disk nm s) cs = Some p" "opened (world s) (mount_called s nm) f p"
    using assms(1) by (auto simp: disk_handle_def)
  with that assms(2) walk_nonzero [OF ramdiskD(3,4) [OF assms(3)]] show thesis by (auto simp: disk_view_def tree_map_def)
qed

lemma disk_read_ok:
  assumes D: "ramdisk nm s" and h: "disk_handle nm s f cs" and c: "disk_view nm s cs = Some (File c)" and bound: "off + n \<le> length c"
  shows "vfs_read f n off s = Inr (take n (drop off c), s)"
proof -
  from h c D obtain p where p: "opened (world s) (mount_called s nm) f p" "r_nodes (world s) p \<noteq> None" "entry_of (world s) p = File c"
    by (rule disk_handle_file)
  from ramfs_read_ok [OF ramdiskD(3) [OF D] this bound] show ?thesis
    by (simp add: vfs_read_def disk_file_mount [OF D h] tested_def ramfs_ops_sel on_world'_def)
qed

lemma disk_close_any:
  assumes D: "ramdisk nm s" and h: "disk_handle nm s f cs"
  shows "\<exists>s'. vfs_close f s = Inr s' \<and> ramdisk nm s' \<and> disk_view nm s' = disk_view nm s \<and>
    (\<forall>g ds. disk_handle nm s g ds \<and> g \<noteq> f \<longrightarrow> disk_handle nm s' g ds) \<and> files (world s') = (files (world s))(f := None) \<and>
    opens_only s s'"
proof -
  note d = ramdiskD [OF D]
  define w where "w = world s\<lparr>files := (files (world s))(f := None), next_obj := next_obj (world s)\<rparr>"
  obtain fl where "files (world s) f = Some fl" using h by (auto simp: disk_handle_def opened_def)
  then have run: "vfs_close f s = Inr (s\<lparr>world := w\<rparr>)"
    by (simp add: vfs_close_def disk_file_mount [OF D h] tested_def ramfs_ops_sel on_world_def ramfs_close_def deref_def w_def)
  have F: "0 < g \<and> g < next_obj (world s)" if "((files (world s))(f := None)) g \<noteq> None" for g
    using that ramfs_wfD(6) [OF d(3), of g] by (auto split: if_splits)
  note keep = wf_files [OF d(3) w_def ramfs_wfD(2) [OF d(3)] F, simplified]
  note nod = nodes_only [OF keep(2)]
  have rt: "root_ok w (the_disk nm s)" using d(4) nod(3) by simp
  note R = ramdisk_world [OF D keep(4,5,1) rt]
  have "disk_view nm (s\<lparr>world := w\<rparr>) = disk_view nm s"
    using nod(4) [OF keep(3)] R(2) by (simp add: disk_view_def fun_eq_iff)
  moreover have "disk_handle nm (s\<lparr>world := w\<rparr>) g ds" if "disk_handle nm s g ds" "g \<noteq> f" for g ds
    using that nod(2) R(2,3) by (simp add: disk_handle_def opened_def w_def)
  moreover have "files (world (s\<lparr>world := w\<rparr>)) = (files (world s))(f := None)" by (simp add: w_def)
  moreover have "opens_only s (s\<lparr>world := w\<rparr>)" unfolding w_def by (rule opens_onlyI)
  ultimately show ?thesis using run R(1) by blast
qed

lemma disk_close_ok:
  assumes "ramdisk nm s" and "disk_handle nm s f cs"
  shows "\<exists>s'. vfs_close f s = Inr s' \<and> ramdisk nm s' \<and> disk_view nm s' = disk_view nm s"
  using disk_close_any [OF assms] by blast

lemma disk_write_ok:
  assumes D: "ramdisk nm s" and h: "disk_handle nm s f cs" and c: "disk_view nm s cs = Some (File c)"
    and bound: "off \<le> length c" "off + length buf < 0x80000000"
  shows "\<exists>s'. vfs_write f buf off s = Inr s' \<and> ramdisk nm s' \<and> disk_handle nm s' f cs \<and>
    disk_view nm s' = (\<lambda>q. if same_path q cs then Some (File (overwrite off buf c)) else disk_view nm s q)"
proof -
  note d = ramdiskD [OF D]
  from h c D obtain p where p: "walk (world s) (the_disk nm s) cs = Some p" "opened (world s) (mount_called s nm) f p"
      "r_nodes (world s) p \<noteq> None" "entry_of (world s) p = File c" by (rule disk_handle_file)
  from ramfs_write_ok [OF d(3) p(2-4) bound] obtain w where w: "ramfs_write (mount_called s nm) f buf off (world s) = Inr w"
      "file_updated p (world s) w" "entry_of w p = File (overwrite off buf c)" "opened w (mount_called s nm) f p"
      "mount_data w = mount_data (world s)" "mount_tail w = mount_tail (world s)" by blast
  have run: "vfs_write f buf off s = Inr (s\<lparr>world := w\<rparr>)"
    by (simp add: vfs_write_def disk_file_mount [OF D h] tested_def ramfs_ops_sel on_world_def w(1))
  have rt: "root_ok w (the_disk nm s)" using d(4) file_updated_root [OF w(2)] by simp
  note R = ramdisk_world [OF D w(6,5) file_updated_wf [OF d(3) w(2)] rt]
  have "disk_view nm (s\<lparr>world := w\<rparr>) = (\<lambda>q. if same_path q cs then Some (File (overwrite off buf c)) else disk_view nm s q)"
    using file_updated_tree [OF d(3,4) w(2) p(1)] R(2) w(3) by (simp add: disk_view_def fun_eq_iff)
  moreover have "disk_handle nm (s\<lparr>world := w\<rparr>) f cs"
    using p(1) w(4) R(2,3) file_updated_walk [OF w(2)] by (simp add: disk_handle_def)
  ultimately show ?thesis using run R(1) by blast
qed

lemma disk_create_ok:
  assumes D: "ramdisk nm s" and cr: "disk_creatable nm s cs"
  shows "\<exists>w x. vfs_find_mount (disk_path nm cs) s = Inr (mount_called s nm, pathstr cs @ 0 # x) \<and>
    ramfs_create t (mount_called s nm) (pathstr cs @ 0 # x) (world s) = Inr w \<and> ramdisk nm (s\<lparr>world := w\<rparr>) \<and>
    disk_view nm (s\<lparr>world := w\<rparr>) = (\<lambda>q. if same_path q cs then Some (new_entry t) else disk_view nm s q) \<and>
    free_slots (world s) (the_disk nm s) (butlast cs) = Suc (free_slots w (the_disk nm (s\<lparr>world := w\<rparr>)) (butlast cs))"
proof -
  note d = ramdiskD [OF D]
  have fits: "path_fits nm cs" and cs: "butlast cs @ [last cs] = cs" using cr by (auto simp: disk_creatable_def)
  obtain x where fm: "vfs_find_mount (disk_path nm cs) s = Inr (mount_called s nm, pathstr cs @ 0 # x)"
    using disk_find_mount [OF D fits] by blast
  have args: "list_all valid_name cs" "length (last cs) < 92" "length (pathstr (butlast cs)) < 512"
      "tree_map (world s) (the_disk nm s) (butlast cs) = Some Dir" "tree_map (world s) (the_disk nm s) cs = None"
      "has_room (world s) (the_disk nm s) (butlast cs)"
    using cr by (auto simp: disk_creatable_def disk_view_def path_fits_def)
  from ramfs_create_ok [OF d(3,4,5), of "butlast cs" "last cs" t x, unfolded cs, OF args] obtain w where
    w: "ramfs_create t (mount_called s nm) (pathstr cs @ 0 # x) (world s) = Inr w" "ramfs_wf w" "root_ok w (the_disk nm s)"
      "tree_map w (the_disk nm s) = (\<lambda>q. if same_path q cs then Some (new_entry t) else tree_map (world s) (the_disk nm s) q)"
      "mount_data w = mount_data (world s)" "mount_tail w = mount_tail (world s)"
      "free_slots (world s) (the_disk nm s) (butlast cs) = Suc (free_slots w (the_disk nm s) (butlast cs))"
    by blast
  note R = ramdisk_world [OF D w(6,5,2,3)]
  have "disk_view nm (s\<lparr>world := w\<rparr>) = (\<lambda>q. if same_path q cs then Some (new_entry t) else disk_view nm s q)"
    using w(4) R(2) by (simp add: disk_view_def fun_eq_iff)
  moreover have "free_slots (world s) (the_disk nm s) (butlast cs) = Suc (free_slots w (the_disk nm (s\<lparr>world := w\<rparr>)) (butlast cs))"
    unfolding R(2) by (rule w(7))
  ultimately show ?thesis using fm w(1) R(1) by blast
qed

lemma disk_touch_ok:
  assumes D: "ramdisk nm s" and cr: "disk_creatable nm s cs"
  shows "\<exists>s'. disk_touch nm cs s = Inr s' \<and> ramdisk nm s' \<and> path_fits nm cs \<and>
    disk_view nm s' = (\<lambda>q. if same_path q cs then Some (File []) else disk_view nm s q) \<and>
    free_slots (world s) (the_disk nm s) (butlast cs) = Suc (free_slots (world s') (the_disk nm s') (butlast cs))"
proof -
  have new: "new_entry NODE_FILE = File []" by (simp add: new_entry_def)
  from disk_create_ok [OF D cr, of NODE_FILE, unfolded new] obtain w x where w:
    "vfs_find_mount (disk_path nm cs) s = Inr (mount_called s nm, pathstr cs @ 0 # x)"
    "ramfs_create NODE_FILE (mount_called s nm) (pathstr cs @ 0 # x) (world s) = Inr w" "ramdisk nm (s\<lparr>world := w\<rparr>)"
    "disk_view nm (s\<lparr>world := w\<rparr>) = (\<lambda>q. if same_path q cs then Some (File []) else disk_view nm s q)"
    "free_slots (world s) (the_disk nm s) (butlast cs) = Suc (free_slots w (the_disk nm (s\<lparr>world := w\<rparr>)) (butlast cs))"
    by auto
  then have "disk_touch nm cs s = Inr (s\<lparr>world := w\<rparr>)" using ramdiskD(1,2) [OF D]
    by (simp add: disk_touch_def vfs_touch_def mount_for_def deref_def tested_def ramfs_ops_sel ramfs_touch_def on_world_def)
  with w(3-5) cr show ?thesis by (auto simp: disk_creatable_def)
qed

lemma disk_laws:
  "ramdisk nm s \<Longrightarrow> path_fits nm cs \<Longrightarrow> disk_view nm s cs = Some (File c) \<Longrightarrow>
    \<exists>f s' s''. disk_open nm cs s = Inr (f, s') \<and> ramdisk nm s' \<and> disk_view nm s' = disk_view nm s \<and> disk_handle nm s' f cs \<and>
      file_size f s' = Inr (length c, s'') \<and> ramdisk nm s'' \<and> disk_view nm s'' = disk_view nm s \<and> disk_handle nm s'' f cs"
  "ramdisk nm s \<Longrightarrow> disk_handle nm s f cs \<Longrightarrow> disk_view nm s cs = Some (File c) \<Longrightarrow> off + n \<le> length c \<Longrightarrow>
    \<exists>s'. vfs_read f n off s = Inr (take n (drop off c), s') \<and> ramdisk nm s' \<and> disk_view nm s' = disk_view nm s \<and> disk_handle nm s' f cs"
  using disk_open_ok [of nm s cs c] disk_read_ok [of nm s f cs c off n] by blast+

interpretation ramfs_mount: writable_store "ramdisk nm" "disk_view nm" "disk_handle nm" "disk_open nm" file_size vfs_read vfs_close
    "path_fits nm" "\<lambda>_. True" "0x7FFFFFFF" same_path "disk_creatable nm" "disk_touch nm" vfs_write
  for nm :: "u8 list"
proof unfold_locales
  show "\<exists>s'. vfs_close f s = Inr s' \<and> ramdisk nm s' \<and> True \<and> disk_view nm s' = disk_view nm s"
    if "ramdisk nm s" "disk_handle nm s f cs" for s :: "'a ramfs_scheme vfs" and f cs using disk_close_ok [OF that] by simp
  show "\<exists>s'. disk_touch nm cs s = Inr s' \<and> ramdisk nm s' \<and> True \<and> path_fits nm cs \<and>
      disk_view nm s' = (\<lambda>q. if same_path q cs then Some (File []) else disk_view nm s q)"
    if "ramdisk nm s" "disk_creatable nm s cs" for s :: "'a ramfs_scheme vfs" and cs using disk_touch_ok [OF that] by blast
qed (rule disk_laws disk_write_ok; assumption | simp add: same_path_def)+

end
