(* ===== verification/Ramfs_Listing.thy ===== *)
theory Ramfs_Listing
  imports Ramfs_Contract
begin

text \<open>
  Listing a directory of a ramfs mount, creating directories, and the mount the ramfs module sets up,
  which serves as the example of the properties of ramfs mounts.
\<close>

section \<open>Listing\<close>

definition kids :: "'a ramfs_scheme \<Rightarrow> nat \<Rightarrow> nat list" where
  "kids s p = filter (\<lambda>q. q \<noteq> 0) (slots s p)"

lemma dir_scan_eq:
  "dir_scan ps (int i + 1) = (if i < length (filter (\<lambda>q. q \<noteq> 0) ps) then Some (filter (\<lambda>q. q \<noteq> 0) ps ! i) else None)"
proof (induction ps arbitrary: i)
  case (Cons p ps)
  show ?case
  proof (cases "p = 0")
    case False
    then show ?thesis using Cons.IH [of "i - 1"] by (cases i) (auto simp: add.commute)
  qed (use Cons in simp)
qed simp

lemma find_filter: "find (\<lambda>q. P q \<and> Q q) xs = find Q (filter P xs)"
  by (induction xs) auto

definition dir_of :: "'a ramfs_scheme \<Rightarrow> nat \<Rightarrow> int \<Rightarrow> dir_t \<Rightarrow> bool" where
  "dir_of s q idx e \<longleftrightarrow> \<not> is_none e \<and> d_idx e = idx \<and> lower (text_of (d_name e)) = lname s q \<and>
     d_type e = (if is_dir s q then ENTRY_DIR else ENTRY_FILE)"

lemma ramfs_dir_at_ok:
  assumes wf: "ramfs_wf w" and root: "root_ok w r" "mount_data w m = r" and names: "list_all valid_name cs"
    and p: "walk w r cs = Some p" "entry_of w p = Dir" and i: "i < 0x7FFFFFFF"
  shows "if i < length (kids w p) then \<exists>e. ramfs_dir_at m (int i) (pathstr cs @ 0 # x) w = Inr (e, w) \<and> dir_of w (kids w p ! i) (int i) e
    else ramfs_dir_at m (int i) (pathstr cs @ 0 # x) w = Inr (no_dir, w)"
proof -
  have r: "r \<noteq> 0" and p0: "p \<noteq> 0" "r_nodes w p \<noteq> None"
    using root_nonzero [OF wf root(1)] walk_nonzero [OF wf root(1) p(1)] by auto
  have "is_dir w p" using entry_Dir [OF wf p0(2)] p(2) by simp
  from wf this obtain n ps where n: "r_nodes w p = Some n" "n_type n = NODE_DIR" "slots w p = ps" "childs n = ps" by (rule dir_body)
  have find: "ramfs_find (pathstr cs @ 0 # x) r w = Inr p"
    using ramfs_find_eq [OF wf names walk_through [OF wf p(1)] r] p(1) by simp
  have idx: "s32 (int i + 1) = int i + 1" using i by (simp add: s32_def)
  show ?thesis
  proof (cases "i < length (kids w p)")
    case False
    then have "ramfs_dir_at m (int i) (pathstr cs @ 0 # x) w = Inr (no_dir, w)"
      using find p0(1) n root(2) by (simp add: ramfs_dir_at_def deref_def idx dir_scan_eq kids_def)
    with False show ?thesis by simp
  next
    case True
    define q where "q = kids w p ! i"
    have "q \<in> set (kids w p)" using True by (simp add: q_def)
    then have q: "q \<in> set (slots w p)" "q \<noteq> 0" by (auto simp: kids_def)
    from wf q obtain ch nm y where ch: "r_nodes w q = Some ch" "n_name ch = nm @ 0 # y" "cstring nm" "lname w q = lower nm"
      by (rule slots_known)
    have ok: "length (n_name ch) = 92" "n_name ch ! 0 = 0 \<longrightarrow> n_name ch ! 1 = 0"
      using ramfs_wfD(5) [OF wf ch(1)] by (auto simp: node_ok_def)
    have "\<exists>k. strcpy (replicate 256 0) (n_name ch) = Inr (nm @ replicate (Suc k) 0)"
    proof (cases "nm = []")
      case True
      have len: "length y = 91" "y ! 0 = 0" using ok ch(2) True by auto
      then obtain y' where "y = 0 # y'" by (cases y) auto
      then have "strcpy (0 # replicate 255 0) (n_name ch) = Inr (0 # replicate 255 0)" using ch(2) True by simp
      moreover have "0 # replicate 255 (0 :: u8) = replicate 256 0" by (simp flip: replicate_Suc)
      ultimately have "strcpy (replicate 256 0) (n_name ch) = Inr (nm @ replicate (Suc 255) 0)" using True by simp
      then show ?thesis ..
    next
      case False
      have "256 - length nm = Suc (255 - length nm)" using ok(1) ch(2) by simp
      then have "strcpy (replicate 256 0) (n_name ch) = Inr (nm @ replicate (Suc (255 - length nm)) 0)"
        using strcpy_string [OF ch(3) False, of "replicate 256 0" y] ok(1) ch(2) by simp
      then show ?thesis ..
    qed
    then obtain k where cp: "strcpy (replicate 256 0) (n_name ch) = Inr (nm @ replicate (Suc k) 0)" by blast
    define e where "e = \<lparr>d_name = nm @ replicate (Suc k) 0, d_idx = int i, is_none = False,
      d_type = (case n_type ch of NODE_DIR \<Rightarrow> ENTRY_DIR | NODE_FILE \<Rightarrow> ENTRY_FILE)\<rparr>"
    have scan: "dir_scan (childs n) (s32 (int i + 1)) = Some q"
      unfolding idx dir_scan_eq n(4) using True by (simp add: kids_def q_def n(3))
    have "ramfs_dir_at m (int i) (pathstr cs @ 0 # x) w = Inr (e, w)"
      using find p0(1) n(1,2) root(2) ch(1) cp scan by (simp add: ramfs_dir_at_def deref_def e_def)
    moreover have "dir_of w q (int i) e"
      using ch by (auto simp: dir_of_def e_def is_dir_def split: ramfs_node_type.split)
    ultimately show ?thesis using True unfolding q_def by simp
  qed
qed

text \<open>The entries of a directory on a disk, one for each of its nodes, as \<open>vfs_dir_at\<close> delivers them.\<close>

lemma disk_dir_entries:
  assumes "ramdisk nm s" and "path_fits nm cs" and "disk_view nm s cs = Some Dir"
  obtains p ents where "walk (world s) (the_disk nm s) cs = Some p" and "length ents = length (kids (world s) p)" and "length ents \<le> 1000"
    and "\<And>i. i < 0x7FFFFFFF \<Longrightarrow> vfs_dir_at (int i) (disk_path nm cs) s = Inr (if i < length ents then ents ! i else no_dir, s)"
    and "\<And>i. i < length ents \<Longrightarrow> dir_of (world s) (kids (world s) p ! i) (int i) (ents ! i)"
proof -
  note d = ramdiskD [OF assms(1)]
  obtain p where p: "walk (world s) (the_disk nm s) cs = Some p" "entry_of (world s) p = Dir"
    using assms(3) by (auto simp: disk_view_def tree_map_def)
  obtain x where fm: "vfs_find_mount (disk_path nm cs) s = Inr (mount_called s nm, pathstr cs @ 0 # x)"
    using disk_find_mount [OF assms(1,2)] by blast
  define ks where "ks = kids (world s) p"
  define at where "at = (\<lambda>i. ramfs_dir_at (mount_called s nm) (int i) (pathstr cs @ 0 # x) (world s))"
  define ents where "ents = map (\<lambda>i. fst (projr (at i))) [0..<length ks]"
  have run: "vfs_dir_at (int i) (disk_path nm cs) s = kbind (at i) (\<lambda>(e, w). Inr (e, s\<lparr>world := w\<rparr>))" for i
    using fm d(1,2) by (simp add: vfs_dir_at_def mount_for_def deref_def tested_def ramfs_ops_sel on_world'_def at_def)
  have names: "list_all valid_name cs" using assms(2) by (simp add: path_fits_def)
  note dat = ramfs_dir_at_ok [OF d(3,4,5) names p, of _ x, folded ks_def]
  have "is_dir (world s) p" using entry_Dir [OF d(3), of p] p walk_nonzero [OF d(3,4) p(1)] by simp
  with d(3) obtain n ps where "r_nodes (world s) p = Some n" "n_body n = Childs ps" "slots (world s) p = ps" by (rule dir_body)
  then have "length (slots (world s) p) \<le> 1000" using ramfs_wfD(5) [OF d(3)] by (fastforce simp: node_ok_def)
  with length_filter_le [of "\<lambda>q. q \<noteq> 0" "slots (world s) p"] have cap: "length ks \<le> 1000" unfolding ks_def kids_def by (rule le_trans)
  have ent: "at i = Inr (ents ! i, world s) \<and> dir_of (world s) (ks ! i) (int i) (ents ! i)" if "i < length ks" for i
  proof -
    from that cap have "i < 0x7FFFFFFF" by simp
    from dat [OF this] that obtain e where "at i = Inr (e, world s)" "dir_of (world s) (ks ! i) (int i) e" by (auto simp: at_def)
    moreover from this that have "ents ! i = e" by (simp add: ents_def)
    ultimately show ?thesis by simp
  qed
  have none: "at i = Inr (no_dir, world s)" if "\<not> i < length ks" "i < 0x7FFFFFFF" for i using dat [of i] that by (simp add: at_def)
  have len: "length ents = length ks" by (simp add: ents_def)
  have "vfs_dir_at (int i) (disk_path nm cs) s = Inr (if i < length ents then ents ! i else no_dir, s)" if "i < 0x7FFFFFFF" for i
    using that run ent none by (simp add: len)
  note deliver = this
  show thesis by (rule that [OF p(1), of ents]) (use deliver ent len cap in \<open>simp_all add: ks_def\<close>)
qed

lemma child_find: "child s p c = find (\<lambda>q. lname s q = lower c) (kids s p)"
  unfolding child_def kids_def by (rule find_filter)

lemma child_exists: "child s p c \<noteq> None \<longleftrightarrow> (\<exists>i<length (kids s p). lname s (kids s p ! i) = lower c)"
  unfolding child_find by (auto simp: find_None_iff in_set_conv_nth)

lemma child_index: "child s p c = Some q \<Longrightarrow> \<exists>i<length (kids s p). kids s p ! i = q \<and> lname s q = lower c"
  unfolding child_find by (auto simp: find_Some_iff)

text \<open>
  C36. Listing a directory is complete and sound: asking for entry 0, 1, 2 and so on never fails and changes nothing, the delivered
  entries are numbered without gaps, and a path exists below the directory exactly when its last name is
  among the delivered ones, with the type that was delivered.
\<close>

theorem ramfs_lists_directory:
  assumes "ramdisk nm s" and "path_fits nm cs" and "disk_view nm s cs = Some Dir"
  shows "\<exists>n ents. length ents = n \<and> n \<le> 1000 \<and>
    (\<forall>i. i < 0x7FFFFFFF \<longrightarrow> vfs_dir_at (int i) (disk_path nm cs) s = Inr (if i < n then ents ! i else no_dir, s)) \<and>
    (\<forall>i. i < n \<longrightarrow> \<not> is_none (ents ! i) \<and> d_idx (ents ! i) = int i) \<and>
    (\<forall>c. disk_view nm s (cs @ [c]) \<noteq> None \<longleftrightarrow> (\<exists>e. e \<in> set ents \<and> lower (text_of (d_name e)) = lower c)) \<and>
    (\<forall>c. disk_view nm s (cs @ [c]) = Some Dir \<longrightarrow> (\<exists>e. e \<in> set ents \<and> lower (text_of (d_name e)) = lower c \<and> d_type e = ENTRY_DIR))"
proof -
  obtain p ents where p: "walk (world s) (the_disk nm s) cs = Some p" and len: "length ents = length (kids (world s) p)" "length ents \<le> 1000"
    and run: "\<And>i. i < 0x7FFFFFFF \<Longrightarrow> vfs_dir_at (int i) (disk_path nm cs) s = Inr (if i < length ents then ents ! i else no_dir, s)"
    and ent: "\<And>i. i < length ents \<Longrightarrow> dir_of (world s) (kids (world s) p ! i) (int i) (ents ! i)"
    using disk_dir_entries [OF assms] by blast
  have view: "disk_view nm s (cs @ [c]) = map_option (entry_of (world s)) (child (world s) p c)" for c
    using p by (simp add: disk_view_def tree_map_def walk_snoc)
  have listed: "disk_view nm s (cs @ [c]) \<noteq> None \<longleftrightarrow> (\<exists>e. e \<in> set ents \<and> lower (text_of (d_name e)) = lower c)" for c
  proof -
    have "child (world s) p c \<noteq> None \<longleftrightarrow> (\<exists>i<length ents. lower (text_of (d_name (ents ! i))) = lower c)"
      unfolding child_exists len(1) [symmetric] using ent by (auto simp: dir_of_def)
    then show ?thesis unfolding view by (auto simp: in_set_conv_nth)
  qed
  have dirs: "\<exists>e. e \<in> set ents \<and> lower (text_of (d_name e)) = lower c \<and> d_type e = ENTRY_DIR"
    if sub: "disk_view nm s (cs @ [c]) = Some Dir" for c
  proof -
    note wf = ramdiskD(3) [OF assms(1)]
    obtain q where q: "child (world s) p c = Some q" "entry_of (world s) q = Dir" using sub [unfolded view] by auto
    then obtain i where i: "i < length ents" "kids (world s) p ! i = q" "lname (world s) q = lower c" using child_index len(1) by metis
    have "is_dir (world s) q" using entry_Dir [OF wf] child_known [OF wf q(1)] q(2) by blast
    with ent [OF i(1)] i show ?thesis by (auto simp: dir_of_def in_set_conv_nth)
  qed
  show ?thesis
    using run ent len(2) listed dirs by (intro exI [of _ "length ents"] exI [of _ ents]) (auto simp: dir_of_def)
qed

section \<open>Saving and loading\<close>

text \<open>
  C32. A saved file is read back. On a ramfs mount, creating a file at a path that does not exist yet in a
  directory with a free slot, writing up to 2 GB of data to it and closing it succeeds; opening and
  reading it afterwards delivers exactly the data, and every other path shows the entry it showed before.
\<close>

theorem ramfs_save_load:
  assumes "ramdisk nm s" and "disk_creatable nm s path" and "length data < 0x80000000"
  shows "\<exists>s1 s2. save_file (disk_touch nm) (disk_open nm) vfs_write vfs_close path data s = Inr s1 \<and>
    load_file (disk_open nm) file_size vfs_read vfs_close path s1 = Inr (data, s2) \<and>
    (\<forall>q. \<not> same_path q path \<longrightarrow> disk_view nm s2 q = disk_view nm s q)"
  using ramfs_mount.save_then_load [OF assms(1) TrueI assms(2,3)] assms(3) by simp

section \<open>Directories\<close>

text \<open>
  Making a directory adds exactly that directory to the tree: at a path that does not exist, in a directory
  with a free slot, \<open>vfs_mkdir\<close> succeeds, the path shows a directory, every other path shows what it
  showed before, and the mount stays well-formed.
\<close>

theorem vfs_mkdir_adds:
  assumes "ramdisk nm s" and "disk_creatable nm s path"
  shows "\<exists>s'. vfs_mkdir (disk_path nm path) s = Inr s' \<and> ramdisk nm s' \<and>
    disk_view nm s' = (\<lambda>q. if same_path q path then Some Dir else disk_view nm s q)"
proof -
  have new: "new_entry NODE_DIR = Dir" by (simp add: new_entry_def)
  from disk_create_ok [OF assms, of NODE_DIR, unfolded new] obtain w x where w:
    "vfs_find_mount (disk_path nm path) s = Inr (mount_called s nm, pathstr path @ 0 # x)"
    "ramfs_create NODE_DIR (mount_called s nm) (pathstr path @ 0 # x) (world s) = Inr w" "ramdisk nm (s\<lparr>world := w\<rparr>)"
    "disk_view nm (s\<lparr>world := w\<rparr>) = (\<lambda>q. if same_path q path then Some Dir else disk_view nm s q)" by auto
  then have "vfs_mkdir (disk_path nm path) s = Inr (s\<lparr>world := w\<rparr>)" using ramdiskD(1,2) [OF assms(1)]
    by (simp add: vfs_mkdir_def mount_for_def deref_def tested_def ramfs_ops_sel ramfs_mkdir_def on_world_def)
  with w(3,4) show ?thesis by blast
qed

section \<open>The mount of the module\<close>

definition tmp_name :: "u8 list" where
  "tmp_name = [0x74, 0x6D, 0x70]"

lemma tmp_literal: "path_literal ''tmp'' = tmp_name @ [0]"
  by (simp add: path_literal_def tmp_name_def)

lemma cstring_tmp: "cstring tmp_name" "0x3A \<notin> set tmp_name" "length tmp_name = 3"
  by (simp_all add: tmp_name_def)

lemma stage_mount_first:
  assumes wf: "ramfs_wf (world s)" and first: "vfs_mounts s = []"
  shows "\<exists>s'. stage_mount s = Inr s' \<and> ramdisk tmp_name s' \<and> free_slots (world s') (the_disk tmp_name s') [] = 1000 \<and>
    disk_view tmp_name s' = (\<lambda>q. if q = [] then Some Dir else None)"
proof -
  define w where "w = world s"
  define m where "m = next_obj w"
  define root where "root = \<lparr>n_name = replicate 92 0, n_type = NODE_DIR, n_body = Childs (replicate 1000 0)\<rparr>"
  define w' where "w' = w\<lparr>r_next := r_next w + 0x1000, next_obj := m + 1, mount_data := (mount_data w)(m := r_next w),
    mount_tail := (mount_tail w)(m := tmp_name @ [0]), r_nodes := (r_nodes w)(r_next w \<mapsto> root)\<rparr>"
  define s' where "s' = s\<lparr>mount_ops := (mount_ops s)(m \<mapsto> ramfs_ops), world := w', vfs_mounts := [m]\<rparr>"
  have lit: "path_literal ''tmp'' = tmp_name @ 0 # []" by (simp add: tmp_literal)
  have cp: "strlen (tmp_name @ 0 # []) = Inr 3" "strcpy (replicate (3 + 1) 0) (tmp_name @ 0 # []) = Inr (tmp_name @ [0])"
    using strlen_string [OF cstring_tmp(1), of "[]"] strcpy_string [OF cstring_tmp(1), of "replicate (3 + 1) 0" "[]"] cstring_tmp(3)
    by (auto simp: tmp_name_def)
  have run: "stage_mount s = Inr s'"
    unfolding stage_mount_def get_ramfs_def lit cp kbind_Inr
    by (simp add: Let_def alloc_pages_def vfs_mount_def s'_def w'_def m_def w_def root_def first)
  have m0: "m \<noteq> 0" using ramfs_wfD(2) [OF wf] by (simp add: m_def w_def)
  have called: "mount_called s' tmp_name = m"
    using text_of_append [OF cstring_tmp(1), of "[]"] by (simp add: mount_called_def s'_def ramfs_ops_sel ramfs_name_def w'_def)
  have new: "r_nodes w (r_next w) = None" "r_next w \<noteq> 0"
    using ramfs_wfD(1,4) [OF wf] unfolding w_def by (metis less_irrefl not_Some_eq)+
  have sl: "slots w' x = (if x = r_next w then replicate 1000 0 else slots w x)" for x
    by (simp add: slots_def w'_def root_def)
  have old: "q \<noteq> r_next w" if "q \<in> set (slots w x)" for q x
    using that new slots_known [OF wf, of q x] unfolding w_def by (cases "q = 0") (force simp del: not_None_eq)+
  have ok: "node_ok w' n" if "r_nodes w' q = Some n" for q n
  proof (cases "q = r_next w")
    case True
    then have "n = root" using that by (simp add: w'_def)
    moreover have "replicate 92 (0 :: u8) = [] @ 0 # replicate 91 0" by (simp flip: replicate_Suc)
    then have "\<exists>nm x. replicate 92 (0 :: u8) = nm @ 0 # x \<and> cstring nm" by fastforce
    ultimately show ?thesis by (simp add: node_ok_def root_def)
  next
    case False
    then have "r_nodes w q = Some n" using that by (simp add: w'_def)
    then have "node_ok w n" using ramfs_wfD(5) [OF wf] by (simp add: w_def)
    moreover have "r_blocks w' = r_blocks w" "\<And>x. r_nodes w x \<noteq> None \<Longrightarrow> r_nodes w' x \<noteq> None" by (simp_all add: w'_def)
    ultimately show ?thesis by (auto simp: node_ok_def split: node_union.splits)
  qed
  have "tree_ok w'" unfolding tree_ok_def sl using ramfs_wfD(9) [OF wf, folded w_def] old
    by (auto simp: tree_ok_def split: if_splits)
  moreover have "owners_ok w'" using ramfs_wfD(8) [OF wf] unfolding owners_ok_def w'_def w_def root_def by auto
  moreover have "blocks_ok w'" using ramfs_wfD(7) [OF wf] unfolding blocks_ok_def w'_def w_def
    by (simp add: trans_le_add1)
  moreover have "0x1000 \<le> q \<and> q < r_next w'" if "r_nodes w' q = Some n" for q n
    using that ramfs_wfD(4,11) [OF wf, of q n] ramfs_wfD(10) [OF wf] by (auto simp: w'_def w_def split: if_splits)
  ultimately have wf': "ramfs_wf w'" using ok ramfs_wfD(2,3,6,10) [OF wf] new(2)
    unfolding ramfs_wf_def by (auto simp: w'_def w_def m_def less_Suc_eq)
  have disk: "the_disk tmp_name s' = r_next w" unfolding the_disk_def called by (simp add: s'_def w'_def)
  have "is_dir w' (r_next w)" by (simp add: is_dir_def w'_def root_def)
  moreover have "r_next w \<notin> set (slots w' a)" for a using old new(2) by (auto simp: sl)
  ultimately have rt: "root_ok w' (r_next w)" by (simp add: root_ok_def)
  have "names_ok s'" unfolding names_ok_def using m0 cstring_tmp(1)
    by (auto simp: s'_def ramfs_ops_sel ramfs_name_def w'_def)
  then have "ramdisk tmp_name s'" using m0 wf' rt cstring_tmp unfolding ramdisk_def disk called by (simp add: s'_def)
  moreover have "disk_view tmp_name s' = (\<lambda>q. if q = [] then Some Dir else None)"
  proof
    fix q
    have "child w' (r_next w) c = None" for c by (simp add: child_def sl find_None_iff)
    then show "disk_view tmp_name s' q = (if q = [] then Some Dir else None)"
      unfolding disk_view_def disk by (cases q) (simp_all add: s'_def tree_map_def, simp add: entry_of_def w'_def root_def)
  qed
  moreover have "count_list (replicate n (0 :: nat)) 0 = n" for n by (induction n) simp_all
  then have "free_slots (world s') (the_disk tmp_name s') [] = 1000" unfolding disk by (simp add: free_slots_def s'_def sl)
  ultimately show ?thesis using run by blast
qed

definition boot_vfs :: "ramfs vfs" where
  "boot_vfs = \<lparr>vfs_mounts = [], mount_ops = (\<lambda>_. None),
     world = \<lparr>kernel_memory = (\<lambda>_. 0), files = (\<lambda>_. None), next_obj = 1, mount_data = (\<lambda>_. 0), mount_tail = (\<lambda>_. []),
       r_nodes = (\<lambda>_. None), r_blocks = (\<lambda>_. None), r_next = 0x1000\<rparr>\<rparr>"

lemma boot_tmp:
  obtains s where "stage_mount boot_vfs = Inr s" "ramdisk tmp_name s" "disk_creatable tmp_name s [[0x61]]"
    "disk_view tmp_name s = (\<lambda>q. if q = [] then Some Dir else None)"
    "free_slots (world s) (the_disk tmp_name s) [] = 1000"
proof -
  have "ramfs_wf (world boot_vfs)"
    by (simp add: ramfs_wf_def boot_vfs_def blocks_ok_def owners_ok_def tree_ok_def slots_def)
  from stage_mount_first [OF this] obtain s where s: "stage_mount boot_vfs = Inr s" "ramdisk tmp_name s"
      "free_slots (world s) (the_disk tmp_name s) [] = 1000" "disk_view tmp_name s = (\<lambda>q. if q = [] then Some Dir else None)"
    by (auto simp: boot_vfs_def)
  moreover have "disk_creatable tmp_name s [[0x61]]"
    using s(3,4) cstring_tmp(3) by (simp add: disk_creatable_def path_fits_def valid_name_def has_room_free)
  ultimately show thesis using that by blast
qed

theorem ramfs_save_load_witness:
  "\<exists>s s1 s2. stage_mount boot_vfs = Inr s \<and>
     save_file (disk_touch tmp_name) (disk_open tmp_name) vfs_write vfs_close [[0x61]] [1, 2, 3] s = Inr s1 \<and>
     load_file (disk_open tmp_name) file_size vfs_read vfs_close [[0x61]] s1 = Inr ([1, 2, 3], s2)"
proof -
  obtain s where s: "stage_mount boot_vfs = Inr s" "ramdisk tmp_name s" "disk_creatable tmp_name s [[0x61]]" by (rule boot_tmp)
  from ramfs_save_load [OF s(2,3), of "[1, 2, 3]"] s(1) show ?thesis by auto
qed

theorem vfs_mkdir_adds_witness:
  "\<exists>s s1. stage_mount boot_vfs = Inr s \<and> vfs_mkdir (disk_path tmp_name [[0x61]]) s = Inr s1 \<and>
     disk_view tmp_name s1 [[0x41]] = Some Dir"
proof -
  obtain s where s: "stage_mount boot_vfs = Inr s" "ramdisk tmp_name s" "disk_creatable tmp_name s [[0x61]]" by (rule boot_tmp)
  have "same_path [[0x41]] [[0x61]]" by (simp add: same_path_def lower_def tolower_def isupper_def)
  with vfs_mkdir_adds [OF s(2,3)] s(1) show ?thesis by auto
qed

theorem ramfs_lists_directory_witness:
  "\<exists>(s :: ramfs vfs) i e. vfs_dir_at (int i) (disk_path tmp_name []) s = Inr (e, s) \<and> lower (text_of (d_name e)) = [0x61] \<and> d_type e = ENTRY_DIR"
proof -
  obtain s0 where s0: "stage_mount boot_vfs = Inr s0" "ramdisk tmp_name s0" "disk_creatable tmp_name s0 [[0x61]]"
      "disk_view tmp_name s0 = (\<lambda>q. if q = [] then Some Dir else None)" by (rule boot_tmp)
  have new: "new_entry NODE_DIR = Dir" by (simp add: new_entry_def)
  from disk_create_ok [OF s0(2,3), of NODE_DIR, unfolded new] obtain s :: "ramfs vfs" where s: "ramdisk tmp_name s"
      "disk_view tmp_name s = (\<lambda>q. if same_path q [[0x61]] then Some Dir else disk_view tmp_name s0 q)" by blast
  have "path_fits tmp_name []" using cstring_tmp(3) by (simp add: path_fits_def)
  moreover have "disk_view tmp_name s [] = Some Dir" using s(2) s0(4) by (simp add: same_path_def)
  ultimately have lists: "path_fits tmp_name []" "disk_view tmp_name s [] = Some Dir" by blast+
  from ramfs_lists_directory [OF s(1) lists] obtain n ents where e: "length ents = n"
      "\<forall>i. i < 0x7FFFFFFF \<longrightarrow> vfs_dir_at (int i) (disk_path tmp_name []) s = Inr (if i < n then ents ! i else no_dir, s)"
      "\<forall>c. disk_view tmp_name s ([] @ [c]) = Some Dir \<longrightarrow> (\<exists>e. e \<in> set ents \<and> lower (text_of (d_name e)) = lower c \<and> d_type e = ENTRY_DIR)"
      "\<forall>i. i < n \<longrightarrow> \<not> is_none (ents ! i) \<and> d_idx (ents ! i) = int i" "n \<le> 1000"
    by (elim exE conjE) (rule that; assumption)
  have "disk_view tmp_name s ([] @ [[0x61]]) = Some Dir" using s(2) by (simp add: same_path_def)
  with e(3) obtain x where x: "x \<in> set ents" "lower (text_of (d_name x)) = lower [0x61]" "d_type x = ENTRY_DIR" by blast
  then obtain i where "i < n" "ents ! i = x" using e(1) by (auto simp: in_set_conv_nth)
  then have "vfs_dir_at (int i) (disk_path tmp_name []) s = Inr (x, s)" using e(2,5) by simp
  moreover have "lower [0x61] = [0x61 :: u8]" by (simp add: lower_def tolower_def isupper_def)
  ultimately show ?thesis using x(2,3) by metis
qed

section \<open>Errors\<close>

text \<open>
  Paths that name no mount: opening returns \<open>NULL\<close> and changes nothing, the operations that create, list or delete
  abort before any driver is called.
\<close>

theorem vfs_unknown_mount:
  assumes "mounts_ok s" and "cstring nm" and "0x3A \<notin> set nm" and "cstring rest" and "length nm + length rest < 1022"
    and "mount_called s nm = 0"
  shows "vfs_open ((nm @ 0x3A # rest) @ [0]) flags s = Inr (0, s) \<and>
    (\<exists>msg. vfs_mkdir ((nm @ 0x3A # rest) @ [0]) s = Inl (Abort msg) \<and> vfs_touch ((nm @ 0x3A # rest) @ [0]) s = Inl (Abort msg) \<and>
       vfs_dir_at idx ((nm @ 0x3A # rest) @ [0]) s = Inl (Abort msg) \<and> vfs_delete_dir ((nm @ 0x3A # rest) @ [0]) s = Inl (Abort msg))"
  using vfs_find_mount_eq [OF assms(1-5), of "[]"] assms(6)
  by (simp add: vfs_open_def vfs_mkdir_def vfs_touch_def vfs_dir_at_def vfs_delete_dir_def mount_for_def)

theorem vfs_unknown_mount_witness:
  "vfs_open (([0x61] @ 0x3A # []) @ [0]) 0 boot_vfs = Inr (0, boot_vfs)"
proof -
  have "mounts_ok boot_vfs" "mount_called boot_vfs [0x61] = 0" by (simp_all add: mounts_ok_def mount_called_def boot_vfs_def)
  from vfs_unknown_mount [OF this(1) _ _ _ _ this(2), of "[]"] show ?thesis by simp
qed

text \<open>
  Opening a path that goes on behind a non-empty file follows a wild pointer instead of returning \<open>NULL\<close>:
  the node of a file keeps its size where a directory keeps its first child.
\<close>

theorem ramfs_open_below_file_faults:
  assumes "ramdisk nm s" and "path_fits nm (cs @ c # ds)" and "disk_view nm s cs = Some (File data)" and "data \<noteq> []"
    and "length data < 0x1000"
  shows "disk_open nm (cs @ c # ds) s = Inl BadPointer"
proof -
  note d = ramdiskD [OF assms(1)]
  obtain p where p: "walk (world s) (the_disk nm s) cs = Some p" "entry_of (world s) p = File data"
    using assms(3) by (auto simp: disk_view_def tree_map_def)
  obtain n where n: "r_nodes (world s) p = Some n" using walk_nonzero [OF d(3,4) p(1)] by auto
  from d(3) p(2) n obtain sz b where b: "n_body n = FileData sz b" "0 \<le> sz" "sz < 0x80000000" "data = bytes_at b (nat sz) (kernel_memory (world s))"
    by (rule file_body)
  have sz: "u32_of sz = length data" using b(2-4) by (simp add: size_conversions)
  obtain x where fm: "vfs_find_mount (disk_path nm (cs @ c # ds)) s = Inr (mount_called s nm, pathstr (cs @ c # ds) @ 0 # x)"
    using disk_find_mount [OF assms(1,2)] by blast
  have no_node: "r_nodes (world s) (length data) = None"
    using ramfs_wfD(11) [OF d(3), of "length data"] assms(5) by (cases "r_nodes (world s) (length data)") auto
  have names: "list_all valid_name cs" "valid_name c" using assms(2) by (simp_all add: path_fits_def)
  have "ramfs_find (pathstr (cs @ c # ds) @ 0 # x) (the_disk nm s) (world s) = Inl BadPointer"
    unfolding ramfs_find_append [OF d(3) names(1) p(1)]
    by (rule ramfs_find_below_file [OF names(2) n b(1)]) (use sz assms(4,5) no_node in simp_all)
  then show ?thesis using fm d(1,2,5) by (simp add: disk_open_def vfs_open_def deref_def tested_def ramfs_ops_sel ramfs_open_def)
qed

theorem ramfs_open_below_file_faults_witness:
  "\<exists>s s1. stage_mount boot_vfs = Inr s \<and>
     save_file (disk_touch tmp_name) (disk_open tmp_name) vfs_write vfs_close [[0x61]] [1, 2, 3] s = Inr s1 \<and>
     disk_open tmp_name [[0x61], [0x62]] s1 = Inl BadPointer"
proof -
  obtain s where s: "stage_mount boot_vfs = Inr s" "ramdisk tmp_name s" "disk_creatable tmp_name s [[0x61]]" by (rule boot_tmp)
  from ramfs_mount.save_file_ok [OF s(2) TrueI s(3), of "[1, 2, 3]"] obtain s1 where
    s1: "save_file (disk_touch tmp_name) (disk_open tmp_name) vfs_write vfs_close [[0x61]] [1, 2, 3] s = Inr s1"
      "ramdisk tmp_name s1" "disk_view tmp_name s1 [[0x61]] = Some (File [1, 2, 3])" by (auto simp: same_path_def)
  have "path_fits tmp_name ([[0x61]] @ [0x62] # [])" using cstring_tmp(3) by (simp add: path_fits_def valid_name_def)
  from ramfs_open_below_file_faults [OF s1(2) this s1(3)] s(1) s1(1) show ?thesis by auto
qed

end
