(* ===== verification/Message.thy ===== *)
theory Message
  imports Prelude
begin

text \<open>
  Messages between tasks, \<open>mckrnl/core/scheduler/message.c\<close>: a list of topics, each with a singly linked
  queue of messages.

  The entries of the queues live on the kernel heap and are linked by pointers; \<open>entries\<close> is that
  part of the heap, and following a pointer to a freed entry is \<open>BadPointer\<close>. The topics are never
  removed, so their list is a list. Allocations succeed.
\<close>

section \<open>State and operations\<close>

record message_entry =
  m_data :: "u8 list"
  m_next :: "nat option"

record message_topic =
  topic_id :: u32
  t_head :: "nat option"
  t_tail :: "nat option"

record messages =
  topics :: "message_topic list"
  entries :: "nat \<Rightarrow> message_entry option"
  next_entry :: nat

definition find_topic :: "u32 \<Rightarrow> messages \<Rightarrow> nat option" where
  "find_topic tid s = find (\<lambda>i. topic_id (topics s ! i) = tid) [0..<length (topics s)]"

definition find_or_create_topic :: "u32 \<Rightarrow> messages \<Rightarrow> nat \<times> messages" where
  "find_or_create_topic tid s =
     (case find_topic tid s of
        Some i \<Rightarrow> (i, s)
      | None \<Rightarrow> (0, s\<lparr>topics := \<lparr>topic_id = tid, t_head = None, t_tail = None\<rparr> # topics s\<rparr>))"

definition message_send :: "u32 \<Rightarrow> u8 list \<Rightarrow> messages \<Rightarrow> messages kres" where
  "message_send tid data s =
     (let (i, s1) = find_or_create_topic tid s;
          p = next_entry s1; t = topics s1 ! i;
          h = (entries s1)(p \<mapsto> \<lparr>m_data = data, m_next = None\<rparr>)
      in kbind (case t_tail t of
                  Some q \<Rightarrow> (case h q of
                      Some e \<Rightarrow> Inr (h(q \<mapsto> e\<lparr>m_next := Some p\<rparr>), t)
                    | None \<Rightarrow> Inl BadPointer)
                | None \<Rightarrow> Inr (h, t\<lparr>t_head := Some p\<rparr>)) (\<lambda>(h, t).
         Inr (s1\<lparr>topics := (topics s1)[i := t\<lparr>t_tail := Some p\<rparr>], entries := h, next_entry := p + 1\<rparr>)))"

text \<open>What is copied to the buffer; its length is what \<open>message_recv\<close> returns.\<close>

definition message_recv :: "u32 \<Rightarrow> nat \<Rightarrow> messages \<Rightarrow> (u8 list \<times> messages) kres" where
  "message_recv tid buffer_size s =
     (case find_topic tid s of
        None \<Rightarrow> Inr ([], s)
      | Some i \<Rightarrow>
          let t = topics s ! i
          in case t_head t of
               None \<Rightarrow> Inr ([], s)
             | Some p \<Rightarrow>
                 (case entries s p of
                    None \<Rightarrow> Inl BadPointer
                  | Some e \<Rightarrow>
                      let copy_size = (if length (m_data e) < buffer_size then length (m_data e) else buffer_size);
                          t1 = t\<lparr>t_head := m_next e\<rparr>;
                          t2 = (if m_next e = None then t1\<lparr>t_tail := None\<rparr> else t1)
                      in Inr (take copy_size (m_data e),
                              s\<lparr>topics := (topics s)[i := t2], entries := (entries s)(p := None)\<rparr>)))"

section \<open>The linked queues\<close>

fun linked :: "(nat \<Rightarrow> message_entry option) \<Rightarrow> nat option \<Rightarrow> nat list \<Rightarrow> bool" where
  "linked h x [] = (x = None)"
| "linked h x (p # ps) = (x = Some p \<and> (\<exists>e. h p = Some e \<and> linked h (m_next e) ps))"

definition topic_ok :: "(nat \<Rightarrow> message_entry option) \<Rightarrow> message_topic \<Rightarrow> nat list \<Rightarrow> bool" where
  "topic_ok h t ps \<longleftrightarrow> linked h (t_head t) ps \<and> t_tail t = (if ps = [] then None else Some (last ps))"

definition contents :: "(nat \<Rightarrow> message_entry option) \<Rightarrow> nat list \<Rightarrow> u8 list list" where
  "contents h ps = map (\<lambda>p. m_data (the (h p))) ps"

text \<open>
  The queues \<open>Q\<close> by topic are what the state holds: every topic has a linked list of its own with
  the messages of its queue, and topics that do not exist have none.
\<close>

definition holds :: "messages \<Rightarrow> nat list list \<Rightarrow> (u32 \<Rightarrow> u8 list list) \<Rightarrow> bool" where
  "holds s pss Q \<longleftrightarrow> length pss = length (topics s) \<and> distinct (map topic_id (topics s)) \<and>
     (\<forall>i<length pss. distinct (pss ! i) \<and> (\<forall>p\<in>set (pss ! i). p < next_entry s)) \<and>
     (\<forall>i<length pss. \<forall>j<length pss. i \<noteq> j \<longrightarrow> set (pss ! i) \<inter> set (pss ! j) = {}) \<and>
     (\<forall>i<length pss. topic_ok (entries s) (topics s ! i) (pss ! i) \<and> Q (topic_id (topics s ! i)) = contents (entries s) (pss ! i)) \<and>
     (\<forall>tid. tid \<notin> topic_id ` set (topics s) \<longrightarrow> Q tid = [])"

definition implements :: "messages \<Rightarrow> (u32 \<Rightarrow> u8 list list) \<Rightarrow> bool" where
  "implements s Q \<longleftrightarrow> (\<exists>pss. holds s pss Q)"

lemma linked_cong: "(\<And>p. p \<in> set ps \<Longrightarrow> h' p = h p) \<Longrightarrow> linked h' x ps = linked h x ps"
proof (induction ps arbitrary: x)
  case (Cons q ps)
  have "h' q = h q" "\<And>x. linked h' x ps = linked h x ps" using Cons.prems Cons.IH by simp_all
  then show ?case by simp
qed simp

lemma contents_cong: "(\<And>p. p \<in> set ps \<Longrightarrow> h' p = h p) \<Longrightarrow> contents h' ps = contents h ps"
  by (simp add: contents_def)

lemma topic_ok_cong: "(\<And>p. p \<in> set ps \<Longrightarrow> h' p = h p) \<Longrightarrow> topic_ok h' t ps = topic_ok h t ps"
  unfolding topic_ok_def using linked_cong [of ps h' h] by blast

lemma linked_snoc:
  assumes "linked h x ps" and "ps \<noteq> []" and "distinct ps" and "p \<notin> set ps" and "h (last ps) = Some e"
  shows "linked (h(p \<mapsto> \<lparr>m_data = d, m_next = None\<rparr>, last ps \<mapsto> e\<lparr>m_next := Some p\<rparr>)) x (ps @ [p])"
  using assms
proof (induction ps arbitrary: x)
  case (Cons q ps)
  show ?case
  proof (cases "ps = []")
    case True
    with Cons.prems show ?thesis by auto
  next
    case False
    from Cons.prems(1) obtain e' where e': "h q = Some e'" "linked h (m_next e') ps" "x = Some q" by auto
    have "q \<noteq> last ps" "q \<noteq> p" using Cons.prems(3,4) False by auto
    then show ?thesis using Cons.IH [OF e'(2) False] Cons.prems e' False by auto
  qed
qed simp

lemma contents_snoc:
  assumes "distinct ps" and "ps \<noteq> []" and "p \<notin> set ps" and "h (last ps) = Some e"
  shows "contents (h(p \<mapsto> \<lparr>m_data = d, m_next = None\<rparr>, last ps \<mapsto> e\<lparr>m_next := Some p\<rparr>)) (ps @ [p]) = contents h ps @ [d]"
proof -
  have "last ps \<noteq> p" using assms(2,3) by auto
  then show ?thesis using assms by (auto simp: contents_def)
qed

lemma linked_last: "linked h x ps \<Longrightarrow> ps \<noteq> [] \<Longrightarrow> \<exists>e. h (last ps) = Some e"
  by (induction ps arbitrary: x) auto

lemma holdsD:
  assumes "holds s pss Q"
  shows "length pss = length (topics s)" and "distinct (map topic_id (topics s))"
    and "i < length pss \<Longrightarrow> distinct (pss ! i)" and "i < length pss \<Longrightarrow> p \<in> set (pss ! i) \<Longrightarrow> p < next_entry s"
    and "i < length pss \<Longrightarrow> j < length pss \<Longrightarrow> i \<noteq> j \<Longrightarrow> set (pss ! i) \<inter> set (pss ! j) = {}"
    and "i < length pss \<Longrightarrow> topic_ok (entries s) (topics s ! i) (pss ! i)"
    and "i < length pss \<Longrightarrow> Q (topic_id (topics s ! i)) = contents (entries s) (pss ! i)"
    and "tid \<notin> topic_id ` set (topics s) \<Longrightarrow> Q tid = []"
  using assms unfolding holds_def by blast+

text \<open>One topic gets a new list; the entries of the others stay.\<close>

lemma holds_update:
  assumes old: "holds s pss Q" and i: "i < length pss"
    and t: "topic_id t = topic_id (topics s ! i)" "topic_ok h t ps" "distinct ps"
    and ps: "\<And>p. p \<in> set ps \<Longrightarrow> p \<in> set (pss ! i) \<or> next_entry s \<le> p" "\<And>p. p \<in> set ps \<Longrightarrow> p < n"
    and n: "next_entry s \<le> n"
    and h: "\<And>j p. j < length pss \<Longrightarrow> j \<noteq> i \<Longrightarrow> p \<in> set (pss ! j) \<Longrightarrow> h p = entries s p"
  shows "holds (s\<lparr>topics := (topics s)[i := t], entries := h, next_entry := n\<rparr>) (pss[i := ps])
    (Q(topic_id t := contents h ps))"
proof -
  note D = holdsD [OF old]
  have len: "i < length (topics s)" using i D(1) by simp
  have ids: "map topic_id ((topics s)[i := t]) = map topic_id (topics s)"
    using t(1) len by (metis list_update_id map_update nth_map)
  have other: "topic_id (topics s ! j) \<noteq> topic_id t" if "j < length pss" "j \<noteq> i" for j
    using D(1,2) that i t(1) nth_eq_iff_index_eq [of "map topic_id (topics s)" i j] by auto
  have disj: "set ps \<inter> set (pss ! j) = {}" if "j < length pss" "j \<noteq> i" for j
    using ps(1) D(4) [OF that(1)] D(5) [OF i that(1)] that(2) by fastforce
  show ?thesis
    unfolding holds_def
  proof (intro conjI allI impI)
    fix j assume "j < length (pss[i := ps])"
    then have j: "j < length pss" by simp
    show "distinct (pss[i := ps] ! j)" using D(3) [OF j] t(3) i by (cases "j = i") auto
    show "\<forall>p\<in>set (pss[i := ps] ! j). p < next_entry (s\<lparr>topics := (topics s)[i := t], entries := h, next_entry := n\<rparr>)"
      using D(4) [OF j] ps(2) n i by (cases "j = i") fastforce+
    show "topic_ok (entries (s\<lparr>topics := (topics s)[i := t], entries := h, next_entry := n\<rparr>))
        (topics (s\<lparr>topics := (topics s)[i := t], entries := h, next_entry := n\<rparr>) ! j) (pss[i := ps] ! j)"
      using D(6) [OF j] t(2) i len topic_ok_cong [of "pss ! j" h "entries s" "topics s ! j"] h [OF j]
      by (cases "j = i") auto
    show "(Q(topic_id t := contents h ps)) (topic_id (topics (s\<lparr>topics := (topics s)[i := t], entries := h, next_entry := n\<rparr>) ! j)) =
        contents (entries (s\<lparr>topics := (topics s)[i := t], entries := h, next_entry := n\<rparr>)) (pss[i := ps] ! j)"
      using D(7) [OF j] i len other [OF j] contents_cong [of "pss ! j" h "entries s"] h [OF j] by (cases "j = i") auto
    fix k assume "k < length (pss[i := ps])" "j \<noteq> k"
    then show "set (pss[i := ps] ! j) \<inter> set (pss[i := ps] ! k) = {}"
      using D(5) [OF j, of k] disj [OF j] disj [of k] i by (cases "j = i"; cases "k = i") auto
  next
    fix tid assume "tid \<notin> topic_id ` set (topics (s\<lparr>topics := (topics s)[i := t], entries := h, next_entry := n\<rparr>))"
    then have "tid \<notin> set (map topic_id (topics s))" unfolding ids [symmetric] by simp
    moreover from this have "tid \<noteq> topic_id t" using t(1) len by auto
    ultimately show "(Q(topic_id t := contents h ps)) tid = []" using D(8) [of tid] by simp
  qed (use D(1,2) ids in simp_all)
qed

lemma find_topic_Some:
  assumes "find_topic tid s = Some i"
  shows "i < length (topics s)" and "topic_id (topics s ! i) = tid"
  using assms by (auto simp: find_topic_def find_Some_iff)

lemma find_topic_None: "find_topic tid s = None \<Longrightarrow> tid \<notin> topic_id ` set (topics s)"
  by (auto simp: find_topic_def find_None_iff in_set_conv_nth)

lemma holds_new_topic:
  assumes old: "holds s pss Q" and "tid \<notin> topic_id ` set (topics s)"
  shows "holds (s\<lparr>topics := \<lparr>topic_id = tid, t_head = None, t_tail = None\<rparr> # topics s\<rparr>) ([] # pss) Q"
proof -
  note D = holdsD [OF old]
  show ?thesis
    unfolding holds_def
  proof (intro conjI allI impI)
    fix i j assume "i < length ([] # pss)" "j < length ([] # pss)" "i \<noteq> j"
    then show "set (([] # pss) ! i) \<inter> set (([] # pss) ! j) = {}" using D(5) by (cases i; cases j) auto
  next
    fix i assume i: "i < length ([] # pss)"
    show "distinct (([] # pss) ! i)" using i D(3) by (cases i) auto
    show "\<forall>p\<in>set (([] # pss) ! i). p < next_entry (s\<lparr>topics := \<lparr>topic_id = tid, t_head = None, t_tail = None\<rparr> # topics s\<rparr>)"
      using i D(4) by (cases i) auto
    show "topic_ok (entries (s\<lparr>topics := \<lparr>topic_id = tid, t_head = None, t_tail = None\<rparr> # topics s\<rparr>))
        (topics (s\<lparr>topics := \<lparr>topic_id = tid, t_head = None, t_tail = None\<rparr> # topics s\<rparr>) ! i) (([] # pss) ! i)"
      using i D(6) by (cases i) (auto simp: topic_ok_def)
    show "Q (topic_id (topics (s\<lparr>topics := \<lparr>topic_id = tid, t_head = None, t_tail = None\<rparr> # topics s\<rparr>) ! i)) =
        contents (entries (s\<lparr>topics := \<lparr>topic_id = tid, t_head = None, t_tail = None\<rparr> # topics s\<rparr>)) (([] # pss) ! i)"
      using i D(7) D(8) [OF assms(2)] by (cases i) (auto simp: contents_def)
  qed (use D(1,2,8) assms(2) in auto)
qed

lemma find_or_create_holds:
  assumes "holds s pss Q" and "find_or_create_topic tid s = (i, s1)"
  obtains pss1 where "holds s1 pss1 Q" and "i < length pss1" and "topic_id (topics s1 ! i) = tid"
proof (cases "find_topic tid s")
  case None
  with assms(2) have "i = 0" "s1 = s\<lparr>topics := \<lparr>topic_id = tid, t_head = None, t_tail = None\<rparr> # topics s\<rparr>"
    by (simp_all add: find_or_create_topic_def)
  with that [of "[] # pss"] holds_new_topic [OF assms(1) find_topic_None [OF None]] show thesis by simp
next
  case (Some j)
  with assms that [of pss] find_topic_Some [OF Some] holdsD(1) [OF assms(1)] show thesis
    by (simp add: find_or_create_topic_def)
qed

lemma message_send_implements:
  assumes "implements s Q"
  shows "\<exists>s'. message_send tid d s = Inr s' \<and> implements s' (Q(tid := Q tid @ [d]))"
proof -
  obtain i s1 where f: "find_or_create_topic tid s = (i, s1)" by force
  obtain pss where "holds s pss Q" using assms by (auto simp: implements_def)
  then obtain pss1 where H: "holds s1 pss1 Q" and i: "i < length pss1" and tid: "topic_id (topics s1 ! i) = tid"
    using f by (rule find_or_create_holds)
  note D = holdsD [OF H]
  define p where "p = next_entry s1"
  define ps where "ps = pss1 ! i"
  define t where "t = topics s1 ! i"
  have ok: "topic_ok (entries s1) t ps" and dist: "distinct ps" and fresh: "p \<notin> set ps"
    using D(6) [OF i] D(3) [OF i] D(4) [OF i, of p] by (auto simp: t_def ps_def p_def)
  have others: "p \<notin> set (pss1 ! j)" if "j < length pss1" for j using D(4) [OF that, of p] by (auto simp: p_def)
  have Qt: "Q tid = contents (entries s1) ps" using D(7) [OF i] tid by (simp add: ps_def)
  let ?e = "\<lparr>m_data = d, m_next = None\<rparr>"
  have "\<exists>h t'. message_send tid d s = Inr (s1\<lparr>topics := (topics s1)[i := t'], entries := h, next_entry := p + 1\<rparr>) \<and>
      topic_id t' = tid \<and> topic_ok h t' (ps @ [p]) \<and> contents h (ps @ [p]) = Q tid @ [d] \<and>
      (\<forall>q. q \<noteq> p \<longrightarrow> q \<notin> set ps \<longrightarrow> h q = entries s1 q)"
  proof (cases "ps = []")
    case True
    let ?h = "(entries s1)(p \<mapsto> ?e)"
    have "message_send tid d s = Inr (s1\<lparr>topics := (topics s1)[i := t\<lparr>t_head := Some p, t_tail := Some p\<rparr>],
        entries := ?h, next_entry := p + 1\<rparr>)"
      using True ok by (simp add: message_send_def f Let_def t_def [symmetric] p_def topic_ok_def)
    then show ?thesis
      using True tid Qt by (intro exI [of _ ?h] exI) (auto simp: topic_ok_def contents_def t_def)
  next
    case False
    obtain e where e: "entries s1 (last ps) = Some e" using ok linked_last [OF _ False] by (auto simp: topic_ok_def)
    have lp: "last ps \<noteq> p" using fresh False by auto
    let ?h = "(entries s1)(p \<mapsto> ?e, last ps \<mapsto> e\<lparr>m_next := Some p\<rparr>)"
    have "message_send tid d s = Inr (s1\<lparr>topics := (topics s1)[i := t\<lparr>t_tail := Some p\<rparr>], entries := ?h, next_entry := p + 1\<rparr>)"
      using False ok e lp by (simp add: message_send_def f Let_def t_def [symmetric] p_def [symmetric] topic_ok_def)
    moreover have "topic_ok ?h (t\<lparr>t_tail := Some p\<rparr>) (ps @ [p])"
      using linked_snoc [of "entries s1" "t_head t" ps p e d] False dist fresh e ok by (simp add: topic_ok_def)
    ultimately show ?thesis
      using tid Qt contents_snoc [of ps p "entries s1" e d] dist False fresh e
      by (intro exI [of _ ?h] exI) (auto simp: t_def)
  qed
  then obtain h t' where R: "message_send tid d s = Inr (s1\<lparr>topics := (topics s1)[i := t'], entries := h, next_entry := p + 1\<rparr>)"
      "topic_id t' = tid" "topic_ok h t' (ps @ [p])" "contents h (ps @ [p]) = Q tid @ [d]"
      "\<And>q. q \<noteq> p \<Longrightarrow> q \<notin> set ps \<Longrightarrow> h q = entries s1 q"
    by auto
  have "holds (s1\<lparr>topics := (topics s1)[i := t'], entries := h, next_entry := p + 1\<rparr>) (pss1[i := ps @ [p]])
      (Q(topic_id t' := contents h (ps @ [p])))"
  proof (rule holds_update [OF H i])
    show "h q = entries s1 q" if "j < length pss1" "j \<noteq> i" "q \<in> set (pss1 ! j)" for j q
      using R(5) [of q] that others [OF that(1)] D(5) [OF i that(1)] by (auto simp: ps_def)
  qed (use R(2,3) tid dist fresh D(4) [OF i] in \<open>auto simp: ps_def p_def less_Suc_eq\<close>)
  then show ?thesis using R by (auto simp: implements_def)
qed

lemma message_recv_implements:
  assumes "implements s Q"
  shows "\<exists>s'. message_recv tid n s = Inr (case Q tid of [] \<Rightarrow> [] | d # _ \<Rightarrow> take n d, s') \<and> implements s' (Q(tid := tl (Q tid)))"
proof -
  obtain pss where H: "holds s pss Q" using assms by (auto simp: implements_def)
  note D = holdsD [OF H]
  show ?thesis
  proof (cases "find_topic tid s")
    case None
    then have "Q tid = []" using D(8) find_topic_None by blast
    moreover from this have "Q(tid := tl (Q tid)) = Q" by (simp add: fun_upd_idem)
    ultimately show ?thesis using None assms by (simp add: message_recv_def)
  next
    case (Some i)
    note i = find_topic_Some [OF Some]
    have il: "i < length pss" using i D(1) by simp
    define ps where "ps = pss ! i"
    define t where "t = topics s ! i"
    have ok: "topic_ok (entries s) t ps" and Qt: "Q tid = contents (entries s) ps" and dist: "distinct ps"
      using D(3,6,7) [OF il] i by (simp_all add: ps_def t_def)
    show ?thesis
    proof (cases ps)
      case Nil
      then have "Q tid = []" "t_head t = None" using ok Qt by (simp_all add: topic_ok_def contents_def)
      moreover from this(1) have "Q(tid := tl (Q tid)) = Q" by (simp add: fun_upd_idem)
      ultimately show ?thesis using Some assms by (simp add: message_recv_def t_def)
    next
      case (Cons p qs)
      then obtain e where e: "t_head t = Some p" "entries s p = Some e" "linked (entries s) (m_next e) qs"
        using ok by (auto simp: topic_ok_def)
      define h where "h = (entries s)(p := None)"
      define t2 where "t2 = (if m_next e = None then t\<lparr>t_head := m_next e, t_tail := None\<rparr> else t\<lparr>t_head := m_next e\<rparr>)"
      have run: "message_recv tid n s = Inr (take n (m_data e), s\<lparr>topics := (topics s)[i := t2], entries := h\<rparr>)"
        using Some e by (auto simp: message_recv_def Let_def t_def [symmetric] h_def t2_def)
      have pq: "p \<notin> set qs" using dist Cons by simp
      have hq: "h q = entries s q" if "q \<in> set qs" for q using that pq by (auto simp: h_def)
      have same: "contents h qs = contents (entries s) qs" "linked h (m_next e) qs"
        using e(3) linked_cong [of qs h "entries s", OF hq] contents_cong [of qs h "entries s", OF hq] by simp_all
      have "m_next e = None \<longleftrightarrow> qs = []" using e(3) by (cases qs) auto
      then have ok2: "topic_ok h t2 qs" using ok same(2) Cons by (auto simp: topic_ok_def t2_def)
      have "holds (s\<lparr>topics := (topics s)[i := t2], entries := h, next_entry := next_entry s\<rparr>) (pss[i := qs])
          (Q(topic_id t2 := contents h qs))"
      proof (rule holds_update [OF H il])
        show "h q = entries s q" if "j < length pss" "j \<noteq> i" "q \<in> set (pss ! j)" for j q
          using that D(5) [OF il that(1)] Cons by (auto simp: h_def ps_def)
      qed (use ok2 dist Cons D(4) [OF il] in \<open>auto simp: ps_def t2_def t_def\<close>)
      moreover have "topic_id t2 = tid" using i by (simp add: t2_def t_def)
      moreover have tlq: "contents h qs = tl (Q tid)" unfolding same(1) Qt Cons by (simp add: contents_def)
      ultimately have "implements (s\<lparr>topics := (topics s)[i := t2], entries := h\<rparr>) (Q(tid := tl (Q tid)))"
        using tlq by (auto simp: implements_def)
      then show ?thesis using run Qt Cons e(2) by (simp add: contents_def)
    qed
  qed
qed

section \<open>Clients\<close>

primrec send_all :: "(u32 \<Rightarrow> u8 list \<Rightarrow> 's \<Rightarrow> 's kres) \<Rightarrow> (u32 \<times> u8 list) list \<Rightarrow> 's \<Rightarrow> 's kres" where
  "send_all send [] s = Inr s"
| "send_all send (m # ms) s = kbind (send (fst m) (snd m) s) (send_all send ms)"

primrec recv_all :: "(u32 \<Rightarrow> nat \<Rightarrow> 's \<Rightarrow> (u8 list \<times> 's) kres) \<Rightarrow> u32 \<Rightarrow> nat \<Rightarrow> nat \<Rightarrow> 's \<Rightarrow> (u8 list list \<times> 's) kres" where
  "recv_all recv t n 0 s = Inr ([], s)"
| "recv_all recv t n (Suc k) s =
     kbind (recv t n s) (\<lambda>(d, s1). kbind (recv_all recv t n k s1) (\<lambda>(ds, s2). Inr (d # ds, s2)))"

text \<open>What a client of the messages relies on: one queue per topic.\<close>

locale message_bus =
  fixes abstracts :: "'s \<Rightarrow> (u32 \<Rightarrow> u8 list list) \<Rightarrow> bool"
    and send :: "u32 \<Rightarrow> u8 list \<Rightarrow> 's \<Rightarrow> 's kres"
    and recv :: "u32 \<Rightarrow> nat \<Rightarrow> 's \<Rightarrow> (u8 list \<times> 's) kres"
  assumes send_law: "abstracts s Q \<Longrightarrow> \<exists>s'. send t d s = Inr s' \<and> abstracts s' (Q(t := Q t @ [d]))"
    and recv_law: "abstracts s Q \<Longrightarrow> \<exists>s'. recv t n s = Inr (case Q t of [] \<Rightarrow> [] | d # _ \<Rightarrow> take n d, s') \<and>
      abstracts s' (Q(t := tl (Q t)))"
begin

lemma send_all_queues:
  "abstracts s Q \<Longrightarrow> \<exists>s'. send_all send ms s = Inr s' \<and> abstracts s' (\<lambda>t. Q t @ map snd (filter (\<lambda>m. fst m = t) ms))"
proof (induction ms arbitrary: s Q)
  case (Cons m ms)
  obtain s1 where s1: "send (fst m) (snd m) s = Inr s1" "abstracts s1 (Q(fst m := Q (fst m) @ [snd m]))"
    using send_law [OF Cons.prems] by blast
  from Cons.IH [OF s1(2)] obtain s' where s': "send_all send ms s1 = Inr s'"
      "abstracts s' (\<lambda>t. (Q(fst m := Q (fst m) @ [snd m])) t @ map snd (filter (\<lambda>m. fst m = t) ms))" by blast
  have "(\<lambda>t. (Q(fst m := Q (fst m) @ [snd m])) t @ map snd (filter (\<lambda>m. fst m = t) ms)) =
      (\<lambda>t. Q t @ map snd (filter (\<lambda>m. fst m = t) (m # ms)))" by (rule ext) simp
  with s1(1) s' show ?case by simp
qed simp

lemma recv_all_in_order:
  "abstracts s Q \<Longrightarrow> length (Q t) = k \<Longrightarrow>
     \<exists>s'. recv_all recv t n k s = Inr (map (take n) (Q t), s') \<and> abstracts s' (Q(t := []))"
proof (induction k arbitrary: s Q)
  case 0
  then have "Q(t := []) = Q" by (simp add: fun_upd_idem)
  with 0 show ?case by simp
next
  case (Suc k)
  then obtain d ds where q: "Q t = d # ds" "length ds = k" by (cases "Q t") auto
  obtain s1 where s1: "recv t n s = Inr (take n d, s1)" "abstracts s1 (Q(t := ds))"
    using recv_law [OF Suc.prems(1), of t n] q(1) by auto
  have "length ((Q(t := ds)) t) = k" using q(2) by simp
  from Suc.IH [OF s1(2) this] obtain s' where s': "recv_all recv t n k s1 = Inr (map (take n) ds, s')" "abstracts s' (Q(t := []))"
    unfolding fun_upd_same fun_upd_upd by blast
  have "recv_all recv t n (Suc k) s = Inr (map (take n) (Q t), s')" using s1(1) s'(1) q(1) by simp
  with s'(2) show ?case by blast
qed

lemma in_order:
  assumes "abstracts s (\<lambda>_. [])" and "mine = map snd (filter (\<lambda>m. fst m = t) ms)"
  shows "\<exists>s1 s2 s3. send_all send ms s = Inr s1 \<and> recv_all recv t n (length mine) s1 = Inr (map (take n) mine, s2) \<and>
    recv t n s2 = Inr ([], s3)"
proof -
  obtain s1 where s1: "send_all send ms s = Inr s1" "abstracts s1 (\<lambda>t. map snd (filter (\<lambda>m. fst m = t) ms))"
    using send_all_queues [OF assms(1)] by fastforce
  obtain s2 where s2: "recv_all recv t n (length mine) s1 = Inr (map (take n) mine, s2)"
      "abstracts s2 ((\<lambda>t. map snd (filter (\<lambda>m. fst m = t) ms))(t := []))"
    using recv_all_in_order [OF s1(2), of t "length mine" n] assms(2) by auto
  obtain s3 where "recv t n s2 = Inr ([], s3)" using recv_law [OF s2(2), of t n] by auto
  with s1(1) s2(1) show ?thesis by blast
qed

end

interpretation kmessages: message_bus implements message_send message_recv
  by unfold_locales (rule message_send_implements message_recv_implements; assumption)+

definition no_messages :: messages where
  "no_messages = \<lparr>topics = [], entries = (\<lambda>_. None), next_entry = 0\<rparr>"

text \<open>
  C30. Messages arrive in order. However messages to several topics are interleaved, sending never fails, and
  receiving from a topic returns exactly the messages sent to it in the order they were sent,
  each cut to the size of the buffer; after that the topic is empty.
\<close>

theorem messages_in_order:
  "\<exists>s1 s2 s3. send_all message_send ms no_messages = Inr s1 \<and>
     recv_all message_recv t n (length (filter (\<lambda>m. fst m = t) ms)) s1 =
       Inr (map (\<lambda>m. take n (snd m)) (filter (\<lambda>m. fst m = t) ms), s2) \<and>
     message_recv t n s2 = Inr ([], s3)"
proof -
  have "implements no_messages (\<lambda>_. [])" by (auto simp: implements_def holds_def no_messages_def)
  from kmessages.in_order [OF this refl, of ms t n] show ?thesis by (simp add: comp_def)
qed

end
