(* ===== verification/Syscalls.thy ===== *)
theory Syscalls
  imports Scheduler_Tasks Ramfs_Listing Message Bytes
begin

text \<open>
  System calls, \<open>mckrnl/core/syscall/\<close>, with the file descriptors of \<open>fs/fd.c\<close> and the pipes of
  \<open>scheduler/pipe.c\<close>: what a task asks the kernel to do with files, messages, memory and other tasks.

  The state joins the task table (with the memory manager), the virtual file system and the messages.
  A call gets the address of the registers the task was interrupted with. What it reads
  and writes in the memory of the task goes through the page tables of the active context, so a pointer
  to a page that is not mapped ends in the page fault. A file pointer as a resource is the word of its address.
  \<open>console\<close> collects what is printed, with the terminal. Handlers that only talk to
  drivers (video, keyboard, clock, sound, mouse, power) and the loader are the parameter \<open>drivers\<close> of the dispatcher.
\<close>

section \<open>State\<close>

record 'a kernel = sched +
  fsys :: "'a fs_scheme vfs"
  fd_table :: "nat list"
  inbox :: messages
  console :: "(int \<times> u8) list"
  dealloc_addr :: u32
  on_boot_cpu :: bool
  shown_term :: int
  clock_ms :: int

definition regs_of :: "u32 \<Rightarrow> ('a, 'z) kernel_scheme \<Rightarrow> cpu_registers" where
  "regs_of regs s = reg_frames s regs"

definition put_regs :: "u32 \<Rightarrow> (cpu_registers \<Rightarrow> cpu_registers) \<Rightarrow> ('a, 'z) kernel_scheme \<Rightarrow> ('a, 'z) kernel_scheme" where
  "put_regs regs f s = s\<lparr>reg_frames := (reg_frames s)(regs := f (reg_frames s regs))\<rparr>"

text \<open>The memory of the running task. A path is read up to its end, of which at most 1024 bytes are looked at.\<close>

definition user_read :: "u32 \<Rightarrow> nat \<Rightarrow> ('a, 'z) kernel_scheme \<Rightarrow> u8 list kres" where
  "user_read p n s = mmu_read (vm s) p n"

definition user_write :: "u32 \<Rightarrow> u8 list \<Rightarrow> ('a, 'z) kernel_scheme \<Rightarrow> ('a, 'z) kernel_scheme kres" where
  "user_write p bs s = kbind (mmu_write (vm s) p bs) (\<lambda>v. Inr (s\<lparr>vm := v\<rparr>))"

fun string_at :: "vmm \<Rightarrow> u32 \<Rightarrow> nat \<Rightarrow> u8 list kres" where
  "string_at v p 0 = Inr []"
| "string_at v p (Suc n) =
     kbind (mmu v p) (\<lambda>a. if ram v a = 0 then Inr [0] else kbind (string_at v (p + 1) n) (\<lambda>bs. Inr (ram v a # bs)))"

definition user_string :: "u32 \<Rightarrow> ('a, 'z) kernel_scheme \<Rightarrow> u8 list kres" where
  "user_string p s = string_at (vm s) p 1024"

section \<open>File descriptors\<close>

definition FD_OFFSET :: int where "FD_OFFSET = 5"

definition file_to_fd :: "nat \<Rightarrow> ('a, 'z) kernel_scheme \<Rightarrow> int \<times> ('a, 'z) kernel_scheme" where
  "file_to_fd f s =
     (case find_index (\<lambda>x. x = 0) (fd_table s) of
        Some i \<Rightarrow> (int i + FD_OFFSET, s\<lparr>fd_table := (fd_table s)[i := f]\<rparr>)
      | None \<Rightarrow> (int (length (fd_table s)) + FD_OFFSET, s\<lparr>fd_table := fd_table s @ [f]\<rparr>))"

text \<open>The code does not compare the descriptor with the length of the table.\<close>

definition fd_to_file :: "int \<Rightarrow> ('a, 'z) kernel_scheme \<Rightarrow> nat kres" where
  "fd_to_file fd s =
     (if 0 \<le> fd - FD_OFFSET \<and> nat (fd - FD_OFFSET) < length (fd_table s) then Inr (fd_table s ! nat (fd - FD_OFFSET))
      else Inl OutOfBounds)"

definition fd_free :: "int \<Rightarrow> ('a, 'z) kernel_scheme \<Rightarrow> ('a, 'z) kernel_scheme kres" where
  "fd_free fd s =
     (if 0 \<le> fd - FD_OFFSET \<and> nat (fd - FD_OFFSET) < length (fd_table s) then
        Inr (s\<lparr>fd_table := (fd_table s)[nat (fd - FD_OFFSET) := 0]\<rparr>)
      else Inl OutOfBounds)"

section \<open>Files\<close>

definition on_files :: "'a fs_scheme vfs kres \<Rightarrow> ('a, 'z) kernel_scheme \<Rightarrow> ('a, 'z) kernel_scheme kres" where
  "on_files r s = kbind r (\<lambda>v. Inr (s\<lparr>fsys := v\<rparr>))"

definition sys_open_dealloc :: "u32 \<Rightarrow> ('a, 'z) kernel_scheme \<Rightarrow> ('a, 'z) kernel_scheme kres" where
  "sys_open_dealloc r s = on_files (vfs_close (unat r) (fsys s)) s"

text \<open>
  The call of a destructor. \<open>sys_open\<close> registers \<open>sys_open_dealloc\<close>, the only one in the default configuration. With
  \<open>NETWORK_STACK\<close> set, \<open>sys_sock_connect\<close>, \<open>sys_sock_accept\<close> and \<open>sys_sock_listen\<close> register \<open>sys_connect_dealloc\<close>, and with
  \<open>THREADS\<close> set, \<open>sys_thread\<close> registers \<open>sys_thread_kill\<close>. Like the handlers that register them these are a parameter:
  \<open>others\<close> is the effect of the function at any other address.
\<close>

definition run_dealloc :: "(u32 \<Rightarrow> u32 \<Rightarrow> ('a, 'z) kernel_scheme \<Rightarrow> ('a, 'z) kernel_scheme kres) \<Rightarrow>
    u32 \<Rightarrow> u32 \<Rightarrow> ('a, 'z) kernel_scheme \<Rightarrow> ('a, 'z) kernel_scheme kres" where
  "run_dealloc others f r s = (if f = dealloc_addr s then sys_open_dealloc r s else others f r s)"

definition sys_open :: "u32 \<Rightarrow> ('a, 'z) kernel_scheme \<Rightarrow> ('a, 'z) kernel_scheme kres" where
  "sys_open regs s =
     (let path = ebx (regs_of regs s); flags = sint (ecx (regs_of regs s))
      in if path = 0 then Inl (Abort ''sys_open: path is NULL'')
         else
           kbind (user_string path s) (\<lambda>str.
           kbind (vfs_open str flags (fsys s)) (\<lambda>(f, v).
           let s1 = s\<lparr>fsys := v\<rparr>
           in if f = 0 then Inr (put_regs regs (\<lambda>r. r\<lparr>edx := -1\<rparr>) s1)
              else
                let (fd, s2) = file_to_fd f s1
                in if fd = -1 then
                     kbind (on_files (vfs_close f (fsys s2)) s2) (\<lambda>s3. Inr (put_regs regs (\<lambda>r. r\<lparr>edx := -1\<rparr>) s3))
                   else
                     kbind (resource_register_self \<lparr>res_dealloc = dealloc_addr s2, res_resource = of_nat f\<rparr> s2) (\<lambda>s3.
                     Inr (put_regs regs (\<lambda>r. r\<lparr>edx := of_int fd\<rparr>) s3)))))"

text \<open>The file of the descriptor in a register, for the calls that abort when there is none.\<close>

definition file_arg :: "string \<Rightarrow> u32 \<Rightarrow> ('a, 'z) kernel_scheme \<Rightarrow> nat kres" where
  "file_arg msg fd s = kbind (fd_to_file (sint fd) s) (\<lambda>f. if f = 0 then Inl (Abort msg) else Inr f)"

definition sys_close :: "u32 \<Rightarrow> ('a, 'z) kernel_scheme \<Rightarrow> ('a, 'z) kernel_scheme kres" where
  "sys_close regs s =
     (let fd = ebx (regs_of regs s)
      in kbind (file_arg ''sys_close: invalid file descriptor'' fd s) (\<lambda>f.
         kbind (on_files (vfs_close f (fsys s)) s) (\<lambda>s1.
         kbind (resource_unregister_self (of_nat f) s1) (fd_free (sint fd)))))"

definition sys_read :: "u32 \<Rightarrow> ('a, 'z) kernel_scheme \<Rightarrow> ('a, 'z) kernel_scheme kres" where
  "sys_read regs s =
     (let r = regs_of regs s; fd = ebx r; buffer = ecx r; count = unat (edx r); offset = unat (esi r)
      in if buffer = 0 then Inl (Abort ''sys_read: buffer is NULL'')
         else if fd = 0 then Inl (Abort ''Thats not how to use stdin on this kernel!'')
         else if fd = 1 \<or> fd = 2 then Inr s
         else
           kbind (file_arg ''sys_read: invalid file descriptor'' fd s) (\<lambda>f.
           kbind (vfs_read f count offset (fsys s)) (\<lambda>(bs, v).
           user_write buffer bs (s\<lparr>fsys := v\<rparr>))))"

definition sys_filesize :: "u32 \<Rightarrow> ('a, 'z) kernel_scheme \<Rightarrow> ('a, 'z) kernel_scheme kres" where
  "sys_filesize regs s =
     kbind (file_arg ''sys_filesize: invalid file descriptor'' (ebx (regs_of regs s)) s) (\<lambda>f.
     kbind (deref (files (world (fsys s))) f) (\<lambda>fl.
     Inr (put_regs regs (\<lambda>r. r\<lparr>ecx := of_nat (f_size fl)\<rparr>) s)))"

definition sys_delete :: "u32 \<Rightarrow> ('a, 'z) kernel_scheme \<Rightarrow> ('a, 'z) kernel_scheme kres" where
  "sys_delete regs s =
     kbind (file_arg ''sys_delete: invalid file descriptor'' (ebx (regs_of regs s)) s) (\<lambda>f.
     kbind (on_files (vfs_delete f (fsys s)) s) (resource_unregister_self (of_nat f)))"

definition sys_truncate :: "u32 \<Rightarrow> ('a, 'z) kernel_scheme \<Rightarrow> ('a, 'z) kernel_scheme kres" where
  "sys_truncate regs s =
     kbind (file_arg ''sys_truncate: invalid file descriptor'' (ebx (regs_of regs s)) s) (\<lambda>f.
     on_files (vfs_truncate f (unat (ecx (regs_of regs s))) (fsys s)) s)"

text \<open>The calls that only take a path.\<close>

definition path_call :: "string \<Rightarrow> (u8 list \<Rightarrow> 'a fs_scheme vfs \<Rightarrow> 'a fs_scheme vfs kres) \<Rightarrow> u32 \<Rightarrow> ('a, 'z) kernel_scheme \<Rightarrow>
    ('a, 'z) kernel_scheme kres" where
  "path_call msg oper regs s =
     (let path = ebx (regs_of regs s)
      in if path = 0 then Inl (Abort msg) else kbind (user_string path s) (\<lambda>str. on_files (oper str (fsys s)) s))"

definition sys_touch :: "u32 \<Rightarrow> ('a, 'z) kernel_scheme \<Rightarrow> ('a, 'z) kernel_scheme kres" where
  "sys_touch = path_call ''sys_touch: path is NULL'' vfs_touch"

definition sys_mkdir :: "u32 \<Rightarrow> ('a, 'z) kernel_scheme \<Rightarrow> ('a, 'z) kernel_scheme kres" where
  "sys_mkdir = path_call ''sys_mkdir: path is NULL'' vfs_mkdir"

definition sys_delete_dir :: "u32 \<Rightarrow> ('a, 'z) kernel_scheme \<Rightarrow> ('a, 'z) kernel_scheme kres" where
  "sys_delete_dir = path_call ''sys_delete_dir: path is NULL'' vfs_delete_dir"

text \<open>\<open>dir_t\<close> in memory; the three bytes of padding are not defined and copied as zeros.\<close>

definition dir_bytes :: "dir_t \<Rightarrow> u8 list" where
  "dir_bytes d = d_name d @ le_bytes 4 (of_int (d_idx d)) @ [if is_none d then 1 else 0, 0, 0, 0] @
     le_bytes 4 (case d_type d of ENTRY_FILE \<Rightarrow> 0 | ENTRY_DIR \<Rightarrow> 1)"

definition sys_dir_at :: "u32 \<Rightarrow> ('a, 'z) kernel_scheme \<Rightarrow> ('a, 'z) kernel_scheme kres" where
  "sys_dir_at regs s =
     (let r = regs_of regs s; path = ebx r; idx = sint (ecx r); user_dir = edx r
      in if user_dir = 0 \<or> path = 0 then Inl (Abort ''sys_dir_at: user_dir or path is NULL'')
         else
           kbind (user_string path s) (\<lambda>str.
           kbind (vfs_dir_at idx str (fsys s)) (\<lambda>(d, v).
           user_write user_dir (dir_bytes d) (s\<lparr>fsys := v\<rparr>))))"

text \<open>The bytes \<open>strcpy\<close> writes, without knowing the destination: no terminator, and at least one.\<close>

fun copied_bytes :: "u8 list \<Rightarrow> u8 list kres" where
  "copied_bytes (c # c' # src) = (if c' \<noteq> 0 then kbind (copied_bytes (c' # src)) (\<lambda>d. Inr (c # d)) else Inr [c])"
| "copied_bytes src = Inl OutOfBounds"

definition sys_fs_at :: "u32 \<Rightarrow> ('a, 'z) kernel_scheme \<Rightarrow> ('a, 'z) kernel_scheme kres" where
  "sys_fs_at regs s =
     (let idx = sint (ebx (regs_of regs s)); path = ecx (regs_of regs s)
      in if path = 0 then Inl (Abort ''sys_fs_at: path is NULL'')
         else if idx \<ge> int (length (vfs_mounts (fsys s))) then Inr (put_regs regs (\<lambda>r. r\<lparr>edx := 0\<rparr>) s)
         else if idx < 0 then Inl OutOfBounds
         else
           let m = vfs_mounts (fsys s) ! nat idx
           in kbind (deref (mount_ops (fsys s)) m) (\<lambda>ops.
              kbind (copied_bytes (m_name ops m (world (fsys s)))) (\<lambda>bs.
              kbind (user_write path bs s) (\<lambda>s1. Inr (put_regs regs (\<lambda>r. r\<lparr>edx := 1\<rparr>) s1)))))"

section \<open>Pipes\<close>

record pipe_t =
  p_buffer :: u32
  p_size :: int
  p_pos :: int

definition pipe_bytes :: "pipe_t \<Rightarrow> u8 list" where
  "pipe_bytes p = le_bytes 4 (ucast (p_buffer p)) @ le_bytes 4 (of_int (p_size p)) @ le_bytes 4 (of_int (p_pos p))"

definition pipe_parse :: "u8 list \<Rightarrow> pipe_t" where
  "pipe_parse bs = \<lparr>p_buffer = ucast (field 0 4 bs), p_size = sint (ucast (field 4 4 bs) :: u32), p_pos = sint (ucast (field 8 4 bs) :: u32)\<rparr>"

definition PIPE_STDIN :: nat where "PIPE_STDIN = 0"

definition has_pipe :: "nat \<Rightarrow> nat \<Rightarrow> ('a, 'z) kernel_scheme \<Rightarrow> bool" where
  "has_pipe i pipeid s \<longleftrightarrow> pipe (tasks s ! i) ! pipeid \<noteq> 0"

text \<open>What \<open>vmm_read_context\<close> and \<open>vmm_write_context\<close> assert of the number of bytes.\<close>

definition page_sized :: "int \<Rightarrow> unit kres" where
  "page_sized n = kassert (0 \<le> n \<and> n \<le> 0x1000) (AssertFailed ''sz <= sizeof(buffer)'')"

text \<open>The bytes read from the pipe of task \<open>i\<close>, whose source is another task; \<open>None\<close> when that task is gone.\<close>

definition read_pipe :: "nat \<Rightarrow> nat \<Rightarrow> u64 \<Rightarrow> ('a, 'z) kernel_scheme \<Rightarrow> (u8 list option \<times> ('a, 'z) kernel_scheme) kres" where
  "read_pipe i pipeid sz s =
     (case get_task_by_pid (pipe_source (tasks s ! i) ! pipeid) s of
        None \<Rightarrow> Inr (None, s)
      | Some other \<Rightarrow>
          let p = pipe (tasks s ! i) ! pipeid; ctx = task_context (tasks s ! other)
          in kbind (run_vm (vmm_read_context p 12 ctx) s) (\<lambda>(bs, s1).
             let pi = pipe_parse bs;
                 can_read = (if s32 (p_size pi - p_pos pi) < sint (ucast sz :: u32) then s32 (p_size pi - p_pos pi) else sint (ucast sz :: u32))
             in kbind (run_vm (vmm_read_context (p_buffer pi + of_int (p_pos pi)) can_read ctx) s1) (\<lambda>(data, s2).
                kbind (exec_vm (vmm_write_context p (pipe_bytes (pi\<lparr>p_pos := p_pos pi + can_read\<rparr>)) ctx) s2) (\<lambda>s3.
                Inr (Some data, s3)))))"

text \<open>The number of bytes written.\<close>

definition write_pipe :: "nat \<Rightarrow> nat \<Rightarrow> u32 \<Rightarrow> u64 \<Rightarrow> ('a, 'z) kernel_scheme \<Rightarrow> (int \<times> ('a, 'z) kernel_scheme) kres" where
  "write_pipe i pipeid buffer sz s =
     (case get_task_by_pid (pipe_source (tasks s ! i) ! pipeid) s of
        None \<Rightarrow> Inr (0, s)
      | Some other \<Rightarrow>
          let p = pipe (tasks s ! i) ! pipeid; ctx = task_context (tasks s ! other)
          in kbind (run_vm (vmm_read_context p 12 ctx) s) (\<lambda>(bs, s1).
             let pi = pipe_parse bs;
                 to_write = (if s32 (p_size pi - p_pos pi) < sint (ucast sz :: u32) then s32 (p_size pi - p_pos pi) else sint (ucast sz :: u32))
             in kbind (page_sized to_write) (\<lambda>_.
                kbind (user_read buffer (nat to_write) s1) (\<lambda>data.
                kbind (exec_vm (vmm_write_context (p_buffer pi + of_int (p_pos pi)) data ctx) s1) (\<lambda>s2.
                kbind (exec_vm (vmm_write_context p (pipe_bytes (pi\<lparr>p_pos := p_pos pi + to_write\<rparr>)) ctx) s2) (\<lambda>s3.
                Inr (to_write, s3)))))))"

definition sys_write :: "u32 \<Rightarrow> ('a, 'z) kernel_scheme \<Rightarrow> ('a, 'z) kernel_scheme kres" where
  "sys_write regs s =
     (let r = regs_of regs s; fd = ebx r; buffer = ecx r; count = unat (edx r); offset = unat (esi r)
      in if buffer = 0 then Inl (Abort ''sys_write: buffer is NULL'')
         else if fd = 0 then Inr s
         else if fd = 1 \<or> fd = 2 then
           if has_pipe (get_self s) (unat fd) s then
             kbind (write_pipe (get_self s) (unat fd) buffer (ucast (edx r)) s) (\<lambda>(_, s1). Inr s1)
           else
             kbind (user_read buffer count s) (\<lambda>bs.
             Inr (s\<lparr>console := console s @ map (Pair (task_term (tasks s ! get_self s))) bs\<rparr>))
         else
           kbind (file_arg ''sys_write: invalid file descriptor'' fd s) (\<lambda>f.
           kbind (user_read buffer count s) (\<lambda>bs. on_files (vfs_write f bs offset (fsys s)) s)))"

definition sys_set_pipe :: "u32 \<Rightarrow> ('a, 'z) kernel_scheme \<Rightarrow> ('a, 'z) kernel_scheme kres" where
  "sys_set_pipe regs s =
     (let r = regs_of regs s; output = sint (edx r)
      in case get_task_by_pid (sint (ebx r)) s of
           None \<Rightarrow> Inl (Abort ''sys_set_pipe: task with pid not found'')
         | Some other \<Rightarrow>
             if output < 0 \<or> output \<ge> 3 then Inl (Abort ''sys_set_pipe: invalid pipe index'')
             else
               kbind (user_read (ecx r) 12 s) (\<lambda>_.
               Inr (upd_task other (\<lambda>t. t\<lparr>pipe := (pipe t)[nat output := ecx r],
                 pipe_source := (pipe_source t)[nat output := pid (tasks s ! get_self s)]\<rparr>) s)))"

text \<open>Without a pipe the character comes from the keyboard of the terminal that is shown.\<close>

definition sys_async_getc :: "(('a, 'z) kernel_scheme \<Rightarrow> u32 \<times> ('a, 'z) kernel_scheme) \<Rightarrow> u32 \<Rightarrow> ('a, 'z) kernel_scheme \<Rightarrow>
    ('a, 'z) kernel_scheme kres" where
  "sys_async_getc typed_char regs s =
     (if has_pipe (get_self s) PIPE_STDIN s then
        kbind (read_pipe (get_self s) PIPE_STDIN 1 s) (\<lambda>(data, s1).
        Inr (put_regs regs (\<lambda>r. r\<lparr>ebx := (case data of Some (b # _) \<Rightarrow> ebx r AND 0xFFFFFF00 OR ucast b | _ \<Rightarrow> 0xFFFFFFFF)\<rparr>) s1))
      else if shown_term s = task_term (tasks s ! get_self s) then
        let (c, s1) = typed_char s in Inr (put_regs regs (\<lambda>r. r\<lparr>ebx := c\<rparr>) s1)
      else Inr (put_regs regs (\<lambda>r. r\<lparr>ebx := 0\<rparr>) s))"

section \<open>Messages\<close>

definition sys_message_send :: "u32 \<Rightarrow> ('a, 'z) kernel_scheme \<Rightarrow> ('a, 'z) kernel_scheme kres" where
  "sys_message_send regs s =
     (let r = regs_of regs s
      in if ecx r = 0 \<or> edx r = 0 then Inl (Abort ''sys_message_send: invalid buffer or size'')
         else
           kbind (user_read (ecx r) (unat (edx r)) s) (\<lambda>bs.
           kbind (message_send (ebx r) bs (inbox s)) (\<lambda>m. Inr (s\<lparr>inbox := m\<rparr>))))"

definition sys_message_recv :: "u32 \<Rightarrow> ('a, 'z) kernel_scheme \<Rightarrow> ('a, 'z) kernel_scheme kres" where
  "sys_message_recv regs s =
     (let r = regs_of regs s
      in if ecx r = 0 \<or> edx r = 0 then Inr (put_regs regs (\<lambda>r. r\<lparr>eax := 0\<rparr>) s)
         else
           kbind (message_recv (ebx r) (unat (edx r)) (inbox s)) (\<lambda>(bs, m).
           kbind (user_write (ecx r) bs (s\<lparr>inbox := m\<rparr>)) (\<lambda>s1.
           Inr (put_regs regs (\<lambda>r. r\<lparr>eax := of_nat (length bs)\<rparr>) s1))))"

section \<open>Memory\<close>

definition user_page :: "nat \<Rightarrow> u32 \<Rightarrow> u32 \<Rightarrow> ('a, 'z) kernel_scheme \<Rightarrow> ('a, 'z) kernel_scheme kres" where
  "user_page i virt phys s =
     kbind (run_vm (vmm_map_page (task_context (tasks s ! i)) virt phys (PTE_PRESENT OR PTE_WRITE OR PTE_USER)) s) (\<lambda>(_, s1). Inr s1)"

definition new_page :: "('a, 'z) kernel_scheme \<Rightarrow> (u32 \<times> ('a, 'z) kernel_scheme) kres" where
  "new_page s = kbind (pmm_alloc (books (vm s))) (\<lambda>(p, b). Inr (p, s\<lparr>vm := (vm s)\<lparr>books := b\<rparr>\<rparr>))"

definition sys_mmap :: "u32 \<Rightarrow> ('a, 'z) kernel_scheme \<Rightarrow> ('a, 'z) kernel_scheme kres" where
  "sys_mmap regs s = kbind (new_page s) (\<lambda>(p, s1). user_page (get_self s) (ebx (regs_of regs s)) p s1)"

definition sys_mmap_mapped :: "u32 \<Rightarrow> ('a, 'z) kernel_scheme \<Rightarrow> ('a, 'z) kernel_scheme kres" where
  "sys_mmap_mapped regs s =
     Inr (put_regs regs (\<lambda>r. r\<lparr>ecx := (if vmm_lookup (ebx r) (task_context (tasks s ! get_self s)) (vm s) \<noteq> 0 then 1 else 0)\<rparr>) s)"

definition sys_mmmap :: "u32 \<Rightarrow> ('a, 'z) kernel_scheme \<Rightarrow> ('a, 'z) kernel_scheme kres" where
  "sys_mmmap regs s =
     (let r = regs_of regs s
      in kbind (new_page s) (\<lambda>(p, s1).
         kbind (user_page (get_self s) (ebx r) p s1) (\<lambda>s2.
         case get_task_by_pid (sint (edx r)) s2 of
           None \<Rightarrow> Inr s2
         | Some other \<Rightarrow> user_page other (ecx r) p s2)))"

definition sys_raminfo :: "u32 \<Rightarrow> ('a, 'z) kernel_scheme \<Rightarrow> ('a, 'z) kernel_scheme kres" where
  "sys_raminfo regs s =
     Inr (put_regs regs (\<lambda>r. r\<lparr>ebx := free_memory (books (vm s)), ecx := used_memory (books (vm s))\<rparr>) s)"

section \<open>Tasks\<close>

definition sys_exit :: "(u32 \<Rightarrow> u32 \<Rightarrow> ('a, 'z) kernel_scheme \<Rightarrow> ('a, 'z) kernel_scheme kres) \<Rightarrow> u32 \<Rightarrow> ('a, 'z) kernel_scheme \<Rightarrow> ('a, 'z) kernel_scheme kres" where
  "sys_exit others regs s = exit_task (run_dealloc others) (get_self s) (sint (ebx (regs_of regs s))) s"

definition sys_kill :: "(u32 \<Rightarrow> u32 \<Rightarrow> ('a, 'z) kernel_scheme \<Rightarrow> ('a, 'z) kernel_scheme kres) \<Rightarrow> u32 \<Rightarrow> ('a, 'z) kernel_scheme \<Rightarrow> ('a, 'z) kernel_scheme kres" where
  "sys_kill others regs s =
     (case get_task_by_pid (sint (ebx (regs_of regs s))) s of
        None \<Rightarrow> Inl (Abort ''sys_kill: no such pid'')
      | Some i \<Rightarrow> exit_task (run_dealloc others) i (-2) s)"

text \<open>The handlers of exceptions end the running task; its name for the message is looked up in its memory.\<close>

definition kill :: "(u32 \<Rightarrow> u32 \<Rightarrow> ('a, 'z) kernel_scheme \<Rightarrow> ('a, 'z) kernel_scheme kres) \<Rightarrow> ('a, 'z) kernel_scheme \<Rightarrow> ('a, 'z) kernel_scheme kres" where
  "kill others s = kbind (user_read (argv (tasks s ! get_self s)) 4 s) (\<lambda>_. exit_task (run_dealloc others) (get_self s) (-1) s)"

definition sys_get_exit_code :: "u32 \<Rightarrow> ('a, 'z) kernel_scheme \<Rightarrow> ('a, 'z) kernel_scheme kres" where
  "sys_get_exit_code regs s = Inr (put_regs regs (\<lambda>r. r\<lparr>ecx := of_int (get_exit_code (sint (ebx r)) s)\<rparr>) s)"

definition sys_get_proc_info :: "u32 \<Rightarrow> ('a, 'z) kernel_scheme \<Rightarrow> ('a, 'z) kernel_scheme kres" where
  "sys_get_proc_info regs s =
     Inr (put_regs regs (\<lambda>r. r\<lparr>ecx := (if get_task_by_pid (sint (ebx r)) s \<noteq> None then 1 else 0)\<rparr>) s)"

definition MAX_VTERM :: int where "MAX_VTERM = 4"

definition sys_set_term :: "u32 \<Rightarrow> ('a, 'z) kernel_scheme \<Rightarrow> ('a, 'z) kernel_scheme kres" where
  "sys_set_term regs s =
     (let r = regs_of regs s; trm = sint (ecx r)
      in if 1 \<le> trm \<and> trm \<le> MAX_VTERM then
           (case get_task_by_pid (sint (ebx r)) s of
              None \<Rightarrow> Inr s
            | Some i \<Rightarrow> Inr (upd_task i (\<lambda>t. t\<lparr>task_term := trm\<rparr>) s))
         else Inr s)"

definition sys_yield :: "u32 \<Rightarrow> ('a, 'z) kernel_scheme \<Rightarrow> (u32 \<times> ('a, 'z) kernel_scheme) kres" where
  "sys_yield regs s = schedule (on_boot_cpu s) (shown_term s) (clock_ms s) regs s"

text \<open>
  An entry of the task list has 140 bytes: the name at 0, the pid at 128 and the terminal at 132. The name is read
  through the first entry of \<open>argv\<close>.
\<close>

definition read_task :: "u32 \<Rightarrow> nat \<Rightarrow> ('a, 'z) kernel_scheme \<Rightarrow> ('a, 'z) kernel_scheme kres" where
  "read_task out i s =
     (let t = tasks s ! i
      in kbind (run_vm (vmm_read_context (argv t) 4 (task_context t)) s) (\<lambda>(bs, s1).
         kbind (run_vm (vmm_read_context (ucast (le_val bs)) 128 (task_context t)) s1) (\<lambda>(nm, s2).
         kbind (user_write out nm s2) (\<lambda>s3.
         kbind (user_write (out + 132) (le_bytes 4 (of_int (task_term t))) s3) (\<lambda>s4.
         user_write (out + 128) (le_bytes 4 (of_int (pid t))) s4)))))"

fun read_task_list :: "u32 \<Rightarrow> int \<Rightarrow> nat list \<Rightarrow> int \<Rightarrow> ('a, 'z) kernel_scheme \<Rightarrow> (int \<times> ('a, 'z) kernel_scheme) kres" where
  "read_task_list out max_tasks [] j s = Inr (j, s)"
| "read_task_list out max_tasks (i # is) j s =
     (if active (tasks s ! i) then
        kbind (read_task (out + of_int (j * 140)) i s) (\<lambda>s1.
        if j + 1 \<ge> max_tasks then Inr (j + 1, s1) else read_task_list out max_tasks is (j + 1) s1)
      else read_task_list out max_tasks is j s)"

definition sys_task_list_get :: "u32 \<Rightarrow> ('a, 'z) kernel_scheme \<Rightarrow> ('a, 'z) kernel_scheme kres" where
  "sys_task_list_get regs s =
     (let out = ebx (regs_of regs s)
      in if out = 0 then Inl (Abort ''sys_task_list_get: task_list is NULL'')
         else kbind (read_task_list out (sint (ecx (regs_of regs s))) [0..<MAX_TASKS] 0 s) (\<lambda>(n, s1).
              Inr (put_regs regs (\<lambda>r. r\<lparr>edx := of_int n\<rparr>) s1)))"

section \<open>The dispatcher\<close>

text \<open>What the drivers do: a typed character, the calls of \<open>sys_env\<close> for power and keyboard layout, the other handlers and the destructors they register.\<close>

record 'k drivers =
  typed :: "'k \<Rightarrow> u32 \<times> 'k"
  env_call :: "u32 \<Rightarrow> u32 \<Rightarrow> 'k \<Rightarrow> 'k kres"
  other_call :: "u32 \<Rightarrow> u32 \<Rightarrow> 'k \<Rightarrow> (u32 \<times> 'k) kres"
  other_dealloc :: "u32 \<Rightarrow> u32 \<Rightarrow> 'k \<Rightarrow> 'k kres"

definition sys_env :: "('a, 'z) kernel_scheme drivers \<Rightarrow> u32 \<Rightarrow> ('a, 'z) kernel_scheme \<Rightarrow> ('a, 'z) kernel_scheme kres" where
  "sys_env D regs s =
     (let r = regs_of regs s; i = get_self s
      in if ebx r = 0 then Inr (put_regs regs (\<lambda>r. r\<lparr>ecx := argv (tasks s ! i)\<rparr>) s)
         else if ebx r = 1 then Inr (put_regs regs (\<lambda>r. r\<lparr>ecx := envp (tasks s ! i)\<rparr>) s)
         else if ebx r = 2 then kbind (copied_bytes (pwd (tasks s ! i))) (\<lambda>bs. user_write (ecx r) bs s)
         else if ebx r = 3 then
           kbind (user_string (ecx r) s) (\<lambda>str.
           kbind (strcpy (replicate 128 0) str) (\<lambda>d. Inr (upd_task i (\<lambda>t. t\<lparr>pwd := d\<rparr>) s)))
         else if ebx r = 4 \<or> ebx r = 5 \<or> ebx r = 7 then env_call D (ebx r) regs s
         else Inr s)"

definition returning :: "u32 \<Rightarrow> ('a, 'z) kernel_scheme kres \<Rightarrow> (u32 \<times> ('a, 'z) kernel_scheme) kres" where
  "returning regs r = kbind r (\<lambda>s. Inr (regs, s))"

definition syscall_handler :: "('a, 'z) kernel_scheme drivers \<Rightarrow> u32 \<Rightarrow> ('a, 'z) kernel_scheme \<Rightarrow> (u32 \<times> ('a, 'z) kernel_scheme) kres" where
  "syscall_handler D regs s =
     (let n = eax (regs_of regs s); h = (\<lambda>f. returning regs (f regs s))
      in if n = 1 then h sys_open else if n = 2 then h sys_close else if n = 3 then h sys_read else if n = 4 then h sys_write
         else if n = 5 then h sys_filesize else if n = 6 then h sys_delete else if n = 7 then h sys_mkdir else if n = 8 then h sys_dir_at
         else if n = 9 then h sys_touch else if n = 10 then h sys_delete_dir else if n = 11 then h sys_fs_at
         else if n = 12 then h (sys_async_getc (typed D)) else if n = 13 then h (sys_exit (other_dealloc D)) else if n = 14 then h sys_mmap
         else if n = 16 then h sys_get_proc_info else if n = 17 then sys_yield regs s else if n = 18 then h (sys_env D)
         else if n = 19 then h sys_mmmap else if n = 35 then h sys_task_list_get else if n = 36 then h (sys_kill (other_dealloc D))
         else if n = 38 then h sys_raminfo else if n = 40 then h sys_truncate else if n = 43 then h sys_set_term
         else if n = 46 then h sys_mmap_mapped else if n = 49 then h sys_set_pipe else if n = 51 then h sys_get_exit_code
         else if n = 52 then h sys_message_send else if n = 53 then h sys_message_recv else other_call D n regs s)"

end
