(* ===== verification/Syscalls_Files.thy ===== *)
theory Syscalls_Files
  imports Syscalls
begin

text \<open>
  What a task can rely on when it works with files through system calls: a program that saves and loads files
  with the calls of the kernel, through its own memory and the file descriptors, gets what the virtual file
  system promises.
\<close>

section \<open>The memory of the task\<close>

definition region :: "vmm \<Rightarrow> u32 \<Rightarrow> nat \<Rightarrow> bool" where
  "region v p n \<longleftrightarrow> (\<forall>i<n. mmu v (p + of_nat i) = Inr (mmu_addr v (p + of_nat i))) \<and>
     inj_on (\<lambda>i. mmu_addr v (p + of_nat i)) {..<n}"

lemma region_ram [simp]: "region (v\<lparr>ram := r\<rparr>) p n = region v p n"
  by (simp add: region_def)

lemma region_less: "region v p n \<Longrightarrow> m \<le> n \<Longrightarrow> region v p m"
  by (auto simp: region_def inj_on_def)

text \<open>Writing a buffer of the task, and what it then contains.\<close>

lemma user_write_region:
  assumes "region (vm s) p n" and "length bs \<le> n"
  obtains r where "user_write p bs s = Inr (s\<lparr>vm := (vm s)\<lparr>ram := r\<rparr>\<rparr>)"
    "\<forall>i<length bs. r (mmu_addr (vm s) (p + of_nat i)) = bs ! i"
proof -
  have R: "region (vm s) p (length bs)" using assms by (rule region_less)
  then obtain r where w: "mmu_write (vm s) p bs = Inr ((vm s)\<lparr>ram := r\<rparr>)"
    using mmu_write_total [of bs "vm s" p] by (auto simp: region_def)
  have "\<forall>i<length bs. r (mmu_addr (vm s) (p + of_nat i)) = bs ! i"
    using mmu_write_spec [OF w] R by (simp add: region_def)
  with w that [of r] show thesis by (simp add: user_write_def)
qed

lemma user_read_written:
  assumes "region v p n" and "length bs \<le> n" and "\<forall>i<length bs. ram v (mmu_addr v (p + of_nat i)) = bs ! i"
  shows "mmu_read v p (length bs) = Inr bs"
proof -
  have "mmu_read v p (length bs) = Inr (map (\<lambda>i. ram v (mmu_addr v (p + of_nat i))) [0..<length bs])"
    by (rule mmu_read_eq) (use assms(1,2) in \<open>auto simp: region_def\<close>)
  also have "map (\<lambda>i. ram v (mmu_addr v (p + of_nat i))) [0..<length bs] = bs"
    by (rule nth_equalityI) (use assms(3) in auto)
  finally show ?thesis .
qed

lemma string_at_written:
  assumes "\<forall>i<Suc (length str). mmu v (p + of_nat i) = Inr (A i) \<and> ram v (A i) = (str @ [0]) ! i" and "cstring str" and "length str < n"
  shows "string_at v p n = Inr (str @ [0])"
  using assms
proof (induction str arbitrary: p n A)
  case Nil
  then show ?case by (cases n) auto
next
  case (Cons c str)
  obtain m where n: "n = Suc m" "length str < m" using Cons.prems(3) by (cases n) auto
  have at: "mmu v (p + of_nat i) = Inr (A i)" "ram v (A i) = (c # str @ [0]) ! i" if "i < Suc (Suc (length str))" for i
    using Cons.prems(1) that by auto
  have "string_at v (p + 1) m = Inr (str @ [0])"
  proof (rule Cons.IH [OF _ _ n(2)])
    show "\<forall>i<Suc (length str). mmu v (p + 1 + of_nat i) = Inr (A (Suc i)) \<and> ram v (A (Suc i)) = (str @ [0]) ! i"
      using at [of "Suc i" for i] by (auto simp: add.assoc)
  qed (use Cons.prems(2) in simp)
  then show ?case using at [of 0] n(1) Cons.prems(2) by simp
qed

lemma user_string_written:
  assumes "region (vm s) p 1024" and "cstring str" and "length str < 1024"
  obtains r where "user_write p (str @ [0]) s = Inr (s\<lparr>vm := (vm s)\<lparr>ram := r\<rparr>\<rparr>)"
    "user_string p (put_regs regs g (s\<lparr>vm := (vm s)\<lparr>ram := r\<rparr>\<rparr>)) = Inr (str @ [0])"
proof -
  have "length (str @ [0]) \<le> 1024" using assms(3) by simp
  from user_write_region [OF assms(1) this] obtain r where r: "user_write p (str @ [0]) s = Inr (s\<lparr>vm := (vm s)\<lparr>ram := r\<rparr>\<rparr>)"
    "\<forall>i<length (str @ [0]). r (mmu_addr (vm s) (p + of_nat i)) = (str @ [0]) ! i" by blast
  have "string_at ((vm s)\<lparr>ram := r\<rparr>) p 1024 = Inr (str @ [0])"
    by (rule string_at_written [OF _ assms(2,3)]) (use r(2) assms(1,3) in \<open>auto simp: region_def\<close>)
  with r(1) that show thesis by (simp add: user_string_def put_regs_def)
qed

section \<open>The descriptor table\<close>

text \<open>The table as a map from descriptors to files, which opening extends and closing restricts.\<close>

definition fd_map :: "('a, 'z) kernel_scheme \<Rightarrow> int \<Rightarrow> nat option" where
  "fd_map s fd = (if FD_OFFSET \<le> fd \<and> nat (fd - FD_OFFSET) < length (fd_table s) \<and> fd_table s ! nat (fd - FD_OFFSET) \<noteq> 0
     then Some (fd_table s ! nat (fd - FD_OFFSET)) else None)"

lemma file_to_fd_map:
  assumes "f \<noteq> 0" and "file_to_fd f s = (fd, s')"
  shows "FD_OFFSET \<le> fd" "fd_map s fd = None" "fd_map s' = (fd_map s)(fd \<mapsto> f)"
    "s' = s\<lparr>fd_table := fd_table s'\<rparr>"
    "\<And>i. i \<le> length (fd_table s) \<Longrightarrow> (i < length (fd_table s) \<longrightarrow> fd_table s ! i = 0) \<Longrightarrow> fd \<le> int i + FD_OFFSET"
proof -
  define xs where "xs = fd_table s"
  obtain k where fi: "find_index (\<lambda>x. x = 0) xs = (if k < length xs then Some k else None)"
      and k: "k \<le> length xs" "k < length xs \<longrightarrow> xs ! k = 0" "\<forall>j<k. xs ! j \<noteq> 0"
  proof (cases "find_index (\<lambda>x. x = 0) xs")
    case None
    then show thesis using that [of "length xs"] by (auto simp: find_index_None in_set_conv_nth)
  next
    case (Some i)
    then show thesis using that [of i] by (simp add: find_index_Some)
  qed
  define T where "T = (if k < length xs then xs[k := f] else xs @ [f])"
  have s': "fd = int k + FD_OFFSET" "s' = s\<lparr>fd_table := T\<rparr>"
    using assms(2) fi k(1) by (auto simp: file_to_fd_def T_def xs_def split: if_splits)
  have T: "length T = (if k < length xs then length xs else Suc k)" "\<And>j. j < length T \<Longrightarrow> T ! j = (if j = k then f else xs ! j)"
    using k(1) by (auto simp: T_def nth_append nth_list_update split: if_splits)
  show "FD_OFFSET \<le> fd" "s' = s\<lparr>fd_table := fd_table s'\<rparr>" using s' by simp_all
  show "fd_map s fd = None" using k(2) s'(1) by (auto simp: fd_map_def xs_def)
  show "fd_map s' = (fd_map s)(fd \<mapsto> f)"
  proof
    fix d
    show "fd_map s' d = ((fd_map s)(fd \<mapsto> f)) d"
    proof (cases "FD_OFFSET \<le> d")
      case True
      then obtain i where "d = int i + FD_OFFSET" by (metis add.commute zle_iff_zadd)
      then show ?thesis using k(1) T s' assms(1) by (cases "i = k") (auto simp: fd_map_def xs_def)
    qed (use s'(1) in \<open>simp add: fd_map_def\<close>)
  qed
  show "fd \<le> int i + FD_OFFSET" if "i \<le> length (fd_table s)" "i < length (fd_table s) \<longrightarrow> fd_table s ! i = 0" for i
  proof -
    have "\<not> i < k" using that(2) k(1,3) by (auto simp: xs_def)
    then show ?thesis using s'(1) by simp
  qed
qed

lemma fd_to_file_map: "fd_map s fd = Some f \<Longrightarrow> fd_to_file fd s = Inr f \<and> f \<noteq> 0"
  by (auto simp: fd_map_def fd_to_file_def split: if_splits)

lemma fd_free_map:
  assumes "fd_map s fd = Some f"
  shows "\<exists>s'. fd_free fd s = Inr s' \<and> s' = s\<lparr>fd_table := fd_table s'\<rparr> \<and> fd_map s' = (fd_map s)(fd := None) \<and>
    length (fd_table s') = length (fd_table s) \<and> fd_table s' ! nat (fd - FD_OFFSET) = 0"
proof -
  define k where "k = nat (fd - FD_OFFSET)"
  have k: "0 \<le> fd - FD_OFFSET" "k < length (fd_table s)" using assms by (auto simp: fd_map_def k_def split: if_splits)
  have "fd_map (s\<lparr>fd_table := (fd_table s)[k := 0]\<rparr>) d = ((fd_map s)(fd := None)) d" for d
    using k by (auto simp: fd_map_def k_def nth_list_update)
  then show ?thesis using k by (auto simp: fd_free_def k_def)
qed

section \<open>Programs\<close>

text \<open>
  A call as the library of a program makes it, with the number and four arguments in registers. A program keeps the
  path in a buffer at \<open>pp\<close> and the data in one at \<open>bp\<close>.
\<close>

definition enter :: "u32 \<Rightarrow> u32 \<Rightarrow> u32 \<Rightarrow> u32 \<Rightarrow> u32 \<Rightarrow> u32 \<Rightarrow> ('a, 'z) kernel_scheme \<Rightarrow> ('a, 'z) kernel_scheme" where
  "enter regs n b c d i s = put_regs regs (\<lambda>r. r\<lparr>eax := n, ebx := b, ecx := c, edx := d, esi := i\<rparr>) s"

definition syscall :: "('a, 'z) kernel_scheme drivers \<Rightarrow> u32 \<Rightarrow> u32 \<Rightarrow> u32 \<Rightarrow> u32 \<Rightarrow> u32 \<Rightarrow> u32 \<Rightarrow> ('a, 'z) kernel_scheme \<Rightarrow>
    ('a, 'z) kernel_scheme kres" where
  "syscall D regs n b c d i s = kbind (syscall_handler D regs (enter regs n b c d i s)) (\<lambda>(_, s1). Inr s1)"

definition user_touch :: "('a, 'z) kernel_scheme drivers \<Rightarrow> u32 \<Rightarrow> u32 \<Rightarrow> u8 list \<Rightarrow> u8 list list \<Rightarrow> ('a, 'z) kernel_scheme \<Rightarrow>
    ('a, 'z) kernel_scheme kres" where
  "user_touch D regs pp nm path s = kbind (user_write pp (disk_path nm path) s) (syscall D regs 9 pp 0 0 0)"

definition user_open :: "('a, 'z) kernel_scheme drivers \<Rightarrow> u32 \<Rightarrow> u32 \<Rightarrow> u8 list \<Rightarrow> u8 list list \<Rightarrow> ('a, 'z) kernel_scheme \<Rightarrow>
    (nat \<times> ('a, 'z) kernel_scheme) kres" where
  "user_open D regs pp nm path s =
     kbind (user_write pp (disk_path nm path) s) (\<lambda>s1.
     kbind (syscall D regs 1 pp 2 0 0 s1) (\<lambda>s2. Inr (unat (edx (regs_of regs s2)), s2)))"

definition user_size :: "('a, 'z) kernel_scheme drivers \<Rightarrow> u32 \<Rightarrow> nat \<Rightarrow> ('a, 'z) kernel_scheme \<Rightarrow> (nat \<times> ('a, 'z) kernel_scheme) kres" where
  "user_size D regs fd s = kbind (syscall D regs 5 (of_nat fd) 0 0 0 s) (\<lambda>s1. Inr (unat (ecx (regs_of regs s1)), s1))"

definition user_load :: "('a, 'z) kernel_scheme drivers \<Rightarrow> u32 \<Rightarrow> u32 \<Rightarrow> nat \<Rightarrow> nat \<Rightarrow> nat \<Rightarrow> ('a, 'z) kernel_scheme \<Rightarrow>
    (u8 list \<times> ('a, 'z) kernel_scheme) kres" where
  "user_load D regs bp fd n off s =
     kbind (syscall D regs 3 (of_nat fd) bp (of_nat n) (of_nat off) s) (\<lambda>s1. kbind (user_read bp n s1) (\<lambda>bs. Inr (bs, s1)))"

definition user_store :: "('a, 'z) kernel_scheme drivers \<Rightarrow> u32 \<Rightarrow> u32 \<Rightarrow> nat \<Rightarrow> u8 list \<Rightarrow> nat \<Rightarrow> ('a, 'z) kernel_scheme \<Rightarrow>
    ('a, 'z) kernel_scheme kres" where
  "user_store D regs bp fd buf off s =
     kbind (user_write bp buf s) (syscall D regs 4 (of_nat fd) bp (of_nat (length buf)) (of_nat off))"

definition user_close :: "('a, 'z) kernel_scheme drivers \<Rightarrow> u32 \<Rightarrow> nat \<Rightarrow> ('a, 'z) kernel_scheme \<Rightarrow> ('a, 'z) kernel_scheme kres" where
  "user_close D regs fd s = syscall D regs 2 (of_nat fd) 0 0 0 s"

section \<open>The state a program runs in\<close>

definition task_ok :: "'z sched_scheme \<Rightarrow> bool" where
  "task_ok s \<longleftrightarrow> get_self s < length (tasks s) \<and> (resources (tasks s ! get_self s) = None \<longrightarrow> num_resources (tasks s ! get_self s) = 0)"

definition task_files :: "u8 list \<Rightarrow> u32 \<Rightarrow> u32 \<Rightarrow> nat \<Rightarrow> ('a ramfs_ext, 'z) kernel_scheme \<Rightarrow> bool" where
  "task_files nm pp bp cap s \<longleftrightarrow> ramdisk nm (fsys s) \<and> task_ok s \<and> pp \<noteq> 0 \<and> bp \<noteq> 0 \<and> region (vm s) pp 1024 \<and> region (vm s) bp cap \<and> cap < 0x80000000"

definition task_handle :: "u8 list \<Rightarrow> ('a ramfs_ext, 'z) kernel_scheme \<Rightarrow> nat \<Rightarrow> u8 list list \<Rightarrow> bool" where
  "task_handle nm s fd path \<longleftrightarrow> 5 \<le> fd \<and> fd < 0x80000000 \<and> (\<exists>f. fd_map s (int fd) = Some f \<and> disk_handle nm (fsys s) f path)"

definition task_roomy :: "('a, 'z) kernel_scheme \<Rightarrow> bool" where
  "task_roomy s \<longleftrightarrow> (\<exists>i. i + 5 < 0x80000000 \<and> i \<le> length (fd_table s) \<and> (i < length (fd_table s) \<longrightarrow> fd_table s ! i = 0))"

lemma task_files_cong:
  assumes "task_files nm pp bp cap s" and "ramdisk nm (fsys s')" and "task_ok s'" and "vm s' = (vm s)\<lparr>ram := ram (vm s')\<rparr>"
  shows "task_files nm pp bp cap s'"
proof -
  have "region (vm s') = region (vm s)" by (subst assms(4)) (simp add: fun_eq_iff)
  then show ?thesis using assms(1-3) by (simp add: task_files_def)
qed

lemma kbind_Inr_right [simp]: "kbind r Inr = r"
  by (cases r) simp_all

lemma enter_fields [simp]:
  "fsys (enter regs n b c d i s) = fsys s" "fd_table (enter regs n b c d i s) = fd_table s" "tasks (enter regs n b c d i s) = tasks s"
  "current_task (enter regs n b c d i s) = current_task s" "vm (enter regs n b c d i s) = vm s" "get_self (enter regs n b c d i s) = get_self s"
  "dealloc_addr (enter regs n b c d i s) = dealloc_addr s" "fd_to_file fd (enter regs n b c d i s) = fd_to_file fd s"
  by (simp_all add: enter_def put_regs_def get_self_def fd_to_file_def)

lemma put_regs_fields [simp]:
  "fsys (put_regs regs f s) = fsys s" "fd_table (put_regs regs f s) = fd_table s" "tasks (put_regs regs f s) = tasks s"
  "current_task (put_regs regs f s) = current_task s" "vm (put_regs regs f s) = vm s" "get_self (put_regs regs f s) = get_self s"
  "regs_of regs (put_regs regs f s) = f (regs_of regs s)" "fd_map (put_regs regs f s) = fd_map s"
  by (simp_all add: put_regs_def get_self_def regs_of_def fd_map_def fun_eq_iff)

lemma fd_map_fields [simp]:
  "fd_to_file fd (s\<lparr>vm := v\<rparr>) = fd_to_file fd s"
  "fd_map (s\<lparr>tasks := ts\<rparr>) = fd_map s" "fd_map (s\<lparr>vm := v\<rparr>) = fd_map s" "fd_map (s\<lparr>fsys := w\<rparr>) = fd_map s" "fd_map (enter regs n b c d i s) = fd_map s"
  by (simp_all add: fd_map_def fd_to_file_def fun_eq_iff)

lemma regs_of_enter [simp]:
  "eax (regs_of regs (enter regs n b c d i s)) = n" "ebx (regs_of regs (enter regs n b c d i s)) = b"
  "ecx (regs_of regs (enter regs n b c d i s)) = c" "edx (regs_of regs (enter regs n b c d i s)) = d"
  "esi (regs_of regs (enter regs n b c d i s)) = i"
  by (simp_all add: regs_of_def enter_def put_regs_def)

lemma syscalls:
  "syscall D regs 1 b c d i s = sys_open regs (enter regs 1 b c d i s)" "syscall D regs 2 b c d i s = sys_close regs (enter regs 2 b c d i s)"
  "syscall D regs 3 b c d i s = sys_read regs (enter regs 3 b c d i s)" "syscall D regs 4 b c d i s = sys_write regs (enter regs 4 b c d i s)"
  "syscall D regs 5 b c d i s = sys_filesize regs (enter regs 5 b c d i s)" "syscall D regs 9 b c d i s = sys_touch regs (enter regs 9 b c d i s)"
  by (simp_all add: syscall_def syscall_handler_def returning_def kbind_assoc)

lemma register_ok:
  assumes "task_ok s"
  shows "\<exists>ts. resource_register_self r s = Inr (s\<lparr>tasks := ts\<rparr>) \<and> task_ok (s\<lparr>tasks := ts\<rparr>)"
  using assms by (auto simp: resource_register_self_def task_ok_def Let_def upd_task_def get_self_def split: option.split)

lemma unregister_ok:
  assumes "task_ok s"
  shows "\<exists>ts. resource_unregister_self r s = Inr (s\<lparr>tasks := ts\<rparr>) \<and> task_ok (s\<lparr>tasks := ts\<rparr>)"
proof (cases "resources (tasks s ! get_self s)")
  case None
  then show ?thesis using assms by (intro exI [of _ "tasks s"]) (simp add: resource_unregister_self_def task_ok_def Let_def)
qed (use assms in \<open>auto simp: resource_unregister_self_def task_ok_def Let_def upd_task_def get_self_def\<close>)

lemma sint_fd: "fd < 0x80000000 \<Longrightarrow> sint (of_nat fd :: u32) = int fd"
  by (simp add: signed_of_nat signed_take_bit_int_eq_self)

lemma fd_word: "0 \<le> fd \<Longrightarrow> fd < 0x80000000 \<Longrightarrow> unat (of_int fd :: u32) = nat fd"
  using unat_of_nat_32 [of "nat fd"] by simp

lemma disk_path_string:
  assumes "ramdisk nm s" and "path_fits nm path"
  shows "\<exists>str. disk_path nm path = str @ [0] \<and> cstring str \<and> length str < 1024"
proof -
  have "cstring (pathstr path)" using assms(2) unfolding path_fits_def
    by (auto simp: pathstr_def cstring_def valid_name_def list_all_iff)
  moreover have "cstring nm" using assms(1) by (simp add: ramdisk_def)
  ultimately show ?thesis using assms(2)
    by (intro exI [of _ "nm @ 0x3A # pathstr path"]) (auto simp: disk_path_def cstring_def path_fits_def)
qed

lemma path_written:
  assumes "task_files nm pp bp cap s" and "path_fits nm path"
  obtains r where "user_write pp (disk_path nm path) s = Inr (s\<lparr>vm := (vm s)\<lparr>ram := r\<rparr>\<rparr>)"
    "\<And>regs n b c d i. user_string pp (enter regs n b c d i (s\<lparr>vm := (vm s)\<lparr>ram := r\<rparr>\<rparr>)) = Inr (disk_path nm path)"
proof -
  obtain str where str: "disk_path nm path = str @ [0]" "cstring str" "length str < 1024"
    using disk_path_string [of nm "fsys s" path] assms by (auto simp: task_files_def)
  have R: "region (vm s) pp 1024" using assms(1) by (simp add: task_files_def)
  from user_string_written [OF R str(2,3)] obtain r where r: "user_write pp (str @ [0]) s = Inr (s\<lparr>vm := (vm s)\<lparr>ram := r\<rparr>\<rparr>)"
      "user_string pp (put_regs undefined id (s\<lparr>vm := (vm s)\<lparr>ram := r\<rparr>\<rparr>)) = Inr (str @ [0])" by metis
  then have "user_string pp (enter regs n b c d i (s\<lparr>vm := (vm s)\<lparr>ram := r\<rparr>\<rparr>)) = Inr (str @ [0])" for regs n b c d i
    by (simp add: user_string_def)
  with r(1) that show thesis unfolding str(1) by blast
qed

lemma task_touch_ok:
  assumes F: "task_files nm pp bp cap s" and room: "task_roomy s" and cr: "disk_creatable nm (fsys s) path"
  shows "\<exists>s'. user_touch D regs pp nm path s = Inr s' \<and> task_files nm pp bp cap s' \<and> task_roomy s' \<and> path_fits nm path \<and>
    disk_view nm (fsys s') = (\<lambda>q. if same_path q path then Some (File []) else disk_view nm (fsys s) q)"
proof -
  have D: "ramdisk nm (fsys s)" and pp: "pp \<noteq> 0" using F by (simp_all add: task_files_def)
  from disk_touch_ok [OF D cr] obtain v where v: "disk_touch nm path (fsys s) = Inr v" "ramdisk nm v" "path_fits nm path"
      "disk_view nm v = (\<lambda>q. if same_path q path then Some (File []) else disk_view nm (fsys s) q)" by blast
  from path_written [OF F v(3)] obtain r where r: "user_write pp (disk_path nm path) s = Inr (s\<lparr>vm := (vm s)\<lparr>ram := r\<rparr>\<rparr>)"
      "\<And>regs n b c d i. user_string pp (enter regs n b c d i (s\<lparr>vm := (vm s)\<lparr>ram := r\<rparr>\<rparr>)) = Inr (disk_path nm path)" by blast
  define s1 where "s1 = enter regs 9 pp 0 0 0 (s\<lparr>vm := (vm s)\<lparr>ram := r\<rparr>\<rparr>)"
  have run: "user_touch D regs pp nm path s = Inr (s1\<lparr>fsys := v\<rparr>)"
    using r(1) r(2) [of regs 9 pp 0 0 0] v(1) pp
    by (simp add: user_touch_def syscalls sys_touch_def path_call_def on_files_def disk_touch_def s1_def)
  have "task_ok (s1\<lparr>fsys := v\<rparr>)" using F by (simp add: task_files_def task_ok_def s1_def get_self_def)
  moreover have "vm (s1\<lparr>fsys := v\<rparr>) = (vm s)\<lparr>ram := ram (vm (s1\<lparr>fsys := v\<rparr>))\<rparr>" by (simp add: s1_def)
  moreover have "ramdisk nm (fsys (s1\<lparr>fsys := v\<rparr>))" using v(2) by simp
  ultimately have "task_files nm pp bp cap (s1\<lparr>fsys := v\<rparr>)" by (intro task_files_cong [OF F])
  moreover have "task_roomy (s1\<lparr>fsys := v\<rparr>)" using room by (simp add: task_roomy_def s1_def)
  ultimately show ?thesis using run v(3,4) by (intro exI [of _ "s1\<lparr>fsys := v\<rparr>"]) simp
qed

lemma task_open_ok:
  assumes F: "task_files nm pp bp cap s" and room: "task_roomy s" and fits: "path_fits nm path" and c: "disk_view nm (fsys s) path = Some (File c)"
  shows "\<exists>fd s'. user_open D regs pp nm path s = Inr (fd, s') \<and> task_files nm pp bp cap s' \<and>
    disk_view nm (fsys s') = disk_view nm (fsys s) \<and> task_handle nm s' fd path \<and>
    (\<exists>f fl. fd_map s' (int fd) = Some f \<and> files (world (fsys s')) f = Some fl \<and> f_size fl = length c)"
proof -
  have D: "ramdisk nm (fsys s)" and pp: "pp \<noteq> 0" using F by (simp_all add: task_files_def)
  from disk_open_ok [OF D fits c] obtain f v where v: "disk_open nm path (fsys s) = Inr (f, v)" "ramdisk nm v"
      "disk_view nm v = disk_view nm (fsys s)" "disk_handle nm v f path" "file_size f v = Inr (length c, v)" by blast
  obtain fl where fl: "files (world v) f = Some fl" "f_size fl = length c"
    using v(5) by (auto simp: file_size_def deref_def split: option.splits)
  then have f: "f \<noteq> 0" using ramfs_wfD(6) [OF ramdiskD(3) [OF v(2)], of f] by auto
  from path_written [OF F fits] obtain r where r: "user_write pp (disk_path nm path) s = Inr (s\<lparr>vm := (vm s)\<lparr>ram := r\<rparr>\<rparr>)"
      "\<And>regs n b c d i. user_string pp (enter regs n b c d i (s\<lparr>vm := (vm s)\<lparr>ram := r\<rparr>\<rparr>)) = Inr (disk_path nm path)" by blast
  define s1 where "s1 = (enter regs 1 pp 2 0 0 (s\<lparr>vm := (vm s)\<lparr>ram := r\<rparr>\<rparr>))\<lparr>fsys := v\<rparr>"
  obtain fd s2 where fd: "file_to_fd f s1 = (fd, s2)" by (cases "file_to_fd f s1") auto
  note M = file_to_fd_map [OF f fd]
  obtain i where i: "i + 5 < 0x80000000" "i \<le> length (fd_table s)" "i < length (fd_table s) \<longrightarrow> fd_table s ! i = 0"
    using room by (auto simp: task_roomy_def)
  have bound: "5 \<le> fd" "fd < 0x80000000"
    using M(1) M(5) [of i] i by (auto simp: s1_def FD_OFFSET_def)
  have ok1: "task_ok s1" using F by (simp add: task_files_def task_ok_def s1_def get_self_def)
  then have "task_ok s2" by (subst M(4)) (simp add: task_ok_def get_self_def)
  from register_ok [OF this, of "\<lparr>res_dealloc = dealloc_addr s2, res_resource = of_nat f\<rparr>"] obtain ts where
    ts: "resource_register_self \<lparr>res_dealloc = dealloc_addr s2, res_resource = of_nat f\<rparr> s2 = Inr (s2\<lparr>tasks := ts\<rparr>)"
      "task_ok (s2\<lparr>tasks := ts\<rparr>)" by blast
  define s3 where "s3 = put_regs regs (\<lambda>r. r\<lparr>edx := of_int fd\<rparr>) (s2\<lparr>tasks := ts\<rparr>)"
  have run: "user_open D regs pp nm path s = Inr (nat fd, s3)"
    using r(1) r(2) [of regs 1 pp 2 0 0] v(1) pp f bound fd ts(1)
    by (simp add: user_open_def syscalls sys_open_def Let_def disk_open_def s1_def s3_def fd_word)
  have s2: "fsys s2 = v" "vm s2 = (vm s)\<lparr>ram := r\<rparr>" by (subst M(4), simp add: s1_def)+
  have tok: "task_ok s3" using ts(2) by (simp add: s3_def task_ok_def)
  have rd: "ramdisk nm (fsys s3)" using v(2) s2(1) by (simp add: s3_def)
  have "vm s3 = (vm s)\<lparr>ram := ram (vm s3)\<rparr>" using s2(2) by (simp add: s3_def)
  note inv = task_files_cong [OF F rd tok this]
  have map3: "fd_map s3 (int (nat fd)) = Some f" using M(3) bound by (simp add: s3_def)
  then have "task_handle nm s3 (nat fd) path" using bound v(4) s2(1) by (auto simp: task_handle_def s3_def)
  moreover have "disk_view nm (fsys s3) = disk_view nm (fsys s)" "files (world (fsys s3)) f = Some fl" using s2(1) v(3) fl by (simp_all add: s3_def)
  ultimately show ?thesis using run inv map3 fl(2) by blast
qed

lemma disk_file_bound:
  assumes "ramdisk nm s" and "disk_view nm s path = Some (File c)"
  shows "length c < 0x80000000"
proof -
  obtain p where p: "walk (world s) (the_disk nm s) path = Some p" "entry_of (world s) p = File c"
    using assms(2) by (auto simp: disk_view_def tree_map_def)
  obtain n where "r_nodes (world s) p = Some n" using walk_nonzero [OF ramdiskD(3,4) [OF assms(1)] p(1)] by auto
  from file_body [OF ramdiskD(3) [OF assms(1)] p(2) this] obtain sz d where "0 \<le> sz" "sz < 0x80000000"
      "c = bytes_at d (nat sz) (kernel_memory (world s))" by metis
  then show ?thesis by (simp add: bytes_at_def nat_less_iff)
qed

lemma file_arg_ok:
  assumes "task_handle nm s fd path"
  obtains f where "file_arg msg (of_nat fd) s = Inr f" "fd_map s (int fd) = Some f" "f \<noteq> 0" "disk_handle nm (fsys s) f path"
    "(of_nat fd :: u32) \<noteq> 0" "(of_nat fd :: u32) \<noteq> 1" "(of_nat fd :: u32) \<noteq> 2"
proof -
  obtain f where f: "fd_map s (int fd) = Some f" "disk_handle nm (fsys s) f path" and b: "5 \<le> fd" "fd < 0x80000000"
    using assms by (auto simp: task_handle_def)
  have u: "unat (of_nat fd :: u32) = fd" using b(2) by (intro unat_of_nat_32) simp
  have ne: "(of_nat fd :: u32) \<noteq> 0" "(of_nat fd :: u32) \<noteq> 1" "(of_nat fd :: u32) \<noteq> 2"
    using u b(1) by (auto simp del: unsigned_of_nat)
  show thesis using that [of f] fd_to_file_map [OF f(1)] f ne sint_fd [OF b(2)] by (simp add: file_arg_def)
qed

lemma task_size_ok:
  assumes F: "task_files nm pp bp cap s" and h: "task_handle nm s fd path"
    and f: "fd_map s (int fd) = Some f" "files (world (fsys s)) f = Some fl" "f_size fl < 0x80000000"
  shows "\<exists>s'. user_size D regs fd s = Inr (f_size fl, s') \<and> task_files nm pp bp cap s' \<and> fsys s' = fsys s \<and> task_handle nm s' fd path"
proof -
  from h obtain f' where f': "file_arg ''sys_filesize: invalid file descriptor'' (of_nat fd) s = Inr f'" "fd_map s (int fd) = Some f'"
    by (rule file_arg_ok)
  define s' where "s' = put_regs regs (\<lambda>r. r\<lparr>ecx := of_nat (f_size fl)\<rparr>) (enter regs 5 (of_nat fd) 0 0 0 s)"
  have "user_size D regs fd s = Inr (f_size fl, s')"
    using f f' unat_of_nat_32 [of "f_size fl"] by (simp add: user_size_def syscalls sys_filesize_def file_arg_def deref_def s'_def del: unsigned_of_nat)
  moreover have "task_files nm pp bp cap s'" by (rule task_files_cong [OF F]) (use F in \<open>auto simp: s'_def task_files_def task_ok_def\<close>)
  moreover have "task_handle nm s' fd path" using h by (simp add: task_handle_def s'_def)
  ultimately show ?thesis by (auto simp: s'_def)
qed

lemma task_read_ok:
  assumes F: "task_files nm pp bp cap s" and h: "task_handle nm s fd path" and c: "disk_view nm (fsys s) path = Some (File c)"
    and bound: "off + n \<le> length c" "n \<le> cap"
  shows "\<exists>s'. user_load D regs bp fd n off s = Inr (take n (drop off c), s') \<and> task_files nm pp bp cap s' \<and> fsys s' = fsys s \<and> task_handle nm s' fd path"
proof -
  have D: "ramdisk nm (fsys s)" and bp: "bp \<noteq> 0" and R: "region (vm s) bp cap" using F by (simp_all add: task_files_def)
  note len = disk_file_bound [OF D c]
  from h obtain f where f: "file_arg ''sys_read: invalid file descriptor'' (of_nat fd) s = Inr f" "f \<noteq> 0" "disk_handle nm (fsys s) f path"
      "(of_nat fd :: u32) \<noteq> 0" "(of_nat fd :: u32) \<noteq> 1" "(of_nat fd :: u32) \<noteq> 2" by (rule file_arg_ok)
  note rd = disk_read_ok [OF D f(3) c bound(1)]
  define s1 where "s1 = enter regs 3 (of_nat fd) bp (of_nat n) (of_nat off) s"
  have R1: "region (vm s1) bp cap" using R by (simp add: s1_def)
  have l: "length (take n (drop off c)) = n" using bound(1) by simp
  have "length (take n (drop off c)) \<le> cap" using bound by simp
  from user_write_region [OF R1 this] obtain r where r: "user_write bp (take n (drop off c)) s1 = Inr (s1\<lparr>vm := (vm s1)\<lparr>ram := r\<rparr>\<rparr>)"
    "\<forall>i<n. r (mmu_addr (vm s1) (bp + of_nat i)) = take n (drop off c) ! i" unfolding l by metis
  define s2 where "s2 = s1\<lparr>vm := (vm s1)\<lparr>ram := r\<rparr>\<rparr>"
  have u: "unat (of_nat n :: u32) = n" "unat (of_nat off :: u32) = off" using bound(1) len by (auto intro!: unat_of_nat_32)
  have fa: "file_arg ''sys_read: invalid file descriptor'' (of_nat fd) s1 = Inr f" using f(1) by (simp add: file_arg_def s1_def)
  have "sys_read regs s1 = user_write bp (take n (drop off c)) (s1\<lparr>fsys := fsys s\<rparr>)"
    using bp f(4-6) fa rd u by (simp add: sys_read_def s1_def Let_def del: unsigned_of_nat)
  also have "s1\<lparr>fsys := fsys s\<rparr> = s1" by (simp add: s1_def enter_def put_regs_def)
  finally have call: "syscall D regs 3 (of_nat fd) bp (of_nat n) (of_nat off) s = Inr s2"
    using r(1) by (simp add: syscalls s1_def s2_def)
  have "mmu_read (vm s2) bp (length (take n (drop off c))) = Inr (take n (drop off c))"
    by (rule user_read_written [of _ _ cap]) (use R1 r(2) l bound(2) in \<open>simp_all add: s2_def\<close>)
  then have "user_load D regs bp fd n off s = Inr (take n (drop off c), s2)" using call l by (simp add: user_load_def user_read_def)
  moreover have "task_files nm pp bp cap s2"
    by (rule task_files_cong [OF F]) (use F in \<open>auto simp: s2_def s1_def task_files_def task_ok_def get_self_def\<close>)
  moreover have "task_handle nm s2 fd path" using h by (simp add: task_handle_def s2_def s1_def)
  ultimately show ?thesis by (auto simp: s2_def s1_def)
qed

lemma task_write_ok:
  assumes F: "task_files nm pp bp cap s" and h: "task_handle nm s fd path" and c: "disk_view nm (fsys s) path = Some (File c)"
    and bound: "off \<le> length c" "off + length buf < 0x80000000" "length buf \<le> cap"
  shows "\<exists>s'. user_store D regs bp fd buf off s = Inr s' \<and> task_files nm pp bp cap s' \<and> task_handle nm s' fd path \<and>
    disk_view nm (fsys s') = (\<lambda>q. if same_path q path then Some (File (overwrite off buf c)) else disk_view nm (fsys s) q)"
proof -
  have D: "ramdisk nm (fsys s)" and bp: "bp \<noteq> 0" and R: "region (vm s) bp cap" using F by (simp_all add: task_files_def)
  from user_write_region [OF R bound(3)] obtain r where r: "user_write bp buf s = Inr (s\<lparr>vm := (vm s)\<lparr>ram := r\<rparr>\<rparr>)"
    "\<forall>i<length buf. r (mmu_addr (vm s) (bp + of_nat i)) = buf ! i" by blast
  from h obtain f where f: "file_arg ''sys_write: invalid file descriptor'' (of_nat fd) s = Inr f" "fd_map s (int fd) = Some f" "disk_handle nm (fsys s) f path"
      "(of_nat fd :: u32) \<noteq> 0" "(of_nat fd :: u32) \<noteq> 1" "(of_nat fd :: u32) \<noteq> 2" by (rule file_arg_ok)
  from disk_write_ok [OF D f(3) c bound(1,2)] obtain v where v: "vfs_write f buf off (fsys s) = Inr v" "ramdisk nm v" "disk_handle nm v f path"
      "disk_view nm v = (\<lambda>q. if same_path q path then Some (File (overwrite off buf c)) else disk_view nm (fsys s) q)" by blast
  define s1 where "s1 = enter regs 4 (of_nat fd) bp (of_nat (length buf)) (of_nat off) (s\<lparr>vm := (vm s)\<lparr>ram := r\<rparr>\<rparr>)"
  have u: "unat (of_nat (length buf) :: u32) = length buf" "unat (of_nat off :: u32) = off" using bound(2) by (auto intro!: unat_of_nat_32)
  have "mmu_read (vm s1) bp (length buf) = Inr buf"
    by (rule user_read_written [of _ _ cap]) (use R r(2) bound(3) in \<open>simp_all add: s1_def\<close>)
  moreover have "file_arg ''sys_write: invalid file descriptor'' (of_nat fd) s1 = Inr f" using f(1) by (simp add: file_arg_def s1_def)
  ultimately have "sys_write regs s1 = Inr (s1\<lparr>fsys := v\<rparr>)"
    using bp f(4-6) v(1) u by (simp add: sys_write_def s1_def Let_def user_read_def on_files_def del: unsigned_of_nat)
  then have run: "user_store D regs bp fd buf off s = Inr (s1\<lparr>fsys := v\<rparr>)" using r(1) by (simp add: user_store_def syscalls s1_def)
  have "task_files nm pp bp cap (s1\<lparr>fsys := v\<rparr>)"
    by (rule task_files_cong [OF F]) (use F v(2) in \<open>auto simp: s1_def task_files_def task_ok_def get_self_def\<close>)
  moreover have "task_handle nm (s1\<lparr>fsys := v\<rparr>) fd path" using h f(2) v(3) by (simp add: task_handle_def s1_def)
  ultimately show ?thesis using run v(4) by (intro exI [of _ "s1\<lparr>fsys := v\<rparr>"]) simp
qed

lemma task_close_ok:
  assumes F: "task_files nm pp bp cap s" and h: "task_handle nm s fd path"
  shows "\<exists>s'. user_close D regs fd s = Inr s' \<and> task_files nm pp bp cap s' \<and> task_roomy s' \<and> disk_view nm (fsys s') = disk_view nm (fsys s)"
proof -
  have D: "ramdisk nm (fsys s)" using F by (simp add: task_files_def)
  from h obtain f where f: "file_arg ''sys_close: invalid file descriptor'' (of_nat fd) s = Inr f" "fd_map s (int fd) = Some f" "disk_handle nm (fsys s) f path"
    by (rule file_arg_ok)
  have b: "5 \<le> fd" "fd < 0x80000000" using h by (simp_all add: task_handle_def)
  from disk_close_ok [OF D f(3)] obtain v where v: "vfs_close f (fsys s) = Inr v" "ramdisk nm v" "disk_view nm v = disk_view nm (fsys s)" by blast
  define s1 where "s1 = (enter regs 2 (of_nat fd) 0 0 0 s)\<lparr>fsys := v\<rparr>"
  have "task_ok s1" using F by (simp add: task_files_def task_ok_def s1_def get_self_def)
  from unregister_ok [OF this] obtain ts where ts: "resource_unregister_self (of_nat f) s1 = Inr (s1\<lparr>tasks := ts\<rparr>)" "task_ok (s1\<lparr>tasks := ts\<rparr>)" by blast
  have "fd_map (s1\<lparr>tasks := ts\<rparr>) (int fd) = Some f" using f(2) by (simp add: s1_def)
  from fd_free_map [OF this] obtain s2 where s2: "fd_free (int fd) (s1\<lparr>tasks := ts\<rparr>) = Inr s2" "s2 = s1\<lparr>tasks := ts, fd_table := fd_table s2\<rparr>"
      "length (fd_table s2) = length (fd_table s1)" "fd_table s2 ! nat (int fd - FD_OFFSET) = 0" by auto
  have fa: "file_arg ''sys_close: invalid file descriptor'' (of_nat fd) (enter regs 2 (of_nat fd) 0 0 0 s) = Inr f" using f(1) by (simp add: file_arg_def)
  have "sys_close regs (enter regs 2 (of_nat fd) 0 0 0 s) = Inr s2"
    using fa v(1) ts(1) s2(1) sint_fd [OF b(2)] by (simp add: sys_close_def on_files_def s1_def)
  then have run: "user_close D regs fd s = Inr s2" by (simp add: user_close_def syscalls)
  have fs2: "fsys s2 = v" "vm s2 = vm s" by (subst s2(2), simp add: s1_def)+
  have "task_ok s2" using ts(2) by (subst s2(2)) (simp add: task_ok_def get_self_def)
  then have "task_files nm pp bp cap s2" by (intro task_files_cong [OF F]) (use fs2 v(2) in simp_all)
  moreover have "fd - 5 < length (fd_table s2)" "fd_table s2 ! (fd - 5) = 0"
    using f(2) s2(3,4) b(1) by (auto simp: fd_map_def FD_OFFSET_def s1_def nat_diff_distrib split: if_splits)
  then have "task_roomy s2" using b unfolding task_roomy_def by (intro exI [of _ "fd - 5"]) auto
  ultimately show ?thesis using run fs2(1) v(3) by auto
qed

section \<open>The contract of files holds for programs\<close>

lemma task_laws:
  "task_files nm pp bp cap s \<Longrightarrow> task_roomy s \<Longrightarrow> path_fits nm path \<Longrightarrow> disk_view nm (fsys s) path = Some (File c) \<Longrightarrow>
    \<exists>fd s' s''. user_open D regs pp nm path s = Inr (fd, s') \<and> task_files nm pp bp cap s' \<and>
      disk_view nm (fsys s') = disk_view nm (fsys s) \<and> task_handle nm s' fd path \<and> user_size D regs fd s' = Inr (length c, s'') \<and>
      task_files nm pp bp cap s'' \<and> disk_view nm (fsys s'') = disk_view nm (fsys s) \<and> task_handle nm s'' fd path"
  "task_files nm pp bp cap s \<Longrightarrow> task_handle nm s fd path \<Longrightarrow> disk_view nm (fsys s) path = Some (File c) \<Longrightarrow> off + n \<le> length c \<Longrightarrow>
    n \<le> cap \<Longrightarrow> \<exists>s'. user_load D regs bp fd n off s = Inr (take n (drop off c), s') \<and> task_files nm pp bp cap s' \<and>
      disk_view nm (fsys s') = disk_view nm (fsys s) \<and> task_handle nm s' fd path"
proof -
  assume s: "task_files nm pp bp cap s" "task_roomy s" "path_fits nm path" and c: "disk_view nm (fsys s) path = Some (File c)"
  from task_open_ok [OF s c] obtain fd s' f fl where s': "user_open D regs pp nm path s = Inr (fd, s')" "task_files nm pp bp cap s'"
      "disk_view nm (fsys s') = disk_view nm (fsys s)" "task_handle nm s' fd path" "fd_map s' (int fd) = Some f"
      "files (world (fsys s')) f = Some fl" "f_size fl = length c" by blast
  have "f_size fl < 0x80000000" using disk_file_bound [OF _ c] s(1) s'(7) by (simp add: task_files_def)
  from task_size_ok [OF s'(2,4,5,6) this, of D regs] s' show
    "\<exists>fd s' s''. user_open D regs pp nm path s = Inr (fd, s') \<and> task_files nm pp bp cap s' \<and>
      disk_view nm (fsys s') = disk_view nm (fsys s) \<and> task_handle nm s' fd path \<and> user_size D regs fd s' = Inr (length c, s'') \<and>
      task_files nm pp bp cap s'' \<and> disk_view nm (fsys s'') = disk_view nm (fsys s) \<and> task_handle nm s'' fd path" by metis
next
  assume "task_files nm pp bp cap s" "task_handle nm s fd path" "disk_view nm (fsys s) path = Some (File c)" "off + n \<le> length c" "n \<le> cap"
  from task_read_ok [OF this] show "\<exists>s'. user_load D regs bp fd n off s = Inr (take n (drop off c), s') \<and> task_files nm pp bp cap s' \<and>
      disk_view nm (fsys s') = disk_view nm (fsys s) \<and> task_handle nm s' fd path" by metis
qed

interpretation task_store: writable_store "task_files nm pp bp cap" "\<lambda>s. disk_view nm (fsys s)" "task_handle nm" "user_open D regs pp nm"
    "user_size D regs" "user_load D regs bp" "user_close D regs" "path_fits nm" task_roomy cap same_path "\<lambda>s. disk_creatable nm (fsys s)"
    "user_touch D regs pp nm" "user_store D regs bp"
  for nm :: "u8 list" and pp bp :: u32 and cap :: nat and D :: "('a ramfs_ext, 'z) kernel_scheme drivers" and regs :: u32
  by unfold_locales (rule task_laws task_close_ok task_touch_ok task_write_ok; assumption | simp add: same_path_def)+

text \<open>
  C33. A program that saves a file and loads it again with system calls gets its data back: creating, opening, writing and
  closing the file succeed, with the path and the data in the program's own memory, which the kernel reads through its page
  tables; opening, asking for the size, reading and closing it puts exactly the data into the program's buffer; and
  every other path of the file system shows what it showed before.
\<close>

theorem program_saves_and_loads:
  assumes "task_files nm pp bp cap s" and "task_roomy s" and "disk_creatable nm (fsys s) path" and "length data \<le> cap"
  shows "\<exists>s1 s2. save_file (user_touch D regs pp nm) (user_open D regs pp nm) (user_store D regs bp) (user_close D regs) path data s = Inr s1 \<and>
    load_file (user_open D regs pp nm) (user_size D regs) (user_load D regs bp) (user_close D regs) path s1 = Inr (data, s2) \<and>
    (\<forall>q. \<not> same_path q path \<longrightarrow> disk_view nm (fsys s2) q = disk_view nm (fsys s) q)"
proof -
  have "length data < 0x80000000" using assms(1,4) by (simp add: task_files_def)
  from task_store.save_then_load [OF assms(1-3) this assms(4)] show ?thesis .
qed

section \<open>A kernel with a file system and a task\<close>

definition demo_vm :: vmm where
  "demo_vm = demo_mapped\<lparr>cr3 := 0x4000\<rparr>"

definition demo_kernel :: "ramfs vfs \<Rightarrow> (unit ramfs_ext) kernel" where
  "demo_kernel v = sched.extend (init_sched demo_vm (\<lambda>_. new_state 0 0))
     (kernel.fields v [] \<lparr>topics = [], entries = \<lambda>_. None, next_entry = 0\<rparr> [] 0xC0101000 True 1 0)"

lemma demo_kernel_fields [simp]:
  "fsys (demo_kernel v) = v" "fd_table (demo_kernel v) = []" "vm (demo_kernel v) = demo_vm" "tasks (demo_kernel v) = replicate MAX_TASKS zero_task"
  "current_task (demo_kernel v) = 0" "inbox (demo_kernel v) = \<lparr>topics = [], entries = \<lambda>_. None, next_entry = 0\<rparr>"
  by (simp_all add: demo_kernel_def sched.extend_def kernel.fields_def init_sched_def)

lemma demo_mmu: "i < 4096 \<Longrightarrow> mmu demo_vm (0xB0000000 + of_nat i) = Inr (0x7000 + of_nat i)"
proof -
  assume i: "i < 4096"
  define a :: u32 where "a = 0xB0000000 + of_nat i"
  have a: "unat a = 0xB0000000 + i" using i by (simp add: a_def unat_word_ariths unat_of_nat)
  have q: "(0xB0000000 + i) div 4096 = 720896" using i by simp
  have r: "(0xB0000000 + i) mod 4096 = i" using i mod_mult_self1 [of i "720896" 4096] by (simp add: add.commute)
  have "pd_index a = 704" "pt_index a = 0"
    using q by (simp_all add: pd_index_def pt_index_def unat_div unat_mod a)
  moreover have "a mod 0x1000 = of_nat i"
    by (rule word_unat_eq_iff [THEN iffD2]) (use i r in \<open>simp add: unat_mod a unat_of_nat\<close>)
  ultimately show "mmu demo_vm (0xB0000000 + of_nat i) = Inr (0x7000 + of_nat i)"
    unfolding a_def [symmetric] by (simp add: mmu_def demo_vm_def demo_mapped_def present_def PTE_PRESENT_def entry_page_def)
qed

lemma demo_region:
  assumes "k + n \<le> 4096"
  shows "region demo_vm (0xB0000000 + of_nat k) n"
proof -
  have m: "mmu demo_vm (0xB0000000 + of_nat k + of_nat i) = Inr (0x7000 + of_nat (k + i))" if "i < n" for i
    using demo_mmu [of "k + i"] that assms by (simp add: add.assoc)
  have "mmu_addr demo_vm (0xB0000000 + of_nat k + of_nat i) = 0x7000 + of_nat (k + i)" if "i < n" for i
    using mmu_InrD [OF m [OF that]] by simp
  moreover have "inj_on (\<lambda>i. 0x7000 + of_nat (k + i) :: u32) {..<n}"
  proof (rule inj_onI)
    fix i j assume "i \<in> {..<n}" "j \<in> {..<n}" "0x7000 + of_nat (k + i) = (0x7000 + of_nat (k + j) :: u32)"
    then show "i = j" using assms unat_of_nat_32 [of "k + i"] unat_of_nat_32 [of "k + j"] by simp
  qed
  ultimately have "inj_on (\<lambda>i. mmu_addr demo_vm (0xB0000000 + of_nat k + of_nat i)) {..<n}" unfolding inj_on_def by simp
  then show ?thesis using m mmu_InrD [OF m] by (simp add: region_def)
qed

definition demo_drivers :: "'k drivers" where
  "demo_drivers = \<lparr>typed = Pair 0, env_call = (\<lambda>_ _. Inr), other_call = (\<lambda>_ regs s. Inr (regs, s)),
     other_dealloc = (\<lambda>_ _ _. Inl BadPointer)\<rparr>"

theorem program_saves_and_loads_witness:
  "\<exists>v s1 s2. stage_mount boot_vfs = Inr v \<and>
    save_file (user_touch demo_drivers 0x500000 0xB0000000 tmp_name) (user_open demo_drivers 0x500000 0xB0000000 tmp_name) (user_store demo_drivers 0x500000 0xB0000800) (user_close demo_drivers 0x500000)
      [[0x61]] [1, 2, 3] (demo_kernel v) = Inr s1 \<and>
    load_file (user_open demo_drivers 0x500000 0xB0000000 tmp_name) (user_size demo_drivers 0x500000) (user_load demo_drivers 0x500000 0xB0000800) (user_close demo_drivers 0x500000) [[0x61]] s1 = Inr ([1, 2, 3], s2)"
proof -
  obtain v where v: "stage_mount boot_vfs = Inr v" "ramdisk tmp_name v" "disk_creatable tmp_name v [[0x61]]" by (rule boot_tmp)
  have "region demo_vm 0xB0000000 1024" "region demo_vm 0xB0000800 16"
    using demo_region [where k = 0 and n = 1024] demo_region [where k = "0x800" and n = 16] by simp_all
  then have F: "task_files tmp_name 0xB0000000 0xB0000800 16 (demo_kernel v)"
    using v(2) by (simp add: task_files_def task_ok_def get_self_def MAX_TASKS_def zero_task_def)
  have room: "task_roomy (demo_kernel v)" by (auto simp: task_roomy_def)
  have cr: "disk_creatable tmp_name (fsys (demo_kernel v)) [[0x61]]" using v(3) by simp
  from program_saves_and_loads [OF F room cr, where data = "[1, 2, 3]" and D = demo_drivers and regs = "0x500000"] v(1) show ?thesis by auto
qed

end
