(* ===== verification/Syscalls_Tasks.thy ===== *)
theory Syscalls_Tasks
  imports Syscalls_Files
begin

text \<open>
  What happens between tasks: messages cross address spaces, pipes move bytes to the task that set them up, and the end of a
  task closes its files.
\<close>

section \<open>Messages\<close>

lemma message_calls:
  "syscall D regs 52 b c d i s = sys_message_send regs (enter regs 52 b c d i s)"
  "syscall D regs 53 b c d i s = sys_message_recv regs (enter regs 53 b c d i s)"
  by (simp_all add: syscall_def syscall_handler_def returning_def kbind_assoc)

lemma enter_inbox [simp]: "inbox (enter regs n b c d i s) = inbox s" "inbox (put_regs regs f s) = inbox s"
  by (simp_all add: enter_def put_regs_def)

text \<open>
  C35. A message crosses address spaces. A task sends the bytes of a buffer of its own; whatever runs in between, as long as it leaves
  the messages alone, the next receive on the topic by any task, with a mapped buffer, succeeds, tells how many bytes
  were delivered, and the receiver reads exactly the first bytes of the message in its own memory.
\<close>

theorem message_crosses:
  assumes q: "implements (inbox s) Q" "Q tid = []" and snd_buf: "a \<noteq> 0" "n \<noteq> 0" "user_read a (unat n) s = Inr bs"
    and rcv_buf: "b \<noteq> 0" "m \<noteq> 0"
  shows "\<exists>s1. syscall D regs 52 tid a n 0 s = Inr s1 \<and>
    (\<forall>s2. inbox s2 = inbox s1 \<and> region (vm s2) b (unat m) \<longrightarrow>
      (\<exists>s3. syscall D regs' 53 tid b m 0 s2 = Inr s3 \<and> unat (eax (regs_of regs' s3)) = min (unat m) (length bs) \<and>
        user_read b (min (unat m) (length bs)) s3 = Inr (take (unat m) bs)))"
proof -
  from message_send_implements [OF q(1), of tid bs] obtain im where im: "message_send tid bs (inbox s) = Inr im"
      "implements im (Q(tid := Q tid @ [bs]))" by blast
  define s1 where "s1 = (enter regs 52 tid a n 0 s)\<lparr>inbox := im\<rparr>"
  have send: "syscall D regs 52 tid a n 0 s = Inr s1"
    using snd_buf im(1) by (simp add: message_calls sys_message_send_def Let_def s1_def user_read_def)
  have "\<exists>s3. syscall D regs' 53 tid b m 0 s2 = Inr s3 \<and> unat (eax (regs_of regs' s3)) = min (unat m) (length bs) \<and>
      user_read b (min (unat m) (length bs)) s3 = Inr (take (unat m) bs)" if ib: "inbox s2 = inbox s1" and R: "region (vm s2) b (unat m)" for s2
  proof -
    from message_recv_implements [OF im(2), of tid "unat m"] q(2) obtain im' where
      im': "message_recv tid (unat m) im = Inr (take (unat m) bs, im')" by auto
    define s2' where "s2' = (enter regs' 53 tid b m 0 s2)\<lparr>inbox := im'\<rparr>"
    have R': "region (vm s2') b (unat m)" "length (take (unat m) bs) \<le> unat m" using R by (simp_all add: s2'_def)
    from user_write_region [OF R'] obtain r where r: "user_write b (take (unat m) bs) s2' = Inr (s2'\<lparr>vm := (vm s2')\<lparr>ram := r\<rparr>\<rparr>)"
      "\<forall>i<length (take (unat m) bs). r (mmu_addr (vm s2') (b + of_nat i)) = take (unat m) bs ! i" by blast
    define s3 where "s3 = put_regs regs' (\<lambda>r. r\<lparr>eax := of_nat (length (take (unat m) bs))\<rparr>) (s2'\<lparr>vm := (vm s2')\<lparr>ram := r\<rparr>\<rparr>)"
    have "inbox s2 = im" using ib by (simp add: s1_def)
    then have "syscall D regs' 53 tid b m 0 s2 = Inr s3"
      using rcv_buf im' r(1) by (simp add: message_calls sys_message_recv_def Let_def s2'_def s3_def)
    moreover have "unat (of_nat (length (take (unat m) bs)) :: u32) = length (take (unat m) bs)"
      using unat_lt_32 [of m] by (intro unat_of_nat_32) simp
    then have "unat (eax (regs_of regs' s3)) = min (unat m) (length bs)" by (simp add: s3_def min.commute del: unsigned_of_nat)
    moreover have "mmu_read (vm s3) b (length (take (unat m) bs)) = Inr (take (unat m) bs)"
      by (rule user_read_written [of _ _ "unat m"]) (use R' r(2) in \<open>simp_all add: s3_def\<close>)
    then have "user_read b (min (unat m) (length bs)) s3 = Inr (take (unat m) bs)" by (simp add: user_read_def min.commute)
    ultimately show ?thesis by blast
  qed
  with send show ?thesis by blast
qed

section \<open>The end of a task\<close>

definition closed_by :: "resource list \<Rightarrow> nat set" where
  "closed_by rs = unat ` (res_resource ` set rs - {0})"

definition open_files :: "u32 \<Rightarrow> 'a ramfs_scheme vfs \<Rightarrow> resource list \<Rightarrow> bool" where
  "open_files destr v rs \<longleftrightarrow> distinct (filter (\<lambda>x. x \<noteq> 0) (map res_resource rs)) \<and>
     (\<forall>r\<in>set rs. res_resource r \<noteq> 0 \<longrightarrow> res_dealloc r = destr \<and>
        (\<exists>fl. files (world v) (unat (res_resource r)) = Some fl \<and> mount_ops v (f_mount fl) = Some ramfs_ops))"

lemma vfs_close_ramfs:
  assumes "files (world v) f = Some fl" and "mount_ops v (f_mount fl) = Some ramfs_ops"
  shows "vfs_close f v = Inr (v\<lparr>world := (world v)\<lparr>files := (files (world v))(f := None)\<rparr>\<rparr>)"
  using assms by (simp add: vfs_close_def file_mount_def deref_def tested_def ramfs_ops_sel on_world_def ramfs_close_def)

lemma dealloc_files:
  "k + n = length rs \<Longrightarrow> resources (tasks s ! i) = Some rs \<Longrightarrow> open_files (dealloc_addr s) (fsys s) (drop k rs) \<Longrightarrow>
    \<exists>v. dealloc_from (run_dealloc others) i k n s = Inr (s\<lparr>fsys := v\<rparr>) \<and> mount_ops v = mount_ops (fsys s) \<and>
      files (world v) = (\<lambda>f. if f \<in> closed_by (drop k rs) then None else files (world (fsys s)) f)"
proof (induction n arbitrary: k s)
  case 0
  then show ?case by (intro exI [of _ "fsys s"]) (simp add: closed_by_def)
next
  case (Suc n)
  define r where "r = rs ! k"
  have k: "k < length rs" and d: "drop k rs = r # drop (Suc k) rs" using Suc.prems(1) by (simp_all add: r_def Cons_nth_drop_Suc)
  show ?case
  proof (cases "res_resource r = 0")
    case True
    then have "open_files (dealloc_addr s) (fsys s) (drop (Suc k) rs)" and "closed_by (drop k rs) = closed_by (drop (Suc k) rs)"
      using Suc.prems(3) by (auto simp: open_files_def d closed_by_def)
    with Suc.IH [of "Suc k" s] Suc.prems(1,2) k True show ?thesis by (auto simp: r_def [symmetric])
  next
    case False
    define f where "f = unat (res_resource r)"
    obtain fl where fl: "res_dealloc r = dealloc_addr s" "files (world (fsys s)) f = Some fl" "mount_ops (fsys s) (f_mount fl) = Some ramfs_ops"
      using Suc.prems(3) False by (auto simp: open_files_def d f_def)
    define v1 where "v1 = (fsys s)\<lparr>world := (world (fsys s))\<lparr>files := (files (world (fsys s)))(f := None)\<rparr>\<rparr>"
    define s1 where "s1 = s\<lparr>fsys := v1\<rparr>"
    have run: "run_dealloc others (res_dealloc r) (res_resource r) s = Inr s1"
      using vfs_close_ramfs [OF fl(2,3)] fl(1) by (simp add: run_dealloc_def sys_open_dealloc_def on_files_def f_def s1_def v1_def)
    have "res_resource r \<notin> res_resource ` set (drop (Suc k) rs)" using Suc.prems(3) False by (auto simp: open_files_def d)
    then have "res_resource r' \<noteq> res_resource r" if "r' \<in> set (drop (Suc k) rs)" for r' using that by (metis imageI)
    then have other: "unat (res_resource r') \<noteq> f" if "r' \<in> set (drop (Suc k) rs)" "res_resource r' \<noteq> 0" for r'
      using that by (simp add: f_def flip: unat_eq_iff_32)
    have "open_files (dealloc_addr s1) (fsys s1) (drop (Suc k) rs)"
      using Suc.prems(3) other False by (auto simp: open_files_def d s1_def v1_def)
    from Suc.IH [OF _ _ this] Suc.prems(1,2) obtain v where v: "dealloc_from (run_dealloc others) i (Suc k) n s1 = Inr (s1\<lparr>fsys := v\<rparr>)"
        "mount_ops v = mount_ops (fsys s1)" "files (world v) = (\<lambda>f. if f \<in> closed_by (drop (Suc k) rs) then None else files (world (fsys s1)) f)"
      by (auto simp: s1_def)
    have "closed_by (drop k rs) = insert f (closed_by (drop (Suc k) rs))" using False by (auto simp: d closed_by_def f_def)
    then have "files (world v) = (\<lambda>g. if g \<in> closed_by (drop k rs) then None else files (world (fsys s)) g)"
      using v(3) by (auto simp: fun_eq_iff s1_def v1_def)
    moreover have "dealloc_from (run_dealloc others) i k (Suc n) s = Inr (s\<lparr>fsys := v\<rparr>)"
      using v(1) run k Suc.prems(2) False by (simp add: r_def [symmetric] s1_def)
    ultimately show ?thesis using v(2) by (auto simp: s1_def v1_def)
  qed
qed

lemma upd_task_fields [simp]:
  "fsys (upd_task i f s) = fsys s" "fd_table (upd_task i f s) = fd_table s" "dealloc_addr (upd_task i f s) = dealloc_addr s"
  "fsys (add_exit_code p c s) = fsys s" "fd_table (add_exit_code p c s) = fd_table s" "dealloc_addr (add_exit_code p c s) = dealloc_addr s"
  "tasks (add_exit_code p c s) = tasks s"
  by (simp_all add: upd_task_def add_exit_code_def)

lemma exec_vm_fields:
  "exec_vm f s = Inr s' \<Longrightarrow> fsys s' = fsys s \<and> fd_table s' = fd_table s \<and> tasks s' = tasks s"
  by (auto simp: exec_vm_def)

lemma exec_vm_total: "exec_vm (\<lambda>v. Inr (g v)) s = Inr (s\<lparr>vm := g ((vm s)\<lparr>active_contexts := active_of (tasks s)\<rparr>)\<rparr>)"
  by (simp add: exec_vm_def)

lemma exit_task_files:
  assumes i: "i < length (tasks s)" and rs: "resources (tasks s ! i) = Some rs" "num_resources (tasks s ! i) = length rs"
    and op: "open_files (dealloc_addr s) (fsys s) rs" and kstack: "page_index (stack (tasks s ! i)) + KERNEL_STACK_SIZE_PAGES \<le> NPAGES"
  shows "\<exists>s'. exit_task (run_dealloc others) i code s = Inr s' \<and> fd_table s' = fd_table s \<and> mount_ops (fsys s') = mount_ops (fsys s) \<and>
    files (world (fsys s')) = (\<lambda>f. if f \<in> closed_by rs then None else files (world (fsys s)) f) \<and> \<not> taken (tasks s' ! i)"
proof -
  define s1 where "s1 = add_exit_code (pid (tasks s ! i)) code (upd_task i (\<lambda>t. t\<lparr>active := False, pin := False\<rparr>) s)"
  have t1: "tasks s1 = (tasks s)[i := (tasks s ! i)\<lparr>active := False, pin := False\<rparr>]" by (simp add: s1_def upd_task_def)
  have "resources (tasks s1 ! i) = Some rs" "num_resources (tasks s1 ! i) = length rs" using rs i by (simp_all add: t1)
  moreover have "open_files (dealloc_addr s1) (fsys s1) (drop 0 rs)" using op by (simp add: s1_def)
  ultimately obtain v where v: "dealloc_from (run_dealloc others) i 0 (length rs) s1 = Inr (s1\<lparr>fsys := v\<rparr>)" "mount_ops v = mount_ops (fsys s1)"
      "files (world v) = (\<lambda>f. if f \<in> closed_by rs then None else files (world (fsys s1)) f)"
    using dealloc_files [of 0 "length rs" rs s1 i] by auto
  define s2 where "s2 = upd_task i (\<lambda>t. t\<lparr>resources := None\<rparr>) (s1\<lparr>fsys := v\<rparr>)"
  have d: "resource_dealloc (run_dealloc others) i s1 = Inr s2"
    using v(1) \<open>num_resources (tasks s1 ! i) = length rs\<close> by (simp add: resource_dealloc_def s2_def)
  have f2: "fsys s2 = v" "fd_table s2 = fd_table s" by (simp_all add: s2_def s1_def)
  have t2: "tasks s2 = (tasks s)[i := (tasks s ! i)\<lparr>active := False, pin := False, resources := None\<rparr>]"
    using i by (simp add: s2_def upd_task_def t1)
  define ctx where "ctx = (\<lambda>v. vmm_destroy_context (task_context (tasks s2 ! i)) (vmm_activate_context (kernel_context v) v))"
  obtain s3 where s3: "(if parent (tasks s2 ! i) = -1 then exec_vm (\<lambda>v. Inr (ctx v)) s2 else Inr s2) = Inr s3"
      "fsys s3 = v" "fd_table s3 = fd_table s" "tasks s3 = tasks s2"
    using f2 that by (cases "parent (tasks s2 ! i) = -1") (simp_all add: exec_vm_total)
  have st: "stack (tasks s2 ! i) = stack (tasks s ! i)" using i by (simp add: t2)
  obtain b where b: "pmm_free_range (stack (tasks s ! i)) (sint (of_nat KERNEL_STACK_SIZE_PAGES :: u32)) (books ((vm s3)\<lparr>active_contexts := active_of (tasks s3)\<rparr>)) = Inr b"
    using kstack by (simp add: pmm_free_range_def KERNEL_STACK_SIZE_PAGES_def)
  then obtain s4 where s4: "exec_vm (vmm_free (stack (tasks s3 ! i)) (of_nat KERNEL_STACK_SIZE_PAGES)) s3 = Inr s4"
      "fsys s4 = v" "fd_table s4 = fd_table s" "tasks s4 = tasks s2"
    using s3 by (simp add: exec_vm_def vmm_free_def st)
  define s5 where "s5 = upd_task i (\<lambda>t. t\<lparr>taken := False\<rparr>) s4"
  have f5: "fsys s5 = v" "fd_table s5 = fd_table s" "\<not> taken (tasks s5 ! i)"
    using s4 i by (simp_all add: s5_def upd_task_def t2)
  obtain s6 where s6: "(if i = get_self s then Inr s5 else exec_vm (\<lambda>v. Inr (vmm_activate_context (task_context (tasks s5 ! get_self s)) v)) s5) = Inr s6"
      "fsys s6 = v" "fd_table s6 = fd_table s" "tasks s6 = tasks s5"
    using f5 that by (cases "i = get_self s") (simp_all add: exec_vm_total)
  have "exit_task (run_dealloc others) i code s = Inr s6"
    unfolding exit_task_def Let_def s1_def [symmetric] d kbind_Inr s3(1) [unfolded ctx_def] s4(1) s5_def [symmetric] by (rule s6(1))
  then show ?thesis using s6 f5(3) v(2,3) by (auto simp: s1_def)
qed

text \<open>The destructor of open files starts no task and keeps the task table, as \<open>pid_names_task\<close> asks.\<close>

lemma pids_ok_fsys [simp]: "pids_ok (s\<lparr>fsys := v\<rparr>) = pids_ok s"
  by (simp add: pids_ok_def)

lemma run_dealloc_keeps: "call_keeps others \<Longrightarrow> call_keeps (run_dealloc others)"
  by (auto simp: call_keeps_def run_dealloc_def sys_open_dealloc_def on_files_def split: if_splits)

text \<open>
  C34. The end of a task closes exactly the files the task has open, but not its descriptors: the exit succeeds, every file
  registered with the task is closed, every other file stays open, and the descriptor table is unchanged. A descriptor of the
  task therefore still names the closed file, and when any task uses it in a read, the kernel follows a pointer to memory it has freed.
\<close>

theorem exit_closes_files_not_descriptors:
  assumes i: "i < length (tasks s)" and rs: "resources (tasks s ! i) = Some rs" "num_resources (tasks s ! i) = length rs"
    and op: "open_files (dealloc_addr s) (fsys s) rs" and kstack: "page_index (stack (tasks s ! i)) + KERNEL_STACK_SIZE_PAGES \<le> NPAGES"
    and fd: "fd_map s (int fd) = Some f" "f \<in> closed_by rs" "fd < 0x80000000" and buf: "b \<noteq> 0"
  shows "\<exists>s'. exit_task (run_dealloc others) i code s = Inr s' \<and> fd_table s' = fd_table s \<and>
    files (world (fsys s')) = (\<lambda>f. if f \<in> closed_by rs then None else files (world (fsys s)) f) \<and>
    syscall D regs 3 (of_nat fd) b n off s' = Inl BadPointer"
proof -
  from exit_task_files [OF i rs op kstack] obtain s' where s': "exit_task (run_dealloc others) i code s = Inr s'" "fd_table s' = fd_table s"
      "files (world (fsys s')) = (\<lambda>f. if f \<in> closed_by rs then None else files (world (fsys s)) f)" by blast
  have "fd_map s' = fd_map s" using s'(2) by (simp add: fd_map_def fun_eq_iff)
  then have m: "fd_map s' (int fd) = Some f" using fd(1) by simp
  have "5 \<le> fd" using fd(1) by (auto simp: fd_map_def FD_OFFSET_def split: if_splits)
  moreover have "unat (of_nat fd :: u32) = fd" using fd(3) by (intro unat_of_nat_32) simp
  ultimately have ne: "(of_nat fd :: u32) \<noteq> 0" "(of_nat fd :: u32) \<noteq> 1" "(of_nat fd :: u32) \<noteq> 2" by (auto simp del: unsigned_of_nat)
  have "file_arg msg (of_nat fd) s' = Inr f" for msg using fd_to_file_map [OF m] sint_fd [OF fd(3)] by (simp add: file_arg_def)
  then have fa: "file_arg msg (of_nat fd) (enter regs 3 (of_nat fd) b n off s') = Inr f" for msg by (simp add: file_arg_def)
  have "files (world (fsys s')) f = None" using s'(3) fd(2) by simp
  then have "syscall D regs 3 (of_nat fd) b n off s' = Inl BadPointer"
    using ne buf fa by (simp add: syscalls sys_read_def Let_def vfs_read_def file_mount_def deref_def)
  with s' show ?thesis by blast
qed

section \<open>Instances\<close>

definition demo_file :: file_t where
  "demo_file = \<lparr>f_mount = 5, f_mode = 2, f_data = 0, f_size = 0\<rparr>"

definition demo_open :: "(unit ramfs_ext) kernel" where
  "demo_open = (demo_kernel (boot_vfs\<lparr>mount_ops := [5 \<mapsto> ramfs_ops], world := (world boot_vfs)\<lparr>files := [10 \<mapsto> demo_file]\<rparr>\<rparr>))
     \<lparr>fd_table := [10], tasks := (replicate MAX_TASKS zero_task)[0 := zero_task\<lparr>active := True, taken := True,
        resources := Some [\<lparr>res_dealloc = 0xC0101000, res_resource = 10\<rparr>], num_resources := 1\<rparr>]\<rparr>"

theorem exit_closes_files_not_descriptors_witness:
  "\<exists>s'. fd_map demo_open 5 = Some 10 \<and> exit_task (run_dealloc (\<lambda>_ _ _. Inl BadPointer)) 0 7 demo_open = Inr s' \<and> files (world (fsys s')) 10 = None \<and>
     syscall demo_drivers 0x500000 3 5 0xB0000800 4 0 s' = Inl BadPointer"
proof -
  have t: "tasks demo_open ! 0 = zero_task\<lparr>active := True, taken := True, resources := Some [\<lparr>res_dealloc = 0xC0101000, res_resource = 10\<rparr>], num_resources := 1\<rparr>"
      "0 < length (tasks demo_open)" by (simp_all add: demo_open_def MAX_TASKS_def)
  have o: "open_files (dealloc_addr demo_open) (fsys demo_open) [\<lparr>res_dealloc = 0xC0101000, res_resource = 10\<rparr>]"
    by (simp add: open_files_def demo_open_def demo_kernel_def sched.extend_def kernel.fields_def demo_file_def)
  have m: "fd_map demo_open (int 5) = Some 10" by (simp add: fd_map_def FD_OFFSET_def demo_open_def)
  from exit_closes_files_not_descriptors [OF t(2), of "[\<lparr>res_dealloc = 0xC0101000, res_resource = 10\<rparr>]" 5 10 "0xB0000800" "\<lambda>_ _ _. Inl BadPointer" 7 demo_drivers "0x500000" 4 0]
  have "\<exists>s'. exit_task (run_dealloc (\<lambda>_ _ _. Inl BadPointer)) 0 7 demo_open = Inr s' \<and> files (world (fsys s')) = (\<lambda>f. if f \<in> closed_by [\<lparr>res_dealloc = 0xC0101000, res_resource = 10\<rparr>]
      then None else files (world (fsys demo_open)) f) \<and> syscall demo_drivers 0x500000 3 5 0xB0000800 4 0 s' = Inl BadPointer"
    using t o m by (auto simp: closed_by_def zero_task_def KERNEL_STACK_SIZE_PAGES_def page_index_def NPAGES_def BITMAP_SIZE_def)
  then show ?thesis using m by (auto simp: closed_by_def)
qed

theorem message_crosses_witness:
  "\<exists>s. syscall demo_drivers 0x500000 52 9 0xB0000000 3 0 (demo_kernel boot_vfs) = Inr s \<and>
     (\<exists>s'. syscall demo_drivers 0x600000 53 9 0xB0000800 16 0 s = Inr s' \<and> unat (eax (regs_of 0x600000 s')) = 3)"
proof -
  have q: "implements (inbox (demo_kernel boot_vfs)) (\<lambda>_. [])" by (simp add: implements_def holds_def)
  obtain bs where bs: "user_read 0xB0000000 (unat (3 :: u32)) (demo_kernel boot_vfs) = Inr bs" "length bs = 3"
  proof -
    have "region demo_vm 0xB0000000 3" using demo_region [where k = 0 and n = 3] by simp
    then have "mmu_read demo_vm 0xB0000000 3 = Inr (map (\<lambda>i. ram demo_vm (mmu_addr demo_vm (0xB0000000 + of_nat i))) [0..<3])"
      by (intro mmu_read_eq) (simp add: region_def)
    then show thesis using that by (simp add: user_read_def)
  qed
  have nz: "(0xB0000000 :: u32) \<noteq> 0" "(3 :: u32) \<noteq> 0" "(0xB0000800 :: u32) \<noteq> 0" "(16 :: u32) \<noteq> 0" by simp_all
  from message_crosses [OF q refl nz(1,2) bs(1) nz(3,4), of demo_drivers "0x500000" 9 "0x600000"] obtain s where
    s: "syscall demo_drivers 0x500000 52 9 0xB0000000 3 0 (demo_kernel boot_vfs) = Inr s"
    and all: "\<forall>s2 :: (unit ramfs_ext) kernel. inbox s2 = inbox s \<and> region (vm s2) 0xB0000800 (unat (16 :: u32)) \<longrightarrow>
      (\<exists>s3. syscall demo_drivers 0x600000 53 9 0xB0000800 16 0 s2 = Inr s3 \<and>
        unat (eax (regs_of 0x600000 s3)) = min (unat (16 :: u32)) (length bs) \<and>
        user_read 0xB0000800 (min (unat (16 :: u32)) (length bs)) s3 = Inr (take (unat (16 :: u32)) bs))"
    by (elim exE conjE) (rule that; assumption)
  have "vm s = demo_vm" using s by (auto simp: message_calls sys_message_send_def Let_def)
  then have "region (vm s) 0xB0000800 16" using demo_region [where k = "0x800" and n = 16] by simp
  then obtain s3 where "syscall demo_drivers 0x600000 53 9 0xB0000800 16 0 s = Inr s3" "unat (eax (regs_of 0x600000 s3)) = 3"
    using all bs(2) by auto
  with s show ?thesis by blast
qed

end
