(* ===== verification/Loader.thy ===== *)
theory Loader
  imports Syscalls
begin

text \<open>
  The program loader, \<open>mckrnl/core/scheduler/loader.c\<close>, and the system calls that start programs,
  \<open>sys_spawn.c\<close> and \<open>sys_spawn_params.c\<close>.

  A program file in memory is the list of its bytes; offsets into it are 32-bit words that wrap, and what lies
  outside is \<open>OutOfBounds\<close>. Pages of the new task are mapped and filled through its page tables. Strings and arrays of
  strings come from the memory of the caller or from buffers of the kernel. Of an array at most 1024 entries
  are looked at and of a string 4096 bytes: both fill the page the loader copies them to, and it overruns that page
  when there is more. \<open>gunzip\<close> stands for the inflate library: what it makes of compressed bytes and the size of the
  destination, \<open>None\<close> when it reports an error. Blocks of the kernel heap are not tracked.

  A script names the program that runs it. That program may be a script again, so loading need not end.
\<close>

section \<open>Layout of program files\<close>

definition ELF_MAGIC :: u32 where "ELF_MAGIC = 0x464C457F"

text \<open>Offsets of the fields of \<open>struct elf_header\<close>.\<close>

definition EH_ENTRY :: u32 where "EH_ENTRY = 24"
definition EH_PH_OFFSET :: u32 where "EH_PH_OFFSET = 28"
definition EH_SH_OFFSET :: u32 where "EH_SH_OFFSET = 32"
definition EH_PH_ENTRY_COUNT :: u32 where "EH_PH_ENTRY_COUNT = 44"
definition EH_SH_ENTRY_COUNT :: u32 where "EH_SH_ENTRY_COUNT = 48"

text \<open>\<open>struct elf_program_header\<close>; its first field is the type.\<close>

definition PH_SIZE :: u32 where "PH_SIZE = 32"
definition PH_OFFSET :: u32 where "PH_OFFSET = 4"
definition PH_VIRT_ADDR :: u32 where "PH_VIRT_ADDR = 8"
definition PH_FILE_SIZE :: u32 where "PH_FILE_SIZE = 16"
definition PH_MEM_SIZE :: u32 where "PH_MEM_SIZE = 20"

text \<open>\<open>struct elf_section_header\<close> and \<open>struct elf_symbol\<close>, which starts with the offset of the name.\<close>

definition SH_SIZE_OF :: u32 where "SH_SIZE_OF = 40"
definition SH_TYPE :: u32 where "SH_TYPE = 4"
definition SH_OFFSET :: u32 where "SH_OFFSET = 16"
definition SH_SIZE :: u32 where "SH_SIZE = 20"
definition SH_LINK :: u32 where "SH_LINK = 24"
definition SH_ENTSIZE :: u32 where "SH_ENTSIZE = 36"
definition SHT_SYMTAB :: u32 where "SHT_SYMTAB = 2"
definition SYM_SIZE_OF :: u32 where "SYM_SIZE_OF = 16"
definition SYM_VALUE :: u32 where "SYM_VALUE = 4"
definition SYM_INFO :: u32 where "SYM_INFO = 12"

definition elf_st_type :: "u32 \<Rightarrow> u32" where
  "elf_st_type info = info AND 0xf"

text \<open>The number in the \<open>n\<close> bytes at an offset.\<close>

definition number_at :: "nat \<Rightarrow> u32 \<Rightarrow> u8 list \<Rightarrow> u32 kres" where
  "number_at n off img = (if unat off + n \<le> length img then Inr (ucast (field (unat off) n img)) else Inl OutOfBounds)"

abbreviation word_at :: "u32 \<Rightarrow> u8 list \<Rightarrow> u32 kres" where "word_at \<equiv> number_at 4"

definition bytes_at :: "u32 \<Rightarrow> u32 \<Rightarrow> u8 list \<Rightarrow> u8 list kres" where
  "bytes_at off n img =
     (if unat off + unat n \<le> length img then Inr (take (unat n) (drop (unat off) img)) else Inl OutOfBounds)"

section \<open>Symbols\<close>

text \<open>The header of the first symbol table, searched from the section header at \<open>sh\<close> on.\<close>

fun find_symtab :: "u8 list \<Rightarrow> u32 \<Rightarrow> nat \<Rightarrow> u32 option kres" where
  "find_symtab img sh 0 = Inr None"
| "find_symtab img sh (Suc n) =
     kbind (word_at (sh + SH_TYPE) img) (\<lambda>t. if t = SHT_SYMTAB then Inr (Some sh) else find_symtab img (sh + SH_SIZE_OF) n)"

text \<open>Name and value of the functions and objects among the symbols.\<close>

fun real_symbols :: "u8 list \<Rightarrow> u32 \<Rightarrow> u32 \<Rightarrow> nat \<Rightarrow> nat \<Rightarrow> (u32 \<times> u32) list kres" where
  "real_symbols img symtab entsize j 0 = Inr []"
| "real_symbols img symtab entsize j (Suc n) =
     (let sym = symtab + of_nat j * entsize
      in kbind (number_at 1 (sym + SYM_INFO) img) (\<lambda>info.
         if elf_st_type info = 2 \<or> elf_st_type info = 1 then
           kbind (word_at sym img) (\<lambda>nm.
           kbind (word_at (sym + SYM_VALUE) img) (\<lambda>v.
           kbind (real_symbols img symtab entsize (Suc j) n) (\<lambda>rest. Inr ((nm, v) # rest))))
         else real_symbols img symtab entsize (Suc j) n))"

text \<open>A name that does not fit is left out; the entries at the end of the array then stay zero.\<close>

fun named_symbols :: "u8 list \<Rightarrow> u32 \<Rightarrow> (u32 \<times> u32) list \<Rightarrow> (u8 list \<times> u32) list kres" where
  "named_symbols img strtab [] = Inr []"
| "named_symbols img strtab ((nm, v) # rest) =
     (let str = drop (unat (strtab + nm)) img
      in kbind (strlen str) (\<lambda>n.
         if n \<ge> 64 then named_symbols img strtab rest
         else
           kbind (strcpy (replicate 64 0) str) (\<lambda>buf.
           kbind (named_symbols img strtab rest) (\<lambda>xs. Inr ((buf, v) # xs)))))"

definition collect_symbols :: "u8 list \<Rightarrow> (u8 list \<times> u32) list option kres" where
  "collect_symbols img =
     kbind (word_at EH_SH_OFFSET img) (\<lambda>sh.
     kbind (number_at 2 EH_SH_ENTRY_COUNT img) (\<lambda>n.
     if sh = 0 \<or> n = 0 then Inr None
     else
       kbind (find_symtab img sh (unat n)) (\<lambda>found.
       case found of
         None \<Rightarrow> Inr None
       | Some sec \<Rightarrow>
           kbind (word_at (sec + SH_OFFSET) img) (\<lambda>symtab.
           kbind (word_at (sec + SH_LINK) img) (\<lambda>link.
           kbind (word_at (sh + link * SH_SIZE_OF + SH_OFFSET) img) (\<lambda>strtab.
           kbind (word_at (sec + SH_ENTSIZE) img) (\<lambda>e.
           kbind (word_at (sec + SH_SIZE) img) (\<lambda>sz.
           let entsize = (if e \<noteq> 0 then e else SYM_SIZE_OF)
           in kbind (real_symbols img symtab entsize 0 (unat (sz div entsize))) (\<lambda>reals.
              kbind (named_symbols img strtab reals) (\<lambda>xs.
              Inr (Some (xs @ replicate (length reals - length xs) (replicate 64 0, 0)))))))))))))"

section \<open>Segments\<close>

text \<open>
  Page \<open>virt\<close> of a segment in the context of the new task: where something is mapped already the new frame is returned.
\<close>

definition place_page :: "u32 \<Rightarrow> u32 \<Rightarrow> u32 \<Rightarrow> vmm \<Rightarrow> vmm kres" where
  "place_page ctx virt phys v =
     (if vmm_lookup virt ctx v \<noteq> 0 then Inr (v\<lparr>books := pmm_free phys (books v)\<rparr>)
      else kbind (vmm_map_page ctx virt phys (PTE_PRESENT OR PTE_WRITE OR PTE_USER) v) (\<lambda>(_, v1). Inr v1))"

fun place_pages :: "u32 \<Rightarrow> u32 \<Rightarrow> u32 \<Rightarrow> nat \<Rightarrow> nat \<Rightarrow> vmm \<Rightarrow> vmm kres" where
  "place_pages ctx virt phys j 0 v = Inr v"
| "place_pages ctx virt phys j (Suc n) v =
     kbind (place_page ctx (virt + of_nat j * 0x1000) (phys + of_nat j * 0x1000) v) (place_pages ctx virt phys (Suc j) n)"

text \<open>Zeros and then the bytes of the file, written with the context of the task active.\<close>

definition fill_segment :: "u32 \<Rightarrow> u32 \<Rightarrow> nat \<Rightarrow> u8 list \<Rightarrow> vmm \<Rightarrow> vmm kres" where
  "fill_segment ctx dest mem_size content v =
     kbind (mmu_write (vmm_activate_context ctx v) dest (replicate mem_size 0)) (\<lambda>v1.
     kbind (mmu_write v1 dest content) (\<lambda>v2. Inr (v2\<lparr>cr3 := cr3 v\<rparr>)))"

definition segment_pages :: "u32 \<Rightarrow> u32 \<Rightarrow> nat" where
  "segment_pages dest mem_size = unat (mem_size div 4096) + 1 + (if dest \<noteq> entry_page dest then 1 else 0)"

definition load_segment :: "u32 \<Rightarrow> u8 list \<Rightarrow> u32 \<Rightarrow> vmm \<Rightarrow> vmm kres" where
  "load_segment ctx img ph v =
     kbind (word_at (ph + PH_VIRT_ADDR) img) (\<lambda>dest.
     kbind (word_at (ph + PH_OFFSET) img) (\<lambda>offset.
     kbind (word_at ph img) (\<lambda>type.
     if type \<noteq> 1 then Inr v
     else
       kbind (word_at (ph + PH_MEM_SIZE) img) (\<lambda>mem_size.
       kbind (pmm_alloc_range (int (segment_pages dest mem_size)) (books v)) (\<lambda>(phys, b).
       kbind (place_pages ctx (entry_page dest) phys 0 (segment_pages dest mem_size) (v\<lparr>books := b\<rparr>)) (\<lambda>v1.
       kbind (word_at (ph + PH_FILE_SIZE) img) (\<lambda>file_size.
       kbind (bytes_at offset file_size img) (\<lambda>content.
       fill_segment ctx dest (unat mem_size) content v1))))))))"

fun load_segments :: "u32 \<Rightarrow> u8 list \<Rightarrow> u32 \<Rightarrow> nat \<Rightarrow> vmm \<Rightarrow> vmm kres" where
  "load_segments ctx img ph 0 v = Inr v"
| "load_segments ctx img ph (Suc n) v = kbind (load_segment ctx img ph v) (load_segments ctx img (ph + PH_SIZE) n)"

section \<open>Arguments and environment\<close>

datatype string_ptr = UserString u32 | KernelString "u8 list"

datatype string_array = UserArray u32 | KernelArray "string_ptr list"

definition user_word :: "u32 \<Rightarrow> ('a, 'z) kernel_scheme \<Rightarrow> u32 kres" where
  "user_word p s = kbind (user_read p 4 s) (\<lambda>bs. Inr (ucast (le_val bs)))"

text \<open>The pointers up to the null pointer at the end.\<close>

fun pointers_at :: "u32 \<Rightarrow> nat \<Rightarrow> ('a, 'z) kernel_scheme \<Rightarrow> string_ptr list kres" where
  "pointers_at p 0 s = Inl OutOfBounds"
| "pointers_at p (Suc n) s =
     kbind (user_word p s) (\<lambda>w.
     if w = 0 then Inr [] else kbind (pointers_at (p + 4) n s) (\<lambda>ps. Inr (UserString w # ps)))"

fun array_items :: "string_array \<Rightarrow> ('a, 'z) kernel_scheme \<Rightarrow> string_ptr list kres" where
  "array_items (UserArray p) s = pointers_at p 1024 s"
| "array_items (KernelArray ps) s = Inr ps"

text \<open>What \<open>strcpy\<close> copies from an address.\<close>

fun copied_at :: "vmm \<Rightarrow> u32 \<Rightarrow> nat \<Rightarrow> u8 list kres" where
  "copied_at v p 0 = Inl OutOfBounds"
| "copied_at v p (Suc n) =
     kbind (mmu v p) (\<lambda>a.
     kbind (mmu v (p + 1)) (\<lambda>b.
     if ram v b \<noteq> 0 then kbind (copied_at v (p + 1) n) (\<lambda>bs. Inr (ram v a # bs)) else Inr [ram v a]))"

fun copied_string :: "string_ptr \<Rightarrow> ('a, 'z) kernel_scheme \<Rightarrow> u8 list kres" where
  "copied_string (UserString p) s = copied_at (vm s) p 4096"
| "copied_string (KernelString bs) s = copied_bytes bs"

fun path_bytes :: "string_ptr \<Rightarrow> ('a, 'z) kernel_scheme \<Rightarrow> u8 list kres" where
  "path_bytes (UserString p) s = user_string p s"
| "path_bytes (KernelString bs) s = Inr bs"

text \<open>A page of the kernel that the task sees too.\<close>

definition shared_page :: "nat \<Rightarrow> ('a, 'z) kernel_scheme \<Rightarrow> (u32 \<times> ('a, 'z) kernel_scheme) kres" where
  "shared_page i s =
     kbind (run_vm (vmm_alloc 1) s) (\<lambda>(p, s1).
     kbind (user_page i (p + USER_SPACE_OFFSET) p s1) (\<lambda>s2. Inr (p, s2)))"

definition write_word :: "u32 \<Rightarrow> u32 \<Rightarrow> ('a, 'z) kernel_scheme \<Rightarrow> ('a, 'z) kernel_scheme kres" where
  "write_word p w s = user_write p (le_bytes 4 (ucast w)) s"

fun copy_strings :: "nat \<Rightarrow> u32 \<Rightarrow> nat \<Rightarrow> string_ptr list \<Rightarrow> ('a, 'z) kernel_scheme \<Rightarrow> ('a, 'z) kernel_scheme kres" where
  "copy_strings i table k [] s = write_word (table + of_nat k * 4) 0 s"
| "copy_strings i table k (x # xs) s =
     kbind (run_vm (vmm_alloc 1) s) (\<lambda>(p, s1).
     kbind (write_word (table + of_nat k * 4) p s1) (\<lambda>s2.
     kbind (user_page i (p + USER_SPACE_OFFSET) p s2) (\<lambda>s3.
     kbind (user_write p (replicate 4096 0) s3) (\<lambda>s4.
     kbind (copied_string x s4) (\<lambda>bs.
     kbind (user_write p bs s4) (copy_strings i table (Suc k) xs))))))"

text \<open>The pointers in the table are turned into addresses of the task.\<close>

fun shift_strings :: "u32 \<Rightarrow> nat \<Rightarrow> nat \<Rightarrow> ('a, 'z) kernel_scheme \<Rightarrow> ('a, 'z) kernel_scheme kres" where
  "shift_strings table k 0 s = Inr s"
| "shift_strings table k (Suc n) s =
     kbind (user_word (table + of_nat k * 4) s) (\<lambda>w.
     kbind (write_word (table + of_nat k * 4) (w + USER_SPACE_OFFSET) s) (shift_strings table (Suc k) n))"

definition pass_strings :: "nat \<Rightarrow> string_ptr list \<Rightarrow> ('a, 'z) kernel_scheme \<Rightarrow> (u32 \<times> ('a, 'z) kernel_scheme) kres" where
  "pass_strings i xs s =
     kbind (shared_page i s) (\<lambda>(table, s1).
     kbind (copy_strings i table 0 xs s1) (\<lambda>s2. Inr (table, s2)))"

section \<open>Images\<close>

definition init_elf :: "int \<Rightarrow> u8 list \<Rightarrow> string_array \<Rightarrow> string_array \<Rightarrow> ('a, 'z) kernel_scheme \<Rightarrow>
    (int \<times> ('a, 'z) kernel_scheme) kres" where
  "init_elf trm img argv_in envp_in s =
     kbind (word_at 0 img) (\<lambda>magic.
     if magic \<noteq> ELF_MAGIC then Inr (-1, s)
     else
       kbind (word_at EH_ENTRY img) (\<lambda>entry.
       kbind (init_task trm entry None s) (\<lambda>(i, s1).
       kbind (collect_symbols img) (\<lambda>syms.
       kbind (word_at EH_PH_OFFSET img) (\<lambda>ph.
       kbind (number_at 2 EH_PH_ENTRY_COUNT img) (\<lambda>n.
       kbind (exec_vm (load_segments (task_context (tasks s1 ! i)) img ph (unat n))
                (upd_task i (\<lambda>t. t\<lparr>symbols := syms\<rparr>) s1)) (\<lambda>s2.
       kbind (array_items envp_in s2) (\<lambda>es.
       kbind (array_items argv_in s2) (\<lambda>as.
       kbind (pass_strings i as s2) (\<lambda>(argv_table, s3).
       kbind (pass_strings i es s3) (\<lambda>(envp_table, s4).
       kbind (shift_strings argv_table 0 (length as) s4) (\<lambda>s5.
       kbind (shift_strings envp_table 0 (length es) s5) (\<lambda>s6.
       Inr (pid (tasks s6 ! i), upd_task i (\<lambda>t. t\<lparr>argv := argv_table + USER_SPACE_OFFSET,
         envp := envp_table + USER_SPACE_OFFSET, active := True\<rparr>) s6))))))))))))))"

type_synonym inflater = "u8 list \<Rightarrow> nat \<Rightarrow> u8 list option"

definition mex_decompress :: "inflater \<Rightarrow> u32 \<Rightarrow> u8 list \<Rightarrow> u8 list kres" where
  "mex_decompress gunzip decompressed_size content =
     (case gunzip content (unat decompressed_size) of
        Some dest \<Rightarrow> if length dest = unat decompressed_size then Inr dest else Inl (Abort ''MEX decompression failed'')
      | None \<Rightarrow> Inl (Abort ''MEX decompression failed''))"

text \<open>The compressed program behind a header of \<open>hdr\<close> bytes; its last word is the size of the program.\<close>

definition compressed_elf :: "inflater \<Rightarrow> u32 \<Rightarrow> u32 \<Rightarrow> u8 list \<Rightarrow> u8 list kres" where
  "compressed_elf gunzip hdr elf_size_compressed img =
     kbind (word_at (hdr + elf_size_compressed - 4) img) (\<lambda>decompressed_size.
     kbind (bytes_at hdr elf_size_compressed img) (mex_decompress gunzip decompressed_size))"

definition init_mex :: "inflater \<Rightarrow> int \<Rightarrow> u8 list \<Rightarrow> string_array \<Rightarrow> string_array \<Rightarrow> ('a, 'z) kernel_scheme \<Rightarrow>
    (int \<times> ('a, 'z) kernel_scheme) kres" where
  "init_mex gunzip trm img argv_in envp_in s =
     kbind (memcmp img (path_literal ''MEX'') 4) (\<lambda>r.
     if r \<noteq> 0 then Inr (-1, s)
     else
       kbind (word_at 68 img) (\<lambda>n.
       kbind (compressed_elf gunzip 72 n img) (\<lambda>elf. init_elf trm elf argv_in envp_in s)))"

text \<open>A wrong \<open>abiVersion\<close> is only reported.\<close>

definition init_mex_v2 :: "inflater \<Rightarrow> int \<Rightarrow> u8 list \<Rightarrow> string_array \<Rightarrow> string_array \<Rightarrow> ('a, 'z) kernel_scheme \<Rightarrow>
    (int \<times> ('a, 'z) kernel_scheme) kres" where
  "init_mex_v2 gunzip trm img argv_in envp_in s =
     kbind (memcmp img (path_literal ''M2X'') 4) (\<lambda>r.
     if r \<noteq> 0 then Inr (-1, s)
     else
       kbind (word_at 72 img) (\<lambda>abi_version.
       kbind (word_at 68 img) (\<lambda>flags.
       if flags AND 1 = 0 then init_elf trm (drop 80 img) argv_in envp_in s
       else
         kbind (word_at 76 img) (\<lambda>n.
         kbind (compressed_elf gunzip 80 n img) (\<lambda>elf. init_elf trm elf argv_in envp_in s)))))"

definition init_executable :: "inflater \<Rightarrow> int \<Rightarrow> u8 list \<Rightarrow> string_array \<Rightarrow> string_array \<Rightarrow> ('a, 'z) kernel_scheme \<Rightarrow>
    (int \<times> ('a, 'z) kernel_scheme) kres" where
  "init_executable gunzip trm img argv_in envp_in s =
     kbind (array_items argv_in s) (\<lambda>_.
     kbind (array_items envp_in s) (\<lambda>_.
     kbind (memcmp img (path_literal ''MEX'') 4) (\<lambda>r.
     if r = 0 then init_mex gunzip trm img argv_in envp_in s
     else
       kbind (memcmp img (path_literal ''M2X'') 4) (\<lambda>r2.
       if r2 = 0 then init_mex_v2 gunzip trm img argv_in envp_in s
       else init_elf trm img argv_in envp_in s))))"

section \<open>Scripts\<close>

definition shebangs :: "u8 list list" where
  "shebangs = map (map of_char) [''#!'', ''//!'', ''--!'', '';!'']"

text \<open>The length of the mark the file starts with.\<close>

fun find_shebang :: "u8 list list \<Rightarrow> u8 list \<Rightarrow> nat \<Rightarrow> nat option kres" where
  "find_shebang [] buf sz = Inr None"
| "find_shebang (m # ms) buf sz =
     (if length m \<le> sz then
        kbind (memcmp buf m (length m)) (\<lambda>r. if r = 0 then Inr (Some (length m)) else find_shebang ms buf sz)
      else find_shebang ms buf sz)"

text \<open>The name of the executor up to the end of its line, and whether it has a colon; the buffer has room for \<open>n\<close> more.\<close>

fun executor_name :: "u8 list \<Rightarrow> nat \<Rightarrow> (u8 list \<times> bool) kres" where
  "executor_name bs 0 = Inl OutOfBounds"
| "executor_name [] (Suc n) = Inl OutOfBounds"
| "executor_name (c # bs) (Suc n) =
     (if c = 0x0A \<or> c = 0 then Inr ([], False)
      else kbind (executor_name bs n) (\<lambda>(nm, absolute). Inr (c # nm, c = 0x3A \<or> absolute)))"

text \<open>With no arguments the null pointer at the end replaces the path.\<close>

definition script_args :: "u8 list \<Rightarrow> string_ptr \<Rightarrow> string_ptr list \<Rightarrow> string_ptr list" where
  "script_args executor path as = (if as = [] then [KernelString executor] else KernelString executor # path # tl as)"

text \<open>The buffer of 256 bytes with \<open>name:executor\<close>.\<close>

definition full_path :: "u8 list \<Rightarrow> u8 list \<Rightarrow> u8 list kres" where
  "full_path mount_name executor =
     (let str = text_of mount_name @ 0x3A # text_of executor
      in if length str < 256 then Inr (str @ replicate (256 - length str) 0) else Inl OutOfBounds)"

definition script :: "u8 list \<Rightarrow> nat \<Rightarrow> string_ptr \<Rightarrow> string_array \<Rightarrow> ('a, 'z) kernel_scheme \<Rightarrow>
    (u8 list \<times> bool \<times> string_array) kres" where
  "script buf off path argv_in s =
     kbind (executor_name (drop off buf) 256) (\<lambda>(nm, absolute).
     kbind (array_items argv_in s) (\<lambda>as.
     let executor = nm @ replicate (256 - length nm) 0
     in Inr (executor, absolute, KernelArray (script_args executor path as))))"

section \<open>Loading a file\<close>

text \<open>A file is opened, used and closed; without it the result is -1.\<close>

definition with_file :: "u8 list \<Rightarrow> (nat \<Rightarrow> ('a, 'z) kernel_scheme \<Rightarrow> (int \<times> ('a, 'z) kernel_scheme) kloop) \<Rightarrow>
    ('a, 'z) kernel_scheme \<Rightarrow> (int \<times> ('a, 'z) kernel_scheme) kloop" where
  "with_file path load s =
     kseq (Some (vfs_open path 0 (fsys s))) (\<lambda>(f, v).
     if f = 0 then Some (Inr (-1, s\<lparr>fsys := v\<rparr>))
     else
       kseq (load f (s\<lparr>fsys := v\<rparr>)) (\<lambda>(pid, s1).
       kseq (Some (on_files (vfs_close f (fsys s1)) s1)) (\<lambda>s2. Some (Inr (pid, s2)))))"

text \<open>The same with the first mount that has a file of the name; \<open>load\<close> gets its full path.\<close>

definition with_first_file :: "u8 list \<Rightarrow> (nat \<Rightarrow> u8 list \<Rightarrow> ('a, 'z) kernel_scheme \<Rightarrow> (int \<times> ('a, 'z) kernel_scheme) kloop) \<Rightarrow>
    ('a, 'z) kernel_scheme \<Rightarrow> (int \<times> ('a, 'z) kernel_scheme) kloop" where
  "with_first_file executor load s =
     kseq (Some (vfs_open_first_found executor 0 (fsys s))) (\<lambda>(f, v).
     if f = 0 then Some (Inr (-1, s\<lparr>fsys := v\<rparr>))
     else
       kseq (Some (file_mount f v)) (\<lambda>(m, ops).
       kseq (Some (full_path (m_name ops m (world v)) executor)) (\<lambda>path.
       kseq (load f path (s\<lparr>fsys := v\<rparr>)) (\<lambda>(pid, s1).
       kseq (Some (on_files (vfs_close f (fsys s1)) s1)) (\<lambda>s2. Some (Inr (pid, s2)))))))"

lemma with_file_mono [partial_function_mono]:
  assumes "\<And>f s. mono_option (\<lambda>g. load g f s)"
  shows "mono_option (\<lambda>g. with_file path (load g) s)"
  unfolding with_file_def case_prod_unfold using assms by (intro partial_function_mono) auto

lemma with_first_file_mono [partial_function_mono]:
  assumes "\<And>f p s. mono_option (\<lambda>g. load g f p s)"
  shows "mono_option (\<lambda>g. with_first_file executor (load g) s)"
  unfolding with_first_file_def case_prod_unfold using assms by (intro partial_function_mono) auto

partial_function (option) load_executable_file :: "inflater \<Rightarrow> nat \<Rightarrow> string_ptr \<Rightarrow> string_array \<Rightarrow> string_array \<Rightarrow>
    ('a, 'z) kernel_scheme \<Rightarrow> (int \<times> ('a, 'z) kernel_scheme) kloop" where
  "load_executable_file gunzip f path argv_in envp_in s =
     kseq (Some (deref (files (world (fsys s))) f)) (\<lambda>fl.
     kseq (Some (vfs_read f (f_size fl) 0 (fsys s))) (\<lambda>(buf, v).
     kseq (Some (find_shebang shebangs buf (f_size fl))) (\<lambda>found.
     case found of
       None \<Rightarrow> Some (init_executable gunzip (task_term (tasks s ! get_self s)) buf argv_in envp_in (s\<lparr>fsys := v\<rparr>))
     | Some off \<Rightarrow>
         kseq (Some (script buf off path argv_in (s\<lparr>fsys := v\<rparr>))) (\<lambda>(executor, absolute, new_argv).
         if absolute then
           with_file executor (\<lambda>f2. load_executable_file gunzip f2 (KernelString executor) new_argv envp_in) (s\<lparr>fsys := v\<rparr>)
         else
           with_first_file executor (\<lambda>f2 path2. load_executable_file gunzip f2 (KernelString path2) new_argv envp_in)
             (s\<lparr>fsys := v\<rparr>)))))"

definition load_executable :: "inflater \<Rightarrow> string_ptr \<Rightarrow> string_array \<Rightarrow> string_array \<Rightarrow>
    ('a, 'z) kernel_scheme \<Rightarrow> (int \<times> ('a, 'z) kernel_scheme) kloop" where
  "load_executable gunzip path argv_in envp_in s =
     kseq (Some (path_bytes path s)) (\<lambda>str.
     with_file str (\<lambda>f. load_executable_file gunzip f path argv_in envp_in) s)"

section \<open>The system calls\<close>

text \<open>The working directory of the caller becomes that of the new task.\<close>

definition inherit_pwd :: "nat \<Rightarrow> ('a, 'z) kernel_scheme \<Rightarrow> ('a, 'z) kernel_scheme kres" where
  "inherit_pwd i s =
     (let cur = pwd (tasks s ! get_self s)
      in kbind (strlen cur) (\<lambda>len.
         let n = (if len \<ge> 128 then 127 else len)
         in Inr (upd_task i (\<lambda>t. t\<lparr>pwd := take n cur @ 0 # drop (Suc n) (pwd t)\<rparr>) s)))"

text \<open>Loads the program, puts the result in \<open>esi\<close> and prepares the new task.\<close>

definition spawn :: "inflater \<Rightarrow> u32 \<Rightarrow> u32 \<Rightarrow> u32 \<Rightarrow> (nat \<Rightarrow> ('a, 'z) kernel_scheme \<Rightarrow> ('a, 'z) kernel_scheme kres) \<Rightarrow> u32 \<Rightarrow>
    ('a, 'z) kernel_scheme \<Rightarrow> ('a, 'z) kernel_scheme kloop" where
  "spawn gunzip path argv_in envp_in prepare regs s =
     kseq (load_executable gunzip (UserString path) (UserArray argv_in) (UserArray envp_in) s) (\<lambda>(p, s1).
     let s2 = put_regs regs (\<lambda>r. r\<lparr>esi := of_int p\<rparr>) s1
     in if (of_int p :: u32) = -1 then Some (Inr s2)
        else
          case get_task_by_pid (sint (of_int p :: u32)) s2 of
            None \<Rightarrow> Some (Inl BadPointer)
          | Some i \<Rightarrow> Some (kbind (inherit_pwd i s2) (prepare i)))"

definition sys_spawn :: "inflater \<Rightarrow> u32 \<Rightarrow> ('a, 'z) kernel_scheme \<Rightarrow> ('a, 'z) kernel_scheme kloop" where
  "sys_spawn gunzip regs s =
     (let r = regs_of regs s
      in if ebx r = 0 then Some (Inl (Abort ''sys_spawn: path is NULL''))
         else spawn gunzip (ebx r) (ecx r) (edx r) (\<lambda>i. Inr) regs s)"

text \<open>\<open>spawn_params_t\<close>: seven words, the path, the arrays, three pipes and the terminal.\<close>

definition set_pipe :: "u32 \<Rightarrow> nat \<Rightarrow> nat \<Rightarrow> ('a, 'z) kernel_scheme \<Rightarrow> ('a, 'z) kernel_scheme kres" where
  "set_pipe p k i s =
     Inr (if p = 0 then s
          else upd_task i (\<lambda>t. t\<lparr>pipe := (pipe t)[k := p],
            pipe_source := (pipe_source t)[k := pid (tasks s ! get_self s)]\<rparr>) s)"

definition apply_params :: "u32 \<Rightarrow> nat \<Rightarrow> ('a, 'z) kernel_scheme \<Rightarrow> ('a, 'z) kernel_scheme kres" where
  "apply_params params i s =
     kbind (user_word (params + 12) s) (\<lambda>p0. kbind (set_pipe p0 0 i s) (\<lambda>s1.
     kbind (user_word (params + 16) s1) (\<lambda>p1. kbind (set_pipe p1 1 i s1) (\<lambda>s2.
     kbind (user_word (params + 20) s2) (\<lambda>p2. kbind (set_pipe p2 2 i s2) (\<lambda>s3.
     kbind (user_word (params + 24) s3) (\<lambda>trm.
     Inr (if 1 \<le> sint trm \<and> sint trm \<le> MAX_VTERM then upd_task i (\<lambda>t. t\<lparr>task_term := sint trm\<rparr>) s3 else s3))))))))"

definition sys_spawn_param :: "inflater \<Rightarrow> u32 \<Rightarrow> ('a, 'z) kernel_scheme \<Rightarrow> ('a, 'z) kernel_scheme kloop" where
  "sys_spawn_param gunzip regs s =
     (let params = ebx (regs_of regs s)
      in if params = 0 then Some (Inl (Abort ''sys_spawn_param: params is NULL''))
         else
           kseq (Some (user_word params s)) (\<lambda>path.
           if path = 0 then Some (Inl (Abort ''sys_spawn_param: path is NULL''))
           else
             kseq (Some (user_word (params + 4) s)) (\<lambda>argv_in.
             kseq (Some (user_word (params + 8) s)) (\<lambda>envp_in.
             spawn gunzip path argv_in envp_in (apply_params params) regs s))))"

text \<open>The dispatcher with the two calls that need not return.\<close>

definition kernel_call :: "inflater \<Rightarrow> ('a, 'z) kernel_scheme drivers \<Rightarrow> u32 \<Rightarrow> ('a, 'z) kernel_scheme \<Rightarrow>
    (u32 \<times> ('a, 'z) kernel_scheme) kloop" where
  "kernel_call gunzip D regs s =
     (let n = eax (regs_of regs s)
      in if n = 15 then kseq (sys_spawn gunzip regs s) (\<lambda>s1. Some (Inr (regs, s1)))
         else if n = 56 then kseq (sys_spawn_param gunzip regs s) (\<lambda>s1. Some (Inr (regs, s1)))
         else Some (syscall_handler D regs s))"

end
