(* ===== verification/Loader_Segments.thy ===== *)
theory Loader_Segments
  imports Loader Syscalls_Files
begin

text \<open>
  What \<open>load_segment\<close> does to the address space of the new task, which is not in the task table as an active task yet:
  the invariant of the page tables is stated with its context added.
\<close>

section \<open>Mapping into a context that is not active yet\<close>

definition with_context :: "u32 \<Rightarrow> vmm \<Rightarrow> vmm" where
  "with_context c v = v\<lparr>active_contexts := c # active_contexts v\<rparr>"

lemma with_context_sel [simp]:
  "books (with_context c v) = books v" "page_words (with_context c v) = page_words v" "ram (with_context c v) = ram v"
  "kernel_context (with_context c v) = kernel_context v" "cr3 (with_context c v) = cr3 v"
  "pagedir (with_context c v) = pagedir v" "vmm_lookup w d (with_context c v) = vmm_lookup w d v"
  "contexts (with_context c v) = insert c (contexts v)"
  by (auto simp: with_context_def pagedir_def vmm_lookup_def fun_eq_iff contexts_def)

lemma map_unsafe_active:
  "vmm_map_page_unsafe False dir a p f (v\<lparr>active_contexts := A\<rparr>) =
   kbind (vmm_map_page_unsafe False dir a p f v) (\<lambda>t. Inr (t\<lparr>active_contexts := A\<rparr>))"
  by (cases "pmm_alloc_pagetable (books v)")
    (auto simp: vmm_map_page_unsafe_def put_word_def zero_page_def Let_def cong del: if_weak_cong)

lemma map_page_active:
  assumes "c \<noteq> kernel_context v"
  shows "vmm_map_page c a p f (v\<lparr>active_contexts := A\<rparr>) =
    kbind (vmm_map_page c a p f v) (\<lambda>(r, t). Inr (r, t\<lparr>active_contexts := A\<rparr>))"
  using assms by (auto simp: vmm_map_page_def map_unsafe_active kbind_assoc pagedir_def)

lemma map_unsafe_keeps:
  assumes "vmm_map_page_unsafe False dir a p f v = Inr t"
  shows "ram t = ram v" "active_contexts t = active_contexts v" "cr3 t = cr3 v" "kernel_context t = kernel_context v"
  using assms by (auto simp: vmm_map_page_unsafe_def put_word_def zero_page_def Let_def split: if_splits)

lemma map_page_keeps:
  assumes "vmm_map_page c a p f v = Inr (r, t)" and "c \<noteq> kernel_context v"
  shows "ram t = ram v" "active_contexts t = active_contexts v" "cr3 t = cr3 v" "kernel_context t = kernel_context v"
  using assms map_unsafe_keeps [of "pagedir v c" a p f v t]
  by (auto simp: vmm_map_page_def split: if_splits)

text \<open>The number of page tables that can still be allocated; mapping a page takes at most one.\<close>

definition free_tables :: "pmm \<Rightarrow> nat" where
  "free_tables b = card {i. page_available True b i}"

lemma finite_tables: "finite {i. page_available True b i}"
  by (rule finite_subset [of _ "{..<NPAGES}"]) (auto simp: page_available_def)

lemma free_tables_none: "\<forall>i. \<not> page_available True b i \<Longrightarrow> free_tables b = 0"
  by (simp add: free_tables_def)

lemma free_tables_free: "free_tables b \<le> free_tables (pmm_free p b)"
  unfolding free_tables_def
  by (rule card_mono [OF finite_tables]) (auto simp: page_available_def pmm_free_def bitmap_test_clear)

lemma free_tables_alloc:
  assumes "pmm_alloc_pagetable b = Inr (p, b')"
  shows "free_tables b \<le> Suc (free_tables b')"
proof -
  obtain i where "b' = take_page i b" using assms unfolding pmm_alloc_pagetable_def by (rule pmm_alloc_from_InrE)
  then have "{k. page_available True b' k} = {k. page_available True b k} - {i}"
    by (auto simp: page_available_def take_page_def bitmap_test_set)
  then show ?thesis using card_Diff_singleton_if [of "{k. page_available True b k}" i]
    by (simp add: free_tables_def split: if_splits)
qed

lemma free_tables_map:
  assumes "vmm_map_page c a p f v = Inr (r, t)" and "c \<noteq> kernel_context v"
  shows "free_tables (books v) \<le> Suc (free_tables (books t))"
proof -
  have "books t = books v \<or> (\<exists>q. pmm_alloc_pagetable (books v) = Inr (q, books t))"
    using assms by (auto simp: vmm_map_page_def vmm_map_page_unsafe_def put_word_def zero_page_def Let_def split: if_splits)
  then show ?thesis using free_tables_alloc by auto
qed

text \<open>Page tables come from pages that were not in use.\<close>

definition tables_grow :: "vmm \<Rightarrow> vmm \<Rightarrow> bool" where
  "tables_grow s s' \<longleftrightarrow> (\<forall>q. page_aligned q \<longrightarrow> pmm_is_used q (books s) \<longrightarrow> pmm_is_used q (books s')) \<and>
     (\<forall>d\<in>contexts s. \<forall>i<1024. present (pde s' d i) \<longrightarrow> pde s' d i = pde s d i \<or> \<not> pmm_is_used (tbl s' d i) (books s))"

lemma map_unsafe_grows:
  assumes wf: "vmm_wf s" and c: "c \<in> contexts s" and f: "flags AND 0xfff = flags"
    and run: "vmm_map_page_unsafe False (pagedir s c) virt phys flags s = Inr s'"
  shows "tables_grow s s'"
proof (cases "present (pde s c (pd_index virt))")
  case True
  obtain t where t: "vmm_map_page_unsafe False (pagedir s c) virt phys flags s = Inr t" "\<forall>d\<in>contexts s. \<forall>i. pde t d i = pde s d i"
    by (rule map_unsafe_present [OF wf c True])
  moreover have "books s' = books s"
    using run True by (auto simp: vmm_map_page_unsafe_def pde_def)
  ultimately show ?thesis using run by (simp add: tables_grow_def)
next
  case False
  then obtain p b where alloc: "pmm_alloc_pagetable (books s) = Inr (p, b)"
    using run by (auto simp: vmm_map_page_unsafe_def pde_def)
  define e where "e = p OR PTE_PRESENT OR flags"
  have s': "s' = put_word p (pt_index virt) (phys OR flags) (put_word (pagedir s c) (pd_index virt) e (zero_page p (s\<lparr>books := b\<rparr>)))"
    using run False alloc by (simp add: vmm_map_page_unsafe_def pde_def Let_def e_def)
  note fresh = fresh_page [OF wf alloc_pagetableE(2) [OF alloc]]
  have e: "entry_page e = p" using alloc_pagetableE(1) [OF alloc] f by (simp add: e_def entry_page_table)
  have dirs: "d \<noteq> pagedir s d'" if "d \<in> contexts s" "d' \<in> contexts s" for d d'
    using wf that by (auto simp: wf_defs)
  have dir: "pagedir s' d = pagedir s d" if "d \<in> contexts s" for d
    using fresh(1) [OF that] dirs [OF that c] by (auto simp: s' pagedir_def put_word_def zero_page_def)
  have words: "page_words s' q j = (if q = p \<and> j = pt_index virt then phys OR flags else
      if q = pagedir s c \<and> j = pd_index virt then e else if q = p \<and> j < 1024 then 0 else page_words s q j)" for q j
    by (simp add: s')
  have "pde s' d i = pde s d i \<or> tbl s' d i = p" if "d \<in> contexts s" "i < 1024" for d i
  proof -
    have "pde s' d i = (if pagedir s d = pagedir s c \<and> i = pd_index virt then e else pde s d i)"
      using fresh(2) [OF that(1)] by (simp add: pde_def dir [OF that(1)] words)
    then show ?thesis using e by (auto simp: tbl_def)
  qed
  moreover have "books s' = b" by (simp add: s')
  ultimately show ?thesis
    using alloc_pagetableE(2,3) [OF alloc] unfolding tables_grow_def by metis
qed

lemma map_page_grows:
  assumes "vmm_wf s" and "c \<in> contexts s" and "flags AND 0xfff = flags" and "c \<noteq> kernel_context s"
    and "vmm_map_page c virt phys flags s = Inr (r, s')"
  shows "tables_grow s s'"
proof (cases "virt AND 0xfff \<noteq> 0 \<or> phys AND 0xfff \<noteq> 0")
  case True
  then have "s' = s" using assms(5) by (auto simp: vmm_map_page_def)
  then show ?thesis by (simp add: tables_grow_def)
next
  case False
  with assms(4,5) have "vmm_map_page_unsafe False (pagedir s c) virt phys flags s = Inr s'"
    by (auto simp: vmm_map_page_def split: if_splits)
  from map_unsafe_grows [OF assms(1-3) this] show ?thesis .
qed

section \<open>Returning a frame\<close>

text \<open>The page at \<open>p\<close> holds no context, directory or table.\<close>

definition clear_of :: "u32 \<Rightarrow> vmm \<Rightarrow> bool" where
  "clear_of p s \<longleftrightarrow> (\<forall>d\<in>contexts s. d \<noteq> p \<and> pagedir s d \<noteq> p \<and> (\<forall>i<1024. present (pde s d i) \<longrightarrow> tbl s d i \<noteq> p))"

lemma used_free_iff:
  assumes "page_aligned p" and "page_aligned q"
  shows "pmm_is_used q (pmm_free p b) \<longleftrightarrow> q \<noteq> p \<and> pmm_is_used q b"
  using assms by (auto simp: pmm_is_used_free page_index_aligned)

lemma vmm_wf_free:
  assumes wf: "vmm_wf s" and p: "page_aligned p" and clear: "clear_of p s"
  shows "vmm_wf (s\<lparr>books := pmm_free p (books s)\<rparr>)"
proof -
  define s' where "s' = s\<lparr>books := pmm_free p (books s)\<rparr>"
  have sel: "contexts s' = contexts s" "kernel_context s' = kernel_context s" "cr3 s' = cr3 s" "books s' = pmm_free p (books s)"
    "pagedir s' = pagedir s" "pde s' = pde s" "tbl s' = tbl s"
    by (auto simp: s'_def contexts_def pagedir_def pde_def tbl_def fun_eq_iff)
  have al: "page_aligned (tbl s d i)" for d i by (simp add: tbl_def)
  have "wf_pages s'"
    using wf clear used_free_iff [OF p] unfolding vmm_wf_def wf_pages_def clear_of_def sel by blast
  moreover have "wf_tables s'"
    using wf clear used_free_iff [OF p al] unfolding vmm_wf_def wf_tables_def clear_of_def sel by blast
  moreover have "wf_dirs s'" "wf_private s'" "wf_shared s'" "wf_cr3 s'"
    using wf unfolding vmm_wf_def wf_dirs_def wf_private_def wf_shared_def wf_cr3_def sel by blast+
  ultimately show ?thesis by (simp add: vmm_wf_def s'_def)
qed

lemma clear_of_unused:
  "vmm_wf s \<Longrightarrow> \<not> pmm_is_used p (books s) \<Longrightarrow> clear_of p s"
  using fresh_page [of s p] by (auto simp: clear_of_def)

lemma clear_of_grows:
  assumes "clear_of p s" and "tables_grow s s'" and "same_spaces s s'" and "pmm_is_used p (books s)"
  shows "clear_of p s'"
proof -
  note sp = same_spacesD [OF assms(3)]
  have "tbl s' d i \<noteq> p" if "d \<in> contexts s" "i < 1024" "present (pde s' d i)" for d i
  proof -
    from assms(2) that consider "pde s' d i = pde s d i" | "\<not> pmm_is_used (tbl s' d i) (books s)"
      by (auto simp: tables_grow_def)
    then show ?thesis
      using assms(1,4) that by cases (auto simp: clear_of_def tbl_def)
  qed
  then show ?thesis using assms(1) sp by (simp add: clear_of_def)
qed

section \<open>Placing the pages of a segment\<close>

abbreviation user_flags :: u32 where "user_flags \<equiv> PTE_PRESENT OR PTE_WRITE OR PTE_USER"

text \<open>
  The state while page \<open>j\<close> of \<open>n\<close> is next: the page tables are well formed, the kernel has no table there and the frames
  still to come are in use and hold no part of the page tables.
\<close>

definition placing :: "u32 \<Rightarrow> u32 \<Rightarrow> u32 \<Rightarrow> nat \<Rightarrow> nat \<Rightarrow> vmm \<Rightarrow> bool" where
  "placing c virt phys j n v \<longleftrightarrow> vmm_wf (with_context c v) \<and> c \<noteq> kernel_context v \<and>
     (\<forall>k. j \<le> k \<longrightarrow> k < n \<longrightarrow> \<not> present (pde v (kernel_context v) (pd_index (virt + of_nat k * 0x1000))) \<and>
        pmm_is_used (phys + of_nat k * 0x1000) (books v) \<and> clear_of (phys + of_nat k * 0x1000) (with_context c v))"

lemma place_page_mapped:
  assumes P: "placing c virt phys j n v" and j: "j < n" and al: "page_aligned phys" and n: "n \<le> 1048576"
  shows "placing c virt phys (Suc j) n (v\<lparr>books := pmm_free (phys + of_nat j * 0x1000) (books v)\<rparr>)"
proof -
  define p where "p = phys + of_nat j * 0x1000"
  define v' where "v' = v\<lparr>books := pmm_free p (books v)\<rparr>"
  have w: "with_context c v' = (with_context c v)\<lparr>books := pmm_free p (books (with_context c v))\<rparr>"
    by (simp add: v'_def with_context_def)
  have alp: "page_aligned (phys + of_nat k * 0x1000)" for k using region_aligned [OF al] .
  have ne: "phys + of_nat k * 0x1000 \<noteq> p" if "Suc j \<le> k" "k < n" for k
  proof
    assume "phys + of_nat k * 0x1000 = p"
    then have "(of_nat (k * 4096) :: u32) = of_nat (j * 4096)" by (simp add: p_def)
    moreover have "k * 4096 < 4294967296" "j * 4096 < 4294967296" using that j n by auto
    ultimately have "k * 4096 = j * 4096" using unat_of_nat_32 by metis
    then show False using that by simp
  qed
  have wf: "vmm_wf (with_context c v')"
    unfolding w by (rule vmm_wf_free) (use P j alp in \<open>auto simp: placing_def p_def\<close>)
  have sel: "pagedir v' = pagedir v" "pde v' = pde v" "pde (with_context c v') = pde (with_context c v)"
    "tbl (with_context c v') = tbl (with_context c v)" "contexts v' = contexts v"
    by (simp_all add: v'_def pagedir_def pde_def tbl_def contexts_def fun_eq_iff)
  have cl: "clear_of q (with_context c v') = clear_of q (with_context c v)" for q
    by (simp add: clear_of_def sel)
  have "pmm_is_used (phys + of_nat k * 0x1000) (books v') \<longleftrightarrow> pmm_is_used (phys + of_nat k * 0x1000) (books v)"
    if "Suc j \<le> k" "k < n" for k
    using used_free_iff [of p "phys + of_nat k * 0x1000"] alp ne [OF that] by (simp add: v'_def p_def)
  moreover have "kernel_context v' = kernel_context v" by (simp add: v'_def)
  ultimately have "placing c virt phys (Suc j) n v'"
    using P j cl sel wf by (simp add: placing_def)
  then show ?thesis by (simp add: v'_def p_def)
qed

lemma place_page_new:
  assumes P: "placing c virt phys j n v" and j: "j < n" and al: "page_aligned virt" "page_aligned phys"
  shows "vmm_map_page c (virt + of_nat j * 0x1000) (phys + of_nat j * 0x1000) user_flags v = Inl (Abort ''Allocation failed!'') \<and>
      (\<forall>i. \<not> page_available True (books v) i) \<or>
    (\<exists>r v'. vmm_map_page c (virt + of_nat j * 0x1000) (phys + of_nat j * 0x1000) user_flags v = Inr (r, v') \<and>
       placing c virt phys (Suc j) n v' \<and> same_spaces (with_context c v) (with_context c v') \<and> ram v' = ram v \<and> active_contexts v' = active_contexts v \<and>
       (\<forall>w. vmm_lookup w c v' = (if w div 0x1000 = (virt + of_nat j * 0x1000) div 0x1000
          then phys + of_nat j * 0x1000 + w mod 0x1000 else vmm_lookup w c v)) \<and>
       (\<forall>d\<in>contexts v - {c}. \<forall>w. vmm_lookup w d v' = vmm_lookup w d v))"
proof -
  define a where "a = virt + of_nat j * 0x1000"
  define p where "p = phys + of_nat j * 0x1000"
  define s where "s = with_context c v"
  have wf: "vmm_wf s" and ck: "c \<noteq> kernel_context s" "c \<in> contexts s" and free: "\<not> present (pde v (kernel_context v) (pd_index a))"
    using P j by (auto simp: placing_def s_def a_def)
  have ala: "page_aligned a" "page_aligned p" using region_aligned al by (auto simp: a_def p_def)
  have run: "vmm_map_page c a p user_flags s = kbind (vmm_map_page c a p user_flags v) (\<lambda>(r, t). Inr (r, with_context c t))"
  proof (cases "vmm_map_page c a p user_flags v")
    case (Inr x)
    obtain r t where x: "x = (r, t)" by (cases x)
    have "active_contexts t = active_contexts v" using map_page_keeps(2) Inr x ck by (simp add: s_def)
    then show ?thesis
      using map_page_active [of c v a p user_flags "c # active_contexts v"] ck Inr x by (simp add: s_def with_context_def)
  qed (use map_page_active [of c v a p user_flags "c # active_contexts v"] ck in \<open>simp add: s_def with_context_def\<close>)
  have "\<not> present (page_words s (pagedir s (kernel_context s)) (pd_index a))" using free by (simp add: s_def pde_def)
  from vmm_map_user [OF wf ck(2,1) ala flags_small(2) this] show ?thesis
  proof (elim disjE exE conjE, goal_cases)
    case 1
    then show ?case unfolding a_def [symmetric] p_def [symmetric] using run
      by (cases "vmm_map_page c a p user_flags v") (auto simp: s_def)
  next
    case (2 s')
    obtain r t where t: "vmm_map_page c a p user_flags v = Inr (r, t)" "s' = with_context c t" "r = 0"
      using run 2(1) by (cases "vmm_map_page c a p user_flags v") auto
    note keep = map_page_keeps [OF t(1)]
    have grow: "tables_grow s s'" by (rule map_page_grows [OF wf ck(2) flags_small(2) ck(1) 2(1)])
    have alp: "page_aligned (phys + of_nat k * 0x1000)" for k using region_aligned [OF al(2)] .
    have "pde t (kernel_context t) i = pde v (kernel_context v) i" if "i < 1024" for i
      using 2(7) that keep(4) ck by (simp add: t(2) s_def pde_def)
    moreover have "pmm_is_used (phys + of_nat k * 0x1000) (books t) \<and> clear_of (phys + of_nat k * 0x1000) s'" if "Suc j \<le> k" "k < n" for k
    proof -
      have "pmm_is_used (phys + of_nat k * 0x1000) (books s)" "clear_of (phys + of_nat k * 0x1000) s"
        using P that by (auto simp: placing_def s_def)
      with clear_of_grows [OF _ grow 2(6)] grow alp show ?thesis by (auto simp: tables_grow_def t(2))
    qed
    ultimately have "placing c virt phys (Suc j) n t"
      using P 2(2) keep(4) ck by (auto simp: placing_def t(2) s_def)
    then show ?case unfolding a_def [symmetric] p_def [symmetric]
      using 2 t keep ck by (intro disjI2 exI [of _ r] exI [of _ t]) (auto simp: s_def)
  qed
qed

lemma lookup_books [simp]: "vmm_lookup w d (v\<lparr>books := b\<rparr>) = vmm_lookup w d v"
  by (simp add: vmm_lookup_def pagedir_def)

lemma entry_page_div: "entry_page w div 0x1000 = w div 0x1000"
proof -
  have "drop_bit 12 (entry_page w) = drop_bit 12 w"
    by (rule bit_eqI) (auto simp: bit_drop_bit_eq bit_high)
  then show ?thesis by (simp add: drop_bit_eq_div)
qed

lemma entry_page_same: "page_aligned a \<Longrightarrow> w div 0x1000 = a div 0x1000 \<Longrightarrow> entry_page w = a"
  using same_page_iff [of a "entry_page w"] page_index_aligned [of a "entry_page w"] 
  by (metis entry_page_div entry_page_aligned page_index_def)

text \<open>Pages \<open>j\<close> to \<open>m - 1\<close> are placed: where nothing was mapped the frames are, everything else is as before.\<close>

definition placed :: "u32 \<Rightarrow> u32 \<Rightarrow> u32 \<Rightarrow> nat \<Rightarrow> nat \<Rightarrow> vmm \<Rightarrow> vmm \<Rightarrow> bool" where
  "placed c virt phys j m v v' \<longleftrightarrow> vmm_wf (with_context c v') \<and> same_spaces (with_context c v) (with_context c v') \<and>
     ram v' = ram v \<and> active_contexts v' = active_contexts v \<and>
     (\<forall>w. vmm_lookup w c v' = (if j * 4096 \<le> unat (w - virt) \<and> unat (w - virt) < m * 4096 \<and> vmm_lookup (entry_page w) c v = 0
        then phys + (w - virt) else vmm_lookup w c v)) \<and>
     (\<forall>d\<in>contexts v - {c}. \<forall>w. vmm_lookup w d v' = vmm_lookup w d v)"

lemma same_spaces_trans: "same_spaces s t \<Longrightarrow> same_spaces t u \<Longrightarrow> same_spaces s u"
  by (simp add: same_spaces_def)

lemma placed_step:
  assumes al: "page_aligned virt" and j: "j < 1048576" and jm: "j < m"
    and s: "same_spaces (with_context c v) (with_context c v1)" "ram v1 = ram v" "active_contexts v1 = active_contexts v"
      "\<forall>d\<in>contexts v - {c}. \<forall>w. vmm_lookup w d v1 = vmm_lookup w d v"
    and l: "\<And>w. vmm_lookup w c v1 = (if w div 0x1000 = (virt + of_nat j * 0x1000) div 0x1000 \<and> vmm_lookup (virt + of_nat j * 0x1000) c v = 0
        then phys + of_nat j * 0x1000 + w mod 0x1000 else vmm_lookup w c v)"
    and P: "placed c virt phys (Suc j) m v1 v'"
  shows "placed c virt phys j m v v'"
proof -
  define a where "a = virt + of_nat j * 0x1000"
  have ala: "page_aligned a" unfolding a_def using region_aligned [OF al] .
  have iff: "w div 0x1000 = a div 0x1000 \<longleftrightarrow> j * 4096 \<le> unat (w - virt) \<and> unat (w - virt) < Suc j * 4096" for w
    unfolding a_def by (rule region_page_iff [OF al j])
  have con: "contexts v1 = contexts v" using s(3) same_spacesD(2) [OF s(1)] by (auto simp: contexts_def)
  have look: "vmm_lookup w c v' = (if j * 4096 \<le> unat (w - virt) \<and> unat (w - virt) < m * 4096 \<and> vmm_lookup (entry_page w) c v = 0
      then phys + (w - virt) else vmm_lookup w c v)" for w
  proof (cases "w div 0x1000 = a div 0x1000")
    case True
    then have "entry_page w = a" by (rule entry_page_same [OF ala])
    moreover have "unat (w - virt) < m * 4096" using True iff [of w] jm by (auto intro: less_le_trans)
    moreover have "\<not> Suc j * 4096 \<le> unat (w - virt)" "j * 4096 \<le> unat (w - virt)" using True iff [of w] by auto
    moreover have "phys + of_nat j * 0x1000 + w mod 0x1000 = phys + (w - virt)"
      by (rule region_offset [OF al j]) (use True in \<open>simp add: a_def\<close>)
    ultimately show ?thesis using P l [of w] True by (simp add: placed_def a_def)
  next
    case False
    then have "vmm_lookup w c v1 = vmm_lookup w c v" "vmm_lookup (entry_page w) c v1 = vmm_lookup (entry_page w) c v"
      using l [of w] l [of "entry_page w"] by (simp_all add: entry_page_div a_def)
    moreover have "Suc j * 4096 \<le> unat (w - virt) \<longleftrightarrow> j * 4096 \<le> unat (w - virt)" using False iff [of w] by auto
    ultimately show ?thesis using P by (simp add: placed_def)
  qed
  show ?thesis
    using P s look same_spaces_trans [OF s(1)] con by (simp add: placed_def)
qed

lemma place_pages_placed:
  assumes "placing c virt phys j (j + n) v" and "page_aligned virt" "page_aligned phys" and "j + n \<le> 1048576"
  shows "place_pages c virt phys j n v = Inl (Abort ''Allocation failed!'') \<and> free_tables (books v) < n \<or>
    (\<exists>v'. place_pages c virt phys j n v = Inr v' \<and> placed c virt phys j (j + n) v v')"
  using assms
proof (induction n arbitrary: j v)
  case 0
  then show ?case by (auto simp: placed_def placing_def same_spaces_def)
next
  case (Suc n)
  define a where "a = virt + of_nat j * 0x1000"
  define p where "p = phys + of_nat j * 0x1000"
  have j: "j < j + Suc n" "j < 1048576" using Suc.prems(4) by simp_all
  have IH: "place_pages c virt phys (Suc j) n v1 = Inl (Abort ''Allocation failed!'') \<and> free_tables (books v1) < n \<or>
      (\<exists>v'. place_pages c virt phys (Suc j) n v1 = Inr v' \<and> placed c virt phys (Suc j) (j + Suc n) v1 v')"
    if "placing c virt phys (Suc j) (j + Suc n) v1" for v1
    using Suc.IH [of "Suc j" v1] that Suc.prems(2-4) by simp
  show ?case
  proof (cases "vmm_lookup a c v = 0")
    case True
    from place_page_new [OF Suc.prems(1) j(1) Suc.prems(2,3), folded a_def p_def]
    show ?thesis
    proof (elim disjE exE conjE, goal_cases)
      case 1
      with True show ?case by (simp add: place_page_def a_def p_def free_tables_none)
    next
      case (2 r v1)
      have run: "place_pages c virt phys j (Suc n) v = place_pages c virt phys (Suc j) n v1"
        using True 2(1) by (simp add: place_page_def a_def p_def)
      have "placed c virt phys j (j + Suc n) v v'" if "placed c virt phys (Suc j) (j + Suc n) v1 v'" for v'
        by (rule placed_step [OF Suc.prems(2) j(2,1) 2(3-5) 2(7) _ that]) (use 2(6) True in \<open>simp add: a_def p_def\<close>)
      moreover have "free_tables (books v) \<le> Suc (free_tables (books v1))"
        using free_tables_map [OF 2(1)] Suc.prems(1) by (simp add: placing_def)
      ultimately show ?case using IH [OF 2(2)] unfolding run by fastforce
    qed
  next
    case False
    define v1 where "v1 = v\<lparr>books := pmm_free p (books v)\<rparr>"
    have run: "place_pages c virt phys j (Suc n) v = place_pages c virt phys (Suc j) n v1"
      using False by (simp add: place_page_def a_def p_def v1_def)
    have P: "placing c virt phys (Suc j) (j + Suc n) v1"
      using place_page_mapped [OF Suc.prems(1) j(1) Suc.prems(3,4)] by (simp add: v1_def p_def)
    have "same_spaces (with_context c v) (with_context c v1)"
      by (auto simp: v1_def same_spaces_def pagedir_def with_context_def contexts_def)
    then have "placed c virt phys j (j + Suc n) v v'" if "placed c virt phys (Suc j) (j + Suc n) v1 v'" for v'
      by (rule placed_step [OF Suc.prems(2) j(2,1) _ _ _ _ _ that]) (use False in \<open>simp_all add: v1_def a_def\<close>)
    moreover have "free_tables (books v) \<le> free_tables (books v1)" using free_tables_free by (simp add: v1_def)
    ultimately show ?thesis using IH [OF P] unfolding run by fastforce
  qed
qed

section \<open>The contents of a segment\<close>

lemma vmm_lookup_page: "vmm_lookup (entry_page w) c v \<noteq> 0 \<Longrightarrow>
  mmu (vmm_activate_context c v) w = Inr (vmm_lookup w c v) \<and> vmm_lookup w c v = vmm_lookup (entry_page w) c v + w mod 0x1000"
proof -
  have "pd_index (entry_page w) = pd_index w" "pt_index (entry_page w) = pt_index w"
    by (simp_all add: pd_index_def pt_index_def entry_page_div)
  moreover have "entry_page w mod 0x1000 = 0"
    using entry_page_aligned [of w] by (simp add: page_aligned_unat word_unat_eq_iff unat_mod)
  ultimately show "vmm_lookup (entry_page w) c v \<noteq> 0 \<Longrightarrow>
    mmu (vmm_activate_context c v) w = Inr (vmm_lookup w c v) \<and> vmm_lookup w c v = vmm_lookup (entry_page w) c v + w mod 0x1000"
    by (auto simp: vmm_lookup_def mmu_def vmm_activate_context_def Let_def split: if_splits)
qed

lemma mmu_addr_lookup: "vmm_lookup (entry_page w) c v \<noteq> 0 \<Longrightarrow> mmu_addr (vmm_activate_context c v) w = vmm_lookup w c v"
  using vmm_lookup_page [of w c v] mmu_InrD [of "vmm_activate_context c v" w] by metis

lemma fill_segment_spec:
  assumes mapped: "\<forall>i<n. vmm_lookup (entry_page (dest + of_nat i)) c v \<noteq> 0"
    and inj: "inj_on (\<lambda>i. vmm_lookup (dest + of_nat i) c v) {..<n}" and le: "length content \<le> n"
  shows "\<exists>r. fill_segment c dest n content v = Inr (v\<lparr>ram := r\<rparr>) \<and>
    (\<forall>i<n. r (vmm_lookup (dest + of_nat i) c v) = (if i < length content then content ! i else 0)) \<and>
    (\<forall>a. a \<notin> (\<lambda>i. vmm_lookup (dest + of_nat i) c v) ` {..<n} \<longrightarrow> r a = ram v a)"
proof -
  define s where "s = vmm_activate_context c v"
  define A where "A = (\<lambda>i. mmu_addr s (dest + of_nat i))"
  have A: "A i = vmm_lookup (dest + of_nat i) c v" if "i < n" for i
    using mapped that by (simp add: A_def s_def mmu_addr_lookup)
  have m: "mmu s (dest + of_nat i) = Inr (mmu_addr s (dest + of_nat i))" if "i < n" for i
    using mapped that vmm_lookup_page [of "dest + of_nat i" c v] by (simp add: s_def mmu_addr_lookup)
  have injA: "inj_on A {..<n}" using inj A by (simp add: inj_on_def)
  then have injc: "inj_on A {..<length content}" using le by (auto simp: inj_on_def)
  from mmu_write_total [of "replicate n 0" s dest] m obtain r1 where r1: "mmu_write s dest (replicate n 0) = Inr (s\<lparr>ram := r1\<rparr>)" by auto
  from mmu_write_spec [OF r1] injA have z: "\<forall>i<n. r1 (A i) = 0" "\<forall>a. a \<notin> A ` {..<n} \<longrightarrow> r1 a = ram v a"
    by (simp_all add: A_def s_def vmm_activate_context_def)
  from mmu_write_total [of content "s\<lparr>ram := r1\<rparr>" dest] m le
  obtain r2 where r2: "mmu_write (s\<lparr>ram := r1\<rparr>) dest content = Inr (s\<lparr>ram := r2\<rparr>)" by auto
  from mmu_write_spec [OF r2] injc
  have f: "\<forall>i<length content. r2 (A i) = content ! i" "\<forall>a. a \<notin> A ` {..<length content} \<longrightarrow> r2 a = r1 a"
    by (simp_all add: A_def)
  have "fill_segment c dest n content v = Inr (v\<lparr>ram := r2\<rparr>)"
    using r1 r2 by (simp add: fill_segment_def s_def [symmetric]) (simp add: s_def vmm_activate_context_def)
  moreover have "r2 (A i) = (if i < length content then content ! i else 0)" if "i < n" for i
  proof (cases "i < length content")
    case False
    have "A i \<noteq> A x" if "x < length content" for x
      using inj_onD [OF injA, of i x] that le False \<open>i < n\<close> by auto
    then have "A i \<notin> A ` {..<length content}" by blast
    then show ?thesis using f(2) z(1) that False by simp
  qed (use f(1) in simp)
  moreover have "r2 a = ram v a" if "a \<notin> A ` {..<n}" for a
  proof -
    have "a \<notin> A ` {..<length content}" using that le by auto
    then show ?thesis using f(2) z(2) that by simp
  qed
  moreover have "A ` {..<n} = (\<lambda>i. vmm_lookup (dest + of_nat i) c v) ` {..<n}" using A by (intro image_cong) auto
  ultimately show ?thesis using A by (intro exI [of _ r2]) simp
qed

text \<open>
  The pages the task has in a range are its own: every one of them is marked used and no byte of a frame shows at two
  addresses.
\<close>

definition own_pages :: "u32 \<Rightarrow> u32 \<Rightarrow> nat \<Rightarrow> vmm \<Rightarrow> bool" where
  "own_pages c virt n v \<longleftrightarrow>
     (\<forall>w. unat (w - virt) < n * 4096 \<and> vmm_lookup (entry_page w) c v \<noteq> 0 \<longrightarrow> pmm_is_used (vmm_lookup (entry_page w) c v) (books v)) \<and>
     inj_on (\<lambda>w. vmm_lookup w c v) {w. unat (w - virt) < n * 4096 \<and> vmm_lookup (entry_page w) c v \<noteq> 0}"

lemma range_frames:
  assumes alloc: "pmm_alloc_range (int n) b = Inr (phys, b')" and phys: "phys \<noteq> 0"
  shows "n < 1048576" "page_aligned phys" "\<And>k. k < n \<Longrightarrow> phys + of_nat k * 0x1000 \<noteq> 0"
    "\<And>k. k < n \<Longrightarrow> pmm_is_used (phys + of_nat k * 0x1000) b'" "\<And>q. pmm_is_used q b \<Longrightarrow> pmm_is_used q b'"
proof -
  obtain i where i: "i < NPAGES" "phys = page_addr i" "range_taken (int n) i b b'"
    using alloc phys by (rule pmm_alloc_rangeE)
  have N: "i + n \<le> 1048576" using i(3) by (simp add: range_taken_def NPAGES_def BITMAP_SIZE_def)
  have i0: "0 < i" using phys i(1,2) page_addr_eq_0 by (cases "i = 0") auto
  then show "n < 1048576" using N by simp
  show "page_aligned phys" using i by (simp add: page_addr_aligned)
  have at: "phys + of_nat k * 0x1000 = page_addr (i + k)" for k by (simp add: i(2) page_addr_def algebra_simps)
  have in_range: "i + k < NPAGES" if "k < n" for k using N that by (simp add: NPAGES_def BITMAP_SIZE_def)
  show "phys + of_nat k * 0x1000 \<noteq> 0" if "k < n" for k
    using page_addr_eq_0 [OF in_range [OF that]] i0 by (simp add: at)
  show "pmm_is_used (phys + of_nat k * 0x1000) b'" if "k < n" for k
    using i(3) that page_index_addr [OF in_range [OF that]] by (simp add: at pmm_is_used_def range_taken_def bitmap_test_set_range)
  show "pmm_is_used q b \<Longrightarrow> pmm_is_used q b'" for q by (rule pmm_alloc_range_keeps(2) [OF alloc])
qed

lemma segment_size:
  assumes "i < unat memsz" and "segment_pages dest memsz \<le> 1048576"
  shows "unat (dest + of_nat i - entry_page dest) < segment_pages dest memsz * 4096"
proof -
  have "dest div 0x1000 = entry_page dest div 0x1000" by (simp add: entry_page_div)
  then have off: "unat (dest - entry_page dest) < 4096"
    using same_page_iff [of "entry_page dest" dest] by simp
  have m: "unat (memsz div 4096) = unat memsz div 4096" by (simp add: unat_div)
  have b: "unat (dest - entry_page dest) + i < segment_pages dest memsz * 4096"
    using assms(1) off unfolding segment_pages_def m by (cases "dest = entry_page dest") auto
  then have "unat (dest - entry_page dest + of_nat i) = unat (dest - entry_page dest) + i"
    using assms(2) by (simp add: unat_word_ariths unat_of_nat)
  moreover have "dest + of_nat i - entry_page dest = dest - entry_page dest + of_nat i" by simp
  ultimately show ?thesis using b by metis
qed

lemma placing_start:
  assumes wf: "vmm_wf (with_context c v)" and c: "c \<noteq> kernel_context v"
    and alloc: "pmm_alloc_range (int n) (books v) = Inr (phys, b)" and phys: "phys \<noteq> 0"
    and unused: "\<forall>k<n. \<not> pmm_is_used (phys + of_nat k * 0x1000) (books v)"
    and user: "\<forall>k<n. \<not> present (page_words v (pagedir v (kernel_context v)) (pd_index (virt + of_nat k * 0x1000)))"
  shows "placing c virt phys 0 n (v\<lparr>books := b\<rparr>)"
proof -
  note fr = range_frames [OF alloc phys]
  have w: "with_context c (v\<lparr>books := b\<rparr>) = (with_context c v)\<lparr>books := b\<rparr>" by (simp add: with_context_def)
  have "vmm_wf (with_context c (v\<lparr>books := b\<rparr>))"
    unfolding w by (rule vmm_wf_more_used [OF wf]) (simp add: fr(5))
  moreover have "clear_of p (with_context c (v\<lparr>books := b\<rparr>))" if "\<not> pmm_is_used p (books v)" for p
  proof -
    have "clear_of p (with_context c v)" using clear_of_unused [OF wf] that by simp
    then show ?thesis unfolding w by (simp add: clear_of_def pde_def tbl_def pagedir_def contexts_def)
  qed
  ultimately show ?thesis
    using c fr(4) unused user by (simp add: placing_def pde_def pagedir_def)
qed

lemma lookup_page_aligned: "page_aligned (vmm_lookup (entry_page w) c v)"
proof -
  have "entry_page w mod 0x1000 = 0"
    using entry_page_aligned [of w] by (simp add: page_aligned_unat word_unat_eq_iff unat_mod)
  moreover have "page_aligned 0" by (simp add: page_aligned_def)
  ultimately show ?thesis by (simp add: vmm_lookup_view)
qed

lemma lookup_entry_page:
  assumes "vmm_lookup (entry_page w) c v \<noteq> 0"
  shows "entry_page (vmm_lookup w c v) = vmm_lookup (entry_page w) c v" "vmm_lookup w c v \<noteq> 0"
proof -
  have "unat (w mod 0x1000) < 4096" by (simp add: unat_mod)
  then show e: "entry_page (vmm_lookup w c v) = vmm_lookup (entry_page w) c v"
    using vmm_lookup_page [OF assms] same_page_iff [OF lookup_page_aligned, of "vmm_lookup w c v" w c v]
      entry_page_same [OF lookup_page_aligned] by simp
  show "vmm_lookup w c v \<noteq> 0" using e assms by (auto simp: entry_page_def)
qed

lemma lookup_ram [simp]: "vmm_lookup w c (v\<lparr>ram := r\<rparr>) = vmm_lookup w c v"
  by (simp add: vmm_lookup_def pagedir_def)

lemma with_context_ram: "vmm_wf (with_context c (v\<lparr>ram := r\<rparr>)) \<longleftrightarrow> vmm_wf (with_context c v)"
  by (simp add: wf_defs with_context_def contexts_def pagedir_def pde_def tbl_def)

lemma entry_page_twice [simp]: "entry_page (entry_page w) = entry_page w"
  by (rule entry_page_id) simp

text \<open>After the pages are placed every address of the range has a frame, and no byte of a frame has two addresses.\<close>

lemma placed_frames:
  assumes P: "placed c virt phys 0 n v v'" and al: "page_aligned virt"
    and phys: "page_aligned phys" "n \<le> 1048576" "\<And>k. k < n \<Longrightarrow> phys + of_nat k * 0x1000 \<noteq> 0"
    and fresh: "\<And>k. k < n \<Longrightarrow> \<not> pmm_is_used (phys + of_nat k * 0x1000) b" and own: "own_pages c virt n (v\<lparr>books := b\<rparr>)"
  shows "\<And>w. unat (w - virt) < n * 4096 \<Longrightarrow> vmm_lookup (entry_page w) c v' \<noteq> 0"
    and "inj_on (\<lambda>w. vmm_lookup w c v') {w. unat (w - virt) < n * 4096}"
proof -
  have page: "\<exists>k<n. entry_page w = virt + of_nat k * 0x1000 \<and> w mod 0x1000 + (phys + of_nat k * 0x1000) = phys + (w - virt)"
    if "unat (w - virt) < n * 4096" for w
  proof -
    define k where "k = unat (w - virt) div 4096"
    have k: "k < n" "k < 1048576" using that phys(2) by (auto simp: k_def)
    have "w div 0x1000 = (virt + of_nat k * 0x1000) div 0x1000"
      using region_page_iff [OF al k(2), of w] by (simp add: k_def)
    with k region_offset [OF al k(2) this, of phys] entry_page_same [OF region_aligned [OF al] this]
    show ?thesis by (auto simp: add.commute)
  qed
  have look: "vmm_lookup w c v' = (if vmm_lookup (entry_page w) c v = 0 then phys + (w - virt) else vmm_lookup w c v)"
    if "unat (w - virt) < n * 4096" for w
    using P that by (simp add: placed_def)
  have frame: "vmm_lookup (entry_page w) c v' = phys + of_nat k * 0x1000"
    if "k < n" "entry_page w = virt + of_nat k * 0x1000" "vmm_lookup (entry_page w) c v = 0" for w k
  proof -
    have "unat (of_nat k * 0x1000 :: u32) = k * 4096"
      using unat_of_nat_32 [of "k * 4096"] that(1) phys(2) by simp
    then have "unat (entry_page w - virt) < n * 4096" using that(1,2) by simp
    then have "vmm_lookup (entry_page w) c v' = phys + (entry_page w - virt)" using look [of "entry_page w"] that(3) by simp
    then show ?thesis using that(2) by simp
  qed
  have same: "vmm_lookup (entry_page w) c v' = vmm_lookup (entry_page w) c v"
    if "unat (w - virt) < n * 4096" "vmm_lookup (entry_page w) c v \<noteq> 0" for w
    using P that(2) by (simp add: placed_def)
  show nz: "vmm_lookup (entry_page w) c v' \<noteq> 0" if "unat (w - virt) < n * 4096" for w
    using page [OF that] frame [of _ w] same [OF that] phys(3) by (cases "vmm_lookup (entry_page w) c v = 0") auto
  have apart: "vmm_lookup w c v' \<noteq> vmm_lookup u c v'"
    if "unat (w - virt) < n * 4096" "unat (u - virt) < n * 4096" "vmm_lookup (entry_page w) c v = 0" "vmm_lookup (entry_page u) c v \<noteq> 0" for w u
  proof
    note r = that
    assume "vmm_lookup w c v' = vmm_lookup u c v'"
    then have "vmm_lookup (entry_page w) c v' = vmm_lookup (entry_page u) c v" using lookup_entry_page nz r(1,2) same [OF r(2,4)] by metis
    moreover obtain k where "k < n" "vmm_lookup (entry_page w) c v' = phys + of_nat k * 0x1000"
      using page [OF r(1)] frame [of _ w] r(3) by auto
    moreover have "pmm_is_used (vmm_lookup (entry_page u) c v) b"
      using own r(2,4) by (simp add: own_pages_def)
    ultimately show False using fresh by metis
  qed
  have inj: "inj_on (\<lambda>w. vmm_lookup w c v) {w. unat (w - virt) < n * 4096 \<and> vmm_lookup (entry_page w) c v \<noteq> 0}"
    using own by (simp add: own_pages_def)
  show "inj_on (\<lambda>w. vmm_lookup w c v') {w. unat (w - virt) < n * 4096}"
  proof (rule inj_onI, simp only: mem_Collect_eq)
    fix w u assume r: "unat (w - virt) < n * 4096" "unat (u - virt) < n * 4096" and eq: "vmm_lookup w c v' = vmm_lookup u c v'"
    have new_iff: "vmm_lookup (entry_page w) c v = 0 \<longleftrightarrow> vmm_lookup (entry_page u) c v = 0"
      using apart [OF r] apart [OF r(2,1)] eq by metis
    show "w = u"
    proof (cases "vmm_lookup (entry_page w) c v = 0")
      case True
      then have "vmm_lookup w c v' = phys + (w - virt)" "vmm_lookup u c v' = phys + (u - virt)"
        using new_iff look [OF r(1)] look [OF r(2)] by presburger+
      with eq show ?thesis by simp
    next
      case False
      then have "vmm_lookup w c v = vmm_lookup u c v" using new_iff look [OF r(1)] look [OF r(2)] eq by presburger
      with inj False new_iff r show ?thesis by (auto dest: inj_onD)
    qed
  qed
qed

lemma fill_placed:
  assumes n: "n = segment_pages dest memsz" "n \<le> 1048576" and len: "length content \<le> unat memsz"
    and mapped: "\<And>w. unat (w - entry_page dest) < n * 4096 \<Longrightarrow> vmm_lookup (entry_page w) c v1 \<noteq> 0"
    and inj: "inj_on (\<lambda>w. vmm_lookup w c v1) {w. unat (w - entry_page dest) < n * 4096}"
  shows "\<exists>r. fill_segment c dest (unat memsz) content v1 = Inr (v1\<lparr>ram := r\<rparr>) \<and>
    (\<forall>i<unat memsz. vmm_lookup (dest + of_nat i) c v1 \<noteq> 0 \<and>
      r (vmm_lookup (dest + of_nat i) c v1) = (if i < length content then content ! i else 0)) \<and>
    (\<forall>a. a \<notin> (\<lambda>i. vmm_lookup (dest + of_nat i) c v1) ` {..<unat memsz} \<longrightarrow> r a = ram v1 a)"
proof -
  have in_range: "unat (dest + of_nat i - entry_page dest) < n * 4096" if "i < unat memsz" for i
    using segment_size [OF that, of dest] n by simp
  have "inj_on (\<lambda>i. dest + of_nat i :: u32) {..<unat memsz}"
  proof (rule inj_onI)
    fix i j assume "i \<in> {..<unat memsz}" "j \<in> {..<unat memsz}" "dest + of_nat i = dest + of_nat j"
    then have "(of_nat i :: u32) = of_nat j" "i < 4294967296" "j < 4294967296" using unat_lt_32 [of memsz] by auto
    then show "i = j" using unat_of_nat_32 by metis
  qed
  then have "inj_on (\<lambda>i. vmm_lookup (dest + of_nat i) c v1) {..<unat memsz}"
    by (rule comp_inj_on [unfolded o_def, OF _ inj_on_subset [OF inj]]) (use in_range in auto)
  from fill_segment_spec [OF _ this len] mapped in_range lookup_entry_page(2) show ?thesis by simp
qed

text \<open>
  C9. A loaded segment is what the program file says. For a loadable program header whose bytes lie in the file and whose
  pages lie outside the kernel's part of the address space, with frames to be found and page tables that are well
  formed, \<open>load_segment\<close> returns, unless fewer pages for page tables are left than the segment has pages and it runs
  out of them. When it returns, each of the \<open>memsz\<close> bytes from
  the virtual address on is mapped in the new task, the first \<open>filesz\<close> of them hold the bytes of the file and the
  rest are zero. That holds also where an earlier segment has mapped some of the pages. Other addresses of the task and
  all other address spaces translate as before, memory elsewhere is unchanged, and the page tables are well formed again.
\<close>

theorem segment_loaded:
  assumes wf: "vmm_wf (with_context c v)" and c: "c \<noteq> kernel_context v"
    and hdr: "word_at ph img = Inr 1" "word_at (ph + PH_VIRT_ADDR) img = Inr dest" "word_at (ph + PH_OFFSET) img = Inr offset"
      "word_at (ph + PH_MEM_SIZE) img = Inr memsz" "word_at (ph + PH_FILE_SIZE) img = Inr filesz"
    and fits: "unat offset + unat filesz \<le> length img" "unat filesz \<le> unat memsz"
    and n: "n = segment_pages dest memsz"
    and alloc: "pmm_alloc_range (int n) (books v) = Inr (phys, b)" "phys \<noteq> 0"
    and unused: "\<forall>k<n. \<not> pmm_is_used (phys + of_nat k * 0x1000) (books v)"
    and user: "\<forall>k<n. \<not> present (page_words v (pagedir v (kernel_context v)) (pd_index (entry_page dest + of_nat k * 0x1000)))"
    and own: "own_pages c (entry_page dest) n v"
  shows "load_segment c img ph v = Inl (Abort ''Allocation failed!'') \<and> free_tables b < n \<or>
    (\<exists>v'. load_segment c img ph v = Inr v' \<and>
       (\<forall>i<unat memsz. vmm_lookup (dest + of_nat i) c v' \<noteq> 0 \<and>
          ram v' (vmm_lookup (dest + of_nat i) c v') = (if i < unat filesz then img ! (unat offset + i) else 0)) \<and>
       (\<forall>w. n * 4096 \<le> unat (w - entry_page dest) \<longrightarrow> vmm_lookup w c v' = vmm_lookup w c v) \<and>
       (\<forall>d\<in>contexts v - {c}. \<forall>w. vmm_lookup w d v' = vmm_lookup w d v) \<and>
       (\<forall>a. a \<notin> (\<lambda>i. vmm_lookup (dest + of_nat i) c v') ` {..<unat memsz} \<longrightarrow> ram v' a = ram v a) \<and>
       vmm_wf (with_context c v') \<and> cr3 v' = cr3 v)"
proof -
  define virt where "virt = entry_page dest"
  note fr = range_frames [OF alloc]
  have n': "n \<le> 1048576" using fr(1) by simp
  have P: "placing c virt phys 0 (0 + n) (v\<lparr>books := b\<rparr>)"
    using placing_start [OF wf c alloc unused, of virt] user by (simp add: virt_def)
  have virt: "page_aligned virt" by (simp add: virt_def)
  define content where "content = take (unat filesz) (drop (unat offset) img)"
  have content: "bytes_at offset filesz img = Inr content" "length content = unat filesz"
    using fits(1) by (simp_all add: bytes_at_def content_def)
  have run: "load_segment c img ph v = kbind (place_pages c virt phys 0 n (v\<lparr>books := b\<rparr>)) (fill_segment c dest (unat memsz) content)"
    using hdr alloc(1) content by (simp add: load_segment_def n virt_def)
  consider "place_pages c virt phys 0 n (v\<lparr>books := b\<rparr>) = Inl (Abort ''Allocation failed!'')" "free_tables b < n"
    | v1 where "place_pages c virt phys 0 n (v\<lparr>books := b\<rparr>) = Inr v1" "placed c virt phys 0 n (v\<lparr>books := b\<rparr>) v1"
    using place_pages_placed [OF P virt fr(2)] n' by auto
  then show ?thesis
  proof cases
    case 1
    then show ?thesis by (simp add: run)
  next
    case (2 v1)
    note P1 = 2(2)
    have own': "own_pages c virt n ((v\<lparr>books := b\<rparr>)\<lparr>books := books v\<rparr>)"
      using own by (simp add: own_pages_def virt_def)
    have "\<And>k. k < n \<Longrightarrow> \<not> pmm_is_used (phys + of_nat k * 0x1000) (books v)" using unused by simp
    note F = placed_frames [OF P1 virt fr(2) n' fr(3) this own']
    from fill_placed [OF n n' _ F [unfolded virt_def], of content] content(2) fits(2)
    obtain r where r: "fill_segment c dest (unat memsz) content v1 = Inr (v1\<lparr>ram := r\<rparr>)"
      "\<forall>i<unat memsz. vmm_lookup (dest + of_nat i) c v1 \<noteq> 0 \<and>
        r (vmm_lookup (dest + of_nat i) c v1) = (if i < unat filesz then content ! i else 0)"
      "\<forall>a. a \<notin> (\<lambda>i. vmm_lookup (dest + of_nat i) c v1) ` {..<unat memsz} \<longrightarrow> r a = ram v1 a" by auto
    define v' where "v' = v1\<lparr>ram := r\<rparr>"
    have out: "vmm_lookup w c v1 = vmm_lookup w c v" if "n * 4096 \<le> unat (w - virt)" for w
      using P1 that by (simp add: placed_def)
    have "\<forall>i<unat memsz. vmm_lookup (dest + of_nat i) c v' \<noteq> 0 \<and>
        ram v' (vmm_lookup (dest + of_nat i) c v') = (if i < unat filesz then img ! (unat offset + i) else 0)"
      using r(2) fits(1) by (simp add: v'_def content_def)
    moreover have "\<forall>d\<in>contexts v - {c}. \<forall>w. vmm_lookup w d v' = vmm_lookup w d v"
      using P1 by (simp add: placed_def v'_def contexts_def)
    moreover have "vmm_wf (with_context c v')" "cr3 v' = cr3 v" "ram v1 = ram v"
      using P1 by (simp_all add: placed_def v'_def with_context_ram same_spaces_def)
    moreover have "load_segment c img ph v = Inr v'" using 2(1) r(1) by (simp add: run v'_def)
    ultimately show ?thesis using r(3) out by (intro disjI2 exI [of _ v']) (simp add: v'_def virt_def)
  qed
qed

text \<open>A program of six bytes at \<open>0x8048000\<close>, three of them in the file, for a task with the context at \<open>0x3000\<close>.\<close>

definition demo_image :: "u8 list" where
  "demo_image = le_bytes 4 1 @ le_bytes 4 32 @ le_bytes 4 0x8048000 @ le_bytes 4 0 @ le_bytes 4 3 @ le_bytes 4 6 @ le_bytes 4 7 @
     le_bytes 4 0x1000 @ [0x90, 0xEB, 0xFE]"

definition demo_loading :: vmm where
  "demo_loading = demo_vmm\<lparr>books := books lab_machine, active_contexts := []\<rparr>"

lemma demo_image_fields:
  "word_at 0 demo_image = Inr 1" "word_at (0 + PH_VIRT_ADDR) demo_image = Inr 0x8048000" "word_at (0 + PH_OFFSET) demo_image = Inr 32"
  "word_at (0 + PH_MEM_SIZE) demo_image = Inr 6" "word_at (0 + PH_FILE_SIZE) demo_image = Inr 3" "length demo_image = 35"
  by code_simp+

lemma demo_loading_wf: "vmm_wf (with_context 0x3000 demo_loading)"
proof -
  have con: "contexts demo_loading = {0x1000}" by (simp add: demo_loading_def contexts_def)
  then have sel: "contexts (with_context 0x3000 demo_loading) = {0x1000, 0x3000}" "kernel_context demo_loading = 0x1000"
    "cr3 demo_loading = 0x2000" "pagedir demo_loading = pagedir demo_vmm"
    "pde (with_context 0x3000 demo_loading) = pde demo_vmm" "books demo_loading = books lab_machine"
    by (simp_all add: demo_loading_def pde_def pagedir_def fun_eq_iff insert_commute)
  show ?thesis
    unfolding wf_defs sel with_context_sel
    using lab_start by (simp add: tbl_def sel con pmm_is_used_def lab_def lab_books_def page_aligned_def page_index_def)
qed

theorem segment_loaded_witness:
  "\<exists>v'. load_segment 0x3000 demo_image 0 demo_loading = Inr v' \<and>
     (\<forall>i<6. vmm_lookup (0x8048000 + of_nat i) 0x3000 v' \<noteq> 0 \<and>
        ram v' (vmm_lookup (0x8048000 + of_nat i) 0x3000 v') = [0x90, 0xEB, 0xFE, 0, 0, 0] ! i)"
proof -
  have n: "1 = segment_pages 0x8048000 6" by code_simp
  have e: "entry_page 0x8048000 = 0x8048000" by code_simp
  have L: "lab_books 32 16 (books demo_loading)" using lab_start by (simp add: demo_loading_def lab_def)
  obtain b' where a: "pmm_alloc_range (int 1) (books demo_loading) = Inr (page_addr 32, b')" and L': "lab_books 33 16 b'"
    using lab_frames [OF L, of 1] by auto
  have "page_available True b' 16" using L' by (simp add: page_available_def lab_books_def)
  then have left: "\<not> free_tables b' < 1" by (auto simp: free_tables_def finite_tables)
  have nz: "page_addr 32 \<noteq> 0" by (simp add: page_addr_def)
  have none: "vmm_lookup w 0x3000 demo_loading = 0" for w
    by (simp add: vmm_lookup_def demo_loading_def demo_vmm_def pagedir_def)
  have k: "0x3000 \<noteq> kernel_context demo_loading" by (simp add: demo_loading_def)
  have fits: "unat (32 :: u32) + unat (3 :: u32) \<le> length demo_image" "unat (3 :: u32) \<le> unat (6 :: u32)"
    by (simp_all add: demo_image_fields(6))
  have unused: "\<forall>k<1. \<not> pmm_is_used (page_addr 32 + of_nat k * 0x1000) (books demo_loading)"
    using L by (simp add: pmm_is_used_def page_index_def page_addr_def lab_books_def)
  have user: "\<forall>k<1. \<not> present (page_words demo_loading (pagedir demo_loading (kernel_context demo_loading))
      (pd_index (entry_page 0x8048000 + of_nat k * 0x1000)))"
    by (simp add: demo_loading_def demo_vmm_def pagedir_def)
  have own: "own_pages 0x3000 (entry_page 0x8048000) 1 demo_loading"
    by (simp add: own_pages_def none)
  from segment_loaded [OF demo_loading_wf k demo_image_fields(1-5) fits n a nz unused user own] left
  obtain v' where v': "load_segment 0x3000 demo_image 0 demo_loading = Inr v'"
      "\<forall>i<unat (6 :: u32). vmm_lookup (0x8048000 + of_nat i) 0x3000 v' \<noteq> 0 \<and> ram v' (vmm_lookup (0x8048000 + of_nat i) 0x3000 v') =
         (if i < unat (3 :: u32) then demo_image ! (unat (32 :: u32) + i) else 0)"
    by blast
  define content :: "u8 list" where "content = [0x90, 0xEB, 0xFE, 0, 0, 0]"
  have img: "(if i < 3 then demo_image ! (32 + i) else 0) = content ! i" if "i < 6" for i
  proof -
    have "demo_image ! 32 = 0x90" "demo_image ! 33 = 0xEB" "demo_image ! 34 = 0xFE" by code_simp+
    moreover have "i = 0 \<or> i = 1 \<or> i = 2 \<or> i = 3 \<or> i = 4 \<or> i = 5" using that by linarith
    ultimately show ?thesis by (auto simp: content_def)
  qed
  have "vmm_lookup (0x8048000 + of_nat i) 0x3000 v' \<noteq> 0 \<and> ram v' (vmm_lookup (0x8048000 + of_nat i) 0x3000 v') = content ! i"
    if "i < 6" for i
    unfolding img [OF that, symmetric] using v'(2) that by simp
  with v'(1) show ?thesis unfolding content_def [symmetric] by blast
qed

end
