(* ===== verification/Loader_Scripts.thy ===== *)
theory Loader_Scripts
  imports Loader Syscalls_Files
begin

text \<open>
  Programs and scripts loaded from a file system in memory: what is opened and closed around the image, the executor a
  script names, and when loading does not end.
\<close>

section \<open>The first line of a script\<close>

lemma shebang_bytes: "shebangs = [[0x23, 0x21], [0x2F, 0x2F, 0x21], [0x2D, 0x2D, 0x21], [0x3B, 0x21]]"
  by code_simp

lemma shebang_found:
  assumes "m \<in> set shebangs"
  shows "find_shebang shebangs (m @ rest) (length (m @ rest)) = Inr (Some (length m))"
  using assms by (auto simp: shebang_bytes)

lemma executor_name_line:
  "0x0A \<notin> set e \<Longrightarrow> 0 \<notin> set e \<Longrightarrow> length e < n \<Longrightarrow> executor_name (e @ 0x0A # rest) n = Inr (e, 0x3A \<in> set e)"
proof (induction e arbitrary: n)
  case Nil
  then show ?case by (cases n) auto
next
  case (Cons c e)
  then show ?case by (cases n) auto
qed

lemma executor_name_overrun:
  "\<forall>c\<in>set (take n bs). c \<noteq> 0x0A \<and> c \<noteq> 0 \<Longrightarrow> executor_name bs n = Inl OutOfBounds"
proof (induction bs n rule: executor_name.induct)
  case (3 c pt n)
  then show ?case by simp
qed simp_all

text \<open>
  A script whose first line is too long, or that ends before its first line does, makes the loader leave its
  buffers. When the 256 bytes behind the mark, or all there are, hold no end of line, the result is an access out of
  bounds: of the 256-byte buffer for the executor, which is terminated one byte behind its end, or of the
  buffer with the file, which is not terminated.
\<close>

theorem script_line_overrun:
  assumes "\<forall>c\<in>set (take 256 (drop off buf)). c \<noteq> 0x0A \<and> c \<noteq> 0"
  shows "script buf off path argv_in s = Inl OutOfBounds"
  using executor_name_overrun [OF assms] by (simp add: script_def)

theorem script_line_overrun_witness:
  "script [0x23, 0x21, 0x69, 0x3A, 0x2F, 0x61] 2 (KernelString []) (KernelArray [])
     (demo_kernel boot_vfs) = Inl OutOfBounds"
  by (rule script_line_overrun) simp

section \<open>Opening and closing around the image\<close>

definition closing :: "nat \<Rightarrow> (int \<times> ('a, 'z) kernel_scheme) kloop \<Rightarrow> (int \<times> ('a, 'z) kernel_scheme) kloop" where
  "closing f r = kseq r (\<lambda>(pid, s1). kseq (Some (on_files (vfs_close f (fsys s1)) s1)) (\<lambda>s2. Some (Inr (pid, s2))))"

text \<open>What the loader finds when it opens a file of a ramfs mount.\<close>

definition opened_for :: "u8 list \<Rightarrow> u8 list list \<Rightarrow> u8 list \<Rightarrow> 'a ramfs_scheme vfs \<Rightarrow> nat \<Rightarrow> 'a ramfs_scheme vfs \<Rightarrow> bool" where
  "opened_for nm pt c v0 f v \<longleftrightarrow> ramdisk nm v \<and> disk_view nm v = disk_view nm v0 \<and> disk_handle nm v f pt \<and> disk_view nm v pt = Some (File c) \<and>
     (\<forall>g qt. disk_handle nm v0 g qt \<longrightarrow> disk_handle nm v g qt \<and> g \<noteq> f) \<and> f \<noteq> 0 \<and> file_size f v = Inr (length c, v) \<and>
     (files (world v))(f := None) = files (world v0) \<and> opens_only v0 v"

lemma opened_on_disk:
  assumes D: "ramdisk nm v0" and fits: "path_fits nm pt" and c: "disk_view nm v0 pt = Some (File c)"
  obtains f v where "vfs_open ((nm @ 0x3A # pathstr pt) @ 0 # y) 0 v0 = Inr (f, v)" and "opened_for nm pt c v0 f v"
proof -
  obtain f v where v: "vfs_open ((nm @ 0x3A # pathstr pt) @ 0 # y) 0 v0 = Inr (f, v)" "ramdisk nm v" "disk_view nm v = disk_view nm v0"
      "disk_handle nm v f pt" "file_size f v = Inr (length c, v)"
      "\<forall>g qt. disk_handle nm v0 g qt \<longrightarrow> disk_handle nm v g qt \<and> g \<noteq> f" "(files (world v))(f := None) = files (world v0)"
      "opens_only v0 v"
    using disk_open_any [OF D fits c, of y 0] by blast
  have "f \<noteq> 0" using v(4) ramfs_wfD(6) [OF ramdiskD(3) [OF v(2)], of f] by (auto simp: disk_handle_def opened_def)
  moreover have "disk_view nm v pt = Some (File c)" using v(3) c by simp
  ultimately have "opened_for nm pt c v0 f v" unfolding opened_for_def by (intro conjI v(2-8))
  with v(1) show thesis by (rule that)
qed

lemma opened_forD:
  assumes "opened_for nm pt c v0 f v"
  shows "ramdisk nm v" "disk_handle nm v f pt" "disk_view nm v = disk_view nm v0" "f \<noteq> 0" "opens_only v0 v"
    "(files (world v))(f := None) = files (world v0)"
  using assms by (simp_all add: opened_for_def)

lemma with_file_disk:
  fixes s :: "('a ramfs_ext, 'z) kernel_scheme"
  assumes D: "ramdisk nm (fsys s)" and fits: "path_fits nm pt" and c: "disk_view nm (fsys s) pt = Some (File c)"
  shows "\<exists>f v. with_file ((nm @ 0x3A # pathstr pt) @ 0 # y) load s = closing f (load f (s\<lparr>fsys := v\<rparr>)) \<and> opened_for nm pt c (fsys s) f v"
proof -
  from D fits c obtain f v where v: "vfs_open ((nm @ 0x3A # pathstr pt) @ 0 # y) 0 (fsys s) = Inr (f, v)" "opened_for nm pt c (fsys s) f v"
    by (rule opened_on_disk)
  then have "with_file ((nm @ 0x3A # pathstr pt) @ 0 # y) load s = closing f (load f (s\<lparr>fsys := v\<rparr>))"
    using opened_forD(4) [OF v(2)] by (simp add: with_file_def closing_def)
  with v(2) show ?thesis by blast
qed

text \<open>The buffers for an executor: 256 bytes with a string.\<close>

definition line_buffer :: "u8 list \<Rightarrow> u8 list" where
  "line_buffer line = line @ 0 # replicate (255 - length line) 0"

lemma line_buffer_fill: "length line < 256 \<Longrightarrow> line @ replicate (256 - length line) 0 = line_buffer line"
  by (simp add: line_buffer_def replicate_Suc [symmetric] Suc_diff_le del: replicate_Suc)

definition full_name :: "u8 list \<Rightarrow> u8 list list \<Rightarrow> u8 list" where
  "full_name nm pt = nm @ 0x3A # pathstr pt"

lemma full_name_string:
  assumes "path_fits nm pt"
  shows "cstring (pathstr pt)" "cstring nm \<Longrightarrow> cstring (full_name nm pt)"
proof -
  show "cstring (pathstr pt)" using assms unfolding path_fits_def
    by (auto simp: pathstr_def cstring_def valid_name_def list_all_iff)
  then show "cstring nm \<Longrightarrow> cstring (full_name nm pt)" by (simp add: full_name_def cstring_def)
qed

text \<open>The first mount that opens the path of an executor is used, with the full path there.\<close>

lemma ramdisk_name:
  assumes "ramdisk nm v"
  shows "text_of (ramfs_name (mount_called v nm) (world v)) = nm"
proof -
  have "mount_called v nm \<noteq> 0" using assms by (simp add: ramdisk_def)
  then obtain m where "mount_called v nm = m" "text_of (m_name (the (mount_ops v m)) m (world v)) = nm"
    by (auto simp: mount_called_def find_Some_iff split: option.splits)
  with ramdiskD(2) [OF assms] show ?thesis by (simp add: ramfs_ops_sel)
qed

lemma with_first_file_disk:
  fixes s :: "('a ramfs_ext, 'z) kernel_scheme"
  assumes D: "ramdisk nm (fsys s)" and fits: "path_fits nm pt" "length (full_name nm pt) < 256" and c: "disk_view nm (fsys s) pt = Some (File c)"
    and first: "reached_first nm (line_buffer (pathstr pt)) (fsys s)"
  shows "\<exists>f v. with_first_file (line_buffer (pathstr pt)) load s = closing f (load f (line_buffer (full_name nm pt)) (s\<lparr>fsys := v\<rparr>)) \<and>
    opened_for nm pt c (fsys s) f v"
proof -
  from D fits(1) c obtain f v where v: "vfs_open ((nm @ 0x3A # pathstr pt) @ 0 # []) 0 (fsys s) = Inr (f, v)" "opened_for nm pt c (fsys s) f v"
    by (rule opened_on_disk)
  note o = opened_forD [OF v(2)]
  have found: "vfs_open_first_found (line_buffer (pathstr pt)) 0 (fsys s) = Inr (f, v)"
    using opened_first [OF D fits(1) c first [unfolded line_buffer_def], of "[]"] v(1) by (simp add: line_buffer_def)
  have mount: "file_mount f v = Inr (mount_called v nm, ramfs_ops)" by (rule disk_file_mount [OF o(1,2)])
  have "full_path (ramfs_name (mount_called v nm) (world v)) (line_buffer (pathstr pt)) = Inr (line_buffer (full_name nm pt))"
    using fits(2) full_name_string(1) [OF fits(1)] line_buffer_fill [of "full_name nm pt"]
    by (simp add: full_path_def ramdisk_name [OF o(1)] line_buffer_def full_name_def)
  with found mount o(4) v(2) show ?thesis by (auto simp: with_first_file_def closing_def ramfs_ops_sel)
qed

text \<open>One call of the loader, with what it calls itself for as an argument.\<close>

definition load_step :: "(inflater \<Rightarrow> nat \<Rightarrow> string_ptr \<Rightarrow> string_array \<Rightarrow> string_array \<Rightarrow> ('a, 'z) kernel_scheme \<Rightarrow> (int \<times> ('a, 'z) kernel_scheme) kloop) \<Rightarrow>
    inflater \<Rightarrow> nat \<Rightarrow> string_ptr \<Rightarrow> string_array \<Rightarrow> string_array \<Rightarrow> ('a, 'z) kernel_scheme \<Rightarrow> (int \<times> ('a, 'z) kernel_scheme) kloop" where
  "load_step load gunzip f path argv_in envp_in s =
     kseq (Some (deref (files (world (fsys s))) f)) (\<lambda>fl.
     kseq (Some (vfs_read f (f_size fl) 0 (fsys s))) (\<lambda>(buf, v).
     kseq (Some (find_shebang shebangs buf (f_size fl))) (\<lambda>found.
     case found of
       None \<Rightarrow> Some (init_executable gunzip (task_term (tasks s ! get_self s)) buf argv_in envp_in (s\<lparr>fsys := v\<rparr>))
     | Some off \<Rightarrow>
         kseq (Some (script buf off path argv_in (s\<lparr>fsys := v\<rparr>))) (\<lambda>(executor, absolute, new_argv).
         if absolute then
           with_file executor (\<lambda>f2. load gunzip f2 (KernelString executor) new_argv envp_in) (s\<lparr>fsys := v\<rparr>)
         else
           with_first_file executor (\<lambda>f2 path2. load gunzip f2 (KernelString path2) new_argv envp_in)
             (s\<lparr>fsys := v\<rparr>)))))"

lemma load_executable_file_step: "load_executable_file gunzip f path argv_in envp_in s = load_step load_executable_file gunzip f path argv_in envp_in s"
  unfolding load_step_def by (rule load_executable_file.simps)

lemma pointers_at_fsys [simp]: "pointers_at p n (s\<lparr>fsys := v\<rparr>) = pointers_at p n s"
  by (induction n arbitrary: p) (simp_all add: user_word_def user_read_def cong del: if_weak_cong)

lemma array_items_fsys [simp]: "array_items a (s\<lparr>fsys := v\<rparr>) = array_items a s"
  by (cases a) simp_all

lemma same_fsys [simp]: "s\<lparr>fsys := fsys s\<rparr> = s"
  by simp

lemma load_step_disk:
  fixes s :: "('a ramfs_ext, 'z) kernel_scheme"
  assumes "opened_for nm pt c v0 f (fsys s)"
  shows "load_step load gunzip f path argv_in envp_in s =
    kseq (Some (find_shebang shebangs c (length c))) (\<lambda>found. case found of
       None \<Rightarrow> Some (init_executable gunzip (task_term (tasks s ! get_self s)) c argv_in envp_in s)
     | Some off \<Rightarrow>
         kseq (Some (script c off path argv_in s)) (\<lambda>(executor, absolute, new_argv).
         if absolute then
           with_file executor (\<lambda>f2. load gunzip f2 (KernelString executor) new_argv envp_in) s
         else
           with_first_file executor (\<lambda>f2 path2. load gunzip f2 (KernelString path2) new_argv envp_in) s))"
proof -
  have o: "ramdisk nm (fsys s)" "disk_handle nm (fsys s) f pt" "disk_view nm (fsys s) pt = Some (File c)" "file_size f (fsys s) = Inr (length c, fsys s)"
    using assms unfolding opened_for_def by blast+
  have r: "vfs_read f (length c) 0 (fsys s) = Inr (c, fsys s)"
    using disk_read_ok [OF o(1-3), of 0 "length c"] by simp
  obtain fl where "deref (files (world (fsys s))) f = Inr fl" "f_size fl = length c"
    using o(4) by (auto simp: file_size_def)
  with r show ?thesis by (simp add: load_step_def cong del: option.case_cong_weak if_weak_cong)
qed

section \<open>Scripts\<close>

text \<open>The text of a script: a mark, the name of the executor, the end of the line and the rest.\<close>

definition script_text :: "u8 list \<Rightarrow> u8 list \<Rightarrow> u8 list \<Rightarrow> u8 list" where
  "script_text mark line rest = mark @ line @ 0x0A # rest"

lemma script_line:
  assumes "cstring line" and "0x0A \<notin> set line" and "length line < 256" and "mark \<in> set shebangs" and "array_items argv_in s = Inr as"
  shows "find_shebang shebangs (script_text mark line rest) (length (script_text mark line rest)) = Inr (Some (length mark))"
    and "script (script_text mark line rest) (length mark) path argv_in s =
      Inr (line_buffer line, 0x3A \<in> set line, KernelArray (script_args (line_buffer line) path as))"
proof -
  show "find_shebang shebangs (script_text mark line rest) (length (script_text mark line rest)) = Inr (Some (length mark))"
    unfolding script_text_def by (rule shebang_found [OF assms(4)])
  have "executor_name (line @ 0x0A # rest) 256 = Inr (line, 0x3A \<in> set line)"
    using executor_name_line [OF assms(2) _ assms(3), of rest] assms(1) by (simp add: cstring_def)
  with assms(5) show "script (script_text mark line rest) (length mark) path argv_in s =
      Inr (line_buffer line, 0x3A \<in> set line, KernelArray (script_args (line_buffer line) path as))"
    by (simp add: script_def script_text_def line_buffer_fill [OF assms(3)] Let_def)
qed

definition executor_fits :: "u8 list \<Rightarrow> u8 list list \<Rightarrow> bool" where
  "executor_fits nm pt \<longleftrightarrow> 0x0A \<notin> set (full_name nm pt) \<and> length (full_name nm pt) < 256"

text \<open>A line names a program by its full path, or by its path alone when no mount before has a file there.\<close>

definition line_names :: "u8 list \<Rightarrow> u8 list \<Rightarrow> u8 list list \<Rightarrow> 'a ramfs_scheme vfs \<Rightarrow> bool" where
  "line_names line nm pt v \<longleftrightarrow>
     line = full_name nm pt \<or> line = pathstr pt \<and> 0x3A \<notin> set line \<and> reached_first nm (line_buffer line) v"

lemma line_names_fits:
  assumes "line_names line nm pt v" and "ramdisk nm v" and "path_fits nm pt" and "executor_fits nm pt"
  shows "cstring line" "0x0A \<notin> set line" "length line < 256"
proof -
  have nm: "cstring nm" using assms(2) by (simp add: ramdisk_def)
  have fits: "0x0A \<notin> set (full_name nm pt)" "length (full_name nm pt) < 256"
    using assms(4) by (simp_all only: executor_fits_def simp_thms)
  have "line = full_name nm pt \<or> line = pathstr pt" using assms(1) by (auto simp: line_names_def)
  then show "cstring line" "0x0A \<notin> set line" "length line < 256"
    using full_name_string [OF assms(3)] nm fits by (auto simp: full_name_def)
qed

lemma full_name_absolute [simp]: "0x3A \<in> set (full_name nm pt)"
  by (simp add: full_name_def)

text \<open>
  A script that names itself as its executor is loaded forever. On a ramfs mount that holds such a script under a
  path, \<open>load_executable\<close> of that path does not return: in the kernel the recursion runs over its stack.
\<close>

theorem script_naming_itself_diverges:
  fixes s :: "('a ramfs_ext, 'z) kernel_scheme"
  assumes D: "ramdisk nm (fsys s)" and fits: "path_fits nm pt" "executor_fits nm pt" and mark: "mark \<in> set shebangs"
    and c: "disk_view nm (fsys s) pt = Some (File (script_text mark (full_name nm pt) rest))"
    and path: "path_bytes path s = Inr (full_name nm pt @ 0 # y)" and args: "array_items argv_in s = Inr as"
  shows "load_executable gunzip path argv_in envp_in s = None"
proof -
  define content where "content = script_text mark (full_name nm pt) rest"
  have never: "\<not> ((\<exists>v0. opened_for nm pt content v0 f (fsys s)) \<and> (\<exists>as. array_items argv_in s = Inr as))"
    if "load_executable_file gunzip f path argv_in envp_in s = Some r"
    for gunzip f path argv_in envp_in r and s :: "('a ramfs_ext, 'z) kernel_scheme"
    using that
  proof (rule load_executable_file.raw_induct [where P = "\<lambda>gunzip f path argv_in envp_in s r.
      \<not> ((\<exists>v0. opened_for nm pt content v0 f (fsys s)) \<and> (\<exists>as. array_items argv_in s = Inr as))", rotated], goal_cases)
    case (1 load gunzip f path argv_in envp_in s r)
    note run = 1(2) [folded load_step_def]
    show ?case
    proof
      assume "(\<exists>v0. opened_for nm pt content v0 f (fsys s)) \<and> (\<exists>as. array_items argv_in s = Inr as)"
      then obtain v0 as where o: "opened_for nm pt content v0 f (fsys s)" and as: "array_items argv_in s = Inr as" by blast
      have d: "ramdisk nm (fsys s)" "disk_view nm (fsys s) pt = Some (File content)" using o by (auto simp: opened_for_def)
      note line = line_names_fits [OF _ d(1) fits, of "full_name nm pt", unfolded line_names_def, simplified]
      note sc = script_line(1) [OF line mark as, of rest, folded content_def] script_line(2) [OF line mark as, of rest path, folded content_def]
      define k where "k = (\<lambda>f2. load gunzip f2 (KernelString (line_buffer (full_name nm pt)))
        (KernelArray (script_args (line_buffer (full_name nm pt)) path as)) envp_in)"
      from with_file_disk [OF d(1) fits(1) d(2), of _ k]
      obtain f2 v where v: "with_file (line_buffer (full_name nm pt)) k s = closing f2 (k f2 (s\<lparr>fsys := v\<rparr>))" "opened_for nm pt content (fsys s) f2 v"
        by (metis line_buffer_def full_name_def)
      have "load_step load gunzip f path argv_in envp_in s = with_file (line_buffer (full_name nm pt)) k s"
        by (subst load_step_disk [OF o]) (simp add: sc k_def)
      with run v(1) obtain r2 where "k f2 (s\<lparr>fsys := v\<rparr>) = Some r2"
        by (cases "k f2 (s\<lparr>fsys := v\<rparr>)") (auto simp: closing_def)
      from 1(1) [OF this [unfolded k_def]] v(2) show False by auto
    qed
  qed
  from with_file_disk [OF D fits(1) c, of y] obtain f v where
    v: "with_file (full_name nm pt @ 0 # y) (\<lambda>f. load_executable_file gunzip f path argv_in envp_in) s =
      closing f (load_executable_file gunzip f path argv_in envp_in (s\<lparr>fsys := v\<rparr>))" "opened_for nm pt content (fsys s) f v"
    unfolding full_name_def content_def by metis
  have "array_items argv_in (s\<lparr>fsys := v\<rparr>) = Inr as" using args by simp
  with never [of gunzip f path argv_in envp_in "s\<lparr>fsys := v\<rparr>"] v(2)
  have "load_executable_file gunzip f path argv_in envp_in (s\<lparr>fsys := v\<rparr>) = None"
    by (cases "load_executable_file gunzip f path argv_in envp_in (s\<lparr>fsys := v\<rparr>)") auto
  then show ?thesis using v(1) path by (simp add: load_executable_def closing_def)
qed

text \<open>The script \<open>#!tmp:/a\<close>, saved as \<open>tmp:/a\<close> on the mount of the boot.\<close>

theorem script_naming_itself_diverges_witness:
  "\<exists>v v1. stage_mount boot_vfs = Inr v \<and>
     save_file (disk_touch tmp_name) (disk_open tmp_name) vfs_write vfs_close [[0x61]] (script_text [0x23, 0x21] (full_name tmp_name [[0x61]]) []) v = Inr v1 \<and>
     load_executable (\<lambda>_ _. None) (KernelString (full_name tmp_name [[0x61]] @ [0])) (KernelArray []) (KernelArray []) (demo_kernel v1) = None"
proof -
  define text_of where "text_of = script_text [0x23, 0x21] (full_name tmp_name [[0x61]]) []"
  obtain v where v: "stage_mount boot_vfs = Inr v" "ramdisk tmp_name v" "disk_creatable tmp_name v [[0x61]]" by (rule boot_tmp)
  have "length text_of < 100" by (simp add: text_of_def script_text_def full_name_def tmp_name_def pathstr_def)
  with ramfs_mount.save_file_ok [OF v(2) TrueI v(3), of text_of] obtain v1 where
    v1: "save_file (disk_touch tmp_name) (disk_open tmp_name) vfs_write vfs_close [[0x61]] text_of v = Inr v1" "ramdisk tmp_name v1"
      "path_fits tmp_name [[0x61]]" "disk_view tmp_name v1 [[0x61]] = Some (File text_of)"
    by (auto simp: same_path_def)
  have "executor_fits tmp_name [[0x61]]" by (simp add: executor_fits_def full_name_def tmp_name_def pathstr_def)
  then have "load_executable (\<lambda>_ _. None) (KernelString (full_name tmp_name [[0x61]] @ 0 # [])) (KernelArray []) (KernelArray []) (demo_kernel v1) = None"
    using v1 by (intro script_naming_itself_diverges [where mark = "[0x23, 0x21]" and rest = "[]" and y = "[]"]) (simp_all add: text_of_def shebang_bytes)
  with v(1) v1(1) show ?thesis unfolding text_of_def by auto
qed

end
