(* ===== verification/Demo_Loader.thy ===== *)
theory Demo_Loader
  imports Loader
begin

text \<open>
  A small program that the loader really loads on the machine of \<open>Demo_Machine\<close>, whatever strings it is passed: an ELF
  file of 86 bytes with one segment, the two bytes of an endless loop at \<open>0x8048000\<close>.
\<close>

section \<open>The program\<close>

definition tiny_elf :: "u8 list" where
  "tiny_elf = [0x7F, 0x45, 0x4C, 0x46] @ replicate 12 0 @ replicate 8 0 @ le_bytes 4 0x8048000 @ le_bytes 4 52 @ le_bytes 4 0 @
     le_bytes 4 0 @ [52, 0, 32, 0, 1, 0, 0, 0, 0, 0, 0, 0] @
     le_bytes 4 1 @ le_bytes 4 84 @ le_bytes 4 0x8048000 @ le_bytes 4 0 @ le_bytes 4 2 @ le_bytes 4 2 @ le_bytes 4 5 @ le_bytes 4 0x1000 @
     [0xEB, 0xFE]"

lemma tiny_elf_header:
  "word_at 0 tiny_elf = Inr ELF_MAGIC" "word_at EH_ENTRY tiny_elf = Inr 0x8048000" "word_at EH_PH_OFFSET tiny_elf = Inr 52"
  "number_at 2 EH_PH_ENTRY_COUNT tiny_elf = Inr 1" "collect_symbols tiny_elf = Inr None"
  by code_simp+

lemma tiny_elf_segment:
  "word_at 52 tiny_elf = Inr 1" "word_at (52 + PH_VIRT_ADDR) tiny_elf = Inr 0x8048000" "word_at (52 + PH_OFFSET) tiny_elf = Inr 84"
  "word_at (52 + PH_MEM_SIZE) tiny_elf = Inr 2" "word_at (52 + PH_FILE_SIZE) tiny_elf = Inr 2" "bytes_at 84 2 tiny_elf = Inr [0xEB, 0xFE]"
  "segment_pages 0x8048000 2 = 1" "entry_page 0x8048000 = 0x8048000"
  by code_simp+

section \<open>Its segment\<close>

lemma tiny_segment:
  assumes L: "lab 64 19 v" and u: "lab_user v" "page_words v 0x11000 32 = 0"
  shows "\<exists>v'. load_segment 0x10000 tiny_elf 52 v = Inr v' \<and> lab 65 20 v' \<and> lab_user v'"
proof -
  have B: "lab_books 64 19 (books v)" and T: "lab_tables v" using L by (simp_all add: lab_def)
  obtain b where b: "pmm_alloc_range (int 1) (books v) = Inr (page_addr 64, b)" "lab_books 65 19 b"
    using lab_frames [OF B, of 1] by auto
  obtain b' where b': "pmm_alloc_pagetable b = Inr (page_addr 19, b')" "lab_books 65 20 b'"
    using lab_table [OF b(2)] by auto
  have p: "page_addr 64 = 0x40000" "page_addr 19 = 0x13000" by (simp_all add: page_addr_def)
  define v1 where "v1 = put_word 0x13000 72 0x40007 (put_word 0x11000 32 0x13007 (zero_page 0x13000 (v\<lparr>books := b'\<rparr>)))"
  have i: "pd_index 0x8048000 = 32" "pt_index 0x8048000 = 72" by code_simp+
  have absent: "vmm_lookup 0x8048000 0x10000 (v\<lparr>books := b\<rparr>) = 0"
    using u by (simp add: vmm_lookup_def pagedir_def lab_user_def lab_task_def i present_def)
  have map: "vmm_map_page 0x10000 0x8048000 0x40000 (PTE_PRESENT OR PTE_WRITE OR PTE_USER) (v\<lparr>books := b\<rparr>) = Inr (0, v1)"
    using T u b'(1) by (simp add: vmm_map_page_def vmm_map_page_unsafe_def lab_tables_def lab_user_def lab_task_def pagedir_def
        present_def PTE_PRESENT_def PTE_WRITE_def PTE_USER_def entry_page_def v1_def i p)
  have place: "place_pages 0x10000 0x8048000 (page_addr 64) 0 1 (v\<lparr>books := b\<rparr>) = Inr v1"
    using absent map by (simp add: place_page_def p)
  define w where "w = vmm_activate_context 0x10000 v1"
  have at: "mmu w (0x8048000 + of_nat k) = Inr (mmu_addr w (0x8048000 + of_nat k))" if "k < 2" for k
  proof -
    have k: "k = 0 \<or> k = 1" using that by auto
    then have ix: "pd_index (0x8048000 + of_nat k) = 32" "pt_index (0x8048000 + of_nat k) = 72"
      by (elim disjE; simp add: pd_index_def pt_index_def)+
    have "cr3 w = 0x11000" using u by (simp add: w_def vmm_activate_context_def pagedir_def v1_def put_word_def zero_page_def lab_user_def lab_task_def)
    moreover have "page_words w 0x11000 32 = 0x13007" "page_words w 0x13000 72 = 0x40007"
      by (simp_all add: w_def vmm_activate_context_def v1_def put_word_def)
    ultimately show ?thesis
      by (simp add: mmu_def mmu_addr_def ix present_def PTE_PRESENT_def entry_page_def)
  qed
  obtain r where r: "mmu_write w 0x8048000 (replicate 2 0) = Inr (w\<lparr>ram := r\<rparr>)"
    using mmu_write_total [of "replicate 2 0" w "0x8048000"] at by auto
  obtain r' where r': "mmu_write (w\<lparr>ram := r\<rparr>) 0x8048000 [0xEB, 0xFE] = Inr (w\<lparr>ram := r'\<rparr>)"
    using mmu_write_total [of "[0xEB, 0xFE]" "w\<lparr>ram := r\<rparr>" "0x8048000"] at by auto
  have "fill_segment 0x10000 0x8048000 (unat (2 :: u32)) [0xEB, 0xFE] v1 = Inr (w\<lparr>ram := r', cr3 := cr3 v1\<rparr>)"
    using r r' by (simp add: fill_segment_def w_def [symmetric] del: mmu_write.simps)
  then have "fill_segment 0x10000 0x8048000 (unat (2 :: u32)) [0xEB, 0xFE] v1 = Inr (v1\<lparr>ram := r'\<rparr>)"
    by (simp add: w_def vmm_activate_context_def)
  then have "load_segment 0x10000 tiny_elf 52 v = Inr (v1\<lparr>ram := r'\<rparr>)"
    using b(1) place by (simp add: load_segment_def tiny_elf_segment)
  moreover have "lab 65 20 (v1\<lparr>ram := r'\<rparr>)" "lab_user (v1\<lparr>ram := r'\<rparr>)"
    using T u b'(2) by (simp_all add: v1_def lab_def lab_tables_def lab_user_def lab_task_def put_word_def zero_page_def)
  ultimately show ?thesis by blast
qed

section \<open>Its arguments\<close>

text \<open>The task in slot \<open>i\<close> has its address space, and the pages from 65 up to \<open>a\<close> are mapped in the kernel.\<close>

definition passing :: "nat \<Rightarrow> nat \<Rightarrow> ('a, 'z) kernel_scheme \<Rightarrow> bool" where
  "passing a i s \<longleftrightarrow> lab a 20 (vm s) \<and> lab_user (vm s) \<and> task_context (tasks s ! i) = 0x10000 \<and>
     (\<forall>k. 65 \<le> k \<and> k < a \<longrightarrow> mapped k (vm s))"

lemma mapped_other [simp]:
  "mapped k (put_word 0x12000 j w s) = mapped k s" "mapped k (s\<lparr>active_contexts := acs\<rparr>) = mapped k s"
  by (simp_all add: mapped_def put_word_def)

lemma passing_alloc:
  assumes P: "passing a i s" and a: "65 \<le> a" "a < 128"
  shows "\<exists>v. run_vm (vmm_alloc 1) s = Inr (page_addr a, s\<lparr>vm := v\<rparr>) \<and> passing (Suc a) i (s\<lparr>vm := v\<rparr>)"
proof -
  have "lab a 20 ((vm s)\<lparr>active_contexts := active_of (tasks s)\<rparr>)" using P by (simp add: passing_def)
  from lab_alloc [OF this, of 1] a obtain v where v: "vmm_alloc 1 ((vm s)\<lparr>active_contexts := active_of (tasks s)\<rparr>) = Inr (page_addr a, v)"
      "lab (Suc a) 20 v" "now_mapped a (Suc a) ((vm s)\<lparr>active_contexts := active_of (tasks s)\<rparr>) v" by auto
  then have "passing (Suc a) i (s\<lparr>vm := v\<rparr>)"
    using P by (auto simp: passing_def now_mapped_def mapped_def lab_user_keeps(4) less_Suc_eq
        intro: lab_user_keeps(1) [of "(vm s)\<lparr>active_contexts := active_of (tasks s)\<rparr>"])
  with v(1) show ?thesis by (auto simp: run_vm_def)
qed

lemma passing_page:
  assumes P: "passing a i s" and k: "k < 1024"
  shows "\<exists>v. user_page i (page_addr k + USER_SPACE_OFFSET) (page_addr k) s = Inr (s\<lparr>vm := v\<rparr>) \<and> passing a i (s\<lparr>vm := v\<rparr>)"
proof -
  define v where "v = put_word 0x12000 k (page_addr k OR 7) ((vm s)\<lparr>active_contexts := active_of (tasks s)\<rparr>)"
  have "vmm_map_page 0x10000 (page_addr k + USER_SPACE_OFFSET) (page_addr k) (PTE_PRESENT OR PTE_WRITE OR PTE_USER)
      ((vm s)\<lparr>active_contexts := active_of (tasks s)\<rparr>) = Inr (0, v)"
    unfolding v_def using P k by (intro lab_map_user [of a 20]) (simp_all add: passing_def lab_user_keeps)
  moreover have "passing a i (s\<lparr>vm := v\<rparr>)"
    using P by (simp add: passing_def v_def lab_keeps lab_user_keeps mapped_other)
  ultimately show ?thesis using P by (auto simp: user_page_def run_vm_def passing_def)
qed

lemma passing_write:
  assumes P: "passing a i s" and k: "65 \<le> k" "k < a" "a \<le> 128" and off: "off + length bs \<le> 4096"
  shows "\<exists>v. user_write (page_addr k + of_nat off) bs s = Inr (s\<lparr>vm := v\<rparr>) \<and> passing a i (s\<lparr>vm := v\<rparr>)"
proof -
  have "lab_tables (vm s)" "mapped k (vm s)" using P k by (auto simp: passing_def lab_def)
  from lab_write [OF this _ off] k obtain r where "mmu_write (vm s) (page_addr k + of_nat off) bs = Inr ((vm s)\<lparr>ram := r\<rparr>)" by auto
  moreover have "passing a i (s\<lparr>vm := (vm s)\<lparr>ram := r\<rparr>\<rparr>)" using P by (simp add: passing_def lab_user_keeps mapped_def)
  ultimately show ?thesis by (auto simp: user_write_def)
qed

lemma passing_word:
  assumes "passing a i s" and "65 \<le> k" "k < a" "a \<le> 128" and "4 * j + 4 \<le> 4096"
  shows "\<exists>v. write_word (page_addr k + of_nat j * 4) w s = Inr (s\<lparr>vm := v\<rparr>) \<and> passing a i (s\<lparr>vm := v\<rparr>)"
    and "\<exists>w. user_word (page_addr k + of_nat j * 4) s = Inr w"
proof -
  have e: "page_addr k + of_nat j * 4 = page_addr k + of_nat (4 * j)" by simp
  show "\<exists>v. write_word (page_addr k + of_nat j * 4) w s = Inr (s\<lparr>vm := v\<rparr>) \<and> passing a i (s\<lparr>vm := v\<rparr>)"
    unfolding write_word_def e using assms by (intro passing_write) simp_all
  have "lab_tables (vm s)" "mapped k (vm s)" using assms by (auto simp: passing_def lab_def)
  from lab_read [OF this, of "4 * j" 4] assms obtain bs where "mmu_read (vm s) (page_addr k + of_nat (4 * j)) 4 = Inr bs" by auto
  then show "\<exists>w. user_word (page_addr k + of_nat j * 4) s = Inr w" unfolding user_word_def user_read_def e by simp
qed

text \<open>Strings that fit a page.\<close>

definition short_string :: "string_ptr \<Rightarrow> bool" where
  "short_string x \<longleftrightarrow> (\<exists>bs copy. x = KernelString bs \<and> copied_bytes bs = Inr copy \<and> length copy \<le> 4096)"

lemma passing_strings:
  assumes "passing a i s" and "65 \<le> T" "T < a" and "a + length xs \<le> 128" and "4 * (k + length xs) + 4 \<le> 4096"
    and "\<forall>x\<in>set xs. short_string x"
  shows "\<exists>v. copy_strings i (page_addr T) k xs s = Inr (s\<lparr>vm := v\<rparr>) \<and> passing (a + length xs) i (s\<lparr>vm := v\<rparr>)"
  using assms
proof (induction xs arbitrary: k s a)
  case Nil
  then show ?case using passing_word(1) [of a i s T k 0] by simp
next
  case (Cons x xs)
  obtain bs copy where x: "x = KernelString bs" "copied_bytes bs = Inr copy" "length copy \<le> 4096"
    using Cons.prems(6) by (auto simp: short_string_def)
  have b: "65 \<le> a" "a < 128" "T < Suc a" "Suc a \<le> 128" "4 * k + 4 \<le> 4096" using Cons.prems by simp_all
  obtain v1 where v1: "run_vm (vmm_alloc 1) s = Inr (page_addr a, s\<lparr>vm := v1\<rparr>)" "passing (Suc a) i (s\<lparr>vm := v1\<rparr>)"
    using passing_alloc [OF Cons.prems(1) b(1,2)] by blast
  obtain v2 where v2: "write_word (page_addr T + of_nat k * 4) (page_addr a) (s\<lparr>vm := v1\<rparr>) = Inr (s\<lparr>vm := v2\<rparr>)" "passing (Suc a) i (s\<lparr>vm := v2\<rparr>)"
    using passing_word(1) [OF v1(2) Cons.prems(2) b(3,4,5), of "page_addr a"] by auto
  obtain v3 where v3: "user_page i (page_addr a + USER_SPACE_OFFSET) (page_addr a) (s\<lparr>vm := v2\<rparr>) = Inr (s\<lparr>vm := v3\<rparr>)" "passing (Suc a) i (s\<lparr>vm := v3\<rparr>)"
    using passing_page [OF v2(2), of a] b by auto
  obtain v4 where v4: "user_write (page_addr a) (replicate 4096 0) (s\<lparr>vm := v3\<rparr>) = Inr (s\<lparr>vm := v4\<rparr>)" "passing (Suc a) i (s\<lparr>vm := v4\<rparr>)"
    using passing_write [OF v3(2) b(1) lessI b(4), of 0 "replicate 4096 0"] by auto
  obtain v5 where v5: "user_write (page_addr a) copy (s\<lparr>vm := v4\<rparr>) = Inr (s\<lparr>vm := v5\<rparr>)" "passing (Suc a) i (s\<lparr>vm := v5\<rparr>)"
    using passing_write [OF v4(2) b(1) lessI b(4), of 0 copy] x(3) by auto
  obtain v where v: "copy_strings i (page_addr T) (Suc k) xs (s\<lparr>vm := v5\<rparr>) = Inr (s\<lparr>vm := v\<rparr>)" "passing (Suc a + length xs) i (s\<lparr>vm := v\<rparr>)"
    using Cons.IH [OF v5(2) Cons.prems(2) b(3), of "Suc k"] Cons.prems(4-6) by auto
  have "copy_strings i (page_addr T) k (x # xs) s = Inr (s\<lparr>vm := v\<rparr>)"
    using v1(1) v2(1) v3(1) v4(1) v5(1) v(1) x(1,2) by simp
  with v(2) show ?case by auto
qed

lemma passing_shift:
  assumes "passing a i s" and "65 \<le> T" "T < a" "a \<le> 128" and "4 * (k + n) + 4 \<le> 4096"
  shows "\<exists>v. shift_strings (page_addr T) k n s = Inr (s\<lparr>vm := v\<rparr>) \<and> passing a i (s\<lparr>vm := v\<rparr>)"
  using assms
proof (induction n arbitrary: k s)
  case 0
  then show ?case by (intro exI [of _ "vm s"]) simp
next
  case (Suc n)
  have k: "4 * k + 4 \<le> 4096" using Suc.prems(5) by simp
  obtain w where w: "user_word (page_addr T + of_nat k * 4) s = Inr w" using passing_word(2) [OF Suc.prems(1-4) k] by blast
  obtain v1 where v1: "write_word (page_addr T + of_nat k * 4) (w + USER_SPACE_OFFSET) s = Inr (s\<lparr>vm := v1\<rparr>)" "passing a i (s\<lparr>vm := v1\<rparr>)"
    using passing_word(1) [OF Suc.prems(1-4) k] by blast
  from Suc.IH [OF v1(2) Suc.prems(2-4), of "Suc k"] Suc.prems(5)
  obtain v where "shift_strings (page_addr T) (Suc k) n (s\<lparr>vm := v1\<rparr>) = Inr (s\<lparr>vm := v\<rparr>)" "passing a i (s\<lparr>vm := v\<rparr>)" by auto
  then show ?case using w v1(1) by auto
qed

lemma passing_array:
  assumes P: "passing a i s" and a: "65 \<le> a" "Suc (a + length xs) \<le> 128" and xs: "\<forall>x\<in>set xs. short_string x"
  shows "\<exists>v. pass_strings i xs s = Inr (page_addr a, s\<lparr>vm := v\<rparr>) \<and> passing (Suc (a + length xs)) i (s\<lparr>vm := v\<rparr>)"
proof -
  obtain v1 where v1: "run_vm (vmm_alloc 1) s = Inr (page_addr a, s\<lparr>vm := v1\<rparr>)" "passing (Suc a) i (s\<lparr>vm := v1\<rparr>)"
    using passing_alloc [OF P a(1)] a(2) by auto
  obtain v2 where v2: "user_page i (page_addr a + USER_SPACE_OFFSET) (page_addr a) (s\<lparr>vm := v1\<rparr>) = Inr (s\<lparr>vm := v2\<rparr>)" "passing (Suc a) i (s\<lparr>vm := v2\<rparr>)"
    using passing_page [OF v1(2), of a] a by auto
  obtain v3 where "copy_strings i (page_addr a) 0 xs (s\<lparr>vm := v2\<rparr>) = Inr (s\<lparr>vm := v3\<rparr>)" "passing (Suc a + length xs) i (s\<lparr>vm := v3\<rparr>)"
    using passing_strings [OF v2(2) a(1) lessI, of xs 0] a xs by auto
  then show ?thesis using v1(1) v2(1) by (auto simp: pass_strings_def shared_page_def)
qed

section \<open>It is loaded\<close>

lemma tiny_elf_kind:
  "memcmp tiny_elf (path_literal ''MEX'') 4 = Inr (0x7F - 0x4D)" "memcmp tiny_elf (path_literal ''M2X'') 4 = Inr (0x7F - 0x4D)"
  "find_shebang shebangs tiny_elf (length tiny_elf) = Inr None"
  by code_simp+

lemma init_task_fields:
  assumes "init_task trm entry None s = Inr (i, s')"
  shows "pid (tasks s' ! i) = current_pid s" "eip (reg_frames s' (registers (tasks s' ! i))) = entry" "length (tasks s') = length (tasks s)"
  using assms by (auto elim!: init_taskE simp: new_state_def)

lemma tiny_loads:
  fixes s :: "('a, 'z) kernel_scheme"
  assumes L: "lab 32 16 (vm s)" and slot: "find_empty_task_slot s = Inr i" "i < length (tasks s)"
    and xs: "\<forall>x\<in>set xs. short_string x" "length xs \<le> 50"
  shows "\<exists>t. init_executable gunzip trm tiny_elf (KernelArray xs) (KernelArray []) s = Inr (current_pid s, t) \<and> active (tasks t ! i) \<and>
    pid (tasks t ! i) = current_pid s \<and> eip (reg_frames t (registers (tasks t ! i))) = 0x8048000"
proof -
  obtain s1 where s1: "init_task trm 0x8048000 None s = Inr (i, s1)" "lab 64 19 (vm s1)" "lab_user (vm s1)"
      "page_words (vm s1) 0x11000 32 = 0" "task_context (tasks s1 ! i) = 0x10000"
    by (rule lab_init_task [OF L slot])
  have new: "pid (tasks s1 ! i) = current_pid s" "eip (reg_frames s1 (registers (tasks s1 ! i))) = 0x8048000" "length (tasks s1) = length (tasks s)"
    using init_task_fields [OF s1(1)] by simp_all
  define s2 where "s2 = upd_task i (\<lambda>t. t\<lparr>symbols := None\<rparr>) s1"
  have "lab 64 19 ((vm s2)\<lparr>active_contexts := active_of (tasks s2)\<rparr>)" "lab_user ((vm s2)\<lparr>active_contexts := active_of (tasks s2)\<rparr>)"
      "page_words ((vm s2)\<lparr>active_contexts := active_of (tasks s2)\<rparr>) 0x11000 32 = 0"
    using s1(2-4) by (simp_all add: s2_def upd_task_def lab_user_keeps)
  from tiny_segment [OF this] obtain v where
    v: "load_segment 0x10000 tiny_elf 52 ((vm s2)\<lparr>active_contexts := active_of (tasks s2)\<rparr>) = Inr v" "lab 65 20 v" "lab_user v" by blast
  have t2: "tasks s2 ! i = (tasks s1 ! i)\<lparr>symbols := None\<rparr>" "reg_frames s2 = reg_frames s1" "length (tasks s2) = length (tasks s)"
    using slot(2) new(3) by (simp_all add: s2_def upd_task_def)
  have seg: "exec_vm (load_segments 0x10000 tiny_elf 52 (unat (1 :: u32))) s2 = Inr (s2\<lparr>vm := v\<rparr>)"
    using v(1) by (simp add: exec_vm_def)
  have P: "passing 65 i (s2\<lparr>vm := v\<rparr>)" using v(2,3) s1(5) t2(1) by (auto simp: passing_def)
  obtain v3 where v3: "pass_strings i xs (s2\<lparr>vm := v\<rparr>) = Inr (page_addr 65, s2\<lparr>vm := v3\<rparr>)" "passing (Suc (65 + length xs)) i (s2\<lparr>vm := v3\<rparr>)"
    using passing_array [OF P, of xs] xs by auto
  obtain v4 where v4: "pass_strings i [] (s2\<lparr>vm := v3\<rparr>) = Inr (page_addr (Suc (65 + length xs)), s2\<lparr>vm := v4\<rparr>)"
      "passing (Suc (Suc (65 + length xs))) i (s2\<lparr>vm := v4\<rparr>)"
    using passing_array [OF v3(2), of "[]"] xs(2) by auto
  obtain v5 where v5: "shift_strings (page_addr 65) 0 (length xs) (s2\<lparr>vm := v4\<rparr>) = Inr (s2\<lparr>vm := v5\<rparr>)"
    using passing_shift [OF v4(2), of 65 0 "length xs"] xs(2) by auto
  define t where "t = upd_task i (\<lambda>t. t\<lparr>argv := page_addr 65 + USER_SPACE_OFFSET,
    envp := page_addr (66 + length xs) + USER_SPACE_OFFSET, active := True\<rparr>) (s2\<lparr>vm := v5\<rparr>)"
  have "init_elf trm tiny_elf (KernelArray xs) (KernelArray []) s = Inr (current_pid s, t)"
    using s1(1,5) seg v3(1) v4(1) v5(1) t2(1) new(1)
    by (simp add: init_elf_def tiny_elf_header s2_def [symmetric] t_def [symmetric] del: load_segments.simps pass_strings_def)
  moreover have "tasks t ! i = (tasks s2 ! i)\<lparr>argv := page_addr 65 + USER_SPACE_OFFSET,
      envp := page_addr (66 + length xs) + USER_SPACE_OFFSET, active := True\<rparr>" "reg_frames t = reg_frames s2"
    using slot(2) t2(3) by (simp_all add: t_def upd_task_def)
  ultimately show ?thesis
    using t2 new by (intro exI [of _ t]) (simp add: init_executable_def tiny_elf_kind)
qed

end
