(* ===== verification/Loader_Disk.thy ===== *)
theory Loader_Disk
  imports Loader_Scripts Demo_Loader
begin

text \<open>
  Programs and scripts on a disk: what the loader makes of the bytes of the file does not depend on how the file was opened,
  and the disk is afterwards what it was.
\<close>

section \<open>Images are loaded without the file system\<close>

text \<open>The result with other files: what an operation does that leaves the files alone.\<close>

definition with_files :: "'a fs_scheme vfs \<Rightarrow> ('a, 'z) kernel_scheme kres \<Rightarrow> ('a, 'z) kernel_scheme kres" where
  "with_files v r = kbind r (\<lambda>t. Inr (t\<lparr>fsys := v\<rparr>))"

definition result_with_files :: "'a fs_scheme vfs \<Rightarrow> ('r \<times> ('a, 'z) kernel_scheme) kres \<Rightarrow> ('r \<times> ('a, 'z) kernel_scheme) kres" where
  "result_with_files v r = kbind r (\<lambda>(x, t). Inr (x, t\<lparr>fsys := v\<rparr>))"

lemma kbind_if: "kbind (if c then a else b) f = (if c then kbind a f else kbind b f)"
  by simp

lemma files_last:
  fixes s :: "('a, 'z) kernel_scheme"
  shows "s\<lparr>fsys := v, vm := w\<rparr> = s\<lparr>vm := w, fsys := v\<rparr>"
    "s\<lparr>fsys := v, tasks := ts\<rparr> = s\<lparr>tasks := ts, fsys := v\<rparr>"
    "s\<lparr>fsys := v, is_scheduler_running := b\<rparr> = s\<lparr>is_scheduler_running := b, fsys := v\<rparr>"
  by (cases s, simp)+

lemmas files_defs = files_last with_files_def result_with_files_def kbind_assoc case_prod_unfold kbind_if

lemma upd_task_files: "upd_task i g (s\<lparr>fsys := v\<rparr>) = (upd_task i g s)\<lparr>fsys := v\<rparr>"
  by (simp add: upd_task_def files_last)

lemma run_vm_files: "run_vm g (s\<lparr>fsys := v\<rparr>) = result_with_files v (run_vm g s)"
  by (simp add: run_vm_def files_defs)

lemma exec_vm_files: "exec_vm g (s\<lparr>fsys := v\<rparr>) = with_files v (exec_vm g s)"
  by (simp add: exec_vm_def files_defs)

lemma user_write_files: "user_write p bs (s\<lparr>fsys := v\<rparr>) = with_files v (user_write p bs s)"
  by (simp add: user_write_def files_defs)

lemma user_word_files [simp]: "user_word p (s\<lparr>fsys := v\<rparr>) = user_word p s"
  by (simp add: user_word_def user_read_def)

lemma copied_string_files [simp]: "copied_string x (s\<lparr>fsys := v\<rparr>) = copied_string x s"
  by (cases x) simp_all

lemma user_page_files: "user_page i virt phys (s\<lparr>fsys := v\<rparr>) = with_files v (user_page i virt phys s)"
  by (simp add: user_page_def run_vm_files files_defs)

lemma shared_page_files: "shared_page i (s\<lparr>fsys := v\<rparr>) = result_with_files v (shared_page i s)"
  by (simp add: shared_page_def run_vm_files user_page_files files_defs)

lemma copy_strings_files: "copy_strings i tab k xs (s\<lparr>fsys := v\<rparr>) = with_files v (copy_strings i tab k xs s)"
proof (induction xs arbitrary: k s)
  case Nil
  show ?case by (simp add: write_word_def user_write_files)
next
  case (Cons x xs)
  then show ?case by (simp add: write_word_def run_vm_files user_page_files user_write_files files_defs)
qed

lemma shift_strings_files: "shift_strings tab k n (s\<lparr>fsys := v\<rparr>) = with_files v (shift_strings tab k n s)"
proof (induction n arbitrary: k s)
  case 0
  show ?case by (simp add: files_defs)
next
  case (Suc n)
  then show ?case by (simp add: write_word_def user_write_files files_defs)
qed

lemma pass_strings_files: "pass_strings i xs (s\<lparr>fsys := v\<rparr>) = result_with_files v (pass_strings i xs s)"
  by (simp add: pass_strings_def shared_page_files copy_strings_files files_defs)

lemma attach_context_files: "attach_context i None (s\<lparr>fsys := v\<rparr>) = with_files v (attach_context i None s)"
  by (simp add: attach_context_def run_vm_files exec_vm_files upd_task_files files_defs)

lemma fill_task_files: "fill_task i trm entry k u (s\<lparr>fsys := v\<rparr>) = (fill_task i trm entry k u s)\<lparr>fsys := v\<rparr>"
  by (simp add: fill_task_def Let_def upd_task_def files_last)

lemma init_task_files: "init_task trm entry None (s\<lparr>fsys := v\<rparr>) = result_with_files v (init_task trm entry None s)"
  by (simp add: init_task_def find_empty_task_slot_def upd_task_files run_vm_files attach_context_files exec_vm_files fill_task_files files_defs)

lemma init_elf_files: "init_elf trm img argv_in envp_in (s\<lparr>fsys := v\<rparr>) = result_with_files v (init_elf trm img argv_in envp_in s)"
  by (simp add: init_elf_def init_task_files exec_vm_files pass_strings_files shift_strings_files upd_task_files files_defs cong del: if_weak_cong)

lemma init_executable_files:
  "init_executable gunzip trm img argv_in envp_in (s\<lparr>fsys := v\<rparr>) = result_with_files v (init_executable gunzip trm img argv_in envp_in s)"
  by (simp add: init_executable_def init_mex_def init_mex_v2_def init_elf_files files_defs cong del: if_weak_cong)

section \<open>Programs on a disk\<close>

text \<open>The files were closed again: nothing differs but the address of the next object.\<close>

definition settled :: "'a ramfs_scheme vfs \<Rightarrow> 'a ramfs_scheme vfs \<Rightarrow> bool" where
  "settled v v1 \<longleftrightarrow> ramfs_wf (world v1) \<and> opens_only v v1 \<and> files (world v1) = files (world v)"

text \<open>The same tree and the same open files.\<close>

definition same_disk :: "u8 list \<Rightarrow> 'a ramfs_scheme vfs \<Rightarrow> 'a ramfs_scheme vfs \<Rightarrow> bool" where
  "same_disk nm v v1 \<longleftrightarrow> ramdisk nm v1 \<and> disk_view nm v1 = disk_view nm v \<and> (\<forall>g qt. disk_handle nm v g qt \<longrightarrow> disk_handle nm v1 g qt) \<and>
     files (world v1) = files (world v)"

lemma settled_disk: "settled v v1 \<Longrightarrow> ramdisk nm v \<Longrightarrow> same_disk nm v v1"
  using opens_only_keeps [of v v1 nm] by (auto simp: settled_def same_disk_def)

text \<open>What the loader returns when only the files of the result depend on how they were opened.\<close>

definition loads :: "(int \<times> ('a ramfs_ext, 'z) kernel_scheme) kres \<Rightarrow> (int \<times> ('a ramfs_ext, 'z) kernel_scheme) kloop \<Rightarrow>
    'a ramfs_scheme vfs \<Rightarrow> bool" where
  "loads r run v \<longleftrightarrow> (\<exists>v1. settled v v1 \<and> run = Some (result_with_files v1 r))"

lemma closing_loads:
  assumes o: "opened_for nm pt c v0 f v" and l: "loads r run v"
  shows "loads r (closing f run) v0"
proof -
  obtain v1 where v1: "settled v v1" "run = Some (result_with_files v1 r)" using l by (auto simp: loads_def)
  note f = opened_forD [OF o]
  have "same_disk nm v v1" by (rule settled_disk [OF v1(1) f(1)])
  with f(2) have "ramdisk nm v1" "disk_handle nm v1 f pt" by (simp_all add: same_disk_def)
  from disk_close_any [OF this] obtain v2 where v2: "vfs_close f v1 = Inr v2" "ramdisk nm v2"
      "files (world v2) = (files (world v1))(f := None)" "opens_only v1 v2" by blast
  have "opens_only v0 v2" using f(5) v1(1) v2(4) unfolding settled_def by (blast intro: opens_only_trans)
  then have "settled v0 v2" using v1(1) v2(3) f(6) ramdiskD(3) [OF v2(2)] by (simp add: settled_def)
  moreover have "closing f run = Some (result_with_files v2 r)"
    by (cases r) (auto simp: closing_def v1(2) result_with_files_def on_files_def v2(1))
  ultimately show ?thesis by (auto simp: loads_def)
qed

lemma with_file_loads:
  fixes s :: "('a ramfs_ext, 'z) kernel_scheme"
  assumes D: "ramdisk nm (fsys s)" and fits: "path_fits nm pt" and c: "disk_view nm (fsys s) pt = Some (File c)"
    and l: "\<And>f v. opened_for nm pt c (fsys s) f v \<Longrightarrow> loads r (load f (s\<lparr>fsys := v\<rparr>)) v"
  shows "loads r (with_file (full_name nm pt @ 0 # y) load s) (fsys s)"
  using with_file_disk [OF D fits c, of y load] closing_loads [OF _ l] unfolding full_name_def by metis

lemma with_first_file_loads:
  fixes s :: "('a ramfs_ext, 'z) kernel_scheme"
  assumes D: "ramdisk nm (fsys s)" and fits: "path_fits nm pt" "length (full_name nm pt) < 256" and c: "disk_view nm (fsys s) pt = Some (File c)"
    and first: "reached_first nm (line_buffer (pathstr pt)) (fsys s)"
    and l: "\<And>f v. opened_for nm pt c (fsys s) f v \<Longrightarrow> loads r (load f (line_buffer (full_name nm pt)) (s\<lparr>fsys := v\<rparr>)) v"
  shows "loads r (with_first_file (line_buffer (pathstr pt)) load s) (fsys s)"
  using with_first_file_disk [OF D fits c first, of load] closing_loads [OF _ l] by metis

text \<open>The file opened holds a program.\<close>

lemma program_loads:
  fixes s :: "('a ramfs_ext, 'z) kernel_scheme"
  assumes o: "opened_for nm pt c v0 f v" and plain: "find_shebang shebangs c (length c) = Inr None"
  shows "loads (init_executable gunzip (task_term (tasks s ! get_self s)) c argv_in envp_in s)
    (load_executable_file gunzip f path argv_in envp_in (s\<lparr>fsys := v\<rparr>)) v"
proof -
  have "opened_for nm pt c v0 f (fsys (s\<lparr>fsys := v\<rparr>))" using o by simp
  from load_step_disk [OF this, of load_executable_file gunzip path argv_in envp_in]
  have "load_executable_file gunzip f path argv_in envp_in (s\<lparr>fsys := v\<rparr>) =
      Some (result_with_files v (init_executable gunzip (task_term (tasks s ! get_self s)) c argv_in envp_in s))"
    by (simp add: load_executable_file_step plain init_executable_files get_self_def)
  moreover have "settled v v" using ramdiskD(3) [OF opened_forD(1) [OF o]] by (simp add: settled_def)
  ultimately show ?thesis by (auto simp: loads_def)
qed

text \<open>
  C11. A program on a disk is loaded as the bytes of its file are. When the file at the path is no script,
  \<open>load_executable\<close> returns what \<open>init_executable\<close> makes of its bytes, the new task or the error, and leaves the tree
  on the disk and the open files as they were.
\<close>

theorem program_loaded_from_disk:
  fixes s :: "('a ramfs_ext, 'z) kernel_scheme"
  assumes D: "ramdisk nm (fsys s)" and fits: "path_fits nm pt" and c: "disk_view nm (fsys s) pt = Some (File c)"
    and plain: "find_shebang shebangs c (length c) = Inr None" and path: "path_bytes path s = Inr (full_name nm pt @ 0 # y)"
  shows "\<exists>v. same_disk nm (fsys s) v \<and> load_executable gunzip path argv_in envp_in s =
    Some (result_with_files v (init_executable gunzip (task_term (tasks s ! get_self s)) c argv_in envp_in s))"
proof -
  have "loads (init_executable gunzip (task_term (tasks s ! get_self s)) c argv_in envp_in s)
      (load_executable_file gunzip f path argv_in envp_in (s\<lparr>fsys := v\<rparr>)) v" if "opened_for nm pt c (fsys s) f v" for f v
    by (rule program_loads [OF that plain])
  from with_file_loads [where load = "\<lambda>f. load_executable_file gunzip f path argv_in envp_in" and y = y, OF D fits c this]
  obtain v1 where v1: "settled (fsys s) v1" "with_file (full_name nm pt @ 0 # y) (\<lambda>f. load_executable_file gunzip f path argv_in envp_in) s =
      Some (result_with_files v1 (init_executable gunzip (task_term (tasks s ! get_self s)) c argv_in envp_in s))"
    unfolding loads_def by blast
  with path settled_disk [OF v1(1) D] show ?thesis unfolding load_executable_def by auto
qed

text \<open>
  C10. A script runs its executor. The first line of a script names a program after the mark: by its full path, on the
  disk of the script or on another one, or, as the scripts of the repository do, by a path alone, which is that of the first mount
  with a file there. Then \<open>load_executable\<close> of the script returns what \<open>init_executable\<close> makes of the program, with the
  line, the path of the script and the arguments after the first as arguments, and leaves the trees on the disks and the open files as
  they were.
\<close>

theorem script_runs_executor:
  fixes s :: "('a ramfs_ext, 'z) kernel_scheme"
  assumes D: "ramdisk nm (fsys s)" "ramdisk en (fsys s)" and fits: "path_fits nm pt" "path_fits en qt" "executor_fits en qt"
    and mark: "mark \<in> set shebangs" and line: "line_names line en qt (fsys s)"
    and c: "disk_view nm (fsys s) pt = Some (File (script_text mark line rest))"
    and p: "disk_view en (fsys s) qt = Some (File prog)" and plain: "find_shebang shebangs prog (length prog) = Inr None"
    and path: "path_bytes path s = Inr (full_name nm pt @ 0 # y)" and args: "array_items argv_in s = Inr as"
  shows "\<exists>v. same_disk nm (fsys s) v \<and> same_disk en (fsys s) v \<and> load_executable gunzip path argv_in envp_in s =
    Some (result_with_files v (init_executable gunzip (task_term (tasks s ! get_self s)) prog
      (KernelArray (script_args (line_buffer line) path as)) envp_in s))"
proof -
  let ?c = "script_text mark line rest" and ?args = "KernelArray (script_args (line_buffer line) path as)"
  let ?r = "init_executable gunzip (task_term (tasks s ! get_self s)) prog ?args envp_in s"
  note named = line_names_fits [OF line D(2) fits(2,3)]
  have "loads ?r (load_executable_file gunzip f path argv_in envp_in (s\<lparr>fsys := v\<rparr>)) v" if o: "opened_for nm pt ?c (fsys s) f v" for f v
  proof -
    have o': "opened_for nm pt ?c (fsys s) f (fsys (s\<lparr>fsys := v\<rparr>))" using o by simp
    note kept = opens_only_keeps [OF opened_forD(5) [OF o] ramdiskD(3) [OF opened_forD(1) [OF o]] D(2)]
    have v: "ramdisk en v" "disk_view en v qt = Some (File prog)" using kept(1,2) p by simp_all
    have a: "array_items argv_in (s\<lparr>fsys := v\<rparr>) = Inr as" using args by simp
    have run: "loads ?r (load_executable_file gunzip f2 x ?args envp_in ((s\<lparr>fsys := v\<rparr>)\<lparr>fsys := v2\<rparr>)) v2"
      if "opened_for en qt prog (fsys (s\<lparr>fsys := v\<rparr>)) f2 v2" for f2 v2 x
      using program_loads [OF that plain, of gunzip s] by simp
    note step = load_step_disk [OF o', of load_executable_file gunzip path argv_in envp_in]
    from line consider "line = full_name en qt" | "line = pathstr qt" "0x3A \<notin> set line" "reached_first en (line_buffer line) (fsys s)"
      unfolding line_names_def by blast
    then show ?thesis
    proof cases
      case 1
      have "loads ?r (with_file (line_buffer line) (\<lambda>f2. load_executable_file gunzip f2 (KernelString (line_buffer line)) ?args envp_in) (s\<lparr>fsys := v\<rparr>)) v"
        using with_file_loads [OF _ fits(2) _ run] v unfolding 1 line_buffer_def by simp
      moreover have "0x3A \<in> set line" by (simp add: 1)
      ultimately show ?thesis by (subst load_executable_file_step, subst step) (simp add: script_line [OF named mark a])
    next
      case 2
      have "length (full_name en qt) < 256" using fits(3) by (simp only: executor_fits_def simp_thms)
      moreover have "reached_first en (line_buffer (pathstr qt)) v" using kept(3) 2(1,3) by simp
      ultimately have "loads ?r (with_first_file (line_buffer line) (\<lambda>f2 path2. load_executable_file gunzip f2 (KernelString path2) ?args envp_in)
          (s\<lparr>fsys := v\<rparr>)) v"
        using with_first_file_loads [OF _ fits(2) _ _ _ run] v unfolding 2(1) by simp
      then show ?thesis by (subst load_executable_file_step, subst step) (simp add: script_line [OF named mark a] 2(2))
    qed
  qed
  from with_file_loads [where load = "\<lambda>f. load_executable_file gunzip f path argv_in envp_in" and y = y, OF D(1) fits(1) c this]
  obtain v1 where v1: "settled (fsys s) v1" "with_file (full_name nm pt @ 0 # y) (\<lambda>f. load_executable_file gunzip f path argv_in envp_in) s =
      Some (result_with_files v1 ?r)"
    unfolding loads_def by blast
  with path settled_disk [OF v1(1) D(1)] settled_disk [OF v1(1) D(2)] show ?thesis unfolding load_executable_def by auto
qed

section \<open>On the mount of the boot\<close>

lemma no_program:
  "find_shebang shebangs (replicate 80 0) 80 = Inr None"
  "init_executable gunzip trm (replicate 80 0) (KernelArray as) (KernelArray bs) s = Inr (-1, s)"
proof -
  show "find_shebang shebangs (replicate 80 0) 80 = Inr None" by code_simp
  have "memcmp (replicate 80 0) (path_literal ''MEX'') 4 = Inr (-77)" "memcmp (replicate 80 0) (path_literal ''M2X'') 4 = Inr (-77)"
      "word_at 0 (replicate 80 0) = Inr 0" by code_simp+
  then show "init_executable gunzip trm (replicate 80 0) (KernelArray as) (KernelArray bs) s = Inr (-1, s)"
    by (simp add: init_executable_def init_elf_def ELF_MAGIC_def)
qed

theorem program_loaded_from_disk_witness:
  "\<exists>v v1 v2. stage_mount boot_vfs = Inr v \<and>
     save_file (disk_touch tmp_name) (disk_open tmp_name) vfs_write vfs_close [[0x61]] (replicate 80 0) v = Inr v1 \<and>
     load_executable (\<lambda>_ _. None) (KernelString (full_name tmp_name [[0x61]] @ [0])) (KernelArray []) (KernelArray []) (demo_kernel v1) =
       Some (Inr (-1, (demo_kernel v1)\<lparr>fsys := v2\<rparr>))"
proof -
  obtain v where v: "stage_mount boot_vfs = Inr v" "ramdisk tmp_name v" "disk_creatable tmp_name v [[0x61]]" by (rule boot_tmp)
  have "length (replicate 80 (0 :: u8)) < 100" by simp
  with ramfs_mount.save_file_ok [OF v(2) TrueI v(3), of "replicate 80 0"] obtain v1 where
    v1: "save_file (disk_touch tmp_name) (disk_open tmp_name) vfs_write vfs_close [[0x61]] (replicate 80 0) v = Inr v1" "ramdisk tmp_name v1"
      "path_fits tmp_name [[0x61]]" "disk_view tmp_name v1 [[0x61]] = Some (File (replicate 80 0))"
    by (auto simp: same_path_def)
  from program_loaded_from_disk [of tmp_name "demo_kernel v1" "[[0x61]]" "replicate 80 0" "KernelString (full_name tmp_name [[0x61]] @ [0])" "[]"
      "\<lambda>_ _. None" "KernelArray []" "KernelArray []"] v1 v(1)
  show ?thesis by (auto simp: no_program result_with_files_def)
qed

text \<open>Mounts are only added by mounting.\<close>

lemma mounts_kept:
  "disk_touch nm p v = Inr v1 \<Longrightarrow> vfs_mounts v1 = vfs_mounts v" "disk_open nm p v = Inr (f, v1) \<Longrightarrow> vfs_mounts v1 = vfs_mounts v"
  "vfs_write f bs off v = Inr v1 \<Longrightarrow> vfs_mounts v1 = vfs_mounts v" "vfs_close f v = Inr v1 \<Longrightarrow> vfs_mounts v1 = vfs_mounts v"
  by (auto simp: disk_touch_def vfs_touch_def disk_open_def vfs_open_def vfs_write_def vfs_close_def on_world_def
      elim!: kbind_InrE split: if_splits prod.splits)

lemma stage_mounts: "stage_mount v = Inr v1 \<Longrightarrow> \<exists>m. vfs_mounts v1 = vfs_mounts v @ [m]"
  by (auto simp: stage_mount_def get_ramfs_def vfs_mount_def Let_def elim!: kbind_InrE split: prod.splits)

text \<open>Writing a file that is there.\<close>

definition fill_file :: "('p \<Rightarrow> 's \<Rightarrow> (nat \<times> 's) kres) \<Rightarrow> (nat \<Rightarrow> u8 list \<Rightarrow> nat \<Rightarrow> 's \<Rightarrow> 's kres) \<Rightarrow> (nat \<Rightarrow> 's \<Rightarrow> 's kres) \<Rightarrow>
    'p \<Rightarrow> u8 list \<Rightarrow> 's \<Rightarrow> 's kres" where
  "fill_file opn wr cls p data s = kbind (opn p s) (\<lambda>(f, s1). kbind (wr f data 0 s1) (\<lambda>s2. cls f s2))"

lemma fill_file_mounts:
  fixes v :: "'a ramfs_scheme vfs"
  assumes "fill_file (disk_open nm) vfs_write vfs_close p data v = Inr v1"
  shows "vfs_mounts v1 = vfs_mounts v"
proof -
  obtain f a b where run: "disk_open nm p v = Inr (f, a)" "vfs_write f data 0 a = Inr b" "vfs_close f b = Inr v1"
    using assms by (auto simp: fill_file_def elim!: kbind_InrE)
  from mounts_kept(2) [OF run(1)] mounts_kept(3) [OF run(2)] mounts_kept(4) [OF run(3)] show ?thesis by simp
qed

lemma save_file_mounts:
  assumes "save_file (disk_touch nm) (disk_open nm) vfs_write vfs_close p data v = Inr v1"
  shows "vfs_mounts v1 = vfs_mounts v"
proof -
  obtain t where "disk_touch nm p v = Inr t" "fill_file (disk_open nm) vfs_write vfs_close p data t = Inr v1"
    using assms by (auto simp: save_file_def fill_file_def elim!: kbind_InrE)
  from mounts_kept(1) [OF this(1)] fill_file_mounts [OF this(2)] show ?thesis by simp
qed

lemma only_mount:
  assumes "vfs_mounts v = [m]" and "ramdisk nm v"
  shows "reached_first nm path v"
proof -
  have "mount_called v nm = m" using assms by (auto simp: ramdisk_def mount_called_def split: if_splits)
  with assms(1) show ?thesis unfolding reached_first_def by (intro exI [of _ "[]"]) simp
qed

context writable_store
begin

lemma fill_file_ok:
  assumes "inv s" and "roomy s" and "usable p" and "view s p = Some (File [])" and "length data < 0x80000000" and "length data \<le> cap"
  shows "\<exists>s'. fill_file opn wr cls p data s = Inr s' \<and> inv s' \<and> roomy s' \<and> view s' = (\<lambda>q. if same q p then Some (File data) else view s q)"
proof -
  from open_law [OF assms(1-4)] obtain f s1 where s1: "opn p s = Inr (f, s1)" "inv s1" "view s1 = view s" "handle s1 f p" by blast
  have whole: "overwrite 0 data [] = data" by (simp add: overwrite_def)
  obtain s2 where s2: "wr f data 0 s1 = Inr s2" "inv s2" "handle s2 f p" "view s2 = (\<lambda>q. if same q p then Some (File data) else view s q)"
    using write_law [OF s1(2,4), of "[]" 0 data, unfolded whole s1(3)] assms(4-6) by auto
  from close_law [OF s2(2,3)] s1(1) s2(1) show ?thesis unfolding s2(4) fill_file_def by auto
qed

end

text \<open>The disk of the boot with a script and a program in its root folder.\<close>

lemma disk_with_script:
  assumes "length scr < 100" and "length prog < 100"
  obtains v :: "ramfs vfs" and m where "ramdisk tmp_name v" and "vfs_mounts v = [m]" and "disk_view tmp_name v [[0x61]] = Some (File scr)"
    and "disk_view tmp_name v [[0x62]] = Some (File prog)" and "path_fits tmp_name [[0x61]]" and "path_fits tmp_name [[0x62]]"
proof -
  have other: "lower [0x62 :: u8] \<noteq> lower [0x61]" by code_simp
  note other = other other [symmetric]
  obtain v0 where v0: "stage_mount boot_vfs = Inr v0" "ramdisk tmp_name v0" "disk_creatable tmp_name v0 [[0x61]]"
      "disk_view tmp_name v0 = (\<lambda>q. if q = [] then Some Dir else None)" "free_slots (world v0) (the_disk tmp_name v0) [] = 1000"
    by (rule boot_tmp)
  obtain m where m: "vfs_mounts v0 = [m]" using stage_mounts [OF v0(1)] by (auto simp: boot_vfs_def)
  have fit: "path_fits tmp_name [[0x61]]" "path_fits tmp_name [[0x62]]"
    using cstring_tmp(3) by (simp_all add: path_fits_def valid_name_def tmp_name_def pathstr_def)
  from disk_touch_ok [OF v0(2,3)] obtain v1 :: "ramfs vfs" where v1: "disk_touch tmp_name [[0x61]] v0 = Inr v1" "ramdisk tmp_name v1"
      "disk_view tmp_name v1 = (\<lambda>q. if same_path q [[0x61]] then Some (File []) else disk_view tmp_name v0 q)"
      "free_slots (world v0) (the_disk tmp_name v0) (butlast [[0x61]]) = Suc (free_slots (world v1) (the_disk tmp_name v1) (butlast [[0x61]]))"
    by blast
  have "disk_creatable tmp_name v1 [[0x62]]"
    using v0(4,5) v1(3,4) fit(2) by (simp add: disk_creatable_def has_room_free same_path_def other)
  from ramfs_mount.save_file_ok [OF v1(2) TrueI this, of prog] assms(2) obtain v2 :: "ramfs vfs" where
    v2: "save_file (disk_touch tmp_name) (disk_open tmp_name) vfs_write vfs_close [[0x62]] prog v1 = Inr v2" "ramdisk tmp_name v2"
      "disk_view tmp_name v2 = (\<lambda>q. if same_path q [[0x62]] then Some (File prog) else disk_view tmp_name v1 q)" by auto
  have "disk_view tmp_name v2 [[0x61]] = Some (File [])" using v1(3) v2(3) by (simp add: same_path_def other)
  from ramfs_mount.fill_file_ok [OF v2(2) TrueI fit(1) this, of scr] assms(1) obtain v :: "ramfs vfs" where
    v: "fill_file (disk_open tmp_name) vfs_write vfs_close [[0x61]] scr v2 = Inr v" "ramdisk tmp_name v"
      "disk_view tmp_name v = (\<lambda>q. if same_path q [[0x61]] then Some (File scr) else disk_view tmp_name v2 q)" by auto
  have "vfs_mounts v = [m]" using m mounts_kept(1) [OF v1(1)] save_file_mounts [OF v2(1)] fill_file_mounts [OF v(1)] by simp
  moreover have "disk_view tmp_name v [[0x61]] = Some (File scr)" "disk_view tmp_name v [[0x62]] = Some (File prog)"
    using v(3) v2(3) by (simp_all add: same_path_def other)
  ultimately show thesis using that v(2) fit by blast
qed

lemma short_stringI: "(case copied_bytes bs of Inr c \<Rightarrow> length c \<le> 4096 | Inl _ \<Rightarrow> False) \<Longrightarrow> short_string (KernelString bs)"
  by (auto simp: short_string_def split: sum.splits)

lemma short_strings:
  "short_string (KernelString (line_buffer (pathstr [[0x62]])))" "short_string (KernelString (full_name tmp_name [[0x61]] @ [0]))"
  "short_string (KernelString [0x78, 0])"
  by (rule short_stringI, code_simp)+

text \<open>The kernel on the machine of \<open>Demo_Machine\<close>, with a process running in its first slot.\<close>

definition running_kernel :: "ramfs vfs \<Rightarrow> (unit ramfs_ext) kernel" where
  "running_kernel v = (demo_kernel v)\<lparr>vm := lab_machine, current_pid := 1,
     tasks := zero_task\<lparr>taken := True, active := True\<rparr> # replicate 63 zero_task\<rparr>"

text \<open>
  The script \<open>tmp:/a\<close>, which is \<open>#!/b\<close>, beside the program \<open>tmp:/b\<close>. Started as \<open>a x\<close>, it creates the process 1 with the
  program, in the second slot.
\<close>

theorem script_runs_executor_witness:
  "\<exists>(v :: ramfs vfs) t. disk_view tmp_name v [[0x61]] = Some (File (script_text [0x23, 0x21] (pathstr [[0x62]]) [])) \<and>
     disk_view tmp_name v [[0x62]] = Some (File tiny_elf) \<and>
     load_executable (\<lambda>_ _. None) (KernelString (full_name tmp_name [[0x61]] @ [0]))
       (KernelArray [KernelString [0x61, 0], KernelString [0x78, 0]]) (KernelArray []) (running_kernel v) = Some (Inr (1, t)) \<and>
     active (tasks t ! 1) \<and> pid (tasks t ! 1) = 1 \<and> eip (reg_frames t (registers (tasks t ! 1))) = 0x8048000"
proof -
  define line where "line = pathstr [[0x62 :: u8]]"
  have len: "length (script_text [0x23, 0x21] line []) < 100" "length tiny_elf < 100"
    by (simp_all add: line_def script_text_def pathstr_def tiny_elf_def)
  obtain v :: "ramfs vfs" and m where v: "ramdisk tmp_name v" "vfs_mounts v = [m]" "disk_view tmp_name v [[0x61]] = Some (File (script_text [0x23, 0x21] line []))"
      "disk_view tmp_name v [[0x62]] = Some (File tiny_elf)" "path_fits tmp_name [[0x61]]" "path_fits tmp_name [[0x62]]"
    by (rule disk_with_script [OF len])
  let ?as = "[KernelString [0x61, 0], KernelString [0x78, 0]]" and ?path = "KernelString (full_name tmp_name [[0x61]] @ [0])"
  let ?args = "script_args (line_buffer line) ?path ?as" and ?s = "running_kernel v"
  have k: "fsys ?s = v" "vm ?s = lab_machine" "find_empty_task_slot ?s = Inr 1" "length (tasks ?s) = 64" "current_pid ?s = 1"
    by (simp_all add: running_kernel_def find_empty_task_slot_def zero_task_def numeral_eq_Suc)
  have short: "\<forall>x\<in>set ?args. short_string x"
    using short_strings by (simp add: script_args_def line_def)
  have names: "line_names line tmp_name [[0x62]] (fsys ?s)"
    using only_mount [OF v(2,1)] by (simp add: line_names_def line_def k pathstr_def)
  have mark: "[0x23, 0x21] \<in> set shebangs" by (simp add: shebang_bytes)
  have fits: "executor_fits tmp_name [[0x62]]" by (simp add: executor_fits_def full_name_def tmp_name_def pathstr_def)
  obtain t where t: "init_executable (\<lambda>_ _. None) (task_term (tasks ?s ! get_self ?s)) tiny_elf (KernelArray ?args) (KernelArray []) ?s = Inr (1, t)"
      "active (tasks t ! 1)" "pid (tasks t ! 1) = 1" "eip (reg_frames t (registers (tasks t ! 1))) = 0x8048000"
    using tiny_loads [of ?s 1 ?args "\<lambda>_ _. None" "task_term (tasks ?s ! get_self ?s)"] k short lab_start by (auto simp: script_args_def)
  have "\<exists>v1. load_executable (\<lambda>_ _. None) ?path (KernelArray ?as) (KernelArray []) ?s = Some (result_with_files v1 (Inr (1, t)))"
    using script_runs_executor [of tmp_name ?s tmp_name "[[0x61]]" "[[0x62]]" "[0x23, 0x21]" line "[]" tiny_elf ?path "[]" "KernelArray ?as" ?as
        "\<lambda>_ _. None" "KernelArray []"] v names fits t(1) tiny_elf_kind(3) mark
    by (auto simp: k)
  then obtain v1 where "load_executable (\<lambda>_ _. None) ?path (KernelArray ?as) (KernelArray []) ?s = Some (Inr (1, t\<lparr>fsys := v1\<rparr>))"
    by (auto simp: result_with_files_def)
  with v(3,4) t(2-4) show ?thesis unfolding line_def by (intro exI [of _ v] exI [of _ "t\<lparr>fsys := v1\<rparr>"]) simp
qed

end
