(* ===== verification/Initrd.thy ===== *)
theory Initrd
  imports Ramfs_Contract Bytes
begin

text \<open>
  The initial disk, \<open>mckrnl/core/fs/initrd.c\<close> and \<open>include/fs/initrd.h\<close>: a read-only driver on a
  saf archive that the boot loader left in memory.

  A node is its address. The packed structures are read from \<open>kernel_memory\<close> field by field at their offsets:
  \<open>magic\<close> at 0, \<open>len\<close> at 8, \<open>name\<close> at 16, \<open>flags\<close> at 272, then \<open>size\<close> and \<open>addr\<close> of a file or
  \<open>num_children\<close> and the offsets of the \<open>children\<close> of a folder at 280 and 288. Offsets of the archive have
  64 bits and are cut to 32 where the code casts them. A name that is not ended within its 256 bytes is
  \<open>OutOfBounds\<close>. The loops over children count with an \<open>int\<close>, which a folder with \<open>2\<^sup>3\<^sup>1\<close>
  children would overflow; they count without a bound here.
\<close>

section \<open>The driver\<close>

type_synonym bytes_of = "nat \<Rightarrow> u8"

definition u64_at :: "nat \<Rightarrow> bytes_of \<Rightarrow> u64" where
  "u64_at p m = le_val (bytes_at p 8 m)"

definition FLAG_ISFOLDER :: u64 where
  "FLAG_ISFOLDER = 1"

definition saf_name :: "nat \<Rightarrow> bytes_of \<Rightarrow> u8 list" where
  "saf_name p m = bytes_at (p + 16) 256 m"

definition saf_flags :: "nat \<Rightarrow> bytes_of \<Rightarrow> u64" where
  "saf_flags p m = u64_at (p + 272) m"

definition saf_size :: "nat \<Rightarrow> bytes_of \<Rightarrow> u64" where
  "saf_size p m = u64_at (p + 280) m"

definition saf_addr :: "nat \<Rightarrow> bytes_of \<Rightarrow> u64" where
  "saf_addr p m = u64_at (p + 288) m"

definition saf_num_children :: "nat \<Rightarrow> bytes_of \<Rightarrow> u64" where
  "saf_num_children p m = u64_at (p + 280) m"

definition saf_child :: "nat \<Rightarrow> nat \<Rightarrow> bytes_of \<Rightarrow> u64" where
  "saf_child p i m = u64_at (p + 288 + 8 * i) m"

text \<open>\<open>(uint32_t) base + (uint32_t) offset\<close>\<close>

definition saf_at :: "nat \<Rightarrow> u64 \<Rightarrow> nat" where
  "saf_at base off = wrap32 (wrap32 base + wrap32 (unat off))"

definition saf_children :: "nat \<Rightarrow> nat \<Rightarrow> bytes_of \<Rightarrow> nat list" where
  "saf_children base p m = map (\<lambda>i. saf_at base (saf_child p i m)) [0..<unat (saf_num_children p m)]"

text \<open>The loop over the children: the first whose name is the one in the buffer.\<close>

fun saf_scan :: "u8 list \<Rightarrow> nat list \<Rightarrow> bytes_of \<Rightarrow> nat option kres" where
  "saf_scan buf [] m = Inr None"
| "saf_scan buf (p # ps) m =
     kbind (strcasecmp buf (saf_name p m)) (\<lambda>r. if r = 0 then Inr (Some p) else saf_scan buf ps m)"

function initrd_find :: "u8 list \<Rightarrow> nat \<Rightarrow> nat \<Rightarrow> bytes_of \<Rightarrow> nat kres" where
  "initrd_find path base current m =
     (case dropWhile (\<lambda>c. c = 0x2F) path of
        [] \<Rightarrow> Inl OutOfBounds
      | c # rest \<Rightarrow>
          if c = 0 then Inr current
          else
            kbind (copy_until 0x2F (c # rest) (replicate 128 0)) (\<lambda>(buf, nx).
            kbind (kassert (saf_flags current m = FLAG_ISFOLDER) (AssertFailed ''current->flags == FLAG_ISFOLDER'')) (\<lambda>_.
            kbind (saf_scan buf (saf_children base current m) m) (\<lambda>found.
            case found of None \<Rightarrow> Inr 0 | Some ch \<Rightarrow> initrd_find nx base ch m))))"
  by pat_completeness auto

termination
proof (relation "measure (\<lambda>(path, _). length path)")
  fix path :: "u8 list" and base current ch :: nat and m :: bytes_of and c rest x buf nx
  assume d: "dropWhile (\<lambda>c. c = 0x2F) path = c # rest" and c: "c \<noteq> 0"
    and "copy_until 0x2F (c # rest) (replicate 128 0) = Inr x" "(buf, nx) = x"
  then have "length nx < length (c # rest)" using copy_until_progress by blast
  also have "\<dots> \<le> length path" unfolding d [symmetric] by (rule length_dropWhile_le)
  finally show "((nx, base, ch, m), path, base, current, m) \<in> measure (\<lambda>(path, _). length path)" by simp
qed simp

declare initrd_find.simps [simp del]

definition initrd_name :: "nat \<Rightarrow> 'a fs_scheme \<Rightarrow> u8 list" where
  "initrd_name m s = path_literal ''initrd''"

definition initrd_open :: "nat \<Rightarrow> u8 list \<Rightarrow> int \<Rightarrow> 'a fs_scheme \<Rightarrow> (nat \<times> 'a fs_scheme) kres" where
  "initrd_open m path flags s =
     (let base = mount_data s m; mem = kernel_memory s
      in kbind (initrd_find path base base mem) (\<lambda>node.
         if node = 0 then Inr (0, s)
         else if saf_flags node mem = FLAG_ISFOLDER then Inr (0, s)
         else
           let f = next_obj s;
               fl = \<lparr>f_mount = m, f_mode = 0, f_data = saf_at base (saf_addr node mem),
                     f_size = wrap32 (unat (saf_size node mem))\<rparr>
           in Inr (f, s\<lparr>files := (files s)(f \<mapsto> fl), next_obj := f + 1\<rparr>)))"

definition initrd_close :: "nat \<Rightarrow> nat \<Rightarrow> 'a fs_scheme \<Rightarrow> 'a fs_scheme kres" where
  "initrd_close m f s = kbind (deref (files s) f) (\<lambda>_. Inr (s\<lparr>files := (files s)(f := None)\<rparr>))"

definition initrd_read :: "nat \<Rightarrow> nat \<Rightarrow> nat \<Rightarrow> nat \<Rightarrow> 'a fs_scheme \<Rightarrow> (u8 list \<times> 'a fs_scheme) kres" where
  "initrd_read m f sz offset s =
     kbind (deref (files s) f) (\<lambda>fl.
     kbind (kassert (f_size fl \<ge> wrap32 (offset + sz)) (AssertFailed ''f->size >= offset + size'')) (\<lambda>_.
     Inr (bytes_at (wrap32 (f_data fl + offset)) sz (kernel_memory s), s)))"

text \<open>
  \<open>idx\<close> is compared with the number of children as an unsigned number of 64 bits, so a negative one is too large.
  The copy of the path is not used, but making it can fail.
\<close>

definition initrd_dir_at :: "nat \<Rightarrow> int \<Rightarrow> u8 list \<Rightarrow> 'a fs_scheme \<Rightarrow> (dir_t \<times> 'a fs_scheme) kres" where
  "initrd_dir_at m idx path s =
     (let base = mount_data s m; mem = kernel_memory s
      in kbind (strlen path) (\<lambda>n.
         kbind (strcpy (replicate (n + 1) 0) path) (\<lambda>path_cpy.
         kbind (initrd_find path base base mem) (\<lambda>folder.
         if folder = 0 then Inr (no_dir, s)
         else if saf_flags folder mem \<noteq> FLAG_ISFOLDER then Inr (no_dir, s)
         else if saf_num_children folder mem \<le> word_of_int idx then Inr (no_dir, s)
         else
           let ch = saf_at base (saf_child folder (nat idx) mem)
           in kbind (strcpy (replicate 256 0) (saf_name ch mem)) (\<lambda>nm.
              Inr (\<lparr>d_name = nm, d_idx = idx, is_none = False,
                    d_type = (if saf_flags ch mem = FLAG_ISFOLDER then ENTRY_DIR else ENTRY_FILE)\<rparr>, s))))))"

definition initrd_ops :: "'a fs_scheme vfs_mount_t" where
  "initrd_ops =
     \<lparr>m_open = Some initrd_open, m_close = Some initrd_close, m_read = Some initrd_read, m_write = None,
      m_delete = None, m_mkdir = None, m_touch = None, m_dir_at = Some initrd_dir_at, m_delete_dir = None,
      m_truncate = None, m_name = initrd_name\<rparr>"

definition initrd_mount :: "nat \<Rightarrow> 'a fs_scheme vfs \<Rightarrow> nat \<times> 'a fs_scheme vfs" where
  "initrd_mount saf_image s =
     (let w = world s; m = next_obj w
      in (m, s\<lparr>mount_ops := (mount_ops s)(m \<mapsto> initrd_ops),
               world := w\<lparr>next_obj := m + 1, mount_data := (mount_data w)(m := saf_image)\<rparr>\<rparr>))"

end
