(* ===== verification/Initrd_Tree.thy ===== *)
theory Initrd_Tree
  imports Initrd
begin

text \<open>
  The tree of files that an archive in memory holds, and the refinement of the lookup of the initial
  disk to the lookup in the tree.
\<close>

section \<open>Trees in memory\<close>

datatype saf_tree = SafFile (t_name: "u8 list") "u8 list" | SafDir (t_name: "u8 list") "saf_tree list"

text \<open>The nodes at the addresses are those of the trees.\<close>

fun nodes_at :: "bytes_of \<Rightarrow> nat \<Rightarrow> nat list \<Rightarrow> saf_tree list \<Rightarrow> bool" where
  "nodes_at m base [] [] = True"
| "nodes_at m base (p # ps) (t # ts) \<longleftrightarrow>
     p \<noteq> 0 \<and> cstring (t_name t) \<and> (\<exists>x. saf_name p m = t_name t @ 0 # x) \<and>
     (case t of
        SafFile nm c \<Rightarrow> saf_flags p m = 0 \<and> unat (saf_size p m) = length c \<and>
          saf_at base (saf_addr p m) + length c < 0x100000000 \<and>
          bytes_at (saf_at base (saf_addr p m)) (length c) m = c
      | SafDir nm cs \<Rightarrow> saf_flags p m = FLAG_ISFOLDER \<and> nodes_at m base (saf_children base p m) cs) \<and>
     nodes_at m base ps ts"
| "nodes_at m base ps ts = False"

lemma nodes_at_length: "nodes_at m base ps ts \<Longrightarrow> length ps = length ts"
  by (induction m base ps ts rule: nodes_at.induct) auto

lemma nodes_at_nth: "nodes_at m base ps ts \<Longrightarrow> i < length ts \<Longrightarrow> nodes_at m base [ps ! i] [ts ! i]"
proof (induction ps arbitrary: ts i)
  case (Cons p ps)
  then obtain u us where "ts = u # us" by (cases ts) auto
  with Cons show ?case by (cases i) auto
next
  case Nil
  then show ?case by (cases ts) simp_all
qed

lemma nodes_at_dirD:
  assumes "nodes_at m base [p] [SafDir nm cs]"
  shows "saf_flags p m = FLAG_ISFOLDER" "nodes_at m base (saf_children base p m) cs" "p \<noteq> 0"
  using assms by simp_all

lemma nodes_at_fileD:
  assumes "nodes_at m base [p] [SafFile nm c]"
  shows "saf_flags p m = 0" "unat (saf_size p m) = length c" "saf_at base (saf_addr p m) + length c < 0x100000000"
    "bytes_at (saf_at base (saf_addr p m)) (length c) m = c" "p \<noteq> 0"
  using assms by simp_all

section \<open>Lookup in the tree\<close>

definition tree_child :: "saf_tree list \<Rightarrow> u8 list \<Rightarrow> saf_tree option" where
  "tree_child ts c = find (\<lambda>t. lower (t_name t) = lower c) ts"

fun tree_at :: "saf_tree \<Rightarrow> u8 list list \<Rightarrow> saf_tree option" where
  "tree_at t [] = Some t"
| "tree_at (SafFile nm d) (c # cs) = None"
| "tree_at (SafDir nm ts) (c # cs) = (case tree_child ts c of None \<Rightarrow> None | Some u \<Rightarrow> tree_at u cs)"

text \<open>The path goes on behind a file.\<close>

fun below_file :: "saf_tree \<Rightarrow> u8 list list \<Rightarrow> bool" where
  "below_file t [] = False"
| "below_file (SafFile nm d) (c # cs) = True"
| "below_file (SafDir nm ts) (c # cs) = (case tree_child ts c of None \<Rightarrow> False | Some u \<Rightarrow> below_file u cs)"

section \<open>The driver looks up in the tree\<close>

lemma saf_scan_eq:
  assumes "nodes_at m base ps ts" and "cstring c"
  shows "\<exists>r. saf_scan (c @ 0 # y) ps m = Inr r \<and>
    (case tree_child ts c of None \<Rightarrow> r = None | Some u \<Rightarrow> (\<exists>q. r = Some q \<and> nodes_at m base [q] [u]))"
  using assms(1)
proof (induction m base ps ts rule: nodes_at.induct)
  case (2 m base p ps t ts)
  then obtain x where x: "saf_name p m = t_name t @ 0 # x" "cstring (t_name t)" by auto
  obtain r where r: "strcasecmp (c @ 0 # y) (saf_name p m) = Inr r" "r = 0 \<longleftrightarrow> lower c = lower (t_name t)"
    unfolding x(1) lower_def using strcasecmp_strings [OF assms(2) x(2)] by blast
  show ?case
  proof (cases "r = 0")
    case True
    with r 2(3) show ?thesis by (simp add: tree_child_def)
  next
    case False
    have "nodes_at m base ps ts" using 2(3) by simp
    from 2(2) [OF this] r False show ?thesis unfolding tree_child_def by simp
  qed
qed (simp_all add: tree_child_def)

lemma initrd_find_slashes:
  assumes "dropWhile (\<lambda>a. a = 0x2F) p = dropWhile (\<lambda>a. a = 0x2F) q"
  shows "initrd_find p base cur m = initrd_find q base cur m"
  unfolding initrd_find.simps [of p] initrd_find.simps [of q] assms ..

lemma initrd_find_step:
  assumes "valid_name c"
  obtains y where "initrd_find (pathstr (c # cs) @ 0 # x) base p m =
    kbind (kassert (saf_flags p m = FLAG_ISFOLDER) (AssertFailed ''current->flags == FLAG_ISFOLDER'')) (\<lambda>_.
    kbind (saf_scan (c @ 0 # y) (saf_children base p m) m) (\<lambda>found.
    case found of None \<Rightarrow> Inr 0 | Some ch \<Rightarrow> initrd_find (pathstr cs @ 0 # x) base ch m))"
proof -
  obtain y nx where cp: "copy_until 0x2F (c @ pathstr cs @ 0 # x) (replicate 128 0) = Inr (c @ 0 # y, nx)"
    "dropWhile (\<lambda>a. a = 0x2F) nx = dropWhile (\<lambda>a. a = 0x2F) (pathstr cs @ 0 # x)"
    using copy_path [OF assms] by blast
  obtain a as where c: "c = a # as" "a \<noteq> 0" using name_nonzero [OF assms] by blast
  have "initrd_find (pathstr (c # cs) @ 0 # x) base p m =
    kbind (kassert (saf_flags p m = FLAG_ISFOLDER) (AssertFailed ''current->flags == FLAG_ISFOLDER'')) (\<lambda>_.
    kbind (saf_scan (c @ 0 # y) (saf_children base p m) m) (\<lambda>found.
    case found of None \<Rightarrow> Inr 0 | Some ch \<Rightarrow> initrd_find (pathstr cs @ 0 # x) base ch m))"
    unfolding initrd_find_slashes [OF cp(2), symmetric] using cp(1) c dropWhile_name [OF assms, of "pathstr cs @ 0 # x"]
    by (subst initrd_find.simps) simp
  with that show thesis by blast
qed

lemma initrd_find_file:
  assumes "valid_name c" and "nodes_at m base [p] [SafFile nm d]"
  shows "initrd_find (pathstr (c # cs) @ 0 # x) base p m = Inl (AssertFailed ''current->flags == FLAG_ISFOLDER'')"
  by (rule initrd_find_step [OF assms(1), of cs x base p m])
    (use nodes_at_fileD(1) [OF assms(2)] in \<open>simp add: FLAG_ISFOLDER_def\<close>)

lemma initrd_find_dir:
  assumes "valid_name c" and "nodes_at m base [p] [SafDir nm ts]"
  shows "case tree_child ts c of None \<Rightarrow> initrd_find (pathstr (c # cs) @ 0 # x) base p m = Inr 0
    | Some u \<Rightarrow> \<exists>q. nodes_at m base [q] [u] \<and>
        initrd_find (pathstr (c # cs) @ 0 # x) base p m = initrd_find (pathstr cs @ 0 # x) base q m"
proof -
  obtain y where step: "initrd_find (pathstr (c # cs) @ 0 # x) base p m =
    kbind (kassert (saf_flags p m = FLAG_ISFOLDER) (AssertFailed ''current->flags == FLAG_ISFOLDER'')) (\<lambda>_.
    kbind (saf_scan (c @ 0 # y) (saf_children base p m) m) (\<lambda>found.
    case found of None \<Rightarrow> Inr 0 | Some ch \<Rightarrow> initrd_find (pathstr cs @ 0 # x) base ch m))"
    using initrd_find_step [OF assms(1)] by blast
  note d = nodes_at_dirD [OF assms(2)]
  have "cstring c" using assms(1) by (simp add: valid_name_def)
  then obtain r where r: "saf_scan (c @ 0 # y) (saf_children base p m) m = Inr r"
    "case tree_child ts c of None \<Rightarrow> r = None | Some u \<Rightarrow> (\<exists>q. r = Some q \<and> nodes_at m base [q] [u])"
    using saf_scan_eq [OF d(2)] by blast
  show ?thesis using r unfolding step by (auto simp: d(1) simp del: nodes_at.simps split: option.splits)
qed

lemma initrd_find_tree:
  assumes "list_all valid_name cs" and "nodes_at m base [p] [t]"
  shows "if below_file t cs
    then initrd_find (pathstr cs @ 0 # x) base p m = Inl (AssertFailed ''current->flags == FLAG_ISFOLDER'')
    else \<exists>q. initrd_find (pathstr cs @ 0 # x) base p m = Inr q \<and>
      (case tree_at t cs of None \<Rightarrow> q = 0 | Some u \<Rightarrow> nodes_at m base [q] [u])"
  using assms
proof (induction t cs arbitrary: p rule: tree_at.induct)
  case (1 t)
  then show ?case by (simp add: initrd_find.simps)
next
  case (2 nm d c cs)
  then show ?case using initrd_find_file [of c] by (simp del: pathstr_simps)
next
  case (3 nm ts c cs)
  then have c: "valid_name c" "list_all valid_name cs" by simp_all
  note step = initrd_find_dir [OF c(1) 3(3), of cs x]
  show ?case
  proof (cases "tree_child ts c")
    case None
    with step show ?thesis by (simp del: pathstr_simps)
  next
    case (Some u)
    with step obtain q where "nodes_at m base [q] [u]"
      "initrd_find (pathstr (c # cs) @ 0 # x) base p m = initrd_find (pathstr cs @ 0 # x) base q m" by auto
    with 3(1) [OF Some c(2)] show ?thesis using Some by (simp del: pathstr_simps nodes_at.simps)
  qed
qed

end
