(* ===== verification/Saf_Make.thy ===== *)
theory Saf_Make
  imports Initrd_Tree
begin

text \<open>
  The program that packs a folder into a saf archive, \<open>pkgs/saf/make/main.c\<close>.

  What \<open>dir_at\<close> and \<open>fopen\<close> deliver below the input folder is a \<open>saf_tree\<close>; the paths with which the
  program asks for it are taken to resolve and the files to open. A name is
  what \<open>dir_t\<close> holds, up to its zero byte. The buffer of the archive is \<open>ad_ptr\<close>, by offset; a write behind its
  \<open>alloc_size\<close> bytes is \<open>OutOfBounds\<close>. \<open>size_t\<close> has 32 bits, offsets 64, which no archive in memory exceeds.
\<close>

section \<open>Packing\<close>

record arch_data =
  ad_ptr :: bytes_of
  curr_offset :: nat
  alloc_size :: nat

definition MAGIC_NUMBER :: u64 where
  "MAGIC_NUMBER = 0x766863726c706d73"

definition inc_offset :: "nat \<Rightarrow> arch_data \<Rightarrow> arch_data kres" where
  "inc_offset d a =
     (let a1 = a\<lparr>curr_offset := curr_offset a + d\<rparr>
      in if curr_offset a1 > alloc_size a1 then Inl (Abort ''archive size exceeds %d bytes'') else Inr a1)"

definition ad_write :: "nat \<Rightarrow> u8 list \<Rightarrow> arch_data \<Rightarrow> arch_data kres" where
  "ad_write off bs a =
     kbind (kassert (off + length bs \<le> alloc_size a) OutOfBounds) (\<lambda>_. Inr (a\<lparr>ad_ptr := put_bytes off bs (ad_ptr a)\<rparr>))"

definition ad_write64 :: "nat \<Rightarrow> u64 \<Rightarrow> arch_data \<Rightarrow> arch_data kres" where
  "ad_write64 off v a = ad_write off (le_bytes 8 v) a"

text \<open>\<open>childcnt\<close> asks for entries until there is none.\<close>

definition childcnt :: "saf_tree list \<Rightarrow> nat" where
  "childcnt ts = length ts"

definition nodesize :: "saf_tree \<Rightarrow> nat" where
  "nodesize t = (case t of SafDir nm cs \<Rightarrow> wrap32 (288 + childcnt cs * 8) | SafFile nm c \<Rightarrow> 296)"

text \<open>The loop that copies the offsets of the children into a folder, from the \<open>i\<close>-th on.\<close>

fun write_children :: "nat \<Rightarrow> nat \<Rightarrow> nat list \<Rightarrow> arch_data \<Rightarrow> arch_data kres" where
  "write_children node i [] a = Inr a"
| "write_children node i (off # offs) a =
     kbind (ad_write64 (node + 288 + 8 * i) (of_nat off) a) (write_children node (Suc i) offs)"

text \<open>A cleared header with magic number and name; the offset moves behind the node before its length is stored.\<close>

definition make_header :: "saf_tree \<Rightarrow> arch_data \<Rightarrow> arch_data kres" where
  "make_header t a =
     (let hdr = curr_offset a
      in kbind (ad_write hdr (replicate 280 0) a) (\<lambda>a1.
         kbind (ad_write64 hdr MAGIC_NUMBER a1) (\<lambda>a2.
         kbind (ad_write (hdr + 16) (t_name t @ [0]) a2) (\<lambda>a3.
         kbind (inc_offset (nodesize t) a3) (\<lambda>a4.
         ad_write64 (hdr + 8) (of_nat (nodesize t)) a4)))))"

definition make_file :: "nat \<Rightarrow> u8 list \<Rightarrow> arch_data \<Rightarrow> arch_data kres" where
  "make_file node data a =
     kbind (ad_write64 (node + 272) 0 a) (\<lambda>a1.
     kbind (ad_write64 (node + 288) (of_nat (curr_offset a1)) a1) (\<lambda>a2.
     kbind (ad_write64 (node + 280) (of_nat (length data)) a2) (\<lambda>a3.
     kbind (inc_offset (length data) a3) (\<lambda>a4.
     ad_write (node + 296) data a4))))"

text \<open>The offsets of the nodes made for the entries of a folder.\<close>

fun make_node :: "saf_tree list \<Rightarrow> arch_data \<Rightarrow> (nat list \<times> arch_data) kres" where
  "make_node [] a = Inr ([], a)"
| "make_node (t # ts) a =
     kbind (make_header t a) (\<lambda>a1.
     kbind (case t of
         SafDir nm cs \<Rightarrow>
           kbind (ad_write64 (curr_offset a + 272) FLAG_ISFOLDER a1) (\<lambda>a2.
           kbind (make_node cs a2) (\<lambda>(children, a3).
           kbind (ad_write64 (curr_offset a + 280) (of_nat (length children)) a3) (\<lambda>a4.
           write_children (curr_offset a) 0 children a4)))
       | SafFile nm data \<Rightarrow> make_file (curr_offset a) data a1) (\<lambda>a5.
     kbind (make_node ts a5) (\<lambda>(offs, a6). Inr (curr_offset a # offs, a6))))"

fun calculate_from :: "nat \<Rightarrow> saf_tree list \<Rightarrow> nat" where
  "calculate_from acc [] = acc"
| "calculate_from acc (t # ts) =
     (let acc1 = wrap32 (acc + nodesize t)
      in calculate_from (wrap32 (acc1 + (case t of SafDir nm cs \<Rightarrow> calculate_from 0 cs | SafFile nm data \<Rightarrow> length data))) ts)"

definition calculate_size :: "saf_tree list \<Rightarrow> nat" where
  "calculate_size ts = calculate_from 0 ts"

text \<open>\<open>main\<close>: the bytes written to the archive. \<open>malloc\<close> is taken to succeed.\<close>

definition saf_make :: "saf_tree list \<Rightarrow> u8 list kres" where
  "saf_make ts =
     (let alloc_needed = wrap32 (calculate_size ts + 288 + childcnt ts * 8);
          root_size = wrap32 (288 + childcnt ts * 8);
          adata = \<lparr>ad_ptr = (\<lambda>_. 0), curr_offset = 0, alloc_size = alloc_needed\<rparr>
      in kbind (inc_offset root_size adata) (\<lambda>a1.
         kbind (ad_write64 0 MAGIC_NUMBER a1) (\<lambda>a2.
         kbind (ad_write64 8 (of_nat root_size) a2) (\<lambda>a3.
         kbind (ad_write64 272 FLAG_ISFOLDER a3) (\<lambda>a4.
         kbind (make_node ts a4) (\<lambda>(children, a5).
         kbind (ad_write64 280 (of_nat (length children)) a5) (\<lambda>a6.
         kbind (write_children 0 0 children a6) (\<lambda>a7.
         Inr (bytes_at 0 (curr_offset a7) (ad_ptr a7))))))))))"

end
