(* ===== verification/Saf_Proofs.thy ===== *)
theory Saf_Proofs
  imports Saf_Make
begin

text \<open>
  The archive that is packed for a folder holds its tree, and its size is the one computed beforehand: packing
  never leaves the buffer and never runs out of it.
\<close>

section \<open>Reading what was written\<close>

definition same_outside :: "nat \<Rightarrow> nat \<Rightarrow> bytes_of \<Rightarrow> bytes_of \<Rightarrow> bool" where
  "same_outside lo hi m m' \<longleftrightarrow> (\<forall>x. x < lo \<or> hi \<le> x \<longrightarrow> m' x = m x)"

definition copied :: "nat \<Rightarrow> bytes_of \<Rightarrow> nat \<Rightarrow> nat \<Rightarrow> bytes_of \<Rightarrow> bool" where
  "copied base M lo hi m \<longleftrightarrow> (\<forall>x. lo \<le> x \<longrightarrow> x < hi \<longrightarrow> M (base + x) = m x)"

lemma same_outside_put: "lo \<le> a \<Longrightarrow> a + length bs \<le> hi \<Longrightarrow> same_outside lo hi m (put_bytes a bs m)"
  by (auto simp: same_outside_def put_bytes_def)

lemma same_outside_refl [simp]: "same_outside lo hi m m"
  by (simp add: same_outside_def)

lemma same_outside_trans:
  "same_outside lo hi m1 m2 \<Longrightarrow> same_outside lo' hi' m2 m3 \<Longrightarrow> same_outside (min lo lo') (max hi hi') m1 m3"
  by (auto simp: same_outside_def)

lemma same_outside_widen: "same_outside lo hi m m' \<Longrightarrow> lo' \<le> lo \<Longrightarrow> hi \<le> hi' \<Longrightarrow> same_outside lo' hi' m m'"
  by (auto simp: same_outside_def)

lemma bytes_outside:
  assumes "same_outside lo hi m m'" and "a + n \<le> lo \<or> hi \<le> a"
  shows "bytes_at a n m' = bytes_at a n m"
  using assms by (intro bytes_at_cong) (auto simp: same_outside_def)

lemma bytes_copied:
  assumes "copied base M lo hi m" and "lo \<le> a" and "a + n \<le> hi"
  shows "bytes_at (base + a) n M = bytes_at a n m"
  using assms by (intro nth_equalityI) (auto simp: copied_def add.assoc)

lemma copied_outside:
  assumes "copied base M lo hi m'" and "same_outside a b m m'" and "lo \<le> lo'" "hi' \<le> hi" and "hi' \<le> a \<or> b \<le> lo'"
  shows "copied base M lo' hi' m"
  using assms by (auto simp: copied_def same_outside_def)

lemma copied_part: "copied base M lo hi m \<Longrightarrow> lo \<le> lo' \<Longrightarrow> hi' \<le> hi \<Longrightarrow> copied base M lo' hi' m"
  by (auto simp: copied_def)

lemma u64_same: "u64_at a (put_bytes a (le_bytes 8 v) m) = v"
  using put_bytes_same [of a "le_bytes 8 v" m] le_val_bytes [of 8 v] by (simp add: u64_at_def take_bit_word_eq_self)

lemma u64_outside: "same_outside lo hi m m' \<Longrightarrow> a + 8 \<le> lo \<or> hi \<le> a \<Longrightarrow> u64_at a m' = u64_at a m"
  unfolding u64_at_def by (subst bytes_outside) auto

lemma u64_copied: "copied base M lo hi m \<Longrightarrow> lo \<le> a \<Longrightarrow> a + 8 \<le> hi \<Longrightarrow> u64_at (base + a) M = u64_at a m"
  unfolding u64_at_def by (subst bytes_copied) auto

lemma bytes_at_append: "bytes_at a (n + k) m = bytes_at a n m @ bytes_at (a + n) k m"
  by (rule nth_equalityI) (auto simp: nth_append add.assoc)

lemma saf_at_eq: "base + off < 0x100000000 \<Longrightarrow> saf_at base (of_nat off) = base + off"
  by (simp add: saf_at_def unat_of_nat)

section \<open>The steps of packing\<close>

lemma ad_write_ok: "off + length bs \<le> alloc_size a \<Longrightarrow> ad_write off bs a = Inr (a\<lparr>ad_ptr := put_bytes off bs (ad_ptr a)\<rparr>)"
  by (simp add: ad_write_def)

lemma ad_write64_ok: "off + 8 \<le> alloc_size a \<Longrightarrow> ad_write64 off v a = Inr (a\<lparr>ad_ptr := put_bytes off (le_bytes 8 v) (ad_ptr a)\<rparr>)"
  by (simp add: ad_write64_def ad_write_ok)

lemma inc_offset_ok: "curr_offset a + d \<le> alloc_size a \<Longrightarrow> inc_offset d a = Inr (a\<lparr>curr_offset := curr_offset a + d\<rparr>)"
  by (simp add: inc_offset_def)

lemma write_children_ok:
  assumes "node + 288 + 8 * (i + length offs) \<le> alloc_size a"
  shows "\<exists>m. write_children node i offs a = Inr (a\<lparr>ad_ptr := m\<rparr>) \<and>
    same_outside (node + 288 + 8 * i) (node + 288 + 8 * (i + length offs)) (ad_ptr a) m \<and>
    (\<forall>j < length offs. u64_at (node + 288 + 8 * (i + j)) m = of_nat (offs ! j))"
  using assms
proof (induction offs arbitrary: i a)
  case Nil
  then show ?case by (intro exI [of _ "ad_ptr a"]) simp
next
  case (Cons off offs)
  define a1 where "a1 = a\<lparr>ad_ptr := put_bytes (node + 288 + 8 * i) (le_bytes 8 (of_nat off)) (ad_ptr a)\<rparr>"
  have w: "ad_write64 (node + 288 + 8 * i) (of_nat off) a = Inr a1" using Cons.prems by (simp add: ad_write64_ok a1_def)
  have "node + 288 + 8 * (Suc i + length offs) \<le> alloc_size a1" using Cons.prems by (simp add: a1_def)
  from Cons.IH [OF this] obtain m where m: "write_children node (Suc i) offs a1 = Inr (a1\<lparr>ad_ptr := m\<rparr>)"
    "same_outside (node + 288 + 8 * Suc i) (node + 288 + 8 * (Suc i + length offs)) (ad_ptr a1) m"
    "\<forall>j < length offs. u64_at (node + 288 + 8 * (Suc i + j)) m = of_nat (offs ! j)" by blast
  have first: "same_outside (node + 288 + 8 * i) (node + 288 + 8 * i + 8) (ad_ptr a) (ad_ptr a1)"
    unfolding a1_def by (simp add: same_outside_put)
  have "u64_at (node + 288 + 8 * i) m = of_nat off"
    using u64_outside [OF m(2), of "node + 288 + 8 * i"] by (simp add: a1_def u64_same)
  then have "u64_at (node + 288 + 8 * (i + j)) m = of_nat ((off # offs) ! j)" if "j < length (off # offs)" for j
    using that m(3) by (cases j) auto
  moreover have "same_outside (node + 288 + 8 * i) (node + 288 + 8 * (i + length (off # offs))) (ad_ptr a) m"
    using same_outside_trans [OF first m(2)] by (simp add: algebra_simps max_def split: if_splits)
  ultimately show ?case using w m(1) by (auto simp: a1_def)
qed

lemma make_header_ok:
  assumes "curr_offset a + nodesize t \<le> alloc_size a" and "nodesize t \<ge> 288" and "length (t_name t) < 256"
  shows "\<exists>m x. make_header t a = Inr (a\<lparr>ad_ptr := m, curr_offset := curr_offset a + nodesize t\<rparr>) \<and>
    same_outside (curr_offset a) (curr_offset a + 280) (ad_ptr a) m \<and> saf_name (curr_offset a) m = t_name t @ 0 # x"
proof -
  define p where "p = curr_offset a"
  define m3 where "m3 = put_bytes (p + 16) (t_name t @ [0])
    (put_bytes p (le_bytes 8 MAGIC_NUMBER) (put_bytes p (replicate 280 0) (ad_ptr a)))"
  define m where "m = put_bytes (p + 8) (le_bytes 8 (of_nat (nodesize t))) m3"
  have run: "make_header t a = Inr (a\<lparr>ad_ptr := m, curr_offset := p + nodesize t\<rparr>)"
    using assms unfolding p_def [symmetric] by (simp add: make_header_def Let_def ad_write_ok ad_write64_ok inc_offset_ok m_def m3_def flip: p_def)
  have out: "same_outside p (p + 280) (ad_ptr a) m"
    using assms(3) by (auto simp: m_def m3_def same_outside_def put_bytes_def)
  have "bytes_at (p + 16) (Suc (length (t_name t))) m = bytes_at (p + 16) (Suc (length (t_name t))) m3"
    unfolding m_def by (rule bytes_outside [OF same_outside_put [OF order_refl order_refl]]) simp
  also have "\<dots> = t_name t @ [0]" unfolding m3_def using put_bytes_same [of "p + 16" "t_name t @ [0]"] by simp
  finally have "bytes_at (p + 16) (Suc (length (t_name t))) m = t_name t @ [0]" .
  moreover have "256 = Suc (length (t_name t)) + (255 - length (t_name t))" using assms(3) by simp
  ultimately have "saf_name p m = (t_name t @ [0]) @ bytes_at (p + 16 + Suc (length (t_name t))) (255 - length (t_name t)) m"
    unfolding saf_name_def by (metis bytes_at_append)
  then show ?thesis using run out by (auto simp: p_def)
qed

section \<open>The archive holds the tree\<close>

fun packable :: "saf_tree list \<Rightarrow> bool" where
  "packable [] = True"
| "packable (t # ts) \<longleftrightarrow> cstring (t_name t) \<and> length (t_name t) < 256 \<and>
     (case t of SafDir nm cs \<Rightarrow> packable cs | SafFile nm c \<Rightarrow> True) \<and> packable ts"

fun nodes_size :: "saf_tree list \<Rightarrow> nat" where
  "nodes_size [] = 0"
| "nodes_size (t # ts) =
     (case t of SafDir nm cs \<Rightarrow> 288 + 8 * length cs + nodes_size cs | SafFile nm c \<Rightarrow> 296 + length c) + nodes_size ts"

definition packs :: "saf_tree list \<Rightarrow> arch_data \<Rightarrow> bool" where
  "packs ts a \<longleftrightarrow> (\<exists>offs m.
     make_node ts a = Inr (offs, a\<lparr>ad_ptr := m, curr_offset := curr_offset a + nodes_size ts\<rparr>) \<and> length offs = length ts \<and>
     same_outside (curr_offset a) (curr_offset a + nodes_size ts) (ad_ptr a) m \<and> (\<forall>off\<in>set offs. off < alloc_size a) \<and>
     (\<forall>M base. copied base M (curr_offset a) (curr_offset a + nodes_size ts) m \<longrightarrow> base + alloc_size a < 0x100000000 \<longrightarrow>
        nodes_at M base (map ((+) base) offs) ts))"

lemma saf_name_copied:
  assumes "copied base M lo hi m" and "lo \<le> p" "p + 272 \<le> hi" and "same_outside a b m' m" "p + 272 \<le> a \<or> b \<le> p + 16"
  shows "saf_name (base + p) M = saf_name p m'"
  using bytes_copied [OF assms(1), of "p + 16" 256] bytes_outside [OF assms(4), of "p + 16" 256] assms(2,3,5)
  by (simp add: saf_name_def add.assoc)

lemma make_file_ok:
  assumes "curr_offset a = p + 296" and "p + 296 + length c \<le> alloc_size a"
  shows "\<exists>m. make_file p c a = Inr (a\<lparr>ad_ptr := m, curr_offset := p + 296 + length c\<rparr>) \<and>
    same_outside (p + 272) (p + 296 + length c) (ad_ptr a) m \<and> u64_at (p + 272) m = 0 \<and>
    u64_at (p + 280) m = of_nat (length c) \<and> u64_at (p + 288) m = of_nat (p + 296) \<and> bytes_at (p + 296) (length c) m = c"
proof -
  define m1 where "m1 = put_bytes (p + 272) (le_bytes 8 0) (ad_ptr a)"
  define m2 where "m2 = put_bytes (p + 288) (le_bytes 8 (of_nat (p + 296))) m1"
  define m3 where "m3 = put_bytes (p + 280) (le_bytes 8 (of_nat (length c))) m2"
  define m where "m = put_bytes (p + 296) c m3"
  have run: "make_file p c a = Inr (a\<lparr>ad_ptr := m, curr_offset := p + 296 + length c\<rparr>)"
    using assms by (simp add: make_file_def ad_write_ok ad_write64_ok inc_offset_ok m_def m3_def m2_def m1_def)
  have s: "same_outside (p + 272) (p + 280) (ad_ptr a) m1" "same_outside (p + 288) (p + 296) m1 m2"
    "same_outside (p + 280) (p + 288) m2 m3" "same_outside (p + 296) (p + 296 + length c) m3 m"
    by (simp_all add: same_outside_put m1_def m2_def m3_def m_def)
  have out: "same_outside (p + 272) (p + 296 + length c) (ad_ptr a) m"
    using same_outside_trans [OF same_outside_trans [OF same_outside_trans [OF s(1,2)] s(3)] s(4)] by simp
  have "u64_at (p + 272) m = 0" using u64_outside [OF s(4)] u64_outside [OF s(3)] u64_outside [OF s(2)] by (simp add: m1_def u64_same)
  moreover have "u64_at (p + 288) m = of_nat (p + 296)" using u64_outside [OF s(4)] u64_outside [OF s(3)] by (simp add: m2_def u64_same)
  moreover have "u64_at (p + 280) m = of_nat (length c)" using u64_outside [OF s(4)] by (simp add: m3_def u64_same)
  moreover have "bytes_at (p + 296) (length c) m = c" by (simp add: m_def put_bytes_same)
  ultimately show ?thesis using run out by blast
qed

lemma pack_file:
  assumes room: "curr_offset a + 296 + length c \<le> alloc_size a" "alloc_size a < 0x100000000" and nm: "cstring nm" "length nm < 256"
    and pos: "0 < curr_offset a"
  shows "\<exists>m. kbind (make_header (SafFile nm c) a) (make_file (curr_offset a) c) =
      Inr (a\<lparr>ad_ptr := m, curr_offset := curr_offset a + 296 + length c\<rparr>) \<and>
    same_outside (curr_offset a) (curr_offset a + 296 + length c) (ad_ptr a) m \<and>
    (\<forall>M base. copied base M (curr_offset a) (curr_offset a + 296 + length c) m \<longrightarrow> base + alloc_size a < 0x100000000 \<longrightarrow>
       nodes_at M base [base + curr_offset a] [SafFile nm c])"
proof -
  define p where "p = curr_offset a"
  have ns: "nodesize (SafFile nm c) = 296" by (simp add: nodesize_def)
  obtain m1 x where h: "make_header (SafFile nm c) a = Inr (a\<lparr>ad_ptr := m1, curr_offset := p + 296\<rparr>)"
    "same_outside p (p + 280) (ad_ptr a) m1" "saf_name p m1 = nm @ 0 # x"
    using make_header_ok [of a "SafFile nm c"] room(1) nm(2) ns by (auto simp: p_def)
  obtain m where f: "make_file p c (a\<lparr>ad_ptr := m1, curr_offset := p + 296\<rparr>) = Inr (a\<lparr>ad_ptr := m, curr_offset := p + 296 + length c\<rparr>)"
    "same_outside (p + 272) (p + 296 + length c) m1 m" "u64_at (p + 272) m = 0" "u64_at (p + 280) m = of_nat (length c)"
    "u64_at (p + 288) m = of_nat (p + 296)" "bytes_at (p + 296) (length c) m = c"
    using make_file_ok [of "a\<lparr>ad_ptr := m1, curr_offset := p + 296\<rparr>" p c] room(1) by (auto simp: p_def)
  have "nodes_at M base [base + p] [SafFile nm c]"
    if M: "copied base M p (p + 296 + length c) m" and B: "base + alloc_size a < 0x100000000" for M base
  proof -
    have "saf_name (base + p) M = nm @ 0 # x" using saf_name_copied [OF M, of p "p + 272" "p + 296 + length c" m1] f(2) h(3) by simp
    moreover have "saf_flags (base + p) M = 0" "unat (saf_size (base + p) M) = length c"
      using u64_copied [OF M, of "p + 272"] u64_copied [OF M, of "p + 280"] f(3,4) room
      by (simp_all add: saf_flags_def saf_size_def add.assoc unat_of_nat)
    moreover have "saf_addr (base + p) M = of_nat (p + 296)"
      using u64_copied [OF M, of "p + 288"] f(5) by (simp add: saf_addr_def add.assoc)
    then have "saf_at base (saf_addr (base + p) M) = base + (p + 296)" using saf_at_eq [of base "p + 296"] room B by (simp add: p_def)
    moreover have "bytes_at (base + (p + 296)) (length c) M = c" using bytes_copied [OF M, of "p + 296" "length c"] f(6) by simp
    ultimately show ?thesis using nm(1) pos room B by (simp add: p_def)
  qed
  moreover have "same_outside p (p + 296 + length c) (ad_ptr a) m" using same_outside_trans [OF h(2) f(2)] by simp
  ultimately show ?thesis using h(1) f(1) by (auto simp: p_def)
qed

definition make_folder :: "nat \<Rightarrow> saf_tree list \<Rightarrow> arch_data \<Rightarrow> arch_data kres" where
  "make_folder p cs a1 =
     kbind (ad_write64 (p + 272) FLAG_ISFOLDER a1) (\<lambda>a2.
     kbind (make_node cs a2) (\<lambda>(children, a3).
     kbind (ad_write64 (p + 280) (of_nat (length children)) a3) (\<lambda>a4.
     write_children p 0 children a4)))"

lemma folder_children:
  assumes "u64_at (p + 280) m = of_nat (length offs)" and "\<forall>j < length offs. u64_at (p + 288 + 8 * j) m = of_nat (offs ! j)"
    and M: "copied base M lo hi m" "lo \<le> p" "p + 288 + 8 * length offs \<le> hi"
    and offs: "length offs < 0x100000000" "\<forall>off\<in>set offs. base + off < 0x100000000"
  shows "saf_children base (base + p) M = map ((+) base) offs"
proof -
  have n: "unat (saf_num_children (base + p) M) = length offs"
    using u64_copied [OF M(1), of "p + 280"] M(2,3) assms(1) offs(1) by (simp add: saf_num_children_def add.assoc unat_of_nat)
  have "saf_at base (saf_child (base + p) j M) = base + offs ! j" if j: "j < length offs" for j
  proof -
    have "saf_child (base + p) j M = of_nat (offs ! j)"
      using u64_copied [OF M(1), of "p + 288 + 8 * j"] M(2,3) assms(2) j by (simp add: saf_child_def add.assoc)
    then show ?thesis using offs(2) j by (simp add: saf_at_eq)
  qed
  then show ?thesis unfolding saf_children_def n by (intro nth_equalityI) simp_all
qed

lemma arch_data_order: "a\<lparr>ad_ptr := m, curr_offset := n\<rparr> = a\<lparr>curr_offset := n, ad_ptr := m\<rparr>"
  by simp

lemma make_folder_ok:
  assumes sub: "packs cs (a\<lparr>ad_ptr := put_bytes (p + 272) (le_bytes 8 FLAG_ISFOLDER) (ad_ptr a)\<rparr>)"
    and p: "curr_offset a = p + 288 + 8 * length cs" and room: "p + 288 + 8 * length cs + nodes_size cs \<le> alloc_size a" "alloc_size a < 0x100000000"
  shows "\<exists>m. make_folder p cs a = Inr (a\<lparr>ad_ptr := m, curr_offset := p + 288 + 8 * length cs + nodes_size cs\<rparr>) \<and>
    same_outside (p + 272) (p + 288 + 8 * length cs + nodes_size cs) (ad_ptr a) m \<and> u64_at (p + 272) m = FLAG_ISFOLDER \<and>
    (\<forall>M base. copied base M p (p + 288 + 8 * length cs + nodes_size cs) m \<longrightarrow> base + alloc_size a < 0x100000000 \<longrightarrow>
       nodes_at M base (saf_children base (base + p) M) cs)"
proof -
  define e where "e = p + 288 + 8 * length cs"
  define m2 where "m2 = put_bytes (p + 272) (le_bytes 8 FLAG_ISFOLDER) (ad_ptr a)"
  obtain offs m3 where k: "make_node cs (a\<lparr>ad_ptr := m2\<rparr>) = Inr (offs, a\<lparr>ad_ptr := m3, curr_offset := e + nodes_size cs\<rparr>)"
    "length offs = length cs" "same_outside e (e + nodes_size cs) m2 m3" "\<forall>off\<in>set offs. off < alloc_size a"
    "\<And>M base. copied base M e (e + nodes_size cs) m3 \<Longrightarrow> base + alloc_size a < 0x100000000 \<Longrightarrow> nodes_at M base (map ((+) base) offs) cs"
    using sub p by (auto simp: packs_def m2_def e_def)
  define m4 where "m4 = put_bytes (p + 280) (le_bytes 8 (of_nat (length cs))) m3"
  define a4 where "a4 = a\<lparr>ad_ptr := m4, curr_offset := e + nodes_size cs\<rparr>"
  have "p + 288 + 8 * (0 + length offs) \<le> alloc_size a4" using room k(2) by (simp add: a4_def)
  from write_children_ok [OF this] obtain m where w: "write_children p 0 offs a4 = Inr (a4\<lparr>ad_ptr := m\<rparr>)"
    "same_outside (p + 288) e m4 m" "\<forall>j < length offs. u64_at (p + 288 + 8 * j) m = of_nat (offs ! j)"
    using k(2) by (auto simp: a4_def e_def)
  have run: "make_folder p cs a = Inr (a\<lparr>ad_ptr := m, curr_offset := e + nodes_size cs\<rparr>)"
    using room k(1,2) w(1) by (simp add: make_folder_def ad_write64_ok m2_def m4_def a4_def arch_data_order)
  have s: "same_outside (p + 272) (p + 280) (ad_ptr a) m2" "same_outside (p + 280) (p + 288) m3 m4"
    by (simp_all add: same_outside_put m2_def m4_def)
  have node: "same_outside (p + 280) e m3 m" using same_outside_trans [OF s(2) w(2)] by (simp add: e_def)
  have out: "same_outside (p + 272) (e + nodes_size cs) (ad_ptr a) m"
    using same_outside_trans [OF same_outside_trans [OF s(1) k(3)] node] by (simp add: e_def)
  have flag: "u64_at (p + 272) m = FLAG_ISFOLDER"
    using u64_outside [OF node, of "p + 272"] u64_outside [OF k(3), of "p + 272"] by (simp add: m2_def u64_same e_def)
  have num: "u64_at (p + 280) m = of_nat (length offs)"
    using u64_outside [OF w(2), of "p + 280"] k(2) by (simp add: m4_def u64_same)
  have "nodes_at M base (saf_children base (base + p) M) cs"
    if M: "copied base M p (e + nodes_size cs) m" and B: "base + alloc_size a < 0x100000000" for M base
  proof -
    have "length offs < 0x100000000" "\<forall>off\<in>set offs. base + off < 0x100000000" using room k(2,4) B by auto
    from folder_children [OF num w(3) M _ _ this] have "saf_children base (base + p) M = map ((+) base) offs"
      using k(2) by (simp add: e_def)
    moreover have "copied base M e (e + nodes_size cs) m3" by (rule copied_outside [OF M node]) (simp_all add: e_def)
    ultimately show ?thesis using k(5) B by simp
  qed
  then show ?thesis using run out flag unfolding e_def by blast
qed

lemma pack_dir:
  assumes sub: "\<And>b. curr_offset b + nodes_size cs \<le> alloc_size b \<Longrightarrow> alloc_size b < 0x100000000 \<Longrightarrow> 0 < curr_offset b \<Longrightarrow> packs cs b"
    and room: "curr_offset a + 288 + 8 * length cs + nodes_size cs \<le> alloc_size a" "alloc_size a < 0x100000000"
    and nm: "cstring nm" "length nm < 256" and pos: "0 < curr_offset a"
  shows "\<exists>m. kbind (make_header (SafDir nm cs) a) (make_folder (curr_offset a) cs) =
      Inr (a\<lparr>ad_ptr := m, curr_offset := curr_offset a + 288 + 8 * length cs + nodes_size cs\<rparr>) \<and>
    same_outside (curr_offset a) (curr_offset a + 288 + 8 * length cs + nodes_size cs) (ad_ptr a) m \<and>
    (\<forall>M base. copied base M (curr_offset a) (curr_offset a + 288 + 8 * length cs + nodes_size cs) m \<longrightarrow> base + alloc_size a < 0x100000000 \<longrightarrow>
       nodes_at M base [base + curr_offset a] [SafDir nm cs])"
proof -
  define p where "p = curr_offset a"
  define e where "e = p + 288 + 8 * length cs"
  have ns: "nodesize (SafDir nm cs) = 288 + 8 * length cs" using room by (simp add: nodesize_def childcnt_def)
  obtain m1 x where h: "make_header (SafDir nm cs) a = Inr (a\<lparr>ad_ptr := m1, curr_offset := e\<rparr>)"
    "same_outside p (p + 280) (ad_ptr a) m1" "saf_name p m1 = nm @ 0 # x"
    using make_header_ok [of a "SafDir nm cs"] room(1) nm(2) ns by (auto simp: p_def e_def add.assoc)
  define a1 where "a1 = a\<lparr>ad_ptr := m1, curr_offset := e\<rparr>"
  have "packs cs (a1\<lparr>ad_ptr := put_bytes (p + 272) (le_bytes 8 FLAG_ISFOLDER) (ad_ptr a1)\<rparr>)"
    using sub room pos by (simp add: a1_def e_def p_def)
  from make_folder_ok [OF this] obtain m where
    f: "make_folder p cs a1 = Inr (a1\<lparr>ad_ptr := m, curr_offset := e + nodes_size cs\<rparr>)"
    "same_outside (p + 272) (e + nodes_size cs) m1 m" "u64_at (p + 272) m = FLAG_ISFOLDER"
    "\<And>M base. copied base M p (e + nodes_size cs) m \<Longrightarrow> base + alloc_size a < 0x100000000 \<Longrightarrow>
       nodes_at M base (saf_children base (base + p) M) cs"
    using room by (auto simp: a1_def e_def p_def)
  have "nodes_at M base [base + p] [SafDir nm cs]"
    if M: "copied base M p (e + nodes_size cs) m" and B: "base + alloc_size a < 0x100000000" for M base
  proof -
    have "saf_name (base + p) M = nm @ 0 # x"
      using saf_name_copied [OF M, of p "p + 272" "e + nodes_size cs" m1] f(2) h(3) by (simp add: e_def)
    moreover have "saf_flags (base + p) M = FLAG_ISFOLDER"
      using u64_copied [OF M, of "p + 272"] f(3) by (simp add: saf_flags_def add.assoc e_def)
    ultimately show ?thesis using nm(1) pos f(4) [OF M B] by (simp add: p_def)
  qed
  moreover have "same_outside p (e + nodes_size cs) (ad_ptr a) m" using same_outside_trans [OF h(2) f(2)] by (simp add: e_def)
  ultimately show ?thesis using h(1) f(1) unfolding p_def [symmetric] e_def [symmetric] by (auto simp: a1_def)
qed

lemma make_node_packs:
  assumes "packable ts" and "curr_offset a + nodes_size ts \<le> alloc_size a" "alloc_size a < 0x100000000" and "0 < curr_offset a"
  shows "packs ts a"
  using assms
proof (induction ts arbitrary: a rule: nodes_size.induct)
  case (1 a)
  show ?case unfolding packs_def by (intro exI [of _ "[]"] exI [of _ "ad_ptr a"]) simp
next
  case (2 t ts a)
  define p n where "p = curr_offset a"
    and "n = (case t of SafDir nm cs \<Rightarrow> 288 + 8 * length cs + nodes_size cs | SafFile nm c \<Rightarrow> 296 + length c)"
  have t: "cstring (t_name t)" "length (t_name t) < 256" "packable ts" and room: "p + n + nodes_size ts \<le> alloc_size a"
    using 2(3,4) by (simp_all add: p_def n_def)
  define step where "step = (\<lambda>a1. case t of SafDir nm cs \<Rightarrow> make_folder p cs a1 | SafFile nm c \<Rightarrow> make_file p c a1)"
  have run: "make_node (t # ts) a = kbind (kbind (make_header t a) step) (\<lambda>a5.
      kbind (make_node ts a5) (\<lambda>(offs, a6). Inr (p # offs, a6)))"
    by (cases t) (simp_all add: step_def make_folder_def p_def kbind_assoc)
  have "\<exists>m. kbind (make_header t a) step = Inr (a\<lparr>ad_ptr := m, curr_offset := p + n\<rparr>) \<and> same_outside p (p + n) (ad_ptr a) m \<and>
      (\<forall>M base. copied base M p (p + n) m \<longrightarrow> base + alloc_size a < 0x100000000 \<longrightarrow> nodes_at M base [base + p] [t])"
  proof (cases t)
    case (SafFile nm c)
    then show ?thesis using pack_file [of a c nm] room 2(5,6) t by (simp add: step_def p_def n_def add.assoc)
  next
    case (SafDir nm cs)
    have "packs cs b" if "curr_offset b + nodes_size cs \<le> alloc_size b" "alloc_size b < 0x100000000" "0 < curr_offset b" for b
      using 2(1) [OF SafDir _ that] 2(3) SafDir by simp
    from pack_dir [OF this, of a nm] show ?thesis using room 2(5,6) t SafDir by (simp add: step_def p_def n_def add.assoc)
  qed
  then obtain m1 where m1: "kbind (make_header t a) step = Inr (a\<lparr>ad_ptr := m1, curr_offset := p + n\<rparr>)" "same_outside p (p + n) (ad_ptr a) m1"
      "\<forall>M base. copied base M p (p + n) m1 \<longrightarrow> base + alloc_size a < 0x100000000 \<longrightarrow> nodes_at M base [base + p] [t]"
    by (elim exE conjE) (rule that)
  define a1 where "a1 = a\<lparr>ad_ptr := m1, curr_offset := p + n\<rparr>"
  have "packs ts a1" using 2(2) [OF t(3), of a1] room 2(5,6) by (simp add: a1_def p_def)
  then obtain offs m where m: "make_node ts a1 = Inr (offs, a\<lparr>ad_ptr := m, curr_offset := p + n + nodes_size ts\<rparr>)" "length offs = length ts"
      "same_outside (p + n) (p + n + nodes_size ts) m1 m" "\<forall>off\<in>set offs. off < alloc_size a"
      "\<And>M base. copied base M (p + n) (p + n + nodes_size ts) m \<Longrightarrow> base + alloc_size a < 0x100000000 \<Longrightarrow> nodes_at M base (map ((+) base) offs) ts"
    by (auto simp: packs_def a1_def)
  have n0: "0 < n" by (cases t) (simp_all add: n_def)
  have "nodes_at M base (map ((+) base) (p # offs)) (t # ts)"
    if M: "copied base M p (p + n + nodes_size ts) m" and B: "base + alloc_size a < 0x100000000" for M base
    using m1(3) [rule_format, OF copied_outside [OF M m(3)] B] m(5) [OF copied_part [OF M] B] by simp
  moreover have "make_node (t # ts) a = Inr (p # offs, a\<lparr>ad_ptr := m, curr_offset := p + (n + nodes_size ts)\<rparr>)"
    using run m1(1) m(1) by (simp add: a1_def add.assoc)
  moreover have "same_outside p (p + n + nodes_size ts) (ad_ptr a) m" using same_outside_trans [OF m1(2) m(3)] by simp
  moreover have "nodes_size (t # ts) = n + nodes_size ts" by (simp add: n_def)
  ultimately show ?case using m(2,4) room n0 unfolding packs_def p_def [symmetric]
    by (intro exI [of _ "p # offs"] exI [of _ m]) (simp add: add.assoc)
qed

lemma wrap32_sum: "wrap32 (wrap32 a + b) = wrap32 (a + b)" "wrap32 (a + wrap32 b) = wrap32 (a + b)"
  by (simp_all add: wrap32_def mod_simps)

lemma calculate_from_eq: "acc < 0x100000000 \<Longrightarrow> calculate_from acc ts = wrap32 (acc + nodes_size ts)"
proof (induction ts arbitrary: acc rule: nodes_size.induct)
  case (2 t ts)
  define n where "n = (case t of SafDir nm cs \<Rightarrow> 288 + 8 * length cs + nodes_size cs | SafFile nm c \<Rightarrow> 296 + length c)"
  have "wrap32 (wrap32 (acc + nodesize t) + (case t of SafDir nm cs \<Rightarrow> calculate_from 0 cs | SafFile nm c \<Rightarrow> length c)) = wrap32 (acc + n)"
  proof (cases t)
    case (SafDir nm cs)
    with 2(1) [OF SafDir, of 0] show ?thesis
      by (simp add: n_def nodesize_def childcnt_def wrap32_sum) (simp add: algebra_simps)
  qed (simp add: n_def nodesize_def wrap32_sum algebra_simps)
  then have "calculate_from acc (t # ts) = calculate_from (wrap32 (acc + n)) ts" by (simp add: Let_def)
  also have "\<dots> = wrap32 (acc + n + nodes_size ts)" using 2(2) [OF wrap32_lt] by (simp add: wrap32_def mod_simps)
  finally show ?case by (simp add: n_def add.assoc)
qed simp

lemma saf_make_ok:
  assumes "packable ts" and "288 + 8 * length ts + nodes_size ts < 0x100000000"
  shows "\<exists>img. saf_make ts = Inr img \<and> length img = 288 + 8 * length ts + nodes_size ts \<and>
    (\<forall>M base. bytes_at base (length img) M = img \<longrightarrow> base + length img < 0x100000000 \<longrightarrow> 0 < base \<longrightarrow>
       nodes_at M base [base] [SafDir [] ts])"
proof -
  define e n where "e = 288 + 8 * length ts" and "n = e + nodes_size ts"
  have size: "wrap32 (calculate_size ts + 288 + childcnt ts * 8) = n" "wrap32 (288 + childcnt ts * 8) = e"
    using assms(2) by (simp_all add: calculate_size_def calculate_from_eq childcnt_def n_def e_def)
  define m2 where "m2 = put_bytes 8 (le_bytes 8 (of_nat e)) (put_bytes 0 (le_bytes 8 MAGIC_NUMBER) (\<lambda>_. 0 :: u8))"
  define a where "a = \<lparr>ad_ptr = m2, curr_offset = e, alloc_size = n\<rparr>"
  have run: "saf_make ts = kbind (make_folder 0 ts a) (\<lambda>a7. Inr (bytes_at 0 (curr_offset a7) (ad_ptr a7)))"
    unfolding saf_make_def size by (simp add: ad_write64_ok inc_offset_ok make_folder_def a_def m2_def e_def n_def kbind_assoc case_prod_beta')
  have "packs ts (a\<lparr>ad_ptr := put_bytes (0 + 272) (le_bytes 8 FLAG_ISFOLDER) (ad_ptr a)\<rparr>)"
    using assms by (intro make_node_packs) (simp_all add: a_def n_def e_def)
  from make_folder_ok [OF this] obtain m where
    m: "make_folder 0 ts a = Inr (a\<lparr>ad_ptr := m, curr_offset := n\<rparr>)" "same_outside 272 n m2 m" "u64_at 272 m = FLAG_ISFOLDER"
      "\<And>M base. copied base M 0 n m \<Longrightarrow> base + n < 0x100000000 \<Longrightarrow> nodes_at M base (saf_children base (base + 0) M) ts"
    using assms(2) by (auto simp: a_def e_def n_def)
  have "nodes_at M base [base] [SafDir [] ts]"
    if M: "bytes_at base n M = bytes_at 0 n m" and B: "base + n < 0x100000000" "0 < base" for M base
  proof -
    have "M (base + x) = m x" if "x < n" for x using arg_cong [OF M, of "\<lambda>l. l ! x"] that by simp
    then have C: "copied base M 0 n m" by (simp add: copied_def)
    have "M (base + 16) = 0" using C m(2) by (simp add: copied_def same_outside_def n_def e_def m2_def put_bytes_def)
    then have "\<exists>x. saf_name base M = 0 # x"
      using bytes_at_append [of "base + 16" 1 255 M] by (simp add: saf_name_def bytes_at_def)
    moreover have "saf_flags base M = FLAG_ISFOLDER" using u64_copied [OF C, of 272] m(3) by (simp add: saf_flags_def n_def e_def)
    ultimately show ?thesis using B m(4) [OF C B(1)] by simp
  qed
  then show ?thesis using run m(1) unfolding e_def [symmetric] n_def [symmetric] by simp
qed

end
