(* ===== verification/Initrd_Contract.thy ===== *)
theory Initrd_Contract
  imports Saf_Proofs
begin

text \<open>
  The initial disk behind the virtual file system: a mounted archive serves every file of the packed tree, lists
  its folders, and stops the kernel when a path goes on behind a file.
\<close>

section \<open>A mounted archive\<close>

definition INITRD :: "u8 list" where
  "INITRD = map of_char ''initrd''"

definition initrd_base :: "'a fs_scheme vfs \<Rightarrow> nat" where
  "initrd_base s = mount_data (world s) (mount_called s INITRD)"

definition initdisk :: "saf_tree \<Rightarrow> 'a fs_scheme vfs \<Rightarrow> bool" where
  "initdisk t s \<longleftrightarrow> names_ok s \<and> mount_called s INITRD \<noteq> 0 \<and> mount_ops s (mount_called s INITRD) = Some initrd_ops \<and>
     nodes_at (kernel_memory (world s)) (initrd_base s) [initrd_base s] [t] \<and>
     0 < next_obj (world s) \<and> (\<forall>f. files (world s) f \<noteq> None \<longrightarrow> 0 < f \<and> f < next_obj (world s))"

definition initrd_view :: "saf_tree \<Rightarrow> u8 list list \<Rightarrow> entry option" where
  "initrd_view t cs = map_option (\<lambda>u. case u of SafFile nm c \<Rightarrow> File c | SafDir nm ts \<Rightarrow> Dir) (tree_at t cs)"

definition holds_bytes :: "bytes_of \<Rightarrow> file_t \<Rightarrow> u8 list \<Rightarrow> bool" where
  "holds_bytes m fl c \<longleftrightarrow> f_size fl = length c \<and> f_data fl + length c < 0x100000000 \<and> bytes_at (f_data fl) (length c) m = c"

definition initrd_handle :: "saf_tree \<Rightarrow> 'a fs_scheme vfs \<Rightarrow> nat \<Rightarrow> u8 list list \<Rightarrow> bool" where
  "initrd_handle t s f cs \<longleftrightarrow> (\<exists>fl. files (world s) f = Some fl \<and> f_mount fl = mount_called s INITRD \<and>
     (\<forall>c. initrd_view t cs = Some (File c) \<longrightarrow> holds_bytes (kernel_memory (world s)) fl c))"

lemma INITRD_ok: "cstring INITRD" "0x3A \<notin> set INITRD" "initrd_name m w = INITRD @ 0 # []"
  by (simp_all add: INITRD_def initrd_name_def path_literal_def of_char_def)

lemma initrd_viewD: "initrd_view t cs = Some (File c) \<Longrightarrow> \<exists>nm. tree_at t cs = Some (SafFile nm c)"
  unfolding initrd_view_def by (cases "tree_at t cs"; cases "the (tree_at t cs)") auto

lemma initrd_ops_sel:
  "m_open initrd_ops = Some initrd_open" "m_close initrd_ops = Some initrd_close" "m_read initrd_ops = Some initrd_read"
  "m_dir_at initrd_ops = Some initrd_dir_at" "m_write initrd_ops = None" "m_touch initrd_ops = None"
  by (simp_all add: initrd_ops_def)

lemma tree_at_not_below: "tree_at t cs = Some u \<Longrightarrow> \<not> below_file t cs"
  by (induction t cs rule: tree_at.induct) (auto split: option.splits)

text \<open>What only opens and closes files keeps the mount.\<close>

lemma initdisk_files:
  assumes "initdisk t s" and "w = world s\<lparr>files := F, next_obj := k\<rparr>" and "0 < k" and "\<And>f. F f \<noteq> None \<Longrightarrow> 0 < f \<and> f < k"
  shows "initdisk t (s\<lparr>world := w\<rparr>)" "mount_called (s\<lparr>world := w\<rparr>) INITRD = mount_called s INITRD"
proof -
  have "mount_tail w = mount_tail (world s)" using assms(2) by simp
  note n = mount_called_world [OF _ this]
  show c: "mount_called (s\<lparr>world := w\<rparr>) INITRD = mount_called s INITRD" using n(1) assms(1) by (simp add: initdisk_def)
  then have "initrd_base (s\<lparr>world := w\<rparr>) = initrd_base s" using assms(2) by (simp add: initrd_base_def)
  then show "initdisk t (s\<lparr>world := w\<rparr>)" using assms n(2) c by (auto simp: initdisk_def)
qed

lemma initrd_open_file:
  assumes "nodes_at (kernel_memory w) base [base] [t]" and "mount_data w m = base" and "list_all valid_name cs"
    and "tree_at t cs = Some (SafFile nm c)"
  shows "\<exists>fl. initrd_open m (pathstr cs @ 0 # x) flags w = Inr (next_obj w, w\<lparr>files := (files w)(next_obj w \<mapsto> fl), next_obj := next_obj w + 1\<rparr>) \<and>
    f_mount fl = m \<and> holds_bytes (kernel_memory w) fl c"
proof -
  obtain q where q: "initrd_find (pathstr cs @ 0 # x) base base (kernel_memory w) = Inr q" "nodes_at (kernel_memory w) base [q] [SafFile nm c]"
    using initrd_find_tree [OF assms(3,1), of x] tree_at_not_below [OF assms(4)] assms(4) by auto
  note d = nodes_at_fileD [OF q(2)]
  have "wrap32 (unat (saf_size q (kernel_memory w))) = length c" using d(2,3) by simp
  then show ?thesis using q(1) d assms(2)
    by (intro exI [of _ "\<lparr>f_mount = m, f_mode = 0, f_data = saf_at base (saf_addr q (kernel_memory w)), f_size = length c\<rparr>"])
      (simp add: initrd_open_def Let_def FLAG_ISFOLDER_def holds_bytes_def)
qed

lemma initrd_read_ok:
  assumes "files w f = Some fl" and "holds_bytes (kernel_memory w) fl c" and "off + n \<le> length c"
  shows "initrd_read m f n off w = Inr (take n (drop off c), w)"
proof -
  have b: "f_size fl = length c" "f_data fl + length c < 0x100000000" "bytes_at (f_data fl) (length c) (kernel_memory w) = c"
    using assms(2) by (simp_all add: holds_bytes_def)
  have "bytes_at (f_data fl + off) n (kernel_memory w) = take n (drop off c)" using bytes_at_part [OF assms(3)] b(3) by simp
  then show ?thesis using assms(1,3) b(1,2) by (simp add: initrd_read_def deref_def)
qed

section \<open>The interface of readable files\<close>

lemma initrd_open_law:
  assumes D: "initdisk t s" and fits: "path_fits INITRD cs" and c: "initrd_view t cs = Some (File c)"
  shows "\<exists>f s'. disk_open INITRD cs s = Inr (f, s') \<and> initdisk t s' \<and> initrd_handle t s' f cs \<and> file_size f s' = Inr (length c, s')"
proof -
  obtain nm where u: "tree_at t cs = Some (SafFile nm c)" using initrd_viewD [OF c] by blast
  have d: "names_ok s" "mount_called s INITRD \<noteq> 0" "mount_ops s (mount_called s INITRD) = Some initrd_ops" "0 < next_obj (world s)"
      "nodes_at (kernel_memory (world s)) (initrd_base s) [initrd_base s] [t]"
      "\<And>f. files (world s) f \<noteq> None \<Longrightarrow> 0 < f \<and> f < next_obj (world s)" using D by (auto simp: initdisk_def)
  obtain k where fm: "vfs_find_mount (disk_path INITRD cs) s = Inr (mount_called s INITRD, pathstr cs @ 0 # 0 # replicate k 0)"
    using find_mount_path [OF d(1) INITRD_ok(1,2) fits, of "[]"] by (auto simp: disk_path_def)
  obtain fl where o: "initrd_open (mount_called s INITRD) (pathstr cs @ 0 # 0 # replicate k 0) 2 (world s) =
      Inr (next_obj (world s), world s\<lparr>files := (files (world s))(next_obj (world s) \<mapsto> fl), next_obj := next_obj (world s) + 1\<rparr>)"
      "f_mount fl = mount_called s INITRD" "holds_bytes (kernel_memory (world s)) fl c"
    using initrd_open_file [OF d(5) _ _ u, of "mount_called s INITRD"] fits by (auto simp: initrd_base_def path_fits_def)
  define f where "f = next_obj (world s)"
  define w where "w = world s\<lparr>files := (files (world s))(f \<mapsto> fl\<lparr>f_mode := 2\<rparr>), next_obj := f + 1\<rparr>"
  have run: "disk_open INITRD cs s = Inr (f, s\<lparr>world := w\<rparr>)"
    using fm o(1) d(2-4) by (simp add: disk_open_def vfs_open_def deref_def tested_def initrd_ops_sel w_def f_def)
  have "0 < g \<and> g < f + 1" if "((files (world s))(f \<mapsto> fl\<lparr>f_mode := 2\<rparr>)) g \<noteq> None" for g
    using that d(6) [of g] d(4) by (cases "g = f") (auto simp: f_def)
  note keep = initdisk_files [OF D w_def _ this, simplified]
  have "initrd_handle t (s\<lparr>world := w\<rparr>) f cs"
    using c o(2,3) keep(2) by (simp add: initrd_handle_def w_def holds_bytes_def)
  moreover have "file_size f (s\<lparr>world := w\<rparr>) = Inr (length c, s\<lparr>world := w\<rparr>)"
    using o(3) by (simp add: file_size_def w_def deref_def holds_bytes_def)
  ultimately show ?thesis using run keep(1) by blast
qed

lemma initrd_file_mount:
  assumes "initdisk t s" and "initrd_handle t s f cs"
  shows "file_mount f s = Inr (mount_called s INITRD, initrd_ops)"
  using assms by (auto simp: initdisk_def initrd_handle_def file_mount_def deref_def)

lemma initrd_read_law:
  assumes D: "initdisk t s" and h: "initrd_handle t s f cs" and c: "initrd_view t cs = Some (File c)" and bound: "off + n \<le> length c"
  shows "vfs_read f n off s = Inr (take n (drop off c), s)"
proof -
  obtain fl where "files (world s) f = Some fl" "holds_bytes (kernel_memory (world s)) fl c"
    using h c by (auto simp: initrd_handle_def)
  from initrd_read_ok [OF this bound] show ?thesis
    by (simp add: vfs_read_def initrd_file_mount [OF D h] tested_def initrd_ops_sel on_world'_def)
qed

lemma initrd_close_law:
  assumes D: "initdisk t s" and h: "initrd_handle t s f cs"
  shows "\<exists>s'. vfs_close f s = Inr s' \<and> initdisk t s'"
proof -
  obtain fl where "files (world s) f = Some fl" using h by (auto simp: initrd_handle_def)
  then have "vfs_close f s = Inr (s\<lparr>world := world s\<lparr>files := (files (world s))(f := None), next_obj := next_obj (world s)\<rparr>\<rparr>)"
    by (simp add: vfs_close_def initrd_file_mount [OF D h] tested_def initrd_ops_sel on_world_def initrd_close_def deref_def)
  moreover have "0 < g \<and> g < next_obj (world s)" if "((files (world s))(f := None)) g \<noteq> None" for g
    using that D by (auto simp: initdisk_def split: if_splits)
  then have "initdisk t (s\<lparr>world := world s\<lparr>files := (files (world s))(f := None), next_obj := next_obj (world s)\<rparr>\<rparr>)"
    using D by (intro initdisk_files(1) [OF D refl]) (auto simp: initdisk_def)
  ultimately show ?thesis by blast
qed

interpretation initrd_files: readable_store "initdisk t" "\<lambda>_. initrd_view t" "initrd_handle t" "disk_open INITRD" file_size vfs_read vfs_close
    "path_fits INITRD" "\<lambda>_. True" "0xFFFFFFFF"
  for t :: saf_tree
proof unfold_locales
  show "\<exists>f s' s''. disk_open INITRD cs s = Inr (f, s') \<and> initdisk t s' \<and> initrd_view t = initrd_view t \<and> initrd_handle t s' f cs \<and>
      file_size f s' = Inr (length c, s'') \<and> initdisk t s'' \<and> initrd_view t = initrd_view t \<and> initrd_handle t s'' f cs"
    if "initdisk t s" "path_fits INITRD cs" "initrd_view t cs = Some (File c)" for s :: "'a fs_scheme vfs" and cs c
    using initrd_open_law [OF that] by blast
qed (simp_all add: initrd_read_law initrd_close_law)

end
