(* ===== verification/Initrd_Files.thy ===== *)
theory Initrd_Files
  imports Initrd_Contract
begin

text \<open>
  The properties of the initial disk: from the packed archive in memory to the files, folders and failures that
  callers of the virtual file system see.
\<close>

section \<open>Mounting at boot\<close>

text \<open>\<open>init.c\<close> mounts the archive that the boot loader put at \<open>mod_start\<close>.\<close>

definition mount_initrd :: "nat \<Rightarrow> 'a fs_scheme vfs \<Rightarrow> 'a fs_scheme vfs" where
  "mount_initrd mod_start s = (let (m, s1) = initrd_mount mod_start s in vfs_mount m s1)"

text \<open>No object has the next address, and no mount has the name yet.\<close>

definition can_mount :: "'a fs_scheme vfs \<Rightarrow> bool" where
  "can_mount s \<longleftrightarrow> names_ok s \<and> mount_called s INITRD = 0 \<and> 0 < next_obj (world s) \<and> next_obj (world s) \<notin> set (vfs_mounts s) \<and>
     (\<forall>f. files (world s) f \<noteq> None \<longrightarrow> 0 < f \<and> f < next_obj (world s))"

definition in_memory :: "u8 list \<Rightarrow> nat \<Rightarrow> 'a fs_scheme vfs \<Rightarrow> bool" where
  "in_memory img base s \<longleftrightarrow> bytes_at base (length img) (kernel_memory (world s)) = img \<and> 0 < base \<and> base + length img < 0x100000000"

lemma names_ok_initrd:
  assumes "names_ok s" and "m \<noteq> 0" "m \<notin> set (vfs_mounts s)" and "mount_tail w = mount_tail (world s)"
  shows "names_ok (s\<lparr>vfs_mounts := vfs_mounts s @ [m], mount_ops := (mount_ops s)(m \<mapsto> initrd_ops), world := w\<rparr>)"
proof -
  have "\<exists>nm x. cstring nm \<and> (\<forall>w'. mount_tail w' = mount_tail w \<longrightarrow> m_name initrd_ops m w' = nm @ 0 # x)"
    by (rule exI [of _ INITRD], rule exI [of _ "[]"]) (simp add: initrd_ops_def INITRD_ok)
  moreover have "p \<noteq> m" if "p \<in> set (vfs_mounts s)" for p using assms(3) that by blast
  ultimately show ?thesis using assms(1,2,4) unfolding names_ok_def by auto
qed

lemma mount_initrd_disk:
  assumes "can_mount s" and "in_memory img base s"
    and tree: "\<And>M. bytes_at base (length img) M = img \<Longrightarrow> nodes_at M base [base] [t]"
  shows "initdisk t (mount_initrd base s)"
proof -
  define m where "m = next_obj (world s)"
  define w where "w = world s\<lparr>next_obj := m + 1, mount_data := (mount_data (world s))(m := base)\<rparr>"
  define s' where "s' = s\<lparr>vfs_mounts := vfs_mounts s @ [m], mount_ops := (mount_ops s)(m \<mapsto> initrd_ops), world := w\<rparr>"
  have run: "mount_initrd base s = s'"
    by (simp add: mount_initrd_def initrd_mount_def vfs_mount_def Let_def m_def w_def s'_def)
  have c: "names_ok s" "mount_called s INITRD = 0" "m \<noteq> 0" "m \<notin> set (vfs_mounts s)"
    "\<And>f. files (world s) f \<noteq> None \<Longrightarrow> 0 < f \<and> f < m" using assms(1) by (auto simp: can_mount_def m_def)
  have tail: "mount_tail w = mount_tail (world s)" by (simp add: w_def)
  have names: "names_ok s'" unfolding s'_def by (rule names_ok_initrd [OF c(1,3,4) tail])
  have same: "text_of (m_name (the (mount_ops s' p)) p w) = text_of (m_name (the (mount_ops s p)) p (world s))" if "p \<in> set (vfs_mounts s)" for p
  proof -
    have "p \<noteq> m" using c(4) that by blast
    moreover obtain ops nm x where "mount_ops s p = Some ops" "\<And>w'. mount_tail w' = mount_tail (world s) \<Longrightarrow> m_name ops p w' = nm @ 0 # x"
      using c(1) \<open>p \<in> set (vfs_mounts s)\<close> unfolding names_ok_def by blast
    ultimately show ?thesis using tail by (simp add: s'_def)
  qed
  have "find (\<lambda>p. text_of (m_name (the (mount_ops s p)) p (world s)) = INITRD) (vfs_mounts s) = None"
    using c(1,2) unfolding mount_called_def names_ok_def
    by (metis (no_types, lifting) find_Some_iff nth_mem not_None_eq option.simps(5))
  then have "find (\<lambda>p. text_of (m_name (the (mount_ops s' p)) p w) = INITRD) (vfs_mounts s) = None"
    using same by (simp add: find_None_iff)
  moreover have "text_of (m_name initrd_ops m w) = INITRD"
    using text_of_append [OF INITRD_ok(1), of "[]"] by (simp add: initrd_ops_def INITRD_ok(3))
  moreover have "find P (xs @ [m]) = (if P m then Some m else None)" if "find P xs = None" for P and xs :: "nat list"
    using that by (induction xs) (auto split: if_splits)
  ultimately have called: "mount_called s' INITRD = m" by (simp add: mount_called_def s'_def)
  then have "initrd_base s' = base" by (simp add: initrd_base_def s'_def w_def)
  moreover have "nodes_at (kernel_memory w) base [base] [t]" by (rule tree) (use assms(2) in \<open>simp add: in_memory_def w_def\<close>)
  ultimately show ?thesis unfolding run initdisk_def using names called c(3,5)
    by (simp add: s'_def less_Suc_eq) (auto simp: w_def less_Suc_eq)
qed

section \<open>What callers see\<close>

lemma initdisk_small:
  assumes "initdisk t s" and "path_fits INITRD cs" and "initrd_view t cs = Some (File c)"
  shows "length c \<le> 0xFFFFFFFF"
proof -
  obtain nm where u: "tree_at t cs = Some (SafFile nm c)" using initrd_viewD [OF assms(3)] by blast
  obtain q m where "nodes_at m (initrd_base s) [q] [SafFile nm c]"
    using initrd_find_tree [of cs _ _ "initrd_base s" t "[]"] tree_at_not_below [OF u] u assms(1,2)
    by (fastforce simp: initdisk_def path_fits_def)
  from nodes_at_fileD(3) [OF this] show ?thesis by simp
qed

text \<open>
  C37. For every folder whose names fit and whose archive stays below 4 GB, saf-make writes an archive
  of exactly the size it computed before, without leaving its buffer; and wherever that archive is in memory when the
  kernel mounts it, opening, reading and closing the path of any file of the folder delivers
  exactly the bytes of the file.
\<close>

theorem packed_files_load:
  assumes "packable ts" and "288 + 8 * length ts + nodes_size ts < 0x100000000"
  shows "\<exists>img. saf_make ts = Inr img \<and> length img = calculate_size ts + 288 + 8 * length ts \<and>
    (\<forall>(s :: 'a fs_scheme vfs) base cs c. can_mount s \<and> in_memory img base s \<and> path_fits INITRD cs \<and>
       initrd_view (SafDir [] ts) cs = Some (File c) \<longrightarrow>
       (\<exists>s'. load_file (disk_open INITRD) file_size vfs_read vfs_close cs (mount_initrd base s) = Inr (c, s')))"
proof -
  obtain img where img: "saf_make ts = Inr img" "length img = 288 + 8 * length ts + nodes_size ts"
    "\<And>M base. bytes_at base (length img) M = img \<Longrightarrow> base + length img < 0x100000000 \<Longrightarrow> 0 < base \<Longrightarrow> nodes_at M base [base] [SafDir [] ts]"
    using saf_make_ok [OF assms] by blast
  have "\<exists>s'. load_file (disk_open INITRD) file_size vfs_read vfs_close cs (mount_initrd base s) = Inr (c, s')"
    if "can_mount s" "in_memory img base s" "path_fits INITRD cs" "initrd_view (SafDir [] ts) cs = Some (File c)"
    for s :: "'a fs_scheme vfs" and base cs c
  proof -
    have D: "initdisk (SafDir [] ts) (mount_initrd base s)"
      by (rule mount_initrd_disk [OF that(1,2)]) (use img(3) that(2) in \<open>simp add: in_memory_def\<close>)
    from initrd_files.load_file_ok [OF D _ that(3,4) initdisk_small [OF D that(3,4)]] show ?thesis by blast
  qed
  then show ?thesis using img(1,2) assms(2) by (auto simp: calculate_size_def calculate_from_eq)
qed

text \<open>A kernel that has mounted nothing yet, with an archive at an address.\<close>

definition booted :: "nat \<Rightarrow> u8 list \<Rightarrow> fs vfs" where
  "booted base img = \<lparr>vfs_mounts = [], mount_ops = (\<lambda>_. None),
     world = \<lparr>kernel_memory = put_bytes base img (\<lambda>_. 0), files = (\<lambda>_. None), next_obj = 1, mount_data = (\<lambda>_. 0),
              mount_tail = (\<lambda>_. [])\<rparr>\<rparr>"

lemma booted_ready: "can_mount (booted base img)" "0 < base \<Longrightarrow> base + length img < 0x100000000 \<Longrightarrow> in_memory img base (booted base img)"
  by (simp_all add: booted_def can_mount_def names_ok_def mount_called_def in_memory_def put_bytes_same)

definition sample_folder :: "saf_tree list" where
  "sample_folder = [SafDir [0x62, 0x69, 0x6E] [SafFile [0x73, 0x68] [1, 2, 3], SafFile [0x6C, 0x73] []], SafFile [0x61] [9]]"

lemma sample_path: "path_fits INITRD [[0x42, 0x69, 0x6E], [0x73, 0x68]]" "path_fits INITRD [[0x62, 0x69, 0x6E]]"
    "path_fits INITRD [[0x61], [0x73]]"
  by (simp_all add: path_fits_def valid_name_def INITRD_def)

lemma sample_size: "packable sample_folder" "288 + 8 * length sample_folder + nodes_size sample_folder = 1500"
  by (simp_all add: sample_folder_def)

theorem packed_files_load_witness:
  "\<exists>img s'. saf_make sample_folder = Inr img \<and> length img = 1500 \<and>
     load_file (disk_open INITRD) file_size vfs_read vfs_close [[0x42, 0x69, 0x6E], [0x73, 0x68]]
       (mount_initrd 0x100000 (booted 0x100000 img)) = Inr ([1, 2, 3], s')"
proof -
  have size: "288 + 8 * length sample_folder + nodes_size sample_folder < 0x100000000" using sample_size(2) by simp
  obtain img where img: "saf_make sample_folder = Inr img" "length img = calculate_size sample_folder + 288 + 8 * length sample_folder"
    "\<And>(s :: fs vfs) base cs c. can_mount s \<Longrightarrow> in_memory img base s \<Longrightarrow> path_fits INITRD cs \<Longrightarrow>
       initrd_view (SafDir [] sample_folder) cs = Some (File c) \<Longrightarrow>
       \<exists>s'. load_file (disk_open INITRD) file_size vfs_read vfs_close cs (mount_initrd base s) = Inr (c, s')"
    using packed_files_load [OF sample_size(1) size, where 'a = unit] by blast
  have len: "length img = 1500" unfolding img(2) calculate_size_def by (simp add: sample_folder_def nodesize_def childcnt_def)
  have "initrd_view (SafDir [] sample_folder) [[0x42, 0x69, 0x6E], [0x73, 0x68]] = Some (File [1, 2, 3])"
    by (simp add: initrd_view_def sample_folder_def tree_child_def lower_def tolower_def isupper_def)
  then show ?thesis using img(1) len img(3) [OF booted_ready(1) booted_ready(2) sample_path(1)] by simp
qed

text \<open>What the driver answers for the entry of a folder.\<close>

definition entry_shown :: "int \<Rightarrow> saf_tree \<Rightarrow> dir_t" where
  "entry_shown i t = \<lparr>d_name = t_name t @ replicate (256 - length (t_name t)) 0, d_idx = i, is_none = False,
     d_type = (case t of SafDir nm cs \<Rightarrow> ENTRY_DIR | SafFile nm c \<Rightarrow> ENTRY_FILE)\<rparr>"

lemma entry_shown_eq: "entry_shown i t = \<lparr>d_name = t_name t @ replicate (256 - length (t_name t)) 0, d_idx = i, is_none = False,
    d_type = (if \<exists>nm cs. t = SafDir nm cs then ENTRY_DIR else ENTRY_FILE)\<rparr>"
  by (simp add: entry_shown_def split: saf_tree.split)

lemma node_name_shown:
  assumes "nodes_at m base [p] [t]" and "t_name t \<noteq> []"
  shows "strcpy (replicate 256 0) (saf_name p m) = Inr (t_name t @ replicate (256 - length (t_name t)) 0)"
    "(saf_flags p m = FLAG_ISFOLDER) = (\<exists>nm cs. t = SafDir nm cs)"
proof -
  obtain x where x: "saf_name p m = t_name t @ 0 # x" "cstring (t_name t)" using assms(1) by auto
  have "length (t_name t @ 0 # x) = 256" unfolding x(1) [symmetric] by (simp add: saf_name_def)
  then show "strcpy (replicate 256 0) (saf_name p m) = Inr (t_name t @ replicate (256 - length (t_name t)) 0)"
    unfolding x(1) by (subst strcpy_string [OF x(2) assms(2)]) simp_all
  show "(saf_flags p m = FLAG_ISFOLDER) = (\<exists>nm cs. t = SafDir nm cs)"
    using assms(1) by (cases t) (simp_all add: FLAG_ISFOLDER_def)
qed

lemma strcpy_path: "cstring p \<Longrightarrow> \<exists>d. strcpy (replicate (length p + 1) 0) (p @ 0 # 0 # x) = Inr d"
  by (cases "p = []") (simp_all add: strcpy_string)

lemma cstring_pathstr: "list_all valid_name cs \<Longrightarrow> cstring (pathstr cs)"
  by (induction cs) (simp_all add: valid_name_def)

lemma initrd_dir_at_ok:
  assumes "nodes_at (kernel_memory w) base [base] [t]" and "mount_data w m = base" and names: "list_all valid_name cs"
    and folder: "tree_at t cs = Some (SafDir nm us)" and small: "length us < 0x80000000" and idx: "0 \<le> idx" "idx < 0x80000000"
    and entry: "\<forall>u\<in>set us. t_name u \<noteq> []"
  shows "initrd_dir_at m idx (pathstr cs @ 0 # 0 # x) w =
    Inr (if nat idx < length us then entry_shown idx (us ! nat idx) else no_dir, w)"
proof -
  let ?m = "kernel_memory w"
  obtain q where q: "initrd_find (pathstr cs @ 0 # 0 # x) base base ?m = Inr q" "nodes_at ?m base [q] [SafDir nm us]"
    using initrd_find_tree [OF names assms(1), of "0 # x"] tree_at_not_below [OF folder] folder by auto
  note d = nodes_at_dirD [OF q(2)]
  have n: "unat (saf_num_children q ?m) = length us" using nodes_at_length [OF d(2)] by (simp add: saf_children_def)
  have le: "saf_num_children q ?m \<le> word_of_int idx \<longleftrightarrow> length us \<le> nat idx"
  proof -
    have "(word_of_int idx :: u64) = of_nat (nat idx)" using idx(1) by simp
    moreover have "nat idx < 0x80000000" using idx by simp
    ultimately have "unat (word_of_int idx :: u64) = nat idx" by (simp add: unat_of_nat)
    then show ?thesis using n by (simp add: word_le_nat_alt)
  qed
  obtain e where copy: "strcpy (replicate (length (pathstr cs) + 1) 0) (pathstr cs @ 0 # 0 # x) = Inr e"
    using strcpy_path [OF cstring_pathstr [OF names]] by blast
  have "nodes_at ?m base [saf_at base (saf_child q (nat idx) ?m)] [us ! nat idx]" if "nat idx < length us"
    using nodes_at_nth [OF d(2) that] that n by (simp add: saf_children_def)
  note found = this
  have run: "initrd_dir_at m idx (pathstr cs @ 0 # 0 # x) w = (if length us \<le> nat idx then Inr (no_dir, w)
      else let ch = saf_at base (saf_child q (nat idx) ?m)
        in kbind (strcpy (replicate 256 0) (saf_name ch ?m)) (\<lambda>nm. Inr (\<lparr>d_name = nm, d_idx = idx, is_none = False,
             d_type = (if saf_flags ch ?m = FLAG_ISFOLDER then ENTRY_DIR else ENTRY_FILE)\<rparr>, w)))"
    using copy d(3) strlen_string [OF cstring_pathstr [OF names], of "0 # x"]
    by (simp only: initrd_dir_at_def Let_def assms(2) kbind_Inr q(1) d(1) le if_False simp_thms not_False_eq_True)
  show ?thesis
  proof (cases "nat idx < length us")
    case True
    note shown = node_name_shown [OF found [OF True] entry [rule_format, OF nth_mem [OF True]]]
    have "\<not> length us \<le> nat idx" using True by simp
    with True run show ?thesis by (simp only: Let_def shown kbind_Inr entry_shown_eq if_True if_False)
  qed (use run in simp)
qed

text \<open>
  C38. Listing a folder of the initial disk entry by entry delivers the names and kinds of exactly
  its entries, in the order of the archive, then the end, and changes nothing.
\<close>

theorem initrd_lists_folder:
  assumes "initdisk t s" and "path_fits INITRD cs" and "tree_at t cs = Some (SafDir nm us)" and "length us < 0x80000000"
    and "\<forall>u\<in>set us. t_name u \<noteq> []" and "idx < 0x80000000"
  shows "vfs_dir_at (int idx) (disk_path INITRD cs) s =
    Inr (if idx < length us then entry_shown (int idx) (us ! idx) else no_dir, s)"
proof -
  have d: "names_ok s" "mount_called s INITRD \<noteq> 0" "mount_ops s (mount_called s INITRD) = Some initrd_ops"
      "nodes_at (kernel_memory (world s)) (initrd_base s) [initrd_base s] [t]" using assms(1) by (auto simp: initdisk_def)
  obtain k where fm: "vfs_find_mount (disk_path INITRD cs) s = Inr (mount_called s INITRD, pathstr cs @ 0 # 0 # replicate k 0)"
    using find_mount_path [OF d(1) INITRD_ok(1,2) assms(2), of "[]"] by (auto simp: disk_path_def)
  have "initrd_dir_at (mount_called s INITRD) (int idx) (pathstr cs @ 0 # 0 # replicate k 0) (world s) =
      Inr (if idx < length us then entry_shown (int idx) (us ! idx) else no_dir, world s)"
    using initrd_dir_at_ok [OF d(4) _ _ assms(3,4), of "mount_called s INITRD" "int idx"] assms(2,5,6)
    by (simp add: initrd_base_def path_fits_def)
  then show ?thesis using fm d(2,3)
    by (simp add: vfs_dir_at_def mount_for_def deref_def tested_def initrd_ops_sel on_world'_def)
qed

text \<open>
  C39. Opening a path that goes on behind a file of the initial disk does not report that nothing was found: an
  assertion fails, which stops the kernel.
\<close>

theorem initrd_below_file_panics:
  assumes "initdisk t s" and "path_fits INITRD cs" and "below_file t cs"
  shows "vfs_open (disk_path INITRD cs) flags s = Inl (AssertFailed ''current->flags == FLAG_ISFOLDER'')"
proof -
  have d: "names_ok s" "mount_called s INITRD \<noteq> 0" "mount_ops s (mount_called s INITRD) = Some initrd_ops"
      "nodes_at (kernel_memory (world s)) (initrd_base s) [initrd_base s] [t]" using assms(1) by (auto simp: initdisk_def)
  obtain k where fm: "vfs_find_mount (disk_path INITRD cs) s = Inr (mount_called s INITRD, pathstr cs @ 0 # 0 # replicate k 0)"
    using find_mount_path [OF d(1) INITRD_ok(1,2) assms(2), of "[]"] by (auto simp: disk_path_def)
  show ?thesis using fm d(2,3) initrd_find_tree [OF _ d(4), of cs "0 # replicate k 0"] assms(2,3)
    by (simp add: vfs_open_def deref_def tested_def initrd_ops_sel initrd_open_def Let_def path_fits_def flip: initrd_base_def)
qed

text \<open>The sample folder, packed and mounted.\<close>

definition sample_mounted :: "fs vfs" where
  "sample_mounted = mount_initrd 0x100000 (booted 0x100000 (case saf_make sample_folder of Inl e \<Rightarrow> [] | Inr img \<Rightarrow> img))"

lemma sample_mounted_disk: "initdisk (SafDir [] sample_folder) sample_mounted"
proof -
  have "288 + 8 * length sample_folder + nodes_size sample_folder < 0x100000000" using sample_size(2) by simp
  from saf_make_ok [OF sample_size(1) this] obtain img where img: "saf_make sample_folder = Inr img" "length img = 1500"
    "\<And>M base. bytes_at base (length img) M = img \<Longrightarrow> base + length img < 0x100000000 \<Longrightarrow> 0 < base \<Longrightarrow>
       nodes_at M base [base] [SafDir [] sample_folder]"
    using sample_size(2) by auto
  show ?thesis unfolding sample_mounted_def img(1) sum.case
    by (rule mount_initrd_disk [OF booted_ready]) (use img(2,3) in simp_all)
qed

theorem initrd_lists_folder_witness:
  "vfs_dir_at 1 (disk_path INITRD [[0x62, 0x69, 0x6E]]) sample_mounted =
    Inr (\<lparr>d_name = [0x6C, 0x73] @ replicate 254 0, d_idx = 1, is_none = False, d_type = ENTRY_FILE\<rparr>, sample_mounted)"
proof -
  have "tree_at (SafDir [] sample_folder) [[0x62, 0x69, 0x6E]] =
      Some (SafDir [0x62, 0x69, 0x6E] [SafFile [0x73, 0x68] [1, 2, 3], SafFile [0x6C, 0x73] []])"
    by (simp add: sample_folder_def tree_child_def lower_def tolower_def isupper_def)
  from initrd_lists_folder [OF sample_mounted_disk sample_path(2) this, of 1] show ?thesis
    by (auto simp: entry_shown_def)
qed

theorem initrd_below_file_panics_witness:
  "vfs_open (disk_path INITRD [[0x61], [0x73]]) 0 sample_mounted = Inl (AssertFailed ''current->flags == FLAG_ISFOLDER'')"
  by (rule initrd_below_file_panics [OF sample_mounted_disk sample_path(3)])
    (simp add: sample_folder_def tree_child_def lower_def tolower_def isupper_def)

end
