(* ===== verification/Dns.thy ===== *)
theory Dns
  imports Bytes Kstring
begin

text \<open>
  The resolver library \<open>user/libraries/libdns/dns.c\<close>: names in packets, the cache, requests, replies
  and the search for the address of a domain.

  A packet is the whole buffer it was received into and the number of bytes received; positions in it are numbers.
  Strings are their texts, without the zero at the end. The cache that is not created yet is the empty one. Sockets are the
  record \<open>sockets\<close>, an argument: what the calls of the C library do to the world outside. A reply may make the resolver
  look for another name, and that need not end.
\<close>

section \<open>Packets\<close>

definition DNS_MAX_NAME :: nat where "DNS_MAX_NAME = 255"
definition DNS_MAX_JUMPS :: nat where "DNS_MAX_JUMPS = 10"
definition DNS_MAX_DELEGATION_DEPTH :: nat where "DNS_MAX_DELEGATION_DEPTH = 5"
definition DNS_MAX_NS :: nat where "DNS_MAX_NS = 4"

text \<open>The sizes of \<open>dnshdr_t\<close>, \<open>dns_question_t\<close> and \<open>dns_resource_t\<close>.\<close>

definition DNS_HEADER :: nat where "DNS_HEADER = 12"
definition DNS_QUESTION :: nat where "DNS_QUESTION = 4"
definition DNS_RESOURCE :: nat where "DNS_RESOURCE = 10"

definition byte_at :: "u8 list \<Rightarrow> nat \<Rightarrow> u8 kres" where
  "byte_at packet i = (if i < length packet then Inr (packet ! i) else Inl OutOfBounds)"

text \<open>A field of 16 bits in network order.\<close>

definition be16_at :: "u8 list \<Rightarrow> nat \<Rightarrow> nat kres" where
  "be16_at packet i = kbind (byte_at packet i) (\<lambda>hi. kbind (byte_at packet (i + 1)) (\<lambda>lo. Inr (unat hi * 256 + unat lo)))"

text \<open>An address, stored as it comes.\<close>

definition ip_at :: "u8 list \<Rightarrow> nat \<Rightarrow> u32 kres" where
  "ip_at packet i = (if i + 4 \<le> length packet then Inr (ucast (field i 4 packet)) else Inl OutOfBounds)"

section \<open>Names\<close>

text \<open>
  The bytes of a label; \<open>None\<close> when the name gets too long. The number of bytes consumed counts only up to the first jump.
\<close>

fun copy_label :: "u8 list \<Rightarrow> bool \<Rightarrow> nat \<Rightarrow> nat \<Rightarrow> u8 list \<Rightarrow> nat \<Rightarrow> (u8 list option \<times> nat) kres" where
  "copy_label packet jumped reader 0 nm consumed = Inr (Some nm, consumed)"
| "copy_label packet jumped reader (Suc n) nm consumed =
     (if DNS_MAX_NAME \<le> length nm then Inr (None, consumed)
      else kbind (byte_at packet reader) (\<lambda>c.
        copy_label packet jumped (reader + 1) n (nm @ [c]) (if jumped then consumed else consumed + 1)))"

text \<open>The last dot becomes the end of the string.\<close>

definition name_end :: "u8 list \<Rightarrow> bool \<Rightarrow> nat \<Rightarrow> u8 list option \<times> nat" where
  "name_end nm jumped consumed = (Some (text_of (butlast nm)), if jumped then consumed else consumed + 1)"

function read_name_loop :: "u8 list \<Rightarrow> nat \<Rightarrow> nat \<Rightarrow> u8 list \<Rightarrow> bool \<Rightarrow> nat \<Rightarrow> nat \<Rightarrow> (u8 list option \<times> nat) kres" where
  "read_name_loop packet packet_end reader nm jumped jump_count consumed =
     (if reader < packet_end then
        kbind (byte_at packet reader) (\<lambda>b.
        if b = 0 then Inr (name_end nm jumped consumed)
        else if b AND 0xC0 = 0xC0 then
          if packet_end \<le> reader + 1 then Inr (None, consumed)
          else
            kbind (byte_at packet (reader + 1)) (\<lambda>lo.
            if DNS_MAX_JUMPS < jump_count + 1 then Inr (None, consumed)
            else read_name_loop packet packet_end (unat (b AND 0x3F) * 256 + unat lo) nm True (jump_count + 1)
                   (if consumed = 0 then 2 else consumed))
        else
          let len = unat b; consumed1 = (if jumped then consumed else consumed + 1)
          in if 63 < len \<or> packet_end < reader + 1 + len then Inr (None, consumed1)
             else
               kbind (copy_label packet jumped (reader + 1) len nm consumed1) (\<lambda>(copied, consumed2).
               case copied of
                 None \<Rightarrow> Inr (None, consumed2)
               | Some nm1 \<Rightarrow>
                   if length nm1 < DNS_MAX_NAME + 1 then
                     read_name_loop packet packet_end (reader + 1 + len) (nm1 @ [0x2E]) jumped jump_count consumed2
                   else Inl OutOfBounds))
      else Inr (name_end nm jumped consumed))"
  by pat_completeness auto
termination
  by (relation "measures [\<lambda>(packet, packet_end, reader, nm, jumped, jump_count, consumed). DNS_MAX_JUMPS - jump_count,
      \<lambda>(packet, packet_end, reader, nm, jumped, jump_count, consumed). packet_end - reader]") auto

declare read_name_loop.simps [simp del]

definition dns_read_name :: "u8 list \<Rightarrow> nat \<Rightarrow> nat \<Rightarrow> (u8 list option \<times> nat) kres" where
  "dns_read_name packet packet_end reader = read_name_loop packet packet_end reader [] False 0 0"

function dns_skip_name :: "u8 list \<Rightarrow> nat \<Rightarrow> nat \<Rightarrow> nat \<Rightarrow> nat kres" where
  "dns_skip_name packet packet_end reader count =
     (if reader < packet_end then
        kbind (byte_at packet reader) (\<lambda>b.
        if b = 0 then Inr (count + 1)
        else if b AND 0xC0 = 0xC0 then Inr (count + 2)
        else dns_skip_name packet packet_end (reader + unat b + 1) (count + unat b + 1))
      else Inr (count + 1))"
  by pat_completeness auto
termination
  by (relation "measure (\<lambda>(packet, packet_end, reader, count). packet_end - reader)") auto

declare dns_skip_name.simps [simp del]

text \<open>The labels of a domain, each behind its length.\<close>

definition put_at :: "nat \<Rightarrow> u8 \<Rightarrow> u8 list \<Rightarrow> u8 list kres" where
  "put_at i c buf = (if i < length buf then Inr (buf[i := c]) else Inl OutOfBounds)"

fun hostname_loop :: "u8 list \<Rightarrow> nat \<Rightarrow> nat \<Rightarrow> u8 \<Rightarrow> u8 list \<Rightarrow> u8 list kres" where
  "hostname_loop [] lbl dst_pos curr_len buf = put_at dst_pos 0 buf"
| "hostname_loop (c # src) lbl dst_pos curr_len buf =
     (if c = 0x2E \<or> c = 0 then kbind (put_at lbl curr_len buf) (hostname_loop src dst_pos (dst_pos + 1) 0)
      else kbind (put_at dst_pos c buf) (hostname_loop src lbl (dst_pos + 1) (curr_len + 1)))"

definition dns_resolv_domain_to_hostname :: "u8 list \<Rightarrow> u8 list \<Rightarrow> u8 list kres" where
  "dns_resolv_domain_to_hostname dst_hostname src_domain = hostname_loop (src_domain @ [0]) 0 1 0 dst_hostname"

section \<open>The cache\<close>

type_synonym dns_entries = "(u8 list \<times> u32) list"

text \<open>The address, 0 when there is none, and the index of the entry.\<close>

definition dns_cache_lookup :: "dns_entries \<Rightarrow> u8 list \<Rightarrow> u32 \<times> nat option" where
  "dns_cache_lookup cache domain =
     (case find (\<lambda>i. fst (cache ! i) = domain) [0..<length cache] of
        None \<Rightarrow> (0, None)
      | Some i \<Rightarrow> (snd (cache ! i), Some i))"

definition dns_cache_add :: "u8 list \<Rightarrow> u32 \<Rightarrow> dns_entries \<Rightarrow> dns_entries kres" where
  "dns_cache_add domain ip cache =
     (case dns_cache_lookup cache domain of (cached, index) \<Rightarrow>
        if cached \<noteq> 0 then Inr (cache[the index := (domain, ip)])
        else if length domain < DNS_MAX_NAME + 1 then Inr (cache @ [(domain, ip)])
        else Inl OutOfBounds)"

section \<open>Requests\<close>

text \<open>
  The request for a name, built in a buffer of 1024 zeros: number, options, one question; the name; type and class 1.
\<close>

definition dns_request :: "u8 list \<Rightarrow> u8 list kres" where
  "dns_request nm =
     kbind (dns_resolv_domain_to_hostname (replicate (1024 - DNS_HEADER) 0) nm) (\<lambda>q.
     let n = length (text_of q) + 1
     in if n + DNS_QUESTION \<le> length q then
          Inr ([0x0F, 0xF0, 0x01, 0, 0, 1, 0, 0, 0, 0, 0, 0] @ take n q @ [0, 1, 0, 1])
        else Inl OutOfBounds)"

text \<open>
  What the resolver needs of sockets: the server in the configuration of the card, a UDP socket to port 53 of an address,
  sending, receiving up to a number of bytes (the result, negative for an error, and the buffer as it is
  afterwards) and closing.
\<close>

record 'w sockets =
  nic_dns_ip :: "'w \<Rightarrow> (u32 \<times> 'w) kres"
  sync_connect :: "u32 \<Rightarrow> 'w \<Rightarrow> (nat \<times> 'w) kres"
  sock_send :: "nat \<Rightarrow> u8 list \<Rightarrow> 'w \<Rightarrow> 'w kres"
  sync_recv :: "nat \<Rightarrow> nat \<Rightarrow> 'w \<Rightarrow> ((int \<times> u8 list) \<times> 'w) kres"
  sync_disconnect :: "nat \<Rightarrow> 'w \<Rightarrow> 'w kres"

record 'w resolver =
  dns_cache :: dns_entries
  dns_server :: u32
  outside :: 'w

definition dns_send_request :: "'w sockets \<Rightarrow> nat \<Rightarrow> u8 list \<Rightarrow> 'w \<Rightarrow> 'w kres" where
  "dns_send_request N socket nm w = kbind (dns_request nm) (\<lambda>bs. sock_send N socket bs w)"

text \<open>One question to a server and its reply.\<close>

definition dns_ask :: "'w sockets \<Rightarrow> u32 \<Rightarrow> u8 list \<Rightarrow> 'w resolver \<Rightarrow> ((int \<times> u8 list) \<times> 'w resolver) kres" where
  "dns_ask N server nm s =
     kbind (sync_connect N server (outside s)) (\<lambda>(socket, w1).
     kbind (dns_send_request N socket nm w1) (\<lambda>w2.
     kbind (sync_recv N socket 1024 w2) (\<lambda>(reply, w3).
     kbind (sync_disconnect N socket w3) (\<lambda>w4. Inr (reply, s\<lparr>outside := w4\<rparr>)))))"

definition find_server :: "'w sockets \<Rightarrow> 'w resolver \<Rightarrow> 'w resolver kres" where
  "find_server N s =
     (if dns_server s = 0 then kbind (nic_dns_ip N (outside s)) (\<lambda>(ip, w). Inr (s\<lparr>dns_server := ip, outside := w\<rparr>))
      else Inr s)"

section \<open>Replies\<close>

text \<open>Type, class and length of the data of a resource.\<close>

definition resource_at :: "u8 list \<Rightarrow> nat \<Rightarrow> (nat \<times> nat \<times> nat) kres" where
  "resource_at packet i =
     kbind (be16_at packet i) (\<lambda>typ. kbind (be16_at packet (i + 2)) (\<lambda>cls.
     kbind (be16_at packet (i + 8)) (\<lambda>data_len. Inr (typ, cls, data_len))))"

fun skip_questions :: "u8 list \<Rightarrow> nat \<Rightarrow> nat \<Rightarrow> nat \<Rightarrow> nat kres" where
  "skip_questions packet packet_end 0 reader = Inr reader"
| "skip_questions packet packet_end (Suc n) reader =
     kbind (dns_skip_name packet packet_end reader 0) (\<lambda>skip.
       skip_questions packet packet_end n (reader + skip + DNS_QUESTION))"

text \<open>The first answer that counts: an address, another name, or none and where the answers end.\<close>

datatype answer = Address u32 | Alias "u8 list option" | NoAnswer nat

fun scan_answers :: "u8 list \<Rightarrow> nat \<Rightarrow> nat \<Rightarrow> nat \<Rightarrow> answer kres" where
  "scan_answers packet packet_end 0 reader = Inr (NoAnswer reader)"
| "scan_answers packet packet_end (Suc n) reader =
     kbind (dns_skip_name packet packet_end reader 0) (\<lambda>name_skip.
     kbind (resource_at packet (reader + name_skip)) (\<lambda>(typ, cls, data_len).
     let reader1 = reader + name_skip + DNS_RESOURCE
     in if typ = 1 \<and> cls = 1 \<and> data_len = 4 then kbind (ip_at packet reader1) (\<lambda>ip. Inr (Address ip))
        else if typ = 5 \<and> cls = 1 then kbind (dns_read_name packet packet_end reader1) (\<lambda>(cname, _). Inr (Alias cname))
        else scan_answers packet packet_end n (reader1 + data_len)))"

text \<open>The first four names of servers.\<close>

fun scan_authority :: "u8 list \<Rightarrow> nat \<Rightarrow> nat \<Rightarrow> nat \<Rightarrow> u8 list list \<Rightarrow> (u8 list list \<times> nat) kres" where
  "scan_authority packet packet_end 0 reader ns_names = Inr (ns_names, reader)"
| "scan_authority packet packet_end (Suc n) reader ns_names =
     kbind (dns_skip_name packet packet_end reader 0) (\<lambda>name_skip.
     kbind (resource_at packet (reader + name_skip)) (\<lambda>(typ, cls, data_len).
     let reader1 = reader + name_skip + DNS_RESOURCE
     in if typ = 2 \<and> cls = 1 \<and> length ns_names < DNS_MAX_NS then
          kbind (dns_read_name packet packet_end reader1) (\<lambda>(ns, _).
            scan_authority packet packet_end n (reader1 + data_len)
              (case ns of None \<Rightarrow> ns_names | Some d \<Rightarrow> ns_names @ [d]))
        else scan_authority packet packet_end n (reader1 + data_len) ns_names))"

text \<open>Addresses that come along go to the cache; one without a readable name is added under a null pointer.\<close>

fun scan_additional :: "u8 list \<Rightarrow> nat \<Rightarrow> nat \<Rightarrow> nat \<Rightarrow> dns_entries \<Rightarrow> dns_entries kres" where
  "scan_additional packet packet_end 0 reader cache = Inr cache"
| "scan_additional packet packet_end (Suc n) reader cache =
     kbind (dns_read_name packet packet_end reader) (\<lambda>(cname, consumed).
     kbind (resource_at packet (reader + consumed)) (\<lambda>(typ, cls, data_len).
     let reader1 = reader + consumed + DNS_RESOURCE
     in if typ = 1 \<and> cls = 1 \<and> data_len = 4 then
          kbind (ip_at packet reader1) (\<lambda>addr.
          case cname of
            None \<Rightarrow> Inl BadPointer
          | Some d \<Rightarrow> kbind (dns_cache_add d addr cache) (scan_additional packet packet_end n (reader1 + data_len)))
        else scan_additional packet packet_end n (reader1 + data_len) cache))"

section \<open>The search\<close>

definition dns_cleanup :: "u8 list \<Rightarrow> u32 \<times> 'w resolver \<Rightarrow> (u32 \<times> 'w resolver) kres" where
  "dns_cleanup domain = (\<lambda>(result, s).
     if result \<noteq> 0 then kbind (dns_cache_add domain result (dns_cache s)) (\<lambda>c. Inr (result, s\<lparr>dns_cache := c\<rparr>))
     else Inr (0, s))"

text \<open>The two functions that call each other: \<open>dns_resolve_A\<close> and \<open>dns_parse_packet\<close>.\<close>

datatype dns_call = ResolveA "u8 list" | ParsePacket "u8 list" nat "u8 list" nat

partial_function (option) dns_run :: "'w sockets \<Rightarrow> dns_call \<Rightarrow> 'w resolver \<Rightarrow> (u32 \<times> 'w resolver) kloop" where
  "dns_run N c s =
     (case c of
        ResolveA domain \<Rightarrow>
          let cached = fst (dns_cache_lookup (dns_cache s) domain)
          in if cached \<noteq> 0 then Some (Inr (cached, s))
             else
               kseq (Some (find_server N s)) (\<lambda>s1.
               kseq (Some (dns_ask N (dns_server s1) domain s1)) (\<lambda>((size, buffer), s2).
               if size \<le> 0 then Some (Inr (0, s2))
               else dns_run N (ParsePacket buffer (nat size) domain 0) s2))
      | ParsePacket packet packet_end domain depth \<Rightarrow>
          if DNS_MAX_DELEGATION_DEPTH < depth then Some (Inr (0, s))
          else
            kseq (Some (be16_at packet 4)) (\<lambda>qdcount.
            kseq (Some (be16_at packet 6)) (\<lambda>ancount.
            kseq (Some (skip_questions packet packet_end qdcount DNS_HEADER)) (\<lambda>reader.
            kseq (Some (scan_answers packet packet_end ancount reader)) (\<lambda>a.
            case a of
              Address ip \<Rightarrow> Some (dns_cleanup domain (ip, s))
            | Alias None \<Rightarrow> Some (dns_cleanup domain (0, s))
            | Alias (Some cname) \<Rightarrow> kseq (dns_run N (ResolveA cname) s) (\<lambda>r. Some (dns_cleanup domain r))
            | NoAnswer reader1 \<Rightarrow>
                kseq (Some (be16_at packet 8)) (\<lambda>nscount.
                kseq (Some (be16_at packet 10)) (\<lambda>arcount.
                kseq (Some (scan_authority packet packet_end nscount reader1 [])) (\<lambda>(ns_names, reader2).
                kseq (Some (scan_additional packet packet_end arcount reader2 (dns_cache s))) (\<lambda>cache.
                if ns_names = [] then Some (dns_cleanup domain (0, s\<lparr>dns_cache := cache\<rparr>))
                else
                  kseq (dns_run N (ResolveA (hd ns_names)) (s\<lparr>dns_cache := cache\<rparr>)) (\<lambda>(ns_ip, s1).
                  if ns_ip = 0 then Some (dns_cleanup domain (0, s1))
                  else
                    kseq (Some (dns_ask N ns_ip domain s1)) (\<lambda>((size, buffer), s2).
                    kseq (dns_run N (ParsePacket buffer (nat size) domain (depth + 1)) s2) (\<lambda>r.
                      Some (dns_cleanup domain r)))))))))))))"

definition dns_resolve_A :: "'w sockets \<Rightarrow> u8 list \<Rightarrow> 'w resolver \<Rightarrow> (u32 \<times> 'w resolver) kloop" where
  "dns_resolve_A N domain = dns_run N (ResolveA domain)"

definition dns_parse_packet :: "'w sockets \<Rightarrow> u8 list \<Rightarrow> nat \<Rightarrow> u8 list \<Rightarrow> nat \<Rightarrow> 'w resolver \<Rightarrow> (u32 \<times> 'w resolver) kloop" where
  "dns_parse_packet N packet packet_end domain depth = dns_run N (ParsePacket packet packet_end domain depth)"

end
