(* ===== verification/Dns_Names.thy ===== *)
theory Dns_Names
  imports Dns
begin

text \<open>
  Names of the resolver library: reading one stays in the packet and in its buffer, reading what was written gives the name
  back, and pointers to earlier names are followed.
\<close>

section \<open>Bounds\<close>

lemma byte_at_in: "i < length packet \<Longrightarrow> byte_at packet i = Inr (packet ! i)"
  by (simp add: byte_at_def)

lemma copy_label_in:
  assumes "reader + n \<le> length packet" and "length nm \<le> DNS_MAX_NAME"
  shows "\<exists>copied k. copy_label packet jumped reader n nm consumed = Inr (copied, k) \<and>
    (\<forall>nm1. copied = Some nm1 \<longrightarrow> length nm1 = length nm + n \<and> length nm1 \<le> DNS_MAX_NAME)"
  using assms
proof (induction n arbitrary: reader nm consumed)
  case (Suc n)
  show ?case
  proof (cases "DNS_MAX_NAME \<le> length nm")
    case False
    then show ?thesis using Suc.IH [of "reader + 1" "nm @ [packet ! reader]"] Suc.prems by (simp add: byte_at_in)
  qed simp
qed simp

lemma copy_label_full: "DNS_MAX_NAME \<le> length nm \<Longrightarrow> 0 < n \<Longrightarrow> copy_label packet jumped reader n nm consumed = Inr (None, consumed)"
  by (cases n) simp_all

text \<open>The loop that reads a name, case by case.\<close>

lemma read_name_out:
  "packet_end \<le> reader \<Longrightarrow> read_name_loop packet packet_end reader nm jumped jump_count consumed = Inr (name_end nm jumped consumed)"
  by (simp add: read_name_loop.simps)

lemma read_name_zero:
  assumes "reader < packet_end" and "packet_end \<le> length packet" and "packet ! reader = 0"
  shows "read_name_loop packet packet_end reader nm jumped jump_count consumed = Inr (name_end nm jumped consumed)"
  using assms by (subst read_name_loop.simps) (simp add: byte_at_in)

lemma read_name_jump:
  assumes "reader < packet_end" and "packet_end \<le> length packet" and "packet ! reader AND 0xC0 = 0xC0"
  shows "read_name_loop packet packet_end reader nm jumped jump_count consumed =
    (if packet_end \<le> reader + 1 \<or> DNS_MAX_JUMPS < jump_count + 1 then Inr (None, consumed)
     else read_name_loop packet packet_end (unat (packet ! reader AND 0x3F) * 256 + unat (packet ! (reader + 1))) nm True (jump_count + 1)
       (if consumed = 0 then 2 else consumed))"
proof -
  have "packet ! reader \<noteq> 0" using assms(3) by auto
  then show ?thesis using assms by (subst read_name_loop.simps) (auto simp: byte_at_def)
qed

lemma read_name_label:
  assumes "reader < packet_end" and "packet_end \<le> length packet" and "packet ! reader \<noteq> 0" and "packet ! reader AND 0xC0 \<noteq> 0xC0"
  shows "read_name_loop packet packet_end reader nm jumped jump_count consumed =
    (let len = unat (packet ! reader); consumed1 = (if jumped then consumed else consumed + 1)
     in if 63 < len \<or> packet_end < reader + 1 + len then Inr (None, consumed1)
        else kbind (copy_label packet jumped (reader + 1) len nm consumed1) (\<lambda>(copied, consumed2).
          case copied of
            None \<Rightarrow> Inr (None, consumed2)
          | Some nm1 \<Rightarrow>
              if length nm1 < DNS_MAX_NAME + 1 then
                read_name_loop packet packet_end (reader + 1 + len) (nm1 @ [0x2E]) jumped jump_count consumed2
              else Inl OutOfBounds))"
  using assms by (subst read_name_loop.simps) (simp add: byte_at_in)

text \<open>What every result of the loop has.\<close>

definition name_result :: "(u8 list option \<times> nat) kres \<Rightarrow> bool" where
  "name_result r \<longleftrightarrow> (\<exists>nm k. r = Inr (nm, k) \<and> (\<forall>x. nm = Some x \<longrightarrow> length x \<le> DNS_MAX_NAME))"

lemma name_result_None [simp]: "name_result (Inr (None, k))"
  by (simp add: name_result_def)

lemma name_result_end: "length nm \<le> DNS_MAX_NAME + 1 \<Longrightarrow> name_result (Inr (name_end nm jumped k))"
  using length_takeWhile_le [of "\<lambda>c. c \<noteq> 0" "butlast nm"] by (simp add: name_result_def name_end_def text_of_def)

lemma read_name_loop_in:
  assumes "packet_end \<le> length packet" and "length nm \<le> DNS_MAX_NAME + 1"
  shows "name_result (read_name_loop packet packet_end reader nm jumped jump_count consumed)"
  using assms
proof (induction packet packet_end reader nm jumped jump_count consumed rule: read_name_loop.induct)
  case (1 packet packet_end reader nm jumped jump_count consumed)
  let ?b = "packet ! reader"
  consider "packet_end \<le> reader" | "reader < packet_end" "?b = 0" | "reader < packet_end" "?b AND 0xC0 = 0xC0"
    | "reader < packet_end" "?b \<noteq> 0" "?b AND 0xC0 \<noteq> 0xC0" by force
  then show ?case
  proof cases
    case 3
    then have "?b \<noteq> 0" by auto
    have b: "byte_at packet reader = Inr ?b" using 3(1) 1(3) by (simp add: byte_at_in)
    have lo: "byte_at packet (reader + 1) = Inr (packet ! (reader + 1))" if "\<not> packet_end \<le> reader + 1"
      using that 1(3) by (simp add: byte_at_in)
    show ?thesis unfolding read_name_jump [OF 3(1) 1(3) 3(2)]
      using 1(1) [OF 3(1) b \<open>?b \<noteq> 0\<close> 3(2) _ lo] 1(3,4) by auto
  next
    case 4
    define len where "len = unat ?b"
    define k1 where "k1 = (if jumped then consumed else consumed + 1)"
    have b: "byte_at packet reader = Inr ?b" using 4(1) 1(3) by (simp add: byte_at_in)
    have "name_result (kbind (copy_label packet jumped (reader + 1) len nm k1) (\<lambda>(copied, consumed2).
        case copied of None \<Rightarrow> Inr (None, consumed2)
        | Some nm1 \<Rightarrow> if length nm1 < DNS_MAX_NAME + 1
            then read_name_loop packet packet_end (reader + 1 + len) (nm1 @ [0x2E]) jumped jump_count consumed2 else Inl OutOfBounds))"
      if fits: "\<not> (63 < len \<or> packet_end < reader + 1 + len)"
    proof (cases "length nm \<le> DNS_MAX_NAME")
      case True
      have "reader + 1 + len \<le> length packet" using fits 1(3) by simp
      from copy_label_in [OF this True] obtain copied k where
        c: "copy_label packet jumped (reader + 1) len nm k1 = Inr (copied, k)"
          "\<And>nm1. copied = Some nm1 \<Longrightarrow> length nm1 \<le> DNS_MAX_NAME" by blast
      show ?thesis unfolding c(1)
        using 1(2) [OF 4(1) b 4(2,3) refl refl, folded len_def k1_def, OF fits c(1) refl _ _ 1(3)] c(2)
        by (cases copied) (simp_all add: less_Suc_eq_le)
    next
      case False
      then have "copy_label packet jumped (reader + 1) len nm k1 = Inr (None, k1)"
        using 4(2) by (intro copy_label_full) (simp_all add: len_def unat_gt_0)
      then show ?thesis by simp
    qed
    then show ?thesis unfolding read_name_label [OF 4(1) 1(3) 4(2,3)] Let_def len_def k1_def by simp
  qed (use 1(3,4) in \<open>simp_all add: read_name_out read_name_zero name_result_end\<close>)
qed

lemma dns_skip_name_in: "packet_end \<le> length packet \<Longrightarrow> \<exists>k. dns_skip_name packet packet_end reader count = Inr k"
proof (induction packet packet_end reader count rule: dns_skip_name.induct)
  case (1 packet packet_end reader count)
  show ?case
  proof (cases "reader < packet_end")
    case True
    then have b: "byte_at packet reader = Inr (packet ! reader)" using 1(2) by (simp add: byte_at_in)
    show ?thesis using 1(1) [OF True b] 1(2) True b by (subst dns_skip_name.simps) auto
  qed (simp add: dns_skip_name.simps)
qed

text \<open>
  C23. Names of any packet can be read. Wherever reading or skipping a name starts in a packet with any bytes, pointers that run in
  circles and lengths beyond the end included, it ends, looks only at bytes received and writes only to its
  buffer; the name has at most 255 characters.
\<close>

theorem dns_names_safe:
  assumes "packet_end \<le> length packet"
  shows "(\<exists>nm consumed. dns_read_name packet packet_end reader = Inr (nm, consumed) \<and> (\<forall>x. nm = Some x \<longrightarrow> length x \<le> 255)) \<and>
    (\<exists>skip. dns_skip_name packet packet_end reader 0 = Inr skip)"
  using read_name_loop_in [OF assms, of "[]" reader False 0 0, unfolded name_result_def] dns_skip_name_in [OF assms, of reader 0]
  by (simp add: dns_read_name_def DNS_MAX_NAME_def)

text \<open>A pointer to itself.\<close>

theorem dns_names_safe_witness:
  "(\<exists>nm consumed. dns_read_name [0xC0, 0] 2 0 = Inr (nm, consumed) \<and> (\<forall>x. nm = Some x \<longrightarrow> length x \<le> 255)) \<and>
    (\<exists>skip. dns_skip_name [0xC0, 0] 2 0 0 = Inr skip)"
  by (rule dns_names_safe) simp

section \<open>Domains\<close>

text \<open>A domain is the list of its labels; \<open>text_with\<close> has a dot behind each label, \<open>domain_text\<close> only between them.\<close>

definition label_ok :: "u8 list \<Rightarrow> bool" where
  "label_ok l \<longleftrightarrow> 0 < length l \<and> length l \<le> 63 \<and> 0 \<notin> set l \<and> 0x2E \<notin> set l"

definition dotted :: "u8 list list \<Rightarrow> u8 list" where
  "dotted ls = concat (map (\<lambda>l. l @ [0x2E]) ls)"

definition domain_text :: "u8 list list \<Rightarrow> u8 list" where
  "domain_text ls = butlast (dotted ls)"

text \<open>The bytes of labels in a packet, without the end.\<close>

definition label_bytes :: "u8 list list \<Rightarrow> u8 list" where
  "label_bytes ls = concat (map (\<lambda>l. of_nat (length l) # l) ls)"

lemma domain_simps [simp]:
  "dotted [] = []" "dotted (l # ls) = l @ 0x2E # dotted ls" "dotted (ls @ ls') = dotted ls @ dotted ls'"
  "label_bytes [] = []" "label_bytes (l # ls) = of_nat (length l) # l @ label_bytes ls"
  by (simp_all add: dotted_def label_bytes_def)

lemma length_label_bytes: "length (label_bytes ls) = length (dotted ls)"
  by (induction ls) simp_all

lemma domain_text_cons: "ls \<noteq> [] \<Longrightarrow> domain_text (l # ls) = l @ 0x2E # domain_text ls"
  by (cases ls) (simp_all add: domain_text_def butlast_append)

lemma domain_text_one: "domain_text [l] = l"
  by (simp add: domain_text_def butlast_append)

lemma domain_text_cstring: "list_all label_ok ls \<Longrightarrow> cstring (domain_text ls)"
proof -
  assume "list_all label_ok ls"
  then have "cstring (dotted ls)" by (induction ls) (auto simp: label_ok_def cstring_def)
  then show ?thesis unfolding cstring_def domain_text_def by (meson in_set_butlastD)
qed

lemma text_of_cstring: "cstring s \<Longrightarrow> text_of s = s"
  by (induction s) (simp_all add: text_of_def)

lemma label_length:
  assumes "label_ok l"
  shows "unat (of_nat (length l) :: u8) = length l" "(of_nat (length l) :: u8) \<noteq> 0"
    "(of_nat (length l) :: u8) AND 0xC0 \<noteq> 0xC0"
proof -
  have l: "0 < length l" "length l < 64" using assms by (auto simp: label_ok_def)
  then show u: "unat (of_nat (length l) :: u8) = length l" by (simp add: unat_of_nat)
  then show "(of_nat (length l) :: u8) \<noteq> 0" using l(1) by (metis unat_0 less_irrefl)
  have "unat ((of_nat (length l) :: u8) AND 0xC0) \<le> length l" using u word_and_le2 [of "of_nat (length l) :: u8" "0xC0"]
    by (simp add: word_le_nat_alt)
  then show "(of_nat (length l) :: u8) AND 0xC0 \<noteq> 0xC0" using l(2) by auto
qed

section \<open>Reading labels\<close>

lemma drop_here: "drop reader packet = x # rest \<Longrightarrow> reader < length packet \<and> packet ! reader = x \<and> drop (Suc reader) packet = rest"
proof -
  assume d: "drop reader packet = x # rest"
  then have "reader < length packet" by (metis drop_all linorder_not_less list.distinct(1))
  with d Cons_nth_drop_Suc [OF this] show ?thesis by simp
qed

lemma copy_label_here:
  assumes "drop reader packet = l @ rest" and "length nm + length l \<le> DNS_MAX_NAME"
  shows "copy_label packet jumped reader (length l) nm consumed =
    Inr (Some (nm @ l), if jumped then consumed else consumed + length l)"
  using assms
proof (induction l arbitrary: reader nm consumed)
  case (Cons c l)
  have at: "reader < length packet" "packet ! reader = c" "drop (Suc reader) packet = l @ rest"
    using drop_here [of reader packet c "l @ rest"] Cons.prems(1) by simp_all
  then show ?case using Cons.IH [of "Suc reader" "nm @ [c]"] Cons.prems(2) by (simp add: byte_at_in)
qed simp

lemma drop_behind: "drop reader packet = xs @ rest \<Longrightarrow> drop (reader + length xs) packet = rest"
  by (metis add.commute append_eq_conv_conj drop_drop)

text \<open>Labels at \<open>reader\<close> are read and the loop goes on behind them.\<close>

lemma read_labels:
  assumes "packet_end \<le> length packet" and "list_all label_ok ls" and "drop reader packet = label_bytes ls @ rest"
    and "reader + length (label_bytes ls) \<le> packet_end" and "length (nm @ dotted ls) \<le> DNS_MAX_NAME + 1"
  shows "read_name_loop packet packet_end reader nm jumped jump_count consumed =
    read_name_loop packet packet_end (reader + length (label_bytes ls)) (nm @ dotted ls) jumped jump_count
      (if jumped then consumed else consumed + length (label_bytes ls))"
  using assms(2-)
proof (induction ls arbitrary: reader nm consumed)
  case (Cons l ls)
  have l: "label_ok l" using Cons.prems(1) by simp
  note len = label_length [OF l]
  have "drop reader packet = of_nat (length l) # l @ label_bytes ls @ rest" using Cons.prems(2) by simp
  from drop_here [OF this] have at: "packet ! reader = of_nat (length l)" "drop (reader + 1) packet = l @ label_bytes ls @ rest" by simp_all
  have inside: "reader < packet_end" "reader + 1 + length l \<le> packet_end" using Cons.prems(3) by simp_all
  have "copy_label packet jumped (reader + 1) (length l) nm k = Inr (Some (nm @ l), if jumped then k else k + length l)" for k
    using copy_label_here [OF at(2), of nm] Cons.prems(4) by simp
  moreover have "length l \<le> 63" using l by (simp add: label_ok_def)
  ultimately have "read_name_loop packet packet_end reader nm jumped jump_count consumed =
      read_name_loop packet packet_end (reader + 1 + length l) ((nm @ l) @ [0x2E]) jumped jump_count
        (if jumped then consumed else consumed + 1 + length l)"
    using inside Cons.prems(4) len(2,3) by (subst read_name_label [OF inside(1) assms(1)]) (simp_all add: at(1) len(1) Let_def)
  also have "\<dots> = read_name_loop packet packet_end (reader + 1 + length l + length (label_bytes ls)) (((nm @ l) @ [0x2E]) @ dotted ls) jumped jump_count
      (if jumped then if jumped then consumed else consumed + 1 + length l else (if jumped then consumed else consumed + 1 + length l) + length (label_bytes ls))"
    by (rule Cons.IH) (use Cons.prems drop_behind [OF at(2)] in simp_all)
  finally show ?case by (simp add: ac_simps)
qed simp

text \<open>The result for a name that ends at \<open>reader\<close>.\<close>

lemma read_end:
  assumes "packet_end \<le> length packet" and "reader < packet_end" and "packet ! reader = 0" and "list_all label_ok ls"
  shows "read_name_loop packet packet_end reader (dotted ls) jumped jump_count consumed =
    Inr (Some (domain_text ls), if jumped then consumed else consumed + 1)"
  using read_name_zero [OF assms(2,1,3)] text_of_cstring [OF domain_text_cstring [OF assms(4)]]
  by (simp add: name_end_def domain_text_def)

lemma dns_read_plain:
  assumes "packet_end \<le> length packet" and "list_all label_ok ls" and "drop reader packet = label_bytes ls @ 0 # rest"
    and "reader + length (label_bytes ls) < packet_end" and "length (dotted ls) \<le> 256"
  shows "dns_read_name packet packet_end reader = Inr (Some (domain_text ls), length (label_bytes ls) + 1)"
proof -
  have "packet ! (reader + length (label_bytes ls)) = 0" using drop_here [OF drop_behind [OF assms(3)]] by simp
  then show ?thesis using read_labels [OF assms(1-3), of "[]" False 0 0] assms(4,5)
      read_end [OF assms(1,4) _ assms(2), of False 0 "length (label_bytes ls)"]
    by (simp add: dns_read_name_def DNS_MAX_NAME_def)
qed

end
