(* ===== verification/Dns_Domains.thy ===== *)
theory Dns_Domains
  imports Dns_Names
begin

text \<open>Domains in packets: what is written for a domain, reading it back, and names that end in a pointer.\<close>

section \<open>Writing\<close>

lemma put_at_here: "i = length d \<Longrightarrow> put_at i c (d @ x # y) = Inr (d @ c # y)"
  by (simp add: put_at_def)

lemma hostname_label:
  assumes "0 \<notin> set l" and "0x2E \<notin> set l" and "dst_pos = length d + 1 + length m" and "lbl = length d"
  shows "hostname_loop (l @ src) lbl dst_pos curr_len (d @ x # m @ replicate (length l + j) 0) =
    hostname_loop src lbl (dst_pos + length l) (curr_len + of_nat (length l)) (d @ x # (m @ l) @ replicate j 0)"
  using assms(1-3)
proof (induction l arbitrary: dst_pos curr_len m)
  case (Cons c l)
  have "put_at dst_pos c ((d @ x # m) @ 0 # replicate (length l + j) 0) = Inr ((d @ x # m) @ c # replicate (length l + j) 0)"
    by (rule put_at_here) (use Cons.prems(3) in simp)
  then show ?case using Cons.IH [of "dst_pos + 1" "m @ [c]" "curr_len + 1"] Cons.prems by (simp add: ac_simps)
qed simp

lemma hostname_dot:
  assumes "c = 0x2E \<or> c = 0" and "dst_pos = length d + 1 + length m" and "lbl = length d"
  shows "hostname_loop (c # src) lbl dst_pos curr_len (d @ x # m @ replicate j 0) =
    hostname_loop src dst_pos (dst_pos + 1) 0 ((d @ curr_len # m) @ replicate j 0)"
  using assms put_at_here [of lbl d curr_len x "m @ replicate j 0"] by auto

lemma hostname_labels:
  assumes "ls \<noteq> []" and "list_all label_ok ls" and "length (label_bytes ls) < j"
  shows "hostname_loop (domain_text ls @ [0]) (length d) (length d + 1) 0 (d @ replicate (Suc j) 0) =
    Inr (d @ label_bytes ls @ replicate (Suc j - length (label_bytes ls)) 0)"
  using assms
proof (induction ls arbitrary: d j)
  case (Cons l ls)
  have l: "0 \<notin> set l" "0x2E \<notin> set l" using Cons.prems(2) by (auto simp: label_ok_def)
  define k where "k = j - length l"
  have j: "j = length l + k" "length (label_bytes ls) + 1 < k" using Cons.prems(3) by (auto simp: k_def)
  have step: "hostname_loop (l @ c # src) (length d) (length d + 1) 0 (d @ replicate (Suc j) 0) =
      hostname_loop src (length d + 1 + length l) (length d + 1 + length l + 1) 0 ((d @ of_nat (length l) # l) @ replicate k 0)"
    if "c = 0x2E \<or> c = 0" for c src
    using hostname_label [OF l, of "length d + 1" d "[]" "length d" "c # src" 0 0 k] hostname_dot [OF that, of _ d l "length d" src _ 0 k]
    by (simp add: j(1))
  show ?case
  proof (cases "ls = []")
    case True
    moreover obtain k' where "k = Suc (Suc k')" using j(2) by (cases k; cases "k - 1") auto
    ultimately show ?thesis using step [of 0 "[]"] j(2)
      by (simp add: domain_text_one put_at_def list_update_append j(1))
  next
    case False
    obtain k' where k': "k = Suc k'" using j(2) by (cases k) auto
    have "length (d @ of_nat (length l) # l) = length d + 1 + length l" by simp
    with Cons.IH [OF False, of k' "d @ of_nat (length l) # l"] step [of "0x2E" "domain_text ls @ [0]"] Cons.prems(2) j k' show ?thesis
      by (simp add: domain_text_cons [OF False] Suc_diff_le)
  qed
qed simp

lemma hostname_written:
  assumes "ls \<noteq> []" and "list_all label_ok ls" and "length (label_bytes ls) + 1 < n"
  shows "dns_resolv_domain_to_hostname (replicate n 0) (domain_text ls) =
    Inr (label_bytes ls @ 0 # replicate (n - length (label_bytes ls) - 1) 0)"
proof -
  have "n - length (label_bytes ls) = Suc (n - length (label_bytes ls) - 1)" using assms(3) by simp
  then have zeros: "replicate (n - length (label_bytes ls)) 0 = (0 :: u8) # replicate (n - length (label_bytes ls) - 1) 0"
    by (metis replicate_Suc)
  obtain j where "n = Suc j" "length (label_bytes ls) < j" using assms(3) by (cases n) auto
  then show ?thesis using hostname_labels [OF assms(1,2), of j "[]"] zeros by (simp add: dns_resolv_domain_to_hostname_def)
qed

text \<open>
  C22. A domain survives the way into a packet and back. What \<open>dns_resolv_domain_to_hostname\<close> writes into a zeroed buffer for a
  domain of labels of 1 to 63 characters, with at most 255 characters in all, is read back as the same domain by
  \<open>dns_read_name\<close> wherever the buffer stands in a packet, and all bytes of the name are consumed.
\<close>

theorem dns_name_roundtrip:
  assumes "ls \<noteq> []" and "list_all label_ok ls" and "length (domain_text ls) \<le> 255" and "length (domain_text ls) + 2 < n"
  shows "\<exists>q. dns_resolv_domain_to_hostname (replicate n 0) (domain_text ls) = Inr q \<and>
    (\<forall>pre post packet_end. length pre + length (domain_text ls) + 2 \<le> packet_end \<and> packet_end \<le> length (pre @ q @ post) \<longrightarrow>
      dns_read_name (pre @ q @ post) packet_end (length pre) = Inr (Some (domain_text ls), length (domain_text ls) + 2))"
proof -
  have "dotted ls \<noteq> []" using assms(1) by (cases ls) simp_all
  then have len: "length (label_bytes ls) = length (domain_text ls) + 1"
    unfolding length_label_bytes domain_text_def by simp
  have "length (dotted ls) \<le> 256" using len assms(3) by (simp add: length_label_bytes)
  then show ?thesis using hostname_written [OF assms(1,2), of n] assms(4) len
    by (auto intro!: dns_read_plain [OF _ assms(2), THEN trans])
qed

theorem dns_name_roundtrip_witness:
  "\<exists>q. dns_resolv_domain_to_hostname (replicate 1012 0) (domain_text [[0x6D, 0x6F], [0x64, 0x65]]) = Inr q \<and>
    dns_read_name (replicate 12 0 @ q @ []) 100 (length (replicate 12 (0 :: u8))) = Inr (Some [0x6D, 0x6F, 0x2E, 0x64, 0x65], 7)"
proof -
  have t: "domain_text [[0x6D, 0x6F], [0x64, 0x65]] = [0x6D, 0x6F, 0x2E, 0x64, 0x65]" by (simp add: domain_text_cons domain_text_one)
  from dns_name_roundtrip [of "[[0x6D, 0x6F], [0x64, 0x65]]" 1012] obtain q where q:
    "dns_resolv_domain_to_hostname (replicate 1012 0) (domain_text [[0x6D, 0x6F], [0x64, 0x65]]) = Inr q"
    "\<And>pre post packet_end. length pre + 7 \<le> packet_end \<Longrightarrow> packet_end \<le> length (pre @ q @ post) \<Longrightarrow>
      dns_read_name (pre @ q @ post) packet_end (length pre) = Inr (Some [0x6D, 0x6F, 0x2E, 0x64, 0x65], 7)"
    by (auto simp: t label_ok_def)
  have "length q = 1012" using q(1) hostname_written [of "[[0x6D, 0x6F], [0x64, 0x65]]" 1012] by (auto simp: label_ok_def)
  then show ?thesis using q(1) q(2) [of "replicate 12 0" 100 "[]"] by auto
qed

section \<open>Skipping\<close>

lemma skip_labels:
  assumes "packet_end \<le> length packet" and "list_all label_ok ls" and "drop reader packet = label_bytes ls @ rest"
    and "reader + length (label_bytes ls) \<le> packet_end"
  shows "dns_skip_name packet packet_end reader count =
    dns_skip_name packet packet_end (reader + length (label_bytes ls)) (count + length (label_bytes ls))"
  using assms(2-)
proof (induction ls arbitrary: reader count)
  case (Cons l ls)
  have "label_ok l" using Cons.prems(1) by simp
  note len = label_length [OF this]
  have h: "packet ! reader = of_nat (length l)" "drop (Suc reader) packet = l @ label_bytes ls @ rest"
    using drop_here [of reader packet "of_nat (length l)" "l @ label_bytes ls @ rest"] Cons.prems(2) by simp_all
  have "dns_skip_name packet packet_end reader count = dns_skip_name packet packet_end (reader + length l + 1) (count + length l + 1)"
    using Cons.prems(3) assms(1) len by (subst dns_skip_name.simps) (simp add: byte_at_in h(1))
  then show ?case using Cons.IH [of "reader + length l + 1" "count + length l + 1"] Cons.prems(1,3) drop_behind [OF h(2)]
    by (simp add: ac_simps)
qed simp

lemma skip_plain:
  assumes "packet_end \<le> length packet" and "list_all label_ok ls" and "drop reader packet = label_bytes ls @ 0 # rest"
    and "reader + length (label_bytes ls) < packet_end"
  shows "dns_skip_name packet packet_end reader 0 = Inr (length (label_bytes ls) + 1)"
proof -
  have "packet ! (reader + length (label_bytes ls)) = 0" using drop_here [OF drop_behind [OF assms(3)]] by simp
  then show ?thesis using skip_labels [OF assms(1-3), of 0] assms(1,4)
    by (simp add: dns_skip_name.simps [of packet packet_end "reader + length (label_bytes ls)"] byte_at_in)
qed

section \<open>Pointers\<close>

text \<open>
  The reader of a name that ends in a pointer reports two bytes too few. When labels are followed by a pointer to the rest of the
  name, as most names of real replies are, \<open>dns_read_name\<close> puts the name together, but the length it reports is that of the
  labels; \<open>dns_skip_name\<close> counts the pointer too. Only for a name that is nothing but a pointer do they agree.
\<close>

theorem dns_compressed_name:
  assumes pe: "packet_end \<le> length packet" and ok: "list_all label_ok (ls @ ls')" and fits: "length (domain_text (ls @ ls')) \<le> 255"
    and here: "drop reader packet = label_bytes ls @ hi # lo # rest" and pointer: "hi AND 0xC0 = 0xC0"
    and inside: "reader + length (label_bytes ls) + 2 \<le> packet_end" and off: "off = unat (hi AND 0x3F) * 256 + unat lo"
    and there: "drop off packet = label_bytes ls' @ 0 # rest'" and inside': "off + length (label_bytes ls') < packet_end"
  shows "dns_read_name packet packet_end reader = Inr (Some (domain_text (ls @ ls')), if ls = [] then 2 else length (label_bytes ls)) \<and>
    dns_skip_name packet packet_end reader 0 = Inr (length (label_bytes ls) + 2)"
proof
  let ?r = "reader + length (label_bytes ls)" and ?k = "length (label_bytes ls)"
  have D: "length (dotted (ls @ ls')) \<le> DNS_MAX_NAME + 1" using fits by (simp add: domain_text_def DNS_MAX_NAME_def)
  have behind: "packet ! ?r = hi" "packet ! Suc ?r = lo"
    using drop_here [OF drop_behind [OF here]] drop_here [of "Suc ?r" packet lo rest] by auto
  have k0: "?k = 0 \<longleftrightarrow> ls = []" by (cases ls) simp_all
  have end': "packet ! (off + length (label_bytes ls')) = 0" using drop_here [OF drop_behind [OF there]] by simp
  have "dns_read_name packet packet_end reader = read_name_loop packet packet_end ?r (dotted ls) False 0 ?k"
    using read_labels [OF pe, of ls reader "hi # lo # rest" "[]" False 0 0] ok here inside D by (simp add: dns_read_name_def)
  also have "\<dots> = read_name_loop packet packet_end off (dotted ls) True 1 (if ?k = 0 then 2 else ?k)"
    using read_name_jump [of ?r packet_end packet "dotted ls" False 0 ?k] pe pointer inside by (simp add: behind off DNS_MAX_JUMPS_def del: length_0_conv)
  also have "\<dots> = read_name_loop packet packet_end (off + length (label_bytes ls')) (dotted (ls @ ls')) True 1 (if ?k = 0 then 2 else ?k)"
    using read_labels [OF pe, of ls' off "0 # rest'" "dotted ls" True 1] ok there inside' D by simp
  also have "\<dots> = Inr (Some (domain_text (ls @ ls')), if ls = [] then 2 else ?k)"
    using read_end [OF pe inside' end' ok, of True 1] k0 by simp
  finally show "dns_read_name packet packet_end reader = Inr (Some (domain_text (ls @ ls')), if ls = [] then 2 else ?k)" .
next
  have at: "packet ! (reader + length (label_bytes ls)) = hi" using drop_here [OF drop_behind [OF here]] by simp
  have "hi \<noteq> 0" using pointer by auto
  then show "dns_skip_name packet packet_end reader 0 = Inr (length (label_bytes ls) + 2)"
    using skip_labels [OF pe, of ls reader "hi # lo # rest" 0] ok here inside pe pointer
    by (simp add: dns_skip_name.simps [of packet packet_end "reader + length (label_bytes ls)"] at byte_at_in)
qed

text \<open>The name \<open>mo\<close> followed by a pointer to \<open>de\<close>: 5 bytes, of which 3 are reported.\<close>

theorem dns_compressed_name_witness:
  "let packet = replicate 12 0 @ [2, 0x64, 0x65, 0, 2, 0x6D, 0x6F, 0xC0, 12] in
    dns_read_name packet 21 16 = Inr (Some [0x6D, 0x6F, 0x2E, 0x64, 0x65], 3) \<and> dns_skip_name packet 21 16 0 = Inr 5"
proof -
  have t: "domain_text ([[0x6D, 0x6F]] @ [[0x64, 0x65]]) = [0x6D, 0x6F, 0x2E, 0x64, 0x65]" by (simp add: domain_text_cons domain_text_one)
  define packet :: "u8 list" where "packet = replicate 12 0 @ [2, 0x64, 0x65, 0, 2, 0x6D, 0x6F, 0xC0, 12]"
  have len: "21 \<le> length packet" and here: "drop 16 packet = label_bytes [[0x6D, 0x6F]] @ 0xC0 # 12 # []"
      and there: "drop 12 packet = label_bytes [[0x64, 0x65]] @ 0 # drop 16 packet"
    unfolding packet_def by code_simp+
  have ok: "list_all label_ok ([[0x6D, 0x6F]] @ [[0x64, 0x65]])" by (simp add: label_ok_def)
  have pointer: "(0xC0 :: u8) AND 0xC0 = 0xC0" "(12 :: nat) = unat (0xC0 AND 0x3F :: u8) * 256 + unat (12 :: u8)" by simp_all
  have "dns_read_name packet 21 16 = Inr (Some [0x6D, 0x6F, 0x2E, 0x64, 0x65], if [[0x6D, 0x6F :: u8]] = [] then 2 else length (label_bytes [[0x6D, 0x6F]])) \<and>
      dns_skip_name packet 21 16 0 = Inr (length (label_bytes [[0x6D, 0x6F]]) + 2)"
    by (rule dns_compressed_name [OF len ok _ here pointer(1) _ pointer(2) there, unfolded t]) simp_all
  then show ?thesis unfolding Let_def packet_def [symmetric] by simp
qed

end
