(* ===== verification/Dns_Search.thy ===== *)
theory Dns_Search
  imports Dns_Domains
begin

text \<open>The search for an address: what one reply makes the resolver do, and a search that does not end.\<close>

section \<open>A reply with one answer\<close>

lemma be16_here: "drop i packet = a # b # rest \<Longrightarrow> be16_at packet i = Inr (unat a * 256 + unat b)"
  using drop_here [of i packet a "b # rest"] drop_here [of "Suc i" packet b rest] by (simp add: be16_at_def byte_at_in)

lemma ip_here: "drop i packet = le_bytes 4 (ucast ip) @ rest \<Longrightarrow> ip_at packet i = Inr ip"
proof -
  assume d: "drop i packet = le_bytes 4 (ucast ip) @ rest"
  have "length (drop i packet) = 4 + length rest" unfolding d by simp
  then have "i + 4 \<le> length packet" by simp
  moreover have "ucast (take_bit 32 (ucast ip :: u64)) = ip"
    by (rule bit_word_eqI) (simp add: bit_simps)
  ultimately show ?thesis using d by (simp add: ip_at_def field_def le_val_bytes)
qed

text \<open>
  The reply to the question for the address of a domain: one answer of a type with some data, its name a pointer to
  the question. \<open>start\<close> is the number and the options, 4 bytes.
\<close>

definition dns_reply :: "u8 list \<Rightarrow> u8 list list \<Rightarrow> u8 \<Rightarrow> u8 list \<Rightarrow> u8 list \<Rightarrow> u8 list" where
  "dns_reply start ls typ ttl data = start @ [0, 1, 0, 1, 0, 0, 0, 0] @ label_bytes ls @ [0] @ [0, 1, 0, 1] @
     [0xC0, 12, 0, typ, 0, 1] @ ttl @ [0, of_nat (length data)] @ data"

lemma reply_parts:
  assumes "length start = 4" and "length ttl = 4" and "packet = dns_reply start ls typ ttl data @ rest"
  shows "drop 4 packet = 0 # 1 # 0 # 1 # drop 8 packet" and "drop 12 packet = label_bytes ls @ 0 # drop (length (label_bytes ls) + 13) packet"
    and "drop (length (label_bytes ls) + 17) packet = 0xC0 # 12 # 0 # typ # 0 # 1 # ttl @ 0 # of_nat (length data) # data @ rest"
proof -
  let ?q = "start @ [0, 1, 0, 1, 0, 0, 0, 0]" and ?a = "[0xC0, 12, 0, typ, 0, 1] @ ttl @ [0, of_nat (length data)] @ data @ rest"
  have whole: "packet = start @ 0 # 1 # 0 # 1 # [0, 0, 0, 0] @ label_bytes ls @ [0, 0, 1, 0, 1] @ ?a"
    and whole': "packet = ?q @ label_bytes ls @ 0 # [0, 1, 0, 1] @ ?a"
    and whole'': "packet = (?q @ label_bytes ls @ [0, 0, 1, 0, 1]) @ ?a"
    unfolding assms(3) dns_reply_def by simp_all
  have len: "length ?q = 12" "length (?q @ label_bytes ls @ [0, 0, 1, 0, 1]) = length (label_bytes ls) + 17" using assms(1) by simp_all
  have d: "drop (length xs) (xs @ ys) = ys" for xs ys :: "u8 list" by simp
  show "drop 4 packet = 0 # 1 # 0 # 1 # drop 8 packet" unfolding whole using assms(1) by simp
  show "drop (length (label_bytes ls) + 17) packet = 0xC0 # 12 # 0 # typ # 0 # 1 # ttl @ 0 # of_nat (length data) # data @ rest"
    unfolding whole'' using d [of "?q @ label_bytes ls @ [0, 0, 1, 0, 1]" ?a] unfolding len(2) by simp
  have "drop 12 packet = label_bytes ls @ 0 # [0, 1, 0, 1] @ ?a" unfolding whole' using d [of ?q] unfolding len(1) by simp
  moreover from this have "drop (length (label_bytes ls) + 13) packet = [0, 1, 0, 1] @ ?a"
    using drop_here [OF drop_behind [of 12 packet "label_bytes ls" "0 # [0, 1, 0, 1] @ ?a"]] by (simp add: ac_simps)
  ultimately show "drop 12 packet = label_bytes ls @ 0 # drop (length (label_bytes ls) + 13) packet" by simp
qed

lemma reply_parsed:
  assumes "length start = 4" and "length ttl = 4" and "list_all label_ok ls" and "length data < 256"
    and r: "reply = dns_reply start ls typ ttl data"
  shows "be16_at (reply @ rest) 4 = Inr 1" and "be16_at (reply @ rest) 6 = Inr 1"
    and "skip_questions (reply @ rest) (length reply) 1 DNS_HEADER = Inr (length (label_bytes ls) + 17)"
    and "dns_skip_name (reply @ rest) (length reply) (length (label_bytes ls) + 17) 0 = Inr 2"
    and "resource_at (reply @ rest) (length (label_bytes ls) + 19) = Inr (unat typ, 1, length data)"
    and "drop (length (label_bytes ls) + 29) (reply @ rest) = data @ rest"
proof -
  let ?p = "reply @ rest" and ?k = "length (label_bytes ls)"
  note parts = reply_parts [OF assms(1,2), of "?p" ls "typ" data rest, unfolded r, OF refl, folded r]
  have len: "length reply = ?k + 29 + length data" using assms(1,2) by (simp add: r dns_reply_def)
  show "be16_at ?p 4 = Inr 1" using be16_here [OF parts(1)] by simp
  have "drop 6 ?p = drop 2 (drop 4 ?p)" by (simp del: drop_append)
  also have "\<dots> = 0 # 1 # drop 8 ?p" unfolding parts(1) by simp
  finally show "be16_at ?p 6 = Inr 1" using be16_here by fastforce
  have "dns_skip_name ?p (length reply) 12 0 = Inr (?k + 1)" using skip_plain [OF _ assms(3) parts(2)] len by simp
  then show "skip_questions ?p (length reply) 1 DNS_HEADER = Inr (?k + 17)"
    by (simp add: DNS_HEADER_def DNS_QUESTION_def)
  have a: "drop (?k + 17 + n) ?p = drop n (0xC0 # 12 # 0 # typ # 0 # 1 # ttl @ 0 # of_nat (length data) # data @ rest)" for n
    using parts(3) by (metis add.commute drop_drop)
  have b: "?p ! (?k + 17) = 0xC0" "?k + 17 < length ?p" "?k + 17 < length reply" using drop_here [OF parts(3)] len by simp_all
  show "dns_skip_name ?p (length reply) (?k + 17) 0 = Inr 2"
    by (subst dns_skip_name.simps) (simp only: b byte_at_in kbind_Inr if_True, simp)
  have t: "drop (?k + 19) ?p = 0 # typ # drop (?k + 21) ?p" "drop (?k + 21) ?p = 0 # 1 # drop (?k + 23) ?p"
      "drop (?k + 27) ?p = 0 # of_nat (length data) # data @ rest"
    using a [of 2] a [of 4] a [of 6] a [of 10] assms(2) by (simp_all add: ac_simps)
  show "resource_at ?p (?k + 19) = Inr (unat typ, 1, length data)"
    using be16_here [OF t(1)] be16_here [OF t(2)] be16_here [OF t(3)] assms(4) by (simp add: resource_at_def ac_simps unat_of_nat)
  show "drop (?k + 29) ?p = data @ rest" using a [of 12] assms(2) by (simp add: ac_simps)
qed

lemma reply_address:
  assumes "length start = 4" and "length ttl = 4" and "list_all label_ok ls" and r: "reply = dns_reply start ls 1 ttl (le_bytes 4 (ucast ip))"
  shows "dns_parse_packet N (reply @ rest) (length reply) domain 0 s = Some (dns_cleanup domain (ip, s))"
proof -
  note p = reply_parsed [OF assms(1-3) _ r, of rest]
  have "ip_at (reply @ rest) (length (label_bytes ls) + 29) = Inr ip" by (rule ip_here) (rule p(6), simp)
  then have "scan_answers (reply @ rest) (length reply) 1 (length (label_bytes ls) + 17) = Inr (Address ip)"
    using p(4,5) by (simp add: DNS_RESOURCE_def ac_simps)
  then show ?thesis using p(1-3) by (simp add: dns_parse_packet_def dns_run.simps [of N "ParsePacket _ _ _ _"])
qed

lemma alias_scanned:
  assumes "length start = 4" and "length ttl = 4" and "list_all label_ok ls" and "length (domain_text ls) \<le> 255"
    and r: "reply = dns_reply start ls 5 ttl [0xC0, 12]"
  shows "scan_answers (reply @ rest) (length reply) 1 (length (label_bytes ls) + 17) = Inr (Alias (Some (domain_text ls)))"
proof -
  let ?k = "length (label_bytes ls)"
  note p = reply_parsed [OF assms(1-3) _ r, of rest]
  have len: "length reply = ?k + 31" using assms(1,2) by (simp add: r dns_reply_def)
  have five: "unat (5 :: u8) = 5" by code_simp
  have "dns_read_name (reply @ rest) (length reply) (?k + 29) = Inr (Some (domain_text ([] @ ls)), 2)"
    using dns_compressed_name [of "length reply" "reply @ rest" "[]" ls "?k + 29" "0xC0" 12 rest 12, OF _ _ _ _ _ _ _ reply_parts(2) [OF assms(1,2)]]
      assms(3,4) p(6) len r by simp
  then show ?thesis using p(4) p(5) [unfolded five] by (simp add: DNS_RESOURCE_def ac_simps)
qed

section \<open>Asking a server\<close>

definition dns_question_bytes :: "u8 list list \<Rightarrow> u8 list" where
  "dns_question_bytes ls = [0x0F, 0xF0, 0x01, 0, 0, 1, 0, 0, 0, 0, 0, 0] @ label_bytes ls @ [0] @ [0, 1, 0, 1]"

lemma label_bytes_cstring: "list_all label_ok ls \<Longrightarrow> cstring (label_bytes ls)"
  by (induction ls) (auto simp: cstring_def label_length label_ok_def)

lemma dns_request_written:
  assumes "ls \<noteq> []" and "list_all label_ok ls" and "length (domain_text ls) \<le> 255"
  shows "dns_request (domain_text ls) = Inr (dns_question_bytes ls)"
proof -
  let ?z = "replicate (1024 - DNS_HEADER - length (label_bytes ls) - 1) 0 :: u8 list"
  have len: "length (label_bytes ls) \<le> 256" using assms(3) by (simp add: length_label_bytes domain_text_def)
  have "text_of (label_bytes ls @ 0 # ?z) = label_bytes ls" by (rule text_of_append [OF label_bytes_cstring [OF assms(2)]])
  then show ?thesis using hostname_written [OF assms(1,2), of "1024 - DNS_HEADER"] len
    by (simp add: dns_request_def dns_question_bytes_def DNS_HEADER_def DNS_QUESTION_def Let_def)
qed

text \<open>The question for a domain, sent to a server, brings a reply; behind it the buffer may hold anything.\<close>

definition replies :: "'w sockets \<Rightarrow> u32 \<Rightarrow> u8 list list \<Rightarrow> u8 list \<Rightarrow> 'w \<Rightarrow> 'w \<Rightarrow> bool" where
  "replies N server ls reply w w' \<longleftrightarrow> (\<exists>k w1 w2 w3 rest. sync_connect N server w = Inr (k, w1) \<and>
     sock_send N k (dns_question_bytes ls) w1 = Inr w2 \<and>
     sync_recv N k 1024 w2 = Inr ((int (length reply), reply @ rest), w3) \<and> sync_disconnect N k w3 = Inr w')"

lemma dns_ask_replies:
  assumes "ls \<noteq> []" and "list_all label_ok ls" and "length (domain_text ls) \<le> 255" and "replies N server ls reply (outside s) w"
  shows "\<exists>rest. dns_ask N server (domain_text ls) s = Inr ((int (length reply), reply @ rest), s\<lparr>outside := w\<rparr>)"
  using assms(4) dns_request_written [OF assms(1-3)] by (auto simp: replies_def dns_ask_def dns_send_request_def)

lemma not_cached: "d \<notin> fst ` set cache \<Longrightarrow> dns_cache_lookup cache d = (0, None)"
  by (auto simp: dns_cache_lookup_def find_None_iff split: option.split)

lemma find_behind: "find P xs = None \<Longrightarrow> P x \<Longrightarrow> find P (xs @ [x]) = Some x"
  by (induction xs) (auto split: if_splits)

lemma cached_behind: "d \<notin> fst ` set cache \<Longrightarrow> dns_cache_lookup (cache @ [(d, ip)]) d = (ip, Some (length cache))"
proof -
  assume d: "d \<notin> fst ` set cache"
  have "find (\<lambda>i. fst ((cache @ [(d, ip)]) ! i) = d) [0..<length cache] = None"
    using d by (auto simp: find_None_iff nth_append)
  then have "find (\<lambda>i. fst ((cache @ [(d, ip)]) ! i) = d) [0..<length (cache @ [(d, ip)])] = Some (length cache)"
    by (simp add: find_behind)
  then show ?thesis by (simp add: dns_cache_lookup_def)
qed

lemma resolve_asks:
  assumes "domain_text ls \<notin> fst ` set (dns_cache s)" and "dns_server s \<noteq> 0"
    and "dns_ask N (dns_server s) (domain_text ls) s = Inr ((int (length reply), reply @ rest), s')" and "reply \<noteq> []"
  shows "dns_run N (ResolveA (domain_text ls)) s = dns_run N (ParsePacket (reply @ rest) (length reply) (domain_text ls) 0) s'"
  using assms not_cached [OF assms(1)] by (simp add: dns_run.simps [of N "ResolveA _"] find_server_def)

text \<open>
  C21. A domain is resolved to the address its server replies, and then remembered. For a domain that is not in the cache
  the resolver sends the question to its server; when the reply has the address as its answer, that address is the result
  and goes to the cache, and the next search returns it without a word to the server.
\<close>

theorem dns_resolves:
  assumes ls: "ls \<noteq> []" "list_all label_ok ls" "length (domain_text ls) \<le> 255" and new: "domain_text ls \<notin> fst ` set (dns_cache s)"
    and server: "dns_server s \<noteq> 0" and ip: "ip \<noteq> 0" and len: "length start = 4" "length ttl = 4"
    and reply: "replies N (dns_server s) ls (dns_reply start ls 1 ttl (le_bytes 4 (ucast ip))) (outside s) w"
  shows "\<exists>s'. dns_resolve_A N (domain_text ls) s = Some (Inr (ip, s')) \<and>
    s' = s\<lparr>outside := w, dns_cache := dns_cache s @ [(domain_text ls, ip)]\<rparr> \<and>
    dns_resolve_A N (domain_text ls) s' = Some (Inr (ip, s'))"
proof -
  let ?r = "dns_reply start ls 1 ttl (le_bytes 4 (ucast ip))" and ?d = "domain_text ls"
  obtain rest where ask: "dns_ask N (dns_server s) ?d s = Inr ((int (length ?r), ?r @ rest), s\<lparr>outside := w\<rparr>)"
    using dns_ask_replies [OF ls reply] by blast
  have "dns_resolve_A N ?d s = Some (dns_cleanup ?d (ip, s\<lparr>outside := w\<rparr>))"
    using resolve_asks [OF new server ask] reply_address [OF len ls(2) refl, of N ip rest ?d]
    by (simp add: dns_resolve_A_def dns_parse_packet_def dns_reply_def)
  moreover have "dns_cleanup ?d (ip, s\<lparr>outside := w\<rparr>) = Inr (ip, s\<lparr>outside := w, dns_cache := dns_cache s @ [(?d, ip)]\<rparr>)"
    using ip ls(3) not_cached [OF new] by (simp add: dns_cleanup_def dns_cache_add_def DNS_MAX_NAME_def)
  moreover have "dns_resolve_A N ?d t = Some (Inr (ip, t))" if "dns_cache t = dns_cache s @ [(?d, ip)]" for t
    using ip cached_behind [OF new] by (simp add: dns_resolve_A_def dns_run.simps [of N "ResolveA _"] that)
  ultimately show ?thesis by simp
qed

text \<open>A server that always says the same.\<close>

definition one_reply :: "u8 list \<Rightarrow> unit sockets" where
  "one_reply reply = \<lparr>nic_dns_ip = (\<lambda>w. Inr (1, w)), sync_connect = (\<lambda>ip w. Inr (0, w)), sock_send = (\<lambda>k bs w. Inr w),
     sync_recv = (\<lambda>k n w. Inr ((int (length reply), reply @ replicate (n - length reply) 0), w)), sync_disconnect = (\<lambda>k w. Inr w)\<rparr>"

lemma one_reply: "replies (one_reply reply) server ls reply w w'"
  by (simp add: replies_def one_reply_def)

theorem dns_resolves_witness:
  "\<exists>s'. dns_resolve_A (one_reply (dns_reply [0x0F, 0xF0, 0x81, 0x80] [[0x61], [0x64, 0x65]] 1 [0, 0, 0, 60] (le_bytes 4 (ucast (0x0100007F :: u32)))))
      [0x61, 0x2E, 0x64, 0x65] \<lparr>dns_cache = [], dns_server = 1, outside = ()\<rparr> = Some (Inr (0x0100007F, s'))"
proof -
  have t: "domain_text [[0x61], [0x64, 0x65]] = [0x61, 0x2E, 0x64, 0x65]" by (simp add: domain_text_cons domain_text_one)
  show ?thesis
    using dns_resolves [of "[[0x61], [0x64, 0x65]]" "\<lparr>dns_cache = [], dns_server = 1, outside = ()\<rparr>" "0x0100007F", OF _ _ _ _ _ _ _ _ one_reply, unfolded t]
    by (simp add: label_ok_def)
qed

text \<open>
  C24. A domain that is an alias of itself is searched forever. When the server replies to the question for a domain that its canonical name is that
  domain again, \<open>dns_resolve_A\<close> does not return: \<open>DNS_MAX_CNAME_DEPTH\<close> is defined but not used.
\<close>

theorem dns_alias_loop_diverges:
  assumes ls: "ls \<noteq> []" "list_all label_ok ls" "length (domain_text ls) \<le> 255" and new: "domain_text ls \<notin> fst ` set (dns_cache s)"
    and server: "dns_server s \<noteq> 0" and len: "length start = 4" "length ttl = 4"
    and reply: "\<forall>w. \<exists>w'. replies N (dns_server s) ls (dns_reply start ls 5 ttl [0xC0, 12]) w w'"
  shows "dns_resolve_A N (domain_text ls) s = None"
proof -
  let ?r = "dns_reply start ls 5 ttl [0xC0, 12]" and ?d = "domain_text ls"
  define loops where "loops c t \<longleftrightarrow> (c = ResolveA ?d \<or> (\<exists>rest. c = ParsePacket (?r @ rest) (length ?r) ?d 0)) \<and>
    ?d \<notin> fst ` set (dns_cache t) \<and> dns_server t = dns_server s" for c and t :: "'a resolver"
  have never: "\<not> (M = N \<and> loops c t)" if "dns_run M c t = Some r" for M c t r
    using that
  proof (rule dns_run.raw_induct [where P = "\<lambda>M c t r. \<not> (M = N \<and> loops c t)", rotated], goal_cases)
    case (1 run M c t r)
    show ?case
    proof
      assume "M = N \<and> loops c t"
      then have M: "M = N" and c: "c = ResolveA ?d \<or> (\<exists>rest. c = ParsePacket (?r @ rest) (length ?r) ?d 0)"
        and t: "?d \<notin> fst ` set (dns_cache t)" "dns_server t = dns_server s" by (auto simp: loops_def)
      from c show False
      proof (elim disjE exE)
        assume c: "c = ResolveA ?d"
        obtain w where "replies N (dns_server t) ls ?r (outside t) w" using reply t(2) by metis
        from dns_ask_replies [OF ls this] obtain rest where
          ask: "dns_ask N (dns_server t) ?d t = Inr ((int (length ?r), ?r @ rest), t\<lparr>outside := w\<rparr>)" by blast
        have "length ?r > 0" using len by (simp add: dns_reply_def)
        with 1(2) have "run N (ParsePacket (?r @ rest) (length ?r) ?d 0) (t\<lparr>outside := w\<rparr>) = Some r"
          using not_cached [OF t(1)] ask server t(2) by (simp add: c M find_server_def)
        from 1(1) [OF this] t show False by (auto simp: loops_def)
      next
        fix rest
        assume c: "c = ParsePacket (?r @ rest) (length ?r) ?d 0"
        have "kseq (run N (ResolveA ?d) t) (\<lambda>x. Some (dns_cleanup ?d x)) = Some r"
          using 1(2) reply_parsed(1-3) [OF len ls(2) _ refl, of "[0xC0, 12]" 5 rest] alias_scanned [OF len ls(2,3) refl, of rest] by (simp add: c M)
        then obtain r2 where "run N (ResolveA ?d) t = Some r2" by (cases "run N (ResolveA ?d) t") auto
        from 1(1) [OF this] t show False by (auto simp: loops_def)
      qed
    qed
  qed
  have "loops (ResolveA ?d) s" using new by (simp add: loops_def)
  with never [of N] show ?thesis unfolding dns_resolve_A_def by (cases "dns_run N (ResolveA ?d) s") auto
qed

theorem dns_alias_loop_diverges_witness:
  "dns_resolve_A (one_reply (dns_reply [0x0F, 0xF0, 0x81, 0x80] [[0x61]] 5 [0, 0, 0, 60] [0xC0, 12])) [0x61]
     \<lparr>dns_cache = [], dns_server = 1, outside = ()\<rparr> = None"
proof -
  have "\<forall>w. \<exists>w'. replies (one_reply r) server ls r w w'" for r server ls using one_reply by blast
  then show ?thesis
    using dns_alias_loop_diverges [of "[[0x61]]" "\<lparr>dns_cache = [], dns_server = 1, outside = ()\<rparr>" "[0x0F, 0xF0, 0x81, 0x80]" "[0, 0, 0, 60]", unfolded domain_text_one]
    by (simp add: label_ok_def)
qed

end
