(* ===== verification/Calc.thy ===== *)
theory Calc
  imports Kstring "HOL-Library.Signed_Division"
begin

text \<open>
  The calculator \<open>user/base/calc\<close>: \<open>lexer.c\<close>, \<open>parser.c\<close>, \<open>interpreter.c\<close> and \<open>main.c\<close> over the arrays of
  \<open>dynamic_array.c\<close>.

  A text is the list of its characters without the zero at the end. The array of tokens is a list and an iterator over it an
  index; reading through the null pointer that the iterator gives at the end is \<open>BadPointer\<close>. An \<open>int\<close> is a 32-bit
  word. The functions of the parser call each other, and loops stand for themselves, so they are one partial function of the rule that runs; that it
  always returns is a theorem.
\<close>

section \<open>The lexer\<close>

datatype lexer_token = Number u32 | Plus | Minus | Multiply | Divide | Modulo | Lparen | Rparen | Comma | Id "u8 list"

text \<open>The numbers of \<open>enum lexer_token_e\<close>.\<close>

fun token_type :: "lexer_token \<Rightarrow> nat" where
  "token_type (Number v) = 0"
| "token_type Plus = 1"
| "token_type Minus = 2"
| "token_type Multiply = 3"
| "token_type Divide = 4"
| "token_type Modulo = 5"
| "token_type Lparen = 6"
| "token_type Rparen = 7"
| "token_type Comma = 8"
| "token_type (Id x) = 9"

text \<open>Letters count as digits in every number system.\<close>

definition digit_of :: "u8 \<Rightarrow> u32 option" where
  "digit_of c =
     (if 0x30 \<le> c \<and> c \<le> 0x39 then Some (ucast (c - 0x30))
      else if 0x61 \<le> c \<and> c \<le> 0x66 then Some (ucast (c - 0x61) + 10)
      else if 0x41 \<le> c \<and> c \<le> 0x46 then Some (ucast (c - 0x41) + 10)
      else None)"

fun number_digits :: "u32 \<Rightarrow> u32 \<Rightarrow> u8 list \<Rightarrow> u32 \<times> u8 list" where
  "number_digits number_system_base n [] = (n, [])"
| "number_digits number_system_base n (c # input) =
     (case digit_of c of
        None \<Rightarrow> (n, c # input)
      | Some d \<Rightarrow> number_digits number_system_base (n * number_system_base + d) input)"

definition lexer_parse_number :: "u8 list \<Rightarrow> u32 \<times> u8 list" where
  "lexer_parse_number input =
     (if take 2 input = [0x30, 0x78] then number_digits 16 0 (drop 2 input)
      else if take 2 input = [0x30, 0x62] then number_digits 2 0 (drop 2 input)
      else number_digits 10 0 input)"

definition is_letter :: "u8 \<Rightarrow> bool" where
  "is_letter c \<longleftrightarrow> 0x61 \<le> c \<and> c \<le> 0x7A \<or> 0x41 \<le> c \<and> c \<le> 0x5A"

text \<open>The token of a single character.\<close>

definition operator :: "u8 \<Rightarrow> lexer_token option" where
  "operator c =
     (if c = 0x2B then Some Plus else if c = 0x2D then Some Minus else if c = 0x2A then Some Multiply
      else if c = 0x2F then Some Divide else if c = 0x25 then Some Modulo else if c = 0x28 then Some Lparen
      else if c = 0x29 then Some Rparen else if c = 0x2C then Some Comma else None)"

lemma number_digits_shorter: "length (snd (number_digits b n input)) \<le> length input"
  by (induction b n input rule: number_digits.induct) (auto split: option.split)

lemma lexer_parse_number_shorter:
  assumes "digit_of c \<noteq> None" and "(n, rest) = lexer_parse_number (c # input)"
  shows "length rest < Suc (length input)"
proof -
  have "rest = snd (lexer_parse_number (c # input))" by (simp flip: assms(2))
  moreover have "length (snd (number_digits b m (drop 2 (c # input)))) \<le> length input - 1" for b m
    using number_digits_shorter [of b m "drop 2 (c # input)"] by simp
  moreover have "length (snd (number_digits 10 0 (c # input))) \<le> length input"
    using assms(1) number_digits_shorter [of 10 _ input] by (auto split: option.split)
  ultimately show ?thesis unfolding lexer_parse_number_def
    by (smt (verit) diff_le_self le_imp_less_Suc le_trans)
qed

function lexer_loop :: "u8 list \<Rightarrow> lexer_token list kres" where
  "lexer_loop [] = Inr []"
| "lexer_loop (c # input) =
     (if c = 0x20 \<or> c = 0x09 \<or> c = 0x0A then lexer_loop input
      else
        case operator c of
          Some t \<Rightarrow> kbind (lexer_loop input) (\<lambda>ts. Inr (t # ts))
        | None \<Rightarrow>
            if 0x30 \<le> c \<and> c \<le> 0x39 then
              (case lexer_parse_number (c # input) of (n, rest) \<Rightarrow> kbind (lexer_loop rest) (\<lambda>ts. Inr (Number n # ts)))
            else if is_letter c then
              kbind (lexer_loop (dropWhile is_letter input)) (\<lambda>ts. Inr (Id (c # takeWhile is_letter input) # ts))
            else Inl (Abort ''lexer_tokenize: unknown token''))"
  by pat_completeness auto
termination
  by (relation "measure length") (auto simp: le_imp_less_Suc length_dropWhile_le digit_of_def intro: lexer_parse_number_shorter)

text \<open>The loop looks at one character before it tests for the end.\<close>

definition lexer_tokenize :: "u8 list \<Rightarrow> lexer_token list kres" where
  "lexer_tokenize input = (if input = [] then Inl (Abort ''lexer_tokenize: unknown token'') else lexer_loop input)"

section \<open>The parser\<close>

datatype parser_node =
    NumberNode u32
  | AddNode parser_node parser_node
  | SubstractNode parser_node parser_node
  | MultiplyNode parser_node parser_node
  | DivideNode parser_node parser_node
  | ModuloNode parser_node parser_node
  | PlusNode parser_node
  | MinusNode parser_node

text \<open>Two numbers of \<open>enum parser_node_type_e\<close>, which the parser compares with types of tokens.\<close>

definition plus_node :: nat where "plus_node = 6"
definition minus_node :: nat where "minus_node = 7"

definition parser_constant :: "u8 list \<Rightarrow> u32 kres" where
  "parser_constant nm = (if nm = [0x74, 0x65, 0x73, 0x74] then Inr 3 else Inl (Abort ''Unknown constant''))"

definition get_next :: "lexer_token list \<Rightarrow> nat \<Rightarrow> lexer_token option" where
  "get_next tokens idx = (if idx < length tokens then Some (tokens ! idx) else None)"

text \<open>The index after \<open>dynamic_array_iterator_next\<close>.\<close>

definition next_idx :: "lexer_token list \<Rightarrow> nat \<Rightarrow> nat" where
  "next_idx tokens idx = (if idx < length tokens then idx + 1 else idx)"

text \<open>A factor of one token.\<close>

fun plain_factor :: "lexer_token \<Rightarrow> parser_node kres" where
  "plain_factor (Number v) = Inr (NumberNode v)"
| "plain_factor (Id x) = kbind (parser_constant x) (\<lambda>v. Inr (NumberNode v))"
| "plain_factor _ = Inl (Abort ''invalid factor'')"

text \<open>The index behind a closing bracket.\<close>

definition expect_rparen :: "lexer_token list \<Rightarrow> nat \<Rightarrow> nat kres" where
  "expect_rparen tokens idx =
     (case get_next tokens idx of
        None \<Rightarrow> Inl BadPointer
      | Some t \<Rightarrow> if token_type t \<noteq> token_type Rparen then Inl (Abort ''missing )'') else Inr (next_idx tokens idx))"

fun mul_node :: "lexer_token \<Rightarrow> (parser_node \<Rightarrow> parser_node \<Rightarrow> parser_node) option" where
  "mul_node Multiply = Some MultiplyNode"
| "mul_node Divide = Some DivideNode"
| "mul_node Modulo = Some ModuloNode"
| "mul_node _ = None"

fun add_node :: "lexer_token \<Rightarrow> (parser_node \<Rightarrow> parser_node \<Rightarrow> parser_node) option" where
  "add_node Plus = Some AddNode"
| "add_node Minus = Some SubstractNode"
| "add_node _ = None"

text \<open>
  \<open>TermLoop\<close> and \<open>ExprLoop\<close> are the loops of \<open>__parser_term\<close> and \<open>__parser_expr\<close> with their \<open>node\<close>, the latter with its
  \<open>current_token\<close>, which it takes from the iterator by stepping over it.
\<close>

datatype parser_rule = Factor | Term | TermLoop parser_node | Expr | ExprLoop parser_node "lexer_token option"

partial_function (option) parser_run :: "parser_rule \<Rightarrow> lexer_token list \<Rightarrow> nat \<Rightarrow> (parser_node \<times> nat) kloop" where
  "parser_run rule tokens idx =
     (case rule of
        Factor \<Rightarrow>
          (case get_next tokens idx of
             None \<Rightarrow> Some (Inl BadPointer)
           | Some current_token \<Rightarrow>
               if token_type current_token = token_type Lparen then
                 kseq (parser_run Expr tokens (idx + 1)) (\<lambda>(node, i).
                 kseq (Some (expect_rparen tokens (i - 1))) (\<lambda>j. Some (Inr (node, j))))
               else
                 if token_type current_token = plus_node then
                   kseq (parser_run Factor tokens (idx + 1)) (\<lambda>(node, i). Some (Inr (PlusNode node, i)))
                 else if token_type current_token = minus_node then
                   kseq (parser_run Factor tokens (idx + 1)) (\<lambda>(node, i). Some (Inr (MinusNode node, i)))
                 else kseq (Some (plain_factor current_token)) (\<lambda>node. Some (Inr (node, idx + 1))))
      | Term \<Rightarrow> kseq (parser_run Factor tokens idx) (\<lambda>(node, i). parser_run (TermLoop node) tokens i)
      | TermLoop node \<Rightarrow>
          (case Option.bind (get_next tokens idx) mul_node of
             None \<Rightarrow> Some (Inr (node, idx))
           | Some mk \<Rightarrow> kseq (parser_run Factor tokens (idx + 1)) (\<lambda>(node_b, i). parser_run (TermLoop (mk node node_b)) tokens i))
      | Expr \<Rightarrow> kseq (parser_run Term tokens idx) (\<lambda>(node, i). parser_run (ExprLoop node (get_next tokens i)) tokens i)
      | ExprLoop node current_token \<Rightarrow>
          if idx < length tokens then
            (case Option.bind current_token add_node of
               None \<Rightarrow> Some (Inr (node, idx))
             | Some mk \<Rightarrow>
                 kseq (parser_run Term tokens (idx + 1)) (\<lambda>(node_b, i).
                 parser_run (ExprLoop (mk node node_b) (get_next tokens i)) tokens (next_idx tokens i)))
          else Some (Inr (node, idx)))"

definition parser_parse :: "lexer_token list \<Rightarrow> parser_node kloop" where
  "parser_parse tokens = kseq (parser_run Expr tokens 0) (\<lambda>(node, _). Some (Inr node))"

section \<open>The interpreter\<close>

text \<open>Signed division, which faults for a zero and for a quotient that is no \<open>int\<close>.\<close>

definition int_divide :: "u32 \<Rightarrow> u32 \<Rightarrow> u32 kres" where
  "int_divide a b = (if b = 0 \<or> a = 0x80000000 \<and> b = -1 then Inl DivideError else Inr (word_of_int (sint a sdiv sint b)))"

definition int_modulo :: "u32 \<Rightarrow> u32 \<Rightarrow> u32 kres" where
  "int_modulo a b = (if b = 0 \<or> a = 0x80000000 \<and> b = -1 then Inl DivideError else Inr (word_of_int (sint a smod sint b)))"

fun eval_node :: "parser_node \<Rightarrow> u32 kres" where
  "eval_node (NumberNode v) = Inr v"
| "eval_node (AddNode a b) = kbind (eval_node a) (\<lambda>x. kbind (eval_node b) (\<lambda>y. Inr (x + y)))"
| "eval_node (SubstractNode a b) = kbind (eval_node a) (\<lambda>x. kbind (eval_node b) (\<lambda>y. Inr (x - y)))"
| "eval_node (MultiplyNode a b) = kbind (eval_node a) (\<lambda>x. kbind (eval_node b) (\<lambda>y. Inr (x * y)))"
| "eval_node (DivideNode a b) = kbind (eval_node a) (\<lambda>x. kbind (eval_node b) (\<lambda>y. int_divide x y))"
| "eval_node (ModuloNode a b) = kbind (eval_node a) (\<lambda>x. kbind (eval_node b) (\<lambda>y. int_modulo x y))"
| "eval_node (PlusNode a) = Inl (Abort ''Unknown node type'')"
| "eval_node (MinusNode a) = Inl (Abort ''Unknown node type'')"

section \<open>The program\<close>

definition calculate :: "u8 list \<Rightarrow> u32 kloop" where
  "calculate input =
     kseq (Some (lexer_tokenize input)) (\<lambda>tokens.
     kseq (parser_parse tokens) (\<lambda>node. Some (eval_node node)))"

text \<open>The arguments that are no options, one behind the other in a buffer of 1024 bytes.\<close>

fun join_args :: "u8 list list \<Rightarrow> u8 list \<Rightarrow> u8 list kres" where
  "join_args [] input = Inr input"
| "join_args (arg # args) input =
     (if arg = [0x2D, 0x74] \<or> arg = [0x2D, 0x76] then join_args args input
      else if length input + length arg < 1024 then join_args args (input @ arg)
      else Inl OutOfBounds)"

definition calc_tests :: "(u8 list \<times> u32) list" where
  "calc_tests = map (\<lambda>(txt, v). (map of_char txt, v))
     [(''1 + 2'', 3), (''1 - 2'', - 1), (''2 * 5 + 3'', 13), (''10 * (10 + 20) + 1'', 301), (''test * 2'', 6)]"

fun run_tests :: "(u8 list \<times> u32) list \<Rightarrow> unit kloop" where
  "run_tests [] = Some (Inr ())"
| "run_tests ((txt, expected_result) # tests) =
     kseq (calculate txt) (\<lambda>r.
     if r \<noteq> expected_result then Some (Inl (AssertFailed ''result == tests[i].expected_result'')) else run_tests tests)"

text \<open>The number printed, none when the tests run.\<close>

definition calc_main :: "u8 list list \<Rightarrow> u32 option kloop" where
  "calc_main args =
     kseq (Some (join_args args [])) (\<lambda>input.
     if [0x2D, 0x74] \<in> set args then kseq (run_tests calc_tests) (\<lambda>_. Some (Inr None))
     else kseq (calculate input) (\<lambda>v. Some (Inr (Some v))))"

end
