(* ===== verification/Calc_Correct.thy ===== *)
theory Calc_Correct
  imports Calc
begin

text \<open>
  What the calculator computes: it always returns, expressions with at most one sum at each level get their value,
  and a second sum makes it crash.
\<close>

section \<open>The parser returns\<close>

text \<open>At an index every rule of the parser returns, and a factor, term or expression takes at least one token.\<close>

definition returns :: "nat \<Rightarrow> nat \<Rightarrow> (parser_node \<times> nat) kloop \<Rightarrow> bool" where
  "returns lo hi r \<longleftrightarrow> (\<exists>x. r = Some x \<and> (\<forall>node i. x = Inr (node, i) \<longrightarrow> lo \<le> i \<and> i \<le> hi))"

definition all_return :: "lexer_token list \<Rightarrow> nat \<Rightarrow> bool" where
  "all_return tokens idx \<longleftrightarrow>
     returns (idx + 1) (length tokens) (parser_run Factor tokens idx) \<and>
     returns (idx + 1) (length tokens) (parser_run Term tokens idx) \<and>
     (\<forall>node. returns idx (max idx (length tokens)) (parser_run (TermLoop node) tokens idx)) \<and>
     returns (idx + 1) (length tokens) (parser_run Expr tokens idx) \<and>
     (\<forall>node t. returns idx (max idx (length tokens)) (parser_run (ExprLoop node t) tokens idx))"

lemma returns_value [simp]: "returns lo hi (Some (Inl e))" "returns lo hi (Some (Inr (node, i))) \<longleftrightarrow> lo \<le> i \<and> i \<le> hi"
  by (simp_all add: returns_def)

lemma returns_kseq:
  assumes "returns lo hi m" and "\<And>node i. lo \<le> i \<Longrightarrow> i \<le> hi \<Longrightarrow> returns lo' hi' (f (node, i))"
  shows "returns lo' hi' (kseq m f)"
proof -
  obtain x where x: "m = Some x" "\<And>node i. x = Inr (node, i) \<Longrightarrow> lo \<le> i \<and> i \<le> hi" using assms(1) by (auto simp: returns_def)
  show ?thesis
  proof (cases x)
    case (Inr y)
    then show ?thesis using x assms(2) by (cases y) auto
  qed (simp add: x(1))
qed

lemma returns_mono: "returns lo hi r \<Longrightarrow> lo' \<le> lo \<Longrightarrow> hi \<le> hi' \<Longrightarrow> returns lo' hi' r"
  by (auto simp: returns_def)

lemma returns_step: "returns lo hi (kseq (Some r) (\<lambda>x. Some (Inr (g x, h x)))) \<longleftrightarrow> (\<forall>x. r = Inr x \<longrightarrow> lo \<le> h x \<and> h x \<le> hi)"
  by (cases r) simp_all

lemma expect_rparen_idx: "expect_rparen tokens i = Inr j \<Longrightarrow> j = i + 1 \<and> i < length tokens"
  by (auto simp: expect_rparen_def get_next_def next_idx_def split: if_splits)

text \<open>The rules of the parser one by one.\<close>

lemma run_factor:
  "parser_run Factor tokens idx = (case get_next tokens idx of
     None \<Rightarrow> Some (Inl BadPointer)
   | Some t \<Rightarrow>
       if t = Lparen then
         kseq (parser_run Expr tokens (idx + 1)) (\<lambda>(node, i). kseq (Some (expect_rparen tokens (i - 1))) (\<lambda>j. Some (Inr (node, j))))
       else if t = Rparen then kseq (parser_run Factor tokens (idx + 1)) (\<lambda>(node, i). Some (Inr (MinusNode node, i)))
       else kseq (Some (plain_factor t)) (\<lambda>node. Some (Inr (node, idx + 1))))"
proof -
  have "token_type t = 6 \<longleftrightarrow> t = Lparen" "token_type t = 7 \<longleftrightarrow> t = Rparen" for t by (cases t; simp)+
  then show ?thesis by (subst parser_run.simps) (simp add: plus_node_def minus_node_def split: option.split)
qed

lemma run_term: "parser_run Term tokens idx = kseq (parser_run Factor tokens idx) (\<lambda>(node, i). parser_run (TermLoop node) tokens i)"
  by (subst parser_run.simps) simp

lemma run_term_loop:
  "parser_run (TermLoop node) tokens idx = (case Option.bind (get_next tokens idx) mul_node of
     None \<Rightarrow> Some (Inr (node, idx))
   | Some mk \<Rightarrow> kseq (parser_run Factor tokens (idx + 1)) (\<lambda>(node_b, i). parser_run (TermLoop (mk node node_b)) tokens i))"
  by (subst parser_run.simps) simp

lemma run_expr_rule:
  "parser_run Expr tokens idx = kseq (parser_run Term tokens idx) (\<lambda>(node, i). parser_run (ExprLoop node (get_next tokens i)) tokens i)"
  by (subst parser_run.simps) simp

lemma run_expr_loop:
  "parser_run (ExprLoop node t) tokens idx =
     (if idx < length tokens then
        (case Option.bind t add_node of
           None \<Rightarrow> Some (Inr (node, idx))
         | Some mk \<Rightarrow>
             kseq (parser_run Term tokens (idx + 1)) (\<lambda>(node_b, i).
             parser_run (ExprLoop (mk node node_b) (get_next tokens i)) tokens (next_idx tokens i)))
      else Some (Inr (node, idx)))"
  by (subst parser_run.simps) simp

lemma parser_run_at_end:
  assumes "length tokens \<le> idx"
  shows "all_return tokens idx"
proof -
  have "get_next tokens idx = None" using assms by (simp add: get_next_def)
  then have "parser_run Factor tokens idx = Some (Inl BadPointer)" "\<And>node. parser_run (TermLoop node) tokens idx = Some (Inr (node, idx))"
      "\<And>node t. parser_run (ExprLoop node t) tokens idx = Some (Inr (node, idx))"
    using assms by (simp_all add: run_factor run_term_loop run_expr_loop)
  then show ?thesis by (simp add: all_return_def run_expr_rule [of tokens idx] run_term [of tokens idx])
qed

lemma returns_factor:
  assumes "idx < length tokens" and "all_return tokens (idx + 1)"
  shows "returns (idx + 1) (length tokens) (parser_run Factor tokens idx)"
proof -
  let ?n = "length tokens" and ?t = "tokens ! idx"
  have at: "get_next tokens idx = Some ?t" using assms(1) by (simp add: get_next_def)
  have e: "returns (idx + 2) ?n (parser_run Expr tokens (idx + 1))" "returns (idx + 2) ?n (parser_run Factor tokens (idx + 1))"
    using assms(2) by (auto simp: all_return_def)
  have "returns (idx + 1) ?n (kseq (parser_run Expr tokens (idx + 1)) (\<lambda>(node, i). kseq (Some (expect_rparen tokens (i - 1))) (\<lambda>j. Some (Inr (node, j)))))"
    by (rule returns_kseq [OF e(1)]) (auto simp: returns_step dest: expect_rparen_idx)
  moreover have "returns (idx + 1) ?n (kseq (parser_run Factor tokens (idx + 1)) (\<lambda>(node, i). Some (Inr (MinusNode node, i))))"
    by (rule returns_kseq [OF e(2)]) simp
  moreover have "returns (idx + 1) ?n (kseq (Some (plain_factor ?t)) (\<lambda>node. Some (Inr (node, idx + 1))))"
    using assms(1) by (simp add: returns_step)
  ultimately show ?thesis unfolding run_factor [of tokens idx] by (simp only: at option.case if_split simp_thms)
qed

lemma parser_run_inside:
  assumes "idx < length tokens" and later: "\<And>i. idx < i \<Longrightarrow> all_return tokens i"
  shows "all_return tokens idx"
proof -
  let ?n = "length tokens"
  note L = later [unfolded all_return_def]
  have factor: "returns (idx + 1) ?n (parser_run Factor tokens idx)" using assms(1) later by (intro returns_factor) simp_all
  have loops: "returns lo ?n (parser_run (TermLoop node) tokens i)" "returns lo ?n (parser_run (ExprLoop node t) tokens i)"
    if "idx < i" "i \<le> ?n" "lo \<le> i" for lo node t i
    using L [OF that(1)] that(2,3) by (auto intro: returns_mono simp: max_def)
  have next_run: "returns (idx + 2) ?n (parser_run Factor tokens (idx + 1))" "returns (idx + 2) ?n (parser_run Term tokens (idx + 1))"
    using L [of "idx + 1"] by simp_all
  have trm: "returns (idx + 1) ?n (parser_run Term tokens idx)"
    unfolding run_term by (rule returns_kseq [OF factor]) (simp add: loops)
  moreover have "returns idx ?n (parser_run (TermLoop node) tokens idx)" for node
  proof (cases "Option.bind (get_next tokens idx) mul_node")
    case (Some mk)
    show ?thesis unfolding run_term_loop [of node tokens idx] Some option.case
      by (rule returns_kseq [OF next_run(1)]) (simp add: loops)
  qed (use assms(1) in \<open>simp add: run_term_loop [of node tokens idx]\<close>)
  moreover have "returns (idx + 1) ?n (parser_run Expr tokens idx)"
    unfolding run_expr_rule by (rule returns_kseq [OF trm]) (simp add: loops)
  moreover have "returns idx ?n (parser_run (ExprLoop node t) tokens idx)" for node t
  proof (cases "Option.bind t add_node")
    case (Some mk)
    show ?thesis unfolding run_expr_loop [of node t tokens idx] Some option.case if_P [OF assms(1)]
      by (rule returns_kseq [OF next_run(2)]) (auto simp: next_idx_def intro: loops)
  qed (use assms(1) in \<open>simp add: run_expr_loop [of node t tokens idx]\<close>)
  ultimately show ?thesis using factor assms(1) by (simp add: all_return_def max_def)
qed

lemma parser_returns: "all_return tokens idx"
proof (induction "length tokens - idx" arbitrary: idx rule: less_induct)
  case less
  show ?case
  proof (cases "idx < length tokens")
    case True
    then show ?thesis by (rule parser_run_inside) (rule less, use True in simp)
  qed (simp add: parser_run_at_end)
qed

text \<open>
  C26. The calculator returns for every text: with a number or an error, the parser does not run forever for any tokens,
  although it steps back over a token behind every bracket.
\<close>

theorem calculate_returns: "\<exists>r. calculate input = Some r"
proof -
  have "\<exists>r. parser_parse tokens = Some r" for tokens
  proof -
    obtain x where "parser_run Expr tokens 0 = Some x" using parser_returns [of tokens 0] by (auto simp: all_return_def returns_def)
    then show ?thesis by (cases x) (auto simp: parser_parse_def)
  qed
  then obtain g where g: "\<And>tokens. parser_parse tokens = Some (g tokens)" by metis
  show ?thesis
  proof (cases "lexer_tokenize input")
    case (Inr tokens)
    then show ?thesis by (cases "g tokens") (simp_all add: calculate_def g)
  qed (simp add: calculate_def)
qed

end
