(* ===== verification/Calc_Expressions.thy ===== *)
theory Calc_Expressions
  imports Calc_Correct
begin

text \<open>Expressions of the calculator: their text, their tokens, their value, and what the calculator makes of them.\<close>

section \<open>Expressions\<close>

datatype addop = Add | Subtract
datatype mulop = Mul | Div | Mod

text \<open>The expressions that are read right: at most one sum at the top, and exactly one inside brackets.\<close>

datatype calc_factor = Literal nat | Group calc_product addop calc_product
  and calc_product = One calc_factor | Times calc_product mulop calc_factor

datatype calc_expr = Product calc_product | Sum calc_product addop calc_product

fun dec :: "nat \<Rightarrow> u8 list" where
  "dec n = (if n < 10 then [0x30 + of_nat n] else dec (n div 10) @ [0x30 + of_nat (n mod 10)])"

declare dec.simps [simp del]

fun add_char :: "addop \<Rightarrow> u8" where "add_char Add = 0x2B" | "add_char Subtract = 0x2D"
fun mul_char :: "mulop \<Rightarrow> u8" where "mul_char Mul = 0x2A" | "mul_char Div = 0x2F" | "mul_char Mod = 0x25"

fun factor_text :: "calc_factor \<Rightarrow> u8 list" and product_text :: "calc_product \<Rightarrow> u8 list" where
  "factor_text (Literal n) = dec n"
| "factor_text (Group p op q) = 0x28 # product_text p @ add_char op # product_text q @ [0x29]"
| "product_text (One f) = factor_text f"
| "product_text (Times p op f) = product_text p @ mul_char op # factor_text f"

fun expr_text :: "calc_expr \<Rightarrow> u8 list" where
  "expr_text (Product p) = product_text p"
| "expr_text (Sum p op q) = product_text p @ add_char op # product_text q"

fun add_token :: "addop \<Rightarrow> lexer_token" where "add_token Add = Plus" | "add_token Subtract = Minus"
fun mul_token :: "mulop \<Rightarrow> lexer_token" where "mul_token Mul = Multiply" | "mul_token Div = Divide" | "mul_token Mod = Modulo"

fun factor_tokens :: "calc_factor \<Rightarrow> lexer_token list" and product_tokens :: "calc_product \<Rightarrow> lexer_token list" where
  "factor_tokens (Literal n) = [Number (of_nat n)]"
| "factor_tokens (Group p op q) = Lparen # product_tokens p @ add_token op # product_tokens q @ [Rparen]"
| "product_tokens (One f) = factor_tokens f"
| "product_tokens (Times p op f) = product_tokens p @ mul_token op # factor_tokens f"

fun expr_tokens :: "calc_expr \<Rightarrow> lexer_token list" where
  "expr_tokens (Product p) = product_tokens p"
| "expr_tokens (Sum p op q) = product_tokens p @ add_token op # product_tokens q"

text \<open>Values, with the faults of division.\<close>

fun add_values :: "addop \<Rightarrow> u32 \<Rightarrow> u32 \<Rightarrow> u32" where
  "add_values Add x y = x + y"
| "add_values Subtract x y = x - y"

fun mul_values :: "mulop \<Rightarrow> u32 \<Rightarrow> u32 \<Rightarrow> u32 kres" where
  "mul_values Mul x y = Inr (x * y)"
| "mul_values Div x y = int_divide x y"
| "mul_values Mod x y = int_modulo x y"

fun factor_value :: "calc_factor \<Rightarrow> u32 kres" and product_value :: "calc_product \<Rightarrow> u32 kres" where
  "factor_value (Literal n) = Inr (of_nat n)"
| "factor_value (Group p op q) = kbind (product_value p) (\<lambda>x. kbind (product_value q) (\<lambda>y. Inr (add_values op x y)))"
| "product_value (One f) = factor_value f"
| "product_value (Times p op f) = kbind (product_value p) (\<lambda>x. kbind (factor_value f) (\<lambda>y. mul_values op x y))"

fun expr_value :: "calc_expr \<Rightarrow> u32 kres" where
  "expr_value (Product p) = product_value p"
| "expr_value (Sum p op q) = kbind (product_value p) (\<lambda>x. kbind (product_value q) (\<lambda>y. Inr (add_values op x y)))"

section \<open>Numbers\<close>

lemma digit_cases:
  assumes "d < 10"
  shows "digit_of (0x30 + of_nat d) = Some (of_nat d)" "operator (0x30 + of_nat d) = None"
    "0x30 \<le> (0x30 + of_nat d :: u8) \<and> (0x30 + of_nat d :: u8) \<le> 0x39"
proof -
  have "d \<in> {0, 1, 2, 3, 4, 5, 6, 7, 8, 9}" using assms by auto
  then show "digit_of (0x30 + of_nat d) = Some (of_nat d)" "operator (0x30 + of_nat d) = None"
      "0x30 \<le> (0x30 + of_nat d :: u8) \<and> (0x30 + of_nat d :: u8) \<le> 0x39"
    by (auto simp: digit_of_def operator_def)
qed

lemma number_digits_dec:
  "number_digits 10 a (dec n @ rest) = number_digits 10 (a * 10 ^ length (dec n) + of_nat n) rest"
proof (induction n arbitrary: a rest rule: dec.induct)
  case (1 n)
  show ?case
  proof (cases "n < 10")
    case True
    then show ?thesis by (subst dec.simps) (simp add: digit_cases dec.simps [of n])
  next
    case False
    have "(of_nat n :: u32) = of_nat (10 * (n div 10) + n mod 10)" by simp
    also have "\<dots> = 10 * of_nat (n div 10) + of_nat (n mod 10)" by (simp only: of_nat_add of_nat_mult of_nat_numeral)
    finally have n: "(of_nat n :: u32) = 10 * of_nat (n div 10) + of_nat (n mod 10)" .
    have d: "dec n = dec (n div 10) @ [0x30 + of_nat (n mod 10)]" using False by (subst dec.simps) simp
    show ?thesis unfolding d using 1(1) [OF False, of a "(0x30 + of_nat (n mod 10)) # rest"]
      by (simp add: digit_cases(1) n algebra_simps)
  qed
qed

lemma dec_digits: "c \<in> set (dec n) \<Longrightarrow> 0x30 \<le> c \<and> c \<le> 0x39"
proof (induction n rule: dec.induct)
  case (1 n)
  then show ?case using digit_cases(3) [of n] digit_cases(3) [of "n mod 10"] by (cases "n < 10") (auto simp: dec.simps [of n])
qed

lemma dec_Cons: obtains c xs where "dec n = c # xs" "0x30 \<le> c" "c \<le> 0x39"
proof -
  have "dec n \<noteq> []" by (subst dec.simps) simp
  then obtain c xs where "dec n = c # xs" by (cases "dec n") auto
  then show thesis using that dec_digits [of c n] by simp
qed

text \<open>What can follow an operand.\<close>

definition follows :: "u8 list \<Rightarrow> bool" where
  "follows rest \<longleftrightarrow> rest = [] \<or> operator (hd rest) \<noteq> None"

lemma operator_char:
  "operator c \<noteq> None \<Longrightarrow> c \<in> {0x2B, 0x2D, 0x2A, 0x2F, 0x25, 0x28, 0x29, 0x2C}"
  by (auto simp: operator_def split: if_splits)

lemma number_digits_end: "follows rest \<Longrightarrow> number_digits b n rest = (n, rest)"
  using operator_char [of "hd rest"] by (cases rest) (auto simp: follows_def digit_of_def)

lemma lexer_number:
  assumes "follows rest"
  shows "lexer_parse_number (dec n @ rest) = (of_nat n, rest)"
proof -
  have second: "take 2 (dec n @ rest) \<noteq> [a, b]" if "\<not> (0x30 \<le> b \<and> b \<le> 0x39)" "operator b = None" for a b
  proof
    assume e: "take 2 (dec n @ rest) = [a, b]"
    obtain c xs where d: "dec n = c # xs" by (rule dec_Cons)
    show False
    proof (cases xs)
      case Nil
      then show False using e d that assms by (cases rest) (auto simp: follows_def)
    next
      case (Cons x ys)
      then show False using e d that dec_digits [of x n] by auto
    qed
  qed
  have "take 2 (dec n @ rest) \<noteq> [0x30, 0x78]" "take 2 (dec n @ rest) \<noteq> [0x30, 0x62]" by (rule second; simp add: operator_def)+
  then show ?thesis using number_digits_dec [of 0 n rest] number_digits_end [OF assms] by (simp add: lexer_parse_number_def)
qed

lemma lex_number: "follows rest \<Longrightarrow> lexer_loop (dec n @ rest) = kbind (lexer_loop rest) (\<lambda>ts. Inr (Number (of_nat n) # ts))"
proof -
  assume f: "follows rest"
  obtain c xs where d: "dec n = c # xs" "0x30 \<le> c" "c \<le> 0x39" by (rule dec_Cons)
  have "operator c = None" "c \<noteq> 0x20" "c \<noteq> 0x09" "c \<noteq> 0x0A" using d(2,3) by (auto simp: operator_def)
  then show ?thesis using d(2,3) lexer_number [OF f, of n, unfolded d(1)] by (simp add: d(1))
qed

lemma lex_operator:
  assumes "operator c = Some t"
  shows "lexer_loop (c # rest) = kbind (lexer_loop rest) (\<lambda>ts. Inr (t # ts))"
proof -
  have "c \<noteq> 0x20" "c \<noteq> 0x09" "c \<noteq> 0x0A" using operator_char [of c] assms by auto
  then show ?thesis using assms by simp
qed

lemma operators: "operator (add_char a) = Some (add_token a)" "operator (mul_char m) = Some (mul_token m)"
    "operator 0x28 = Some Lparen" "operator 0x29 = Some Rparen"
proof -
  show "operator (add_char a) = Some (add_token a)" by (cases a) (simp_all add: operator_def)
  show "operator (mul_char m) = Some (mul_token m)" by (cases m) (simp_all add: operator_def)
qed (simp_all add: operator_def)

lemma follows_operator: "operator c = Some t \<Longrightarrow> follows (c # rest)"
  by (simp add: follows_def)

lemmas lex_operators = operators [THEN lex_operator]
lemmas follows_operators = operators [THEN follows_operator]

lemma lex_factor_product:
  "follows rest \<Longrightarrow> lexer_loop (factor_text f @ rest) = kbind (lexer_loop rest) (\<lambda>ts. Inr (factor_tokens f @ ts))"
  "follows rest \<Longrightarrow> lexer_loop (product_text p @ rest) = kbind (lexer_loop rest) (\<lambda>ts. Inr (product_tokens p @ ts))"
  by (induction f and p arbitrary: rest and rest rule: factor_text_product_text.induct)
    (simp_all add: lex_number lex_operators follows_operators kbind_assoc del: lexer_loop.simps)

lemma lex_expr: "lexer_tokenize (expr_text e) = Inr (expr_tokens e)"
proof -
  have "factor_text f \<noteq> []" for f
  proof (cases f)
    case (Literal n)
    then show ?thesis by (simp add: dec.simps [of n])
  qed simp
  then have "product_text p \<noteq> []" for p by (cases p) simp_all
  moreover have "follows []" by (simp add: follows_def)
  ultimately show ?thesis
    using lex_factor_product(2) [of "[]"] lex_factor_product(2) [OF follows_operators(1)]
    by (cases e) (simp_all add: lexer_tokenize_def lex_operators del: lexer_loop.simps(2))
qed

section \<open>Parsing\<close>

fun add_nodes :: "addop \<Rightarrow> parser_node \<Rightarrow> parser_node \<Rightarrow> parser_node" where
  "add_nodes Add = AddNode"
| "add_nodes Subtract = SubstractNode"

fun mul_nodes :: "mulop \<Rightarrow> parser_node \<Rightarrow> parser_node \<Rightarrow> parser_node" where
  "mul_nodes Mul = MultiplyNode"
| "mul_nodes Div = DivideNode"
| "mul_nodes Mod = ModuloNode"

fun factor_node :: "calc_factor \<Rightarrow> parser_node" and product_node :: "calc_product \<Rightarrow> parser_node" where
  "factor_node (Literal n) = NumberNode (of_nat n)"
| "factor_node (Group p op q) = add_nodes op (product_node p) (product_node q)"
| "product_node (One f) = factor_node f"
| "product_node (Times p op f) = mul_nodes op (product_node p) (factor_node f)"

fun expr_node :: "calc_expr \<Rightarrow> parser_node" where
  "expr_node (Product p) = product_node p"
| "expr_node (Sum p op q) = add_nodes op (product_node p) (product_node q)"

lemma token_nodes [simp]:
  "add_node (add_token a) = Some (add_nodes a)" "mul_node (add_token a) = None" "mul_node (mul_token m) = Some (mul_nodes m)"
proof -
  show "add_node (add_token a) = Some (add_nodes a)" "mul_node (add_token a) = None" by (cases a; simp)+
  show "mul_node (mul_token m) = Some (mul_nodes m)" by (cases m) simp_all
qed

lemma eval_nodes:
  "eval_node (add_nodes a x y) = kbind (eval_node x) (\<lambda>v. kbind (eval_node y) (\<lambda>w. Inr (add_values a v w)))"
  "eval_node (mul_nodes m x y) = kbind (eval_node x) (\<lambda>v. kbind (eval_node y) (\<lambda>w. mul_values m v w))"
proof -
  show "eval_node (add_nodes a x y) = kbind (eval_node x) (\<lambda>v. kbind (eval_node y) (\<lambda>w. Inr (add_values a v w)))" by (cases a) simp_all
  show "eval_node (mul_nodes m x y) = kbind (eval_node x) (\<lambda>v. kbind (eval_node y) (\<lambda>w. mul_values m v w))" by (cases m) simp_all
qed

lemma eval_factor_product: "eval_node (factor_node f) = factor_value f" "eval_node (product_node p) = product_value p"
  by (induction f and p rule: factor_text_product_text.induct) (simp_all add: eval_nodes)

lemma eval_expr: "eval_node (expr_node e) = expr_value e"
  by (cases e) (simp_all add: eval_nodes eval_factor_product)

text \<open>The tokens from an index on.\<close>

lemma get_next_here: "drop idx tokens = t # rest \<Longrightarrow> get_next tokens idx = Some t \<and> idx < length tokens \<and> drop (idx + 1) tokens = rest"
proof -
  assume d: "drop idx tokens = t # rest"
  then have "idx < length tokens" by (metis drop_all linorder_not_less list.distinct(1))
  with d Cons_nth_drop_Suc [OF this] show ?thesis by (simp add: get_next_def)
qed

lemma get_next_drop: "drop idx tokens = rest \<Longrightarrow> get_next tokens idx = (case rest of [] \<Rightarrow> None | t # _ \<Rightarrow> Some t)"
proof (cases rest)
  case Nil
  then show "drop idx tokens = rest \<Longrightarrow> ?thesis" by (simp add: get_next_def)
next
  case (Cons t ts)
  then show "drop idx tokens = rest \<Longrightarrow> ?thesis" using get_next_here [of idx tokens t ts] by simp
qed

lemma drop_tokens: "drop idx tokens = xs @ rest \<Longrightarrow> drop (idx + length xs) tokens = rest"
  by (metis add.commute append_eq_conv_conj drop_drop)

definition reads_factor :: "calc_factor \<Rightarrow> bool" where
  "reads_factor f \<longleftrightarrow> (\<forall>tokens idx rest. drop idx tokens = factor_tokens f @ rest \<longrightarrow>
     parser_run Factor tokens idx = Some (Inr (factor_node f, idx + length (factor_tokens f))))"

definition reads_product :: "calc_product \<Rightarrow> bool" where
  "reads_product p \<longleftrightarrow> (\<forall>tokens idx rest. drop idx tokens = product_tokens p @ rest \<longrightarrow>
     parser_run Term tokens idx = parser_run (TermLoop (product_node p)) tokens (idx + length (product_tokens p)))"

lemma reads_term:
  assumes "reads_product p" and "drop idx tokens = product_tokens p @ rest" and "rest = [] \<or> mul_node (hd rest) = None"
  shows "parser_run Term tokens idx = Some (Inr (product_node p, idx + length (product_tokens p)))"
proof -
  have "drop (idx + length (product_tokens p)) tokens = rest" by (rule drop_tokens [OF assms(2)])
  then have "get_next tokens (idx + length (product_tokens p)) = (case rest of [] \<Rightarrow> None | t # _ \<Rightarrow> Some t)"
    by (rule get_next_drop)
  then have "Option.bind (get_next tokens (idx + length (product_tokens p))) mul_node = None"
    using assms(3) by (cases rest) simp_all
  then show ?thesis using assms(1,2) unfolding reads_product_def by (simp add: run_term_loop)
qed

text \<open>A sum, up to the token behind it, which the loop steps over.\<close>

lemma reads_sum:
  assumes "reads_product p" and "reads_product q" and d: "drop idx tokens = product_tokens p @ add_token a # product_tokens q @ rest"
    and "rest = [] \<or> mul_node (hd rest) = None" and i: "i = idx + length (product_tokens p) + 1 + length (product_tokens q)"
  shows "parser_run Expr tokens idx =
    parser_run (ExprLoop (add_nodes a (product_node p) (product_node q)) (get_next tokens i)) tokens (next_idx tokens i)"
proof -
  let ?j = "idx + length (product_tokens p)"
  have p: "parser_run Term tokens idx = Some (Inr (product_node p, ?j))" by (rule reads_term [OF assms(1) d]) simp
  have at: "get_next tokens ?j = Some (add_token a)" "?j < length tokens" "drop (?j + 1) tokens = product_tokens q @ rest"
    using get_next_here [OF drop_tokens [OF d]] by simp_all
  have "parser_run Term tokens (?j + 1) = Some (Inr (product_node q, i))"
    using reads_term [OF assms(2) at(3) assms(4)] by (simp add: i)
  then show ?thesis
    using at(2) by (simp add: run_expr_rule p at(1) run_expr_loop [of _ _ tokens ?j])
qed

lemma reads_all: "reads_factor f" "reads_product p"
proof (induction f and p)
  case (Literal n)
  show ?case unfolding reads_factor_def using get_next_here by (fastforce simp: run_factor)
next
  case (Group p a q)
  show ?case unfolding reads_factor_def
  proof (intro allI impI)
    fix tokens idx rest assume d: "drop idx tokens = factor_tokens (Group p a q) @ rest"
    let ?i = "idx + 1 + length (product_tokens p) + 1 + length (product_tokens q)" and ?n = "add_nodes a (product_node p) (product_node q)"
    have d1: "drop (idx + 1) tokens = product_tokens p @ add_token a # product_tokens q @ Rparen # rest" and at: "get_next tokens idx = Some Lparen"
      using get_next_here [of idx tokens Lparen] d by simp_all
    have b: "get_next tokens ?i = Some Rparen" "?i < length tokens"
      using get_next_here [OF drop_tokens [OF drop_tokens [OF d1, THEN get_next_here, THEN conjunct2, THEN conjunct2]]] by simp_all
    have "parser_run Expr tokens (idx + 1) = parser_run (ExprLoop ?n (get_next tokens ?i)) tokens (next_idx tokens ?i)"
      by (rule reads_sum [OF Group d1 _ refl]) simp
    also have "\<dots> = Some (Inr (?n, ?i + 1))" using b by (simp add: run_expr_loop next_idx_def)
    finally show "parser_run Factor tokens idx = Some (Inr (factor_node (Group p a q), idx + length (factor_tokens (Group p a q))))"
      using at b by (simp add: run_factor expect_rparen_def next_idx_def)
  qed
next
  case (One f)
  then show ?case by (auto simp: reads_factor_def reads_product_def run_term)
next
  case (Times p m f)
  show ?case unfolding reads_product_def
  proof (intro allI impI)
    fix tokens idx rest assume d: "drop idx tokens = product_tokens (Times p m f) @ rest"
    let ?j = "idx + length (product_tokens p)"
    have d1: "drop idx tokens = product_tokens p @ mul_token m # factor_tokens f @ rest" using d by simp
    have at: "get_next tokens ?j = Some (mul_token m)" "drop (?j + 1) tokens = factor_tokens f @ rest"
      using get_next_here [OF drop_tokens [OF d1]] by simp_all
    have "parser_run Term tokens idx = parser_run (TermLoop (product_node p)) tokens ?j"
      using Times(1) d1 unfolding reads_product_def by blast
    also have "\<dots> = parser_run (TermLoop (product_node (Times p m f))) tokens (?j + 1 + length (factor_tokens f))"
      using Times(2) at unfolding reads_factor_def by (simp add: run_term_loop [of _ tokens ?j])
    finally show "parser_run Term tokens idx = parser_run (TermLoop (product_node (Times p m f))) tokens (idx + length (product_tokens (Times p m f)))"
      by (simp add: ac_simps)
  qed
qed

lemma parse_expr: "parser_parse (expr_tokens e) = Some (Inr (expr_node e))"
proof (cases e)
  case (Product p)
  have "parser_run Term (product_tokens p) 0 = Some (Inr (product_node p, length (product_tokens p)))"
    using reads_term [OF reads_all(2) [of p], of 0 "product_tokens p" "[]"] by simp
  then show ?thesis by (simp add: Product parser_parse_def run_expr_rule run_expr_loop)
next
  case (Sum p a q)
  have "get_next (expr_tokens e) (length (expr_tokens e)) = None" by (simp add: get_next_def)
  then show ?thesis
    using reads_sum [OF reads_all(2) [of p] reads_all(2) [of q], of 0 "expr_tokens e" a "[]" "length (expr_tokens e)"]
    by (simp add: Sum parser_parse_def run_expr_loop next_idx_def)
qed

text \<open>
  C25. The calculator computes the value of an expression. The text of an expression of decimal numbers, products and brackets with exactly
  one sum inside every bracket and at most one at the top is read, parsed and evaluated to its value, products from left to right and before
  sums, with 32-bit arithmetic; a division that faults is a fault. Brackets without a sum, as in \<open>(5)\<close>, are not such expressions: the
  parser misses their closing bracket.
\<close>

theorem calculate_value: "calculate (expr_text e) = Some (expr_value e)"
  by (simp add: calculate_def lex_expr parse_expr eval_expr)

text \<open>
  A second sum makes the calculator crash. Behind a sum the loop takes the next token by stepping over it, so when another sum follows that adds or
  subtracts a number, the number is stepped over too and the parser reads through the null pointer at the end: \<open>1+2+3\<close> has no result.
\<close>

theorem second_sum_crashes:
  "calculate (product_text p @ add_char a # product_text q @ add_char b # dec n) = Some (Inl BadPointer)"
proof -
  let ?ts = "product_tokens p @ add_token a # product_tokens q @ [add_token b, Number (of_nat n)]"
  let ?i = "length (product_tokens p) + 1 + length (product_tokens q)"
  have "follows []" by (simp add: follows_def)
  then have "lexer_loop (product_text p @ add_char a # product_text q @ add_char b # dec n) = Inr ?ts"
    using lex_number [of "[]" n] by (simp add: lex_factor_product(2) lex_operators follows_operators del: lexer_loop.simps(2))
  moreover have "product_text p @ add_char a # xs \<noteq> []" for xs by simp
  ultimately have lex: "lexer_tokenize (product_text p @ add_char a # product_text q @ add_char b # dec n) = Inr ?ts"
    unfolding lexer_tokenize_def by (simp only: if_False)
  have "get_next ?ts ?i = Some (add_token b)" "next_idx ?ts ?i = ?i + 1" "length ?ts = ?i + 2" "get_next ?ts (?i + 2) = None"
    by (simp_all add: get_next_def next_idx_def nth_append)
  note at = this
  have "parser_run Expr ?ts 0 = parser_run (ExprLoop (add_nodes a (product_node p) (product_node q)) (get_next ?ts ?i)) ?ts (next_idx ?ts ?i)"
    by (rule reads_sum [OF reads_all(2) [of p] reads_all(2) [of q], of 0 _ a "[add_token b, Number (of_nat n)]"]) simp_all
  also have "\<dots> = kseq (parser_run Term ?ts (?i + 2)) (\<lambda>(m, i). parser_run (ExprLoop (add_nodes b (add_nodes a (product_node p) (product_node q)) m) (get_next ?ts i)) ?ts (next_idx ?ts i))"
    unfolding at(1,2) by (subst run_expr_loop) (simp add: at(3))
  also have "parser_run Term ?ts (?i + 2) = Some (Inl BadPointer)" using run_factor [of ?ts "?i + 2"] run_term [of ?ts "?i + 2"] unfolding at(4) by simp
  finally have "parser_run Expr ?ts 0 = Some (Inl BadPointer)" by simp
  then show ?thesis by (simp add: calculate_def lex parser_parse_def)
qed

end
