(* ===== verification/Mcc_Tokens.thy ===== *)
theory Mcc_Tokens
  imports Kstring
begin

text \<open>
  The tokenizer of the C compiler, \<open>user/development/mcc/tokenize.c\<close>, on the source text that \<open>read_file\<close> of
  \<open>main.c\<close> delivers, with the functions it uses of the C library (\<open>libc/string.c\<close>, \<open>strings.c\<close>,
  \<open>stdlib/strtol.c\<close>, \<open>ctype.h\<close>).

  A pointer into the text is the list of the bytes from there to the end of the buffer, and so is the start of a
  token. Errors end the program with status 1; the message \<open>verror_at\<close> prints before, with formats that do not match their
  arguments, is left out, and allocations succeed. \<open>long\<close> has 32 bits and its overflow
  wraps; the length of the contents of a string literal is kept in a \<open>char\<close>.
\<close>

section \<open>The C library\<close>

definition char_at :: "u8 list \<Rightarrow> nat \<Rightarrow> u8 kres" where
  "char_at p i = (if i < length p then Inr (p ! i) else Inl OutOfBounds)"

fun strncmp :: "u8 list \<Rightarrow> u8 list \<Rightarrow> nat \<Rightarrow> int kres" where
  "strncmp str1 str2 0 = Inr 0"
| "strncmp (a # str1) (b # str2) (Suc n) =
     (if a \<noteq> 0 \<and> a = b then strncmp str1 str2 n else Inr (sint a - sint b))"
| "strncmp str1 str2 (Suc n) = Inl OutOfBounds"

fun strncasecmp :: "u8 list \<Rightarrow> u8 list \<Rightarrow> nat \<Rightarrow> int kres" where
  "strncasecmp str1 str2 0 = Inr 0"
| "strncasecmp (a # str1) (b # str2) (Suc n) =
     (if a \<noteq> 0 \<and> tolower a = tolower b then strncasecmp str1 str2 n else Inr (sint (tolower a) - sint (tolower b)))"
| "strncasecmp str1 str2 (Suc n) = Inl OutOfBounds"

text \<open>The inner loop of \<open>strstr\<close>; the needle is given without its zero byte.\<close>

fun strstr_here :: "u8 list \<Rightarrow> u8 list \<Rightarrow> bool kres" where
  "strstr_here h [] = Inr True"
| "strstr_here [] (c # n) = Inl OutOfBounds"
| "strstr_here (a # h) (c # n) = (if a = c then strstr_here h n else Inr False)"

fun strstr_from :: "u8 list \<Rightarrow> u8 list \<Rightarrow> u8 list option kres" where
  "strstr_from [] needle = Inl OutOfBounds"
| "strstr_from (c # haystack) needle =
     (if c = 0 then Inr None
      else kbind (strstr_here (c # haystack) needle) (\<lambda>b. if b then Inr (Some (c # haystack)) else strstr_from haystack needle))"

definition strstr :: "u8 list \<Rightarrow> u8 list \<Rightarrow> u8 list option kres" where
  "strstr haystack needle = (if needle = [] then Inr (Some haystack) else strstr_from haystack needle)"

definition isspace :: "u8 \<Rightarrow> bool" where
  "isspace c \<longleftrightarrow> c = 0x09 \<or> c = 0x0A \<or> c = 0x0B \<or> c = 0x0C \<or> c = 0x0D \<or> c = 0x20"

definition isdigit :: "u8 \<Rightarrow> bool" where
  "isdigit c \<longleftrightarrow> 0x30 \<le> c \<and> c \<le> 0x39"

definition isalnum :: "u8 \<Rightarrow> bool" where
  "isalnum c \<longleftrightarrow> 0x61 \<le> c \<and> c \<le> 0x7A \<or> 0x41 \<le> c \<and> c \<le> 0x5A \<or> isdigit c"

definition isxdigit :: "u8 \<Rightarrow> bool" where
  "isxdigit c \<longleftrightarrow> isdigit c \<or> 0x61 \<le> c \<and> c \<le> 0x66 \<or> 0x41 \<le> c \<and> c \<le> 0x46"

definition ispunct :: "u8 \<Rightarrow> bool" where
  "ispunct c \<longleftrightarrow> c - 0x21 < 0x5E \<and> \<not> isalnum c"

text \<open>The loop over the digits; the number wraps.\<close>

fun strtol_digits :: "int \<Rightarrow> u32 \<Rightarrow> u8 list \<Rightarrow> (u32 \<times> u8 list) kres" where
  "strtol_digits base result [] = Inl OutOfBounds"
| "strtol_digits base result (c # p) =
     (if c = 0 then Inr (result, c # p)
      else if isdigit c then
        (let digit = uint c - 0x30
         in if digit \<ge> base then Inr (result, c # p) else strtol_digits base (result * of_int base + of_int digit) p)
      else if base = 16 \<and> isxdigit c then
        (let digit = uint (tolower c) - 0x61 + 10
         in if digit \<ge> base then Inr (result, c # p) else strtol_digits base (result * of_int base + of_int digit) p)
      else Inr (result, c # p))"

text \<open>The value and the end pointer. The base is not zero here, so the code that guesses it does not run.\<close>

definition strtol :: "u8 list \<Rightarrow> int \<Rightarrow> (int \<times> u8 list) kres" where
  "strtol nptr base =
     (case dropWhile isspace nptr of
        [] \<Rightarrow> Inl OutOfBounds
      | c # r \<Rightarrow>
          let negative = (c = 0x2D); p = (if c = 0x2D \<or> c = 0x2B then r else c # r)
          in kbind (if base = 16 then kbind (char_at p 0) (\<lambda>a. if a = 0x30 then kbind (char_at p 1) (\<lambda>x.
                       Inr (if x = 0x78 \<or> x = 0x58 then drop 2 p else p)) else Inr p)
                    else Inr p) (\<lambda>p1.
             kbind (strtol_digits base 0 p1) (\<lambda>(result, p2).
             Inr (sint (if negative then - result else result), p2))))"

section \<open>Tokens\<close>

datatype token_kind = TK_RESERVED | TK_IDENT | TK_STR | TK_NUM | TK_EOF

record token =
  tk_kind :: token_kind
  tk_str :: "u8 list"
  tk_len :: nat
  tk_val :: int
  tk_contents :: "u8 list"
  tk_cont_len :: int

text \<open>A cleared token; a null pointer as contents is the empty list.\<close>

definition new_token :: "token_kind \<Rightarrow> u8 list \<Rightarrow> nat \<Rightarrow> token" where
  "new_token kind str len =
     \<lparr>tk_kind = kind, tk_str = str, tk_len = len, tk_val = 0, tk_contents = [], tk_cont_len = 0\<rparr>"

definition error_at :: "'a kres" where
  "error_at = Inl (Exited 1)"

lemma error_at_Inr [simp]: "error_at \<noteq> Inr x" "Inr x \<noteq> error_at" "kbind error_at f = error_at"
  by (simp_all add: error_at_def)

definition startswith :: "u8 list \<Rightarrow> u8 list \<Rightarrow> bool kres" where
  "startswith p q = kbind (strncmp p (q @ [0]) (length q)) (\<lambda>r. Inr (r = 0))"

definition is_alpha :: "u8 \<Rightarrow> bool" where
  "is_alpha c \<longleftrightarrow> 0x61 \<le> c \<and> c \<le> 0x7A \<or> 0x41 \<le> c \<and> c \<le> 0x5A \<or> c = 0x5F"

definition is_alnum :: "u8 \<Rightarrow> bool" where
  "is_alnum c \<longleftrightarrow> is_alpha c \<or> 0x30 \<le> c \<and> c \<le> 0x39"

definition literals :: "string list \<Rightarrow> u8 list list" where
  "literals ss = map (map of_char) ss"

definition kw :: "u8 list list" where
  "kw = literals [''return'', ''if'', ''else'', ''while'', ''for'', ''int'', ''char'', ''sizeof'', ''struct'', ''typedef'',
     ''short'', ''long'', ''void'', ''_Bool'', ''enum'', ''static'', ''break'', ''continue'', ''goto'', ''switch'', ''case'',
     ''default'', ''extern'', ''_Alignof'', ''do'', ''signed'']"

definition ops :: "u8 list list" where
  "ops = literals [''<<='', ''>>='', ''...'', ''=='', ''!='', ''<='', ''>='', ''->'', ''++'', ''--'', ''<<'', ''>>'', ''+='',
     ''-='', ''*='', ''/='', ''&&'', ''||'', ''&='', ''|='', ''^='']"

fun find_kw :: "u8 list list \<Rightarrow> u8 list \<Rightarrow> u8 list option kres" where
  "find_kw [] p = Inr None"
| "find_kw (k # ks) p =
     kbind (startswith p k) (\<lambda>b.
     if b then kbind (char_at p (length k)) (\<lambda>c. if \<not> is_alnum c then Inr (Some k) else find_kw ks p)
     else find_kw ks p)"

fun find_op :: "u8 list list \<Rightarrow> u8 list \<Rightarrow> u8 list option kres" where
  "find_op [] p = Inr None"
| "find_op (k # ks) p = kbind (startswith p k) (\<lambda>b. if b then Inr (Some k) else find_op ks p)"

definition starts_with_reserved :: "u8 list \<Rightarrow> u8 list option kres" where
  "starts_with_reserved p = kbind (find_kw kw p) (\<lambda>r. case r of Some k \<Rightarrow> Inr (Some k) | None \<Rightarrow> find_op ops p)"

definition get_escape_char :: "u8 \<Rightarrow> u8" where
  "get_escape_char c =
     (if c = 0x61 then 0x07 else if c = 0x62 then 0x08 else if c = 0x74 then 0x09 else if c = 0x6E then 0x0A
      else if c = 0x76 then 0x0B else if c = 0x66 then 0x0C else if c = 0x72 then 0x0D else if c = 0x65 then 27
      else if c = 0x30 then 0 else c)"

text \<open>The buffer when the loop stops, and the pointer to the closing quote.\<close>

fun string_loop :: "u8 list \<Rightarrow> u8 list \<Rightarrow> (u8 list \<times> u8 list) kres" where
  "string_loop [] buf = Inl OutOfBounds"
| "string_loop (c # p) buf =
     (if length buf = 1024 then error_at
      else if c = 0 then error_at
      else if c = 0x22 then Inr (buf, c # p)
      else if c = 0x5C then (case p of [] \<Rightarrow> Inl OutOfBounds | e # p1 \<Rightarrow> string_loop p1 (buf @ [get_escape_char e]))
      else string_loop p (buf @ [c]))"

definition read_string_literal :: "u8 list \<Rightarrow> token kres" where
  "read_string_literal start =
     kbind (string_loop (drop 1 start) []) (\<lambda>(buf, p).
     Inr ((new_token TK_STR start (length start - length p + 1))
       \<lparr>tk_contents := buf @ [0], tk_cont_len := sint (of_nat (length buf + 1) :: u8)\<rparr>))"

definition read_char_literal :: "u8 list \<Rightarrow> token kres" where
  "read_char_literal start =
     kbind (char_at start 1) (\<lambda>c1.
     if c1 = 0 then error_at
     else
       kbind (if c1 = 0x5C then kbind (char_at start 2) (\<lambda>e. Inr (get_escape_char e, 3)) else Inr (c1, 2)) (\<lambda>(c, n).
       kbind (char_at start n) (\<lambda>q.
       if q \<noteq> 0x27 then error_at
       else Inr ((new_token TK_NUM start (n + 1))\<lparr>tk_val := sint c\<rparr>))))"

text \<open>The prefix of a number and its base.\<close>

definition number_base :: "u8 list \<Rightarrow> (nat \<times> int) kres" where
  "number_base p =
     kbind (strncasecmp p [0x30, 0x78, 0] 2) (\<lambda>x.
     kbind (if x = 0 then kbind (char_at p 2) (\<lambda>c. Inr (is_alnum c)) else Inr False) (\<lambda>hex.
     if hex then Inr (2, 16)
     else
       kbind (strncasecmp p [0x30, 0x62, 0] 2) (\<lambda>b.
       kbind (if b = 0 then kbind (char_at p 2) (\<lambda>c. Inr (is_alnum c)) else Inr False) (\<lambda>bin.
       if bin then Inr (2, 2)
       else kbind (char_at p 0) (\<lambda>c. Inr (0, if c = 0x30 then 8 else 10))))))"

definition read_int_literal :: "u8 list \<Rightarrow> token kres" where
  "read_int_literal start =
     kbind (number_base start) (\<lambda>(n, base).
     kbind (strtol (drop n start) base) (\<lambda>(val, p).
     kbind (char_at p 0) (\<lambda>c.
     if is_alnum c then error_at
     else Inr ((new_token TK_NUM start (length start - length p))\<lparr>tk_val := val\<rparr>))))"

text \<open>The end of a line comment is looked for without regard to the end of the text.\<close>

fun skip_line :: "u8 list \<Rightarrow> u8 list kres" where
  "skip_line [] = Inl OutOfBounds"
| "skip_line (c # p) = (if c \<noteq> 0x0A then skip_line p else Inr (c # p))"

text \<open>Every token has characters, so the loop ends.\<close>

lemma strtol_digits_length: "strtol_digits base r p = Inr (v, q) \<Longrightarrow> length q \<le> length p"
  by (induction base r p rule: strtol_digits.induct) (auto simp: Let_def split: if_splits)

lemma strtol_length:
  assumes "strtol p base = Inr (v, q)"
  shows "length q \<le> length p"
proof -
  obtain c r where d: "dropWhile isspace p = c # r" using assms by (cases "dropWhile isspace p") (simp_all add: strtol_def)
  then have "length (c # r) \<le> length p" by (metis length_dropWhile_le)
  then show ?thesis using assms d
    by (auto simp: strtol_def Let_def char_at_def simp del: strtol_digits.simps split: if_splits dest!: strtol_digits_length)
qed

lemma number_base_prefix:
  assumes "number_base p = Inr (n, base)"
  shows "n = 2 \<and> 2 < length p \<or> n = 0 \<and> p \<noteq> [] \<and> base = (if p ! 0 = 0x30 then 8 else 10)"
  using assms by (auto simp: number_base_def char_at_def split: if_splits)

lemma strtol_first:
  assumes "isdigit c" and "base = (if c = 0x30 then 8 else 10)" and "strtol (c # r) base = Inr (v, q)"
  shows "length q < length (c # r)"
proof -
  have "0x30 \<le> uint c" "uint c \<le> 0x39" using assms(1) by (simp_all add: isdigit_def word_le_def)
  moreover have "uint c = 0x30 \<longleftrightarrow> c = 0x30" by (simp add: word_uint_eq_iff)
  ultimately have "uint c - 0x30 < base" using assms(2) by auto
  moreover have "\<not> isspace c" "c \<noteq> 0" "c \<noteq> 0x2D" "c \<noteq> 0x2B" using assms(1) by (auto simp: isspace_def isdigit_def)
  moreover have "base \<noteq> 16" using assms(2) by auto
  ultimately show ?thesis using assms(1,3) by (auto simp: strtol_def Let_def dest!: strtol_digits_length)
qed

lemma read_int_literal_len:
  assumes "read_int_literal (c # p) = Inr tok" and "isdigit c"
  shows "0 < tk_len tok"
proof -
  obtain n base v q where nb: "number_base (c # p) = Inr (n, base)" "strtol (drop n (c # p)) base = Inr (v, q)"
      "tk_len tok = length (c # p) - length q"
    using assms(1) by (auto simp: read_int_literal_def char_at_def new_token_def split: if_splits)
  from number_base_prefix [OF nb(1)] show ?thesis
  proof
    assume "n = 2 \<and> 2 < length (c # p)"
    then show ?thesis using nb(3) strtol_length [OF nb(2)] by simp
  next
    assume "n = 0 \<and> c # p \<noteq> [] \<and> base = (if (c # p) ! 0 = 0x30 then 8 else 10)"
    then have "length q < length (c # p)" using strtol_first [OF assms(2), of base p v q] nb(2) by simp
    then show ?thesis using nb(3) by simp
  qed
qed

lemma read_string_literal_len: "read_string_literal p = Inr tok \<Longrightarrow> 0 < tk_len tok"
  by (auto simp: read_string_literal_def new_token_def)

lemma read_char_literal_len: "read_char_literal p = Inr tok \<Longrightarrow> 0 < tk_len tok"
  by (auto simp: read_char_literal_def new_token_def error_at_def split: if_splits)

lemma skip_line_length: "skip_line p = Inr q \<Longrightarrow> length q \<le> length p"
  by (induction p) (auto split: if_splits)

lemma strstr_length: "strstr p n = Inr (Some q) \<Longrightarrow> length q \<le> length p"
proof -
  have "strstr_from p n = Inr (Some q) \<Longrightarrow> length q \<le> length p"
    by (induction p n rule: strstr_from.induct) (fastforce split: if_splits)+
  then show "strstr p n = Inr (Some q) \<Longrightarrow> length q \<le> length p" by (auto simp: strstr_def split: if_splits)
qed

lemma find_kw_in: "find_kw ks p = Inr (Some k) \<Longrightarrow> k \<in> set ks"
  by (induction ks p rule: find_kw.induct) (fastforce split: if_splits)+

lemma find_op_in: "find_op ks p = Inr (Some k) \<Longrightarrow> k \<in> set ks"
  by (induction ks p rule: find_op.induct) (fastforce split: if_splits)+

lemma reserved_nonempty: "k \<in> set kw \<union> set ops \<Longrightarrow> k \<noteq> []"
  by (auto simp: kw_def ops_def literals_def)

lemma starts_with_reserved_len: "starts_with_reserved p = Inr (Some k) \<Longrightarrow> 0 < length k"
  using reserved_nonempty find_kw_in find_op_in
  by (fastforce simp: starts_with_reserved_def split: option.splits)

function tokenize_from :: "u8 list \<Rightarrow> token list kres" where
  "tokenize_from [] = Inl OutOfBounds"
| "tokenize_from (c # r) =
     (let p = c # r
      in if c = 0 then Inr [new_token TK_EOF p 0]
         else if isspace c then tokenize_from r
         else
           kbind (startswith p [0x2F, 0x2F]) (\<lambda>line.
           if line then kbind (skip_line (drop 2 p)) tokenize_from
           else
             kbind (startswith p [0x2F, 0x2A]) (\<lambda>block.
             if block then
               kbind (strstr (drop 2 p) [0x2A, 0x2F]) (\<lambda>q.
               case q of None \<Rightarrow> error_at | Some q \<Rightarrow> tokenize_from (drop 2 q))
             else if c = 0x22 then
               kbind (read_string_literal p) (\<lambda>tok.
               kbind (tokenize_from (drop (tk_len tok) p)) (\<lambda>ts. Inr (tok # ts)))
             else if c = 0x27 then
               kbind (read_char_literal p) (\<lambda>tok.
               kbind (tokenize_from (drop (tk_len tok) p)) (\<lambda>ts. Inr (tok # ts)))
             else
               kbind (starts_with_reserved p) (\<lambda>res.
               case res of
                 Some k \<Rightarrow>
                   kbind (tokenize_from (drop (length k) p)) (\<lambda>ts. Inr (new_token TK_RESERVED p (length k) # ts))
               | None \<Rightarrow>
                   if is_alpha c then
                     (let rest = dropWhile is_alnum r
                      in if rest = [] then Inl OutOfBounds
                         else kbind (tokenize_from rest) (\<lambda>ts. Inr (new_token TK_IDENT p (length p - length rest) # ts)))
                   else if ispunct c then kbind (tokenize_from r) (\<lambda>ts. Inr (new_token TK_RESERVED p 1 # ts))
                   else if isdigit c then
                     kbind (read_int_literal p) (\<lambda>tok.
                     kbind (tokenize_from (drop (tk_len tok) p)) (\<lambda>ts. Inr (tok # ts)))
                   else error_at))))"
  by pat_completeness auto

termination
proof (relation "measure length", goal_cases)
  case (4 c r p line block found q)
  then show ?case using strstr_length [of "drop 2 p" "[0x2A, 0x2F]" q] by simp
qed (auto dest: skip_line_length strstr_length read_string_literal_len read_char_literal_len starts_with_reserved_len
    read_int_literal_len intro: le_imp_less_Suc length_dropWhile_le)

declare tokenize_from.simps(2) [simp del]

text \<open>\<open>user_input\<close> is the text of the file with a newline at its end, and a zero.\<close>

definition read_file :: "u8 list \<Rightarrow> u8 list" where
  "read_file contents = (if contents = [] \<or> last contents \<noteq> 0x0A then contents @ [0x0A] else contents) @ [0]"

definition tokenize :: "u8 list \<Rightarrow> token list kres" where
  "tokenize user_input = tokenize_from user_input"

end
