(* ===== verification/Mcc_Safe.thy ===== *)
theory Mcc_Safe
  imports Mcc_Tokens "HOL-Library.Sublist"
begin

text \<open>
  The tokenizer never leaves the text: whatever a source file contains, it stops with an error or with tokens that are the
  lexemes of the text in order, with nothing but white space and comments between them.
\<close>

section \<open>Texts that end\<close>

definition ended :: "u8 list \<Rightarrow> bool" where
  "ended p \<longleftrightarrow> p \<noteq> [] \<and> last p = 0"

definition lined :: "u8 list \<Rightarrow> bool" where
  "lined p \<longleftrightarrow> (\<exists>x. p = x @ [0x0A, 0])"

text \<open>The text of a file and what is left of it: its zero at the end, in front of it the newline.\<close>

definition text_left :: "u8 list \<Rightarrow> bool" where
  "text_left p \<longleftrightarrow> p = [0] \<or> lined p"

lemma text_left_ended: "text_left p \<Longrightarrow> ended p"
  by (auto simp: text_left_def lined_def ended_def)

lemma text_left_suffix:
  assumes "text_left p" and "suffix q p" and "q \<noteq> []"
  shows "text_left q"
proof (cases "p = [0]")
  case True
  obtain y where "p = y @ q" using assms(2) by (auto simp: suffix_def)
  with True assms(3) show ?thesis by (cases y) (auto simp: text_left_def)
next
  case False
  then obtain x where "p = x @ [0x0A, 0]" using assms(1) by (auto simp: text_left_def lined_def)
  moreover obtain y where "p = y @ q" using assms(2) by (auto simp: suffix_def)
  ultimately have "y @ q = (x @ [0x0A]) @ [0]" by simp
  then obtain q1 where q1: "q = q1 @ [0]" "y @ q1 = x @ [0x0A]" using assms(3) by (cases q rule: rev_cases) auto
  show ?thesis
  proof (cases q1 rule: rev_cases)
    case Nil
    with q1(1) show ?thesis by (simp add: text_left_def)
  next
    case (snoc q2 a)
    with q1 show ?thesis by (auto simp: text_left_def lined_def)
  qed
qed

lemma ended_Cons: "ended (c # p) \<Longrightarrow> c \<noteq> 0 \<Longrightarrow> ended p"
  by (cases p) (auto simp: ended_def)

lemma text_left_next: "text_left (c # p) \<Longrightarrow> c \<noteq> 0 \<Longrightarrow> text_left p"
  using ended_Cons [OF text_left_ended] by (auto intro!: text_left_suffix [of "c # p" p] simp: suffix_ConsI ended_def)

text \<open>Behind a character that does not end the line there is still a whole line.\<close>

lemma lined_next: "text_left (c # p) \<Longrightarrow> c \<noteq> 0 \<Longrightarrow> c \<noteq> 0x0A \<Longrightarrow> lined p"
  by (auto simp: text_left_def lined_def Cons_eq_append_conv)

lemma lined_text: "lined p \<Longrightarrow> text_left p"
  by (simp add: text_left_def)

lemma lined_two: "lined p \<Longrightarrow> \<exists>a q. p = a # q \<and> q \<noteq> []"
proof -
  assume "lined p"
  then obtain x where "p = x @ [0x0A, 0]" by (auto simp: lined_def)
  then show ?thesis by (cases x) simp_all
qed

lemma ended_drop: "ended p \<Longrightarrow> n < length p \<Longrightarrow> p ! n \<noteq> 0 \<Longrightarrow> ended (drop (Suc n) p) \<and> Suc n < length p"
proof -
  assume p: "ended p" "n < length p" "p ! n \<noteq> 0"
  then have "Suc n \<noteq> length p" unfolding ended_def by (metis diff_Suc_1 last_conv_nth)
  with p show ?thesis by (simp add: ended_def last_drop)
qed

lemma read_file_text: "text_left (read_file contents)"
proof (cases "contents = [] \<or> last contents \<noteq> 0x0A")
  case False
  then have "contents = butlast contents @ [0x0A]" by (metis append_butlast_last_id)
  then have "read_file contents = butlast contents @ [0x0A, 0]" using False by (simp add: read_file_def)
  then show ?thesis by (auto simp: text_left_def lined_def)
qed (auto simp: text_left_def lined_def read_file_def)

section \<open>Lexemes\<close>

text \<open>White space and comments.\<close>

definition blank :: "u8 list \<Rightarrow> bool" where
  "blank g \<longleftrightarrow> (\<exists>c. g = [c] \<and> isspace c) \<or> (\<exists>b. g = [0x2F, 0x2F] @ b \<and> 0x0A \<notin> set b) \<or> (\<exists>b. g = [0x2F, 0x2A] @ b @ [0x2A, 0x2F])"

definition between :: "u8 list \<Rightarrow> u8 list \<Rightarrow> bool" where
  "between p q \<longleftrightarrow> (\<exists>gs. p = concat gs @ q \<and> list_all blank gs)"

lemma between_refl [simp]: "between p p"
  unfolding between_def by (intro exI [of _ "[]"]) simp

lemma between_blank: "blank g \<Longrightarrow> between p q \<Longrightarrow> between (g @ p) q"
proof -
  assume "blank g" "between p q"
  then obtain gs where "p = concat gs @ q" "list_all blank gs" by (auto simp: between_def)
  with \<open>blank g\<close> show "between (g @ p) q" unfolding between_def by (intro exI [of _ "g # gs"]) simp
qed

text \<open>What a token of each kind looks like; identifiers and numbers are as long as they can be.\<close>

definition lexeme :: "token \<Rightarrow> bool" where
  "lexeme t \<longleftrightarrow>
     (let w = take (tk_len t) (tk_str t); rest = drop (tk_len t) (tk_str t)
      in w \<noteq> [] \<and> rest \<noteq> [] \<and>
        (case tk_kind t of
           TK_RESERVED \<Rightarrow> w \<in> set kw \<union> set ops \<or> length w = 1 \<and> ispunct (hd w)
         | TK_IDENT \<Rightarrow> is_alpha (hd w) \<and> list_all is_alnum w \<and> \<not> is_alnum (hd rest)
         | TK_STR \<Rightarrow> 2 \<le> length w \<and> hd w = 0x22 \<and> last w = 0x22
         | TK_NUM \<Rightarrow> hd w = 0x27 \<and> last w = 0x27 \<or> isdigit (hd w) \<and> \<not> is_alnum (hd rest)
         | TK_EOF \<Rightarrow> False))"

section \<open>The helpers return\<close>

lemma strncmp_ended:
  assumes "ended p" and "0 \<notin> set q"
  shows "\<exists>r. strncmp p (q @ y) (length q) = Inr r \<and> (r = 0 \<longleftrightarrow> take (length q) p = q)"
  using assms
proof (induction q arbitrary: p)
  case (Cons b q)
  then obtain a p' where p: "p = a # p'" by (cases p) (auto simp: ended_def)
  show ?case
  proof (cases "a \<noteq> 0 \<and> a = b")
    case True
    then have "ended p'" using ended_Cons Cons.prems(1) p by blast
    from Cons.IH [OF this] Cons.prems(2) show ?thesis using True p by auto
  next
    case False
    then have "sint a - sint b \<noteq> 0" "a \<noteq> b" using Cons.prems(2) by auto
    with False p show ?thesis by auto
  qed
qed simp

lemma startswith_ended: "ended p \<Longrightarrow> 0 \<notin> set q \<Longrightarrow> startswith p q = Inr (take (length q) p = q)"
  using strncmp_ended [of p q "[0]"] by (auto simp: startswith_def)

lemma prefix_shorter:
  assumes "ended p" and "0 \<notin> set q" and "take (length q) p = q"
  shows "length q < length p" "ended (drop (length q) p)"
proof -
  have "length q \<le> length p" using assms(3) by (metis length_take min.cobounded1)
  moreover have "length q \<noteq> length p"
    using assms by (metis ended_def last_in_set order_refl take_all)
  ultimately show "length q < length p" by simp
  then show "ended (drop (length q) p)" using assms(1) by (simp add: ended_def)
qed

lemma reserved_chars: "k \<in> set kw \<union> set ops \<Longrightarrow> 0 \<notin> set k"
  by (auto simp: kw_def ops_def literals_def of_char_def)

lemma find_kw_ended:
  assumes "ended p" and "\<forall>k\<in>set ks. 0 \<notin> set k"
  shows "\<exists>r. find_kw ks p = Inr r \<and> (\<forall>k. r = Some k \<longrightarrow> take (length k) p = k \<and> 0 \<notin> set k)"
  using assms(2)
proof (induction ks)
  case (Cons k ks)
  then have k: "startswith p k = Inr (take (length k) p = k)" "0 \<notin> set k" using startswith_ended [OF assms(1)] by simp_all
  obtain r where "find_kw ks p = Inr r" "\<forall>k. r = Some k \<longrightarrow> take (length k) p = k \<and> 0 \<notin> set k" using Cons by auto
  moreover have "take (length k) p = k \<Longrightarrow> length k < length p" using prefix_shorter(1) [OF assms(1) k(2)] by blast
  ultimately show ?case using k by (auto simp: char_at_def)
qed simp

lemma find_op_ended:
  assumes "ended p" and "\<forall>k\<in>set ks. 0 \<notin> set k"
  shows "\<exists>r. find_op ks p = Inr r \<and> (\<forall>k. r = Some k \<longrightarrow> take (length k) p = k \<and> 0 \<notin> set k)"
  using assms(2)
proof (induction ks)
  case (Cons k ks)
  then have "startswith p k = Inr (take (length k) p = k)" using startswith_ended [OF assms(1)] by simp
  with Cons show ?case by auto
qed simp

lemma starts_with_reserved_ended:
  assumes "ended p"
  shows "\<exists>r. starts_with_reserved p = Inr r \<and> (\<forall>k. r = Some k \<longrightarrow> take (length k) p = k \<and> 0 \<notin> set k \<and> k \<in> set kw \<union> set ops)"
  using find_kw_ended [OF assms, of kw] find_op_ended [OF assms, of ops] reserved_chars find_kw_in find_op_in
  by (fastforce simp: starts_with_reserved_def split: option.splits)

lemma skip_line_lined: "lined p \<Longrightarrow> \<exists>b q. skip_line p = Inr q \<and> p = b @ q \<and> 0x0A \<notin> set b \<and> q \<noteq> []"
proof (induction p)
  case (Cons c p)
  show ?case
  proof (cases "c = 0x0A")
    case True
    then show ?thesis by (intro exI [of _ "[]"] exI [of _ "c # p"]) simp
  next
    case False
    have "c \<noteq> 0 \<or> lined p" using Cons.prems False by (auto simp: lined_def Cons_eq_append_conv)
    then have "lined p" using lined_next [OF lined_text [OF Cons.prems]] False by blast
    with Cons.IH obtain b q where "skip_line p = Inr q" "p = b @ q" "0x0A \<notin> set b" "q \<noteq> []" by blast
    with False show ?thesis by (intro exI [of _ "c # b"] exI [of _ q]) simp
  qed
qed (simp add: lined_def)

lemma strstr_here_ended: "ended h \<Longrightarrow> 0 \<notin> set n \<Longrightarrow> strstr_here h n = Inr (take (length n) h = n)"
proof (induction h n rule: strstr_here.induct)
  case (3 a h c n)
  then show ?case using ended_Cons [of a h] by auto
qed (simp_all add: ended_def)

lemma strstr_ended:
  assumes "ended h" and "0 \<notin> set n" and "n \<noteq> []"
  shows "\<exists>r. strstr h n = Inr r \<and> (\<forall>q. r = Some q \<longrightarrow> suffix q h \<and> take (length n) q = n \<and> ended q)"
  using assms(1)
proof (induction h)
  case (Cons c h)
  show ?case
  proof (cases "c = 0 \<or> take (length n) (c # h) = n")
    case True
    then show ?thesis using strstr_here_ended [OF Cons.prems assms(2)] Cons.prems assms(3) by (auto simp: strstr_def)
  next
    case False
    then show ?thesis using strstr_here_ended [OF Cons.prems assms(2)] Cons.IH ended_Cons [OF Cons.prems] assms(3)
      by (auto simp: strstr_def intro: suffix_ConsI)
  qed
qed (simp add: ended_def)

lemma string_loop_text:
  assumes "text_left p"
  shows "string_loop p buf = error_at \<or> (\<exists>b q. string_loop p buf = Inr (b, 0x22 # q) \<and> suffix (0x22 # q) p)"
  using assms
proof (induction p buf rule: string_loop.induct)
  case (2 c p buf)
  show ?case
  proof (cases "length buf = 1024 \<or> c = 0 \<or> c = 0x22")
    case False
    show ?thesis
    proof (cases "c = 0x5C")
      case True
      have "lined p" using lined_next [OF 2(3)] False True by auto
      then obtain e p1 where p: "p = e # p1" "p1 \<noteq> []" using lined_two by blast
      then have "text_left p1"
        using text_left_suffix [OF lined_text [OF \<open>lined p\<close>], of p1] by (simp add: suffix_ConsI)
      then have "string_loop p1 (buf @ [get_escape_char e]) = error_at \<or>
          (\<exists>b q. string_loop p1 (buf @ [get_escape_char e]) = Inr (b, 0x22 # q) \<and> suffix (0x22 # q) p1)"
        using 2(1) False True p \<open>text_left p1\<close> by auto
      then show ?thesis using False True p by (auto intro: suffix_ConsI)
    next
      case no: False
      have "text_left p" using text_left_next [OF 2(3)] False by auto
      then show ?thesis using 2(2) False no by (auto intro: suffix_ConsI)
    qed
  qed auto
qed (simp add: text_left_def lined_def)

lemma read_char_literal_text:
  assumes "text_left (c # p)" and "c = 0x27"
  shows "read_char_literal (c # p) = error_at \<or>
    (\<exists>tok. read_char_literal (c # p) = Inr tok \<and> tk_str tok = c # p \<and> tk_len tok < length (c # p) \<and> lexeme tok)"
proof -
  have "lined p" using lined_next [OF assms(1)] assms(2) by simp
  then obtain a q where p: "p = a # q" "q \<noteq> []" using lined_two by blast
  have "ended (c # p)" using text_left_ended [OF assms(1)] .
  note close = ended_drop [OF this]
  show ?thesis
  proof (cases "a = 0x5C")
    case True
    have "lined q" using lined_next [of a q] lined_text [OF \<open>lined p\<close>] p True by simp
    then obtain e d where "q = e # d" "d \<noteq> []" using lined_two by blast
    then show ?thesis using p True close [of 3]
      by (cases d) (auto simp: read_char_literal_def char_at_def new_token_def lexeme_def Let_def assms(2))
  next
    case False
    then show ?thesis using p close [of 2]
      by (cases q) (auto simp: read_char_literal_def char_at_def new_token_def lexeme_def Let_def assms(2))
  qed
qed

lemma strtol_digits_ended: "ended p \<Longrightarrow> \<exists>v q. strtol_digits base r p = Inr (v, q) \<and> ended q \<and> suffix q p"
proof (induction base r p rule: strtol_digits.induct)
  case (2 base r c p)
  show ?case using 2 ended_Cons [OF 2(3)] by (auto simp: Let_def suffix_Cons)
qed (simp add: ended_def)

lemma dropWhile_ended: "ended p \<Longrightarrow> \<not> P 0 \<Longrightarrow> ended (dropWhile P p)"
  by (induction p) (auto simp: ended_def split: if_splits)

lemma strtol_ended:
  assumes "ended p"
  shows "\<exists>v q. strtol p base = Inr (v, q) \<and> ended q \<and> suffix q p"
proof -
  have "ended (dropWhile isspace p)" using dropWhile_ended [OF assms] by (simp add: isspace_def)
  then obtain c r where cr: "dropWhile isspace p = c # r" "ended (c # r)" by (cases "dropWhile isspace p") (auto simp: ended_def)
  have s1: "suffix (c # r) p" using suffix_dropWhile [of isspace p] cr(1) by simp
  define p0 where "p0 = (if c = 0x2D \<or> c = 0x2B then r else c # r)"
  have p0: "ended p0" using cr(2) ended_Cons [OF cr(2)] by (auto simp: p0_def)
  then have "p0 \<noteq> []" by (auto simp: ended_def)
  have s2: "suffix p0 (c # r)" by (simp add: p0_def suffix_ConsI)
  define hex where "hex = (if base = 16 then kbind (char_at p0 0) (\<lambda>a. if a = 0x30 then kbind (char_at p0 1) (\<lambda>x.
      Inr (if x = 0x78 \<or> x = 0x58 then drop 2 p0 else p0)) else Inr p0) else Inr p0)"
  have "\<exists>p1. hex = Inr p1 \<and> ended p1 \<and> suffix p1 p0"
  proof -
    have "p0 ! 0 = 0x30 \<Longrightarrow> 1 < length p0" using ended_drop [OF p0, of 0] \<open>p0 \<noteq> []\<close> by auto
    moreover have "1 < length p0 \<Longrightarrow> p0 ! 1 \<noteq> 0 \<Longrightarrow> ended (drop 2 p0)" using ended_drop [OF p0, of 1] by (simp add: numeral_2_eq_2)
    ultimately show ?thesis using p0 \<open>p0 \<noteq> []\<close> by (auto simp: hex_def char_at_def suffix_drop)
  qed
  then obtain p1 where p1: "hex = Inr p1" "ended p1" "suffix p1 p0" by blast
  obtain v q where q: "strtol_digits base 0 p1 = Inr (v, q)" "ended q" "suffix q p1" using strtol_digits_ended [OF p1(2)] by blast
  have "strtol p base = Inr (sint (if c = 0x2D then - v else v), q)"
    unfolding strtol_def cr(1) list.case Let_def unfolding p0_def [symmetric] hex_def [symmetric] by (simp add: p1(1) q(1))
  moreover have "suffix q p" using q(3) p1(3) s2 s1 suffix_order.trans by metis
  ultimately show ?thesis using q(2) by blast
qed

lemma strncasecmp_prefix:
  assumes "ended p" and "tolower x \<noteq> 0" "tolower y \<noteq> 0"
  shows "\<exists>r. strncasecmp p [x, y, 0] 2 = Inr r \<and> (r = 0 \<longrightarrow> 2 < length p \<and> ended (drop 2 p))"
proof -
  obtain a p1 where p: "p = a # p1" using assms(1) by (cases p) (auto simp: ended_def)
  have t0: "tolower 0 = 0" by (simp add: tolower_def isupper_def)
  show ?thesis
  proof (cases "a \<noteq> 0 \<and> tolower a = tolower x")
    case True
    then have e1: "ended p1" using ended_Cons assms(1) p by blast
    then obtain b p2 where p1: "p1 = b # p2" by (cases p1) (auto simp: ended_def)
    show ?thesis
    proof (cases "b \<noteq> 0 \<and> tolower b = tolower y")
      case yes: True
      then have "ended p2" using ended_Cons e1 p1 by blast
      with True yes p p1 show ?thesis by (auto simp: numeral_2_eq_2 ended_def)
    next
      case False
      then have "sint (tolower b) - sint (tolower y) \<noteq> 0" using assms(3) t0 by auto
      with True False p p1 show ?thesis by (auto simp: numeral_2_eq_2)
    qed
  next
    case False
    then have "sint (tolower a) - sint (tolower x) \<noteq> 0" using assms(2) t0 by auto
    with False p show ?thesis by (auto simp: numeral_2_eq_2)
  qed
qed

lemma number_base_ended:
  assumes "ended p"
  shows "\<exists>n base. number_base p = Inr (n, base) \<and> ended (drop n p)"
proof -
  have t: "tolower 0x30 \<noteq> 0" "tolower 0x78 \<noteq> 0" "tolower 0x62 \<noteq> 0" by (simp_all add: tolower_def isupper_def)
  obtain r1 r2 where "strncasecmp p [0x30, 0x78, 0] 2 = Inr r1" "r1 = 0 \<longrightarrow> 2 < length p \<and> ended (drop 2 p)"
      "strncasecmp p [0x30, 0x62, 0] 2 = Inr r2" "r2 = 0 \<longrightarrow> 2 < length p \<and> ended (drop 2 p)"
    using strncasecmp_prefix [OF assms t(1,2)] strncasecmp_prefix [OF assms t(1,3)] by blast
  moreover have "0 < length p" using assms by (simp add: ended_def)
  ultimately show ?thesis using assms by (auto simp: number_base_def char_at_def)
qed

lemma read_int_literal_ended:
  assumes "ended p" and "isdigit (hd p)"
  shows "read_int_literal p = error_at \<or> (\<exists>tok. read_int_literal p = Inr tok \<and> tk_str tok = p \<and> tk_len tok < length p \<and> lexeme tok)"
proof -
  obtain n base where nb: "number_base p = Inr (n, base)" "ended (drop n p)" using number_base_ended [OF assms(1)] by blast
  obtain v q where q: "strtol (drop n p) base = Inr (v, q)" "ended q" "suffix q (drop n p)" using strtol_ended [OF nb(2)] by blast
  have l: "0 < length q" "0 < length p" using q(2) assms(1) by (auto simp: ended_def)
  have "suffix q p" using q(3) suffix_drop suffix_order.trans by metis
  then obtain b where b: "p = b @ q" by (auto simp: suffix_def)
  show ?thesis
  proof (cases "is_alnum (q ! 0)")
    case True
    with nb(1) q(1) l show ?thesis by (auto simp: read_int_literal_def char_at_def)
  next
    case False
    define tok where "tok = (new_token TK_NUM p (length p - length q))\<lparr>tk_val := v\<rparr>"
    have run: "read_int_literal p = Inr tok" using nb(1) q(1) l False by (simp add: read_int_literal_def char_at_def tok_def)
    obtain c r where p: "p = c # r" using l by (cases p) auto
    have "0 < tk_len tok" using read_int_literal_len [of c r tok] run assms(2) p by simp
    then have "b \<noteq> []" using b by (auto simp: tok_def new_token_def)
    have "isdigit (hd b)" "\<not> is_alnum (hd q)" "q \<noteq> []" using assms(2) b l False \<open>b \<noteq> []\<close> by (simp_all add: hd_conv_nth nth_append)
    then have "lexeme tok" using b \<open>b \<noteq> []\<close> by (simp add: lexeme_def tok_def new_token_def Let_def)
    with run l b \<open>b \<noteq> []\<close> show ?thesis by (auto simp: tok_def new_token_def)
  qed
qed

section \<open>The loop\<close>

definition goes_on :: "u8 list \<Rightarrow> bool" where
  "goes_on p \<longleftrightarrow> tokenize_from p = error_at \<or> (\<exists>q. text_left q \<and> length q < length p \<and>
     ((\<exists>g. p = g @ q \<and> blank g) \<and> tokenize_from p = tokenize_from q \<or>
      (\<exists>tok. tk_str tok = p \<and> lexeme tok \<and> drop (tk_len tok) p = q \<and>
         tokenize_from p = kbind (tokenize_from q) (\<lambda>ts. Inr (tok # ts)))))"

lemma goes_on_token:
  assumes "text_left p" and "tk_str tok = p" "lexeme tok"
    and "tokenize_from p = kbind (tokenize_from (drop (tk_len tok) p)) (\<lambda>ts. Inr (tok # ts))"
  shows "goes_on p"
proof -
  have "take (tk_len tok) p \<noteq> []" "drop (tk_len tok) p \<noteq> []" using assms(2,3) by (auto simp: lexeme_def Let_def)
  then have l: "0 < tk_len tok" "tk_len tok < length p" by auto
  have "text_left (drop (tk_len tok) p)" by (rule text_left_suffix [OF assms(1)]) (use l in \<open>simp_all add: suffix_drop\<close>)
  moreover have "length (drop (tk_len tok) p) < length p" using l by simp
  ultimately show ?thesis using assms unfolding goes_on_def by metis
qed

lemma goes_on_skip:
  assumes "text_left p" and "p = g @ q" "blank g" "q \<noteq> []" and "tokenize_from p = tokenize_from q"
  shows "goes_on p"
proof -
  have "g \<noteq> []" using assms(3) by (auto simp: blank_def)
  moreover have "text_left q" by (rule text_left_suffix [OF assms(1)]) (use assms(2,4) in \<open>simp_all add: suffix_def\<close>)
  ultimately show ?thesis using assms unfolding goes_on_def by auto
qed

lemma not_comment: "startswith p [0x2F, 0x2F] = Inr False \<Longrightarrow> startswith p [0x2F, 0x2A] = Inr False \<Longrightarrow> p = c # r \<Longrightarrow> c \<noteq> 0 \<Longrightarrow> \<not> isspace c \<Longrightarrow>
  tokenize_from p =
    (if c = 0x22 then kbind (read_string_literal p) (\<lambda>tok. kbind (tokenize_from (drop (tk_len tok) p)) (\<lambda>ts. Inr (tok # ts)))
     else if c = 0x27 then kbind (read_char_literal p) (\<lambda>tok. kbind (tokenize_from (drop (tk_len tok) p)) (\<lambda>ts. Inr (tok # ts)))
     else kbind (starts_with_reserved p) (\<lambda>res. case res of
        Some k \<Rightarrow> kbind (tokenize_from (drop (length k) p)) (\<lambda>ts. Inr (new_token TK_RESERVED p (length k) # ts))
      | None \<Rightarrow>
          if is_alpha c then (if dropWhile is_alnum r = [] then Inl OutOfBounds
            else kbind (tokenize_from (dropWhile is_alnum r)) (\<lambda>ts. Inr (new_token TK_IDENT p (length p - length (dropWhile is_alnum r)) # ts)))
          else if ispunct c then kbind (tokenize_from r) (\<lambda>ts. Inr (new_token TK_RESERVED p 1 # ts))
          else if isdigit c then
            kbind (read_int_literal p) (\<lambda>tok. kbind (tokenize_from (drop (tk_len tok) p)) (\<lambda>ts. Inr (tok # ts)))
          else error_at))"
  by (simp add: tokenize_from.simps(2) Let_def)

lemma goes_on_comment:
  assumes T: "text_left p" and p: "p = c # r" "c \<noteq> 0" "\<not> isspace c"
    and comment: "startswith p [0x2F, 0x2F] = Inr True \<or> startswith p [0x2F, 0x2A] = Inr True"
  shows "goes_on p"
proof -
  have E: "ended p" by (rule text_left_ended [OF T])
  have st: "startswith p [0x2F, a] = Inr (take (Suc (Suc 0)) p = [0x2F, a])" if "a \<noteq> 0" for a
    using startswith_ended [OF E, of "[0x2F, a]"] that by simp
  have slash: "\<exists>a s. p = 0x2F # a # s \<and> a \<noteq> 0x0A \<and> a \<noteq> 0"
    using comment p st [of "0x2F"] st [of "0x2A"] by (cases r) auto
  then obtain a s where s: "p = 0x2F # a # s" "a \<noteq> 0x0A" "a \<noteq> 0" by blast
  have l: "lined (a # s)" using lined_next [of "0x2F" "a # s"] T s(1) by simp
  have "lined s" using lined_next [of a s] lined_text [OF l] s(2,3) by simp
  have cr: "c = 0x2F" "r = a # s" using p(1) s(1) by simp_all
  show ?thesis
  proof (cases "startswith p [0x2F, 0x2F] = Inr True")
    case True
    obtain b q where q: "skip_line s = Inr q" "s = b @ q" "0x0A \<notin> set b" "q \<noteq> []" using skip_line_lined [OF \<open>lined s\<close>] by blast
    have a: "a = 0x2F" using True st [of "0x2F"] s(1) by simp
    have "tokenize_from p = tokenize_from q" using True p q(1) by (simp add: tokenize_from.simps(2) Let_def cr)
    moreover have "blank ([0x2F, 0x2F] @ b)" using q(3) by (auto simp: blank_def)
    ultimately show ?thesis using goes_on_skip [OF T, of "[0x2F, 0x2F] @ b" q] q(2,4) s(1) a by simp
  next
    case False
    then have no: "startswith p [0x2F, 0x2F] = Inr False" using st [of "0x2F"] by auto
    obtain f where f: "strstr s [0x2A, 0x2F] = Inr f" "\<And>q. f = Some q \<Longrightarrow> suffix q s \<and> take (Suc (Suc 0)) q = [0x2A, 0x2F] \<and> ended q"
      using strstr_ended [of s "[0x2A, 0x2F]"] text_left_ended [OF lined_text [OF \<open>lined s\<close>]] by auto
    have run: "tokenize_from p = (case f of None \<Rightarrow> error_at | Some q \<Rightarrow> tokenize_from (drop 2 q))"
      using False no comment p f(1) by (simp add: tokenize_from.simps(2) Let_def cr)
    show ?thesis
    proof (cases f)
      case None
      with run show ?thesis by (simp add: goes_on_def)
    next
      case (Some q)
      have q: "suffix q s" "take (Suc (Suc 0)) q = [0x2A, 0x2F]" "ended q" using f(2) [OF Some] by auto
      then have "ended (drop (Suc (Suc 0)) q)" using prefix_shorter [of q "[0x2A, 0x2F]"] by simp
      then have e: "ended (drop 2 q)" by (simp only: numeral_2_eq_2)
      obtain b where b: "s = b @ q" using q(1) by (auto simp: suffix_def)
      have "q = [0x2A, 0x2F] @ drop 2 q" using append_take_drop_id [of 2 q] q(2) by (simp add: numeral_2_eq_2)
      moreover have "a = 0x2A" using False comment st [of "0x2A"] s(1) by (auto split: if_splits)
      ultimately have "p = ([0x2F, 0x2A] @ b @ [0x2A, 0x2F]) @ drop 2 q" using s(1) b by (metis append.assoc append_Cons append_Nil)
      moreover have "blank ([0x2F, 0x2A] @ b @ [0x2A, 0x2F])" by (auto simp: blank_def)
      ultimately show ?thesis using run Some e by (intro goes_on_skip [OF T]) (auto simp: ended_def)
    qed
  qed
qed

lemma tokenize_goes_on:
  assumes T: "text_left p" and p: "p = c # r" "c \<noteq> 0"
  shows "goes_on p"
proof -
  have E: "ended p" "ended r" using text_left_ended [OF T] ended_Cons p by auto
  then have r: "r \<noteq> []" "suffix r p" using p(1) by (auto simp: ended_def suffix_ConsI)
  have st: "startswith p [0x2F, a] = Inr (take (Suc (Suc 0)) p = [0x2F, a])" if "a \<noteq> 0" for a
    using startswith_ended [OF E(1), of "[0x2F, a]"] that by simp
  consider (space) "isspace c"
    | (comment) "\<not> isspace c" "startswith p [0x2F, 0x2F] = Inr True \<or> startswith p [0x2F, 0x2A] = Inr True"
    | (token) "\<not> isspace c" "startswith p [0x2F, 0x2F] = Inr False" "startswith p [0x2F, 0x2A] = Inr False"
    using st [of "0x2F"] st [of "0x2A"] by fastforce
  then show ?thesis
  proof cases
    case space
    then show ?thesis using goes_on_skip [OF T, of "[c]" r] r(1) p by (simp add: tokenize_from.simps(2) Let_def blank_def)
  next
    case comment
    then show ?thesis by (rule goes_on_comment [OF T p])
  next
    case token
    note run = not_comment [OF token(2,3) p token(1)]
    obtain res where res: "starts_with_reserved p = Inr res" "\<And>k. res = Some k \<Longrightarrow> take (length k) p = k \<and> 0 \<notin> set k \<and> k \<in> set kw \<union> set ops"
      using starts_with_reserved_ended [OF E(1)] by blast
    consider (str) "c = 0x22" | (chr) "c = 0x27" | (reserved) k where "c \<noteq> 0x22" "c \<noteq> 0x27" "res = Some k"
      | (other) "c \<noteq> 0x22" "c \<noteq> 0x27" "res = None" by (cases res) auto
    then show ?thesis
    proof cases
      case str
      from string_loop_text [OF text_left_next [OF T [unfolded p(1)] p(2)], of "[]"] consider "read_string_literal p = error_at"
        | b q where "string_loop r [] = Inr (b, 0x22 # q)" "suffix (0x22 # q) r" by (auto simp: read_string_literal_def p(1))
      then show ?thesis
      proof cases
        case 1
        then show ?thesis using run str by (simp add: goes_on_def)
      next
        case 2
        have q: "q \<noteq> []" using text_left_suffix [OF text_left_next [OF T [unfolded p(1)] p(2)] 2(2)]
          by (auto simp: text_left_def lined_def Cons_eq_append_conv)
        obtain x where x: "r = x @ 0x22 # q" using 2(2) by (auto simp: suffix_def)
        obtain tok where tok: "read_string_literal p = Inr tok" "tk_kind tok = TK_STR" "tk_str tok = p" "tk_len tok = length p - length q"
          using 2(1) by (auto simp: read_string_literal_def p(1) new_token_def x)
        have "take (tk_len tok) p = 0x22 # x @ [0x22]" "drop (tk_len tok) p = q" using tok(4) x p(1) str by simp_all
        then have "lexeme tok" using tok(2,3) q by (simp add: lexeme_def Let_def)
        then show ?thesis using run str tok(1,3) by (intro goes_on_token [OF T, of tok]) auto
      qed
    next
      case chr
      then have "text_left (c # r)" using T p(1) by simp
      from read_char_literal_text [OF this chr] show ?thesis
      proof
        assume "read_char_literal (c # r) = error_at"
        then show ?thesis using run chr p(1) by (simp add: goes_on_def)
      next
        assume "\<exists>tok. read_char_literal (c # r) = Inr tok \<and> tk_str tok = c # r \<and> tk_len tok < length (c # r) \<and> lexeme tok"
        then obtain tok where "read_char_literal p = Inr tok" "tk_str tok = p" "lexeme tok" using p(1) by blast
        then show ?thesis using run chr by (intro goes_on_token [OF T, of tok]) auto
      qed
    next
      case reserved
      note k = prefix_shorter(1) [OF E(1), of k] res(2) [OF reserved(3)]
      have "0 < length k" using starts_with_reserved_len res(1) reserved(3) by simp
      then have "lexeme (new_token TK_RESERVED p (length k))"
        using k res(2) [OF reserved(3)] by (auto simp: lexeme_def new_token_def Let_def)
      then show ?thesis using run reserved res(1)
        by (intro goes_on_token [OF T, of "new_token TK_RESERVED p (length k)"]) (auto simp: new_token_def)
    next
      case other
      let ?rest = "dropWhile is_alnum r"
      have rest: "?rest \<noteq> []" "length ?rest \<le> length r"
        using dropWhile_ended [OF E(2), of is_alnum] by (auto simp: ended_def is_alnum_def is_alpha_def length_dropWhile_le)
      have "drop (length r - length ?rest) r = ?rest" by (metis dropWhile_eq_drop length_takeWhile_le takeWhile_dropWhile_id length_append add_diff_cancel_right')
      then have id: "drop (length p - length ?rest) p = ?rest" using rest(2) p(1) by (simp add: Suc_diff_le)
      consider (ident) "is_alpha c" | (punct) "\<not> is_alpha c" "ispunct c" | (int) "\<not> is_alpha c" "\<not> ispunct c" "isdigit c"
        | (no) "\<not> is_alpha c" "\<not> ispunct c" "\<not> isdigit c" by blast
      then show ?thesis
      proof cases
        case ident
        have "p = (c # takeWhile is_alnum r) @ ?rest" using p(1) by simp
        then have "take (length p - length ?rest) p = c # takeWhile is_alnum r" by (metis append_eq_conv_conj diff_add_inverse2 length_append)
        moreover have "list_all is_alnum (takeWhile is_alnum r)" by (auto simp: list_all_iff dest: set_takeWhileD)
        moreover have "\<not> is_alnum (hd ?rest)" using rest(1) by (rule hd_dropWhile)
        ultimately have "lexeme (new_token TK_IDENT p (length p - length ?rest))"
          using ident id rest(1) by (simp add: lexeme_def new_token_def Let_def is_alnum_def)
        then show ?thesis using run other res(1) rest id ident
          by (intro goes_on_token [OF T, of "new_token TK_IDENT p (length p - length ?rest)"]) (auto simp: new_token_def)
      next
        case punct
        then have "lexeme (new_token TK_RESERVED p 1)" using r(1) p(1) by (simp add: lexeme_def new_token_def Let_def)
        then show ?thesis using run other res(1) r(1) p(1) punct
          by (intro goes_on_token [OF T, of "new_token TK_RESERVED p 1"]) (auto simp: new_token_def)
      next
        case int
        from read_int_literal_ended [OF E(1)] int(3) p(1) have "read_int_literal p = error_at \<or>
            (\<exists>tok. read_int_literal p = Inr tok \<and> tk_str tok = p \<and> tk_len tok < length p \<and> lexeme tok)" by simp
        then show ?thesis
        proof
          assume "read_int_literal p = error_at"
          then show ?thesis using run other res(1) int by (simp add: goes_on_def)
        next
          assume "\<exists>tok. read_int_literal p = Inr tok \<and> tk_str tok = p \<and> tk_len tok < length p \<and> lexeme tok"
          then obtain tok where tok: "read_int_literal p = Inr tok" "tk_str tok = p" "lexeme tok" by blast
          then show ?thesis using run other res(1) int by (intro goes_on_token [OF T, of tok]) auto
        qed
      next
        case no
        then show ?thesis using run other res(1) by (simp add: goes_on_def)
      qed
    qed
  qed
qed

text \<open>Tokens that are the lexemes of a text: each begins behind the one before and what is blank, the last is the end of the text.\<close>

fun lexemes :: "u8 list \<Rightarrow> token list \<Rightarrow> bool" where
  "lexemes p [] = False"
| "lexemes p (t # ts) \<longleftrightarrow> between p (tk_str t) \<and>
     (if ts = [] then tk_kind t = TK_EOF \<and> tk_len t = 0 \<and> hd (tk_str t) = 0
      else lexeme t \<and> lexemes (drop (tk_len t) (tk_str t)) ts)"

lemma lexemes_blank: "blank g \<Longrightarrow> lexemes q ts \<Longrightarrow> lexemes (g @ q) ts"
  by (cases ts) (auto intro: between_blank)

lemma tokenize_from_returns:
  assumes "text_left p"
  shows "tokenize_from p = error_at \<or> (\<exists>ts. tokenize_from p = Inr ts \<and> lexemes p ts)"
  using assms
proof (induction p rule: measure_induct_rule [where f = length])
  case (less p)
  then obtain c r where p: "p = c # r" by (cases p) (auto simp: text_left_def lined_def)
  show ?case
  proof (cases "c = 0")
    case True
    then show ?thesis using p by (simp add: tokenize_from.simps(2) new_token_def)
  next
    case False
    from tokenize_goes_on [OF less.prems p False] consider "tokenize_from p = error_at"
      | (skip) q g where "text_left q" "length q < length p" "p = g @ q" "blank g" "tokenize_from p = tokenize_from q"
      | (tok) q tok where "text_left q" "length q < length p" "tk_str tok = p" "lexeme tok" "drop (tk_len tok) p = q"
          "tokenize_from p = kbind (tokenize_from q) (\<lambda>ts. Inr (tok # ts))"
      unfolding goes_on_def by blast
    then show ?thesis
    proof cases
      case skip
      then show ?thesis using less.IH [OF skip(2,1)] lexemes_blank by auto
    next
      case tok
      from less.IH [OF tok(2,1)] show ?thesis
      proof
        assume "tokenize_from q = error_at"
        then show ?thesis using tok(6) by simp
      next
        assume "\<exists>ts. tokenize_from q = Inr ts \<and> lexemes q ts"
        then obtain ts where ts: "tokenize_from q = Inr ts" "lexemes q ts" by blast
        then have "lexemes p (tok # ts)" using tok(3-5) by (cases ts) auto
        then show ?thesis using ts(1) tok(6) by simp
      qed
    qed simp
  qed
qed


text \<open>The tokens of \<open>x=0x2f;\<close>.\<close>

lemma tokenize_example:
  "(case tokenize (read_file (map of_char ''x=0x2f;'')) of Inl _ \<Rightarrow> [] | Inr ts \<Rightarrow> map (\<lambda>t. (tk_kind t, tk_len t, tk_val t)) ts) =
    [(TK_IDENT, 1, 0), (TK_RESERVED, 1, 0), (TK_NUM, 4, 47), (TK_RESERVED, 1, 0), (TK_EOF, 0, 0)]"
  by code_simp

end
