(* ===== verification/Spec2Isabelle.thy ===== *)
theory Spec2Isabelle
  imports Prelude Pmm Heap_Contract Scheduler_Tasks Flvm_Exec Json_Contract Tcp_Proofs Kstring Syscalls_Tasks Loader_Segments Loader_Disk Initrd_Files Dns_Search Calc_Expressions Mcc_Safe
begin

text \<open>
  MicroOS is an operating system for 32-bit x86: a kernel (\<open>src/mckrnl\<close>) that multitasks in a single address
  space per process, with file systems, messages, pipes and an optional network stack, and the libraries and programs that
  run on it (\<open>src/user\<close>). This development models the core of the kernel and libraries and programs of the user side,
  and proves what makes each of them correct, up to programs that use the kernel through system calls.

  The configuration is that of \<open>core/include/config.h\<close>: one core, heap canaries, word-wise memory routines and
  symbol tables are compiled in; threads of user programs, the network stack and TCP are compiled out but modelled, as
  they are code of the repository.

  \<^bold>\<open>How results are read\<close> (\<open>Prelude\<close>). A C function that may panic has a result of type \<open>'a kres\<close>: \<open>Inr\<close> its value, or
  \<open>Inl\<close> a \<open>kfault\<close> that says why it did not return: \<open>abortf\<close>, a failed assertion, an access outside an array, a wild pointer, a
  division by zero, or \<open>exit\<close> of a program. C leaves the wild accesses undefined; here they end the run, so a theorem whose conclusion
  is \<open>Inr\<close> shows that they do not happen. A loop that may not end is a \<open>partial_function (option)\<close> of type
  \<open>'a kloop\<close>; \<open>None\<close> means that it does not return. Words are \<open>32 word\<close> and wrap; where a component keeps sizes as
  numbers the wrap-around is written out (\<open>wrap32\<close>, \<open>sub32\<close>). Variables of type \<open>int\<close> in C, such as process identifiers, waiting times and
  the sizes of files, are integers that \<open>s32\<close> cuts to 32 bits wherever the code computes them.

  \<^bold>\<open>Memory.\<close>
  \<^item> \<open>Pmm\<close>: the page allocator, \<open>core/memory/pmm.c\<close>. The record \<open>pmm\<close> has the two bitmaps and the two counters; the boot
    information is a record with the memory map and the modules. A locale states bitmaps, another one an allocator of
    pages; both are interpreted on the code's operations. Shown: exclusive ownership and exact accounting over every sequence
    of calls, that what is reserved at boot is never handed out by any sequence of calls of all seven operations, when initialisation ends, that a
    range may cover live page tables, and that the last page of a module that is not aligned can be handed out.
  \<^item> \<open>Heap\<close>, \<open>Heap_Refinement\<close>, \<open>Heap_Contract\<close>: \<open>kmalloc\<close>, \<open>kfree\<close>, \<open>krealloc\<close>, \<open>kcalloc\<close> of \<open>core/memory/heap.c\<close>, linked segment
    headers with canaries. The headers refine a list of segments; allocation is first fit, release merges
    neighbours, and clients that stay inside their blocks are safe (locale \<open>byte_allocator\<close>).
  \<^item> \<open>Vmm\<close>, \<open>Vmm_Spaces\<close>, \<open>Vmm_Life\<close>, \<open>Vmm_Regions\<close>: two-level page tables, \<open>core/memory/vmm.c\<close>. \<open>page_words\<close> are the words of pages that hold
    page tables, \<open>ram\<close> the data bytes, \<open>cr3\<close> the directory in use and \<open>mmu\<close> the processor's translation. \<open>vmm_wf\<close> says that
    directories and tables are owned and that all contexts share the kernel's part; every operation keeps
    it. The locale \<open>address_space\<close> gives contiguous regions for tasks and kernel.

  \<^bold>\<open>Tasks.\<close>
  \<^item> \<open>Scheduler\<close>, \<open>Scheduler_Fair\<close>, \<open>Scheduler_Tasks\<close>: \<open>core/scheduler/scheduler.c\<close> and \<open>resource.c\<close>. The record \<open>sched\<close> has the 32 slots of the table,
    the exit codes, the saved registers and the memory manager. Shown: no task starves, a pid names at most one
    task however tasks come and go, until the counter of pids wraps after \<open>2 ^ 31\<close> tasks, what a new task starts with.
  \<^item> \<open>Demo_Machine\<close>, \<open>Demo_Loader\<close>: a small machine with free memory, page tables and translation on which the examples really
    allocate, create a process and load an ELF program with arguments, so that what the theorems about them promise is seen to happen.
  \<^item> \<open>Message\<close>: queues of messages by topic, \<open>core/scheduler/message.c\<close>, refine lists (locale \<open>message_bus\<close>).
  \<^item> \<open>Loader\<close>, \<open>Loader_Segments\<close>, \<open>Loader_Scripts\<close>, \<open>Loader_Disk\<close>: \<open>core/scheduler/loader.c\<close>, \<open>core/syscall/sys_spawn.c\<close> and \<open>sys_spawn_params.c\<close>: ELF images, plain or in the
    two compressed containers, scripts, symbols and arguments. Shown: a loaded segment is what the file says; a program on a disk
    loads as its bytes do and a script runs the executor its first line names, by a full path on any such disk or by a path alone
    that is looked up on the mounts in order, unless it names itself: then loading never returns.

  \<^bold>\<open>Files.\<close>
  \<^item> \<open>Kstring\<close>: \<open>core/utils/string.c\<close>; the word-wise block routines do what byte loops do.
  \<^item> \<open>Vfs\<close>: mounts and the dispatch to drivers, \<open>core/fs/vfs.c\<close>. A driver is a record of functions.
  \<^item> \<open>Ramfs\<close>, \<open>Ramfs_Tree\<close>, \<open>Ramfs_Data\<close>, \<open>Ramfs_Contract\<close>, \<open>Ramfs_Listing\<close>: the file system in memory, \<open>filesystem/ramfs/driver.c\<close>. Nodes and blocks refine a tree with the
    contents of files as byte lists. The locales \<open>readable_store\<close> and \<open>writable_store\<close> state what clients of a file system rely on; they
    are interpreted for a mount behind the virtual file system and again for a program that uses system calls.
  \<^item> \<open>Initrd\<close>, \<open>Initrd_Tree\<close>, \<open>Saf_Make\<close>, \<open>Saf_Proofs\<close>, \<open>Initrd_Contract\<close>, \<open>Initrd_Files\<close>: the initial disk \<open>core/fs/initrd.c\<close> and the packer of its archives
    \<open>pkgs/saf/make/main.c\<close>. \<open>nodes_at\<close> says that nodes in memory hold a tree; the packer makes them, the driver's lookup is that of the
    tree, and a mount is another \<open>readable_store\<close>. Shown: what is packed is loaded and listed; a path behind a file stops the kernel.
  \<^item> \<open>Syscalls\<close>, \<open>Syscalls_Files\<close>, \<open>Syscalls_Tasks\<close>: \<open>core/syscall/*.c\<close>, \<open>core/fs/fd.c\<close>, \<open>core/scheduler/pipe.c\<close>. The record \<open>kernel\<close> joins the components; a
    handler takes the address of the saved registers and reads the memory of the task through its page tables. Shown: programs
    save and load files, messages cross address spaces, and what exit releases. The destructors that other subsystems register for their resources, the sockets and
    threads of other configurations, are the argument \<open>others\<close> of exit and the field \<open>other_dealloc\<close> of \<open>drivers\<close>.

  \<^bold>\<open>Network.\<close> \<open>Net\<close>, \<open>Net_Proofs\<close> (\<open>core/net/\<close> below TCP and \<open>scheduler/async.c\<close>) and \<open>Tcp\<close>, \<open>Tcp_Proofs\<close> (\<open>core/net/tcp.c\<close>). Packets are lists of bytes, the card is the list of
    frames handed to it. Shown: checksums verify, addresses resolve, datagrams and streams arrive, retransmission ends.

  \<^bold>\<open>User side.\<close> \<open>Flvm\<close>, \<open>Flvm_Exec\<close>: the byte-code machine of \<open>libflvm/flvm.c\<close>; compiled expressions evaluate to the values that integer arithmetic, defined apart from
    the machine, gives them. Its stacks are not checked by the code; leaving them is a fault of the model and no property rules it out.
    \<open>Json\<close>, \<open>Json_Contract\<close>: the pull reader of \<open>libjson\<close>; reading a printed document gives its values. \<open>Bytes\<close> has the little-endian fields both sides use.
    \<open>Dns\<close>, \<open>Dns_Names\<close>, \<open>Dns_Domains\<close>, \<open>Dns_Search\<close>: the resolver \<open>libdns/dns.c\<close>; names of any packet are read
    safely, a domain survives the way into a packet and back, and it resolves to the address its server replies. The sockets are
    an argument; the search is partial, as an alias of itself is searched forever. \<open>Calc\<close>, \<open>Calc_Correct\<close>, \<open>Calc_Expressions\<close>: the calculator
    \<open>user/base/calc\<close>; it always returns, expressions with exactly one sum inside every bracket and at most one at the top get their value, and a second sum crashes it.
    \<open>Mcc_Tokens\<close>, \<open>Mcc_Safe\<close>: the tokenizer of the C compiler \<open>user/development/mcc/tokenize.c\<close> with the functions of the C library it calls; on
    any source file it stays inside its buffers and delivers the lexemes of the text in order.

  \<^bold>\<open>How the parts meet.\<close> \<open>vmm\<close> contains \<open>pmm\<close>, \<open>sched\<close> contains \<open>vmm\<close>, and \<open>kernel\<close> extends \<open>sched\<close> by the file system, the descriptors and the messages. The drivers of
    the devices are the record \<open>drivers\<close>, an argument of the dispatcher. The kernel heap is not threaded through its clients: their blocks are
    values or objects with fresh addresses, and their allocations succeed, which the heap's own theorems justify as long as
    it has room. The pages that the file system in memory takes from \<open>vmm_alloc\<close> are such objects too: running out of memory inside a file
    operation, and the reuse of an address that was released, are left out.

  \<^bold>\<open>Bounds.\<close> Paths are read up to 1024 bytes, the buffers of \<open>vfs.c\<close>; strings and arrays handed to a new program up to the page they are
    copied to. Longer ones overrun a buffer of the code and are \<open>OutOfBounds\<close>. No other fuel is used: the remaining loops are structural, have a
    measure, or are partial.

  \<^bold>\<open>Not modelled.\<close> FatFs and the inflate library are third-party code, the latter a parameter of the loader. Drivers of devices, interrupt entry and boot work on hardware
    whose behaviour is not in the sources. Text output only draws. The debugger stub and the sockets of programs are compiled out wrappers. Kernel
    modules, the other kernel file systems, the rest of the C library, the parser and code generator of the compiler, linker, desktop, services and host tools are
    programs or libraries of their own and are left to further work.
\<close>

end
